(* ===== verification/Orbit_Prelude.thy ===== *)
theory Orbit_Prelude
  imports Complex_Main "HOL-Library.AList" "HOL-Library.List_Lexorder"
    "HOL-Library.Char_ord" "HOL-Library.Product_Lexorder"
begin

text \<open>
  Shared vocabulary of the development: the Python values the program exchanges as JSON or
  msgpack documents, Python's number comparison (with the non-finite floats that both formats
  can carry), insertion-ordered dictionaries, results with an error side, and the stable
  sort that \<open>list.sort\<close> and \<open>sorted\<close> perform.

  A finite Python float is represented by the rational number it denotes; the rounding of
  \<open>+\<close>, \<open>-\<close>, \<open>*\<close> and \<open>/\<close> is not modelled.  A \<open>dict\<close> is an association list in
  insertion order whose keys are distinct (\<open>dict_ok\<close>); the keys of a decoded document are
  strings, since neither decoder used by the program produces others.
\<close>

named_theorems py_simps \<open>evaluation of the Python-level helpers\<close>
named_theorems dict_simps \<open>lookups after dictionary updates\<close>
named_theorems result_simps \<open>results with an error side\<close>

section \<open>Floats\<close>

datatype pyfloat = Fin rat | PosInf | NegInf | NaN

fun flt :: "pyfloat \<Rightarrow> pyfloat \<Rightarrow> bool" where
  "flt (Fin a) (Fin b) = (a < b)"
| "flt (Fin a) PosInf = True"
| "flt NegInf (Fin b) = True"
| "flt NegInf PosInf = True"
| "flt _ _ = False"

fun feq :: "pyfloat \<Rightarrow> pyfloat \<Rightarrow> bool" where
  "feq (Fin a) (Fin b) = (a = b)"
| "feq PosInf PosInf = True"
| "feq NegInf NegInf = True"
| "feq _ _ = False"

definition fle :: "pyfloat \<Rightarrow> pyfloat \<Rightarrow> bool" where
  [py_simps]: "fle a b \<longleftrightarrow> flt a b \<or> feq a b"

fun fneg :: "pyfloat \<Rightarrow> pyfloat" where
  "fneg (Fin a) = Fin (- a)"
| "fneg PosInf = NegInf"
| "fneg NegInf = PosInf"
| "fneg NaN = NaN"

fun fadd :: "pyfloat \<Rightarrow> pyfloat \<Rightarrow> pyfloat" where
  "fadd (Fin a) (Fin b) = Fin (a + b)"
| "fadd NaN _ = NaN"
| "fadd _ NaN = NaN"
| "fadd PosInf NegInf = NaN"
| "fadd NegInf PosInf = NaN"
| "fadd PosInf _ = PosInf"
| "fadd _ PosInf = PosInf"
| "fadd NegInf _ = NegInf"
| "fadd _ NegInf = NegInf"

definition fsub :: "pyfloat \<Rightarrow> pyfloat \<Rightarrow> pyfloat" where
  [py_simps]: "fsub a b = fadd a (fneg b)"

text \<open>Division by a non-zero value; callers test the divisor first, as the code does.\<close>

fun fdiv :: "pyfloat \<Rightarrow> pyfloat \<Rightarrow> pyfloat" where
  "fdiv (Fin a) (Fin b) = Fin (a / b)"
| "fdiv (Fin a) PosInf = Fin 0"
| "fdiv (Fin a) NegInf = Fin 0"
| "fdiv PosInf (Fin b) = (if b < 0 then NegInf else PosInf)"
| "fdiv NegInf (Fin b) = (if b < 0 then PosInf else NegInf)"
| "fdiv _ _ = NaN"

text \<open>Python's \<open>min(a, b)\<close> and \<open>max(a, b)\<close> keep the first argument unless the second is
  strictly smaller (greater), which decides what they do with a NaN.\<close>

definition fmin :: "pyfloat \<Rightarrow> pyfloat \<Rightarrow> pyfloat" where
  [py_simps]: "fmin a b = (if flt b a then b else a)"

definition fmax :: "pyfloat \<Rightarrow> pyfloat \<Rightarrow> pyfloat" where
  [py_simps]: "fmax a b = (if flt a b then b else a)"

definition ftruthy :: "pyfloat \<Rightarrow> bool" where
  [py_simps]: "ftruthy f \<longleftrightarrow> f \<noteq> Fin 0"

fun is_finite :: "pyfloat \<Rightarrow> bool" where
  "is_finite (Fin a) = True"
| "is_finite _ = False"

lemma flt_irrefl [simp]: "\<not> flt a a"
  by (cases a) auto

lemma fle_Fin [simp]: "fle (Fin a) (Fin b) \<longleftrightarrow> a \<le> b"
  by (auto simp: fle_def)

lemma fle_NaN [simp]: "\<not> fle NaN b" "\<not> fle a NaN"
  by (cases b, simp_all add: fle_def)

lemma flt_NaN [simp]: "\<not> flt NaN b" "\<not> flt a NaN"
  by (cases b, simp_all)

lemma not_flt_imp_fle: "\<not> flt a b \<Longrightarrow> a \<noteq> NaN \<Longrightarrow> b \<noteq> NaN \<Longrightarrow> fle b a"
  by (cases a; cases b) (auto simp: fle_def)

lemma flt_trans: "flt a b \<Longrightarrow> flt b c \<Longrightarrow> flt a c"
  by (cases a; cases b; cases c) auto

text \<open>Clamping into \<open>[0, 1]\<close> as \<open>max(0.0, min(1.0, x))\<close> is finite for every \<open>x\<close>, a NaN
  included.\<close>

definition clamp01 :: "pyfloat \<Rightarrow> pyfloat" where
  [py_simps]: "clamp01 x = fmax (Fin 0) (fmin (Fin 1) x)"

lemma clamp01_range: "\<exists>r. clamp01 x = Fin r \<and> 0 \<le> r \<and> r \<le> 1"
  by (cases x) (auto simp: clamp01_def fmin_def fmax_def)

text \<open>A total order on floats for sort keys: Python's order on comparable values, with NaN
  placed above all others (a Python sort whose keys contain a NaN has no specified order).\<close>

fun frank :: "pyfloat \<Rightarrow> nat \<times> rat" where
  "frank NegInf = (0, 0)"
| "frank (Fin a) = (1, a)"
| "frank PosInf = (2, 0)"
| "frank NaN = (3, 0)"

instantiation pyfloat :: linorder
begin

definition less_eq_pyfloat :: "pyfloat \<Rightarrow> pyfloat \<Rightarrow> bool" where
  "less_eq_pyfloat a b \<longleftrightarrow> frank a \<le> frank b"

definition less_pyfloat :: "pyfloat \<Rightarrow> pyfloat \<Rightarrow> bool" where
  "less_pyfloat a b \<longleftrightarrow> frank a < frank b"

instance
proof
  fix a b c :: pyfloat
  have inj: "frank a = frank b \<Longrightarrow> a = b"
    by (cases a; cases b) auto
  show "(a < b) = (a \<le> b \<and> \<not> b \<le> a)"
    by (simp add: less_eq_pyfloat_def less_pyfloat_def less_le_not_le)
  show "a \<le> a" by (simp add: less_eq_pyfloat_def)
  show "a \<le> b \<Longrightarrow> b \<le> c \<Longrightarrow> a \<le> c" by (simp add: less_eq_pyfloat_def)
  show "a \<le> b \<Longrightarrow> b \<le> a \<Longrightarrow> a = b"
    unfolding less_eq_pyfloat_def by (rule inj) (rule antisym)
  show "a \<le> b \<or> b \<le> a" by (auto simp: less_eq_pyfloat_def)
qed

end

lemma less_eq_pyfloat_iff_fle:
  "a \<noteq> NaN \<Longrightarrow> b \<noteq> NaN \<Longrightarrow> a \<le> b \<longleftrightarrow> fle a b"
  by (cases a; cases b) (auto simp: less_eq_pyfloat_def fle_def less_eq_prod_def)

lemma less_eq_pyfloat_Fin [simp]: "Fin a \<le> Fin b \<longleftrightarrow> a \<le> b" "Fin a < Fin b \<longleftrightarrow> a < b"
  by (auto simp: less_eq_pyfloat_def less_pyfloat_def less_prod_def less_eq_prod_def)

section \<open>Values\<close>

datatype pyval =
    PNone
  | PBool bool
  | PInt int
  | PFloat pyfloat
  | PStr string
  | PBytes string
  | PList "pyval list"
  | PDict "(string \<times> pyval) list"

type_synonym dict = "(string \<times> pyval) list"

text \<open>\<open>isinstance\<close> tests; a Python \<open>bool\<close> is an \<open>int\<close>, which \<open>is_int\<close> excludes as the code
  does everywhere.\<close>

fun is_str :: "pyval \<Rightarrow> bool" where
  "is_str (PStr _) = True" | "is_str _ = False"

fun is_bool :: "pyval \<Rightarrow> bool" where
  "is_bool (PBool _) = True" | "is_bool _ = False"

fun is_int :: "pyval \<Rightarrow> bool" where
  "is_int (PInt _) = True" | "is_int _ = False"

fun is_number :: "pyval \<Rightarrow> bool" where
  "is_number (PInt _) = True" | "is_number (PFloat _) = True" | "is_number _ = False"

fun is_str_list :: "pyval \<Rightarrow> bool" where
  "is_str_list (PList vs) = list_all is_str vs" | "is_str_list _ = False"

fun str_of :: "pyval \<Rightarrow> string" where
  "str_of (PStr s) = s" | "str_of _ = ''''"

fun truthy :: "pyval \<Rightarrow> bool" where
  "truthy PNone = False"
| "truthy (PBool b) = b"
| "truthy (PInt i) = (i \<noteq> 0)"
| "truthy (PFloat f) = ftruthy f"
| "truthy (PStr s) = (s \<noteq> [])"
| "truthy (PBytes s) = (s \<noteq> [])"
| "truthy (PList vs) = (vs \<noteq> [])"
| "truthy (PDict d) = (d \<noteq> [])"

lemma is_str_iff: "is_str v \<longleftrightarrow> (\<exists>s. v = PStr s)"
  by (cases v) auto

text \<open>The numeric reading of a value: \<open>bool\<close>, \<open>int\<close> and \<open>float\<close> compare with each other.\<close>

fun num_of :: "pyval \<Rightarrow> pyfloat option" where
  "num_of (PBool b) = Some (Fin (if b then 1 else 0))"
| "num_of (PInt i) = Some (Fin (of_int i))"
| "num_of (PFloat f) = Some f"
| "num_of _ = None"

lemma pyval_dict_size:
  "kv \<in> set d \<Longrightarrow> size (snd kv) < Suc (size_list (size_prod (\<lambda>_. 0) size) d)"
  for d :: dict
  by (induction d) auto

text \<open>Python's \<open>==\<close>.\<close>

function py_eq :: "pyval \<Rightarrow> pyval \<Rightarrow> bool" where
  "py_eq a b =
    (case (num_of a, num_of b) of
       (Some x, Some y) \<Rightarrow> feq x y
     | (None, None) \<Rightarrow>
        (case (a, b) of
           (PNone, PNone) \<Rightarrow> True
         | (PStr s, PStr t) \<Rightarrow> s = t
         | (PBytes s, PBytes t) \<Rightarrow> s = t
         | (PList xs, PList ys) \<Rightarrow>
             length xs = length ys \<and> (\<forall>p \<in> set (zip xs ys). py_eq (fst p) (snd p))
         | (PDict d, PDict e) \<Rightarrow>
             length d = length e \<and>
             (\<forall>kv \<in> set d. (case map_of e (fst kv) of None \<Rightarrow> False | Some v \<Rightarrow> py_eq (snd kv) v))
         | _ \<Rightarrow> False)
     | _ \<Rightarrow> False)"
  by pat_completeness auto

termination
proof (relation "measure (\<lambda>(a, b). size a)", goal_cases)
  case 1
  show ?case by simp
next
  case 2
  then show ?case
    by (auto simp: less_Suc_eq_le split: prod.splits dest!: set_zip_leftD intro: size_list_estimation')
next
  case 3
  then show ?case by (auto simp: pyval_dict_size)
qed

declare py_eq.simps [simp del]

lemma py_eq_PStr [simp]: "py_eq (PStr s) (PStr t) \<longleftrightarrow> s = t"
  by (simp add: py_eq.simps)

lemma py_eq_PStr_iff: "py_eq a (PStr t) \<longleftrightarrow> a = PStr t"
  by (cases a) (auto simp: py_eq.simps)

section \<open>Exceptions and dictionary keys\<close>

datatype py_error = TypeError | ValueError | AttributeError | KeyError | OverflowError

text \<open>The canonical form of a value as a dictionary key or set element: numbers that compare equal
  are one key; a list or a dictionary is not hashable.\<close>

fun hash_key :: "pyval \<Rightarrow> pyval option" where
  "hash_key (PList _) = None"
| "hash_key (PDict _) = None"
| "hash_key v = (case num_of v of Some f \<Rightarrow> Some (PFloat f) | None \<Rightarrow> Some v)"

text \<open>What a \<open>for\<close> loop over a value runs through.\<close>

fun py_iter :: "pyval \<Rightarrow> py_error + pyval list" where
  "py_iter (PList vs) = Inr vs"
| "py_iter (PStr s) = Inr (map (\<lambda>c. PStr [c]) s)"
| "py_iter (PBytes s) = Inr (map (\<lambda>c. PInt (int (of_char c))) s)"
| "py_iter (PDict d) = Inr (map (PStr \<circ> fst) d)"
| "py_iter _ = Inl TypeError"

text \<open>An operand of a comparison with a number.\<close>

definition as_num :: "pyval \<Rightarrow> py_error + pyfloat" where
  "as_num v = (case num_of v of None \<Rightarrow> Inl TypeError | Some f \<Rightarrow> Inr f)"

lemma as_num_simps [simp]:
  "as_num (PInt i) = Inr (Fin (of_int i))" "as_num (PFloat f) = Inr f"
  "as_num (PBool b) = Inr (Fin (if b then 1 else 0))"
  by (simp_all add: as_num_def)

lemma hash_key_str: "is_str v \<Longrightarrow> hash_key v = Some v"
  by (cases v) auto

section \<open>Results\<close>

text \<open>\<open>Inl\<close> carries an exception, \<open>Inr\<close> a value; sequencing stops at the first exception.\<close>

definition rbind :: "'e + 'a \<Rightarrow> ('a \<Rightarrow> 'e + 'b) \<Rightarrow> 'e + 'b" where
  "rbind m f = (case m of Inl e \<Rightarrow> Inl e | Inr x \<Rightarrow> f x)"

definition guard_or :: "bool \<Rightarrow> 'e \<Rightarrow> 'e + unit" where
  "guard_or ok e = (if ok then Inr () else Inl e)"

fun rmap_list :: "('a \<Rightarrow> 'e + 'b) \<Rightarrow> 'a list \<Rightarrow> 'e + 'b list" where
  "rmap_list f [] = Inr []"
| "rmap_list f (x # xs) = rbind (f x) (\<lambda>y. rbind (rmap_list f xs) (\<lambda>ys. Inr (y # ys)))"

fun rfilter :: "('a \<Rightarrow> 'e + bool) \<Rightarrow> 'a list \<Rightarrow> 'e + 'a list" where
  "rfilter f [] = Inr []"
| "rfilter f (x # xs) = rbind (f x) (\<lambda>b. rbind (rfilter f xs) (\<lambda>ys. Inr (if b then x # ys else ys)))"

lemma rbind_simps [simp]: "rbind (Inl e) f = Inl e" "rbind (Inr x) f = f x"
  by (simp_all add: rbind_def)

lemma rbind_eq_Inr [result_simps]:
  "rbind m f = Inr y \<longleftrightarrow> (\<exists>x. m = Inr x \<and> f x = Inr y)"
  by (cases m) auto

lemma rbind_eq_Inl [result_simps]:
  "rbind m f = Inl e \<longleftrightarrow> m = Inl e \<or> (\<exists>x. m = Inr x \<and> f x = Inl e)"
  by (cases m) auto

lemma guard_or_eq [result_simps]:
  "guard_or ok e = Inr u \<longleftrightarrow> ok" "guard_or ok e = Inl e' \<longleftrightarrow> \<not> ok \<and> e' = e"
  by (auto simp: guard_or_def)

lemma rmap_list_length: "rmap_list f xs = Inr ys \<Longrightarrow> length ys = length xs"
  by (induction xs arbitrary: ys) (auto simp: result_simps)

lemma rmap_list_set:
  "rmap_list f xs = Inr ys \<Longrightarrow> y \<in> set ys \<Longrightarrow> \<exists>x \<in> set xs. f x = Inr y"
  by (induction xs arbitrary: ys) (auto simp: result_simps)

lemma rfilter_Inr:
  "rfilter f xs = Inr ys \<longleftrightarrow> (\<forall>x \<in> set xs. \<exists>b. f x = Inr b) \<and> ys = filter (\<lambda>x. f x = Inr True) xs"
proof (induction xs arbitrary: ys)
  case (Cons x xs)
  show ?case
  proof (cases "f x")
    case (Inr b)
    then show ?thesis using Cons.IH by (cases b) (auto simp: result_simps)
  qed simp
qed auto

section \<open>Dictionaries\<close>

definition dict_ok :: "('k \<times> 'v) list \<Rightarrow> bool" where
  "dict_ok d \<longleftrightarrow> distinct (map fst d)"

abbreviation dget :: "('k \<times> 'v) list \<Rightarrow> 'k \<Rightarrow> 'v option" where
  "dget d k \<equiv> map_of d k"

text \<open>\<open>d[k] = v\<close> keeps the position of a present key and appends a new one; \<open>d.pop(k, None)\<close>
  removes the key.\<close>

abbreviation dset :: "'k \<Rightarrow> 'v \<Rightarrow> ('k \<times> 'v) list \<Rightarrow> ('k \<times> 'v) list" where
  "dset \<equiv> AList.update"

abbreviation dpop :: "'k \<Rightarrow> ('k \<times> 'v) list \<Rightarrow> ('k \<times> 'v) list" where
  "dpop \<equiv> AList.delete"

abbreviation dvalues :: "('k \<times> 'v) list \<Rightarrow> 'v list" where
  "dvalues d \<equiv> map snd d"

definition dhas :: "('k \<times> 'v) list \<Rightarrow> 'k \<Rightarrow> bool" where
  "dhas d k \<longleftrightarrow> map_of d k \<noteq> None"

text \<open>\<open>d.get(k)\<close> and \<open>d.get(k, default)\<close> on a document.\<close>

definition pget :: "dict \<Rightarrow> string \<Rightarrow> pyval" where
  "pget d k = (case map_of d k of None \<Rightarrow> PNone | Some v \<Rightarrow> v)"

definition pget_or :: "dict \<Rightarrow> string \<Rightarrow> pyval \<Rightarrow> pyval" where
  "pget_or d k v0 = (case map_of d k of None \<Rightarrow> v0 | Some v \<Rightarrow> v)"

text \<open>\<open>{**a, **b}\<close>: the keys of \<open>a\<close>, overwritten and extended by those of \<open>b\<close>.\<close>

definition dmerge :: "('k \<times> 'v) list \<Rightarrow> ('k \<times> 'v) list \<Rightarrow> ('k \<times> 'v) list" where
  "dmerge a b = fold (\<lambda>(k, v) d. AList.update k v d) b a"

lemma dget_dset [simp, dict_simps]: "dget (dset k v d) k' = (if k' = k then Some v else dget d k')"
  by (simp add: update_conv')

lemma dget_dpop [simp, dict_simps]: "dget (dpop k d) k' = (if k' = k then None else dget d k')"
  by (simp add: delete_conv')

lemma dict_ok_dset [simp, intro]: "dict_ok d \<Longrightarrow> dict_ok (dset k v d)"
  by (simp add: dict_ok_def distinct_update)

lemma dict_ok_dpop [simp, intro]: "dict_ok d \<Longrightarrow> dict_ok (dpop k d)"
  by (simp add: dict_ok_def distinct_delete)

lemma dict_ok_Nil [simp]: "dict_ok []"
  by (simp add: dict_ok_def)

lemma dict_ok_dget: "dict_ok d \<Longrightarrow> dget d k = Some v \<longleftrightarrow> (k, v) \<in> set d"
  by (auto simp: dict_ok_def)

lemma dget_Some_value: "dget d k = Some v \<Longrightarrow> v \<in> set (dvalues d)"
  by (force dest: map_of_SomeD)

lemma dvalues_dget: "dict_ok d \<Longrightarrow> v \<in> set (dvalues d) \<Longrightarrow> \<exists>k. dget d k = Some v"
  by (auto simp: dict_ok_def)

lemma keys_dset: "map fst (dset k v d) = (if k \<in> fst ` set d then map fst d else map fst d @ [k])"
  by (induction d) auto

lemma keys_dset_present: "dget d k \<noteq> None \<Longrightarrow> map fst (dset k v d) = map fst d"
  by (simp add: keys_dset map_of_eq_None_iff)

lemma length_dset: "length (dset k v d) = (if dget d k = None then Suc (length d) else length d)"
  by (induction d) auto

lemma dget_dmerge:
  "dict_ok b \<Longrightarrow> dget (dmerge a b) k = (case dget b k of None \<Rightarrow> dget a k | Some v \<Rightarrow> Some v)"
proof (induction b arbitrary: a)
  case Nil
  then show ?case by (simp add: dmerge_def)
next
  case (Cons p b)
  obtain k' v' where p: "p = (k', v')" by (cases p)
  from Cons.prems p have ok: "dict_ok b" and new: "dget b k' = None"
    by (auto simp: dict_ok_def map_of_eq_None_iff)
  have "dget (dmerge a (p # b)) k = dget (dmerge (dset k' v' a) b) k"
    by (simp add: dmerge_def p)
  also have "\<dots> = (case dget b k of None \<Rightarrow> dget (dset k' v' a) k | Some v \<Rightarrow> Some v)"
    using Cons.IH ok by blast
  finally show ?case using new p by (auto split: option.splits)
qed

lemma dict_ok_dmerge: "dict_ok a \<Longrightarrow> dict_ok (dmerge a b)"
  unfolding dmerge_def by (induction b arbitrary: a) auto

lemma dvalues_dset_subset: "set (dvalues (dset k v d)) \<subseteq> insert v (set (dvalues d))"
  by (induction d) auto

text \<open>Updating one entry in place keeps the list of keys, so a value-wise map does.\<close>

definition dmap_values :: "('v \<Rightarrow> 'w) \<Rightarrow> ('k \<times> 'v) list \<Rightarrow> ('k \<times> 'w) list" where
  "dmap_values f d = map (\<lambda>(k, v). (k, f v)) d"

lemma dget_dmap_values [simp, dict_simps]: "dget (dmap_values f d) k = map_option f (dget d k)"
  by (induction d) (auto simp: dmap_values_def)

lemma keys_dmap_values [simp]: "map fst (dmap_values f d) = map fst d"
  by (induction d) (auto simp: dmap_values_def)

lemma dvalues_dmap_values [simp]: "dvalues (dmap_values f d) = map f (dvalues d)"
  by (induction d) (auto simp: dmap_values_def)

lemma dict_ok_dmap_values [simp]: "dict_ok (dmap_values f d) = dict_ok d"
  by (simp add: dict_ok_def)

section \<open>Stable sorting\<close>

text \<open>\<open>xs.sort(key=f)\<close> is \<^const>\<open>sort_key\<close>, the stable sort of the library.  A minimal element is
  what the code reads off as the first one of the sorted list.\<close>

lemma hd_sort_key_in: "xs \<noteq> [] \<Longrightarrow> hd (sort_key f xs) \<in> set xs"
  by (metis list.set_sel(1) set_sort sort_key_simps(1) set_empty)

lemma hd_sort_key_le: "x \<in> set xs \<Longrightarrow> f (hd (sort_key f xs)) \<le> f x"
proof -
  assume "x \<in> set xs"
  then have x: "x \<in> set (sort_key f xs)" by simp
  then obtain y ys where ys: "sort_key f xs = y # ys" by (cases "sort_key f xs") auto
  have "sorted (map f (y # ys))" using sorted_sort_key [of f xs] ys by simp
  with x ys show ?thesis by auto
qed

lemma sort_key_eq_Nil [simp]: "sort_key f xs = [] \<longleftrightarrow> xs = []"
  by (metis length_0_conv length_sort)

lemma sort_key_idem: "sorted (map f xs) \<Longrightarrow> sort_key f xs = xs"
  by (induction xs) (auto simp: insort_is_Cons)

section \<open>Counting\<close>

lemma length_filter_dset_new:
  "dget d k = None \<Longrightarrow>
    length (filter P (dvalues (dset k v d))) = length (filter P (dvalues d)) + (if P v then 1 else 0)"
  by (induction d) (auto split: if_splits)

lemma length_filter_dset_old:
  "dict_ok d \<Longrightarrow> dget d k = Some w \<Longrightarrow>
    int (length (filter P (dvalues (dset k v d)))) =
      int (length (filter P (dvalues d))) + (if P v then 1 else 0) - (if P w then 1 else 0)"
proof (induction d)
  case Nil
  then show ?case by simp
next
  case (Cons p d)
  then show ?case by (cases p) (auto simp: dict_ok_def split: if_splits)
qed

end
