(* ===== verification/Drop_Oldest_Queue.thy ===== *)
theory Drop_Oldest_Queue
  imports Orbit_Prelude "HOL-Library.Sublist"
begin

text \<open>
  The bounded queue of \<^verbatim>\<open>queues.py\<close> that stands between an event producer and one slow
  consumer.  \<open>push\<close> never blocks and evicts the oldest item of a full buffer; the consumer of
  \<open>drain\<close> waits on the \<open>wake\<close> event, clears it and pops until the buffer is empty, giving up
  the loop at every item.  The consumer's position is explicit (\<open>consumer\<close>), so that pushes
  can interleave with a half-finished drain.  The interface is a locale of a first-in,
  first-out buffer that forgets its oldest items, with what a burst of pushes leaves behind.
\<close>

section \<open>The queue\<close>

record 'a bqueue =
  buf :: "'a list"
  maxlen :: nat
  dropped :: nat
  wake :: bool

definition new_queue :: "nat \<Rightarrow> 'a bqueue" where
  "new_queue n = \<lparr>buf = [], maxlen = n, dropped = 0, wake = False\<rparr>"

text \<open>\<open>deque(maxlen).append\<close>: the oldest items beyond the bound fall out.\<close>

definition deque_append :: "nat \<Rightarrow> 'a list \<Rightarrow> 'a \<Rightarrow> 'a list" where
  "deque_append n xs x = (let ys = xs @ [x] in drop (length ys - n) ys)"

definition push :: "'a \<Rightarrow> 'a bqueue \<Rightarrow> 'a bqueue" where
  "push x q =
    (let q1 = (if length (buf q) = maxlen q then q\<lparr>dropped := dropped q + 1\<rparr> else q)
     in q1\<lparr>buf := deque_append (maxlen q) (buf q) x, wake := True\<rparr>)"

text \<open>Where the consumer of \<open>drain\<close> is suspended: at \<open>wake.wait()\<close>, inside the popping loop, or
  finished (returned or cancelled).\<close>

datatype consumer = Waiting | Draining | Finished

text \<open>One resumption of the generator: it blocks, passes the wait, leaves the popping loop, or
  yields the oldest item.\<close>

fun drain_step :: "consumer \<Rightarrow> 'a bqueue \<Rightarrow> consumer \<times> 'a bqueue \<times> 'a option" where
  "drain_step Waiting q = (if wake q then (Draining, q\<lparr>wake := False\<rparr>, None) else (Waiting, q, None))"
| "drain_step Draining q =
    (case buf q of [] \<Rightarrow> (Waiting, q, None) | x # xs \<Rightarrow> (Draining, q\<lparr>buf := xs\<rparr>, Some x))"
| "drain_step Finished q = (Finished, q, None)"

definition queue_ok :: "'a bqueue \<Rightarrow> bool" where
  "queue_ok q \<longleftrightarrow> length (buf q) \<le> maxlen q"

text \<open>No lost wakeup: a consumer asleep at the wait has its event set whenever items are
  buffered.\<close>

definition no_lost_wakeup :: "consumer \<Rightarrow> 'a bqueue \<Rightarrow> bool" where
  "no_lost_wakeup c q \<longleftrightarrow> (c = Waiting \<and> buf q \<noteq> [] \<longrightarrow> wake q)"

section \<open>What a push does\<close>

lemma push_fields [simp]:
  "maxlen (push x q) = maxlen q" "wake (push x q)"
  "buf (push x q) = deque_append (maxlen q) (buf q) x"
  "dropped (push x q) = dropped q + (if length (buf q) = maxlen q then 1 else 0)"
  by (simp_all add: push_def Let_def)

lemma deque_append_room: "length xs < n \<Longrightarrow> deque_append n xs x = xs @ [x]"
  by (simp add: deque_append_def)

lemma deque_append_full: "length xs = n \<Longrightarrow> deque_append n xs x = drop 1 (xs @ [x])"
  by (simp add: deque_append_def)

lemma queue_ok_new [simp]: "queue_ok (new_queue n)"
  by (simp add: queue_ok_def new_queue_def)

lemma queue_ok_push: "queue_ok q \<Longrightarrow> queue_ok (push x q)"
  by (simp add: queue_ok_def deque_append_def Let_def)

lemma queue_ok_drain_step: "drain_step c q = (c', q', r) \<Longrightarrow> queue_ok q \<Longrightarrow> queue_ok q'"
  by (cases c) (auto simp: queue_ok_def split: if_splits list.splits)

section \<open>The interface: a buffer that forgets its oldest items\<close>

locale drop_oldest =
  fixes ins :: "'a \<Rightarrow> 'q \<Rightarrow> 'q"
    and items :: "'q \<Rightarrow> 'a list"
    and bound :: "'q \<Rightarrow> nat"
    and lost :: "'q \<Rightarrow> nat"
    and ok :: "'q \<Rightarrow> bool"
  assumes bound_ins: "bound (ins x q) = bound q"
    and ok_ins: "ok q \<Longrightarrow> ok (ins x q)"
    and ok_items: "ok q \<Longrightarrow> length (items q) \<le> bound q"
    and items_room: "ok q \<Longrightarrow> length (items q) < bound q \<Longrightarrow> items (ins x q) = items q @ [x]"
    and items_full: "ok q \<Longrightarrow> length (items q) = bound q \<Longrightarrow> items (ins x q) = drop 1 (items q @ [x])"
    and lost_ins: "ok q \<Longrightarrow> lost (ins x q) = lost q + (if length (items q) = bound q then 1 else 0)"
begin

lemma ins_keeps_newest:
  "ok q \<Longrightarrow> items (ins x q) = drop (length (items q) + 1 - bound q) (items q @ [x])"
  using ok_items [of q] items_room [of q x] items_full [of q x]
  by (cases "length (items q) = bound q") auto

lemma burst:
  assumes "ok q"
  shows "ok (fold ins xs q) \<and> bound (fold ins xs q) = bound q \<and>
    items (fold ins xs q) = drop (length (items q @ xs) - bound q) (items q @ xs) \<and>
    lost (fold ins xs q) = lost q + (length (items q @ xs) - bound q)"
  using assms
proof (induction xs arbitrary: q)
  case Nil
  then show ?case using ok_items [of q] by simp
next
  case (Cons x xs)
  let ?q = "ins x q"
  have le: "length (items q) \<le> bound q" by (rule ok_items [OF Cons.prems])
  have IH: "ok (fold ins xs ?q) \<and> bound (fold ins xs ?q) = bound ?q \<and>
    items (fold ins xs ?q) = drop (length (items ?q @ xs) - bound ?q) (items ?q @ xs) \<and>
    lost (fold ins xs ?q) = lost ?q + (length (items ?q @ xs) - bound ?q)"
    using Cons.IH ok_ins [OF Cons.prems] by blast
  show ?case
  proof (cases "length (items q) = bound q")
    case True
    then have it: "items ?q = drop 1 (items q @ [x])" and l: "lost ?q = lost q + 1"
      using items_full lost_ins Cons.prems by auto
    have whole: "items ?q @ xs = drop 1 (items q @ x # xs)"
      using it by (cases "items q") auto
    then have len: "length (items ?q @ xs) - bound ?q = length xs"
      using True by (simp add: bound_ins)
    have "items (fold ins xs ?q) = drop (length (items q @ x # xs) - bound q) (items q @ x # xs)"
      using IH True unfolding len unfolding whole drop_drop by simp
    moreover have "lost (fold ins xs ?q) = lost q + 1 + length xs"
      using IH l unfolding len by simp
    ultimately show ?thesis using IH True by (simp add: bound_ins)
  next
    case False
    with le have "items ?q = items q @ [x]" "lost ?q = lost q"
      using items_room lost_ins Cons.prems by auto
    with IH show ?thesis by (auto simp: bound_ins)
  qed
qed

end

interpretation dq: drop_oldest push buf maxlen dropped queue_ok
  by unfold_locales
    (auto simp: queue_ok_push deque_append_room deque_append_full, simp add: queue_ok_def)

section \<open>Histories of pushes and consumer steps\<close>

datatype 'a queue_op = Push 'a | Resume

text \<open>A run keeps the items pushed so far and the items handed to the consumer.\<close>

fun queue_run :: "'a queue_op list \<Rightarrow> consumer \<times> 'a bqueue \<times> 'a list \<times> 'a list
    \<Rightarrow> consumer \<times> 'a bqueue \<times> 'a list \<times> 'a list" where
  "queue_run [] s = s"
| "queue_run (Push x # ops) (c, q, pushed, got) = queue_run ops (c, push x q, pushed @ [x], got)"
| "queue_run (Resume # ops) (c, q, pushed, got) =
    (let (c', q', r) = drain_step c q
     in queue_run ops (c', q', pushed, got @ (case r of None \<Rightarrow> [] | Some x \<Rightarrow> [x])))"

definition history_ok :: "consumer \<times> 'a bqueue \<times> 'a list \<times> 'a list \<Rightarrow> bool" where
  "history_ok s = (case s of (c, q, pushed, got) \<Rightarrow>
     queue_ok q \<and> no_lost_wakeup c q \<and> subseq (got @ buf q) pushed \<and>
     length got + length (buf q) + dropped q = length pushed)"

lemma subseq_drop_last:
  assumes "subseq (got @ xs) ps"
  shows "subseq (got @ drop n (xs @ [x])) (ps @ [x])"
proof -
  have "subseq (drop n (xs @ [x])) (xs @ [x])"
    by (rule suffix_imp_subseq, rule suffix_drop)
  then have "subseq (got @ drop n (xs @ [x])) (got @ (xs @ [x]))"
    by (rule list_emb_append_mono [OF subseq_order.order_refl])
  moreover have "subseq ((got @ xs) @ [x]) (ps @ [x])"
    using assms by (rule list_emb_append_mono) simp
  ultimately show ?thesis by (auto intro: subseq_order.trans)
qed

lemma history_ok_push:
  assumes "history_ok (c, q, pushed, got)"
  shows "history_ok (c, push x q, pushed @ [x], got)"
proof -
  have le: "length (buf q) \<le> maxlen q" using assms by (simp add: history_ok_def queue_ok_def)
  have "subseq (got @ deque_append (maxlen q) (buf q) x) (pushed @ [x])"
    unfolding deque_append_def Let_def
    by (rule subseq_drop_last) (use assms in \<open>simp add: history_ok_def\<close>)
  moreover have "length got + length (deque_append (maxlen q) (buf q) x) + dropped (push x q) =
      length (pushed @ [x])"
    using assms le by (auto simp: history_ok_def deque_append_def)
  ultimately show ?thesis
    using assms by (simp add: history_ok_def queue_ok_push no_lost_wakeup_def)
qed

lemma history_ok_resume:
  assumes "history_ok (c, q, pushed, got)" and "drain_step c q = (c', q', r)"
  shows "history_ok (c', q', pushed, got @ (case r of None \<Rightarrow> [] | Some x \<Rightarrow> [x]))"
  using assms
  by (cases c) (auto simp: history_ok_def no_lost_wakeup_def queue_ok_def
      split: if_splits list.splits)

lemma queue_run_history_ok: "history_ok s \<Longrightarrow> history_ok (queue_run ops s)"
proof (induction ops s rule: queue_run.induct)
  case (3 ops c q pushed got)
  obtain c' q' r where st: "drain_step c q = (c', q', r)" by (metis prod_cases3)
  with 3 show ?case by (auto simp: history_ok_resume)
qed (auto simp: history_ok_push)

lemma history_ok_init: "history_ok (Waiting, new_queue n, [], [])"
  by (simp add: history_ok_def no_lost_wakeup_def new_queue_def queue_ok_def)

section \<open>Properties\<close>

text \<open>A burst of pushes into an empty queue leaves exactly the newest \<open>n\<close> items, in order, and
  counts every other one as dropped.\<close>

theorem push_burst_keeps_newest:
  "buf (fold push xs (new_queue n)) = drop (length xs - n) xs \<and>
   dropped (fold push xs (new_queue n)) = length xs - n"
  using dq.burst [OF queue_ok_new, of xs n] by (simp add: new_queue_def)

text \<open>C4. However pushes and consumer steps interleave, what the consumer received followed by what is
  still buffered is a subsequence of what was pushed, every missing item is accounted for in
  \<open>dropped\<close>, the buffer respects its bound, and a sleeping consumer is woken whenever items are
  buffered.\<close>

theorem queue_history:
  "case queue_run ops (Waiting, new_queue n, [], []) of (c, q, pushed, got) \<Rightarrow>
     subseq (got @ buf q) pushed \<and>
     length got + length (buf q) + dropped q = length pushed \<and>
     length (buf q) \<le> maxlen q \<and>
     \<not> (c = Waiting \<and> buf q \<noteq> [] \<and> \<not> wake q)"
  using queue_run_history_ok [OF history_ok_init, of ops n]
  by (auto simp: history_ok_def no_lost_wakeup_def queue_ok_def)

end
