(* ===== verification/Event_Router.thy ===== *)
theory Event_Router
  imports Drop_Oldest_Queue
begin

text \<open>
  The broker's event router (\<^verbatim>\<open>broker_events.py\<close>): subscription patterns and their per-stream
  index, numbering of events per \<open>(src, plugin, session)\<close> stream and on the global session-less
  stream, the fan-out into one bounded queue per subscriber, and the sender coroutine of each
  subscriber.  An event is the decoded frame, a document; the packing of frames
  (\<open>msgpack.packb\<close>) is the parameter \<open>packb\<close> of the operations that use it.
\<close>

section \<open>Patterns\<close>

record pattern =
  pat_endpoint :: "string option"
  pat_plugin :: "string option"
  pat_topic :: "string option"
  pat_session :: "string option"

definition pattern_keys :: "string list" where
  "pattern_keys = [''endpoint'', ''plugin'', ''topic'', ''session'']"

text \<open>One optional string field of the pydantic model: absent and \<open>None\<close> are the wildcard; a
  \<open>bytes\<close> value is read as a string, anything else is refused.\<close>

fun opt_str_field :: "pyval option \<Rightarrow> string option option" where
  "opt_str_field None = Some None"
| "opt_str_field (Some PNone) = Some None"
| "opt_str_field (Some (PStr s)) = Some (Some s)"
| "opt_str_field (Some (PBytes s)) = Some (Some s)"
| "opt_str_field _ = None"

text \<open>\<open>SubscribePattern(**p)\<close>; \<open>None\<close> stands for the \<open>TypeError\<close> or \<open>ValueError\<close> it raises.\<close>

definition parse_pattern :: "pyval \<Rightarrow> pattern option" where
  "parse_pattern p = (case p of
     PDict d \<Rightarrow>
       if list_all (\<lambda>k. k \<in> set pattern_keys) (map fst d) then
         Option.bind (opt_str_field (dget d ''endpoint'')) (\<lambda>e.
         Option.bind (opt_str_field (dget d ''plugin'')) (\<lambda>pl.
         Option.bind (opt_str_field (dget d ''topic'')) (\<lambda>t.
         Option.bind (opt_str_field (dget d ''session'')) (\<lambda>s.
           Some \<lparr>pat_endpoint = e, pat_plugin = pl, pat_topic = t, pat_session = s\<rparr>))))
       else None
   | _ \<Rightarrow> None)"

text \<open>The serializer of a pattern leaves an unset session out.\<close>

definition opt_str :: "string option \<Rightarrow> pyval" where
  "opt_str x = (case x of None \<Rightarrow> PNone | Some s \<Rightarrow> PStr s)"

definition dump_pattern :: "pattern \<Rightarrow> dict" where
  "dump_pattern p =
     [(''endpoint'', opt_str (pat_endpoint p)), (''plugin'', opt_str (pat_plugin p)),
      (''topic'', opt_str (pat_topic p))] @
     (case pat_session p of None \<Rightarrow> [] | Some s \<Rightarrow> [(''session'', PStr s)])"

text \<open>One pattern of a subscription request: an empty session is none, as on events.\<close>

definition normal_session :: "pattern \<Rightarrow> pattern" where
  "normal_session p = (if pat_session p = Some [] then p\<lparr>pat_session := None\<rparr> else p)"

definition request_patterns :: "dict \<Rightarrow> pattern list" where
  "request_patterns raw = (case pget raw ''patterns'' of
     PList ps \<Rightarrow> map normal_session (List.map_filter parse_pattern ps)
   | _ \<Rightarrow> [])"

section \<open>Router state\<close>

text \<open>A connection object is known by its identity alone (the code compares sockets with \<open>is\<close>).\<close>

type_synonym socket = nat

type_synonym stream3 = "string \<times> pyval \<times> pyval"
type_synonym pat_index =
  "pattern list \<times> ((string \<times> string \<times> string) \<times> pattern list) list
     \<times> ((string \<times> string) \<times> pattern list) list"

record 'b router =
  subscriptions :: "(string \<times> pattern list) list"
  index :: "(string \<times> pat_index) list"
  outq :: "(string \<times> 'b bqueue) list"
  senders :: "(string \<times> consumer) list"
  session_seq :: "(stream3 \<times> nat) list"
  session_seq_max :: nat
  session_seq_base :: nat
  global_seq :: nat
  taps :: "nat list"
  host_up :: bool
  event_queue :: nat

definition SESSION_SEQ_MAX :: nat where
  "SESSION_SEQ_MAX = 65536"

definition new_router :: "nat \<Rightarrow> 'b router" where
  "new_router eq = \<lparr>subscriptions = [], index = [], outq = [], senders = [], session_seq = [],
     session_seq_max = SESSION_SEQ_MAX, session_seq_base = 0, global_seq = 0, taps = [],
     host_up = False, event_queue = eq\<rparr>"

section \<open>The pattern index\<close>

definition is_stream_pattern :: "pattern \<Rightarrow> bool" where
  "is_stream_pattern p \<longleftrightarrow>
     pat_session p \<noteq> None \<and> pat_endpoint p \<noteq> None \<and> pat_plugin p \<noteq> None"

definition append_at :: "'k \<Rightarrow> 'v \<Rightarrow> ('k \<times> 'v list) list \<Rightarrow> ('k \<times> 'v list) list" where
  "append_at k v d = dset k ((case dget d k of None \<Rightarrow> [] | Some vs \<Rightarrow> vs) @ [v]) d"

definition index_one :: "pattern \<Rightarrow> pat_index \<Rightarrow> pat_index" where
  "index_one p ix = (case ix of (rest, streams, pairs) \<Rightarrow>
     (case (pat_endpoint p, pat_plugin p, pat_session p) of
        (Some e, Some pl, Some s) \<Rightarrow>
          (rest, append_at (e, pl, s) p streams, append_at (e, pl) p pairs)
      | _ \<Rightarrow> (rest @ [p], streams, pairs)))"

definition build_index :: "pattern list \<Rightarrow> pat_index" where
  "build_index ps = fold index_one ps ([], [], [])"

definition subscribed :: "'b router \<Rightarrow> string \<Rightarrow> pattern list" where
  "subscribed r name = (case dget (subscriptions r) name of None \<Rightarrow> [] | Some ps \<Rightarrow> ps)"

definition reindex :: "string \<Rightarrow> 'b router \<Rightarrow> 'b router" where
  "reindex name r = r\<lparr>index := dset name (build_index (subscribed r name)) (index r)\<rparr>"

definition setdefault_subs :: "string \<Rightarrow> 'b router \<Rightarrow> 'b router" where
  "setdefault_subs name r =
     r\<lparr>subscriptions := (if dhas (subscriptions r) name then subscriptions r
                         else dset name [] (subscriptions r))\<rparr>"

definition update_subscription :: "string \<Rightarrow> dict \<Rightarrow> bool \<Rightarrow> 'b router \<Rightarrow> 'b router" where
  "update_subscription name raw add r =
    (let ps = request_patterns raw;
         r1 = setdefault_subs name r;
         cur = subscribed r1 name;
         cur' = (if add then cur @ ps else fold remove1 ps cur)
     in reindex name (r1\<lparr>subscriptions := dset name cur' (subscriptions r1)\<rparr>))"

section \<open>Endpoint lifecycle and senders\<close>

definition pause_sender :: "string \<Rightarrow> 'b router \<Rightarrow> 'b router" where
  "pause_sender name r = (case dget (senders r) name of
     None \<Rightarrow> r
   | Some c \<Rightarrow> if c = Finished then r else r\<lparr>senders := dset name Finished (senders r)\<rparr>)"

definition restart_sender :: "string \<Rightarrow> 'b router \<Rightarrow> 'b router" where
  "restart_sender name r =
    (let r1 = pause_sender name r;
         r2 = (case dget (outq r1) name of
                 None \<Rightarrow> r1
               | Some q \<Rightarrow> if buf q \<noteq> [] then r1\<lparr>outq := dset name (q\<lparr>wake := True\<rparr>) (outq r1)\<rparr>
                          else r1)
     in r2\<lparr>senders := dset name Waiting (senders r2)\<rparr>)"

definition add_endpoint :: "string \<Rightarrow> 'b router \<Rightarrow> 'b router" where
  "add_endpoint name r =
    (let r1 = reindex name (setdefault_subs name r);
         r2 = r1\<lparr>outq := dset name (new_queue (event_queue r1)) (outq r1)\<rparr>
     in restart_sender name r2)"

definition remove_endpoint :: "string \<Rightarrow> 'b router \<Rightarrow> 'b router" where
  "remove_endpoint name r =
    (let r1 = r\<lparr>subscriptions := dpop name (subscriptions r), index := dpop name (index r),
                outq := dpop name (outq r)\<rparr>;
         r2 = pause_sender name r1
     in r2\<lparr>senders := dpop name (senders r2)\<rparr>)"

text \<open>One resumption of the sender of \<open>name\<close>: it ends when the endpoint has no queue, when the
  item it popped finds no socket, or when the send fails (\<open>send_ok\<close> is the outcome of
  \<open>ws.send_bytes\<close>).  The result names the frame handed to the socket.\<close>

definition sender_step :: "bool \<Rightarrow> string \<Rightarrow> (string \<times> socket) list \<Rightarrow> 'b router
    \<Rightarrow> 'b router \<times> 'b option" where
  "sender_step send_ok name registry r =
    (case (dget (senders r) name, dget (outq r) name) of
       (Some c, Some q) \<Rightarrow>
         (case drain_step c q of (c', q', item) \<Rightarrow>
            let r1 = r\<lparr>outq := dset name q' (outq r)\<rparr> in
            (case item of
               None \<Rightarrow> (r1\<lparr>senders := dset name c' (senders r1)\<rparr>, None)
             | Some x \<Rightarrow>
                (case dget registry name of
                   None \<Rightarrow> (r1\<lparr>senders := dset name Finished (senders r1)\<rparr>, None)
                 | Some ws \<Rightarrow>
                     if send_ok then (r1\<lparr>senders := dset name c' (senders r1)\<rparr>, Some x)
                     else (r1\<lparr>senders := dset name Finished (senders r1)\<rparr>, None))))
     | (Some c, None) \<Rightarrow> (r\<lparr>senders := dset name Finished (senders r)\<rparr>, None)
     | (None, _) \<Rightarrow> (r, None))"

definition dropped_of :: "'b router \<Rightarrow> string \<Rightarrow> nat" where
  "dropped_of r name = (case dget (outq r) name of None \<Rightarrow> 0 | Some q \<Rightarrow> dropped q)"

definition tap :: "nat \<Rightarrow> 'b router \<Rightarrow> 'b router" where
  "tap cb r = r\<lparr>taps := taps r @ [cb]\<rparr>"

text \<open>\<open>_dispatch_tap\<close>: a callback runs on the plugin-host loop, and is skipped while there is
  none.\<close>

definition dispatch_taps :: "'b router \<Rightarrow> dict \<Rightarrow> (nat \<times> dict) list" where
  "dispatch_taps r ev = (if host_up r then map (\<lambda>cb. (cb, ev)) (taps r) else [])"

definition untap :: "nat \<Rightarrow> 'b router \<Rightarrow> 'b router" where
  "untap cb r = r\<lparr>taps := remove1 cb (taps r)\<rparr>"

section \<open>Matching\<close>

definition field_admits :: "string option \<Rightarrow> pyval \<Rightarrow> bool" where
  "field_admits f v \<longleftrightarrow> (case f of None \<Rightarrow> True | Some s \<Rightarrow> v = PStr s)"

definition pattern_admits :: "pattern \<Rightarrow> string \<Rightarrow> pyval \<Rightarrow> pyval \<Rightarrow> pyval option \<Rightarrow> bool" where
  "pattern_admits p endpoint plugin topic session \<longleftrightarrow>
     field_admits (pat_endpoint p) (PStr endpoint) \<and>
     field_admits (pat_plugin p) plugin \<and>
     field_admits (pat_topic p) topic \<and>
     (case (pat_session p, session) of (Some s, Some v) \<Rightarrow> v = PStr s | _ \<Rightarrow> True)"

fun matches :: "pattern list \<Rightarrow> string \<Rightarrow> pyval \<Rightarrow> pyval \<Rightarrow> pyval option \<Rightarrow> bool" where
  "matches [] endpoint plugin topic session = False"
| "matches (p # ps) endpoint plugin topic session =
     (if pattern_admits p endpoint plugin topic session then True
      else matches ps endpoint plugin topic session)"

section \<open>Ingest\<close>

definition stamp_session :: "stream3 \<Rightarrow> 'b router \<Rightarrow> 'b router \<times> nat" where
  "stamp_session key r =
    (let seq = (case dget (session_seq r) key of None \<Rightarrow> session_seq_base r | Some n \<Rightarrow> n);
         table = dpop key (session_seq r) @ [(key, seq + 1)];
         base = (if seq + 1 > session_seq_base r then seq + 1 else session_seq_base r);
         table' = (if length table > session_seq_max r then tl table else table)
     in (r\<lparr>session_seq := table', session_seq_base := base\<rparr>, seq))"

definition stamp_global :: "'b router \<Rightarrow> 'b router \<times> nat" where
  "stamp_global r = (r\<lparr>global_seq := global_seq r + 1\<rparr>, global_seq r)"

text \<open>\<open>raw.get('session') or None\<close>.\<close>

definition event_session :: "dict \<Rightarrow> pyval option" where
  "event_session raw = (let s = pget raw ''session'' in if truthy s then Some s else None)"

text \<open>The patterns the index offers for one event: those of its own stream, or of its
  \<open>(endpoint, plugin)\<close> pair for a session-less event.\<close>

definition stream_patterns :: "pat_index \<Rightarrow> string \<Rightarrow> pyval \<Rightarrow> pyval option \<Rightarrow> pattern list" where
  "stream_patterns ix src plugin session = (case ix of (rest, streams, pairs) \<Rightarrow>
     (case (plugin, session) of
        (PStr pl, Some (PStr s)) \<Rightarrow> (case dget streams (src, pl, s) of None \<Rightarrow> [] | Some ps \<Rightarrow> ps)
      | (PStr pl, None) \<Rightarrow> (case dget pairs (src, pl) of None \<Rightarrow> [] | Some ps \<Rightarrow> ps)
      | _ \<Rightarrow> []))"

definition indexed_match :: "pat_index \<Rightarrow> string \<Rightarrow> pyval \<Rightarrow> pyval \<Rightarrow> pyval option \<Rightarrow> bool" where
  "indexed_match ix src plugin topic session \<longleftrightarrow>
     matches (fst ix) src plugin topic session \<or>
     matches (stream_patterns ix src plugin session) src plugin topic session"

text \<open>The loop over the subscribers.  Reading the index with an unhashable plugin raises, after the
  earlier subscribers were served; the flag says that it did.\<close>

fun fan_out :: "string \<Rightarrow> pyval \<Rightarrow> pyval \<Rightarrow> pyval option \<Rightarrow> 'b \<Rightarrow> (string \<times> pat_index) list
    \<Rightarrow> (string \<times> 'b bqueue) list \<Rightarrow> (string \<times> 'b bqueue) list \<times> bool" where
  "fan_out src plugin topic session frame [] out = (out, False)"
| "fan_out src plugin topic session frame ((sub, ix) # rest) out =
    (if \<not> matches (fst ix) src plugin topic session \<and> hash_key plugin = None then (out, True)
     else if indexed_match ix src plugin topic session then
       fan_out src plugin topic session frame rest
         (case dget out sub of None \<Rightarrow> out | Some q \<Rightarrow> dset sub (push frame q) out)
     else fan_out src plugin topic session frame rest out)"

datatype ingest_outcome =
    Raised
  | Stamped (stamped: dict) (tapped: "(nat \<times> dict) list")

text \<open>\<open>ingest\<close> for an event from \<open>src\<close> at time \<open>now\<close>: stamp, fan out, feed the taps.\<close>

definition ingest :: "(dict \<Rightarrow> 'b) \<Rightarrow> rat \<Rightarrow> string \<Rightarrow> dict \<Rightarrow> 'b router \<Rightarrow> 'b router \<times> ingest_outcome" where
  "ingest packb now src raw0 r =
    (let raw1 = dset ''src'' (PStr src) raw0;
         session = event_session raw1;
         raw2 = dset ''session'' (case session of None \<Rightarrow> PNone | Some s \<Rightarrow> s) raw1;
         plugin = pget raw2 ''plugin'';
         topic = pget raw2 ''topic'';
         stamp = (case session of
            Some s \<Rightarrow> (case (hash_key plugin, hash_key s) of
                         (Some kp, Some ks) \<Rightarrow> Some (stamp_session (src, kp, ks) r)
                       | _ \<Rightarrow> None)
          | None \<Rightarrow> Some (stamp_global r))
     in case stamp of
          None \<Rightarrow> (r, Raised)
        | Some (r1, seq) \<Rightarrow>
            let raw3 = dset ''ts'' (PFloat (Fin now)) (dset ''seq'' (PInt (int seq)) raw2)
            in case fan_out src plugin topic session (packb raw3) (index r1) (outq r1) of
                 (out', err) \<Rightarrow>
                   (r1\<lparr>outq := out'\<rparr>,
                    if err then Raised else Stamped raw3 (dispatch_taps r1 raw3)))"

section \<open>The index decides as the full pattern list\<close>

lemma matches_iff: "matches ps e pl t s \<longleftrightarrow> (\<exists>p \<in> set ps. pattern_admits p e pl t s)"
  by (induction ps) auto

definition listed :: "('k \<times> 'v list) list \<Rightarrow> 'k \<Rightarrow> 'v list" where
  "listed d k = (case dget d k of None \<Rightarrow> [] | Some vs \<Rightarrow> vs)"

lemma listed_append_at [simp]:
  "listed (append_at k v d) k' = listed d k' @ (if k' = k then [v] else [])"
  by (simp add: listed_def append_at_def)

lemma build_index_snoc: "build_index (ps @ [p]) = index_one p (build_index ps)"
  by (simp add: build_index_def)

lemma index_one_parts:
  "fst (index_one p ix) = fst ix @ (if is_stream_pattern p then [] else [p])"
  "listed (fst (snd (index_one p ix))) (e, pl, s) = listed (fst (snd ix)) (e, pl, s) @
     (if pat_endpoint p = Some e \<and> pat_plugin p = Some pl \<and> pat_session p = Some s then [p] else [])"
  "listed (snd (snd (index_one p ix))) (e, pl) = listed (snd (snd ix)) (e, pl) @
     (if pat_endpoint p = Some e \<and> pat_plugin p = Some pl \<and> pat_session p \<noteq> None then [p] else [])"
  by (cases ix; cases "pat_endpoint p"; cases "pat_plugin p"; cases "pat_session p";
      force simp: index_one_def is_stream_pattern_def)+

lemma build_index_rest:
  "p \<in> set (fst (build_index ps)) \<longleftrightarrow> p \<in> set ps \<and> \<not> is_stream_pattern p"
  by (induction ps rule: rev_induct)
    (auto simp: build_index_snoc index_one_parts, simp add: build_index_def)

lemma build_index_streams:
  "p \<in> set (listed (fst (snd (build_index ps))) (e, pl, s)) \<longleftrightarrow>
     p \<in> set ps \<and> pat_endpoint p = Some e \<and> pat_plugin p = Some pl \<and> pat_session p = Some s"
  by (induction ps rule: rev_induct)
    (auto simp: build_index_snoc index_one_parts, simp add: build_index_def listed_def)

lemma build_index_pairs:
  "p \<in> set (listed (snd (snd (build_index ps))) (e, pl)) \<longleftrightarrow>
     p \<in> set ps \<and> pat_endpoint p = Some e \<and> pat_plugin p = Some pl \<and> pat_session p \<noteq> None"
  by (induction ps rule: rev_induct)
    (auto simp: build_index_snoc index_one_parts, simp add: build_index_def listed_def)

lemmas build_index_contents = build_index_rest build_index_streams build_index_pairs

lemma stream_patterns_listed:
  "stream_patterns ix src plugin session =
     (case (plugin, session) of
        (PStr pl, Some (PStr s)) \<Rightarrow> listed (fst (snd ix)) (src, pl, s)
      | (PStr pl, None) \<Rightarrow> listed (snd (snd ix)) (src, pl)
      | _ \<Rightarrow> [])"
  by (cases ix) (auto simp: stream_patterns_def listed_def split: pyval.splits option.splits)

lemma stream_pattern_found:
  assumes "is_stream_pattern p" and "pattern_admits p src plugin topic session"
  shows "p \<in> set ps \<longleftrightarrow> p \<in> set (stream_patterns (build_index ps) src plugin session)"
proof -
  from assms(1) obtain e pl s where p: "pat_endpoint p = Some e" "pat_plugin p = Some pl"
      "pat_session p = Some s"
    by (auto simp: is_stream_pattern_def)
  with assms(2) have "e = src" "plugin = PStr pl" "session = None \<or> session = Some (PStr s)"
    by (auto simp: pattern_admits_def field_admits_def split: option.splits)
  with p show ?thesis by (auto simp: stream_patterns_listed build_index_contents)
qed

lemma stream_patterns_subset:
  "p \<in> set (stream_patterns (build_index ps) src plugin session) \<Longrightarrow> p \<in> set ps"
  by (auto simp: stream_patterns_listed build_index_contents split: pyval.splits option.splits)

lemma indexed_match_build_index:
  "indexed_match (build_index ps) src plugin topic session \<longleftrightarrow> matches ps src plugin topic session"
proof
  assume "indexed_match (build_index ps) src plugin topic session"
  then show "matches ps src plugin topic session"
    by (auto simp: indexed_match_def matches_iff build_index_contents dest: stream_patterns_subset)
next
  assume "matches ps src plugin topic session"
  then obtain p where p: "p \<in> set ps" "pattern_admits p src plugin topic session"
    by (auto simp: matches_iff)
  show "indexed_match (build_index ps) src plugin topic session"
  proof (cases "is_stream_pattern p")
    case True
    then have "p \<in> set (stream_patterns (build_index ps) src plugin session)"
      using stream_pattern_found [OF True p(2)] p(1) by blast
    with p(2) show ?thesis by (auto simp: indexed_match_def matches_iff)
  next
    case False
    with p show ?thesis by (auto simp: indexed_match_def matches_iff build_index_contents)
  qed
qed

section \<open>Invariant of the router\<close>

definition index_ok :: "'b router \<Rightarrow> bool" where
  "index_ok r \<longleftrightarrow> dict_ok (index r) \<and>
     (\<forall>n. dget (index r) n = map_option build_index (dget (subscriptions r) n))"

definition senders_ok :: "'b router \<Rightarrow> bool" where
  "senders_ok r \<longleftrightarrow> (\<forall>n q. dget (outq r) n = Some q \<longrightarrow> queue_ok q \<and>
     (\<forall>c. dget (senders r) n = Some c \<longrightarrow> no_lost_wakeup c q))"

definition seq_ok :: "'b router \<Rightarrow> bool" where
  "seq_ok r \<longleftrightarrow> dict_ok (session_seq r) \<and> length (session_seq r) \<le> session_seq_max r \<and>
     (\<forall>k n. dget (session_seq r) k = Some n \<longrightarrow> n \<le> session_seq_base r)"

definition router_inv :: "'b router \<Rightarrow> bool" where
  "router_inv r \<longleftrightarrow> index_ok r \<and> senders_ok r \<and> seq_ok r"

lemmas router_inv_defs = router_inv_def index_ok_def senders_ok_def seq_ok_def

lemma router_inv_new: "router_inv (new_router n)"
  by (simp add: router_inv_defs new_router_def)

lemma no_lost_wakeup_not_waiting [simp]:
  "no_lost_wakeup Finished q" "no_lost_wakeup Draining q"
  by (simp_all add: no_lost_wakeup_def)

lemma pause_sender_senders_ok: "senders_ok r \<Longrightarrow> senders_ok (pause_sender name r)"
  by (auto simp: senders_ok_def pause_sender_def split: option.splits)

lemma pause_sender_outq [simp]: "outq (pause_sender name r) = outq r"
  by (simp add: pause_sender_def split: option.splits)

text \<open>Restarting needs no wake-up fact about the queue of \<open>name\<close>: whatever a cancelled sender left
  there, the fresh one will not sleep on a backlog.\<close>

lemma restart_sender_senders_ok:
  assumes others: "\<And>n q. dget (outq r) n = Some q \<Longrightarrow> queue_ok q \<and>
      (\<forall>c. n \<noteq> name \<longrightarrow> dget (senders r) n = Some c \<longrightarrow> no_lost_wakeup c q)"
  shows "senders_ok (restart_sender name r)"
proof -
  have paused: "n \<noteq> name \<Longrightarrow> dget (senders (pause_sender name r)) n = dget (senders r) n" for n
    by (simp add: pause_sender_def split: option.splits)
  show ?thesis
    using others
    by (auto simp: senders_ok_def restart_sender_def Let_def paused no_lost_wakeup_def queue_ok_def
        split: option.splits if_splits)
qed

text \<open>The parts of the state an operation leaves alone.\<close>

lemma frame_simps [simp]:
  "index (pause_sender n r) = index r" "subscriptions (pause_sender n r) = subscriptions r"
  "session_seq (pause_sender n r) = session_seq r"
  "session_seq_max (pause_sender n r) = session_seq_max r"
  "session_seq_base (pause_sender n r) = session_seq_base r"
  "index (restart_sender n r) = index r" "subscriptions (restart_sender n r) = subscriptions r"
  "session_seq (restart_sender n r) = session_seq r"
  "session_seq_max (restart_sender n r) = session_seq_max r"
  "session_seq_base (restart_sender n r) = session_seq_base r"
  by (auto simp: pause_sender_def restart_sender_def Let_def split: option.splits)

lemma seq_ok_frame:
  "session_seq r' = session_seq r \<Longrightarrow> session_seq_max r' = session_seq_max r \<Longrightarrow>
   session_seq_base r' = session_seq_base r \<Longrightarrow> seq_ok r' = seq_ok r"
  by (simp add: seq_ok_def)

lemma setdefault_subs_dget:
  "dget (subscriptions (setdefault_subs name r)) n =
     (if n = name then Some (subscribed r name) else dget (subscriptions r) n)"
  by (auto simp: setdefault_subs_def subscribed_def dhas_def)

lemma reindex_index_ok:
  assumes "dict_ok (index r)"
    and "\<And>n. n \<noteq> name \<Longrightarrow> dget (index r) n = map_option build_index (dget (subscriptions r) n)"
    and "dget (subscriptions r) name \<noteq> None"
  shows "index_ok (reindex name r)"
  using assms by (auto simp: index_ok_def reindex_def subscribed_def split: option.splits)

lemma add_endpoint_inv:
  assumes "router_inv r"
  shows "router_inv (add_endpoint name r)"
proof -
  let ?r1 = "reindex name (setdefault_subs name r)"
  have ix: "index_ok ?r1"
    using assms by (intro reindex_index_ok)
      (auto simp: router_inv_defs setdefault_subs_dget, simp_all add: setdefault_subs_def)
  have "senders_ok (restart_sender name (?r1\<lparr>outq := dset name (new_queue (event_queue ?r1)) (outq ?r1)\<rparr>))"
    using assms
    by (intro restart_sender_senders_ok)
      (auto simp: router_inv_defs reindex_def setdefault_subs_def split: if_splits)
  moreover have "seq_ok (add_endpoint name r) = seq_ok r"
    by (rule seq_ok_frame) (simp_all add: add_endpoint_def Let_def reindex_def setdefault_subs_def)
  ultimately show ?thesis
    using assms ix by (simp add: router_inv_def add_endpoint_def Let_def index_ok_def)
qed

lemma remove_endpoint_inv: "router_inv r \<Longrightarrow> router_inv (remove_endpoint name r)"
  by (auto simp: router_inv_defs remove_endpoint_def Let_def pause_sender_def split: option.splits)

lemma pause_sender_inv: "router_inv r \<Longrightarrow> router_inv (pause_sender name r)"
  using pause_sender_senders_ok [of r name] by (simp add: router_inv_def index_ok_def seq_ok_def)

lemma restart_sender_inv: "router_inv r \<Longrightarrow> router_inv (restart_sender name r)"
  by (auto simp: router_inv_def index_ok_def seq_ok_def
      intro!: restart_sender_senders_ok) (auto simp: senders_ok_def)

lemma update_subscription_inv: "router_inv r \<Longrightarrow> router_inv (update_subscription name raw add r)"
  unfolding router_inv_def update_subscription_def Let_def
  by (intro conjI reindex_index_ok)
    (auto simp: index_ok_def setdefault_subs_dget,
     auto simp: setdefault_subs_def reindex_def senders_ok_def seq_ok_def)

lemma drain_step_ok:
  "drain_step c q = (c', q', it) \<Longrightarrow> queue_ok q \<Longrightarrow> no_lost_wakeup c q \<Longrightarrow>
    queue_ok q' \<and> no_lost_wakeup c' q'"
  by (cases c) (auto simp: queue_ok_def no_lost_wakeup_def split: if_splits list.splits)

lemma sender_step_inv:
  assumes "router_inv r" and "sender_step send_ok name registry r = (r', x)"
  shows "router_inv r'"
proof -
  show ?thesis
  proof (cases "dget (senders r) name")
    case None
    with assms show ?thesis by (simp add: sender_step_def)
  next
    case (Some c)
    note c = this
    show ?thesis
    proof (cases "dget (outq r) name")
      case None
      with assms c show ?thesis by (auto simp: sender_step_def router_inv_defs split: if_splits)
    next
      case (Some q)
      obtain c' q' it where st: "drain_step c q = (c', q', it)" by (metis prod_cases3)
      have q: "queue_ok q" "no_lost_wakeup c q"
        using assms(1) c Some by (auto simp: router_inv_defs)
      have q': "queue_ok q'" "no_lost_wakeup c' q'"
        using drain_step_ok [OF st q] by auto
      obtain c'' where r': "r' = r\<lparr>outq := dset name q' (outq r), senders := dset name c'' (senders r)\<rparr>"
          and "no_lost_wakeup c'' q'"
        using assms(2) c Some st q'
        by (auto simp: sender_step_def Let_def split: option.splits if_splits)
      with assms(1) q' show ?thesis by (auto simp: router_inv_defs)
    qed
  qed
qed

section \<open>Numbering\<close>

text \<open>The next number of a session stream.\<close>

definition next_seq :: "'b router \<Rightarrow> stream3 \<Rightarrow> nat" where
  "next_seq r k = (case dget (session_seq r) k of None \<Rightarrow> session_seq_base r | Some n \<Rightarrow> n)"

lemma next_seq_frame:
  "session_seq r' = session_seq r \<Longrightarrow> session_seq_base r' = session_seq_base r \<Longrightarrow>
    next_seq r' k = next_seq r k"
  by (simp add: next_seq_def split: option.split)

lemma next_seq_outq [simp]: "next_seq (r\<lparr>outq := x\<rparr>) k = next_seq r k"
  by (simp add: next_seq_def split: option.split)

lemma dget_append: "dget (d @ e) k = (case dget d k of None \<Rightarrow> dget e k | Some v \<Rightarrow> Some v)"
  by (simp add: map_add_def split: option.splits)

lemma dget_tl: "dict_ok d \<Longrightarrow> dget (tl d) k = Some v \<Longrightarrow> dget d k = Some v"
  by (cases d) (force simp: dict_ok_def dest: map_of_SomeD)+

lemma dict_ok_tl: "dict_ok d \<Longrightarrow> dict_ok (tl d)"
  by (cases d) (auto simp: dict_ok_def)

lemma dict_ok_move_to_end: "dict_ok d \<Longrightarrow> dict_ok (dpop k d @ [(k, v)])"
  by (auto simp: dict_ok_def distinct_delete) (auto simp: AList.delete_eq)

lemma length_dpop_le: "length (dpop k d) \<le> length d"
  by (simp add: AList.delete_eq)

lemma stamp_session_seq_ok:
  assumes "seq_ok r" and "stamp_session key r = (r', n)"
  shows "seq_ok r' \<and> n = next_seq r key \<and> n < next_seq r' key \<and>
    (\<forall>k. next_seq r k \<le> next_seq r' k)"
proof -
  let ?t = "dpop key (session_seq r) @ [(key, n + 1)]"
  let ?t' = "if length ?t > session_seq_max r then tl ?t else ?t"
  have n: "n = next_seq r key"
    and r': "r' = r\<lparr>session_seq := ?t', session_seq_base := max (n + 1) (session_seq_base r)\<rparr>"
    using assms(2) by (auto simp: stamp_session_def Let_def next_seq_def max_def split: if_splits)
  have le: "dget (session_seq r) k = Some m \<Longrightarrow> m \<le> session_seq_base r" for k m
    using assms(1) unfolding seq_ok_def by blast
  have ok: "dict_ok ?t" using assms(1) by (simp add: seq_ok_def dict_ok_move_to_end)
  have t: "dget ?t k = (if k = key then Some (n + 1) else dget (session_seq r) k)" for k
    by (simp add: map_add_def split: option.splits)
  have t': "dget ?t' k = Some m \<Longrightarrow> dget ?t k = Some m" for k m
    using dget_tl [OF ok] by (auto split: if_splits)
  have bound: "dget ?t' k = Some m \<Longrightarrow> m \<le> max (n + 1) (session_seq_base r)" for k m
    using t' [of k m] t [of k] le [of k m] by (auto split: if_splits)
  have len: "length ?t' \<le> session_seq_max r"
    using assms(1) length_dpop_le [of key "session_seq r"] by (auto simp: seq_ok_def)
  have mono: "next_seq r k \<le> next_seq r' k" for k
  proof (cases "dget ?t' k")
    case None
    then show ?thesis using le [of k] by (auto simp: next_seq_def r' split: option.splits)
  next
    case (Some m)
    then show ?thesis using t' [OF Some] t [of k] n
      by (auto simp: next_seq_def r' split: if_splits option.splits)
  qed
  have "n < next_seq r' key"
  proof (cases "dget ?t' key")
    case None
    then show ?thesis by (simp add: next_seq_def r')
  next
    case (Some m)
    then show ?thesis using t' [OF Some] t [of key] by (simp add: next_seq_def r')
  qed
  with n ok bound len mono r' show ?thesis by (simp add: seq_ok_def dict_ok_tl)
qed

section \<open>Fan-out\<close>

lemma fan_out_queues:
  assumes "\<not> snd (fan_out src plugin topic session frame ixs out)" and "dict_ok ixs"
  shows "dget (fst (fan_out src plugin topic session frame ixs out)) n =
    (case (dget out n, dget ixs n) of
       (Some q, Some ix) \<Rightarrow>
         Some (if indexed_match ix src plugin topic session then push frame q else q)
     | (x, _) \<Rightarrow> x)"
  using assms
proof (induction src plugin topic session frame ixs out rule: fan_out.induct)
  case (1 src plugin topic session frame out)
  then show ?case by (simp split: option.splits)
next
  case (2 src plugin topic session frame sub ix rest out)
  have rest: "dict_ok rest" "dget rest sub = None"
    using 2(4) by (auto simp: dict_ok_def map_of_eq_None_iff)
  show ?case
  proof (cases "indexed_match ix src plugin topic session")
    case True
    then show ?thesis using 2 rest by (auto split: option.splits if_splits)
  next
    case False
    then show ?thesis using 2 rest by (auto split: option.splits if_splits)
  qed
qed

lemma fan_out_each:
  assumes "dget (fst (fan_out src plugin topic session frame ixs out)) n = Some q"
  shows "\<exists>q0 k. dget out n = Some q0 \<and> q = (push frame ^^ k) q0"
  using assms
proof (induction src plugin topic session frame ixs out arbitrary: q rule: fan_out.induct)
  case (1 src plugin topic session frame out)
  then show ?case by (auto intro: exI [of _ 0])
next
  case (2 src plugin topic session frame sub ix rest out)
  show ?case
  proof (cases "indexed_match ix src plugin topic session \<and>
      \<not> (\<not> matches (fst ix) src plugin topic session \<and> hash_key plugin = None)")
    case True
    let ?out = "case dget out sub of None \<Rightarrow> out | Some q \<Rightarrow> dset sub (push frame q) out"
    have "dget (fst (fan_out src plugin topic session frame rest ?out)) n = Some q"
      using True "2.prems" by (auto split: if_splits)
    then obtain q0 k where q0: "dget ?out n = Some q0" "q = (push frame ^^ k) q0"
      using "2.IH"(1) True by blast
    show ?thesis
    proof (cases "n = sub \<and> dget out sub \<noteq> None")
      case True
      then obtain q1 where "dget out n = Some q1" "q0 = push frame q1" using q0 by auto
      then show ?thesis using q0 by (auto intro!: exI [of _ "Suc k"] simp: funpow_swap1)
    next
      case False
      then show ?thesis using q0 by (auto split: option.splits if_splits)
    qed
  next
    case False
    then show ?thesis using 2 by (auto split: if_splits intro: exI [of _ 0])
  qed
qed

lemma push_iter_ok:
  "queue_ok q \<Longrightarrow> no_lost_wakeup c q \<Longrightarrow>
    queue_ok ((push x ^^ k) q) \<and> no_lost_wakeup c ((push x ^^ k) q)"
  by (induction k) (auto simp: queue_ok_push no_lost_wakeup_def)

section \<open>Ingest\<close>

lemma ingest_cases:
  assumes "ingest packb now src raw r = (r', oc)"
  obtains (refused) "r' = r" "oc = Raised"
  | (session) s kp ks n r1 raw3 out err where
      "event_session (dset ''src'' (PStr src) raw) = Some s"
      "hash_key (pget raw3 ''plugin'') = Some kp" "hash_key s = Some ks"
      "stamp_session (src, kp, ks) r = (r1, n)"
      "raw3 = dset ''ts'' (PFloat (Fin now)) (dset ''seq'' (PInt (int n))
         (dset ''session'' s (dset ''src'' (PStr src) raw)))"
      "fan_out src (pget raw3 ''plugin'') (pget raw3 ''topic'') (Some s) (packb raw3) (index r1) (outq r1)
         = (out, err)"
      "r' = r1\<lparr>outq := out\<rparr>"
      "oc = (if err then Raised else Stamped raw3 (dispatch_taps r1 raw3))"
  | (global) n r1 raw3 out err where
      "event_session (dset ''src'' (PStr src) raw) = None"
      "stamp_global r = (r1, n)"
      "raw3 = dset ''ts'' (PFloat (Fin now)) (dset ''seq'' (PInt (int n))
         (dset ''session'' PNone (dset ''src'' (PStr src) raw)))"
      "fan_out src (pget raw3 ''plugin'') (pget raw3 ''topic'') None (packb raw3) (index r1) (outq r1)
         = (out, err)"
      "r' = r1\<lparr>outq := out\<rparr>"
      "oc = (if err then Raised else Stamped raw3 (dispatch_taps r1 raw3))"
proof (cases "event_session (dset ''src'' (PStr src) raw)")
  case None
  then show ?thesis using assms global
    by (auto simp: ingest_def Let_def pget_def stamp_global_def split: prod.splits)
next
  case (Some s)
  let ?p = "pget raw ''plugin''"
  show ?thesis
  proof (cases "\<exists>kp ks. hash_key ?p = Some kp \<and> hash_key s = Some ks")
    case True
    then obtain kp ks where k: "hash_key ?p = Some kp" "hash_key s = Some ks" by blast
    obtain r1 n where st: "stamp_session (src, kp, ks) r = (r1, n)" by fastforce
    let ?raw = "dset ''ts'' (PFloat (Fin now)) (dset ''seq'' (PInt (int n))
         (dset ''session'' s (dset ''src'' (PStr src) raw)))"
    obtain out err where fo: "fan_out src (pget ?raw ''plugin'') (pget ?raw ''topic'') (Some s)
        (packb ?raw) (index r1) (outq r1) = (out, err)" by fastforce
    have "r' = r1\<lparr>outq := out\<rparr>" "oc = (if err then Raised else Stamped ?raw (dispatch_taps r1 ?raw))"
      using assms Some k st fo by (auto simp: ingest_def Let_def pget_def)
    then show ?thesis using session [OF Some _ k(2) st refl, of out err] k fo by (simp add: pget_def)
  next
    case False
    then show ?thesis using assms Some refused
      by (auto simp: ingest_def Let_def pget_def split: prod.splits option.splits)
  qed
qed

lemma ingest_inv:
  assumes "router_inv r" and "ingest packb now src raw r = (r', oc)"
  shows "router_inv r'"
proof -
  have keep: "router_inv r''" if "seq_ok r''" "index r'' = index r" "subscriptions r'' = subscriptions r"
      "senders r'' = senders r"
      "outq r'' = fst (fan_out src pl t s frame ixs (outq r))" for r'' pl t s frame ixs
  proof -
    have "queue_ok q \<and> (\<forall>c. dget (senders r) n = Some c \<longrightarrow> no_lost_wakeup c q)"
      if "dget (outq r'') n = Some q" for n q
    proof -
      have "dget (fst (fan_out src pl t s frame ixs (outq r))) n = Some q"
        using that \<open>outq r'' = _\<close> by simp
      from fan_out_each [OF this] obtain q0 k
        where q0: "dget (outq r) n = Some q0" "q = (push frame ^^ k) q0" by blast
      have q0_ok: "queue_ok q0" "\<And>c. dget (senders r) n = Some c \<Longrightarrow> no_lost_wakeup c q0"
        using assms(1) q0(1) by (auto simp: router_inv_def senders_ok_def)
      show ?thesis
        using push_iter_ok [OF q0_ok(1), of Finished] push_iter_ok [OF q0_ok(1) q0_ok(2)] q0(2) by auto
    qed
    with that assms(1) show ?thesis by (simp add: router_inv_def index_ok_def senders_ok_def)
  qed
  from assms(2) show ?thesis
  proof (cases rule: ingest_cases)
    case refused
    with assms(1) show ?thesis by simp
  next
    case (session s kp ks n r1 raw3 out err)
    have ok: "seq_ok r1"
      using stamp_session_seq_ok [OF _ session(4)] assms(1) by (simp add: router_inv_def)
    have r1: "index r1 = index r" "subscriptions r1 = subscriptions r" "senders r1 = senders r"
        "outq r1 = outq r"
      using session(4) by (auto simp: stamp_session_def Let_def)
    have r': "seq_ok r'" "index r' = index r" "subscriptions r' = subscriptions r"
        "senders r' = senders r"
      using ok r1 unfolding session(7) by (simp_all add: seq_ok_def)
    have "outq r' = fst (fan_out src (pget raw3 ''plugin'') (pget raw3 ''topic'') (Some s)
        (packb raw3) (index r) (outq r))"
      using session(6) r1 unfolding session(7) by simp
    from keep [OF r' this] show ?thesis .
  next
    case (global n r1 raw3 out err)
    have r1: "index r1 = index r" "subscriptions r1 = subscriptions r" "senders r1 = senders r"
        "outq r1 = outq r" "seq_ok r1"
      using global(2) assms(1) by (auto simp: stamp_global_def router_inv_def seq_ok_def)
    have r': "seq_ok r'" "index r' = index r" "subscriptions r' = subscriptions r"
        "senders r' = senders r"
      using r1 unfolding global(5) by (simp_all add: seq_ok_def)
    have "outq r' = fst (fan_out src (pget raw3 ''plugin'') (pget raw3 ''topic'') None
        (packb raw3) (index r) (outq r))"
      using global(4) r1 unfolding global(5) by simp
    from keep [OF r' this] show ?thesis .
  qed
qed

section \<open>Reachable routers\<close>

text \<open>The router is driven by the routing loop and by the sender coroutines, in any order.\<close>

inductive router_step :: "(dict \<Rightarrow> 'b) \<Rightarrow> 'b router \<Rightarrow> 'b router \<Rightarrow> bool" for packb where
  step_add: "router_step packb r (add_endpoint n r)"
| step_remove: "router_step packb r (remove_endpoint n r)"
| step_pause: "router_step packb r (pause_sender n r)"
| step_restart: "router_step packb r (restart_sender n r)"
| step_subscription: "router_step packb r (update_subscription n raw b r)"
| step_sender: "sender_step ok n reg r = (r', x) \<Longrightarrow> router_step packb r r'"
| step_ingest: "ingest packb now src raw r = (r', oc) \<Longrightarrow> router_step packb r r'"
| step_tap: "router_step packb r (tap cb r)"
| step_untap: "router_step packb r (untap cb r)"
| step_host: "router_step packb r (r\<lparr>host_up := b\<rparr>)"

inductive router_reachable :: "(dict \<Rightarrow> 'b) \<Rightarrow> 'b router \<Rightarrow> bool" for packb where
  start: "router_reachable packb (new_router n)"
| step: "router_reachable packb r \<Longrightarrow> router_step packb r r' \<Longrightarrow> router_reachable packb r'"

lemma router_step_inv: "router_step packb r r' \<Longrightarrow> router_inv r \<Longrightarrow> router_inv r'"
proof (induction rule: router_step.induct)
  case (step_tap r cb)
  then show ?case by (auto simp: tap_def router_inv_defs)
next
  case (step_untap r cb)
  then show ?case by (auto simp: untap_def router_inv_defs)
next
  case (step_host r b)
  then show ?case by (auto simp: router_inv_defs)
qed (auto intro: add_endpoint_inv remove_endpoint_inv pause_sender_inv restart_sender_inv
       update_subscription_inv sender_step_inv ingest_inv)

lemma router_reachable_inv: "router_reachable packb r \<Longrightarrow> router_inv r"
  by (induction rule: router_reachable.induct) (auto intro: router_inv_new router_step_inv)

lemma step_next_seq_mono:
  assumes "router_step packb r r'" and "router_inv r"
  shows "next_seq r k \<le> next_seq r' k"
  using assms
proof (induction rule: router_step.induct)
  case (step_ingest now src raw r r' oc)
  from step_ingest(1) show ?case
  proof (cases rule: ingest_cases)
    case (session s kp ks n r1 raw3 out err)
    have "seq_ok r" using step_ingest(2) by (simp add: router_inv_def)
    then have "next_seq r k \<le> next_seq r1 k" using stamp_session_seq_ok [OF _ session(4)] by blast
    also have "next_seq r1 k = next_seq r' k"
      unfolding session(7) by simp
    finally show ?thesis .
  next
    case (global n r1 raw3 out err)
    then show ?thesis
      using next_seq_frame [of r' r k] by (auto simp: stamp_global_def)
  qed simp
next
  case (step_sender ok n reg r r' x)
  then have "session_seq r' = session_seq r" "session_seq_base r' = session_seq_base r"
    by (auto simp: sender_step_def Let_def split: option.splits prod.splits if_splits)
  then show ?case using next_seq_frame [of r' r k] by simp
qed (rule eq_refl, rule next_seq_frame [symmetric];
     simp add: add_endpoint_def remove_endpoint_def update_subscription_def Let_def
       reindex_def setdefault_subs_def tap_def untap_def)+

lemma steps_next_seq_mono:
  assumes "(router_step packb)\<^sup>*\<^sup>* r r'" and "router_inv r"
  shows "router_inv r' \<and> next_seq r k \<le> next_seq r' k"
  using assms
proof (induction rule: rtranclp_induct)
  case base
  then show ?case by simp
next
  case (step y z)
  then show ?case
    using router_step_inv [OF step(2)] step_next_seq_mono [OF step(2), of k] by fastforce
qed

text \<open>The stream an event is numbered on; \<open>None\<close> for a session-less one.\<close>

definition stream_key :: "string \<Rightarrow> dict \<Rightarrow> stream3 option" where
  "stream_key src raw =
    (case event_session (dset ''src'' (PStr src) raw) of
       None \<Rightarrow> None
     | Some s \<Rightarrow> (case (hash_key (pget raw ''plugin''), hash_key s) of
         (Some kp, Some ks) \<Rightarrow> Some (src, kp, ks)
       | _ \<Rightarrow> None))"

lemma ingest_session_seq:
  assumes "ingest packb now src raw r = (r', Stamped ev tp)" and "stream_key src raw = Some k"
    and "router_inv r"
  shows "pget ev ''seq'' = PInt (int (next_seq r k)) \<and> next_seq r k < next_seq r' k"
  using assms(1)
proof (cases rule: ingest_cases)
  case (session s kp ks n r1 raw3 out err)
  have k: "k = (src, kp, ks)"
    using assms(2) session(1,2,3,5) by (simp add: stream_key_def pget_def)
  have "n = next_seq r k \<and> n < next_seq r1 k"
    using stamp_session_seq_ok [OF _ session(4)] assms(3) k by (simp add: router_inv_def)
  moreover have "next_seq r' k = next_seq r1 k" unfolding session(7) by simp
  moreover have "pget ev ''seq'' = PInt (int n)"
    using session(5,8) by (auto simp: pget_def split: if_splits)
  ultimately show ?thesis by simp
next
  case (global n r1 raw3 out err)
  then show ?thesis using assms(2) by (simp add: stream_key_def)
qed simp

section \<open>Properties\<close>

text \<open>A small router for the witnesses: one subscriber with a wildcard pattern.\<close>

definition demo_router :: "dict router" where
  "demo_router = update_subscription ''a'' [(''patterns'', PList [PDict []])] True
     (add_endpoint ''a'' (new_router 2))"

definition demo_event :: dict where
  "demo_event = [(''plugin'', PStr ''p''), (''src'', PStr ''e''), (''session'', PNone),
     (''seq'', PInt 0), (''ts'', PFloat (Fin 1))]"

lemma demo_router_reachable: "router_reachable packb demo_router"
  unfolding demo_router_def
  by (rule router_reachable.step, rule router_reachable.step, rule router_reachable.start,
      rule step_add, rule step_subscription)

lemmas demo_simps = demo_router_def update_subscription_def add_endpoint_def new_router_def
  setdefault_subs_def subscribed_def reindex_def restart_sender_def pause_sender_def
  request_patterns_def parse_pattern_def normal_session_def pget_def dhas_def Let_def
  new_queue_def List.map_filter_def pattern_keys_def build_index_def index_one_def

text \<open>C1. The numbers of one session stream strictly increase: between any two events of the same
  \<open>(src, plugin, session)\<close>, whatever the router did in between (other streams, endpoints coming and
  going, the least recently used counters being pruned), the later event carries the larger
  \<open>seq\<close>.\<close>

theorem session_seq_strictly_increases:
  assumes "router_reachable packb r"
    and "ingest packb t1 src raw1 r = (r1, Stamped e1 tp1)"
    and "(router_step packb)\<^sup>*\<^sup>* r1 r2"
    and "ingest packb t2 src raw2 r2 = (r3, Stamped e2 tp2)"
    and "stream_key src raw1 = Some k" and "stream_key src raw2 = Some k"
  shows "\<exists>m n. pget e1 ''seq'' = PInt (int m) \<and> pget e2 ''seq'' = PInt (int n) \<and> m < n"
proof -
  have inv: "router_inv r" by (rule router_reachable_inv [OF assms(1)])
  have inv1: "router_inv r1" by (rule ingest_inv [OF inv assms(2)])
  have mid: "router_inv r2" "next_seq r1 k \<le> next_seq r2 k"
    using steps_next_seq_mono [OF assms(3) inv1] by auto
  have "pget e1 ''seq'' = PInt (int (next_seq r k))" "next_seq r k < next_seq r1 k"
    using ingest_session_seq [OF assms(2,5) inv] by auto
  moreover have "pget e2 ''seq'' = PInt (int (next_seq r2 k))"
    using ingest_session_seq [OF assms(4,6) mid(1)] by auto
  ultimately show ?thesis using mid(2) by auto
qed

theorem session_seq_strictly_increases_witness:
  "\<exists>m n. pget (dset ''ts'' (PFloat (Fin 1)) (dset ''seq'' (PInt 0) (dset ''session'' (PStr ''s'')
      (dset ''src'' (PStr ''e'') [(''session'', PStr ''s'')])))) ''seq'' = PInt (int m) \<and>
    pget (dset ''ts'' (PFloat (Fin 2)) (dset ''seq'' (PInt 1) (dset ''session'' (PStr ''s'')
      (dset ''src'' (PStr ''e'') [(''session'', PStr ''s'')])))) ''seq'' = PInt (int n) \<and> m < n"
proof (rule session_seq_strictly_increases [where packb = "\<lambda>_. ()" and r = "new_router 4"
      and ?r1.0 = "(new_router 4)\<lparr>session_seq := [((''e'', PNone, PStr ''s''), 1)],
        session_seq_base := 1\<rparr>"
      and ?r2.0 = "(new_router 4)\<lparr>session_seq := [((''e'', PNone, PStr ''s''), 1)],
        session_seq_base := 1\<rparr>"
      and src = "''e''" and ?raw1.0 = "[(''session'', PStr ''s'')]"
      and ?raw2.0 = "[(''session'', PStr ''s'')]" and ?t1.0 = 1 and ?t2.0 = 2
      and k = "(''e'', PNone, PStr ''s'')"])
  show "router_reachable (\<lambda>_. ()) (new_router 4)" by (rule router_reachable.start)
qed (auto simp: ingest_def stream_key_def event_session_def stamp_session_def new_router_def
      SESSION_SEQ_MAX_def pget_def dispatch_taps_def Let_def)

text \<open>C2. Delivery: in every reachable state, an event that is accepted is pushed to exactly those
  subscriber queues whose owner holds a pattern admitting it, although \<open>ingest\<close> looks only at the
  indexed part of the patterns; every other queue is left as it was.\<close>

theorem ingest_delivers_to_matching:
  assumes "router_reachable packb r"
    and "ingest packb now src raw r = (r', Stamped ev tp)"
    and "dget (outq r) sub = Some q" and "dget (subscriptions r) sub = Some ps"
  shows "dget (outq r') sub =
    Some (if matches ps src (pget ev ''plugin'') (pget ev ''topic'') (event_session ev)
          then push (packb ev) q else q)"
proof -
  have inv: "router_inv r" by (rule router_reachable_inv [OF assms(1)])
  then have ix: "dget (index r) sub = Some (build_index ps)" "dict_ok (index r)"
    using assms(4) by (auto simp: router_inv_def index_ok_def)
  from assms(2) show ?thesis
  proof (cases rule: ingest_cases)
    case (session s kp ks n r1 raw3 out err)
    have r1: "index r1 = index r" "outq r1 = outq r"
      using session(4) by (auto simp: stamp_session_def Let_def)
    have s: "truthy s" using session(1) by (auto simp: event_session_def Let_def split: if_splits)
    have ev: "ev = raw3" "\<not> err" using session(8) by (auto split: if_splits)
    have es: "event_session raw3 = Some s" using s session(5)
      by (simp add: event_session_def pget_def)
    have fo: "\<not> snd (fan_out src (pget raw3 ''plugin'') (pget raw3 ''topic'') (Some s) (packb raw3)
        (index r) (outq r))"
      using session(6) r1 ev(2) by simp
    have "dget out sub = Some (if indexed_match (build_index ps) src (pget ev ''plugin'')
        (pget ev ''topic'') (Some s) then push (packb ev) q else q)"
      using fan_out_queues [OF fo ix(2), of sub] ix(1) assms(3) session(6) r1 ev(1) by simp
    then show ?thesis
      unfolding session(7) using es ev by (simp add: indexed_match_build_index)
  next
    case (global n r1 raw3 out err)
    have r1: "index r1 = index r" "outq r1 = outq r"
      using global(2) by (auto simp: stamp_global_def)
    have ev: "ev = raw3" "\<not> err" using global(6) by (auto split: if_splits)
    have es: "event_session raw3 = None" using global(3)
      by (simp add: event_session_def pget_def)
    have fo: "\<not> snd (fan_out src (pget raw3 ''plugin'') (pget raw3 ''topic'') None (packb raw3)
        (index r) (outq r))"
      using global(4) r1 ev(2) by simp
    have "dget out sub = Some (if indexed_match (build_index ps) src (pget ev ''plugin'')
        (pget ev ''topic'') None then push (packb ev) q else q)"
      using fan_out_queues [OF fo ix(2), of sub] ix(1) assms(3) global(4) r1 ev(1) by simp
    then show ?thesis
      unfolding global(5) using es ev by (simp add: indexed_match_build_index)
  qed simp
qed

theorem ingest_delivers_to_matching_witness:
  "dget (outq (fst (ingest id 1 ''e'' [(''plugin'', PStr ''p'')] demo_router))) ''a'' =
    Some (push demo_event (new_queue 2))"
proof -
  let ?pat = "\<lparr>pat_endpoint = None, pat_plugin = None, pat_topic = None, pat_session = None\<rparr>"
  obtain r' where i: "ingest id 1 ''e'' [(''plugin'', PStr ''p'')] demo_router = (r', Stamped demo_event [])"
    by (simp add: ingest_def demo_simps event_session_def stamp_global_def demo_event_def
        indexed_match_def pattern_admits_def field_admits_def stream_patterns_def dispatch_taps_def)
  have "dget (outq r') ''a'' = Some (if matches [?pat] ''e'' (pget demo_event ''plugin'')
      (pget demo_event ''topic'') (event_session demo_event) then push (id demo_event) (new_queue 2)
      else new_queue 2)"
    by (rule ingest_delivers_to_matching [OF demo_router_reachable i]) (simp_all add: demo_simps)
  then show ?thesis using i by (simp add: pattern_admits_def field_admits_def demo_event_def event_session_def pget_def)
qed

text \<open>C3. No subscriber sleeps on a backlog: in every reachable state a sender that waits for its wake-up
  event while its queue holds events has that event set, so restarting a sender that was cancelled
  in the middle of a drain never strands the events it left behind; and no queue outgrows its
  bound.\<close>

theorem sender_never_stranded:
  assumes "router_reachable packb r" and "dget (outq r) name = Some q"
  shows "length (buf q) \<le> maxlen q \<and>
    \<not> (dget (senders r) name = Some Waiting \<and> buf q \<noteq> [] \<and> \<not> wake q)"
  using router_reachable_inv [OF assms(1)] assms(2)
  by (auto simp: router_inv_def senders_ok_def queue_ok_def no_lost_wakeup_def)

theorem sender_never_stranded_witness:
  "length (buf (push demo_event (new_queue 2))) \<le> 2 \<and>
   \<not> (dget (senders (fst (ingest id 1 ''e'' [(''plugin'', PStr ''p'')] demo_router))) ''a'' = Some Waiting
      \<and> buf (push demo_event (new_queue 2)) \<noteq> [] \<and> \<not> wake (push demo_event (new_queue 2)))"
proof -
  let ?r = "fst (ingest id 1 ''e'' [(''plugin'', PStr ''p'')] demo_router)"
  have reach: "router_reachable id ?r"
    by (rule router_reachable.step [OF demo_router_reachable], rule step_ingest, rule surjective_pairing)
  have q: "dget (outq ?r) ''a'' = Some (push demo_event (new_queue 2))"
    by (simp add: ingest_def demo_simps event_session_def stamp_global_def demo_event_def push_def
        indexed_match_def pattern_admits_def field_admits_def stream_patterns_def dispatch_taps_def)
  show ?thesis using sender_never_stranded [OF reach q] by (simp add: new_queue_def)
qed

text \<open>The table of session counters never exceeds its bound, so a stream of ever new sessions
  cannot grow the router without limit.\<close>

theorem session_table_bounded:
  assumes "router_reachable packb r"
  shows "length (session_seq r) \<le> session_seq_max r"
  using router_reachable_inv [OF assms] by (simp add: router_inv_def seq_ok_def)

theorem session_table_bounded_witness: "length (session_seq demo_router) \<le> session_seq_max demo_router"
  by (rule session_table_bounded [OF demo_router_reachable [where packb = id]])

text \<open>A pattern survives the wire: parsing the document a pattern is dumped as gives the pattern
  back, with or without a session.\<close>

theorem pattern_roundtrip: "parse_pattern (PDict (dump_pattern p)) = Some p"
  by (cases p) (auto simp: dump_pattern_def parse_pattern_def pattern_keys_def opt_str_def
      split: option.splits)

end
