(* ===== verification/Durable_Store.thy ===== *)
theory Durable_Store
  imports Orbit_Prelude
begin

text \<open>
  Atomic JSON files (\<^verbatim>\<open>write_json_atomic\<close> and \<^verbatim>\<open>read_json\<close> of
  \<^verbatim>\<open>task_dispatcher_state.py\<close>, which \<^verbatim>\<open>federation_state.py\<close> imports), over a small file
  system with crashes: data written and not yet synced may be torn by a crash, a rename is one
  step.  The locale \<open>durable_store\<close> is the contract a client of the two functions relies on; its
  lemmas say what is recovered after any history of saves that ends in a crash.
\<close>

section \<open>JSON values\<close>

text \<open>\<open>json.dump(payload, default=str)\<close> followed by \<open>json.loads\<close>: the identity on JSON values (Python's
  encoder writes, and its decoder reads, the non-finite floats), and \<open>str(b)\<close> on bytes.\<close>

definition hex_digit :: "nat \<Rightarrow> char" where
  "hex_digit n = (if n < 10 then char_of (48 + n) else char_of (87 + n))"

definition byte_repr :: "char \<Rightarrow> char \<Rightarrow> string" where
  "byte_repr q c = (let n = of_char c :: nat in
     if c = q \<or> n = 92 then [char_of (92 :: nat), c]
     else if n = 9 then [char_of (92 :: nat), CHR ''t'']
     else if n = 10 then [char_of (92 :: nat), CHR ''n'']
     else if n = 13 then [char_of (92 :: nat), CHR ''r'']
     else if 32 \<le> n \<and> n < 127 then [c]
     else [char_of (92 :: nat), CHR ''x'', hex_digit (n div 16), hex_digit (n mod 16)])"

definition bytes_repr :: "string \<Rightarrow> string" where
  "bytes_repr b = (let sq = char_of (39 :: nat); dq = char_of (34 :: nat);
                       q = (if sq \<in> set b \<and> dq \<notin> set b then dq else sq)
     in [CHR ''b'', q] @ concat (map (byte_repr q) b) @ [q])"

function json_norm :: "pyval \<Rightarrow> pyval" where
  "json_norm PNone = PNone"
| "json_norm (PBool b) = PBool b"
| "json_norm (PInt i) = PInt i"
| "json_norm (PFloat f) = PFloat f"
| "json_norm (PStr s) = PStr s"
| "json_norm (PBytes b) = PStr (bytes_repr b)"
| "json_norm (PList vs) = PList (map json_norm vs)"
| "json_norm (PDict d) = PDict (map (\<lambda>kv. (fst kv, json_norm (snd kv))) d)"
  by pat_completeness auto

termination
  by (relation "measure size")
    (auto simp: less_Suc_eq_le pyval_dict_size intro: size_list_estimation')

function json_clean :: "pyval \<Rightarrow> bool" where
  "json_clean (PBytes b) = False"
| "json_clean (PList vs) = (\<forall>v \<in> set vs. json_clean v)"
| "json_clean (PDict d) = (\<forall>kv \<in> set d. json_clean (snd kv))"
| "json_clean PNone = True"
| "json_clean (PBool b) = True"
| "json_clean (PInt i) = True"
| "json_clean (PFloat f) = True"
| "json_clean (PStr s) = True"
  by pat_completeness auto

termination
  by (relation "measure size")
    (auto simp: less_Suc_eq_le pyval_dict_size intro: size_list_estimation')

lemma json_norm_clean: "json_clean v \<Longrightarrow> json_norm v = v"
proof (induction v rule: json_norm.induct)
  case (7 vs)
  then show ?case by (auto intro: map_idI)
next
  case (8 d)
  then have "map (\<lambda>kv. (fst kv, json_norm (snd kv))) d = d" by (intro map_idI) auto
  then show ?case by simp
qed auto

section \<open>Files\<close>

datatype fdata = Torn | Doc pyval

record fentry =
  f_data :: fdata
  f_synced :: bool

type_synonym fs = "(string \<times> fentry) list"

text \<open>The system calls of one atomic write, in the order the function issues them.\<close>

datatype fs_op =
    Mkstemp string
  | Dump string pyval
  | Fsync string
  | Rename string string

fun exec_op :: "fs_op \<Rightarrow> fs \<Rightarrow> fs" where
  "exec_op (Mkstemp tmp) fs = dset tmp \<lparr>f_data = Torn, f_synced = False\<rparr> fs"
| "exec_op (Dump tmp v) fs = dset tmp \<lparr>f_data = Doc (json_norm v), f_synced = False\<rparr> fs"
| "exec_op (Fsync tmp) fs = (case dget fs tmp of
     None \<Rightarrow> fs | Some f \<Rightarrow> dset tmp (f\<lparr>f_synced := True\<rparr>) fs)"
| "exec_op (Rename tmp path) fs = (case dget fs tmp of
     None \<Rightarrow> fs | Some f \<Rightarrow> dset path f (dpop tmp fs))"

definition write_ops :: "string \<Rightarrow> string \<Rightarrow> pyval \<Rightarrow> fs_op list" where
  "write_ops tmp path payload = [Mkstemp tmp, Dump tmp payload, Fsync tmp, Rename tmp path]"

text \<open>What the operating system decides: the temporary name, which call (if any) raises, and whether
  the clean-up \<open>os.unlink\<close> succeeds.\<close>

record write_env =
  we_tmp :: string
  we_fault :: "nat option"
  we_unlink_ok :: bool

datatype os_error = OSError

definition write_json_atomic :: "write_env \<Rightarrow> string \<Rightarrow> pyval \<Rightarrow> fs \<Rightarrow> (os_error + unit) \<times> fs" where
  "write_json_atomic env path payload fs =
    (let ops = write_ops (we_tmp env) path payload in
     case we_fault env of
       None \<Rightarrow> (Inr (), fold exec_op ops fs)
     | Some n \<Rightarrow>
        if length ops \<le> n then (Inr (), fold exec_op ops fs)
        else if n = 0 then (Inl OSError, fs)
        else let fs1 = fold exec_op (take n ops) fs
             in (Inl OSError, if we_unlink_ok env then dpop (we_tmp env) fs1 else fs1))"

definition read_json :: "string \<Rightarrow> pyval \<Rightarrow> fs \<Rightarrow> pyval" where
  "read_json path dflt fs = (case dget fs path of
     None \<Rightarrow> dflt
   | Some f \<Rightarrow> (case f_data f of Torn \<Rightarrow> dflt | Doc v \<Rightarrow> v))"

section \<open>Crashes\<close>

text \<open>A crash tears any unsynced file it does not happen to keep.\<close>

definition crash :: "(string \<Rightarrow> bool) \<Rightarrow> fs \<Rightarrow> fs" where
  "crash kept fs = map (\<lambda>(p, f). (p, if f_synced f \<or> kept p then f else f\<lparr>f_data := Torn\<rparr>)) fs"

definition crash_in_write ::
  "nat \<Rightarrow> (string \<Rightarrow> bool) \<Rightarrow> write_env \<Rightarrow> string \<Rightarrow> pyval \<Rightarrow> fs \<Rightarrow> fs" where
  "crash_in_write n kept env path payload fs =
     crash kept (fold exec_op (take n (write_ops (we_tmp env) path payload)) fs)"

definition path_durable :: "string \<Rightarrow> fs \<Rightarrow> bool" where
  "path_durable path fs \<longleftrightarrow> (\<forall>f. dget fs path = Some f \<longrightarrow> f_synced f)"

lemma dget_crash: "dget (crash kept fs) p =
    map_option (\<lambda>f. if f_synced f \<or> kept p then f else f\<lparr>f_data := Torn\<rparr>) (dget fs p)"
  by (induction fs) (auto simp: crash_def)

lemma write_prefix:
  assumes "path \<noteq> we_tmp env" "n < 4"
  shows "dget (fold exec_op (take n (write_ops (we_tmp env) path v)) fs) path = dget fs path"
proof -
  have "n \<in> {0, 1, 2, 3}" using assms(2) by auto
  then show ?thesis using assms(1) by (auto simp: write_ops_def numeral_3_eq_3 numeral_2_eq_2)
qed

lemma write_all:
  assumes "path \<noteq> we_tmp env" "4 \<le> n"
  shows "dget (fold exec_op (take n (write_ops (we_tmp env) path v)) fs) path =
    Some \<lparr>f_data = Doc (json_norm v), f_synced = True\<rparr>"
  using assms by (auto simp: write_ops_def)

lemma write_ok:
  assumes "path \<noteq> we_tmp env" "fst (write_json_atomic env path v fs) = Inr ()"
  shows "dget (snd (write_json_atomic env path v fs)) path =
    Some \<lparr>f_data = Doc (json_norm v), f_synced = True\<rparr>"
  using assms write_all [of path env 4 v fs]
  by (auto simp: write_json_atomic_def Let_def write_ops_def split: option.splits if_splits)

lemma write_failed:
  assumes "path \<noteq> we_tmp env" "fst (write_json_atomic env path v fs) = Inl e"
  shows "dget (snd (write_json_atomic env path v fs)) path = dget fs path"
proof -
  obtain n where n: "we_fault env = Some n" "n < 4"
    using assms(2) by (auto simp: write_json_atomic_def Let_def write_ops_def split: option.splits if_splits)
  show ?thesis using n assms(1) write_prefix [OF assms(1) n(2), of v fs]
    by (auto simp: write_json_atomic_def Let_def write_ops_def)
qed

section \<open>The contract\<close>

text \<open>\<open>save\<close> writes a state, \<open>load\<close> reads one back, \<open>view\<close> is what a reader gets of a state that was
  written; \<open>ok\<close> is the durability of the current file.\<close>

locale durable_store =
  fixes view :: "'s \<Rightarrow> 'v"
    and save :: "write_env \<Rightarrow> 's \<Rightarrow> fs \<Rightarrow> (os_error + unit) \<times> fs"
    and crashed :: "nat \<Rightarrow> (string \<Rightarrow> bool) \<Rightarrow> write_env \<Rightarrow> 's \<Rightarrow> fs \<Rightarrow> fs"
    and load :: "fs \<Rightarrow> 'v"
    and ok :: "fs \<Rightarrow> bool"
    and env_ok :: "write_env \<Rightarrow> bool"
  assumes save_load: "env_ok env \<Longrightarrow> fst (save env s fs) = Inr () \<Longrightarrow>
      load (snd (save env s fs)) = view s \<and> ok (snd (save env s fs))"
    and save_fails: "env_ok env \<Longrightarrow> ok fs \<Longrightarrow> fst (save env s fs) = Inl e \<Longrightarrow>
      load (snd (save env s fs)) = load fs \<and> ok (snd (save env s fs))"
    and crash_load: "env_ok env \<Longrightarrow> ok fs \<Longrightarrow> load (crashed n kept env s fs) \<in> {load fs, view s}"
begin

primrec save_all :: "(write_env \<times> 's) list \<Rightarrow> fs \<Rightarrow> fs" where
  "save_all [] fs = fs"
| "save_all (es # rest) fs = save_all rest (snd (save (fst es) (snd es) fs))"

lemma save_all_ok:
  assumes "ok fs" "\<forall>es \<in> set hist. env_ok (fst es)"
  shows "ok (save_all hist fs) \<and> load (save_all hist fs) \<in> insert (load fs) (view ` snd ` set hist)"
  using assms
proof (induction hist arbitrary: fs)
  case Nil
  then show ?case by simp
next
  case (Cons es hist)
  let ?r = "save (fst es) (snd es) fs"
  have step: "ok (snd ?r) \<and> load (snd ?r) \<in> {load fs, view (snd es)}"
  proof (cases "fst ?r")
    case (Inl e)
    then show ?thesis using save_fails [of "fst es" fs "snd es" e] Cons.prems by simp
  next
    case (Inr u)
    then show ?thesis using save_load [of "fst es" "snd es" fs] Cons.prems by simp
  qed
  show ?case using Cons.IH [of "snd ?r"] Cons.prems step by auto
qed

lemma last_save_wins:
  assumes "env_ok env" "fst (save env s (save_all hist fs)) = Inr ()"
  shows "load (save_all (hist @ [(env, s)]) fs) = view s"
proof -
  have "save_all (hist @ [(env, s)]) fs = snd (save env s (save_all hist fs))"
    by (induction hist arbitrary: fs) auto
  then show ?thesis using save_load [OF assms] by simp
qed

lemma recover_after_crash:
  assumes "ok fs" "\<forall>es \<in> set hist. env_ok (fst es)" "env_ok env"
  shows "load (crashed n kept env s (save_all hist fs)) \<in> {load (save_all hist fs), view s}"
  using crash_load [OF assms(3)] save_all_ok [OF assms(1,2)] by blast

end

lemma read_json_crash:
  assumes "path \<noteq> we_tmp env" "path_durable path fs"
  shows "read_json path d (crash_in_write n kept env path v fs) \<in> {read_json path d fs, json_norm v}"
proof (cases "n < 4")
  case True
  then show ?thesis using assms write_prefix [OF assms(1) True, of v fs]
    by (auto simp: read_json_def crash_in_write_def dget_crash path_durable_def split: option.splits)
next
  case False
  then show ?thesis using write_all [OF assms(1), of n v fs]
    by (simp add: read_json_def crash_in_write_def dget_crash)
qed

text \<open>The two functions themselves meet the contract, at any path.\<close>

interpretation json_file: durable_store json_norm
    "\<lambda>env v fs. write_json_atomic env path v fs"
    "\<lambda>n kept env v fs. crash_in_write n kept env path v fs"
    "read_json path d" "path_durable path" "\<lambda>env. path \<noteq> we_tmp env"
  for path d
proof
  fix env v fs n kept e
  show "path \<noteq> we_tmp env \<Longrightarrow> fst (write_json_atomic env path v fs) = Inr () \<Longrightarrow>
      read_json path d (snd (write_json_atomic env path v fs)) = json_norm v \<and>
      path_durable path (snd (write_json_atomic env path v fs))"
    using write_ok [of path env v fs] by (auto simp: read_json_def path_durable_def)
  show "path \<noteq> we_tmp env \<Longrightarrow> path_durable path fs \<Longrightarrow> fst (write_json_atomic env path v fs) = Inl e \<Longrightarrow>
      read_json path d (snd (write_json_atomic env path v fs)) = read_json path d fs \<and>
      path_durable path (snd (write_json_atomic env path v fs))"
    using write_failed [of path env v fs] by (auto simp: read_json_def path_durable_def)
  show "path \<noteq> we_tmp env \<Longrightarrow> path_durable path fs \<Longrightarrow>
      read_json path d (crash_in_write n kept env path v fs) \<in> {read_json path d fs, json_norm v}"
    by (rule read_json_crash)
qed

text \<open>C8. A crash at any point of an atomic write, however the operating system treats unsynced data,
  leaves a file that reads as the complete old document or as the complete new one.\<close>

theorem write_json_atomic_crash_safe:
  assumes "path \<noteq> we_tmp env" and "path_durable path fs"
  shows "read_json path d (crash_in_write n kept env path v fs) \<in> {read_json path d fs, json_norm v}"
  by (rule read_json_crash [OF assms])

theorem write_json_atomic_crash_safe_witness:
  "read_json ''s'' PNone (crash_in_write 3 (\<lambda>_. False) \<lparr>we_tmp = ''t'', we_fault = None, we_unlink_ok = True\<rparr>
     ''s'' (PInt 2) [(''s'', \<lparr>f_data = Doc (PInt 1), f_synced = True\<rparr>)]) \<in> {PInt 1, PInt 2}"
  using write_json_atomic_crash_safe [of "''s''" "\<lparr>we_tmp = ''t'', we_fault = None, we_unlink_ok = True\<rparr>"
      "[(''s'', \<lparr>f_data = Doc (PInt 1), f_synced = True\<rparr>)]" PNone 3 "\<lambda>_. False" "PInt 2"]
  by (simp add: path_durable_def read_json_def)

end
