(* ===== verification/Dispatcher_State.thy ===== *)
theory Dispatcher_State
  imports Durable_Store
begin

text \<open>
  Records and the durable per-pool store of the task dispatcher
  (\<^verbatim>\<open>task_dispatcher_state.py\<close>).  A record field keeps the name of the dataclass field with a
  \<open>p_\<close> or \<open>t_\<close> prefix.  The two state vocabularies are datatypes; \<open>enc_pilot_state\<close> and
  \<open>enc_task_state\<close> give the strings.  \<open>record_from_dict\<close> stores whatever value a document holds in
  a field; the decoders below cover the documents whose fields have the declared types, and name
  the field of any other as \<open>IllTyped\<close>.
\<close>

section \<open>State vocabularies\<close>

datatype pilot_state = PILOT_PENDING | PILOT_STARTING | PILOT_ACTIVE | PILOT_DONE | PILOT_FAILED

datatype task_state = TASK_QUEUED | TASK_RUNNING | TASK_DONE | TASK_FAILED | TASK_CANCELED

definition PILOT_TERMINAL_STATES :: "pilot_state list" where
  "PILOT_TERMINAL_STATES = [PILOT_DONE, PILOT_FAILED]"

definition PILOT_LIVE_STATES :: "pilot_state list" where
  "PILOT_LIVE_STATES = [PILOT_PENDING, PILOT_STARTING, PILOT_ACTIVE]"

definition TASK_TERMINAL_STATES :: "task_state list" where
  "TASK_TERMINAL_STATES = [TASK_DONE, TASK_FAILED, TASK_CANCELED]"

definition PILOT_ERROR_MAX :: nat where
  "PILOT_ERROR_MAX = 300"

lemma pilot_live_iff: "s \<in> set PILOT_LIVE_STATES \<longleftrightarrow> s \<notin> set PILOT_TERMINAL_STATES"
  by (cases s) (auto simp: PILOT_LIVE_STATES_def PILOT_TERMINAL_STATES_def)

section \<open>Records\<close>

record pilot_record =
  p_pid :: string
  p_pool :: string
  p_size_key :: string
  p_rhapsody_backend :: string
  p_owning_sid :: string
  p_psij_job_id :: "string option"
  p_child_endpoint_name :: "string option"
  p_state :: pilot_state
  p_submitted_at :: rat
  p_active_at :: "rat option"
  p_capacity :: int
  p_in_flight :: int
  p_started_tasks :: int
  p_walltime_deadline :: pyfloat
  p_accepting :: bool
  p_finished_at :: "rat option"
  p_error :: "string option"
  p_member_id :: string
  p_attributes :: dict
  p_endpoint_name :: string
  p_nodes :: int
  p_cpus_per_node :: int
  p_gpus_per_node :: int
  p_adopted :: bool

record task_record =
  t_task_id :: string
  t_pool :: string
  t_cmd :: "string list"
  t_cwd :: string
  t_owning_sid :: string
  t_priority :: int
  t_inputs :: "string list"
  t_outputs :: "string list"
  t_state :: task_state
  t_pilot_id :: "string option"
  t_rhapsody_uid :: "string option"
  t_submitted_at :: rat
  t_started_at :: "rat option"
  t_finished_at :: "rat option"
  t_exit_code :: "int option"
  t_arrival_ts :: rat
  t_error :: "string option"
  t_requirements :: dict
  t_member_id :: "string option"
  t_requeues :: int
  t_spooled :: "string list"
  t_cwd_assigned :: bool
  t_task_dict :: "dict option"

text \<open>\<open>PilotRecord(pid=..., pool=..., ...)\<close> with every other field at its default.\<close>

definition new_pilot :: "string \<Rightarrow> string \<Rightarrow> string \<Rightarrow> string \<Rightarrow> pilot_record" where
  "new_pilot pid pool size_key backend =
    \<lparr>p_pid = pid, p_pool = pool, p_size_key = size_key, p_rhapsody_backend = backend,
     p_owning_sid = '''', p_psij_job_id = None, p_child_endpoint_name = None,
     p_state = PILOT_PENDING, p_submitted_at = 0, p_active_at = None, p_capacity = 0,
     p_in_flight = 0, p_started_tasks = 0, p_walltime_deadline = Fin 0, p_accepting = True,
     p_finished_at = None, p_error = None, p_member_id = '''', p_attributes = [],
     p_endpoint_name = '''', p_nodes = 0, p_cpus_per_node = 0, p_gpus_per_node = 0,
     p_adopted = False\<rparr>"

definition new_task :: "string \<Rightarrow> string \<Rightarrow> string list \<Rightarrow> string \<Rightarrow> task_record" where
  "new_task tid pool cmd cwd =
    \<lparr>t_task_id = tid, t_pool = pool, t_cmd = cmd, t_cwd = cwd, t_owning_sid = '''',
     t_priority = 0, t_inputs = [], t_outputs = [], t_state = TASK_QUEUED, t_pilot_id = None,
     t_rhapsody_uid = None, t_submitted_at = 0, t_started_at = None, t_finished_at = None,
     t_exit_code = None, t_arrival_ts = 0, t_error = None, t_requirements = [],
     t_member_id = None, t_requeues = 0, t_spooled = [], t_cwd_assigned = False,
     t_task_dict = None\<rparr>"

definition lag :: "pilot_record \<Rightarrow> rat option" where
  "lag p = (case p_active_at p of None \<Rightarrow> None | Some t \<Rightarrow> Some (t - p_submitted_at p))"

definition pilot_is_terminal :: "pilot_record \<Rightarrow> bool" where
  "pilot_is_terminal p \<longleftrightarrow> p_state p \<in> set PILOT_TERMINAL_STATES"

definition free_capacity :: "pilot_record \<Rightarrow> int" where
  "free_capacity p = (if p_state p \<noteq> PILOT_ACTIVE \<or> \<not> p_accepting p then 0
     else max 0 (p_capacity p - p_in_flight p))"

definition task_is_terminal :: "task_record \<Rightarrow> bool" where
  "task_is_terminal t \<longleftrightarrow> t_state t \<in> set TASK_TERMINAL_STATES"

lemma task_terminal_iff:
  "task_is_terminal t \<longleftrightarrow> t_state t \<noteq> TASK_QUEUED \<and> t_state t \<noteq> TASK_RUNNING"
  by (cases "t_state t") (auto simp: task_is_terminal_def TASK_TERMINAL_STATES_def)

lemma pilot_terminal_iff:
  "pilot_is_terminal p \<longleftrightarrow> p_state p = PILOT_DONE \<or> p_state p = PILOT_FAILED"
  by (auto simp: pilot_is_terminal_def PILOT_TERMINAL_STATES_def)

lemma free_capacity_pos:
  "0 < free_capacity p \<longleftrightarrow> p_state p = PILOT_ACTIVE \<and> p_accepting p \<and> p_in_flight p < p_capacity p"
  by (auto simp: free_capacity_def)

section \<open>Node-hour accounting\<close>

definition pilot_charge :: "rat \<Rightarrow> pilot_record \<Rightarrow> rat" where
  "pilot_charge now p =
    (if p_nodes p = 0 then 0
     else case p_active_at p of
            None \<Rightarrow> 0
          | Some start \<Rightarrow>
              let stop = (case p_finished_at p of None \<Rightarrow> now | Some t \<Rightarrow> t)
              in of_int (p_nodes p) * max 0 (stop - start) / 3600)"

definition node_hours :: "pilot_record list \<Rightarrow> rat \<Rightarrow> rat" where
  "node_hours pilots now = fold (\<lambda>p total. total + pilot_charge now p) pilots 0"

lemma node_hours_sum: "node_hours pilots now = sum_list (map (pilot_charge now) pilots)"
proof -
  have "fold (\<lambda>p total. total + pilot_charge now p) pilots acc =
      acc + sum_list (map (pilot_charge now) pilots)" for acc
    by (induction pilots arbitrary: acc) (auto simp: algebra_simps)
  then show ?thesis by (simp add: node_hours_def)
qed

lemma pilot_charge_mono:
  assumes "0 \<le> p_nodes p" "now \<le> now'"
  shows "0 \<le> pilot_charge now p \<and> pilot_charge now p \<le> pilot_charge now' p"
proof -
  have "0 \<le> (of_int (p_nodes p) :: rat)" using assms(1) by simp
  then show ?thesis using assms(2)
    by (auto simp: pilot_charge_def Let_def divide_right_mono mult_left_mono split: option.splits)
qed

lemma node_hours_mono:
  assumes "\<forall>p \<in> set pilots. 0 \<le> p_nodes p" "now \<le> now'"
  shows "0 \<le> node_hours pilots now \<and> node_hours pilots now \<le> node_hours pilots now'"
  unfolding node_hours_sum using assms(1)
proof (induction pilots)
  case Nil
  then show ?case by simp
next
  case (Cons p pilots)
  then show ?case using pilot_charge_mono [of p now now'] assms(2) by auto
qed

text \<open>The charge of a finished pilot is settled: it does not depend on the time of the reading.\<close>

lemma node_hours_settled:
  assumes "\<forall>p \<in> set pilots. p_active_at p = None \<or> p_finished_at p \<noteq> None"
  shows "node_hours pilots now = node_hours pilots now'"
proof -
  have "map (pilot_charge now) pilots = map (pilot_charge now') pilots"
    using assms by (intro map_cong) (auto simp: pilot_charge_def split: option.splits)
  then show ?thesis unfolding node_hours_sum by (rule arg_cong)
qed

section \<open>Serialisation\<close>

text \<open>\<open>dataclasses.asdict\<close>, field by field in declaration order.\<close>

definition enc_rat :: "rat \<Rightarrow> pyval" where
  "enc_rat r = PFloat (Fin r)"

definition enc_opt :: "('a \<Rightarrow> pyval) \<Rightarrow> 'a option \<Rightarrow> pyval" where
  "enc_opt f x = (case x of None \<Rightarrow> PNone | Some y \<Rightarrow> f y)"

definition enc_strs :: "string list \<Rightarrow> pyval" where
  "enc_strs xs = PList (map PStr xs)"

fun pilot_state_str :: "pilot_state \<Rightarrow> string" where
  "pilot_state_str PILOT_PENDING = ''PENDING''"
| "pilot_state_str PILOT_STARTING = ''STARTING''"
| "pilot_state_str PILOT_ACTIVE = ''ACTIVE''"
| "pilot_state_str PILOT_DONE = ''DONE''"
| "pilot_state_str PILOT_FAILED = ''FAILED''"

fun task_state_str :: "task_state \<Rightarrow> string" where
  "task_state_str TASK_QUEUED = ''QUEUED''"
| "task_state_str TASK_RUNNING = ''RUNNING''"
| "task_state_str TASK_DONE = ''DONE''"
| "task_state_str TASK_FAILED = ''FAILED''"
| "task_state_str TASK_CANCELED = ''CANCELED''"

definition enc_pilot_state :: "pilot_state \<Rightarrow> pyval" where
  "enc_pilot_state s = PStr (pilot_state_str s)"

definition enc_task_state :: "task_state \<Rightarrow> pyval" where
  "enc_task_state s = PStr (task_state_str s)"

definition pilot_asdict :: "pilot_record \<Rightarrow> dict" where
  "pilot_asdict r =
    [(''pid'', PStr (p_pid r)),
     (''pool'', PStr (p_pool r)),
     (''size_key'', PStr (p_size_key r)),
     (''rhapsody_backend'', PStr (p_rhapsody_backend r)),
     (''owning_sid'', PStr (p_owning_sid r)),
     (''psij_job_id'', enc_opt PStr (p_psij_job_id r)),
     (''child_endpoint_name'', enc_opt PStr (p_child_endpoint_name r)),
     (''state'', enc_pilot_state (p_state r)),
     (''submitted_at'', enc_rat (p_submitted_at r)),
     (''active_at'', enc_opt enc_rat (p_active_at r)),
     (''capacity'', PInt (p_capacity r)),
     (''in_flight'', PInt (p_in_flight r)),
     (''started_tasks'', PInt (p_started_tasks r)),
     (''walltime_deadline'', PFloat (p_walltime_deadline r)),
     (''accepting_new_tasks'', PBool (p_accepting r)),
     (''finished_at'', enc_opt enc_rat (p_finished_at r)),
     (''error'', enc_opt PStr (p_error r)),
     (''member_id'', PStr (p_member_id r)),
     (''attributes'', PDict (p_attributes r)),
     (''endpoint_name'', PStr (p_endpoint_name r)),
     (''nodes'', PInt (p_nodes r)),
     (''cpus_per_node'', PInt (p_cpus_per_node r)),
     (''gpus_per_node'', PInt (p_gpus_per_node r)),
     (''adopted'', PBool (p_adopted r))]"

definition task_asdict :: "task_record \<Rightarrow> dict" where
  "task_asdict r =
    [(''task_id'', PStr (t_task_id r)),
     (''pool'', PStr (t_pool r)),
     (''cmd'', enc_strs (t_cmd r)),
     (''cwd'', PStr (t_cwd r)),
     (''owning_sid'', PStr (t_owning_sid r)),
     (''priority'', PInt (t_priority r)),
     (''inputs'', enc_strs (t_inputs r)),
     (''outputs'', enc_strs (t_outputs r)),
     (''state'', enc_task_state (t_state r)),
     (''pilot_id'', enc_opt PStr (t_pilot_id r)),
     (''rhapsody_uid'', enc_opt PStr (t_rhapsody_uid r)),
     (''submitted_at'', enc_rat (t_submitted_at r)),
     (''started_at'', enc_opt enc_rat (t_started_at r)),
     (''finished_at'', enc_opt enc_rat (t_finished_at r)),
     (''exit_code'', enc_opt PInt (t_exit_code r)),
     (''arrival_ts'', enc_rat (t_arrival_ts r)),
     (''error'', enc_opt PStr (t_error r)),
     (''requirements'', PDict (t_requirements r)),
     (''member_id'', enc_opt PStr (t_member_id r)),
     (''requeues'', PInt (t_requeues r)),
     (''spooled'', enc_strs (t_spooled r)),
     (''cwd_assigned'', PBool (t_cwd_assigned r)),
     (''task_dict'', enc_opt PDict (t_task_dict r))]"

text \<open>Decoding: a missing field takes its default, a missing field without one is the \<open>TypeError\<close> of
  the constructor call.\<close>

datatype decode_error = MissingArgument string | IllTyped string

fun dec_str :: "pyval \<Rightarrow> string option" where
  "dec_str (PStr s) = Some s" | "dec_str _ = None"

fun dec_int :: "pyval \<Rightarrow> int option" where
  "dec_int (PInt i) = Some i" | "dec_int _ = None"

fun dec_bool :: "pyval \<Rightarrow> bool option" where
  "dec_bool (PBool b) = Some b" | "dec_bool _ = None"

fun dec_float :: "pyval \<Rightarrow> pyfloat option" where
  "dec_float (PFloat f) = Some f" | "dec_float (PInt i) = Some (Fin (of_int i))" | "dec_float _ = None"

fun dec_rat :: "pyval \<Rightarrow> rat option" where
  "dec_rat (PFloat (Fin r)) = Some r" | "dec_rat (PInt i) = Some (of_int i)" | "dec_rat _ = None"

fun dec_dict :: "pyval \<Rightarrow> dict option" where
  "dec_dict (PDict d) = Some d" | "dec_dict _ = None"

fun dec_strs :: "pyval \<Rightarrow> string list option" where
  "dec_strs (PList vs) = (if list_all is_str vs then Some (map str_of vs) else None)"
| "dec_strs _ = None"

definition dec_opt :: "(pyval \<Rightarrow> 'a option) \<Rightarrow> pyval \<Rightarrow> 'a option option" where
  "dec_opt f v = (if v = PNone then Some None else map_option Some (f v))"

definition dec_pilot_state :: "pyval \<Rightarrow> pilot_state option" where
  "dec_pilot_state v = find (\<lambda>s. enc_pilot_state s = v)
     [PILOT_PENDING, PILOT_STARTING, PILOT_ACTIVE, PILOT_DONE, PILOT_FAILED]"

definition dec_task_state :: "pyval \<Rightarrow> task_state option" where
  "dec_task_state v = find (\<lambda>s. enc_task_state s = v)
     [TASK_QUEUED, TASK_RUNNING, TASK_DONE, TASK_FAILED, TASK_CANCELED]"

definition required :: "(pyval \<Rightarrow> 'a option) \<Rightarrow> string \<Rightarrow> dict \<Rightarrow> decode_error + 'a" where
  "required f k d = (case dget d k of
     None \<Rightarrow> Inl (MissingArgument k)
   | Some v \<Rightarrow> (case f v of None \<Rightarrow> Inl (IllTyped k) | Some x \<Rightarrow> Inr x))"

definition optional :: "(pyval \<Rightarrow> 'a option) \<Rightarrow> 'a \<Rightarrow> string \<Rightarrow> dict \<Rightarrow> decode_error + 'a" where
  "optional f x0 k d = (case dget d k of
     None \<Rightarrow> Inr x0
   | Some v \<Rightarrow> (case f v of None \<Rightarrow> Inl (IllTyped k) | Some x \<Rightarrow> Inr x))"

definition pilot_from_dict :: "dict \<Rightarrow> decode_error + pilot_record" where
  "pilot_from_dict d =
    rbind (required dec_str ''pid'' d) (\<lambda>v1.
    rbind (required dec_str ''pool'' d) (\<lambda>v2.
    rbind (required dec_str ''size_key'' d) (\<lambda>v3.
    rbind (required dec_str ''rhapsody_backend'' d) (\<lambda>v4.
    rbind (optional dec_str '''' ''owning_sid'' d) (\<lambda>v5.
    rbind (optional (dec_opt dec_str) None ''psij_job_id'' d) (\<lambda>v6.
    rbind (optional (dec_opt dec_str) None ''child_endpoint_name'' d) (\<lambda>v7.
    rbind (optional dec_pilot_state PILOT_PENDING ''state'' d) (\<lambda>v8.
    rbind (optional dec_rat 0 ''submitted_at'' d) (\<lambda>v9.
    rbind (optional (dec_opt dec_rat) None ''active_at'' d) (\<lambda>v10.
    rbind (optional dec_int 0 ''capacity'' d) (\<lambda>v11.
    rbind (optional dec_int 0 ''in_flight'' d) (\<lambda>v12.
    rbind (optional dec_int 0 ''started_tasks'' d) (\<lambda>v13.
    rbind (optional dec_float (Fin 0) ''walltime_deadline'' d) (\<lambda>v14.
    rbind (optional dec_bool True ''accepting_new_tasks'' d) (\<lambda>v15.
    rbind (optional (dec_opt dec_rat) None ''finished_at'' d) (\<lambda>v16.
    rbind (optional (dec_opt dec_str) None ''error'' d) (\<lambda>v17.
    rbind (optional dec_str '''' ''member_id'' d) (\<lambda>v18.
    rbind (optional dec_dict [] ''attributes'' d) (\<lambda>v19.
    rbind (optional dec_str '''' ''endpoint_name'' d) (\<lambda>v20.
    rbind (optional dec_int 0 ''nodes'' d) (\<lambda>v21.
    rbind (optional dec_int 0 ''cpus_per_node'' d) (\<lambda>v22.
    rbind (optional dec_int 0 ''gpus_per_node'' d) (\<lambda>v23.
    rbind (optional dec_bool False ''adopted'' d) (\<lambda>v24.
    Inr \<lparr>p_pid = v1,
      p_pool = v2,
      p_size_key = v3,
      p_rhapsody_backend = v4,
      p_owning_sid = v5,
      p_psij_job_id = v6,
      p_child_endpoint_name = v7,
      p_state = v8,
      p_submitted_at = v9,
      p_active_at = v10,
      p_capacity = v11,
      p_in_flight = v12,
      p_started_tasks = v13,
      p_walltime_deadline = v14,
      p_accepting = v15,
      p_finished_at = v16,
      p_error = v17,
      p_member_id = v18,
      p_attributes = v19,
      p_endpoint_name = v20,
      p_nodes = v21,
      p_cpus_per_node = v22,
      p_gpus_per_node = v23,
      p_adopted = v24\<rparr>))))))))))))))))))))))))"

definition task_from_dict :: "dict \<Rightarrow> decode_error + task_record" where
  "task_from_dict d =
    rbind (required dec_str ''task_id'' d) (\<lambda>v1.
    rbind (required dec_str ''pool'' d) (\<lambda>v2.
    rbind (required dec_strs ''cmd'' d) (\<lambda>v3.
    rbind (required dec_str ''cwd'' d) (\<lambda>v4.
    rbind (optional dec_str '''' ''owning_sid'' d) (\<lambda>v5.
    rbind (optional dec_int 0 ''priority'' d) (\<lambda>v6.
    rbind (optional dec_strs [] ''inputs'' d) (\<lambda>v7.
    rbind (optional dec_strs [] ''outputs'' d) (\<lambda>v8.
    rbind (optional dec_task_state TASK_QUEUED ''state'' d) (\<lambda>v9.
    rbind (optional (dec_opt dec_str) None ''pilot_id'' d) (\<lambda>v10.
    rbind (optional (dec_opt dec_str) None ''rhapsody_uid'' d) (\<lambda>v11.
    rbind (optional dec_rat 0 ''submitted_at'' d) (\<lambda>v12.
    rbind (optional (dec_opt dec_rat) None ''started_at'' d) (\<lambda>v13.
    rbind (optional (dec_opt dec_rat) None ''finished_at'' d) (\<lambda>v14.
    rbind (optional (dec_opt dec_int) None ''exit_code'' d) (\<lambda>v15.
    rbind (optional dec_rat 0 ''arrival_ts'' d) (\<lambda>v16.
    rbind (optional (dec_opt dec_str) None ''error'' d) (\<lambda>v17.
    rbind (optional dec_dict [] ''requirements'' d) (\<lambda>v18.
    rbind (optional (dec_opt dec_str) None ''member_id'' d) (\<lambda>v19.
    rbind (optional dec_int 0 ''requeues'' d) (\<lambda>v20.
    rbind (optional dec_strs [] ''spooled'' d) (\<lambda>v21.
    rbind (optional dec_bool False ''cwd_assigned'' d) (\<lambda>v22.
    rbind (optional (dec_opt dec_dict) None ''task_dict'' d) (\<lambda>v23.
    Inr \<lparr>t_task_id = v1,
      t_pool = v2,
      t_cmd = v3,
      t_cwd = v4,
      t_owning_sid = v5,
      t_priority = v6,
      t_inputs = v7,
      t_outputs = v8,
      t_state = v9,
      t_pilot_id = v10,
      t_rhapsody_uid = v11,
      t_submitted_at = v12,
      t_started_at = v13,
      t_finished_at = v14,
      t_exit_code = v15,
      t_arrival_ts = v16,
      t_error = v17,
      t_requirements = v18,
      t_member_id = v19,
      t_requeues = v20,
      t_spooled = v21,
      t_cwd_assigned = v22,
      t_task_dict = v23\<rparr>)))))))))))))))))))))))"

text \<open>\<open>records_to\<close> and \<open>records_from\<close>, for one record class each.\<close>

definition records_to :: "('r \<Rightarrow> dict) \<Rightarrow> (string \<times> 'r) list \<Rightarrow> dict" where
  "records_to as records = map (\<lambda>(k, r). (k, PDict (as r))) records"

fun record_item :: "(dict \<Rightarrow> decode_error + 'r) \<Rightarrow> string \<times> pyval \<Rightarrow> decode_error + string \<times> 'r" where
  "record_item from (k, PDict d) = rbind (from d) (\<lambda>r. Inr (k, r))"
| "record_item from (k, _) = Inl (IllTyped k)"

definition records_from :: "(dict \<Rightarrow> decode_error + 'r) \<Rightarrow> pyval \<Rightarrow> decode_error + (string \<times> 'r) list" where
  "records_from from data = (if \<not> truthy data then Inr [] else case data of
     PDict items \<Rightarrow> rmap_list (record_item from) items
   | _ \<Rightarrow> Inl (IllTyped ''data''))"

lemma dec_enc [simp]:
  "dec_rat (enc_rat r) = Some r" "dec_strs (enc_strs xs) = Some xs"
  "dec_pilot_state (enc_pilot_state ps) = Some ps" "dec_task_state (enc_task_state ts) = Some ts"
  "dec_opt dec_str (enc_opt PStr os) = Some os" "dec_opt dec_int (enc_opt PInt oi) = Some oi"
  "dec_opt dec_rat (enc_opt enc_rat orr) = Some orr" "dec_opt dec_dict (enc_opt PDict od) = Some od"
proof -
  show "dec_strs (enc_strs xs) = Some xs"
    by (auto simp: enc_strs_def list_all_iff intro: map_idI)
  show "dec_pilot_state (enc_pilot_state ps) = Some ps"
    by (cases ps) (simp_all add: dec_pilot_state_def enc_pilot_state_def)
  show "dec_task_state (enc_task_state ts) = Some ts"
    by (cases ts) (simp_all add: dec_task_state_def enc_task_state_def)
qed (auto simp: enc_rat_def dec_opt_def enc_opt_def split: option.splits)

lemma requiredI: "dget d k = Some v \<Longrightarrow> f v = Some x \<Longrightarrow> required f k d = Inr x"
  by (simp add: required_def)

lemma optionalI: "dget d k = Some v \<Longrightarrow> f v = Some x \<Longrightarrow> optional f x0 k d = Inr x"
  by (simp add: optional_def)

lemma pilot_roundtrip: "pilot_from_dict (pilot_asdict r) = Inr r"
  unfolding pilot_from_dict_def pilot_asdict_def by (simp add: required_def optional_def)

lemma task_roundtrip: "task_from_dict (task_asdict r) = Inr r"
  unfolding task_from_dict_def task_asdict_def by (simp add: required_def optional_def)

lemma records_roundtrip:
  assumes "\<And>r. from (as r) = Inr r"
  shows "records_from from (PDict (records_to as records)) = Inr records"
proof -
  have "rmap_list (record_item from) (records_to as rs) = Inr rs" for rs
    by (induction rs) (auto simp: records_to_def assms)
  then show ?thesis by (auto simp: records_from_def records_to_def)
qed

section \<open>The per-pool store\<close>

record saved_pool =
  sv_owning_sid :: string
  sv_config :: dict
  sv_pilots :: "(string \<times> pilot_record) list"
  sv_tasks :: "(string \<times> task_record) list"

definition pool_payload :: "saved_pool \<Rightarrow> pyval" where
  "pool_payload s = PDict
    [(''owning_sid'', PStr (sv_owning_sid s)),
     (''config'', PDict (sv_config s)),
     (''pilots'', PDict (records_to pilot_asdict (sv_pilots s))),
     (''tasks'', PDict (records_to task_asdict (sv_tasks s)))]"

definition store_load :: "string \<Rightarrow> fs \<Rightarrow> pyval" where
  "store_load path fs = (let v = read_json path (PDict []) fs in if truthy v then v else PDict [])"

definition store_save :: "write_env \<Rightarrow> string \<Rightarrow> saved_pool \<Rightarrow> fs \<Rightarrow> (os_error + unit) \<times> fs" where
  "store_save env path s fs = write_json_atomic env path (pool_payload s) fs"

text \<open>What a restart decodes from the loaded payload (the reading half of \<open>_materialise_pool\<close>).\<close>

definition saved_of :: "pyval \<Rightarrow> decode_error + saved_pool" where
  "saved_of v = (case v of
     PDict d \<Rightarrow>
       rbind (records_from pilot_from_dict (pget d ''pilots'')) (\<lambda>ps.
       rbind (records_from task_from_dict (pget d ''tasks'')) (\<lambda>ts.
       rbind (required dec_str ''owning_sid'' d) (\<lambda>sid.
       rbind (required dec_dict ''config'' d) (\<lambda>cfg.
       Inr \<lparr>sv_owning_sid = sid, sv_config = cfg, sv_pilots = ps, sv_tasks = ts\<rparr>))))
   | _ \<Rightarrow> Inl (IllTyped ''state''))"

definition records_clean :: "saved_pool \<Rightarrow> bool" where
  "records_clean s \<longleftrightarrow> json_clean (pool_payload s)"

lemma saved_of_payload: "saved_of (pool_payload s) = Inr s"
  by (simp add: saved_of_def pool_payload_def pget_def required_def
      records_roundtrip pilot_roundtrip task_roundtrip)

lemma pool_payload_truthy: "truthy (json_norm (pool_payload s))"
  by (simp add: pool_payload_def)

interpretation pool_store: durable_store "\<lambda>s. json_norm (pool_payload s)"
    "\<lambda>env s fs. store_save env path s fs"
    "\<lambda>n kept env s fs. crash_in_write n kept env path (pool_payload s) fs"
    "store_load path" "path_durable path" "\<lambda>env. path \<noteq> we_tmp env"
  for path
proof
  fix env s fs n kept e
  note laws = json_file.save_load json_file.save_fails json_file.crash_load
  show "path \<noteq> we_tmp env \<Longrightarrow> fst (store_save env path s fs) = Inr () \<Longrightarrow>
      store_load path (snd (store_save env path s fs)) = json_norm (pool_payload s) \<and>
      path_durable path (snd (store_save env path s fs))"
    using laws(1) [of path env "pool_payload s" fs "PDict []"] pool_payload_truthy
    by (simp add: store_load_def store_save_def)
  show "path \<noteq> we_tmp env \<Longrightarrow> path_durable path fs \<Longrightarrow> fst (store_save env path s fs) = Inl e \<Longrightarrow>
      store_load path (snd (store_save env path s fs)) = store_load path fs \<and>
      path_durable path (snd (store_save env path s fs))"
    using laws(2) [of path env fs "pool_payload s" e "PDict []"]
    by (simp add: store_load_def store_save_def)
  show "path \<noteq> we_tmp env \<Longrightarrow> path_durable path fs \<Longrightarrow>
      store_load path (crash_in_write n kept env path (pool_payload s) fs)
        \<in> {store_load path fs, json_norm (pool_payload s)}"
    using laws(3) [of path env fs "PDict []" n kept "pool_payload s"] pool_payload_truthy [of s]
    by (auto simp: store_load_def Let_def)
qed

section \<open>Properties\<close>

text \<open>C9. What a pool persists is what a restart decodes: after any history of saves whose last one did
  not raise, loading the file and rebuilding the records gives back the saved session, config,
  pilots and tasks, field by field.\<close>

theorem pool_store_roundtrip:
  assumes "path \<noteq> we_tmp env" and "records_clean s"
    and "fst (store_save env path s (pool_store.save_all path hist fs)) = Inr ()"
  shows "saved_of (store_load path (pool_store.save_all path (hist @ [(env, s)]) fs)) = Inr s"
  using pool_store.last_save_wins [OF assms(1,3)] assms(2) saved_of_payload
  by (simp add: records_clean_def json_norm_clean)

definition demo_saved :: saved_pool where
  "demo_saved = \<lparr>sv_owning_sid = ''s.1'', sv_config = [(''name'', PStr ''cpu'')],
     sv_pilots = [(''p.1'', (new_pilot ''p.1'' ''cpu'' ''small'' ''dask'')\<lparr>p_state := PILOT_ACTIVE,
       p_active_at := Some (3/2), p_walltime_deadline := PosInf\<rparr>)],
     sv_tasks = [(''t.1'', (new_task ''t.1'' ''cpu'' [''ls''] ''/tmp'')\<lparr>t_state := TASK_RUNNING,
       t_pilot_id := Some ''p.1''\<rparr>)]\<rparr>"

definition demo_env :: write_env where
  "demo_env = \<lparr>we_tmp = ''t'', we_fault = None, we_unlink_ok = True\<rparr>"

theorem pool_store_roundtrip_witness:
  "saved_of (store_load ''s'' (pool_store.save_all ''s'' ([] @ [(demo_env, demo_saved)]) [])) = Inr demo_saved"
proof (rule pool_store_roundtrip)
  show "''s'' \<noteq> we_tmp demo_env" by (simp add: demo_env_def)
  show "records_clean demo_saved"
    by (simp add: records_clean_def demo_saved_def pool_payload_def records_to_def pilot_asdict_def
        task_asdict_def new_pilot_def new_task_def enc_opt_def enc_rat_def enc_strs_def
        enc_pilot_state_def enc_task_state_def)
  show "fst (store_save demo_env ''s'' demo_saved (pool_store.save_all ''s'' [] [])) = Inr ()"
    by (simp add: store_save_def write_json_atomic_def demo_env_def)
qed

end
