(* ===== verification/Py_Numbers.thy ===== *)
theory Py_Numbers
  imports Orbit_Prelude
begin

text \<open>
  The conversions \<open>float(x)\<close> and \<open>int(x)\<close> of the language on decoded values, as the policy
  constructors and the validators apply them: numbers, numeric strings (surrounding white space,
  underscores between digits, \<open>inf\<close>, \<open>nan\<close>, exponents), and the exceptions for everything else.
  Rounding to the nearest double is not modelled; overflow is.
\<close>

section \<open>Digits\<close>

definition char_nat :: "char \<Rightarrow> nat" where
  "char_nat c = of_char c"

definition is_digit :: "char \<Rightarrow> bool" where
  "is_digit c \<longleftrightarrow> 48 \<le> char_nat c \<and> char_nat c \<le> 57"

definition is_space :: "char \<Rightarrow> bool" where
  "is_space c \<longleftrightarrow> char_nat c \<in> {9, 10, 11, 12, 13, 28, 29, 30, 31, 32, 133, 160}"

definition strip :: "string \<Rightarrow> string" where
  "strip s = rev (dropWhile is_space (rev (dropWhile is_space s)))"

definition lower_char :: "char \<Rightarrow> char" where
  "lower_char c = (if 65 \<le> char_nat c \<and> char_nat c \<le> 90 then char_of (char_nat c + 32) else c)"

text \<open>A run of digits with single underscores between them; the flag says whether the previous
  character was a digit.\<close>

fun take_digits :: "bool \<Rightarrow> string \<Rightarrow> string \<times> string" where
  "take_digits prev [] = ([], [])"
| "take_digits prev (c # cs) =
    (if is_digit c then (case take_digits True cs of (ds, r) \<Rightarrow> (c # ds, r))
     else if c = CHR ''_'' \<and> prev \<and> cs \<noteq> [] \<and> is_digit (hd cs) then take_digits False cs
     else ([], c # cs))"

definition digits_value :: "string \<Rightarrow> nat" where
  "digits_value ds = fold (\<lambda>c n. 10 * n + (char_nat c - 48)) ds 0"

fun split_sign :: "string \<Rightarrow> int \<times> string" where
  "split_sign [] = (1, [])"
| "split_sign (c # cs) = (if c = CHR ''-'' then (-1, cs) else if c = CHR ''+'' then (1, cs) else (1, c # cs))"

section \<open>Strings to numbers\<close>

definition float_limit :: rat where
  "float_limit = 2 ^ 1024 - 2 ^ 970"

definition round_float :: "rat \<Rightarrow> pyfloat" where
  "round_float r = (if float_limit \<le> r then PosInf else if r \<le> - float_limit then NegInf else Fin r)"

definition int_of_str :: "string \<Rightarrow> int option" where
  "int_of_str s = (case split_sign (strip s) of (sg, u) \<Rightarrow>
     (case take_digits False u of (ds, r) \<Rightarrow>
        if ds \<noteq> [] \<and> r = [] then Some (sg * int (digits_value ds)) else None))"

definition pow10 :: "int \<Rightarrow> rat" where
  "pow10 e = (if 0 \<le> e then 10 ^ nat e else 1 / 10 ^ nat (- e))"

definition exponent_of :: "string \<Rightarrow> int option" where
  "exponent_of r = (case r of
     [] \<Rightarrow> Some 0
   | c # cs \<Rightarrow> if c = CHR ''e'' \<or> c = CHR ''E'' then
        (case split_sign cs of (sg, u) \<Rightarrow> (case take_digits False u of (ds, r') \<Rightarrow>
           if ds \<noteq> [] \<and> r' = [] then Some (sg * int (digits_value ds)) else None))
      else None)"

definition float_of_str :: "string \<Rightarrow> pyfloat option" where
  "float_of_str s = (case split_sign (strip s) of (sg, u) \<Rightarrow>
     let low = map lower_char u in
     if low = ''inf'' \<or> low = ''infinity'' then Some (if sg < 0 then NegInf else PosInf)
     else if low = ''nan'' then Some NaN
     else (case take_digits False u of (ip, r1) \<Rightarrow>
       (case (if r1 \<noteq> [] \<and> hd r1 = CHR ''.'' then take_digits False (tl r1) else ([], r1)) of (fp, r2) \<Rightarrow>
          if ip = [] \<and> fp = [] then None
          else (case exponent_of r2 of
                  None \<Rightarrow> None
                | Some e \<Rightarrow> Some (round_float (of_int sg * of_nat (digits_value (ip @ fp)) *
                    pow10 (e - int (length fp))))))))"

section \<open>The conversions\<close>

fun py_float :: "pyval \<Rightarrow> py_error + pyfloat" where
  "py_float (PFloat f) = Inr f"
| "py_float (PInt i) = (if float_limit \<le> of_int \<bar>i\<bar> then Inl OverflowError else Inr (Fin (of_int i)))"
| "py_float (PBool b) = Inr (Fin (if b then 1 else 0))"
| "py_float (PStr s) = (case float_of_str s of None \<Rightarrow> Inl ValueError | Some f \<Rightarrow> Inr f)"
| "py_float (PBytes s) = (case float_of_str s of None \<Rightarrow> Inl ValueError | Some f \<Rightarrow> Inr f)"
| "py_float _ = Inl TypeError"

definition trunc_rat :: "rat \<Rightarrow> int" where
  "trunc_rat r = (if 0 \<le> r then \<lfloor>r\<rfloor> else \<lceil>r\<rceil>)"

fun int_of_float :: "pyfloat \<Rightarrow> py_error + int" where
  "int_of_float (Fin r) = Inr (trunc_rat r)"
| "int_of_float NaN = Inl ValueError"
| "int_of_float _ = Inl OverflowError"

fun py_int :: "pyval \<Rightarrow> py_error + int" where
  "py_int (PInt i) = Inr i"
| "py_int (PFloat f) = int_of_float f"
| "py_int (PBool b) = Inr (if b then 1 else 0)"
| "py_int (PStr s) = (case int_of_str s of None \<Rightarrow> Inl ValueError | Some i \<Rightarrow> Inr i)"
| "py_int (PBytes s) = (case int_of_str s of None \<Rightarrow> Inl ValueError | Some i \<Rightarrow> Inr i)"
| "py_int _ = Inl TypeError"

text \<open>\<open>math.isfinite\<close> of a number.\<close>

fun py_isfinite :: "pyval \<Rightarrow> py_error + bool" where
  "py_isfinite v = rbind (py_float v) (\<lambda>f. Inr (is_finite f))"

text \<open>For evaluation, the largest finite double plus half a unit as a numeral.\<close>

lemma float_limit_code [code]:
  "float_limit = 179769313486231580793728971405303415079934132710037826936173778980444968292764750946649017977587207096330286416692887910946555547851940402630657488671505820681908902000708383676273854845817711531764475730270069855571366959622842914819860834936475292719074168444365510704342711559699508093042880177904174497792"
  by (simp add: float_limit_def)

lemma float_limit_pos: "0 < float_limit"
  by (simp add: float_limit_def)

lemma py_float_small: "\<bar>i\<bar> < 2 ^ 900 \<Longrightarrow> py_float (PInt i) = Inr (Fin (of_int i))"
proof -
  assume "\<bar>i\<bar> < 2 ^ 900"
  then have "(of_int \<bar>i\<bar> :: rat) < of_int (2 ^ 900)" by linarith
  then have "(of_int \<bar>i\<bar> :: rat) < float_limit" by (simp add: float_limit_def)
  then show ?thesis by simp
qed

lemma trunc_rat_bounds: "0 \<le> r \<Longrightarrow> 0 \<le> trunc_rat r \<and> of_int (trunc_rat r) \<le> r"
  by (simp add: trunc_rat_def)

end
