(* ===== verification/Policy_Registry.thy ===== *)
theory Policy_Registry
  imports Py_Numbers
begin

text \<open>
  The manual policy registry (\<^verbatim>\<open>task_dispatcher_policy.py\<close>) and the constructor of the
  conservative policy (\<^verbatim>\<open>task_dispatcher_strategy_conservative.py\<close>), which the pool parser
  runs once to validate a \<open>strategy_config\<close>.  A policy class an embedder registers is code outside
  the repository: only its constructor's verdict matters here, and it is the parameter \<open>custom\<close>.
\<close>

section \<open>The conservative policy object\<close>

record conservative =
  c_min_dwell_sec :: pyfloat
  c_max_in_flight_subs :: int
  c_router_preference :: string
  c_max_consecutive_failures :: int
  c_failure_backoff_sec :: pyfloat
  c_member_preference :: string
  c_max_requeues :: int
  c_min_remaining_sec :: pyfloat
  c_last_submit_ts :: "(string \<times> rat) list"
  c_consecutive_failures :: "(string \<times> int) list"
  c_backoff_until :: "(string \<times> pyfloat) list"
  c_backoff_logged :: "(string \<times> bool) list"

text \<open>\<open>str(v)\<close> is one of the accepted names only when \<open>v\<close> is that string.\<close>

fun preference :: "string list \<Rightarrow> pyval \<Rightarrow> py_error + string" where
  "preference allowed (PStr s) = (if s \<in> set allowed then Inr s else Inl ValueError)"
| "preference allowed _ = Inl ValueError"

definition new_conservative :: "dict \<Rightarrow> py_error + conservative" where
  "new_conservative cfg =
    rbind (py_float (pget_or cfg ''min_dwell_sec'' (PFloat (Fin 30)))) (\<lambda>dwell.
    rbind (py_int (pget_or cfg ''max_in_flight_submissions'' (PInt 2))) (\<lambda>subs.
    rbind (py_int (pget_or cfg ''max_consecutive_failures'' (PInt 3))) (\<lambda>fails.
    rbind (py_float (pget_or cfg ''failure_backoff_sec'' (PFloat (Fin 60)))) (\<lambda>backoff.
    rbind (py_int (pget_or cfg ''max_requeues'' (PInt 1))) (\<lambda>requeues.
    rbind (py_float (pget_or cfg ''min_remaining_sec'' (PFloat (Fin 120)))) (\<lambda>remaining.
    rbind (preference [''least_loaded'', ''youngest'']
             (pget_or cfg ''router_preference'' (PStr ''least_loaded''))) (\<lambda>router.
    rbind (preference [''budget'', ''least_loaded'']
             (pget_or cfg ''member_preference'' (PStr ''budget''))) (\<lambda>member.
    Inr \<lparr>c_min_dwell_sec = dwell, c_max_in_flight_subs = subs, c_router_preference = router,
         c_max_consecutive_failures = fails, c_failure_backoff_sec = backoff,
         c_member_preference = member, c_max_requeues = requeues, c_min_remaining_sec = remaining,
         c_last_submit_ts = [], c_consecutive_failures = [], c_backoff_until = [],
         c_backoff_logged = []\<rparr>))))))))"

section \<open>The registry\<close>

datatype policy_class = ConservativeClass | BaseClass | CustomClass string

type_synonym registry = "(string \<times> policy_class) list"

definition BUILTINS :: registry where
  "BUILTINS = [(''conservative'', ConservativeClass)]"

datatype class_arg = NotAClass | ForeignClass | PolicyClass policy_class

definition register_policy :: "string \<Rightarrow> class_arg \<Rightarrow> registry \<Rightarrow> py_error + registry" where
  "register_policy name cls reg =
    (if name = '''' then Inl ValueError
     else case cls of
            NotAClass \<Rightarrow> Inl ValueError
          | ForeignClass \<Rightarrow> Inl ValueError
          | PolicyClass c \<Rightarrow> Inr (dset name c reg))"

definition known_policies :: "registry \<Rightarrow> string list" where
  "known_policies reg = sort (remdups (map fst BUILTINS @ map fst reg))"

definition resolve_policy :: "registry \<Rightarrow> string \<Rightarrow> policy_class option" where
  "resolve_policy reg name = (case dget reg name of
     Some cls \<Rightarrow> Some cls
   | None \<Rightarrow> dget BUILTINS name)"

text \<open>What calling the class on a \<open>strategy_config\<close> does: an exception, or an instance.\<close>

datatype policy = InertPolicy | ConservativePolicy conservative | CustomPolicy string

fun construct_policy :: "(string \<Rightarrow> dict \<Rightarrow> bool) \<Rightarrow> policy_class \<Rightarrow> dict \<Rightarrow> py_error + policy" where
  "construct_policy custom ConservativeClass cfg = rbind (new_conservative cfg) (\<lambda>c. Inr (ConservativePolicy c))"
| "construct_policy custom BaseClass cfg = Inr InertPolicy"
| "construct_policy custom (CustomClass n) cfg = (if custom n cfg then Inr (CustomPolicy n) else Inl ValueError)"

lemma known_policies_resolve: "name \<in> set (known_policies reg) \<longleftrightarrow> resolve_policy reg name \<noteq> None"
proof -
  have "name \<in> fst ` set d \<longleftrightarrow> dget d name \<noteq> None" for d :: registry
    by (metis map_of_eq_None_iff)
  then show ?thesis by (auto simp: known_policies_def resolve_policy_def split: option.splits)
qed

lemma register_policy_known:
  "register_policy name cls reg = Inr reg' \<Longrightarrow>
    name \<in> set (known_policies reg') \<and> set (known_policies reg) \<subseteq> set (known_policies reg')"
  by (auto simp: register_policy_def known_policies_resolve resolve_policy_def
      split: if_splits class_arg.splits option.splits)

lemma conservative_prefs:
  "new_conservative cfg = Inr c \<Longrightarrow> c_router_preference c \<in> {''least_loaded'', ''youngest''} \<and>
    c_member_preference c \<in> {''budget'', ''least_loaded''} \<and> c_last_submit_ts c = [] \<and>
    c_consecutive_failures c = [] \<and> c_backoff_until c = [] \<and> c_backoff_logged c = []"
  by (auto simp: new_conservative_def result_simps elim!: preference.elims split: if_splits)

end
