(* ===== verification/Dispatcher_Match.thy ===== *)
theory Dispatcher_Match
  imports Orbit_Prelude
begin

text \<open>
  Requirement matching (\<^verbatim>\<open>task_dispatcher_match.py\<close>): \<open>satisfies\<close>, the single test of
  "can this shape run this task" that the dispatcher uses for members and for pilots and the
  federation for its members.  The size argument is anything with node counts and a backend
  name; \<open>shape\<close> is that view.  A rejection string is represented by its structure (\<open>reason\<close>), an
  ill-typed document by the exception the comparison raises.
\<close>

section \<open>Shapes and reasons\<close>

record shape =
  sh_cpus :: int
  sh_gpus :: int
  sh_backend :: string

datatype reason =
    SoftwareMissing "string list"
  | CoresShort int pyval
  | GpusShort int pyval
  | MemShort pyval pyval
  | LabelUnmatched string pyval
  | BackendNoMpi string

definition NO_MPI_BACKENDS :: "string list" where
  "NO_MPI_BACKENDS = [''dragon_v1'']"

text \<open>\<open>d.get(k) or default\<close>.\<close>

definition get_or :: "dict \<Rightarrow> string \<Rightarrow> pyval \<Rightarrow> pyval" where
  "get_or d k v0 = (let v = pget d k in if truthy v then v else v0)"

section \<open>The rules, in order\<close>

text \<open>Each rule yields \<open>None\<close> when it passes.\<close>

definition check_software :: "dict \<Rightarrow> dict \<Rightarrow> py_error + reason option" where
  "check_software req attrs =
    (let want = get_or req ''software'' (PList []) in
     if \<not> truthy want then Inr None
     else rbind (py_iter want) (\<lambda>ws.
       let have0 = get_or attrs ''software'' (PList []);
           have1 = (if is_str have0 then PList [have0] else have0)
       in rbind (py_iter have1) (\<lambda>hs.
          if \<not> list_all (\<lambda>v. hash_key v \<noteq> None) (ws @ hs) then Inl TypeError
          else let missing = filter (\<lambda>w. hash_key w \<notin> hash_key ` set hs) ws
               in if missing = [] then Inr None
                  else if list_all is_str missing
                    then Inr (Some (SoftwareMissing (sort (map str_of missing))))
                    else Inl TypeError)))"

definition check_cores :: "dict \<Rightarrow> shape option \<Rightarrow> py_error + reason option" where
  "check_cores req size0 = (case size0 of None \<Rightarrow> Inr None | Some sz \<Rightarrow>
    (let cores = get_or req ''cores'' (PInt 0)
     in rbind (as_num cores) (\<lambda>c.
          if flt (Fin 0) c \<and> flt (Fin (of_int (sh_cpus sz))) c
          then Inr (Some (CoresShort (sh_cpus sz) cores)) else Inr None)))"

definition check_gpus :: "dict \<Rightarrow> shape option \<Rightarrow> py_error + reason option" where
  "check_gpus req size0 = (case size0 of None \<Rightarrow> Inr None | Some sz \<Rightarrow>
    (let gpus = get_or req ''gpus'' (PInt 0)
     in rbind (as_num gpus) (\<lambda>g.
          if flt (Fin 0) g \<and> flt (Fin (of_int (sh_gpus sz))) g
          then Inr (Some (GpusShort (sh_gpus sz) gpus)) else Inr None)))"

definition check_mem :: "dict \<Rightarrow> dict \<Rightarrow> py_error + reason option" where
  "check_mem req attrs =
    (let mem = get_or req ''mem_gb'' (PInt 0)
     in rbind (as_num mem) (\<lambda>m.
          if flt (Fin 0) m \<and> dhas attrs ''mem_gb_per_node'' then
            let have_mem = get_or attrs ''mem_gb_per_node'' (PInt 0)
            in rbind (as_num have_mem) (\<lambda>h.
                 if flt h m then Inr (Some (MemShort have_mem mem)) else Inr None)
          else Inr None))"

fun label_matches :: "pyval \<Rightarrow> pyval \<Rightarrow> bool" where
  "label_matches (PList vs) val = list_ex (\<lambda>v. py_eq v val) vs"
| "label_matches have_val val = py_eq have_val val"

fun check_label_items :: "dict \<Rightarrow> dict \<Rightarrow> reason option" where
  "check_label_items attrs [] = None"
| "check_label_items attrs ((key, val) # rest) =
    (case dget attrs key of
       None \<Rightarrow> Some (LabelUnmatched key val)
     | Some have_val \<Rightarrow>
         if label_matches have_val val then check_label_items attrs rest
         else Some (LabelUnmatched key val))"

definition check_labels :: "dict \<Rightarrow> dict \<Rightarrow> py_error + reason option" where
  "check_labels req attrs = (case get_or req ''labels'' (PDict []) of
     PDict items \<Rightarrow> Inr (check_label_items attrs items)
   | _ \<Rightarrow> Inl AttributeError)"

definition check_mpi :: "dict \<Rightarrow> shape option \<Rightarrow> py_error + reason option" where
  "check_mpi req size0 = (case size0 of None \<Rightarrow> Inr None | Some sz \<Rightarrow>
     if truthy (pget req ''mpi'') \<and> sh_backend sz \<in> set NO_MPI_BACKENDS
     then Inr (Some (BackendNoMpi (sh_backend sz))) else Inr None)"

text \<open>A rule that rejects ends the function.\<close>

definition andthen :: "py_error + reason option \<Rightarrow> py_error + reason option \<Rightarrow> py_error + reason option" where
  "andthen a b = rbind a (\<lambda>r. case r of None \<Rightarrow> b | Some x \<Rightarrow> Inr (Some x))"

definition satisfies :: "dict option \<Rightarrow> dict option \<Rightarrow> shape option \<Rightarrow> py_error + reason option" where
  "satisfies requirements attributes size0 =
    (case requirements of
       None \<Rightarrow> Inr None
     | Some req \<Rightarrow>
        if req = [] then Inr None
        else let attrs = (case attributes of None \<Rightarrow> [] | Some a \<Rightarrow> a)
             in andthen (check_software req attrs)
                (andthen (check_cores req size0)
                 (andthen (check_gpus req size0)
                  (andthen (check_mem req attrs)
                   (andthen (check_labels req attrs) (check_mpi req size0))))))"

section \<open>Well-typed documents\<close>

text \<open>The types the submit-time parser leaves in a requirements document, and the member parser in
  an attribute map.\<close>

definition req_typed :: "dict \<Rightarrow> bool" where
  "req_typed req \<longleftrightarrow>
     (\<forall>v. dget req ''software'' = Some v \<longrightarrow> is_str_list v) \<and>
     (\<forall>k \<in> {''cores'', ''gpus'', ''ranks''}. \<forall>v. dget req k = Some v \<longrightarrow> is_int v) \<and>
     (\<forall>v. dget req ''mem_gb'' = Some v \<longrightarrow> is_number v) \<and>
     (\<forall>v. dget req ''labels'' = Some v \<longrightarrow> (\<exists>d. v = PDict d)) \<and>
     (\<forall>v. dget req ''mpi'' = Some v \<longrightarrow> is_bool v)"

definition attr_value :: "pyval \<Rightarrow> bool" where
  "attr_value v \<longleftrightarrow> is_str v \<or> is_number v \<or> is_str_list v"

definition attrs_typed :: "dict \<Rightarrow> bool" where
  "attrs_typed attrs \<longleftrightarrow> (\<forall>k v. dget attrs k = Some v \<longrightarrow> attr_value v)"

text \<open>Two attributes the matcher reads with a fixed type: the software list and the memory size.\<close>

definition attrs_usable :: "dict \<Rightarrow> bool" where
  "attrs_usable attrs \<longleftrightarrow>
     (\<forall>v. dget attrs ''software'' = Some v \<longrightarrow> \<not> is_number v \<or> \<not> truthy v) \<and>
     (\<forall>v. dget attrs ''mem_gb_per_node'' = Some v \<longrightarrow> is_number v \<or> \<not> truthy v)"

section \<open>The declarative reading\<close>

definition software_of :: "dict \<Rightarrow> string set" where
  "software_of d = (case pget d ''software'' of
     PList vs \<Rightarrow> {s. PStr s \<in> set vs}
   | PStr s \<Rightarrow> (if s = [] then {} else {s})
   | _ \<Rightarrow> {})"

fun int_of :: "pyval \<Rightarrow> int" where
  "int_of (PInt i) = i" | "int_of _ = 0"

definition int_at :: "dict \<Rightarrow> string \<Rightarrow> int" where
  "int_at d k = int_of (pget d k)"

definition num_at :: "dict \<Rightarrow> string \<Rightarrow> pyfloat" where
  "num_at d k = (case num_of (pget d k) of None \<Rightarrow> Fin 0 | Some f \<Rightarrow> f)"

definition labels_of :: "dict \<Rightarrow> dict" where
  "labels_of d = (case pget d ''labels'' of PDict l \<Rightarrow> l | _ \<Rightarrow> [])"

definition fits_shape :: "dict \<Rightarrow> shape \<Rightarrow> bool" where
  "fits_shape req sz \<longleftrightarrow>
     (0 < int_at req ''cores'' \<longrightarrow> int_at req ''cores'' \<le> sh_cpus sz) \<and>
     (0 < int_at req ''gpus'' \<longrightarrow> int_at req ''gpus'' \<le> sh_gpus sz) \<and>
     \<not> (truthy (pget req ''mpi'') \<and> sh_backend sz \<in> set NO_MPI_BACKENDS)"

definition fits_attributes :: "dict \<Rightarrow> dict \<Rightarrow> bool" where
  "fits_attributes req attrs \<longleftrightarrow>
     software_of req \<subseteq> software_of attrs \<and>
     \<not> (flt (Fin 0) (num_at req ''mem_gb'') \<and> dhas attrs ''mem_gb_per_node'' \<and>
        flt (num_at attrs ''mem_gb_per_node'') (num_at req ''mem_gb'')) \<and>
     (\<forall>(k, v) \<in> set (labels_of req). \<exists>h. dget attrs k = Some h \<and> label_matches h v)"

section \<open>Rule lemmas\<close>

lemma andthen_pass: "andthen a b = Inr None \<longleftrightarrow> a = Inr None \<and> b = Inr None"
  by (auto simp: andthen_def result_simps split: option.splits)

lemma andthen_total: "(\<exists>x. a = Inr x) \<Longrightarrow> (\<exists>x. b = Inr x) \<Longrightarrow> \<exists>x. andthen a b = Inr x"
  by (auto simp: andthen_def split: option.splits)

lemma get_or_simps:
  "dget d k = None \<Longrightarrow> get_or d k v0 = v0"
  "dget d k = Some v \<Longrightarrow> get_or d k v0 = (if truthy v then v else v0)"
  by (simp_all add: get_or_def pget_def Let_def)

lemma int_field:
  assumes "\<And>v. dget req k = Some v \<Longrightarrow> is_int v"
  shows "get_or req k (PInt 0) = PInt (int_at req k)"
proof (cases "dget req k")
  case None
  then show ?thesis by (simp add: get_or_simps int_at_def pget_def)
next
  case (Some v)
  with assms [OF Some] show ?thesis
    by (cases v) (auto simp: get_or_simps int_at_def pget_def)
qed

lemma num_field:
  assumes "\<And>v. dget d k = Some v \<Longrightarrow> is_number v \<or> \<not> truthy v \<and> num_of v = None"
  shows "as_num (get_or d k (PInt 0)) = Inr (num_at d k)"
proof (cases "dget d k")
  case None
  then show ?thesis by (simp add: get_or_simps num_at_def pget_def)
next
  case (Some v)
  with assms [OF Some] show ?thesis
    by (cases v) (auto simp: get_or_simps num_at_def pget_def ftruthy_def)
qed

lemma check_cores_pass:
  assumes "\<And>v. dget req ''cores'' = Some v \<Longrightarrow> is_int v"
  shows "check_cores req (Some sz) = Inr None \<longleftrightarrow>
    (0 < int_at req ''cores'' \<longrightarrow> int_at req ''cores'' \<le> sh_cpus sz)"
  using int_field [OF assms] by (auto simp: check_cores_def)

lemma check_gpus_pass:
  assumes "\<And>v. dget req ''gpus'' = Some v \<Longrightarrow> is_int v"
  shows "check_gpus req (Some sz) = Inr None \<longleftrightarrow>
    (0 < int_at req ''gpus'' \<longrightarrow> int_at req ''gpus'' \<le> sh_gpus sz)"
  using int_field [OF assms] by (auto simp: check_gpus_def)

lemma check_label_items_None:
  "check_label_items attrs items = None \<longleftrightarrow>
    (\<forall>(k, v) \<in> set items. \<exists>h. dget attrs k = Some h \<and> label_matches h v)"
  by (induction attrs items rule: check_label_items.induct) (auto split: option.splits)

lemma str_list_hash: "list_all is_str vs \<Longrightarrow> list_all (\<lambda>v. hash_key v \<noteq> None) vs"
  by (auto simp: list_all_iff hash_key_str)

lemma software_iter:
  assumes "attr_value v" "\<not> is_number v" "truthy v"
  shows "\<exists>hs. py_iter (if is_str v then PList [v] else v) = Inr hs \<and> list_all is_str hs \<and>
    {s. PStr s \<in> set hs} = (case v of PList vs \<Rightarrow> {s. PStr s \<in> set vs} | PStr s \<Rightarrow> {s} | _ \<Rightarrow> {})"
  using assms by (cases v) (auto simp: attr_value_def)

lemma missing_strs:
  assumes "list_all is_str ws" "list_all is_str hs"
  shows "filter (\<lambda>w. hash_key w \<notin> hash_key ` set hs) ws = [] \<longleftrightarrow>
    {s. PStr s \<in> set ws} \<subseteq> {s. PStr s \<in> set hs}"
proof -
  have h: "w \<in> set ws \<union> set hs \<Longrightarrow> hash_key w = Some w \<and> (\<exists>s. w = PStr s)" for w
    using assms by (auto simp: list_all_iff hash_key_str is_str_iff)
  have "hash_key w \<in> hash_key ` set hs \<longleftrightarrow> w \<in> set hs" if "w \<in> set ws" for w
    using h [of w] h that by (auto simp: image_iff)
  then have eq: "filter (\<lambda>w. hash_key w \<notin> hash_key ` set hs) ws = [] \<longleftrightarrow> set ws \<subseteq> set hs"
    by (auto simp: filter_empty_conv)
  show ?thesis unfolding eq using h by blast
qed

lemma check_software_typed:
  assumes "\<And>v. dget req ''software'' = Some v \<Longrightarrow> is_str_list v"
    and "\<And>v. dget attrs ''software'' = Some v \<Longrightarrow> attr_value v \<and> (\<not> is_number v \<or> \<not> truthy v)"
  shows "\<exists>r. check_software req attrs = Inr r \<and> (r = None \<longleftrightarrow> software_of req \<subseteq> software_of attrs)"
proof (cases "truthy (pget req ''software'')")
  case False
  then have "software_of req = {}"
    using assms(1) by (auto simp: software_of_def pget_def split: option.splits pyval.splits)
  with False show ?thesis by (simp add: check_software_def get_or_def)
next
  case True
  then obtain v where v: "dget req ''software'' = Some v"
    by (auto simp: pget_def split: option.splits)
  then obtain ws where ws: "v = PList ws" "list_all is_str ws" using assms(1) by (cases v) auto
  have sw: "software_of req = {s. PStr s \<in> set ws}" using v ws by (simp add: software_of_def pget_def)
  let ?have = "get_or attrs ''software'' (PList [])"
  obtain hs where hs: "py_iter (if is_str ?have then PList [?have] else ?have) = Inr hs"
      "list_all is_str hs" "{s. PStr s \<in> set hs} = software_of attrs"
  proof (cases "truthy (pget attrs ''software'')")
    case True
    then obtain h where h: "dget attrs ''software'' = Some h" "truthy h"
      by (auto simp: pget_def split: option.splits)
    with assms(2) have "attr_value h" "\<not> is_number h" by auto
    from software_iter [OF this h(2)] show ?thesis
      using that h by (auto simp: get_or_simps software_of_def pget_def split: pyval.splits)
  next
    case False
    then have "software_of attrs = {}"
      using assms(2) by (auto simp: software_of_def pget_def split: option.splits pyval.splits)
    with False show ?thesis using that [of "[]"] by (simp add: get_or_def)
  qed
  let ?missing = "filter (\<lambda>w. hash_key w \<notin> hash_key ` set hs) ws"
  have all: "list_all (\<lambda>v. hash_key v \<noteq> None) (ws @ hs)" "list_all is_str ?missing"
    using str_list_hash ws hs by (auto simp: list_all_iff)
  have "check_software req attrs =
      Inr (if ?missing = [] then None else Some (SoftwareMissing (sort (map str_of ?missing))))"
  proof -
    have "get_or req ''software'' (PList []) = PList ws" "ws \<noteq> []"
      using True v ws(1) by (auto simp: get_or_simps pget_def)
    then show ?thesis
      using hs(1) all by (simp add: check_software_def Let_def del: list_all_append)
  qed
  then show ?thesis using missing_strs [OF ws(2) hs(2)] hs(3) sw by auto
qed

lemma check_mem_typed:
  assumes "\<And>v. dget req ''mem_gb'' = Some v \<Longrightarrow> is_number v"
    and "\<And>v. dget attrs ''mem_gb_per_node'' = Some v \<Longrightarrow> attr_value v \<and> (is_number v \<or> \<not> truthy v)"
  shows "\<exists>r. check_mem req attrs = Inr r \<and> (r = None \<longleftrightarrow>
    \<not> (flt (Fin 0) (num_at req ''mem_gb'') \<and> dhas attrs ''mem_gb_per_node'' \<and>
       flt (num_at attrs ''mem_gb_per_node'') (num_at req ''mem_gb'')))"
proof -
  have "as_num (get_or req ''mem_gb'' (PInt 0)) = Inr (num_at req ''mem_gb'')"
    by (rule num_field) (use assms(1) in auto)
  moreover have "as_num (get_or attrs ''mem_gb_per_node'' (PInt 0)) = Inr (num_at attrs ''mem_gb_per_node'')"
    by (rule num_field) (use assms(2) in \<open>auto simp: attr_value_def is_str_iff elim: is_str_list.elims\<close>)
  ultimately show ?thesis by (auto simp: check_mem_def Let_def)
qed

lemma check_labels_typed:
  assumes "\<And>v. dget req ''labels'' = Some v \<Longrightarrow> \<exists>d. v = PDict d"
  shows "check_labels req attrs = Inr (check_label_items attrs (labels_of req))"
proof (cases "dget req ''labels''")
  case None
  then show ?thesis by (simp add: check_labels_def get_or_simps labels_of_def pget_def)
next
  case (Some v)
  with assms obtain d where "v = PDict d" by blast
  with Some show ?thesis by (simp add: check_labels_def get_or_simps labels_of_def pget_def)
qed

lemma req_typedD:
  assumes "req_typed req"
  shows "dget req ''software'' = Some v \<Longrightarrow> is_str_list v"
    and "dget req ''cores'' = Some v \<Longrightarrow> is_int v" and "dget req ''gpus'' = Some v \<Longrightarrow> is_int v"
    and "dget req ''ranks'' = Some v \<Longrightarrow> is_int v"
    and "dget req ''mem_gb'' = Some v \<Longrightarrow> is_number v"
    and "dget req ''labels'' = Some v \<Longrightarrow> \<exists>d. v = PDict d"
    and "dget req ''mpi'' = Some v \<Longrightarrow> is_bool v"
  using assms by (auto simp: req_typed_def)

lemma satisfies_typed:
  assumes req: "req_typed req" and attrs: "attrs_typed attrs" "attrs_usable attrs"
  shows "\<exists>r. satisfies (Some req) (Some attrs) (Some sz) = Inr r \<and>
    (r = None \<longleftrightarrow> req = [] \<or> fits_shape req sz \<and> fits_attributes req attrs)"
proof (cases "req = []")
  case True
  then show ?thesis by (simp add: satisfies_def)
next
  case False
  have at: "dget attrs ''software'' = Some v \<Longrightarrow> attr_value v \<and> (\<not> is_number v \<or> \<not> truthy v)"
      "dget attrs ''mem_gb_per_node'' = Some v \<Longrightarrow> attr_value v \<and> (is_number v \<or> \<not> truthy v)" for v
    using attrs by (simp_all add: attrs_typed_def attrs_usable_def)
  obtain r1 where r1: "check_software req attrs = Inr r1"
      "r1 = None \<longleftrightarrow> software_of req \<subseteq> software_of attrs"
    using check_software_typed [OF req_typedD(1) [OF req] at(1)] by blast
  obtain r4 where r4: "check_mem req attrs = Inr r4" "r4 = None \<longleftrightarrow>
      \<not> (flt (Fin 0) (num_at req ''mem_gb'') \<and> dhas attrs ''mem_gb_per_node'' \<and>
       flt (num_at attrs ''mem_gb_per_node'') (num_at req ''mem_gb''))"
    using check_mem_typed [OF req_typedD(5) [OF req] at(2)] by blast
  have r5: "check_labels req attrs = Inr (check_label_items attrs (labels_of req))"
    by (rule check_labels_typed [OF req_typedD(6) [OF req]])
  have c: "\<exists>x. check_cores req (Some sz) = Inr x" "\<exists>x. check_gpus req (Some sz) = Inr x"
      "\<exists>x. check_mpi req (Some sz) = Inr x"
    using int_field [OF req_typedD(2) [OF req]] int_field [OF req_typedD(3) [OF req]]
    by (auto simp: check_cores_def check_gpus_def check_mpi_def)
  let ?a = "satisfies (Some req) (Some attrs) (Some sz)"
  have tot: "\<exists>x. ?a = Inr x"
    using False c r1 r4 r5 by (simp add: satisfies_def Let_def andthen_total)
  have r23: "check_cores req (Some sz) = Inr None \<longleftrightarrow>
      (0 < int_at req ''cores'' \<longrightarrow> int_at req ''cores'' \<le> sh_cpus sz)"
      "check_gpus req (Some sz) = Inr None \<longleftrightarrow>
      (0 < int_at req ''gpus'' \<longrightarrow> int_at req ''gpus'' \<le> sh_gpus sz)"
    using check_cores_pass [OF req_typedD(2) [OF req]] check_gpus_pass [OF req_typedD(3) [OF req]]
    by blast+
  have r6: "check_mpi req (Some sz) = Inr None \<longleftrightarrow>
      \<not> (truthy (pget req ''mpi'') \<and> sh_backend sz \<in> set NO_MPI_BACKENDS)"
    by (simp add: check_mpi_def)
  have "?a = Inr None \<longleftrightarrow> r1 = None \<and> check_cores req (Some sz) = Inr None \<and>
      check_gpus req (Some sz) = Inr None \<and> r4 = None \<and>
      check_label_items attrs (labels_of req) = None \<and> check_mpi req (Some sz) = Inr None"
    using False r1(1) r4(1) r5 by (simp add: satisfies_def Let_def andthen_pass)
  also have "\<dots> \<longleftrightarrow> fits_shape req sz \<and> fits_attributes req attrs"
    unfolding r1(2) r23 r4(2) check_label_items_None r6 fits_shape_def fits_attributes_def by argo
  finally have "?a = Inr None \<longleftrightarrow> fits_shape req sz \<and> fits_attributes req attrs" .
  with tot False show ?thesis by auto
qed

section \<open>Properties\<close>

text \<open>C7. On well-typed documents the ordered rules decide exactly the declarative fit: every
  requested software tag is offered, the cores and GPUs fit one node, a declared memory size is
  large enough, every label is matched, and an MPI task does not land on a backend that cannot
  place ranks.  In particular the matcher returns; it does not raise.\<close>

theorem satisfies_iff_fits:
  assumes "req_typed req" and "attrs_typed attrs" and "attrs_usable attrs"
  shows "(\<exists>r. satisfies (Some req) (Some attrs) (Some sz) = Inr r) \<and>
    (satisfies (Some req) (Some attrs) (Some sz) = Inr None \<longleftrightarrow>
     req = [] \<or> fits_shape req sz \<and> fits_attributes req attrs)"
  using satisfies_typed [OF assms, of sz] by auto

theorem satisfies_iff_fits_witness:
  "(\<exists>r. satisfies (Some [(''cores'', PInt 4), (''software'', PList [PStr ''gromacs''])])
        (Some [(''software'', PList [PStr ''gromacs'', PStr ''python''])])
        (Some \<lparr>sh_cpus = 8, sh_gpus = 0, sh_backend = ''concurrent''\<rparr>) = Inr r) \<and>
   satisfies (Some [(''cores'', PInt 4), (''software'', PList [PStr ''gromacs''])])
        (Some [(''software'', PList [PStr ''gromacs'', PStr ''python''])])
        (Some \<lparr>sh_cpus = 8, sh_gpus = 0, sh_backend = ''concurrent''\<rparr>) = Inr None"
  using satisfies_iff_fits [of "[(''cores'', PInt 4), (''software'', PList [PStr ''gromacs''])]"
      "[(''software'', PList [PStr ''gromacs'', PStr ''python''])]"
      "\<lparr>sh_cpus = 8, sh_gpus = 0, sh_backend = ''concurrent''\<rparr>"]
  by (auto simp: req_typed_def attrs_typed_def attrs_usable_def attr_value_def fits_shape_def
      fits_attributes_def int_at_def num_at_def pget_def software_of_def labels_of_def
      NO_MPI_BACKENDS_def split: if_splits)

text \<open>Growing a shape never loses a task: when a requirement document fits a shape, it fits every
  shape with at least as many cores and GPUs per node and the same backend, under any attribute
  map.\<close>

theorem satisfies_mono_shape:
  assumes "req_typed req" and "satisfies (Some req) attributes (Some sz) = Inr None"
    and "sh_cpus sz \<le> sh_cpus sz'" and "sh_gpus sz \<le> sh_gpus sz'" and "sh_backend sz' = sh_backend sz"
  shows "satisfies (Some req) attributes (Some sz') = Inr None"
  using assms check_cores_pass [OF req_typedD(2) [OF assms(1)]]
    check_gpus_pass [OF req_typedD(3) [OF assms(1)]]
  by (auto simp: satisfies_def Let_def andthen_pass check_mpi_def split: if_splits)

theorem satisfies_mono_shape_witness:
  "satisfies (Some [(''cores'', PInt 4)]) None
     (Some \<lparr>sh_cpus = 8, sh_gpus = 1, sh_backend = ''dask''\<rparr>) = Inr None"
  by (rule satisfies_mono_shape [where sz = "\<lparr>sh_cpus = 4, sh_gpus = 0, sh_backend = ''dask''\<rparr>"])
    (simp_all add: req_typed_def satisfies_def andthen_def check_software_def check_cores_def
      check_gpus_def check_mem_def check_labels_def check_mpi_def get_or_def pget_def)

end
