(* ===== verification/Dispatcher_Config.thy ===== *)
theory Dispatcher_Config
  imports Policy_Registry Dispatcher_Match
begin

text \<open>
  Pool declarations (\<^verbatim>\<open>task_dispatcher_config.py\<close>): the dataclasses with their post-init
  rules, the projection of the primary member, the parser with every check in the order the code
  makes it, the persisted form and its replay.  A \<open>PoolConfigError\<close> is represented by which check
  failed (\<open>config_error\<close>); the location prefix of the message is not kept.  An exception that the
  parser lets through (an unhashable \<open>default_size\<close>, an integer too large for a float) is \<open>Raised\<close>.
\<close>

section \<open>Dataclasses\<close>

definition DEFAULT_POOL_NAME :: string where
  "DEFAULT_POOL_NAME = ''default''"

definition IMPLICIT_MEMBER :: string where
  "IMPLICIT_MEMBER = ''''"

definition MAX_POOL_MEMBER_NAME_LEN :: nat where
  "MAX_POOL_MEMBER_NAME_LEN = 64"

datatype pilot_mode = PILOT_SUBMIT | PILOT_ENDPOINT

record pilot_size =
  ps_nodes :: int
  ps_cpus_per_node :: int
  ps_rhapsody_backend :: string
  ps_gpus_per_node :: int
  ps_walltime_sec :: int

record pool_member =
  pm_member_id :: string
  pm_endpoint_name :: string
  pm_queue :: string
  pm_account :: "string option"
  pm_pilot_sizes :: "(string \<times> pilot_size) list"
  pm_default_size :: string
  pm_min_pilots :: int
  pm_max_pilots :: int
  pm_scratch_base :: "string option"
  pm_shared_fs :: bool
  pm_attributes :: dict
  pm_budget :: "(string \<times> pyfloat) list"
  pm_pilot :: pilot_mode
  pm_end_time :: "pyfloat option"

record pool_config =
  pc_name :: string
  pc_queue :: string
  pc_account :: "string option"
  pc_pilot_sizes :: "(string \<times> pilot_size) list"
  pc_default_size :: string
  pc_endpoint_name :: "string option"
  pc_min_pilots :: int
  pc_max_pilots :: int
  pc_scratch_base :: "string option"
  pc_strategy :: string
  pc_strategy_config :: dict
  pc_pool_class :: string
  pc_members :: "(string \<times> pool_member) list"
  pc_multi_member :: bool

definition member_post_init :: "pool_member \<Rightarrow> pool_member" where
  "member_post_init m = (if pm_pilot m = PILOT_ENDPOINT
     then m\<lparr>pm_min_pilots := 1, pm_max_pilots := 1\<rparr> else m)"

definition size_shape :: "pilot_size \<Rightarrow> shape" where
  "size_shape s = \<lparr>sh_cpus = ps_cpus_per_node s, sh_gpus = ps_gpus_per_node s,
     sh_backend = ps_rhapsody_backend s\<rparr>"

definition reject_reason :: "pool_member \<Rightarrow> dict option \<Rightarrow> py_error + reason option" where
  "reject_reason m req = satisfies req (Some (pm_attributes m))
     (map_option size_shape (dget (pm_pilot_sizes m) (pm_default_size m)))"

definition reproject :: "pool_config \<Rightarrow> pool_config" where
  "reproject c =
    (if \<not> pc_multi_member c then c
     else case pc_members c of
       [] \<Rightarrow> c\<lparr>pc_queue := DEFAULT_POOL_NAME, pc_account := None, pc_endpoint_name := None,
              pc_pilot_sizes := [], pc_default_size := '''', pc_min_pilots := 0,
              pc_max_pilots := 4, pc_scratch_base := None\<rparr>
     | (k, primary) # _ \<Rightarrow>
         c\<lparr>pc_queue := pm_queue primary, pc_account := pm_account primary,
           pc_endpoint_name := Some (pm_endpoint_name primary),
           pc_pilot_sizes := pm_pilot_sizes primary, pc_default_size := pm_default_size primary,
           pc_min_pilots := pm_min_pilots primary, pc_max_pilots := pm_max_pilots primary,
           pc_scratch_base := pm_scratch_base primary\<rparr>)"

definition implicit_member :: "pool_config \<Rightarrow> pool_member" where
  "implicit_member c = member_post_init
    \<lparr>pm_member_id = IMPLICIT_MEMBER,
     pm_endpoint_name = (case pc_endpoint_name c of None \<Rightarrow> '''' | Some e \<Rightarrow> e),
     pm_queue = pc_queue c, pm_account = pc_account c, pm_pilot_sizes = pc_pilot_sizes c,
     pm_default_size = pc_default_size c, pm_min_pilots = pc_min_pilots c,
     pm_max_pilots = pc_max_pilots c, pm_scratch_base = pc_scratch_base c, pm_shared_fs = True,
     pm_attributes = [], pm_budget = [], pm_pilot = PILOT_SUBMIT, pm_end_time = None\<rparr>"

definition config_post_init :: "pool_config \<Rightarrow> pool_config" where
  "config_post_init c =
    (if pc_multi_member c then reproject c
     else if pc_members c = [] then c\<lparr>pc_members := [(IMPLICIT_MEMBER, implicit_member c)]\<rparr>
     else c)"

definition bind_endpoint :: "string \<Rightarrow> pool_config \<Rightarrow> pool_config" where
  "bind_endpoint name c =
    (let c1 = c\<lparr>pc_endpoint_name := Some name\<rparr>
     in case dget (pc_members c) IMPLICIT_MEMBER of
          None \<Rightarrow> c1
        | Some m \<Rightarrow> c1\<lparr>pc_members :=
            dset IMPLICIT_MEMBER (m\<lparr>pm_endpoint_name := name\<rparr>) (pc_members c)\<rparr>)"

definition primary_member :: "pool_config \<Rightarrow> py_error + pool_member" where
  "primary_member c = (case pc_members c of [] \<Rightarrow> Inl KeyError | (k, m) # _ \<Rightarrow> Inr m)"

definition config_member :: "pool_config \<Rightarrow> string \<Rightarrow> pool_member option" where
  "config_member c mid = dget (pc_members c) mid"

section \<open>The parser\<close>

datatype config_error =
    NotObject
  | NoPoolsList
  | NoPools
  | DuplicatePool string
  | MissingField string
  | BadField string
  | DuplicateMember string
  | EmptyMembers
  | UnknownDefaultSize
  | NotInteger string
  | BelowMinimum string
  | MinAboveMax
  | NameTooLong
  | DefaultQueue
  | BadAttribute string
  | UnknownBudgetKey string
  | UnknownStrategy string
  | StrategyRejected
  | Raised py_error

text \<open>The charsets; \<open>$\<close> also matches before one trailing newline.\<close>

definition lower_alnum :: "char \<Rightarrow> bool" where
  "lower_alnum c \<longleftrightarrow> is_digit c \<or> 97 \<le> char_nat c \<and> char_nat c \<le> 122"

definition name_char :: "char \<Rightarrow> bool" where
  "name_char c \<longleftrightarrow> lower_alnum c \<or> c \<in> {CHR ''_'', CHR ''.'', CHR ''-''}"

definition drop_newline :: "string \<Rightarrow> string" where
  "drop_newline s = (if s \<noteq> [] \<and> char_nat (last s) = 10 then butlast s else s)"

definition member_re :: "string \<Rightarrow> bool" where
  "member_re s = (case drop_newline s of [] \<Rightarrow> False | c # cs \<Rightarrow> lower_alnum c \<and> list_all name_char cs)"

definition pool_class_re :: "string \<Rightarrow> bool" where
  "pool_class_re s = list_all name_char (drop_newline s)"

definition parse_int :: "string \<Rightarrow> int \<Rightarrow> pyval \<Rightarrow> config_error + int" where
  "parse_int name min_value val = (case val of
     PInt i \<Rightarrow> if i < min_value then Inl (BelowMinimum name) else Inr i
   | _ \<Rightarrow> Inl (NotInteger name))"

fun require_keys :: "string list \<Rightarrow> dict \<Rightarrow> config_error + unit" where
  "require_keys [] d = Inr ()"
| "require_keys (k # ks) d = (if dhas d k then require_keys ks d else Inl (MissingField k))"

definition nonempty_str :: "string \<Rightarrow> pyval \<Rightarrow> config_error + string" where
  "nonempty_str name v = (case v of
     PStr s \<Rightarrow> if s = [] then Inl (BadField name) else Inr s
   | _ \<Rightarrow> Inl (BadField name))"

definition str_or_null :: "string \<Rightarrow> pyval \<Rightarrow> config_error + string option" where
  "str_or_null name v = (case v of
     PNone \<Rightarrow> Inr None
   | PStr s \<Rightarrow> Inr (Some s)
   | _ \<Rightarrow> Inl (BadField name))"

definition parse_pilot_size :: "pyval \<Rightarrow> config_error + pilot_size" where
  "parse_pilot_size v = (case v of
     PDict d \<Rightarrow>
       rbind (require_keys [''nodes'', ''cpus_per_node'', ''rhapsody_backend''] d) (\<lambda>_.
       rbind (nonempty_str ''rhapsody_backend'' (pget d ''rhapsody_backend'')) (\<lambda>backend.
       rbind (parse_int ''nodes'' 1 (pget d ''nodes'')) (\<lambda>nodes.
       rbind (parse_int ''cpus_per_node'' 1 (pget d ''cpus_per_node'')) (\<lambda>cpus.
       rbind (parse_int ''gpus_per_node'' 0 (pget_or d ''gpus_per_node'' (PInt 0))) (\<lambda>gpus.
       rbind (parse_int ''walltime_sec'' 1 (pget_or d ''walltime_sec'' (PInt 3600))) (\<lambda>wall.
       Inr \<lparr>ps_nodes = nodes, ps_cpus_per_node = cpus, ps_rhapsody_backend = backend,
            ps_gpus_per_node = gpus, ps_walltime_sec = wall\<rparr>))))))
   | _ \<Rightarrow> Inl NotObject)"

definition parse_size_item :: "string \<times> pyval \<Rightarrow> config_error + string \<times> pilot_size" where
  "parse_size_item kv = rbind (parse_pilot_size (snd kv)) (\<lambda>s. Inr (fst kv, s))"

text \<open>The eight fields a legacy pool and a member share; the endpoint name is \<open>None\<close> only where the
  caller allows it.\<close>

record resource_fields =
  rf_endpoint_name :: "string option"
  rf_queue :: string
  rf_account :: "string option"
  rf_pilot_sizes :: "(string \<times> pilot_size) list"
  rf_default_size :: string
  rf_min_pilots :: int
  rf_max_pilots :: int
  rf_scratch_base :: "string option"

definition parse_endpoint :: "bool \<Rightarrow> pyval \<Rightarrow> config_error + string option" where
  "parse_endpoint endpoint_required v =
    (if \<not> endpoint_required \<and> v = PNone then Inr None
     else rbind (nonempty_str ''endpoint_name'' v) (\<lambda>e. Inr (Some e)))"

definition parse_sizes :: "pyval \<Rightarrow> config_error + (string \<times> pilot_size) list" where
  "parse_sizes v = (case v of
     PDict items \<Rightarrow> if items = [] then Inl (BadField ''pilot_sizes'') else rmap_list parse_size_item items
   | _ \<Rightarrow> Inl (BadField ''pilot_sizes''))"

definition parse_default_size :: "(string \<times> pilot_size) list \<Rightarrow> pyval \<Rightarrow> config_error + string" where
  "parse_default_size sizes v = (case hash_key v of
     None \<Rightarrow> Inl (Raised TypeError)
   | Some _ \<Rightarrow> (case v of
        PStr s \<Rightarrow> if dhas sizes s then Inr s else Inl UnknownDefaultSize
      | _ \<Rightarrow> Inl UnknownDefaultSize))"

definition parse_resource :: "dict \<Rightarrow> bool \<Rightarrow> config_error + resource_fields" where
  "parse_resource d endpoint_required =
    rbind (parse_endpoint endpoint_required (pget d ''endpoint_name'')) (\<lambda>endpoint.
    rbind (nonempty_str ''queue'' (pget d ''queue'')) (\<lambda>queue.
    rbind (str_or_null ''account'' (pget d ''account'')) (\<lambda>account.
    rbind (parse_sizes (pget d ''pilot_sizes'')) (\<lambda>sizes.
    rbind (parse_default_size sizes (pget d ''default_size'')) (\<lambda>default_size.
    rbind (parse_int ''min_pilots'' 0 (pget_or d ''min_pilots'' (PInt 0))) (\<lambda>min_pilots.
    rbind (parse_int ''max_pilots'' 1 (pget_or d ''max_pilots'' (PInt 4))) (\<lambda>max_pilots.
    rbind (guard_or (min_pilots \<le> max_pilots) MinAboveMax) (\<lambda>_.
    rbind (str_or_null ''scratch_base'' (pget d ''scratch_base'')) (\<lambda>scratch.
    Inr \<lparr>rf_endpoint_name = endpoint, rf_queue = queue, rf_account = account,
         rf_pilot_sizes = sizes, rf_default_size = default_size, rf_min_pilots = min_pilots,
         rf_max_pilots = max_pilots, rf_scratch_base = scratch\<rparr>)))))))))"

fun parse_attributes :: "dict \<Rightarrow> config_error + unit" where
  "parse_attributes [] = Inr ()"
| "parse_attributes ((k, v) # rest) =
    (if attr_value v then parse_attributes rest else Inl (BadAttribute k))"

definition parse_pilot_mode :: "pyval \<Rightarrow> config_error + pilot_mode" where
  "parse_pilot_mode v =
    (if v = PStr ''submit'' then Inr PILOT_SUBMIT
     else if v = PStr ''endpoint'' then Inr PILOT_ENDPOINT
     else Inl (BadField ''pilot''))"

text \<open>A positive number: not a boolean, and not \<open>val <= 0\<close> (which is false of a NaN).\<close>

definition positive_number :: "string \<Rightarrow> pyval \<Rightarrow> config_error + pyfloat" where
  "positive_number name v =
    (if \<not> is_number v then Inl (BadField name)
     else case num_of v of
            None \<Rightarrow> Inl (BadField name)
          | Some f \<Rightarrow> if fle f (Fin 0) then Inl (BadField name)
                      else (case py_float v of Inl e \<Rightarrow> Inl (Raised e) | Inr g \<Rightarrow> Inr g))"

definition parse_end_time :: "pyval \<Rightarrow> config_error + pyfloat option" where
  "parse_end_time v = (if v = PNone then Inr None
     else rbind (positive_number ''end_time'' v) (\<lambda>f. Inr (Some f)))"

definition parse_budget :: "dict \<Rightarrow> config_error + (string \<times> pyfloat) list" where
  "parse_budget b =
    (case sort (filter (\<lambda>k. k \<noteq> ''node_hours'') (map fst b)) of
       k # _ \<Rightarrow> Inl (UnknownBudgetKey k)
     | [] \<Rightarrow> (case dget b ''node_hours'' of
          None \<Rightarrow> Inr []
        | Some v \<Rightarrow> rbind (positive_number ''node_hours'' v) (\<lambda>f. Inr [(''node_hours'', f)])))"

definition as_dict :: "string \<Rightarrow> pyval \<Rightarrow> config_error + dict" where
  "as_dict name v = (case v of PDict d \<Rightarrow> Inr d | _ \<Rightarrow> Inl (BadField name))"

definition as_bool :: "string \<Rightarrow> pyval \<Rightarrow> config_error + bool" where
  "as_bool name v = (case v of PBool b \<Rightarrow> Inr b | _ \<Rightarrow> Inl (BadField name))"

definition parse_member_id :: "string \<Rightarrow> pyval \<Rightarrow> config_error + string" where
  "parse_member_id pool_name v = (case v of
     PStr s \<Rightarrow> if \<not> member_re s then Inl (BadField ''member_id'')
               else if MAX_POOL_MEMBER_NAME_LEN < length pool_name + length s then Inl NameTooLong
               else Inr s
   | _ \<Rightarrow> Inl (BadField ''member_id''))"

definition parse_member :: "string \<Rightarrow> pyval \<Rightarrow> config_error + pool_member" where
  "parse_member pool_name v = (case v of
     PDict d \<Rightarrow>
       rbind (require_keys [''member_id'', ''endpoint_name'', ''queue'', ''default_size'', ''pilot_sizes''] d) (\<lambda>_.
       rbind (parse_member_id pool_name (pget d ''member_id'')) (\<lambda>mid.
       rbind (parse_resource d True) (\<lambda>r.
       rbind (guard_or (rf_queue r \<noteq> DEFAULT_POOL_NAME) DefaultQueue) (\<lambda>_.
       rbind (as_bool ''shared_fs'' (pget_or d ''shared_fs'' (PBool True))) (\<lambda>shared_fs.
       rbind (as_dict ''attributes'' (pget_or d ''attributes'' (PDict []))) (\<lambda>attributes.
       rbind (parse_attributes attributes) (\<lambda>_.
       rbind (parse_pilot_mode (pget_or d ''pilot'' (PStr ''submit''))) (\<lambda>pilot.
       rbind (parse_end_time (pget d ''end_time'')) (\<lambda>end_time.
       rbind (as_dict ''budget'' (pget_or d ''budget'' (PDict []))) (\<lambda>b.
       rbind (parse_budget b) (\<lambda>budget.
       Inr (member_post_init
         \<lparr>pm_member_id = mid,
          pm_endpoint_name = (case rf_endpoint_name r of None \<Rightarrow> '''' | Some e \<Rightarrow> e),
          pm_queue = rf_queue r, pm_account = rf_account r, pm_pilot_sizes = rf_pilot_sizes r,
          pm_default_size = rf_default_size r, pm_min_pilots = rf_min_pilots r,
          pm_max_pilots = rf_max_pilots r, pm_scratch_base = rf_scratch_base r,
          pm_shared_fs = shared_fs, pm_attributes = attributes, pm_budget = budget,
          pm_pilot = pilot, pm_end_time = end_time\<rparr>))))))))))))
   | _ \<Rightarrow> Inl NotObject)"

text \<open>A map of members is turned into a list by giving an entry its key as \<open>member_id\<close>.\<close>

fun member_entry :: "string \<times> pyval \<Rightarrow> pyval" where
  "member_entry (mid, PDict d) = (if dhas d ''member_id'' then PDict d else PDict (dset ''member_id'' (PStr mid) d))"
| "member_entry (mid, v) = v"

fun collect_members ::
  "string \<Rightarrow> pyval list \<Rightarrow> (string \<times> pool_member) list \<Rightarrow> config_error + (string \<times> pool_member) list" where
  "collect_members pool_name [] acc = Inr acc"
| "collect_members pool_name (e # es) acc =
    rbind (parse_member pool_name e) (\<lambda>m.
      if dhas acc (pm_member_id m) then Inl (DuplicateMember (pm_member_id m))
      else collect_members pool_name es (dset (pm_member_id m) m acc))"

definition parse_members :: "pyval \<Rightarrow> string \<Rightarrow> bool \<Rightarrow> config_error + (string \<times> pool_member) list" where
  "parse_members raw pool_name allow_empty =
    rbind (case raw of PDict d \<Rightarrow> Inr (map member_entry d) | PList vs \<Rightarrow> Inr vs | _ \<Rightarrow> Inl (BadField ''members''))
      (\<lambda>entries. if entries = [] \<and> \<not> allow_empty then Inl EmptyMembers
                 else collect_members pool_name entries [])"

text \<open>\<open>_EMPTY_PROJECTION\<close>.\<close>

definition empty_projection :: resource_fields where
  "empty_projection = \<lparr>rf_endpoint_name = None, rf_queue = DEFAULT_POOL_NAME, rf_account = None,
     rf_pilot_sizes = [], rf_default_size = '''', rf_min_pilots = 0, rf_max_pilots = 4,
     rf_scratch_base = None\<rparr>"

definition parse_pool_class :: "pyval \<Rightarrow> config_error + string" where
  "parse_pool_class v = (case v of
     PStr s \<Rightarrow> if pool_class_re s then Inr s else Inl (BadField ''pool_class'')
   | _ \<Rightarrow> Inl (BadField ''pool_class''))"

definition make_policy :: "(string \<Rightarrow> dict \<Rightarrow> bool) \<Rightarrow> registry \<Rightarrow> pool_config \<Rightarrow> config_error + policy" where
  "make_policy custom reg c = (case resolve_policy reg (pc_strategy c) of
     None \<Rightarrow> Inl (UnknownStrategy (pc_strategy c))
   | Some cls \<Rightarrow> (case construct_policy custom cls (pc_strategy_config c) of
        Inl e \<Rightarrow> Inl StrategyRejected
      | Inr p \<Rightarrow> Inr p))"

definition parse_pool ::
  "(string \<Rightarrow> dict \<Rightarrow> bool) \<Rightarrow> registry \<Rightarrow> bool \<Rightarrow> dict \<Rightarrow> config_error + pool_config" where
  "parse_pool custom reg allow_empty d =
    (let multi = (case dget d ''multi_member'' of None \<Rightarrow> dhas d ''members'' | Some v \<Rightarrow> truthy v) in
     rbind (require_keys (if multi then [''name'', ''members'']
                          else [''name'', ''queue'', ''default_size'', ''pilot_sizes'']) d) (\<lambda>_.
     rbind (nonempty_str ''name'' (pget d ''name'')) (\<lambda>name.
     rbind (if multi then parse_members (pget d ''members'') name allow_empty else Inr []) (\<lambda>members.
     rbind (if multi then Inr empty_projection else parse_resource d False) (\<lambda>r.
     rbind (parse_pool_class (pget_or d ''pool_class'' (PStr ''''))) (\<lambda>pool_class.
     rbind (nonempty_str ''strategy'' (pget_or d ''strategy'' (PStr ''conservative''))) (\<lambda>strategy.
     rbind (guard_or (strategy \<in> set (known_policies reg)) (UnknownStrategy strategy)) (\<lambda>_.
     rbind (as_dict ''strategy_config'' (pget_or d ''strategy_config'' (PDict []))) (\<lambda>scfg.
     let cfg = config_post_init
       \<lparr>pc_name = name, pc_queue = rf_queue r, pc_account = rf_account r,
        pc_pilot_sizes = rf_pilot_sizes r, pc_default_size = rf_default_size r,
        pc_endpoint_name = rf_endpoint_name r, pc_min_pilots = rf_min_pilots r,
        pc_max_pilots = rf_max_pilots r, pc_scratch_base = rf_scratch_base r,
        pc_strategy = strategy, pc_strategy_config = scfg, pc_pool_class = pool_class,
        pc_members = members, pc_multi_member = multi\<rparr>
     in rbind (make_policy custom reg cfg) (\<lambda>_. Inr cfg))))))))))"

fun collect_pools ::
  "(string \<Rightarrow> dict \<Rightarrow> bool) \<Rightarrow> registry \<Rightarrow> bool \<Rightarrow> pyval list \<Rightarrow> (string \<times> pool_config) list \<Rightarrow>
     config_error + (string \<times> pool_config) list" where
  "collect_pools custom reg allow_empty [] acc = Inr acc"
| "collect_pools custom reg allow_empty (PDict d # es) acc =
    rbind (parse_pool custom reg allow_empty d) (\<lambda>p.
      if dhas acc (pc_name p) then Inl (DuplicatePool (pc_name p))
      else collect_pools custom reg allow_empty es (dset (pc_name p) p acc))"
| "collect_pools custom reg allow_empty (_ # es) acc = Inl NotObject"

definition parse_pools ::
  "(string \<Rightarrow> dict \<Rightarrow> bool) \<Rightarrow> registry \<Rightarrow> bool \<Rightarrow> pyval \<Rightarrow> config_error + (string \<times> pool_config) list" where
  "parse_pools custom reg allow_empty raw = (case raw of
     PDict d \<Rightarrow> (case pget d ''pools'' of
        PList entries \<Rightarrow> rbind (collect_pools custom reg allow_empty entries [])
          (\<lambda>pools. if pools = [] then Inl NoPools else Inr pools)
      | _ \<Rightarrow> Inl NoPoolsList)
   | _ \<Rightarrow> Inl NotObject)"

definition default_pool_config :: "string \<Rightarrow> pool_config" where
  "default_pool_config queue = config_post_init
    \<lparr>pc_name = DEFAULT_POOL_NAME, pc_queue = queue, pc_account = None,
     pc_pilot_sizes = [(''node'', \<lparr>ps_nodes = 1, ps_cpus_per_node = 1,
        ps_rhapsody_backend = ''concurrent'', ps_gpus_per_node = 0, ps_walltime_sec = 3600\<rparr>)],
     pc_default_size = ''node'', pc_endpoint_name = None, pc_min_pilots = 0, pc_max_pilots = 1,
     pc_scratch_base = None, pc_strategy = ''conservative'', pc_strategy_config = [],
     pc_pool_class = '''', pc_members = [], pc_multi_member = False\<rparr>"

section \<open>Persistence\<close>

text \<open>\<open>to_dict\<close> is \<open>dataclasses.asdict\<close>; \<open>_pool_config_from_dict\<close> parses it back.\<close>

definition enc_str_opt :: "string option \<Rightarrow> pyval" where
  "enc_str_opt x = (case x of None \<Rightarrow> PNone | Some s \<Rightarrow> PStr s)"

definition size_to_dict :: "pilot_size \<Rightarrow> pyval" where
  "size_to_dict s = PDict
    [(''nodes'', PInt (ps_nodes s)), (''cpus_per_node'', PInt (ps_cpus_per_node s)),
     (''rhapsody_backend'', PStr (ps_rhapsody_backend s)),
     (''gpus_per_node'', PInt (ps_gpus_per_node s)), (''walltime_sec'', PInt (ps_walltime_sec s))]"

definition sizes_to_dict :: "(string \<times> pilot_size) list \<Rightarrow> pyval" where
  "sizes_to_dict sizes = PDict (map (\<lambda>(k, s). (k, size_to_dict s)) sizes)"

fun pilot_mode_str :: "pilot_mode \<Rightarrow> string" where
  "pilot_mode_str PILOT_SUBMIT = ''submit''"
| "pilot_mode_str PILOT_ENDPOINT = ''endpoint''"

definition member_to_dict :: "pool_member \<Rightarrow> dict" where
  "member_to_dict m =
    [(''member_id'', PStr (pm_member_id m)), (''endpoint_name'', PStr (pm_endpoint_name m)),
     (''queue'', PStr (pm_queue m)), (''account'', enc_str_opt (pm_account m)),
     (''pilot_sizes'', sizes_to_dict (pm_pilot_sizes m)),
     (''default_size'', PStr (pm_default_size m)), (''min_pilots'', PInt (pm_min_pilots m)),
     (''max_pilots'', PInt (pm_max_pilots m)), (''scratch_base'', enc_str_opt (pm_scratch_base m)),
     (''shared_fs'', PBool (pm_shared_fs m)), (''attributes'', PDict (pm_attributes m)),
     (''budget'', PDict (map (\<lambda>(k, f). (k, PFloat f)) (pm_budget m))),
     (''pilot'', PStr (pilot_mode_str (pm_pilot m))),
     (''end_time'', case pm_end_time m of None \<Rightarrow> PNone | Some f \<Rightarrow> PFloat f)]"

definition config_to_dict :: "pool_config \<Rightarrow> dict" where
  "config_to_dict c =
    [(''name'', PStr (pc_name c)), (''queue'', PStr (pc_queue c)),
     (''account'', enc_str_opt (pc_account c)), (''pilot_sizes'', sizes_to_dict (pc_pilot_sizes c)),
     (''default_size'', PStr (pc_default_size c)),
     (''endpoint_name'', enc_str_opt (pc_endpoint_name c)),
     (''min_pilots'', PInt (pc_min_pilots c)), (''max_pilots'', PInt (pc_max_pilots c)),
     (''scratch_base'', enc_str_opt (pc_scratch_base c)), (''strategy'', PStr (pc_strategy c)),
     (''strategy_config'', PDict (pc_strategy_config c)), (''pool_class'', PStr (pc_pool_class c)),
     (''members'', PDict (map (\<lambda>(k, m). (k, PDict (member_to_dict m))) (pc_members c))),
     (''multi_member'', PBool (pc_multi_member c))]"

definition pool_config_from_dict ::
  "(string \<Rightarrow> dict \<Rightarrow> bool) \<Rightarrow> registry \<Rightarrow> pyval \<Rightarrow> config_error + pool_config" where
  "pool_config_from_dict custom reg d =
    rbind (parse_pools custom reg True (PDict [(''pools'', PList [d])])) (\<lambda>pools. Inr (snd (hd pools)))"

section \<open>Well-formed configurations\<close>

definition size_wf :: "pilot_size \<Rightarrow> bool" where
  "size_wf s \<longleftrightarrow> 1 \<le> ps_nodes s \<and> 1 \<le> ps_cpus_per_node s \<and> 0 \<le> ps_gpus_per_node s \<and>
     1 \<le> ps_walltime_sec s \<and> ps_rhapsody_backend s \<noteq> []"

definition sizes_wf :: "(string \<times> pilot_size) list \<Rightarrow> string \<Rightarrow> bool" where
  "sizes_wf sizes default_size \<longleftrightarrow> sizes \<noteq> [] \<and> (\<forall>(k, s) \<in> set sizes. size_wf s) \<and> dhas sizes default_size"

definition resource_wf :: "resource_fields \<Rightarrow> bool" where
  "resource_wf r \<longleftrightarrow> rf_endpoint_name r \<noteq> Some [] \<and> rf_queue r \<noteq> [] \<and>
     sizes_wf (rf_pilot_sizes r) (rf_default_size r) \<and> 0 \<le> rf_min_pilots r \<and>
     rf_min_pilots r \<le> rf_max_pilots r \<and> 1 \<le> rf_max_pilots r"

definition budget_wf :: "(string \<times> pyfloat) list \<Rightarrow> bool" where
  "budget_wf b = (case b of
     [] \<Rightarrow> True
   | [(k, f)] \<Rightarrow> k = ''node_hours'' \<and> \<not> fle f (Fin 0)
   | _ \<Rightarrow> False)"

definition member_wf :: "string \<Rightarrow> pool_member \<Rightarrow> bool" where
  "member_wf pool_name m \<longleftrightarrow> member_re (pm_member_id m) \<and>
     length pool_name + length (pm_member_id m) \<le> MAX_POOL_MEMBER_NAME_LEN \<and>
     pm_endpoint_name m \<noteq> [] \<and> pm_queue m \<noteq> [] \<and> pm_queue m \<noteq> DEFAULT_POOL_NAME \<and>
     sizes_wf (pm_pilot_sizes m) (pm_default_size m) \<and> 0 \<le> pm_min_pilots m \<and>
     pm_min_pilots m \<le> pm_max_pilots m \<and> 1 \<le> pm_max_pilots m \<and>
     (\<forall>(k, v) \<in> set (pm_attributes m). attr_value v) \<and> budget_wf (pm_budget m) \<and>
     (case pm_end_time m of None \<Rightarrow> True | Some f \<Rightarrow> \<not> fle f (Fin 0)) \<and> member_post_init m = m"

definition members_wf :: "string \<Rightarrow> (string \<times> pool_member) list \<Rightarrow> bool" where
  "members_wf pool_name ms \<longleftrightarrow> dict_ok ms \<and> (\<forall>(k, m) \<in> set ms. k = pm_member_id m \<and> member_wf pool_name m)"

definition strategy_wf :: "(string \<Rightarrow> dict \<Rightarrow> bool) \<Rightarrow> registry \<Rightarrow> pool_config \<Rightarrow> bool" where
  "strategy_wf custom reg c \<longleftrightarrow> pc_strategy c \<noteq> [] \<and> \<not> isl (make_policy custom reg c)"

definition config_wf :: "(string \<Rightarrow> dict \<Rightarrow> bool) \<Rightarrow> registry \<Rightarrow> pool_config \<Rightarrow> bool" where
  "config_wf custom reg c \<longleftrightarrow> pc_name c \<noteq> [] \<and> pool_class_re (pc_pool_class c) \<and>
     strategy_wf custom reg c \<and>
     (if pc_multi_member c then members_wf (pc_name c) (pc_members c) \<and> reproject c = c
      else pc_members c = [(IMPLICIT_MEMBER, implicit_member c)] \<and>
        resource_wf \<lparr>rf_endpoint_name = pc_endpoint_name c, rf_queue = pc_queue c,
          rf_account = pc_account c, rf_pilot_sizes = pc_pilot_sizes c,
          rf_default_size = pc_default_size c, rf_min_pilots = pc_min_pilots c,
          rf_max_pilots = pc_max_pilots c, rf_scratch_base = pc_scratch_base c\<rparr>)"

lemma strategy_wf_iff:
  "strategy_wf custom reg c \<longleftrightarrow> pc_strategy c \<noteq> [] \<and> (\<exists>p. make_policy custom reg c = Inr p)"
  by (cases "make_policy custom reg c") (auto simp: strategy_wf_def)

section \<open>What each check leaves\<close>

named_theorems parse_eqs \<open>success of one parser step\<close>

lemma parse_int_eq [parse_eqs]: "parse_int n lo v = Inr i \<longleftrightarrow> v = PInt i \<and> lo \<le> i"
  by (auto simp: parse_int_def split: pyval.splits)

lemma nonempty_str_eq [parse_eqs]: "nonempty_str n v = Inr s \<longleftrightarrow> v = PStr s \<and> s \<noteq> []"
  by (auto simp: nonempty_str_def split: pyval.splits)

lemma str_or_null_eq [parse_eqs]: "str_or_null n v = Inr x \<longleftrightarrow> v = enc_str_opt x"
  by (auto simp: str_or_null_def enc_str_opt_def split: pyval.splits option.splits)

lemma as_dict_eq [parse_eqs]: "as_dict n v = Inr d \<longleftrightarrow> v = PDict d"
  by (auto simp: as_dict_def split: pyval.splits)

lemma as_bool_eq [parse_eqs]: "as_bool n v = Inr b \<longleftrightarrow> v = PBool b"
  by (auto simp: as_bool_def split: pyval.splits)

lemma parse_endpoint_eq [parse_eqs]:
  "parse_endpoint req v = Inr x \<longleftrightarrow> v = enc_str_opt x \<and> x \<noteq> Some [] \<and> (req \<longrightarrow> x \<noteq> None)"
  by (auto simp: parse_endpoint_def result_simps nonempty_str_eq enc_str_opt_def split: option.splits)

lemma parse_default_size_eq [parse_eqs]:
  "parse_default_size sizes v = Inr s \<longleftrightarrow> v = PStr s \<and> dhas sizes s"
  by (auto simp: parse_default_size_def split: pyval.splits option.splits)

lemma parse_member_id_eq [parse_eqs]:
  "parse_member_id p v = Inr s \<longleftrightarrow> v = PStr s \<and> member_re s \<and> length p + length s \<le> MAX_POOL_MEMBER_NAME_LEN"
  by (auto simp: parse_member_id_def split: pyval.splits)

lemma parse_pool_class_eq [parse_eqs]: "parse_pool_class v = Inr s \<longleftrightarrow> v = PStr s \<and> pool_class_re s"
  by (auto simp: parse_pool_class_def split: pyval.splits)

lemma parse_pilot_mode_eq [parse_eqs]: "parse_pilot_mode v = Inr p \<longleftrightarrow> v = PStr (pilot_mode_str p)"
  by (cases p) (auto simp: parse_pilot_mode_def)

lemma parse_attributes_eq [parse_eqs]:
  "parse_attributes d = Inr u \<longleftrightarrow> (\<forall>(k, v) \<in> set d. attr_value v)"
  by (induction d rule: parse_attributes.induct) auto

lemma require_keys_eq [parse_eqs]: "require_keys ks d = Inr u \<longleftrightarrow> (\<forall>k \<in> set ks. dhas d k)"
  by (induction ks) auto

lemma positive_number_wf: "positive_number n v = Inr f \<Longrightarrow> \<not> fle f (Fin 0)"
  by (cases v) (auto simp: positive_number_def split: if_splits)

lemma positive_number_float: "\<not> fle f (Fin 0) \<Longrightarrow> positive_number n (PFloat f) = Inr f"
  by (simp add: positive_number_def)

lemma parse_end_time_wf: "parse_end_time v = Inr t \<Longrightarrow> (case t of None \<Rightarrow> True | Some f \<Rightarrow> \<not> fle f (Fin 0))"
  by (auto simp: parse_end_time_def result_simps positive_number_wf split: if_splits)

lemma parse_budget_wf: "parse_budget b = Inr c \<Longrightarrow> budget_wf c"
  by (auto simp: parse_budget_def budget_wf_def result_simps positive_number_wf
      split: list.splits option.splits)

lemma parse_pilot_size_wf: "parse_pilot_size v = Inr s \<Longrightarrow> size_wf s"
  by (auto simp: parse_pilot_size_def size_wf_def result_simps parse_eqs split: pyval.splits)

lemma parse_sizes_wf:
  "parse_sizes v = Inr sizes \<Longrightarrow> sizes \<noteq> [] \<and> (\<forall>(k, s) \<in> set sizes. size_wf s)"
proof -
  assume p: "parse_sizes v = Inr sizes"
  then obtain items where items: "items \<noteq> []" "rmap_list parse_size_item items = Inr sizes"
    by (auto simp: parse_sizes_def split: pyval.splits if_splits)
  have "size_wf s" if "(k, s) \<in> set sizes" for k s
    using rmap_list_set [OF items(2) that]
    by (auto simp: parse_size_item_def result_simps parse_pilot_size_wf)
  moreover have "sizes \<noteq> []" using rmap_list_length [OF items(2)] items(1) by auto
  ultimately show ?thesis by auto
qed

lemma parse_resource_wf:
  "parse_resource d req = Inr r \<Longrightarrow> resource_wf r \<and> (req \<longrightarrow> rf_endpoint_name r \<noteq> None)"
  by (auto simp: parse_resource_def resource_wf_def sizes_wf_def result_simps parse_eqs
      dest!: parse_sizes_wf)

lemma member_post_init_idem [simp]: "member_post_init (member_post_init m) = member_post_init m"
  by (simp add: member_post_init_def)

lemma member_post_init_sel [simp]:
  "pm_member_id (member_post_init m) = pm_member_id m"
  "pm_endpoint_name (member_post_init m) = pm_endpoint_name m"
  "pm_queue (member_post_init m) = pm_queue m"
  "pm_pilot_sizes (member_post_init m) = pm_pilot_sizes m"
  "pm_default_size (member_post_init m) = pm_default_size m"
  "pm_attributes (member_post_init m) = pm_attributes m"
  "pm_budget (member_post_init m) = pm_budget m"
  "pm_end_time (member_post_init m) = pm_end_time m"
  "pm_pilot (member_post_init m) = pm_pilot m"
  "pm_min_pilots (member_post_init m) = (if pm_pilot m = PILOT_ENDPOINT then 1 else pm_min_pilots m)"
  "pm_max_pilots (member_post_init m) = (if pm_pilot m = PILOT_ENDPOINT then 1 else pm_max_pilots m)"
  by (simp_all add: member_post_init_def)

lemma parse_member_wf:
  assumes "parse_member pool_name v = Inr m"
  shows "member_wf pool_name m"
proof -
  from assms obtain d r where d: "v = PDict d" and r: "parse_resource d True = Inr r"
    by (auto simp: parse_member_def result_simps split: pyval.splits)
  have "resource_wf r" "rf_endpoint_name r \<noteq> None" using parse_resource_wf [OF r] by auto
  then show ?thesis
    using assms unfolding d parse_member_def pyval.case r
    by (auto simp: member_wf_def result_simps parse_eqs resource_wf_def
        dest: parse_budget_wf parse_end_time_wf split: if_splits)
qed

lemma collect_members_wf:
  "members_wf pool_name acc \<Longrightarrow> collect_members pool_name es acc = Inr ms \<Longrightarrow>
    members_wf pool_name ms \<and> (es \<noteq> [] \<or> acc \<noteq> [] \<longrightarrow> ms \<noteq> [])"
proof (induction es arbitrary: acc)
  case Nil
  then show ?case by simp
next
  case (Cons e es)
  from Cons.prems(2) obtain m where m: "parse_member pool_name e = Inr m"
      "\<not> dhas acc (pm_member_id m)" "collect_members pool_name es (dset (pm_member_id m) m acc) = Inr ms"
    by (auto simp: result_simps split: if_splits)
  have "set (dset (pm_member_id m) m acc) \<subseteq> insert (pm_member_id m, m) (set acc)"
    by (induction acc) auto
  then have "members_wf pool_name (dset (pm_member_id m) m acc)"
    using Cons.prems(1) parse_member_wf [OF m(1)] by (auto simp: members_wf_def)
  moreover have "dset (pm_member_id m) m acc \<noteq> []" by (cases acc) auto
  ultimately show ?case using Cons.IH [OF _ m(3)] by simp
qed

lemma parse_members_wf:
  "parse_members raw pool_name allow = Inr ms \<Longrightarrow>
    members_wf pool_name ms \<and> (\<not> allow \<longrightarrow> ms \<noteq> [])"
  by (auto simp: parse_members_def result_simps members_wf_def
      dest!: collect_members_wf [rotated] split: pyval.splits if_splits)

lemma reproject_idem [simp]: "reproject (reproject c) = reproject c"
  by (auto simp: reproject_def split: list.splits)

lemma reproject_sel [simp]:
  "pc_members (reproject c) = pc_members c" "pc_multi_member (reproject c) = pc_multi_member c"
  "pc_name (reproject c) = pc_name c" "pc_strategy (reproject c) = pc_strategy c"
  "pc_strategy_config (reproject c) = pc_strategy_config c"
  "pc_pool_class (reproject c) = pc_pool_class c"
  by (auto simp: reproject_def split: list.splits)

lemma implicit_member_members [simp]: "implicit_member (c\<lparr>pc_members := ms\<rparr>) = implicit_member c"
  by (simp add: implicit_member_def)

lemma make_policy_known: "make_policy custom reg c = Inr p \<Longrightarrow> pc_strategy c \<in> set (known_policies reg)"
  by (auto simp: make_policy_def known_policies_resolve split: option.splits)

lemma parse_pool_wf:
  assumes "parse_pool custom reg allow d = Inr c"
  shows "config_wf custom reg c" and "\<not> allow \<Longrightarrow> pc_members c \<noteq> []"
proof -
  define multi where "multi = (case dget d ''multi_member'' of None \<Rightarrow> dhas d ''members'' | Some v \<Rightarrow> truthy v)"
  from assms obtain name ms r pclass strat scfg p where
    name: "name \<noteq> []" and
    ms: "(if multi then parse_members (pget d ''members'') name allow else Inr []) = Inr ms" and
    r: "(if multi then Inr empty_projection else parse_resource d False) = Inr r" and
    pclass: "pool_class_re pclass" and strat: "strat \<noteq> []" and
    c: "c = config_post_init
       \<lparr>pc_name = name, pc_queue = rf_queue r, pc_account = rf_account r,
        pc_pilot_sizes = rf_pilot_sizes r, pc_default_size = rf_default_size r,
        pc_endpoint_name = rf_endpoint_name r, pc_min_pilots = rf_min_pilots r,
        pc_max_pilots = rf_max_pilots r, pc_scratch_base = rf_scratch_base r,
        pc_strategy = strat, pc_strategy_config = scfg, pc_pool_class = pclass,
        pc_members = ms, pc_multi_member = multi\<rparr>" and
    pol: "make_policy custom reg c = Inr p"
    unfolding parse_pool_def multi_def [symmetric] Let_def by (simp add: result_simps parse_eqs) metis
  have "config_wf custom reg c \<and> (\<not> allow \<longrightarrow> pc_members c \<noteq> [])"
  proof (cases multi)
    case True
    then have w: "members_wf name ms" "\<not> allow \<longrightarrow> ms \<noteq> []" using ms parse_members_wf by auto
    show ?thesis using name w pclass strat c pol True
      by (simp add: config_wf_def strategy_wf_iff config_post_init_def)
  next
    case False
    then have "resource_wf r" "ms = []" using r ms parse_resource_wf by auto
    then show ?thesis using name pclass strat c pol False
      by (cases r) (simp add: config_wf_def strategy_wf_iff config_post_init_def implicit_member_def)
  qed
  then show "config_wf custom reg c" "\<not> allow \<Longrightarrow> pc_members c \<noteq> []" by auto
qed

section \<open>Replay\<close>

lemma pget_Cons: "pget ((k', v) # d) k = (if k = k' then v else pget d k)"
  "pget_or ((k', v) # d) k v0 = (if k = k' then v else pget_or d k v0)"
  "dhas ((k', x) # e) k = (k = k' \<or> dhas e k)"
  by (auto simp: pget_def pget_or_def dhas_def)

lemma pget_Nil: "pget [] k = PNone" "pget_or [] k v0 = v0" "\<not> dhas [] k"
  by (auto simp: pget_def pget_or_def dhas_def)

lemmas pget_eval = pget_Cons pget_Nil

lemma size_replay: "size_wf s \<Longrightarrow> parse_pilot_size (size_to_dict s) = Inr s"
  by (simp add: parse_pilot_size_def size_to_dict_def pget_eval result_simps parse_eqs size_wf_def)

lemma sizes_replay:
  assumes "sizes \<noteq> []" "\<forall>(k, s) \<in> set sizes. size_wf s"
  shows "parse_sizes (sizes_to_dict sizes) = Inr sizes"
proof -
  have "rmap_list parse_size_item (map (\<lambda>(k, s). (k, size_to_dict s)) ss) = Inr ss"
    if "\<forall>(k, s) \<in> set ss. size_wf s" for ss
    using that by (induction ss) (auto simp: parse_size_item_def size_replay)
  then show ?thesis using assms by (simp add: parse_sizes_def sizes_to_dict_def)
qed

lemma resource_replay:
  assumes "pget d ''endpoint_name'' = enc_str_opt (rf_endpoint_name r)" "pget d ''queue'' = PStr (rf_queue r)"
    "pget d ''account'' = enc_str_opt (rf_account r)" "pget d ''pilot_sizes'' = sizes_to_dict (rf_pilot_sizes r)"
    "pget d ''default_size'' = PStr (rf_default_size r)" "pget_or d ''min_pilots'' (PInt 0) = PInt (rf_min_pilots r)"
    "pget_or d ''max_pilots'' (PInt 4) = PInt (rf_max_pilots r)"
    "pget d ''scratch_base'' = enc_str_opt (rf_scratch_base r)"
    and "resource_wf r" "req \<longrightarrow> rf_endpoint_name r \<noteq> None"
  shows "parse_resource d req = Inr r"
proof -
  have inj: "enc_str_opt x = enc_str_opt y \<longleftrightarrow> x = y" for x y
    by (auto simp: enc_str_opt_def split: option.splits)
  show ?thesis unfolding parse_resource_def assms(1-8) using assms(9,10)
    by (cases r) (simp add: result_simps parse_eqs resource_wf_def sizes_wf_def sizes_replay inj)
qed

lemma budget_wf_iff: "budget_wf b \<longleftrightarrow> b = [] \<or> (\<exists>f. b = [(''node_hours'', f)] \<and> \<not> fle f (Fin 0))"
  by (auto simp: budget_wf_def split: list.splits)

lemma budget_replay: "budget_wf b \<Longrightarrow> parse_budget (map (\<lambda>(k, f). (k, PFloat f)) b) = Inr b"
  by (auto simp: budget_wf_iff parse_budget_def positive_number_float)

lemma end_time_replay:
  "(case t of None \<Rightarrow> True | Some f \<Rightarrow> \<not> fle f (Fin 0)) \<Longrightarrow>
    parse_end_time (case t of None \<Rightarrow> PNone | Some f \<Rightarrow> PFloat f) = Inr t"
  by (cases t) (auto simp: parse_end_time_def positive_number_float)

lemma member_replay:
  assumes "member_wf pool_name m"
  shows "parse_member pool_name (PDict (member_to_dict m)) = Inr m"
proof -
  let ?r = "\<lparr>rf_endpoint_name = Some (pm_endpoint_name m), rf_queue = pm_queue m,
    rf_account = pm_account m, rf_pilot_sizes = pm_pilot_sizes m, rf_default_size = pm_default_size m,
    rf_min_pilots = pm_min_pilots m, rf_max_pilots = pm_max_pilots m, rf_scratch_base = pm_scratch_base m\<rparr>"
  have r: "parse_resource (member_to_dict m) True = Inr ?r"
    by (rule resource_replay) (use assms in \<open>auto simp: member_to_dict_def pget_eval enc_str_opt_def
        resource_wf_def member_wf_def\<close>)
  have keys: "require_keys [''member_id'', ''endpoint_name'', ''queue'', ''default_size'', ''pilot_sizes'']
      (member_to_dict m) = Inr ()"
    by (simp add: member_to_dict_def pget_eval)
  have get: "pget (member_to_dict m) ''member_id'' = PStr (pm_member_id m)"
      "pget_or (member_to_dict m) ''shared_fs'' (PBool True) = PBool (pm_shared_fs m)"
      "pget_or (member_to_dict m) ''attributes'' (PDict []) = PDict (pm_attributes m)"
      "pget_or (member_to_dict m) ''pilot'' (PStr ''submit'') = PStr (pilot_mode_str (pm_pilot m))"
      "pget (member_to_dict m) ''end_time'' = (case pm_end_time m of None \<Rightarrow> PNone | Some f \<Rightarrow> PFloat f)"
      "pget_or (member_to_dict m) ''budget'' (PDict []) = PDict (map (\<lambda>(k, f). (k, PFloat f)) (pm_budget m))"
    by (simp_all add: member_to_dict_def pget_eval)
  have init: "member_post_init m = m" using assms by (simp add: member_wf_def)
  have steps: "parse_member_id pool_name (PStr (pm_member_id m)) = Inr (pm_member_id m)"
      "as_bool ''shared_fs'' (PBool (pm_shared_fs m)) = Inr (pm_shared_fs m)"
      "as_dict ''attributes'' (PDict (pm_attributes m)) = Inr (pm_attributes m)"
      "parse_attributes (pm_attributes m) = Inr ()"
      "parse_pilot_mode (PStr (pilot_mode_str (pm_pilot m))) = Inr (pm_pilot m)"
      "parse_end_time (case pm_end_time m of None \<Rightarrow> PNone | Some f \<Rightarrow> PFloat f) = Inr (pm_end_time m)"
      "as_dict ''budget'' (PDict (map (\<lambda>(k, f). (k, PFloat f)) (pm_budget m))) =
         Inr (map (\<lambda>(k, f). (k, PFloat f)) (pm_budget m))"
      "parse_budget (map (\<lambda>(k, f). (k, PFloat f)) (pm_budget m)) = Inr (pm_budget m)"
      "guard_or (rf_queue ?r \<noteq> DEFAULT_POOL_NAME) DefaultQueue = Inr ()"
    using assms by (simp_all add: parse_eqs member_wf_def end_time_replay budget_replay guard_or_def)
  show ?thesis
    unfolding parse_member_def pyval.case keys get r steps rbind_simps
    using init by (cases m) simp
qed

lemma dset_new: "dget d k = None \<Longrightarrow> dset k v d = d @ [(k, v)]"
  by (induction d) (auto split: if_splits)

lemma members_replay:
  assumes "members_wf pool_name (acc @ ms)"
  shows "collect_members pool_name (map (\<lambda>(k, m). PDict (member_to_dict m)) ms) acc = Inr (acc @ ms)"
  using assms
proof (induction ms arbitrary: acc)
  case Nil
  then show ?case by simp
next
  case (Cons km ms)
  obtain k m where km: "km = (k, m)" by (cases km)
  have m: "k = pm_member_id m" "member_wf pool_name m" and new: "dget acc k = None"
    using Cons.prems unfolding km by (auto simp: members_wf_def dict_ok_def map_of_eq_None_iff)
  have "collect_members pool_name (map (\<lambda>(k, m). PDict (member_to_dict m)) (km # ms)) acc =
      collect_members pool_name (map (\<lambda>(k, m). PDict (member_to_dict m)) ms) (acc @ [(k, m)])"
    using m new by (simp add: km member_replay dhas_def dset_new)
  then show ?case using Cons.IH [of "acc @ [km]"] Cons.prems by (simp add: km)
qed
lemma parse_members_replay:
  assumes "members_wf name ms"
  shows "parse_members (PDict (map (\<lambda>(k, m). (k, PDict (member_to_dict m))) ms)) name True = Inr ms"
proof -
  have entries: "map member_entry (map (\<lambda>(k, m). (k, PDict (member_to_dict m))) ms) =
      map (\<lambda>(k, m). PDict (member_to_dict m)) ms"
    by (auto simp: member_to_dict_def pget_eval)
  show ?thesis
    unfolding parse_members_def pyval.case rbind_simps entries
    using members_replay [of name "[]" ms] assms by simp
qed

text \<open>The record the parser builds before \<open>__post_init__\<close>.\<close>

definition raw_config ::
  "string \<Rightarrow> resource_fields \<Rightarrow> string \<Rightarrow> dict \<Rightarrow> string \<Rightarrow> (string \<times> pool_member) list \<Rightarrow> bool \<Rightarrow> pool_config" where
  "raw_config name r strategy scfg pool_class members multi =
    \<lparr>pc_name = name, pc_queue = rf_queue r, pc_account = rf_account r,
     pc_pilot_sizes = rf_pilot_sizes r, pc_default_size = rf_default_size r,
     pc_endpoint_name = rf_endpoint_name r, pc_min_pilots = rf_min_pilots r,
     pc_max_pilots = rf_max_pilots r, pc_scratch_base = rf_scratch_base r,
     pc_strategy = strategy, pc_strategy_config = scfg, pc_pool_class = pool_class,
     pc_members = members, pc_multi_member = multi\<rparr>"

definition resource_of :: "pool_config \<Rightarrow> resource_fields" where
  "resource_of c = \<lparr>rf_endpoint_name = pc_endpoint_name c, rf_queue = pc_queue c,
     rf_account = pc_account c, rf_pilot_sizes = pc_pilot_sizes c,
     rf_default_size = pc_default_size c, rf_min_pilots = pc_min_pilots c,
     rf_max_pilots = pc_max_pilots c, rf_scratch_base = pc_scratch_base c\<rparr>"

lemma raw_config_multi:
  assumes "pc_multi_member c" "reproject c = c"
  shows "config_post_init (raw_config (pc_name c) r (pc_strategy c) (pc_strategy_config c)
    (pc_pool_class c) (pc_members c) True) = c"
proof -
  have "config_post_init (raw_config (pc_name c) r (pc_strategy c) (pc_strategy_config c)
      (pc_pool_class c) (pc_members c) True) = reproject c"
    using assms(1) by (cases "pc_members c")
      (auto simp: config_post_init_def reproject_def raw_config_def)
  with assms(2) show ?thesis by simp
qed

lemma raw_config_legacy:
  assumes "\<not> pc_multi_member c" "pc_members c = [(IMPLICIT_MEMBER, implicit_member c)]"
  shows "config_post_init (raw_config (pc_name c) (resource_of c) (pc_strategy c) (pc_strategy_config c)
    (pc_pool_class c) [] False) = c"
  using assms by (cases c) (simp add: config_post_init_def implicit_member_def raw_config_def resource_of_def)

lemma config_replay:
  assumes "config_wf custom reg c"
  shows "parse_pool custom reg True (config_to_dict c) = Inr c"
proof -
  let ?d = "config_to_dict c"
  have get: "dget ?d ''multi_member'' = Some (PBool (pc_multi_member c))"
      "pget ?d ''name'' = PStr (pc_name c)"
      "pget ?d ''members'' = PDict (map (\<lambda>(k, m). (k, PDict (member_to_dict m))) (pc_members c))"
      "pget_or ?d ''pool_class'' (PStr '''') = PStr (pc_pool_class c)"
      "pget_or ?d ''strategy'' (PStr ''conservative'') = PStr (pc_strategy c)"
      "pget_or ?d ''strategy_config'' (PDict []) = PDict (pc_strategy_config c)"
    by (simp_all add: config_to_dict_def pget_eval)
  have keys: "require_keys (if pc_multi_member c then [''name'', ''members'']
      else [''name'', ''queue'', ''default_size'', ''pilot_sizes'']) ?d = Inr ()"
    by (simp add: config_to_dict_def pget_eval)
  obtain p where wf: "pc_name c \<noteq> []" "pool_class_re (pc_pool_class c)" "pc_strategy c \<noteq> []"
      and pol: "make_policy custom reg c = Inr p"
    using assms by (auto simp: config_wf_def strategy_wf_iff)
  have known: "pc_strategy c \<in> set (known_policies reg)" using make_policy_known [OF pol] .
  have eqs: "nonempty_str ''name'' (PStr (pc_name c)) = Inr (pc_name c)"
      "parse_pool_class (PStr (pc_pool_class c)) = Inr (pc_pool_class c)"
      "nonempty_str ''strategy'' (PStr (pc_strategy c)) = Inr (pc_strategy c)"
      "as_dict ''strategy_config'' (PDict (pc_strategy_config c)) = Inr (pc_strategy_config c)"
    using wf by (simp_all add: parse_eqs)
  show ?thesis
  proof (cases "pc_multi_member c")
    case True
    then have ms: "members_wf (pc_name c) (pc_members c)" and re: "reproject c = c"
      using assms by (auto simp: config_wf_def)
    show ?thesis
      using True pol known keys raw_config_multi [OF True re, of empty_projection]
      by (simp add: parse_pool_def get eqs parse_members_replay [OF ms] guard_or_def Let_def
          raw_config_def)
  next
    case False
    then have ms: "pc_members c = [(IMPLICIT_MEMBER, implicit_member c)]" and wfr: "resource_wf (resource_of c)"
      using assms by (auto simp: config_wf_def resource_of_def)
    have r: "parse_resource ?d False = Inr (resource_of c)"
      by (rule resource_replay) (use wfr in \<open>simp_all add: config_to_dict_def pget_eval resource_of_def\<close>)
    show ?thesis
      using False pol known keys raw_config_legacy [OF False ms]
      by (simp add: parse_pool_def get eqs r guard_or_def Let_def raw_config_def)
  qed
qed

lemma replay_config: "config_wf custom reg c \<Longrightarrow> pool_config_from_dict custom reg (PDict (config_to_dict c)) = Inr c"
  by (simp add: pool_config_from_dict_def parse_pools_def pget_def config_replay dhas_def)

lemma collect_pools_wf:
  assumes "collect_pools custom reg allow es acc = Inr pools"
    and "\<forall>(k, c) \<in> set acc. k = pc_name c \<and> config_wf custom reg c \<and> (\<not> allow \<longrightarrow> pc_members c \<noteq> [])"
  shows "\<forall>(k, c) \<in> set pools. k = pc_name c \<and> config_wf custom reg c \<and> (\<not> allow \<longrightarrow> pc_members c \<noteq> [])"
  using assms
proof (induction custom reg allow es acc rule: collect_pools.induct)
  case (2 custom reg allow d es acc)
  from "2.prems"(1) obtain p where p: "parse_pool custom reg allow d = Inr p" "dget acc (pc_name p) = None"
      "collect_pools custom reg allow es (dset (pc_name p) p acc) = Inr pools"
    by (auto simp: result_simps dhas_def split: if_splits)
  show ?case
    using "2.IH" [OF _ p(3)] "2.prems"(2) parse_pool_wf [OF p(1)] p(2)
    by (auto simp: dset_new dhas_def)
qed auto

lemma parse_pools_wf:
  assumes "parse_pools custom reg allow raw = Inr pools" "(k, c) \<in> set pools"
  shows "k = pc_name c \<and> config_wf custom reg c \<and> (\<not> allow \<longrightarrow> pc_members c \<noteq> [])"
proof -
  from assms(1) obtain es where "collect_pools custom reg allow es [] = Inr pools"
    by (auto simp: parse_pools_def result_simps split: pyval.splits if_splits)
  from collect_pools_wf [OF this] assms(2) show ?thesis by auto
qed

lemma bind_endpoint_wf:
  assumes "config_wf custom reg c" "\<not> pc_multi_member c" "name \<noteq> []"
  shows "config_wf custom reg (bind_endpoint name c)"
proof -
  have ms: "pc_members c = [(IMPLICIT_MEMBER, implicit_member c)]"
    using assms by (simp add: config_wf_def)
  have b: "bind_endpoint name c = c\<lparr>pc_endpoint_name := Some name,
      pc_members := [(IMPLICIT_MEMBER, implicit_member (c\<lparr>pc_endpoint_name := Some name\<rparr>))]\<rparr>"
    by (simp add: bind_endpoint_def ms implicit_member_def member_post_init_def Let_def)
  have sel: "pc_strategy (bind_endpoint name c) = pc_strategy c"
      "pc_strategy_config (bind_endpoint name c) = pc_strategy_config c"
    by (simp_all add: b)
  have "make_policy custom reg (bind_endpoint name c) = make_policy custom reg c"
    unfolding make_policy_def sel ..
  then show ?thesis
    using assms unfolding config_wf_def strategy_wf_iff b by (simp add: resource_wf_def)
qed

section \<open>Properties\<close>

text \<open>C10. Every pool the parser accepts, on the declaration path or on the replay path, persists to a
  document that replays to the identical configuration: members with their sizes, attributes and
  budgets, their order, the projected scalars and the strategy.\<close>

theorem parsed_pool_replays:
  assumes "parse_pools custom reg allow raw = Inr pools" and "(k, c) \<in> set pools"
  shows "pool_config_from_dict custom reg (PDict (config_to_dict c)) = Inr c"
  using parse_pools_wf [OF assms] replay_config by blast

definition demo_raw :: pyval where
  "demo_raw = PDict [(''pools'', PList [PDict [(''name'', PStr ''cpu''), (''members'', PDict
     [(''anl'', PDict [(''endpoint_name'', PStr ''ep1''), (''queue'', PStr ''debug''),
        (''default_size'', PStr ''s''), (''pilot'', PStr ''endpoint''),
        (''budget'', PDict [(''node_hours'', PFloat (Fin 10))]),
        (''pilot_sizes'', PDict [(''s'', PDict [(''nodes'', PInt 2), (''cpus_per_node'', PInt 8),
           (''rhapsody_backend'', PStr ''dask'')])])])])]])]"

definition demo_member :: pool_member where
  "demo_member = \<lparr>pm_member_id = ''anl'', pm_endpoint_name = ''ep1'', pm_queue = ''debug'', pm_account = None,
     pm_pilot_sizes = [(''s'', \<lparr>ps_nodes = 2, ps_cpus_per_node = 8, ps_rhapsody_backend = ''dask'',
       ps_gpus_per_node = 0, ps_walltime_sec = 3600\<rparr>)],
     pm_default_size = ''s'', pm_min_pilots = 1, pm_max_pilots = 1, pm_scratch_base = None,
     pm_shared_fs = True, pm_attributes = [], pm_budget = [(''node_hours'', Fin 10)],
     pm_pilot = PILOT_ENDPOINT, pm_end_time = None\<rparr>"

definition demo_config :: pool_config where
  "demo_config = \<lparr>pc_name = ''cpu'', pc_queue = ''debug'', pc_account = None,
     pc_pilot_sizes = pm_pilot_sizes demo_member, pc_default_size = ''s'',
     pc_endpoint_name = Some ''ep1'', pc_min_pilots = 1, pc_max_pilots = 1, pc_scratch_base = None,
     pc_strategy = ''conservative'', pc_strategy_config = [], pc_pool_class = '''',
     pc_members = [(''anl'', demo_member)], pc_multi_member = True\<rparr>"

lemma parse_demo: "parse_pools (\<lambda>_ _. True) [] False demo_raw = Inr [(''cpu'', demo_config)]"
  by code_simp

theorem parsed_pool_replays_witness:
  "pool_config_from_dict (\<lambda>_ _. True) [] (PDict (config_to_dict demo_config)) = Inr demo_config"
  by (rule parsed_pool_replays [OF parse_demo]) simp

text \<open>The parser's post-conditions: an accepted class pool has distinct, well-named members, each with
  a floor not above its ceiling, a ceiling of at least one, its default size in its menu and every
  size positive; a member whose endpoint is the pilot has exactly one pilot; and on the declaration
  path the pool has a member at all.\<close>

theorem parsed_pool_members:
  assumes "parse_pools custom reg allow raw = Inr pools" and "(k, c) \<in> set pools"
    and "pc_multi_member c" and "(mid, m) \<in> set (pc_members c)"
  shows "mid = pm_member_id m \<and> dget (pc_members c) mid = Some m \<and> member_re mid \<and>
    0 \<le> pm_min_pilots m \<and> pm_min_pilots m \<le> pm_max_pilots m \<and> 1 \<le> pm_max_pilots m \<and>
    (\<exists>s. dget (pm_pilot_sizes m) (pm_default_size m) = Some s \<and> size_wf s) \<and>
    (pm_pilot m = PILOT_ENDPOINT \<longrightarrow> pm_min_pilots m = 1 \<and> pm_max_pilots m = 1)"
proof -
  have "config_wf custom reg c" using parse_pools_wf [OF assms(1,2)] by simp
  then have ms: "members_wf (pc_name c) (pc_members c)" using assms(3) by (simp add: config_wf_def)
  then have m: "mid = pm_member_id m" "member_wf (pc_name c) m" "dict_ok (pc_members c)"
    using assms(4) by (auto simp: members_wf_def)
  obtain s where s: "dget (pm_pilot_sizes m) (pm_default_size m) = Some s"
    using m(2) by (auto simp: member_wf_def sizes_wf_def dhas_def)
  then have "size_wf s" using m(2) by (auto simp: member_wf_def sizes_wf_def dest: map_of_SomeD)
  moreover have "pm_pilot m = PILOT_ENDPOINT \<longrightarrow> pm_min_pilots m = 1 \<and> pm_max_pilots m = 1"
    using m(2) member_post_init_sel(10,11) [of m] by (auto simp: member_wf_def)
  ultimately show ?thesis
    using m s dict_ok_dget [OF m(3), of mid m] assms(4) by (auto simp: member_wf_def)
qed

theorem parsed_pool_members_witness:
  "pm_min_pilots demo_member = 1 \<and> pm_max_pilots demo_member = 1 \<and>
   dget (pc_members demo_config) ''anl'' = Some demo_member"
  using parsed_pool_members [OF parse_demo, of "''cpu''" demo_config "''anl''" demo_member]
  by (simp add: demo_config_def demo_member_def)

text \<open>The member parser accepts an attribute map the matcher cannot read: with a number for
  \<open>software\<close> the declaration passes, and judging a task that asks for software raises a
  \<open>TypeError\<close> instead of rejecting the member.\<close>

theorem parsed_attributes_can_raise:
  "\<exists>v m. parse_member ''cpu'' v = Inr m \<and>
     reject_reason m (Some [(''software'', PList [PStr ''gromacs''])]) = Inl TypeError"
proof -
  let ?v = "PDict [(''member_id'', PStr ''anl''), (''endpoint_name'', PStr ''ep1''), (''queue'', PStr ''debug''),
        (''default_size'', PStr ''s''), (''attributes'', PDict [(''software'', PInt 3)]),
        (''pilot_sizes'', PDict [(''s'', PDict [(''nodes'', PInt 2), (''cpus_per_node'', PInt 8),
           (''rhapsody_backend'', PStr ''dask'')])])]"
  have "rbind (parse_member ''cpu'' ?v) (\<lambda>m. Inr (reject_reason m (Some [(''software'', PList [PStr ''gromacs''])])))
      = Inr (Inl TypeError)"
    by code_simp
  then show ?thesis by (auto simp: result_simps)
qed

end
