(* ===== verification/Dispatcher_Requirements.thy ===== *)
theory Dispatcher_Requirements
  imports Dispatcher_Config
begin

text \<open>
  Per-task requirements at submit time (\<^verbatim>\<open>plugin_task_dispatcher.py\<close>, from
  \<open>child_endpoint_name\<close> to \<open>backend_kwargs\<close>): the shape check, the fit check against a pool, and
  the translation into one backend's keyword arguments.  A \<open>RequirementsError\<close> is represented by
  the rule that failed; \<open>ReqRaised\<close> is an exception the functions do not turn into one.
\<close>

section \<open>Names and errors\<close>

definition child_endpoint_name :: "string \<Rightarrow> string option \<Rightarrow> string \<Rightarrow> string" where
  "child_endpoint_name pool member_id pid =
    (case member_id of
       None \<Rightarrow> pool @ ''_'' @ pid
     | Some m \<Rightarrow> if m = '''' then pool @ ''_'' @ pid else pool @ ''_'' @ m @ ''_'' @ pid)"

datatype no_member = NoMembersRemain | FirstReason reason

datatype req_error =
    NotMapping
  | UnknownKey string
  | NotPositive string
  | BadGpus
  | BadMem
  | BadMpi
  | BadSoftware
  | BadLabels
  | CoresBelowRanks int int
  | GpusNotDivisible int int
  | PoolHasNoMembers string
  | NoMemberSatisfies no_member
  | CoresExceed int string int
  | GpusExceed int string int
  | MpiUnsupported string string
  | ReqRaised py_error

definition REQ_DEFAULTS :: dict where
  "REQ_DEFAULTS =
    [(''cores'', PInt 1), (''gpus'', PInt 0), (''mem_gb'', PInt 0), (''ranks'', PInt 1),
     (''mpi'', PBool False), (''software'', PList []), (''labels'', PDict [])]"

section \<open>The shape check\<close>

definition positive_int :: "string \<Rightarrow> dict \<Rightarrow> req_error + unit" where
  "positive_int key req = (case dget req key of
     None \<Rightarrow> Inr ()
   | Some v \<Rightarrow> guard_or (is_int v \<and> 1 \<le> int_of v) (NotPositive key))"

definition check_gpu_count :: "dict \<Rightarrow> req_error + unit" where
  "check_gpu_count req = (case dget req ''gpus'' of
     None \<Rightarrow> Inr ()
   | Some v \<Rightarrow> guard_or (is_int v \<and> 0 \<le> int_of v) BadGpus)"

definition check_mem_gb :: "dict \<Rightarrow> req_error + unit" where
  "check_mem_gb req = (case dget req ''mem_gb'' of
     None \<Rightarrow> Inr ()
   | Some v \<Rightarrow>
       if \<not> is_number v then Inl BadMem
       else (case py_isfinite v of
               Inl e \<Rightarrow> Inl (ReqRaised e)
             | Inr fin \<Rightarrow> (case num_of v of
                  None \<Rightarrow> Inl BadMem
                | Some f \<Rightarrow> guard_or (fin \<and> fle (Fin 0) f) BadMem)))"

definition check_mpi_flag :: "dict \<Rightarrow> req_error + unit" where
  "check_mpi_flag req = (case dget req ''mpi'' of None \<Rightarrow> Inr () | Some v \<Rightarrow> guard_or (is_bool v) BadMpi)"

definition check_software_list :: "dict \<Rightarrow> req_error + unit" where
  "check_software_list req = (case dget req ''software'' of
     None \<Rightarrow> Inr () | Some v \<Rightarrow> guard_or (is_str_list v) BadSoftware)"

definition check_label_map :: "dict \<Rightarrow> req_error + unit" where
  "check_label_map req = (case dget req ''labels'' of
     None \<Rightarrow> Inr ()
   | Some (PDict lb) \<Rightarrow> guard_or (list_all (\<lambda>(k, v). is_str v \<or> is_number v) lb) BadLabels
   | Some _ \<Rightarrow> Inl BadLabels)"

text \<open>\<open>'ranks'\<close> without \<open>'cores'\<close> means that many processes.\<close>

definition derive_cores :: "dict \<Rightarrow> dict" where
  "derive_cores req =
    (if \<not> dhas req ''cores'' \<and> 1 < int_of (pget_or req ''ranks'' (PInt 1))
     then dset ''cores'' (pget req ''ranks'') req else req)"

definition with_default :: "dict \<Rightarrow> string \<Rightarrow> pyval" where
  "with_default req k = pget (dmerge REQ_DEFAULTS req) k"

definition parse_requirements :: "pyval \<Rightarrow> req_error + dict" where
  "parse_requirements raw = (case raw of
     PNone \<Rightarrow> Inr []
   | PDict d \<Rightarrow>
      (case sort (filter (\<lambda>k. \<not> dhas REQ_DEFAULTS k) (map fst d)) of
         k # _ \<Rightarrow> Inl (UnknownKey k)
       | [] \<Rightarrow>
          rbind (positive_int ''cores'' d) (\<lambda>_.
          rbind (positive_int ''ranks'' d) (\<lambda>_.
          rbind (check_gpu_count d) (\<lambda>_.
          rbind (check_mem_gb d) (\<lambda>_.
          rbind (check_mpi_flag d) (\<lambda>_.
          rbind (check_software_list d) (\<lambda>_.
          rbind (check_label_map d) (\<lambda>_.
          let req = derive_cores d;
              cores = int_of (with_default req ''cores'');
              gpus = int_of (with_default req ''gpus'');
              ranks = int_of (with_default req ''ranks'')
          in if cores < ranks then Inl (CoresBelowRanks cores ranks)
             else if gpus mod ranks \<noteq> 0 then Inl (GpusNotDivisible gpus ranks)
             else Inr req))))))))
   | _ \<Rightarrow> Inl NotMapping)"

section \<open>The fit check\<close>

fun first_reason :: "pool_member list \<Rightarrow> dict \<Rightarrow> reason option \<Rightarrow> py_error + reason option" where
  "first_reason [] req first = Inr first"
| "first_reason (m # ms) req first =
    rbind (reject_reason m (Some req)) (\<lambda>r. case r of
      None \<Rightarrow> Inr None
    | Some x \<Rightarrow> first_reason ms req (case first of None \<Rightarrow> Some x | Some f \<Rightarrow> Some f))"

definition no_member_reason :: "pool_member list \<Rightarrow> dict \<Rightarrow> py_error + no_member option" where
  "no_member_reason members req =
    (if members = [] then Inr (Some NoMembersRemain)
     else rbind (first_reason members req None) (\<lambda>r. Inr (map_option FirstReason r)))"

text \<open>\<open>max(sorted(sizes), key=...)\<close>: the first key, in sorted order, with the largest value.\<close>

fun first_max :: "('k \<Rightarrow> int) \<Rightarrow> 'k \<Rightarrow> 'k list \<Rightarrow> 'k" where
  "first_max f best [] = best"
| "first_max f best (k # ks) = first_max f (if f best < f k then k else best) ks"

definition largest_size :: "(pilot_size \<Rightarrow> int) \<Rightarrow> (string \<times> pilot_size) list \<Rightarrow> string \<times> int" where
  "largest_size f sizes =
    (let val = (\<lambda>k. case dget sizes k of None \<Rightarrow> 0 | Some s \<Rightarrow> f s);
         ks = sort (map fst sizes);
         key = first_max val (hd ks) (tl ks)
     in (key, val key))"

definition check_requirements_against_pool :: "dict \<Rightarrow> pool_config \<Rightarrow> req_error + unit" where
  "check_requirements_against_pool req pool =
    (let members = dvalues (pc_members pool) in
     if members = [] then Inl (PoolHasNoMembers (pc_name pool))
     else if pc_multi_member pool then
       (case no_member_reason members req of
          Inl e \<Rightarrow> Inl (ReqRaised e)
        | Inr None \<Rightarrow> Inr ()
        | Inr (Some reason) \<Rightarrow> Inl (NoMemberSatisfies reason))
     else
       let sizes = pm_pilot_sizes (hd members);
           cores = int_of (with_default req ''cores'');
           gpus = int_of (with_default req ''gpus'')
       in if \<not> list_ex (\<lambda>s. cores \<le> ps_cpus_per_node s) (dvalues sizes) then
            (case largest_size ps_cpus_per_node sizes of (key, val) \<Rightarrow> Inl (CoresExceed cores key val))
          else if \<not> list_ex (\<lambda>s. gpus \<le> ps_gpus_per_node s) (dvalues sizes) then
            (case largest_size ps_gpus_per_node sizes of (key, val) \<Rightarrow> Inl (GpusExceed gpus key val))
          else if truthy (with_default req ''mpi'') \<and>
              list_all (\<lambda>s. ps_rhapsody_backend s \<in> set NO_MPI_BACKENDS) (dvalues sizes) then
            Inl (MpiUnsupported (pc_name pool) (hd (sort (map fst sizes))))
          else Inr ())"

text \<open>\<open>_validated_requirements\<close>: a 400 carrying the error, or any other exception.\<close>

definition validated_requirements :: "pyval \<Rightarrow> pool_config option \<Rightarrow> req_error + dict" where
  "validated_requirements raw pool =
    rbind (parse_requirements raw) (\<lambda>req. case pool of
      None \<Rightarrow> Inr req
    | Some p \<Rightarrow> rbind (check_requirements_against_pool req p) (\<lambda>_. Inr req))"

section \<open>Backend keyword arguments\<close>

text \<open>\<open>int(mem_gb * 1024 / ranks)\<close>; a float product overflows to infinity, an integer quotient raises.\<close>

definition mem_per_rank :: "pyval \<Rightarrow> int \<Rightarrow> py_error + int" where
  "mem_per_rank mem ranks = (case mem of
     PInt i \<Rightarrow> (let q = of_int (i * 1024) / of_int ranks :: rat
                in if float_limit \<le> \<bar>q\<bar> then Inl OverflowError else Inr (trunc_rat q))
   | PFloat (Fin m) \<Rightarrow> if float_limit \<le> \<bar>m * 1024\<bar> then Inl OverflowError
                       else Inr (trunc_rat (m * 1024 / of_int ranks))
   | PFloat f \<Rightarrow> int_of_float f
   | _ \<Rightarrow> Inl TypeError)"

definition when_ne :: "int \<Rightarrow> int \<Rightarrow> string \<Rightarrow> dict \<Rightarrow> dict" where
  "when_ne v dflt k out = (if v \<noteq> dflt then out @ [(k, PInt v)] else out)"

definition backend_kwargs :: "dict \<Rightarrow> string \<Rightarrow> py_error + dict" where
  "backend_kwargs req backend =
    (let ranks = int_of (with_default req ''ranks'');
         cores = int_of (with_default req ''cores'');
         gpus = int_of (with_default req ''gpus'');
         gpr = (if gpus \<noteq> 0 then [(''gpus_per_rank'', PInt (gpus div ranks))] else [])
     in if backend = ''dragon_v2'' then Inr (when_ne ranks 1 ''ranks'' [] @ gpr)
        else if backend = ''radical_pilot'' then
          rbind (mem_per_rank (with_default req ''mem_gb'') ranks) (\<lambda>mem.
            Inr (when_ne mem 0 ''mem_per_rank''
                  (when_ne (cores div ranks) 1 ''cores_per_rank'' (when_ne ranks 1 ''ranks'' []) @ gpr)))
        else if backend = ''dragon_v3'' then
          Inr (if truthy (with_default req ''mpi'')
               then when_ne ranks 1 ''ranks'' [(''type'', PStr ''mpi'')] else [])
        else if backend = ''dragon_v1'' then Inr (when_ne ranks 1 ''ranks'' [])
        else if backend = ''dask'' then
          Inr (if gpus \<noteq> 0 then [(''resources'', PDict [(''GPU'', PInt gpus)])] else [])
        else Inr [])"

section \<open>What a validated document guarantees\<close>

definition req_valid :: "dict \<Rightarrow> bool" where
  "req_valid req \<longleftrightarrow> req_typed req \<and>
     1 \<le> int_of (with_default req ''ranks'') \<and>
     int_of (with_default req ''ranks'') \<le> int_of (with_default req ''cores'') \<and>
     0 \<le> int_of (with_default req ''gpus'') \<and>
     int_of (with_default req ''ranks'') dvd int_of (with_default req ''gpus'')"

lemma dict_ok_defaults: "dict_ok REQ_DEFAULTS"
  by (simp add: dict_ok_def REQ_DEFAULTS_def)

lemma with_default_eq:
  assumes "dict_ok req"
  shows "with_default req k = (case dget req k of Some v \<Rightarrow> v | None \<Rightarrow> pget REQ_DEFAULTS k)"
  using dget_dmerge [OF assms, of REQ_DEFAULTS k]
  by (auto simp: with_default_def pget_def split: option.splits)

lemma derive_cores_ok: "dict_ok req \<Longrightarrow> dict_ok (derive_cores req)"
  by (simp add: derive_cores_def)

lemma derive_cores_get: "k \<noteq> ''cores'' \<Longrightarrow> dget (derive_cores req) k = dget req k"
  by (simp add: derive_cores_def)

lemma derive_cores_idem: "derive_cores (derive_cores req) = derive_cores req"
  by (simp add: derive_cores_def dhas_def)

lemma derive_cores_int:
  assumes "\<And>v. dget d ''cores'' = Some v \<Longrightarrow> is_int v" "\<And>v. dget d ''ranks'' = Some v \<Longrightarrow> is_int v"
    and "dget (derive_cores d) ''cores'' = Some v"
  shows "is_int v"
  using assms by (auto simp: derive_cores_def pget_def pget_or_def split: if_splits option.splits)

lemma parse_requirementsE:
  assumes "parse_requirements (PDict d) = Inr req"
  obtains "req = derive_cores d" "\<forall>k \<in> fst ` set d. dhas REQ_DEFAULTS k"
    "positive_int ''cores'' d = Inr ()" "positive_int ''ranks'' d = Inr ()"
    "check_gpu_count d = Inr ()" "check_mem_gb d = Inr ()" "check_mpi_flag d = Inr ()"
    "check_software_list d = Inr ()" "check_label_map d = Inr ()"
    "int_of (with_default req ''ranks'') \<le> int_of (with_default req ''cores'')"
    "int_of (with_default req ''gpus'') mod int_of (with_default req ''ranks'') = 0"
proof -
  from assms have "sort (filter (\<lambda>k. \<not> dhas REQ_DEFAULTS k) (map fst d)) = []"
    by (auto simp: parse_requirements_def split: list.splits)
  then have "filter (\<lambda>k. \<not> dhas REQ_DEFAULTS k) (map fst d) = []" by (simp only: sort_key_eq_Nil)
  with assms that show ?thesis
    by (auto simp: parse_requirements_def result_simps Let_def filter_empty_conv split: if_splits)
qed

lemma req_typed_parsed:
  assumes "parse_requirements (PDict d) = Inr req"
  shows "req_typed req"
  using assms
proof (rule parse_requirementsE, goal_cases)
  case 1
  have ints: "\<And>v. dget d ''cores'' = Some v \<Longrightarrow> is_int v" "\<And>v. dget d ''ranks'' = Some v \<Longrightarrow> is_int v"
      "\<And>v. dget d ''gpus'' = Some v \<Longrightarrow> is_int v"
    using 1 by (auto simp: positive_int_def check_gpu_count_def result_simps)
  have "\<And>v. dget d ''mem_gb'' = Some v \<Longrightarrow> is_number v"
    using 1 by (auto simp: check_mem_gb_def result_simps split: if_splits)
  moreover have "\<And>v. dget d ''mpi'' = Some v \<Longrightarrow> is_bool v"
    using 1 by (auto simp: check_mpi_flag_def result_simps)
  moreover have "\<And>v. dget d ''software'' = Some v \<Longrightarrow> is_str_list v"
    using 1 by (auto simp: check_software_list_def result_simps)
  moreover have "\<And>v. dget d ''labels'' = Some v \<Longrightarrow> \<exists>x. v = PDict x"
    using 1 by (auto simp: check_label_map_def result_simps split: pyval.splits)
  ultimately show ?case
    using ints derive_cores_int [OF ints(1,2)] 1(1) by (auto simp: req_typed_def derive_cores_get)
qed

lemma int_default:
  assumes "dict_ok req"
  shows "with_default req ''ranks'' = pget_or req ''ranks'' (PInt 1)"
    "with_default req ''gpus'' = pget_or req ''gpus'' (PInt 0)"
    "with_default req ''cores'' = pget_or req ''cores'' (PInt 1)"
  using assms by (auto simp: with_default_eq REQ_DEFAULTS_def pget_def pget_or_def split: option.splits)

lemma req_valid_parsed:
  assumes "parse_requirements (PDict d) = Inr req" "dict_ok d"
  shows "req_valid req \<and> dict_ok req"
proof -
  have ok: "dict_ok req"
    using assms by (auto elim!: parse_requirementsE simp: derive_cores_ok)
  have "1 \<le> int_of (with_default req ''ranks'')" "0 \<le> int_of (with_default req ''gpus'')"
    using assms(1) unfolding int_default [OF ok]
    by (auto elim!: parse_requirementsE simp: pget_or_def derive_cores_get positive_int_def
        check_gpu_count_def result_simps split: option.splits)
  then show ?thesis using assms(1) ok req_typed_parsed [OF assms(1)]
    by (auto elim!: parse_requirementsE simp: req_valid_def)
qed

lemma positive_int_derived:
  assumes "positive_int ''cores'' d = Inr ()" "positive_int ''ranks'' d = Inr ()"
  shows "positive_int ''cores'' (derive_cores d) = Inr ()"
  using assms by (auto simp: positive_int_def derive_cores_def dhas_def pget_def pget_or_def result_simps
      split: option.splits if_splits)

lemma parse_requirements_idem:
  assumes "parse_requirements (PDict d) = Inr req"
  shows "parse_requirements (PDict req) = Inr req"
  using assms
proof (rule parse_requirementsE, goal_cases)
  case p: 1
  have "fst ` set req \<subseteq> insert ''cores'' (fst ` set d)"
    unfolding p(1) derive_cores_def by (auto simp: dom_update)
  moreover have "\<forall>k \<in> insert ''cores'' (fst ` set d). dhas REQ_DEFAULTS k"
    using p(2) by (simp add: REQ_DEFAULTS_def dhas_def)
  ultimately have "\<forall>k \<in> fst ` set req. dhas REQ_DEFAULTS k" by (meson subsetD)
  then have none: "filter (\<lambda>k. \<not> dhas REQ_DEFAULTS k) (map fst req) = []"
    by (auto simp: filter_empty_conv)
  have same: "check_gpu_count req = Inr ()" "check_mem_gb req = Inr ()"
      "check_mpi_flag req = Inr ()" "check_software_list req = Inr ()"
      "check_label_map req = Inr ()" "positive_int ''ranks'' req = Inr ()"
    using p(4-9) by (simp_all add: p(1) check_gpu_count_def check_mem_gb_def check_mpi_flag_def
        check_software_list_def check_label_map_def positive_int_def derive_cores_get)
  have cores: "positive_int ''cores'' req = Inr ()" and idem: "derive_cores req = req"
    using positive_int_derived [OF p(3,4)] derive_cores_idem [of d] by (simp_all add: p(1))
  show ?case
    using p(10,11) by (simp add: parse_requirements_def none same cores idem Let_def)
qed

lemma first_reason_None:
  assumes "first_reason ms req first = Inr None"
  shows "ms = [] \<and> first = None \<or> (\<exists>m \<in> set ms. reject_reason m (Some req) = Inr None)"
  using assms
proof (induction ms arbitrary: first)
  case (Cons m ms)
  then obtain r where r: "reject_reason m (Some req) = Inr r" by (auto simp: result_simps)
  show ?case
  proof (cases r)
    case (Some x)
    let ?f = "case first of None \<Rightarrow> Some x | Some f \<Rightarrow> Some f"
    have "first_reason ms req ?f = Inr None" using Cons.prems r Some by simp
    from Cons.IH [OF this] show ?thesis by (auto split: option.splits)
  qed (use r in auto)
qed simp

lemma first_reason_accepts:
  assumes "\<forall>m \<in> set ms. \<exists>r. reject_reason m (Some req) = Inr r"
    and "\<exists>m \<in> set ms. reject_reason m (Some req) = Inr None"
  shows "first_reason ms req first = Inr None"
  using assms
proof (induction ms arbitrary: first)
  case (Cons m ms)
  then obtain r where r: "reject_reason m (Some req) = Inr r" by auto
  show ?case
  proof (cases r)
    case (Some x)
    then have "\<exists>m \<in> set ms. reject_reason m (Some req) = Inr None" using Cons.prems r by auto
    with Cons.IH Cons.prems(1) r Some show ?thesis by simp
  qed (use r in simp)
qed simp

lemma largest_attained:
  assumes "sizes \<noteq> []"
  shows "fst (largest_size f sizes) \<in> fst ` set sizes"
proof -
  have in_list: "first_max v b ks \<in> insert b (set ks)" for v :: "string \<Rightarrow> int" and b ks
    by (induction v b ks rule: first_max.induct) auto
  let ?ks = "sort (map fst sizes)"
  have ne: "?ks \<noteq> []" using assms by (simp only: sort_key_eq_Nil) simp
  then have "insert (hd ?ks) (set (tl ?ks)) = set ?ks" by (cases ?ks) auto
  also have "\<dots> = fst ` set sizes" by simp
  finally show ?thesis using in_list unfolding largest_size_def Let_def fst_conv by metis
qed

section \<open>Properties\<close>

text \<open>A requirements document that passes the shape check is one every later step can rely on: its
  values have the types the matcher and the backends read, \<open>cores >= ranks >= 1\<close>, the GPUs divide
  evenly over the ranks, and validating it again changes nothing.\<close>

theorem parsed_requirements_valid:
  assumes "parse_requirements (PDict d) = Inr req" and "dict_ok d"
  shows "req_valid req \<and> parse_requirements (PDict req) = Inr req"
  using req_valid_parsed [OF assms] parse_requirements_idem [OF assms(1)] by simp

theorem parsed_requirements_valid_witness:
  "req_valid [(''ranks'', PInt 4), (''gpus'', PInt 8), (''cores'', PInt 4)]"
  using parsed_requirements_valid [of "[(''ranks'', PInt 4), (''gpus'', PInt 8)]"
      "[(''ranks'', PInt 4), (''gpus'', PInt 8), (''cores'', PInt 4)]"]
  by (simp add: dict_ok_def parse_requirements_def REQ_DEFAULTS_def dhas_def positive_int_def
      check_gpu_count_def check_mem_gb_def check_mpi_flag_def check_software_list_def
      check_label_map_def guard_or_def derive_cores_def with_default_def dmerge_def pget_def
      pget_or_def Let_def)

text \<open>The submit gate of a class pool is the growth test of the policy: a document passes it exactly
  when some member, judged on its attributes and its default size, would be a candidate to grow,
  provided no member's attribute map makes the matcher raise.\<close>

theorem class_gate_iff_candidate:
  assumes "pc_multi_member pool" and "pc_members pool \<noteq> []"
    and "\<forall>m \<in> set (dvalues (pc_members pool)). \<exists>r. reject_reason m (Some req) = Inr r"
  shows "check_requirements_against_pool req pool = Inr () \<longleftrightarrow>
    (\<exists>m \<in> set (dvalues (pc_members pool)). reject_reason m (Some req) = Inr None)"
proof -
  let ?ms = "dvalues (pc_members pool)"
  have ne: "?ms \<noteq> []" using assms(2) by simp
  have "check_requirements_against_pool req pool = Inr () \<longleftrightarrow> first_reason ?ms req None = Inr None"
    using assms(1) ne by (cases "first_reason ?ms req None")
      (auto simp: check_requirements_against_pool_def no_member_reason_def Let_def split: option.splits)
  also have "\<dots> \<longleftrightarrow> (\<exists>m \<in> set ?ms. reject_reason m (Some req) = Inr None)"
    using first_reason_None [of ?ms req None] first_reason_accepts [OF assms(3)] ne by blast
  finally show ?thesis .
qed

lemma demo_accepts: "reject_reason demo_member (Some [(''cores'', PInt 8)]) = Inr None"
  by (simp add: reject_reason_def demo_member_def size_shape_def satisfies_def andthen_def
      check_software_def check_cores_def check_gpus_def check_mem_def check_labels_def check_mpi_def
      get_or_def pget_def Let_def)

theorem class_gate_iff_candidate_witness:
  "check_requirements_against_pool [(''cores'', PInt 8)] demo_config = Inr ()"
  using class_gate_iff_candidate [of demo_config "[(''cores'', PInt 8)]"] demo_accepts
  by (simp add: demo_config_def)

text \<open>What the backends are told adds up to what was asked: on the two backends that take a GPU share
  per rank, the emitted (or defaulted) rank count is the requested one and ranks times share is
  exactly the requested number of GPUs; a core share is at least one and the shares fit the
  requested cores.\<close>

theorem backend_kwargs_exact:
  assumes "req_valid req" and "backend \<in> {''dragon_v2'', ''radical_pilot''}"
    and "backend_kwargs req backend = Inr out"
  shows "pget_or out ''ranks'' (PInt 1) = PInt (int_of (with_default req ''ranks'')) \<and>
    int_of (with_default req ''ranks'') * int_of (pget_or out ''gpus_per_rank'' (PInt 0)) =
      int_of (with_default req ''gpus'') \<and>
    1 \<le> int_of (pget_or out ''cores_per_rank'' (PInt 1)) \<and>
    int_of (with_default req ''ranks'') * int_of (pget_or out ''cores_per_rank'' (PInt 1)) \<le>
      int_of (with_default req ''cores'')"
proof -
  define R where "R = int_of (with_default req ''ranks'')"
  define C where "C = int_of (with_default req ''cores'')"
  define G where "G = int_of (with_default req ''gpus'')"
  have v: "1 \<le> R" "R \<le> C" "R dvd G" using assms(1) by (auto simp: req_valid_def R_def C_def G_def)
  have share: "1 \<le> C div R" "R * (C div R) \<le> C"
    using v by (simp_all add: pos_imp_zdiv_pos_iff int_one_le_iff_zero_less)
      (metis minus_mod_eq_mult_div mod_int_pos_iff diff_le_eq le_add_same_cancel1 zero_less_one order_less_le_trans)
  have gpu: "R * (G div R) = G" using v(3) by simp
  show ?thesis
    using assms(2,3) share gpu v
    unfolding R_def [symmetric] C_def [symmetric] G_def [symmetric] backend_kwargs_def Let_def
    by (auto simp: result_simps when_ne_def pget_or_def)
qed

theorem backend_kwargs_exact_witness:
  "pget_or [(''ranks'', PInt 2), (''gpus_per_rank'', PInt 3)] ''ranks'' (PInt 1) = PInt 2 \<and>
   backend_kwargs [(''ranks'', PInt 2), (''gpus'', PInt 6), (''cores'', PInt 4)] ''dragon_v2'' =
     Inr [(''ranks'', PInt 2), (''gpus_per_rank'', PInt 3)]"
proof -
  have "backend_kwargs [(''ranks'', PInt 2), (''gpus'', PInt 6), (''cores'', PInt 4)] ''dragon_v2'' =
     Inr [(''ranks'', PInt 2), (''gpus_per_rank'', PInt 3)]"
    by (simp add: backend_kwargs_def with_default_def dmerge_def REQ_DEFAULTS_def pget_def when_ne_def Let_def)
  moreover have "req_valid [(''ranks'', PInt 2), (''gpus'', PInt 6), (''cores'', PInt 4)]"
    by (simp add: req_valid_def req_typed_def with_default_def dmerge_def REQ_DEFAULTS_def pget_def)
  ultimately show ?thesis
    using backend_kwargs_exact [of "[(''ranks'', PInt 2), (''gpus'', PInt 6), (''cores'', PInt 4)]" "''dragon_v2''"]
    by (simp add: with_default_def dmerge_def REQ_DEFAULTS_def pget_def)
qed

text \<open>The fit gate of a legacy pool compares each dimension with every size on its own, so it admits a
  task that no single size of the pool can run.\<close>

theorem legacy_gate_admits_unplaceable:
  "\<exists>pool req. \<not> pc_multi_member pool \<and> config_wf (\<lambda>_ _. True) [] pool \<and> req_valid req \<and>
     check_requirements_against_pool req pool = Inr () \<and>
     \<not> list_ex (\<lambda>s. satisfies (Some req) None (Some (size_shape s)) = Inr None) (dvalues (pc_pilot_sizes pool))"
proof -
  let ?sz = "[(''cpu'', \<lparr>ps_nodes = 1, ps_cpus_per_node = 8, ps_rhapsody_backend = ''dask'',
       ps_gpus_per_node = 0, ps_walltime_sec = 3600\<rparr>),
     (''gpu'', \<lparr>ps_nodes = 1, ps_cpus_per_node = 1, ps_rhapsody_backend = ''dask'',
       ps_gpus_per_node = 4, ps_walltime_sec = 3600\<rparr>)]"
  let ?pool = "(default_pool_config ''debug'')\<lparr>pc_pilot_sizes := ?sz, pc_default_size := ''cpu'',
     pc_members := []\<rparr>"
  let ?req = "[(''cores'', PInt 8), (''gpus'', PInt 4)]"
  have "config_wf (\<lambda>_ _. True) [] (config_post_init ?pool)" by code_simp
  moreover have "req_valid ?req"
    by (simp add: req_valid_def req_typed_def with_default_def dmerge_def REQ_DEFAULTS_def pget_def)
  moreover have "check_requirements_against_pool ?req (config_post_init ?pool) = Inr ()" by code_simp
  moreover have "\<not> list_ex (\<lambda>s. satisfies (Some ?req) None (Some (size_shape s)) = Inr None)
      (dvalues (pc_pilot_sizes (config_post_init ?pool)))" by code_simp
  moreover have "\<not> pc_multi_member (config_post_init ?pool)" by code_simp
  ultimately show ?thesis by blast
qed

end
