(* ===== verification/Pool_State.thy ===== *)
theory Pool_State
  imports Dispatcher_State Dispatcher_Requirements
begin

text \<open>
  \<open>PoolState\<close> of \<^verbatim>\<open>plugin_task_dispatcher.py\<close>: the live pool with its configuration, pilots,
  tasks, policy object and input spool, the read surface a policy sees, and the idle probe of the
  owning session.  The spool maps a task id to the names of the files held for it.
\<close>

section \<open>The record\<close>

record pool_state =
  pl_config :: pool_config
  pl_scratch_base :: string
  pl_owning_sid :: string
  pl_pilots :: "(string \<times> pilot_record) list"
  pl_tasks :: "(string \<times> task_record) list"
  pl_policy :: policy
  pl_spool :: "(string \<times> string list) list"

text \<open>The snapshot of a pilot record written before sizes were recorded is completed from its member.\<close>

definition backfill_pilot :: "pool_config \<Rightarrow> pilot_record \<Rightarrow> pilot_record" where
  "backfill_pilot cfg p =
    (if p_adopted p then p
     else case dget (pc_members cfg) (p_member_id p) of
       None \<Rightarrow> p
     | Some m \<Rightarrow>
        let p1 = (case dget (pm_pilot_sizes m) (p_size_key p) of
              Some s \<Rightarrow> if p_cpus_per_node p = 0
                 then p\<lparr>p_nodes := ps_nodes s, p_cpus_per_node := ps_cpus_per_node s,
                        p_gpus_per_node := ps_gpus_per_node s\<rparr> else p
            | None \<Rightarrow> p)
        in if p_endpoint_name p1 = '''' then p1\<lparr>p_endpoint_name := pm_endpoint_name m\<rparr> else p1)"

datatype load_error = LoadDecode decode_error | LoadConfig config_error | LoadRaised py_error

definition new_pool_state ::
  "(string \<Rightarrow> dict \<Rightarrow> bool) \<Rightarrow> registry \<Rightarrow> pool_config \<Rightarrow> string \<Rightarrow> string \<Rightarrow> pyval \<Rightarrow> load_error + pool_state" where
  "new_pool_state custom reg cfg scratch sid payload =
    (case payload of PDict d \<Rightarrow>
     (case records_from pilot_from_dict (pget d ''pilots'') of Inl e \<Rightarrow> Inl (LoadDecode e)
     | Inr pilots \<Rightarrow> (case records_from task_from_dict (pget d ''tasks'') of Inl e \<Rightarrow> Inl (LoadDecode e)
     | Inr tasks \<Rightarrow> (case make_policy custom reg cfg of Inl e \<Rightarrow> Inl (LoadConfig e)
     | Inr pol \<Rightarrow> Inr \<lparr>pl_config = cfg, pl_scratch_base = scratch, pl_owning_sid = sid,
          pl_pilots = dmap_values (backfill_pilot cfg) pilots, pl_tasks = tasks, pl_policy = pol,
          pl_spool = []\<rparr>)))
     | _ \<Rightarrow> Inl (LoadRaised AttributeError))"

section \<open>The read surface\<close>

definition queue_key :: "task_record \<Rightarrow> int \<times> rat" where
  "queue_key t = (- t_priority t, t_arrival_ts t)"

definition pending_queue :: "pool_state \<Rightarrow> task_record list" where
  "pending_queue ps = sort_key queue_key (filter (\<lambda>t. t_state t = TASK_QUEUED) (dvalues (pl_tasks ps)))"

definition live_pilots :: "pool_state \<Rightarrow> pilot_record list" where
  "live_pilots ps = filter (\<lambda>p. p_state p \<in> set PILOT_LIVE_STATES) (dvalues (pl_pilots ps))"

definition pool_members :: "pool_state \<Rightarrow> pool_member list" where
  "pool_members ps = dvalues (pc_members (pl_config ps))"

definition pool_member_of :: "pool_state \<Rightarrow> string \<Rightarrow> pool_member option" where
  "pool_member_of ps mid = config_member (pl_config ps) mid"

definition live_pilots_for :: "pool_state \<Rightarrow> string \<Rightarrow> pilot_record list" where
  "live_pilots_for ps mid = filter (\<lambda>p. p_member_id p = mid) (live_pilots ps)"

definition pilot_history :: "pool_state \<Rightarrow> string option \<Rightarrow> pilot_record list" where
  "pilot_history ps mid = sort_key p_submitted_at
    (case mid of None \<Rightarrow> dvalues (pl_pilots ps)
     | Some m \<Rightarrow> filter (\<lambda>p. p_member_id p = m) (dvalues (pl_pilots ps)))"

definition member_budget_left :: "pool_state \<Rightarrow> string \<Rightarrow> rat \<Rightarrow> pyfloat option" where
  "member_budget_left ps mid now = (case pool_member_of ps mid of
     None \<Rightarrow> None
   | Some m \<Rightarrow> (case dget (pm_budget m) ''node_hours'' of
        None \<Rightarrow> None
      | Some tot \<Rightarrow> if \<not> ftruthy tot then None
          else Some (fsub tot (Fin (node_hours (pilot_history ps (Some mid)) now)))))"

definition size_of :: "pilot_record \<Rightarrow> pilot_size" where
  "size_of p = \<lparr>ps_nodes = p_nodes p, ps_cpus_per_node = p_cpus_per_node p,
     ps_rhapsody_backend = p_rhapsody_backend p, ps_gpus_per_node = p_gpus_per_node p,
     ps_walltime_sec = 3600\<rparr>"

text \<open>The view of a pilot record the matcher reads when it is passed as the size.\<close>

definition pilot_shape :: "pilot_record \<Rightarrow> shape" where
  "pilot_shape p = size_shape (size_of p)"

definition serves :: "task_record \<Rightarrow> pilot_record \<Rightarrow> py_error + bool" where
  "serves t p = rbind (satisfies (Some (t_requirements t)) (Some (p_attributes p)) (Some (pilot_shape p)))
     (\<lambda>r. Inr (r = None))"

section \<open>Spool and persistence\<close>

definition drop_spool :: "string \<Rightarrow> pool_state \<Rightarrow> pool_state" where
  "drop_spool tid ps = ps\<lparr>pl_spool := dpop tid (pl_spool ps)\<rparr>"

definition saved_pool_of :: "pool_state \<Rightarrow> saved_pool" where
  "saved_pool_of ps = \<lparr>sv_owning_sid = pl_owning_sid ps, sv_config = config_to_dict (pl_config ps),
     sv_pilots = pl_pilots ps, sv_tasks = pl_tasks ps\<rparr>"

definition close_pool :: "pool_state \<Rightarrow> pool_state" where
  "close_pool ps = ps\<lparr>pl_spool := []\<rparr>"

section \<open>The idle probe\<close>

definition QUEUE_WAIT_MAX :: rat where
  "QUEUE_WAIT_MAX = 7 * 86400"

definition pool_running :: "pool_state \<Rightarrow> bool" where
  "pool_running ps = list_ex (\<lambda>t. t_state t = TASK_RUNNING) (dvalues (pl_tasks ps))"

definition pool_waiting :: "pool_state \<Rightarrow> bool" where
  "pool_waiting ps \<longleftrightarrow> list_ex (\<lambda>t. t_state t = TASK_QUEUED) (dvalues (pl_tasks ps)) \<and>
     list_ex (\<lambda>p. p_state p \<in> {PILOT_PENDING, PILOT_STARTING}) (dvalues (pl_pilots ps))"

text \<open>\<open>is_busy\<close>: the answer and the new \<open>_stalled_since\<close>.\<close>

definition is_busy :: "pool_state list \<Rightarrow> rat \<Rightarrow> rat option \<Rightarrow> bool \<times> rat option" where
  "is_busy pools now stalled =
    (if list_ex pool_running pools then (True, None)
     else if \<not> list_ex pool_waiting pools then (False, None)
     else let since = (case stalled of None \<Rightarrow> now | Some s \<Rightarrow> s)
          in (now - since < QUEUE_WAIT_MAX, Some since))"

section \<open>Lemmas\<close>

lemma pending_queue_iff:
  "t \<in> set (pending_queue ps) \<longleftrightarrow> t \<in> set (dvalues (pl_tasks ps)) \<and> t_state t = TASK_QUEUED"
  by (auto simp: pending_queue_def)

lemma live_pilots_iff:
  "p \<in> set (live_pilots ps) \<longleftrightarrow> p \<in> set (dvalues (pl_pilots ps)) \<and> \<not> pilot_is_terminal p"
  by (auto simp: live_pilots_def pilot_is_terminal_def pilot_live_iff)

lemma pending_queue_sorted: "sorted (map queue_key (pending_queue ps))"
  by (simp add: pending_queue_def)

lemma pending_queue_idem:
  "sort_key queue_key (filter (\<lambda>t. t_state t = TASK_QUEUED) (pending_queue ps)) = pending_queue ps"
proof -
  have "filter (\<lambda>t. t_state t = TASK_QUEUED) (pending_queue ps) = pending_queue ps"
    by (auto simp: filter_id_conv pending_queue_iff)
  then show ?thesis by (simp add: sort_key_idem pending_queue_sorted)
qed

text \<open>A node-hour budget only shrinks: reading it later never shows more left.\<close>

lemma budget_left_antimono:
  assumes "\<forall>p \<in> set (dvalues (pl_pilots ps)). 0 \<le> p_nodes p" "now \<le> now'"
    and "member_budget_left ps mid now = Some (Fin a)" "member_budget_left ps mid now' = Some (Fin b)"
  shows "b \<le> a"
proof -
  let ?h = "pilot_history ps (Some mid)"
  have "\<forall>p \<in> set ?h. 0 \<le> p_nodes p" using assms(1) by (auto simp: pilot_history_def)
  then have "node_hours ?h now \<le> node_hours ?h now'" using node_hours_mono assms(2) by blast
  moreover obtain m tot where "pool_member_of ps mid = Some m" "dget (pm_budget m) ''node_hours'' = Some tot"
      "fsub tot (Fin (node_hours ?h now)) = Fin a" "fsub tot (Fin (node_hours ?h now')) = Fin b"
    using assms(3,4) by (auto simp: member_budget_left_def split: option.splits if_splits)
  ultimately show ?thesis by (cases tot) (auto simp: fsub_def)
qed

lemma backfill_keeps:
  "p_pid (backfill_pilot cfg p) = p_pid p" "p_state (backfill_pilot cfg p) = p_state p"
  "p_in_flight (backfill_pilot cfg p) = p_in_flight p" "p_capacity (backfill_pilot cfg p) = p_capacity p"
  by (auto simp: backfill_pilot_def Let_def split: option.splits)

text \<open>The idle probe keeps an abandoned session alive only for a bounded time: once queued work has
  been seen stalled and nothing runs in any later probe, the session stops counting as busy
  \<open>QUEUE_WAIT_MAX\<close> seconds after the first such probe; a running task always keeps it busy and
  clears the stall clock.\<close>

theorem stalled_session_expires:
  assumes "\<not> list_ex pool_running pools" and "stalled = Some s" and "s + QUEUE_WAIT_MAX \<le> now"
  shows "fst (is_busy pools now stalled) = False \<and>
    (\<forall>pools'. list_ex pool_running pools' \<longrightarrow> is_busy pools' now stalled = (True, None)) \<and>
    (snd (is_busy pools now stalled) = Some s \<or> snd (is_busy pools now stalled) = None)"
  using assms by (auto simp: is_busy_def Let_def)

theorem stalled_session_expires_witness:
  "fst (is_busy [] (8 * 86400) (Some 0)) = False"
  using stalled_session_expires [of "[]" "Some 0" 0 "8 * 86400"] by (simp add: QUEUE_WAIT_MAX_def)

end
