(* ===== verification/Dispatcher_Policy.thy ===== *)
theory Dispatcher_Policy
  imports Pool_State
begin

text \<open>
  The dispatch policies: the inert base class of \<^verbatim>\<open>task_dispatcher_policy.py\<close> and the methods of
  \<open>ConservativePolicy\<close> (\<^verbatim>\<open>task_dispatcher_strategy_conservative.py\<close>) over the read surface of a
  pool.  The clock is an argument.  The locale \<open>dispatch_policy\<close> is the part of the
  \<open>DispatchPolicy\<close> contract the dispatcher's drain loop depends on.
\<close>

section \<open>Signals\<close>

definition conservative_on_pilot_state ::
  "rat \<Rightarrow> pilot_record \<Rightarrow> pilot_state \<Rightarrow> pilot_state \<Rightarrow> conservative \<Rightarrow> conservative" where
  "conservative_on_pilot_state now p old new c =
    (let mid = p_member_id p in
     if new = PILOT_ACTIVE then
       c\<lparr>c_consecutive_failures := dset mid 0 (c_consecutive_failures c),
         c_backoff_until := dset mid (Fin 0) (c_backoff_until c),
         c_backoff_logged := dset mid False (c_backoff_logged c)\<rparr>
     else if new = PILOT_FAILED \<and> old \<in> {PILOT_PENDING, PILOT_STARTING} \<and> p_started_tasks p = 0 then
       let fails = (case dget (c_consecutive_failures c) mid of None \<Rightarrow> 0 | Some n \<Rightarrow> n) + 1;
           c1 = c\<lparr>c_consecutive_failures := dset mid fails (c_consecutive_failures c)\<rparr>
       in if c_max_consecutive_failures c \<le> fails
          then c1\<lparr>c_backoff_until := dset mid (fadd (Fin now) (c_failure_backoff_sec c)) (c_backoff_until c),
                  c_backoff_logged := dset mid False (c_backoff_logged c)\<rparr>
          else c1
     else c)"

definition backoff_until :: "conservative \<Rightarrow> string \<Rightarrow> pyfloat" where
  "backoff_until c mid = (case dget (c_backoff_until c) mid of None \<Rightarrow> Fin 0 | Some t \<Rightarrow> t)"

definition failures_of :: "conservative \<Rightarrow> string \<Rightarrow> int" where
  "failures_of c mid = (case dget (c_consecutive_failures c) mid of None \<Rightarrow> 0 | Some n \<Rightarrow> n)"

definition member_health :: "rat \<Rightarrow> string \<Rightarrow> conservative \<Rightarrow> int \<times> pyfloat option" where
  "member_health now mid c =
    (failures_of c mid, let until = backoff_until c mid in if flt (Fin now) until then Some until else None)"

definition on_member_removed :: "string \<Rightarrow> conservative \<Rightarrow> conservative" where
  "on_member_removed mid c =
    c\<lparr>c_last_submit_ts := dpop mid (c_last_submit_ts c),
      c_consecutive_failures := dpop mid (c_consecutive_failures c),
      c_backoff_until := dpop mid (c_backoff_until c),
      c_backoff_logged := dpop mid (c_backoff_logged c)\<rparr>"

section \<open>Member helpers\<close>

definition in_backoff :: "conservative \<Rightarrow> string \<Rightarrow> rat \<Rightarrow> bool \<times> conservative" where
  "in_backoff c mid now =
    (if fle (backoff_until c mid) (Fin now) then (False, c)
     else (True, if dget (c_backoff_logged c) mid = Some True then c
                 else c\<lparr>c_backoff_logged := dset mid True (c_backoff_logged c)\<rparr>))"

definition has_runway :: "conservative \<Rightarrow> pilot_record \<Rightarrow> rat \<Rightarrow> bool" where
  "has_runway c p now \<longleftrightarrow> \<not> ftruthy (p_walltime_deadline p) \<or>
     fle (c_min_remaining_sec c) (fsub (p_walltime_deadline p) (Fin now))"

definition budget_fraction :: "pool_state \<Rightarrow> pool_member \<Rightarrow> rat \<Rightarrow> pyfloat" where
  "budget_fraction ps m now = (case dget (pm_budget m) ''node_hours'' of
     None \<Rightarrow> Fin 1
   | Some tot \<Rightarrow> if \<not> ftruthy tot then Fin 1
       else (case member_budget_left ps (pm_member_id m) now of
               None \<Rightarrow> Fin 1
             | Some left \<Rightarrow> clamp01 (fdiv left tot)))"

definition pre_active :: "pilot_record \<Rightarrow> bool" where
  "pre_active p \<longleftrightarrow> p_state p \<in> {PILOT_PENDING, PILOT_STARTING}"

definition last_submit :: "conservative \<Rightarrow> string \<Rightarrow> rat" where
  "last_submit c mid = (case dget (c_last_submit_ts c) mid of None \<Rightarrow> 0 | Some t \<Rightarrow> t)"

text \<open>The guards after the backoff test, which is the one that writes.\<close>

definition clears_guards :: "conservative \<Rightarrow> pool_state \<Rightarrow> rat \<Rightarrow> pool_member \<Rightarrow> bool" where
  "clears_guards c ps now m \<longleftrightarrow>
    (let mine = live_pilots_for ps (pm_member_id m) in
     int (length mine) < pm_max_pilots m \<and>
     int (length (filter pre_active mine)) < c_max_in_flight_subs c \<and>
     \<not> flt (Fin (now - last_submit c (pm_member_id m))) (c_min_dwell_sec c) \<and>
     (case member_budget_left ps (pm_member_id m) now of None \<Rightarrow> True | Some left \<Rightarrow> \<not> fle left (Fin 0)))"

fun pass_guards :: "pool_state \<Rightarrow> rat \<Rightarrow> pool_member list \<Rightarrow> conservative \<Rightarrow> pool_member list \<times> conservative" where
  "pass_guards ps now [] c = ([], c)"
| "pass_guards ps now (m # ms) c =
    (case in_backoff c (pm_member_id m) now of (paused, c1) \<Rightarrow>
     case pass_guards ps now ms c1 of (rest, c2) \<Rightarrow>
       (if \<not> paused \<and> clears_guards c ps now m then m # rest else rest, c2))"

section \<open>Scale-up\<close>

definition can_grow :: "task_record \<Rightarrow> pool_member \<Rightarrow> py_error + bool" where
  "can_grow t m = rbind (reject_reason m (Some (t_requirements t))) (\<lambda>r. Inr (r = None))"

text \<open>The members that could serve the head of the backlog; \<open>None\<close> when there is nothing to grow for.\<close>

definition backlog_candidates :: "conservative \<Rightarrow> pool_state \<Rightarrow> rat \<Rightarrow> py_error + pool_member list option" where
  "backlog_candidates c ps now =
    (let pending = pending_queue ps; live = live_pilots ps in
     if pending = [] then Inr None
     else rbind (rmap_list (\<lambda>t. rfilter (serves t) live) pending) (\<lambda>served.
       let unservable = map fst (filter (\<lambda>(t, l). l = []) (zip pending served));
           servers = set (map p_pid (concat served));
           free = sum_list (map free_capacity (filter (\<lambda>p. p_state p = PILOT_ACTIVE \<and>
                    p_pid p \<in> servers \<and> has_runway c p now) live))
       in if unservable = [] \<and> int (length pending) \<le> free then Inr None
          else let head = (case unservable of t # _ \<Rightarrow> t | [] \<Rightarrow> hd pending)
               in rbind (rfilter (can_grow head) (pool_members ps)) (\<lambda>ms. Inr (Some ms))))"

definition frac_rat :: "pyfloat \<Rightarrow> rat" where
  "frac_rat f = (case f of Fin r \<Rightarrow> r | _ \<Rightarrow> 0)"

definition rank_members :: "conservative \<Rightarrow> pool_state \<Rightarrow> rat \<Rightarrow> pool_member list \<Rightarrow> pool_member list" where
  "rank_members c ps now ms =
    (let frac = (\<lambda>m. frac_rat (budget_fraction ps m now));
         load = (\<lambda>m. length (live_pilots_for ps (pm_member_id m)))
     in if c_member_preference c = ''least_loaded''
        then sort_key (\<lambda>m. (load m, - frac m, pm_member_id m)) ms
        else sort_key (\<lambda>m. (- frac m, load m, pm_member_id m)) ms)"

definition under_floor :: "pool_state \<Rightarrow> pool_member \<Rightarrow> bool" where
  "under_floor ps m \<longleftrightarrow> int (length (live_pilots_for ps (pm_member_id m))) < pm_min_pilots m"

definition pool_ceiling :: "conservative \<Rightarrow> pool_state \<Rightarrow> int" where
  "pool_ceiling c ps = max (c_max_in_flight_subs c) (int (length (pool_members ps)))"

definition in_flight_subs :: "pool_state \<Rightarrow> int" where
  "in_flight_subs ps = int (length (filter pre_active (live_pilots ps)))"

text \<open>The decision of one tick: the member to submit for, or none.  The submission itself is the
  dispatcher's \<open>submit_pilot\<close>, called with this member.\<close>

definition tick_choice :: "conservative \<Rightarrow> pool_state \<Rightarrow> rat \<Rightarrow> (py_error + pool_member option) \<times> conservative" where
  "tick_choice c ps now =
    (if pool_members ps = [] then (Inr None, c)
     else case pass_guards ps now (filter (under_floor ps) (pool_members ps)) c of (fl, c1) \<Rightarrow>
       if fl \<noteq> [] then
         (Inr (if in_flight_subs ps < pool_ceiling c ps then Some (hd fl) else None), c1)
       else case backlog_candidates c1 ps now of
         Inl e \<Rightarrow> (Inl e, c1)
       | Inr None \<Rightarrow> (Inr None, c1)
       | Inr (Some cands) \<Rightarrow>
          (case pass_guards ps now cands c1 of (eligible, c2) \<Rightarrow>
             (Inr (if eligible \<noteq> [] \<and> in_flight_subs ps < pool_ceiling c ps
                   then Some (hd (rank_members c2 ps now eligible)) else None), c2)))"

section \<open>Placement\<close>

definition dispatchable :: "conservative \<Rightarrow> rat \<Rightarrow> pilot_record \<Rightarrow> bool" where
  "dispatchable c now p \<longleftrightarrow> p_state p = PILOT_ACTIVE \<and> 0 < free_capacity p \<and> has_runway c p now"

definition router_sort :: "conservative \<Rightarrow> pilot_record list \<Rightarrow> pilot_record list" where
  "router_sort c cands =
    (if c_router_preference c = ''youngest''
     then sort_key (\<lambda>p. (fneg (p_walltime_deadline p), p_member_id p)) cands
     else sort_key (\<lambda>p. (p_in_flight p, fneg (p_walltime_deadline p), p_member_id p)) cands)"

fun first_servable ::
  "conservative \<Rightarrow> pilot_record list \<Rightarrow> task_record list \<Rightarrow> py_error + (task_record \<times> pilot_record) option" where
  "first_servable c active [] = Inr None"
| "first_servable c active (t # ts) =
    rbind (rfilter (serves t) active) (\<lambda>cands.
      if cands = [] then first_servable c active ts
      else Inr (Some (t, hd (router_sort c cands))))"

definition conservative_pick ::
  "conservative \<Rightarrow> rat \<Rightarrow> pool_state \<Rightarrow> py_error + (task_record \<times> pilot_record) option" where
  "conservative_pick c now ps =
    (let pending = sort_key queue_key (filter (\<lambda>t. t_state t = TASK_QUEUED) (pending_queue ps));
         active = filter (dispatchable c now) (live_pilots ps)
     in if pending = [] \<or> active = [] then Inr None else first_servable c active pending)"

section \<open>The policy object\<close>

text \<open>The inert defaults, the conservative policy, and policies registered from outside, whose behaviour
  is the parameter \<open>ext\<close>.\<close>

record ext_policy =
  ext_pick :: "string \<Rightarrow> rat \<Rightarrow> pool_state \<Rightarrow> py_error + (task_record \<times> pilot_record) option"
  ext_max_requeues :: "string \<Rightarrow> int"

fun policy_pick ::
  "ext_policy \<Rightarrow> policy \<Rightarrow> rat \<Rightarrow> pool_state \<Rightarrow> py_error + (task_record \<times> pilot_record) option" where
  "policy_pick ext InertPolicy now ps = Inr None"
| "policy_pick ext (ConservativePolicy c) now ps = conservative_pick c now ps"
| "policy_pick ext (CustomPolicy n) now ps = ext_pick ext n now ps"

fun policy_max_requeues :: "ext_policy \<Rightarrow> policy \<Rightarrow> int" where
  "policy_max_requeues ext InertPolicy = 1"
| "policy_max_requeues ext (ConservativePolicy c) = c_max_requeues c"
| "policy_max_requeues ext (CustomPolicy n) = ext_max_requeues ext n"

fun policy_on_pilot_state ::
  "rat \<Rightarrow> pilot_record \<Rightarrow> pilot_state \<Rightarrow> pilot_state \<Rightarrow> policy \<Rightarrow> policy" where
  "policy_on_pilot_state now p old new (ConservativePolicy c) =
     ConservativePolicy (conservative_on_pilot_state now p old new c)"
| "policy_on_pilot_state now p old new pol = pol"

fun policy_member_health :: "rat \<Rightarrow> string \<Rightarrow> policy \<Rightarrow> int \<times> pyfloat option" where
  "policy_member_health now mid (ConservativePolicy c) = member_health now mid c"
| "policy_member_health now mid _ = (0, None)"

fun policy_on_member_removed :: "string \<Rightarrow> policy \<Rightarrow> policy" where
  "policy_on_member_removed mid (ConservativePolicy c) = ConservativePolicy (on_member_removed mid c)"
| "policy_on_member_removed mid pol = pol"

section \<open>The contract\<close>

text \<open>What the drain loop relies on: a pick is a queued task of the pool and one of its pilots that is
  active and has a free slot.\<close>

locale dispatch_policy =
  fixes pick :: "'p \<Rightarrow> rat \<Rightarrow> pool_state \<Rightarrow> py_error + (task_record \<times> pilot_record) option"
  assumes pick_sound: "pick pol now ps = Inr (Some (t, q)) \<Longrightarrow>
    t \<in> set (pending_queue ps) \<and> q \<in> set (live_pilots ps) \<and> p_state q = PILOT_ACTIVE \<and> 0 < free_capacity q"
begin

lemma pick_task: "pick pol now ps = Inr (Some (t, q)) \<Longrightarrow> t \<in> set (dvalues (pl_tasks ps)) \<and> t_state t = TASK_QUEUED"
  using pick_sound by (simp add: pending_queue_iff)

lemma pick_pilot:
  "pick pol now ps = Inr (Some (t, q)) \<Longrightarrow> q \<in> set (dvalues (pl_pilots ps)) \<and> p_accepting q \<and>
    p_in_flight q < p_capacity q"
  using pick_sound by (simp add: live_pilots_iff free_capacity_pos)

end

section \<open>Placement lemmas\<close>

lemma router_sort_set [simp]: "set (router_sort c cands) = set cands"
  by (simp add: router_sort_def)

lemma router_sort_hd: "cands \<noteq> [] \<Longrightarrow> hd (router_sort c cands) \<in> set cands"
  by (simp add: router_sort_def hd_sort_key_in)

lemma rfilter_Nil:
  assumes "rfilter f xs = Inr []" "x \<in> set xs"
  shows "f x = Inr False"
proof -
  have "filter (\<lambda>x. f x = Inr True) xs = []" "\<exists>b. f x = Inr b" using assms by (auto simp: rfilter_Inr)
  then show ?thesis using assms(2) by (auto simp: filter_empty_conv)
qed

lemma first_servable_Some:
  assumes "first_servable c active ts = Inr (Some (t, p))"
  shows "\<exists>pre suf. ts = pre @ t # suf \<and>
    (\<forall>u \<in> set pre. \<forall>q \<in> set active. serves u q = Inr False) \<and>
    p = hd (router_sort c (filter (\<lambda>q. serves t q = Inr True) active)) \<and>
    p \<in> set active \<and> serves t p = Inr True"
  using assms
proof (induction c active ts rule: first_servable.induct)
  case (2 c active u ts)
  then obtain cands where c: "rfilter (serves u) active = Inr cands" by (auto simp: result_simps)
  then have cands: "cands = filter (\<lambda>q. serves u q = Inr True) active" "\<forall>q \<in> set active. \<exists>b. serves u q = Inr b"
    by (simp_all add: rfilter_Inr)
  show ?case
  proof (cases "cands = []")
    case True
    then have none: "\<forall>q \<in> set active. serves u q = Inr False"
      using rfilter_Nil [of "serves u" active] c True by simp
    have "first_servable c active ts = Inr (Some (t, p))" using "2.prems" c True by simp
    from "2.IH" [OF True this] obtain pre suf where ps: "ts = pre @ t # suf"
      "\<forall>u \<in> set pre. \<forall>q \<in> set active. serves u q = Inr False"
      "p = hd (router_sort c (filter (\<lambda>q. serves t q = Inr True) active))"
      "p \<in> set active" "serves t p = Inr True" by blast
    show ?thesis by (rule exI [of _ "u # pre"], rule exI [of _ suf]) (use ps none in auto)
  next
    case False
    then have "t = u" "p = hd (router_sort c cands)" using "2.prems" c by auto
    then show ?thesis using cands False router_sort_hd [OF False, of c]
      by - (rule exI [of _ "[]"], rule exI [of _ ts], auto)
  qed
qed simp

lemma first_servable_None:
  assumes "first_servable c active ts = Inr None" "t \<in> set ts" "q \<in> set active"
  shows "serves t q = Inr False"
  using assms
proof (induction c active ts rule: first_servable.induct)
  case (2 c active u ts)
  then obtain cands where c: "rfilter (serves u) active = Inr cands" by (auto simp: result_simps)
  then have "cands = []" using "2.prems"(1) by (auto split: if_splits)
  with c have "\<forall>q \<in> set active. serves u q = Inr False"
    using rfilter_Nil [of "serves u" active] by simp
  then show ?case using 2 c \<open>cands = []\<close> by auto
qed simp

lemma conservative_pick_Some:
  assumes "conservative_pick c now ps = Inr (Some (t, p))"
  shows "first_servable c (filter (dispatchable c now) (live_pilots ps)) (pending_queue ps) = Inr (Some (t, p))"
  using assms by (simp add: conservative_pick_def Let_def pending_queue_idem split: if_splits)

lemma conservative_pick_in:
  assumes "conservative_pick c now ps = Inr (Some (t, p))"
  shows "t \<in> set (pending_queue ps) \<and> p \<in> set (live_pilots ps) \<and> dispatchable c now p \<and> serves t p = Inr True"
  using first_servable_Some [OF conservative_pick_Some [OF assms]] by auto

interpretation conservative_policy: dispatch_policy conservative_pick
  by unfold_locales (use conservative_pick_in in \<open>auto simp: dispatchable_def\<close>)

interpretation inert_policy: dispatch_policy "\<lambda>_ _ _. Inr None"
  by unfold_locales simp

text \<open>Policies from outside that meet the contract make the pool's policy object meet it.\<close>

locale ext_sound =
  fixes ext :: ext_policy
  assumes ext_pick_sound: "ext_pick ext n now ps = Inr (Some (t, q)) \<Longrightarrow>
    t \<in> set (pending_queue ps) \<and> q \<in> set (live_pilots ps) \<and> p_state q = PILOT_ACTIVE \<and> 0 < free_capacity q"
begin

lemma policy_pick_sound:
  assumes "policy_pick ext pol now ps = Inr (Some (t, q))"
  shows "t \<in> set (pending_queue ps) \<and> q \<in> set (live_pilots ps) \<and> p_state q = PILOT_ACTIVE \<and> 0 < free_capacity q"
proof (cases pol)
  case (ConservativePolicy c)
  then show ?thesis using assms conservative_policy.pick_sound [of c now ps t q] by simp
next
  case (CustomPolicy n)
  then show ?thesis using assms ext_pick_sound [of n now ps t q] by simp
qed (use assms in simp)

end

sublocale ext_sound \<subseteq> pool_policy: dispatch_policy "policy_pick ext"
  by unfold_locales (rule policy_pick_sound)

text \<open>A process that registers no policy of its own.\<close>

definition no_ext :: ext_policy where
  "no_ext = \<lparr>ext_pick = \<lambda>_ _ _. Inr None, ext_max_requeues = \<lambda>_. 1\<rparr>"

interpretation builtin: ext_sound no_ext
  by unfold_locales (simp add: no_ext_def)

section \<open>Scale-up lemmas\<close>

lemma in_backoff_sel:
  "fst (in_backoff c mid now) \<longleftrightarrow> \<not> fle (backoff_until c mid) (Fin now)"
  "c_backoff_until (snd (in_backoff c mid now)) = c_backoff_until c"
  "c_last_submit_ts (snd (in_backoff c mid now)) = c_last_submit_ts c"
  "c_max_in_flight_subs (snd (in_backoff c mid now)) = c_max_in_flight_subs c"
  "c_min_dwell_sec (snd (in_backoff c mid now)) = c_min_dwell_sec c"
  "c_member_preference (snd (in_backoff c mid now)) = c_member_preference c"
  by (auto simp: in_backoff_def)

lemma pass_guards_sel:
  "c_backoff_until (snd (pass_guards ps now ms c)) = c_backoff_until c"
  "c_last_submit_ts (snd (pass_guards ps now ms c)) = c_last_submit_ts c"
  "c_max_in_flight_subs (snd (pass_guards ps now ms c)) = c_max_in_flight_subs c"
  "c_min_dwell_sec (snd (pass_guards ps now ms c)) = c_min_dwell_sec c"
  by (induction ms arbitrary: c) (auto simp: split_beta in_backoff_sel)

lemma clears_guards_cong:
  assumes "c_last_submit_ts c = c_last_submit_ts c'" "c_max_in_flight_subs c = c_max_in_flight_subs c'"
    "c_min_dwell_sec c = c_min_dwell_sec c'"
  shows "clears_guards c ps now m = clears_guards c' ps now m"
  using assms by (simp add: clears_guards_def last_submit_def)

lemma backoff_until_cong: "c_backoff_until c = c_backoff_until c' \<Longrightarrow> backoff_until c mid = backoff_until c' mid"
  by (simp add: backoff_until_def)

lemma pass_guards_filter:
  "fst (pass_guards ps now ms c) =
    filter (\<lambda>m. fle (backoff_until c (pm_member_id m)) (Fin now) \<and> clears_guards c ps now m) ms"
proof (induction ms arbitrary: c)
  case (Cons m ms)
  let ?c1 = "snd (in_backoff c (pm_member_id m) now)"
  have "clears_guards ?c1 ps now u = clears_guards c ps now u" for u
    by (rule clears_guards_cong) (simp_all add: in_backoff_sel)
  moreover have "backoff_until ?c1 mid = backoff_until c mid" for mid
    by (rule backoff_until_cong) (simp add: in_backoff_sel)
  ultimately show ?case using Cons.IH [of ?c1] by (simp add: split_beta in_backoff_sel)
qed simp

lemma rank_members_hd: "ms \<noteq> [] \<Longrightarrow> hd (rank_members c ps now ms) \<in> set ms"
  by (simp add: rank_members_def Let_def hd_sort_key_in)

lemma backlog_candidates_members:
  assumes "backlog_candidates c ps now = Inr (Some ms)"
  shows "set ms \<subseteq> set (pool_members ps)"
  using assms by (auto simp: backlog_candidates_def Let_def result_simps rfilter_Inr split: if_splits)

lemma tick_choice_guards:
  assumes "tick_choice c ps now = (Inr (Some m), c1)"
  shows "m \<in> set (pool_members ps) \<and> fle (backoff_until c (pm_member_id m)) (Fin now) \<and>
    clears_guards c ps now m \<and> in_flight_subs ps < pool_ceiling c ps"
proof -
  let ?fl = "filter (under_floor ps) (pool_members ps)"
  obtain fl cf where fl: "pass_guards ps now ?fl c = (fl, cf)" by force
  have ne: "pool_members ps \<noteq> []" using assms by (auto simp: tick_choice_def)
  show ?thesis
  proof (cases "fl = []")
    case False
    then have "m = hd fl" "in_flight_subs ps < pool_ceiling c ps"
      using assms ne fl by (auto simp: tick_choice_def split: if_splits)
    moreover have "hd fl \<in> set fl" using False by simp
    ultimately show ?thesis using pass_guards_filter [of ps now ?fl c] fl by auto
  next
    case True
    then obtain cands where b: "backlog_candidates cf ps now = Inr (Some cands)"
      using assms ne fl by (auto simp: tick_choice_def split: sum.splits option.splits)
    obtain el c2 where el: "pass_guards ps now cands cf = (el, c2)" by force
    have m: "el \<noteq> []" "m = hd (rank_members c2 ps now el)" "in_flight_subs ps < pool_ceiling c ps"
      using assms ne fl True b el by (auto simp: tick_choice_def split: if_splits)
    have "m \<in> set el" using m rank_members_hd by simp
    then have "m \<in> set cands" "fle (backoff_until cf (pm_member_id m)) (Fin now)" "clears_guards cf ps now m"
      using pass_guards_filter [of ps now cands cf] el by auto
    moreover have "clears_guards cf ps now m = clears_guards c ps now m"
      using pass_guards_sel [of ps now ?fl c] fl by (intro clears_guards_cong) auto
    moreover have "backoff_until cf (pm_member_id m) = backoff_until c (pm_member_id m)"
      using pass_guards_sel(1) [of ps now ?fl c] fl by (intro backoff_until_cong) auto
    ultimately show ?thesis using m backlog_candidates_members [OF b] by auto
  qed
qed

section \<open>Properties\<close>

lemma sorted_prefix_le:
  assumes "sorted (map f (pre @ t # suf))" "u \<in> set (pre @ t # suf)" "f u < f t"
  shows "u \<in> set pre"
proof -
  have "f t \<le> f v" if "v \<in> set (t # suf)" for v
    using assms(1) that by (auto simp: sorted_append)
  then show ?thesis using assms(2,3) by (auto simp: not_less [symmetric])
qed

lemma router_sort_min:
  assumes "q \<in> set cands"
  shows "c_router_preference c = ''youngest'' \<Longrightarrow>
      fneg (p_walltime_deadline (hd (router_sort c cands))) \<le> fneg (p_walltime_deadline q)"
    and "c_router_preference c \<noteq> ''youngest'' \<Longrightarrow> p_in_flight (hd (router_sort c cands)) \<le> p_in_flight q"
  using hd_sort_key_le [OF assms, of "\<lambda>p. (fneg (p_walltime_deadline p), p_member_id p)"]
    hd_sort_key_le [OF assms, of "\<lambda>p. (p_in_flight p, fneg (p_walltime_deadline p), p_member_id p)"]
  by (auto simp: router_sort_def less_eq_prod_def)

text \<open>C11. A pick of the conservative policy is right: the task is queued and the pilot active, with a free
  slot, enough walltime left and a shape that satisfies the task; every queued task that comes
  strictly earlier in the priority order has no pilot that could take it now; and no candidate
  pilot ranks better under the configured router preference.\<close>

theorem pick_dispatch_best:
  assumes "conservative_pick c now ps = Inr (Some (t, p))"
  shows "t \<in> set (pending_queue ps) \<and> p \<in> set (live_pilots ps) \<and> dispatchable c now p \<and>
    serves t p = Inr True \<and>
    (\<forall>u \<in> set (pending_queue ps). queue_key u < queue_key t \<longrightarrow>
       (\<forall>q \<in> set (live_pilots ps). dispatchable c now q \<longrightarrow> serves u q = Inr False)) \<and>
    (\<forall>q \<in> set (live_pilots ps). dispatchable c now q \<and> serves t q = Inr True \<longrightarrow>
       (if c_router_preference c = ''youngest''
        then fneg (p_walltime_deadline p) \<le> fneg (p_walltime_deadline q)
        else p_in_flight p \<le> p_in_flight q))"
proof -
  let ?active = "filter (dispatchable c now) (live_pilots ps)"
  obtain pre suf where fs: "pending_queue ps = pre @ t # suf"
      "\<forall>u \<in> set pre. \<forall>q \<in> set ?active. serves u q = Inr False"
      "p = hd (router_sort c (filter (\<lambda>q. serves t q = Inr True) ?active))"
    using first_servable_Some [OF conservative_pick_Some [OF assms]] by blast
  have "\<forall>q \<in> set ?active. serves u q = Inr False"
    if "u \<in> set (pending_queue ps)" "queue_key u < queue_key t" for u
    using sorted_prefix_le [of queue_key pre t suf u] pending_queue_sorted [of ps] that fs by auto
  then show ?thesis
    using conservative_pick_in [OF assms] fs(3) router_sort_min [of _ "filter (\<lambda>q. serves t q = Inr True) ?active" c]
    by auto
qed

text \<open>The policy is work-conserving: when it declines to pick, every queued task is one no dispatchable
  pilot can serve.\<close>

lemma pick_none_unservable:
  assumes "conservative_pick c now ps = Inr None" and "t \<in> set (pending_queue ps)"
    and "q \<in> set (live_pilots ps)" and "dispatchable c now q"
  shows "serves t q = Inr False"
proof -
  have "pending_queue ps \<noteq> []" "filter (dispatchable c now) (live_pilots ps) \<noteq> []"
    using assms(2-4) by (auto simp: filter_empty_conv)
  then have "first_servable c (filter (dispatchable c now) (live_pilots ps)) (pending_queue ps) = Inr None"
    using assms(1) by (simp add: conservative_pick_def Let_def pending_queue_idem)
  then show ?thesis by (rule first_servable_None) (use assms in auto)
qed

text \<open>C12. Scale-up never breaks a guard: the member a tick submits for is declared, outside its failure
  backoff, below its pilot ceiling and its in-flight bound, past its dwell time, with budget left
  if it declares one, and the pool as a whole is below its ceiling of pending submissions.\<close>

theorem tick_respects_guards:
  assumes "tick_choice c ps now = (Inr (Some m), c1)"
  shows "m \<in> set (pool_members ps) \<and> \<not> flt (Fin now) (backoff_until c (pm_member_id m)) \<and>
    int (length (live_pilots_for ps (pm_member_id m))) < pm_max_pilots m \<and>
    int (length (filter pre_active (live_pilots_for ps (pm_member_id m)))) < c_max_in_flight_subs c \<and>
    \<not> flt (Fin (now - last_submit c (pm_member_id m))) (c_min_dwell_sec c) \<and>
    (\<forall>left. member_budget_left ps (pm_member_id m) now = Some left \<longrightarrow> \<not> fle left (Fin 0)) \<and>
    in_flight_subs ps < max (c_max_in_flight_subs c) (int (length (pool_members ps)))"
proof -
  have not_lt: "fle u v \<Longrightarrow> \<not> flt v u" for u v by (cases u; cases v) (auto simp: fle_def)
  show ?thesis
    using tick_choice_guards [OF assms] not_lt
    by (auto simp: clears_guards_def Let_def pool_ceiling_def split: option.splits)
qed

text \<open>The failure backoff bites and stays local: after the configured number of consecutive failures of
  pilots that never became active, no tick inside the backoff window submits for that member, and
  the books of every other member are untouched.\<close>

theorem backoff_pauses_member:
  assumes "old \<in> {PILOT_PENDING, PILOT_STARTING}" and "p_started_tasks p = 0"
    and "c_max_consecutive_failures c \<le> failures_of c (p_member_id p) + 1"
    and "c' = conservative_on_pilot_state now p old PILOT_FAILED c"
    and "flt (Fin now') (fadd (Fin now) (c_failure_backoff_sec c))"
  shows "\<not> (\<exists>m c1. tick_choice c' ps now' = (Inr (Some m), c1) \<and> pm_member_id m = p_member_id p) \<and>
    (\<forall>mid. mid \<noteq> p_member_id p \<longrightarrow> backoff_until c' mid = backoff_until c mid \<and>
       failures_of c' mid = failures_of c mid \<and> last_submit c' mid = last_submit c mid)"
proof -
  have b: "backoff_until c' (p_member_id p) = fadd (Fin now) (c_failure_backoff_sec c)"
    using assms(1-4) by (auto simp: conservative_on_pilot_state_def backoff_until_def failures_of_def Let_def)
  have "\<not> fle (backoff_until c' (p_member_id p)) (Fin now')"
    unfolding b using assms(5) by (cases "fadd (Fin now) (c_failure_backoff_sec c)") (auto simp: fle_def)
  then have "\<not> (\<exists>m c1. tick_choice c' ps now' = (Inr (Some m), c1) \<and> pm_member_id m = p_member_id p)"
    using tick_choice_guards by metis
  moreover have "\<forall>mid. mid \<noteq> p_member_id p \<longrightarrow> backoff_until c' mid = backoff_until c mid \<and>
       failures_of c' mid = failures_of c mid \<and> last_submit c' mid = last_submit c mid"
    using assms(4) by (auto simp: conservative_on_pilot_state_def backoff_until_def failures_of_def
        last_submit_def Let_def)
  ultimately show ?thesis by blast
qed

section \<open>A concrete pool\<close>

definition demo_policy :: conservative where
  "demo_policy = \<lparr>c_min_dwell_sec = Fin 30, c_max_in_flight_subs = 2, c_router_preference = ''least_loaded'',
     c_max_consecutive_failures = 3, c_failure_backoff_sec = Fin 60, c_member_preference = ''budget'',
     c_max_requeues = 1, c_min_remaining_sec = Fin 120, c_last_submit_ts = [],
     c_consecutive_failures = [(''anl'', 2)], c_backoff_until = [], c_backoff_logged = []\<rparr>"

definition demo_pilot :: pilot_record where
  "demo_pilot = (new_pilot ''p.1'' ''cpu'' ''s'' ''dask'')\<lparr>p_state := PILOT_ACTIVE, p_capacity := 16,
     p_child_endpoint_name := Some ''ep1'', p_active_at := Some 10, p_member_id := ''anl'',
     p_endpoint_name := ''ep1'', p_nodes := 2, p_cpus_per_node := 8, p_adopted := True\<rparr>"

definition demo_task :: task_record where
  "demo_task = (new_task ''t.1'' ''cpu'' [''ls''] ''/tmp'')\<lparr>t_requirements := [(''cores'', PInt 4)]\<rparr>"

definition demo_pool :: pool_state where
  "demo_pool = \<lparr>pl_config = demo_config, pl_scratch_base = ''/scratch'', pl_owning_sid = ''sid'',
     pl_pilots = [(''p.1'', demo_pilot)], pl_tasks = [(''t.1'', demo_task)],
     pl_policy = ConservativePolicy demo_policy, pl_spool = []\<rparr>"

lemma demo_pick: "conservative_pick demo_policy 100 demo_pool = Inr (Some (demo_task, demo_pilot))"
  by code_simp

theorem pick_dispatch_best_witness:
  "demo_task \<in> set (pending_queue demo_pool) \<and> dispatchable demo_policy 100 demo_pilot \<and>
   serves demo_task demo_pilot = Inr True"
  using pick_dispatch_best [OF demo_pick] by simp

definition demo_pool_idle :: pool_state where
  "demo_pool_idle = demo_pool\<lparr>pl_pilots := []\<rparr>"

lemma demo_tick: "tick_choice demo_policy demo_pool_idle 100 = (Inr (Some demo_member), demo_policy)"
  by code_simp

theorem tick_respects_guards_witness:
  "demo_member \<in> set (pool_members demo_pool_idle) \<and> \<not> flt (Fin 100) (backoff_until demo_policy ''anl'')"
  using tick_respects_guards [OF demo_tick] by (simp add: demo_member_def)

theorem backoff_pauses_member_witness:
  "\<not> (\<exists>m c1. tick_choice (conservative_on_pilot_state 100 demo_pilot PILOT_PENDING PILOT_FAILED demo_policy)
       demo_pool_idle 150 = (Inr (Some m), c1) \<and> pm_member_id m = ''anl'')"
  using backoff_pauses_member [of PILOT_PENDING demo_pilot demo_policy
      "conservative_on_pilot_state 100 demo_pilot PILOT_PENDING PILOT_FAILED demo_policy" 100 150 demo_pool_idle]
  by (simp add: demo_pilot_def new_pilot_def demo_policy_def failures_of_def)

end
