(* ===== verification/Dispatcher_Runtime.thy ===== *)
theory Dispatcher_Runtime
  imports Dispatcher_Policy
begin

text \<open>
  The runtime of one pool (\<^verbatim>\<open>plugin_task_dispatcher.py\<close>): claiming and draining, finalising a
  pilot and reclaiming its tasks, activating, pausing and losing pilots on topology changes,
  submitting, cancelling and probing pilots, forwarding tasks to a pilot and cancelling them.

  Every \<open>await\<close> ends an atomic section, because other handlers run on the same loop meanwhile; a
  coroutine is therefore a sequence of functions here, one per section, and the data it carries
  over the await is a \<open>job\<close>.  A section works on the pool and lists the calls it makes on the rest
  of the plugin as effects, in order.  One section reads the clock once (\<open>h_now\<close>).  The operating
  system's answers and policies from outside the repository come with the record \<open>host\<close>.
\<close>

section \<open>Effects and continuations\<close>

datatype job =
    PilotSubmit string pilot_size pool_member
  | PilotSubmitClient string pilot_size pool_member
  | PilotSubmitJob string
  | PilotCancelClient string
  | PilotCancelJob string
  | PilotProbeClient string
  | PilotProbeStatus string
  | PsijCancel string
  | RhSubmit "string list" string
  | RhClient "string list" string
  | RhStage "string list" string
  | RhPlace "string list" "string list" string
  | RhResult "(string \<times> string) list"
  | RhCancel string "string list"
  | TaskCancel string "string option"
  | MemberRemove string "string list" bool "string list" "string list"

datatype effect =
    FxPersist saved_pool
  | FxDirty
  | FxFrame string dict
  | FxTask task_record "dict option"
  | FxUidPop string
  | FxUidSet string string
  | FxSpawn job

type_synonym 'a out = "'a \<times> effect list"

record host =
  h_now :: rat
  h_ext :: ext_policy
  h_mkdir :: "string \<Rightarrow> string option"
  h_expanduser :: "string \<Rightarrow> string"
  h_connected :: "(string \<times> string list) list"

text \<open>\<open>mkdir\<close> answers with the text of the \<open>OSError\<close> it raised, if any.  \<open>quote\<close> is \<open>repr\<close> of a plain
  string.\<close>

definition quote :: "string \<Rightarrow> string" where
  "quote s = [CHR 0x27] @ s @ [CHR 0x27]"

definition opt_str :: "string option \<Rightarrow> string" where
  "opt_str x = (case x of None \<Rightarrow> ''None'' | Some s \<Rightarrow> s)"

definition upd_pilot :: "string \<Rightarrow> (pilot_record \<Rightarrow> pilot_record) \<Rightarrow> pool_state \<Rightarrow> pool_state" where
  "upd_pilot pid f ps = (case dget (pl_pilots ps) pid of
     None \<Rightarrow> ps | Some p \<Rightarrow> ps\<lparr>pl_pilots := dset pid (f p) (pl_pilots ps)\<rparr>)"

definition upd_task :: "string \<Rightarrow> (task_record \<Rightarrow> task_record) \<Rightarrow> pool_state \<Rightarrow> pool_state" where
  "upd_task tid f ps = (case dget (pl_tasks ps) tid of
     None \<Rightarrow> ps | Some t \<Rightarrow> ps\<lparr>pl_tasks := dset tid (f t) (pl_tasks ps)\<rparr>)"

text \<open>Run a section for each element, collecting the effects.\<close>

fun seq_each :: "('a \<Rightarrow> pool_state \<Rightarrow> pool_state out) \<Rightarrow> 'a list \<Rightarrow> pool_state \<Rightarrow> pool_state out" where
  "seq_each f [] ps = (ps, [])"
| "seq_each f (x # xs) ps =
    (case f x ps of (ps1, fx1) \<Rightarrow> case seq_each f xs ps1 of (ps2, fx2) \<Rightarrow> (ps2, fx1 @ fx2))"

section \<open>Failing a task\<close>

definition free_slot :: "string option \<Rightarrow> pool_state \<Rightarrow> pool_state" where
  "free_slot pid ps = upd_pilot (case pid of None \<Rightarrow> '''' | Some s \<Rightarrow> s)
     (\<lambda>p. p\<lparr>p_in_flight := max 0 (p_in_flight p - 1)\<rparr>) ps"

definition mark_task_failed :: "host \<Rightarrow> string \<Rightarrow> string \<Rightarrow> pool_state \<Rightarrow> pool_state out" where
  "mark_task_failed h tid reason ps = (case dget (pl_tasks ps) tid of
     None \<Rightarrow> (ps, [])
   | Some t \<Rightarrow>
       let t1 = t\<lparr>t_state := TASK_FAILED, t_error := Some reason, t_finished_at := Some (h_now h)\<rparr>
       in (free_slot (t_pilot_id t) (drop_spool tid (upd_task tid (\<lambda>_. t1) ps)),
           [FxDirty, FxTask t1 None]))"

section \<open>Finalising a pilot\<close>

definition reclaim_task :: "host \<Rightarrow> string \<Rightarrow> string \<Rightarrow> pool_state \<Rightarrow> pool_state out" where
  "reclaim_task h pid tid ps = (case dget (pl_tasks ps) tid of
     None \<Rightarrow> (ps, [])
   | Some t \<Rightarrow>
      if t_pilot_id t = Some pid \<and> \<not> task_is_terminal t then
        let has_uid = (case t_rhapsody_uid t of None \<Rightarrow> False | Some u \<Rightarrow> u \<noteq> '''');
            fx = (case t_rhapsody_uid t of Some u \<Rightarrow> if u \<noteq> '''' then [FxUidPop u] else [] | None \<Rightarrow> []);
            t1 = t\<lparr>t_rhapsody_uid := (if has_uid then None else t_rhapsody_uid t),
                   t_requeues := t_requeues t + 1, t_pilot_id := None, t_member_id := None\<rparr>
        in if policy_max_requeues (h_ext h) (pl_policy ps) < t_requeues t1 then
             (case mark_task_failed h tid ''requeued too often (pilot lost)'' (upd_task tid (\<lambda>_. t1) ps) of
                (ps1, fx1) \<Rightarrow> (ps1, fx @ fx1))
           else let t2 = t1\<lparr>t_state := TASK_QUEUED\<rparr>
                in (upd_task tid (\<lambda>_. t2) ps, fx @ [FxFrame ''task_status'' (task_asdict t2)])
      else (ps, []))"

definition finalized :: "host \<Rightarrow> pilot_state \<Rightarrow> string \<Rightarrow> pilot_record \<Rightarrow> pilot_record" where
  "finalized h new reason p =
    p\<lparr>p_state := new,
      p_error := (if new = PILOT_FAILED \<and> reason \<noteq> '''' then Some (take PILOT_ERROR_MAX reason) else p_error p),
      p_finished_at := (case p_finished_at p of None \<Rightarrow> Some (h_now h) | Some t \<Rightarrow> Some t)\<rparr>"

definition finalize_pilot :: "host \<Rightarrow> string \<Rightarrow> pilot_state \<Rightarrow> string \<Rightarrow> pool_state \<Rightarrow> pool_state out" where
  "finalize_pilot h pid new reason ps = (case dget (pl_pilots ps) pid of
     None \<Rightarrow> (ps, [])
   | Some p \<Rightarrow>
      let p1 = finalized h new reason p;
          frame = FxFrame ''pilot_status''
            [(''pilot_id'', PStr pid), (''pool'', PStr (pc_name (pl_config ps))),
             (''state'', PStr (pilot_state_str new)), (''reason'', PStr reason),
             (''member_id'', PStr (p_member_id p))]
      in case seq_each (reclaim_task h pid) (map fst (pl_tasks ps)) (upd_pilot pid (\<lambda>_. p1) ps) of
           (ps1, fx1) \<Rightarrow>
             (ps1\<lparr>pl_policy := policy_on_pilot_state (h_now h) p1 (p_state p) new (pl_policy ps1)\<rparr>,
              frame # fx1 @ [FxPersist (saved_pool_of ps1)]))"

definition mark_pilot_failed :: "host \<Rightarrow> string \<Rightarrow> string \<Rightarrow> pool_state \<Rightarrow> pool_state out" where
  "mark_pilot_failed h pid reason ps = finalize_pilot h pid PILOT_FAILED reason ps"

definition mark_pilot_done :: "host \<Rightarrow> string \<Rightarrow> string \<Rightarrow> pool_state \<Rightarrow> pool_state out" where
  "mark_pilot_done h pid reason ps = finalize_pilot h pid PILOT_DONE reason ps"

section \<open>Claiming and draining\<close>

text \<open>\<open>str(base / name)\<close> for a base that is already a plain path.\<close>

definition path_join :: "string \<Rightarrow> string \<Rightarrow> string" where
  "path_join b n = (if n = '''' then b
     else if hd n = CHR ''/'' then n
     else if b = '''' \<or> last b = CHR ''/'' then b @ n
     else b @ ''/'' @ n)"

definition assigned_cwd :: "host \<Rightarrow> pool_state \<Rightarrow> pilot_record \<Rightarrow> string \<Rightarrow> string \<times> bool" where
  "assigned_cwd h ps p tid =
    (let m = pool_member_of ps (p_member_id p);
         shared = (case m of None \<Rightarrow> True | Some m \<Rightarrow> pm_shared_fs m);
         own = (case m of None \<Rightarrow> None | Some m \<Rightarrow> (case pm_scratch_base m of
                  Some b \<Rightarrow> if b \<noteq> '''' then Some b else None | None \<Rightarrow> None));
         base = (case own of
                   Some b \<Rightarrow> if shared then h_expanduser h b else b
                 | None \<Rightarrow> pl_scratch_base ps)
     in (path_join base tid, shared))"

definition claimed :: "host \<Rightarrow> pilot_record \<Rightarrow> task_record \<Rightarrow> task_record" where
  "claimed h p t = t\<lparr>t_state := TASK_RUNNING, t_pilot_id := Some (p_pid p),
     t_member_id := Some (p_member_id p), t_started_at := Some (h_now h)\<rparr>"

definition take_slot :: "pilot_record \<Rightarrow> pilot_record" where
  "take_slot p = p\<lparr>p_in_flight := p_in_flight p + 1, p_started_tasks := p_started_tasks p + 1\<rparr>"

definition claim :: "host \<Rightarrow> task_record \<Rightarrow> pilot_record \<Rightarrow> pool_state \<Rightarrow> bool \<times> pool_state out" where
  "claim h t p ps =
    (let tid = t_task_id t;
         place = assigned_cwd h ps p tid;
         ps1 = (if t_cwd_assigned t then upd_task tid (\<lambda>t. t\<lparr>t_cwd := fst place\<rparr>) ps else ps)
     in case (if t_cwd_assigned t \<and> snd place then h_mkdir h (fst place) else None) of
          Some e \<Rightarrow> (False, mark_task_failed h tid (''could not create task cwd '' @ fst place @ '': '' @ e) ps1)
        | None \<Rightarrow> (True, upd_pilot (p_pid p) take_slot (upd_task tid (claimed h p) ps1), []))"

text \<open>The pick-and-claim loop, bounded by the queue length; the assignment is collected per pilot in
  first-claim order.\<close>

definition assign_to :: "string \<Rightarrow> string \<Rightarrow> (string \<times> string list) list \<Rightarrow> (string \<times> string list) list" where
  "assign_to pid tid assigned =
     dset pid ((case dget assigned pid of None \<Rightarrow> [] | Some ts \<Rightarrow> ts) @ [tid]) assigned"

fun drain_loop ::
  "host \<Rightarrow> nat \<Rightarrow> (string \<times> string list) list \<Rightarrow> pool_state \<Rightarrow> (string \<times> string list) list \<times> pool_state out" where
  "drain_loop h 0 assigned ps = (assigned, ps, [])"
| "drain_loop h (Suc budget) assigned ps =
    (case policy_pick (h_ext h) (pl_policy ps) (h_now h) ps of
       Inl e \<Rightarrow> (assigned, ps, [])
     | Inr None \<Rightarrow> (assigned, ps, [])
     | Inr (Some (t, p)) \<Rightarrow>
        if t_state t \<noteq> TASK_QUEUED then (assigned, ps, [])
        else (case claim h t p ps of (ok, ps1, fx1) \<Rightarrow>
          (case drain_loop h budget
                  (if ok then assign_to (p_pid p) (t_task_id t) assigned else assigned) ps1 of
             (assigned2, ps2, fx2) \<Rightarrow> (assigned2, ps2, fx1 @ fx2))))"

definition task_frames :: "pool_state \<Rightarrow> string list \<Rightarrow> effect list" where
  "task_frames ps tids = concat (map (\<lambda>tid. case dget (pl_tasks ps) tid of
     None \<Rightarrow> [] | Some t \<Rightarrow> [FxTask t None]) tids)"

definition drain_pending :: "host \<Rightarrow> pool_state \<Rightarrow> pool_state out" where
  "drain_pending h ps =
    (case drain_loop h (length (pending_queue ps)) [] ps of (assigned, ps1, fx) \<Rightarrow>
       if assigned = [] then (ps1, fx)
       else (ps1, fx @ FxPersist (saved_pool_of ps1) #
               concat (map (\<lambda>(pid, tids). task_frames ps1 tids @ [FxSpawn (RhSubmit tids pid)]) assigned)))"

section \<open>Topology\<close>

record participant =
  pt_liveness :: string
  pt_plugins :: "string list"

definition activate_pilot :: "host \<Rightarrow> string \<Rightarrow> pool_state \<Rightarrow> pool_state out" where
  "activate_pilot h pid ps = (case dget (pl_pilots ps) pid of
     None \<Rightarrow> (ps, [])
   | Some p \<Rightarrow>
      let capacity = p_nodes p * p_cpus_per_node p;
          plugins = (case p_child_endpoint_name p of None \<Rightarrow> []
             | Some ce \<Rightarrow> (case dget (h_connected h) ce of None \<Rightarrow> [] | Some pl \<Rightarrow> pl))
      in if capacity \<le> 0 then
           (if p_adopted p then mark_pilot_failed h pid
              (''pilot size '' @ quote (p_size_key p) @ '' has zero capacity'') ps
            else (ps, []))
         else if p_adopted p \<and> ''rhapsody'' \<notin> set plugins then
           mark_pilot_failed h pid (''endpoint '' @ opt_str (p_child_endpoint_name p) @ '' serves no rhapsody'') ps
         else
           let p1 = p\<lparr>p_capacity := capacity, p_state := PILOT_ACTIVE, p_active_at := Some (h_now h)\<rparr>;
               ps1 = upd_pilot pid (\<lambda>_. p1) ps;
               ps2 = ps1\<lparr>pl_policy := policy_on_pilot_state (h_now h) p1 (p_state p) PILOT_ACTIVE (pl_policy ps1)\<rparr>;
               frame = FxFrame ''pilot_status''
                 [(''pilot_id'', PStr pid), (''pool'', PStr (pc_name (pl_config ps))),
                  (''state'', PStr ''ACTIVE''),
                  (''child_endpoint'', enc_opt PStr (p_child_endpoint_name p)), (''capacity'', PInt capacity)]
           in case drain_pending h ps2 of (ps3, fx) \<Rightarrow> (ps3, [FxPersist (saved_pool_of ps1), frame] @ fx))"

definition set_accepting :: "bool \<Rightarrow> pilot_record \<Rightarrow> pilot_record" where
  "set_accepting b p = p\<lparr>p_accepting := b\<rparr>"

definition pilot_present :: "host \<Rightarrow> string \<Rightarrow> pool_state \<Rightarrow> pool_state out" where
  "pilot_present h pid ps = (case dget (pl_pilots ps) pid of
     None \<Rightarrow> (ps, [])
   | Some p \<Rightarrow>
      if p_state p = PILOT_ACTIVE \<and> \<not> p_accepting p then
        (case drain_pending h (upd_pilot pid (set_accepting True) ps) of (ps1, fx) \<Rightarrow>
           (ps1, FxPersist (saved_pool_of (upd_pilot pid (set_accepting True) ps)) # fx))
      else if p_state p \<in> {PILOT_PENDING, PILOT_STARTING} then activate_pilot h pid ps
      else (ps, []))"

definition pilot_lost :: "host \<Rightarrow> string \<Rightarrow> pool_state \<Rightarrow> pool_state out" where
  "pilot_lost h pid ps = (case dget (pl_pilots ps) pid of
     None \<Rightarrow> (ps, [])
   | Some p \<Rightarrow>
      (case (if p_adopted p then mark_pilot_done h pid ''adopted endpoint gone'' ps
             else if fle (p_walltime_deadline p) (Fin (h_now h)) then mark_pilot_done h pid ''walltime reached'' ps
             else mark_pilot_failed h pid ''child endpoint lost before walltime'' ps) of
         (ps1, fx1) \<Rightarrow> (case drain_pending h ps1 of (ps2, fx2) \<Rightarrow> (ps2, fx1 @ fx2))))"

definition reconcile_one ::
  "host \<Rightarrow> (string \<times> participant) list \<Rightarrow> string \<Rightarrow> pool_state \<Rightarrow> pool_state out" where
  "reconcile_one h participants pid ps = (case dget (pl_pilots ps) pid of
     None \<Rightarrow> (ps, [])
   | Some p \<Rightarrow>
      (case p_child_endpoint_name p of
         None \<Rightarrow> (ps, [])
       | Some ce \<Rightarrow>
          if ce = '''' \<or> p_state p \<notin> set PILOT_LIVE_STATES then (ps, [])
          else (case dget participants ce of
             None \<Rightarrow> (ps, [])
           | Some info \<Rightarrow>
              if pt_liveness info = ''present'' then pilot_present h pid ps
              else if pt_liveness info = ''suspect'' then
                (if p_state p = PILOT_ACTIVE \<and> p_accepting p
                 then (upd_pilot pid (set_accepting False) ps,
                       [FxPersist (saved_pool_of (upd_pilot pid (set_accepting False) ps))]) else (ps, []))
              else if pt_liveness info = ''lost'' then pilot_lost h pid ps
              else (ps, []))))"

definition reconcile_pilots_for ::
  "host \<Rightarrow> (string \<times> participant) list \<Rightarrow> pool_state \<Rightarrow> pool_state out" where
  "reconcile_pilots_for h participants ps =
     seq_each (reconcile_one h participants) (map fst (pl_pilots ps)) ps"

section \<open>Submitting a pilot\<close>

definition pilot_deadline :: "host \<Rightarrow> pool_member \<Rightarrow> pilot_size \<Rightarrow> pyfloat" where
  "pilot_deadline h m s =
    (let end_time = (case pm_end_time m of None \<Rightarrow> Fin 0 | Some f \<Rightarrow> f);
         deadline = Fin (h_now h + of_int (ps_walltime_sec s))
     in if pm_pilot m = PILOT_ENDPOINT then (if ftruthy end_time then end_time else Fin 0)
        else if ftruthy end_time then fmin deadline end_time else deadline)"

definition select_member :: "pool_config \<Rightarrow> string option \<Rightarrow> py_error + pool_member" where
  "select_member cfg mid = (case mid of
     None \<Rightarrow> primary_member cfg
   | Some m \<Rightarrow> if m = '''' then primary_member cfg
               else (case config_member cfg m of None \<Rightarrow> Inl KeyError | Some x \<Rightarrow> Inr x))"

definition fresh_record ::
  "host \<Rightarrow> pool_state \<Rightarrow> string \<Rightarrow> string \<Rightarrow> pool_member \<Rightarrow> pilot_size \<Rightarrow> pilot_record" where
  "fresh_record h ps pid size_key m s =
    (let adopt = (pm_pilot m = PILOT_ENDPOINT) in
     (new_pilot pid (pc_name (pl_config ps)) size_key (ps_rhapsody_backend s))
       \<lparr>p_owning_sid := pl_owning_sid ps, p_submitted_at := h_now h,
        p_walltime_deadline := pilot_deadline h m s, p_member_id := pm_member_id m,
        p_attributes := pm_attributes m, p_endpoint_name := pm_endpoint_name m,
        p_nodes := ps_nodes s, p_cpus_per_node := ps_cpus_per_node s,
        p_gpus_per_node := ps_gpus_per_node s, p_adopted := adopt,
        p_child_endpoint_name := (if adopt then Some (pm_endpoint_name m) else None)\<rparr>)"

definition submit_pilot ::
  "host \<Rightarrow> (string \<times> participant) list \<Rightarrow> string \<Rightarrow> string option \<Rightarrow> string option \<Rightarrow> pool_state \<Rightarrow>
     (py_error + string) \<times> pool_state out" where
  "submit_pilot h participants pid size_key mid ps =
    (case select_member (pl_config ps) mid of
       Inl e \<Rightarrow> (Inl e, ps, [])
     | Inr m \<Rightarrow>
       let key = (case size_key of None \<Rightarrow> pm_default_size m | Some k \<Rightarrow> if k = '''' then pm_default_size m else k) in
       (case dget (pm_pilot_sizes m) key of
          None \<Rightarrow> (Inl KeyError, ps, [])
        | Some s \<Rightarrow>
          let adopt = (pm_pilot m = PILOT_ENDPOINT);
              live = live_pilots_for ps (pm_member_id m)
          in if adopt \<and> live \<noteq> [] then (Inr (p_pid (hd live)), ps, [])
             else
               let rec = fresh_record h ps pid key m s;
                   ps1 = ps\<lparr>pl_pilots := dset pid rec (pl_pilots ps)\<rparr>;
                   frame = FxFrame ''autoscale_decision''
                     [(''pool'', PStr (pc_name (pl_config ps))),
                      (''action'', PStr (if adopt then ''adopt_pilot'' else ''submit_pilot'')),
                      (''pilot_id'', PStr pid), (''size_key'', PStr key), (''member_id'', PStr (pm_member_id m))]
               in if adopt then
                    (case reconcile_pilots_for h participants ps1 of (ps2, fx) \<Rightarrow>
                       (Inr pid, ps2, FxPersist (saved_pool_of ps1) # fx @ [frame]))
                  else (Inr pid, ps1, [FxPersist (saved_pool_of ps1), FxSpawn (PilotSubmit pid s m), frame])))"

text \<open>The policy's \<open>on_tick\<close> with the pool's \<open>submit_pilot\<close>: the policy object is shared, so an adoption that
  activates the pilot updates it before the dwell clock is set.  An exception of the submission is
  logged; one of the decision ends the tick.  A policy from outside the repository is modelled with the
  \<open>on_tick\<close> it inherits, which does nothing.\<close>

definition set_last_submit :: "string \<Rightarrow> rat \<Rightarrow> policy \<Rightarrow> policy" where
  "set_last_submit mid now pol = (case pol of
     ConservativePolicy c \<Rightarrow> ConservativePolicy (c\<lparr>c_last_submit_ts := dset mid now (c_last_submit_ts c)\<rparr>)
   | _ \<Rightarrow> pol)"

definition on_tick ::
  "host \<Rightarrow> (string \<times> participant) list \<Rightarrow> string \<Rightarrow> pool_state \<Rightarrow> (py_error + unit) \<times> pool_state out" where
  "on_tick h participants pid ps = (case pl_policy ps of
     ConservativePolicy c \<Rightarrow>
      (case tick_choice c ps (h_now h) of
         (Inl e, c1) \<Rightarrow> (Inl e, ps\<lparr>pl_policy := ConservativePolicy c1\<rparr>, [])
       | (Inr None, c1) \<Rightarrow> (Inr (), ps\<lparr>pl_policy := ConservativePolicy c1\<rparr>, [])
       | (Inr (Some m), c1) \<Rightarrow>
          (case submit_pilot h participants pid None (Some (pm_member_id m))
                  (ps\<lparr>pl_policy := ConservativePolicy c1\<rparr>) of
             (Inl e, ps1, fx) \<Rightarrow> (Inr (), ps1, fx)
           | (Inr _, ps1, fx) \<Rightarrow>
              (Inr (), ps1\<lparr>pl_policy := set_last_submit (pm_member_id m) (h_now h) (pl_policy ps1)\<rparr>, fx)))
   | _ \<Rightarrow> (Inr (), ps, []))"

text \<open>One pool's share of the housekeeping tick.\<close>

definition tick_pool ::
  "host \<Rightarrow> (string \<times> participant) list \<Rightarrow> string \<Rightarrow> pool_state \<Rightarrow> pool_state out" where
  "tick_pool h participants pid ps = (case on_tick h participants pid ps of
     (Inl e, ps1, fx1) \<Rightarrow> (ps1, fx1)
   | (Inr _, ps1, fx1) \<Rightarrow> (case drain_pending h ps1 of (ps2, fx2) \<Rightarrow> (ps2, fx1 @ fx2)))"

section \<open>The batch job of a pilot\<close>

definition build_pilot_env ::
  "string \<Rightarrow> string option \<Rightarrow> pool_state \<Rightarrow> pilot_record \<Rightarrow> pool_member \<Rightarrow> (string \<times> string) list" where
  "build_pilot_env broker_url cert ps p m =
    [(''RADICAL_ORBIT_BROKER_URL'', broker_url),
     (''RADICAL_ORBIT_POOL'', pc_name (pl_config ps)),
     (''RADICAL_ORBIT_RHAPSODY_BACKEND'', p_rhapsody_backend p),
     (''RADICAL_ORBIT_SCRATCH_BASE'', case pm_scratch_base m of
        Some b \<Rightarrow> if b \<noteq> '''' then b else pl_scratch_base ps | None \<Rightarrow> pl_scratch_base ps)] @
    (if pc_multi_member (pl_config ps) then [(''RADICAL_ORBIT_MEMBER'', p_member_id p)] else []) @
    (case cert of Some c \<Rightarrow> if c \<noteq> '''' \<and> pm_shared_fs m then [(''RADICAL_ORBIT_BROKER_CERT'', c)] else []
     | None \<Rightarrow> [])"

definition build_job_spec :: "pilot_size \<Rightarrow> string \<Rightarrow> (string \<times> string) list \<Rightarrow> pool_member \<Rightarrow> dict" where
  "build_job_spec s child env m =
    [(''executable'', PStr ''radical-orbit-endpoint-wrapper.sh''),
     (''arguments'', PList [PStr ''-n'', PStr child, PStr ''--plugins'', PStr ''default'']),
     (''environment'', PDict (map (\<lambda>(k, v). (k, PStr v)) env)),
     (''resources'', PDict ([(''node_count'', PInt (ps_nodes s)), (''processes_per_node'', PInt (ps_cpus_per_node s))] @
        (if ps_gpus_per_node s \<noteq> 0 then [(''gpu_cores_per_process'', PInt (ps_gpus_per_node s))] else []))),
     (''attributes'', PDict ([(''queue_name'', PStr (pm_queue m)), (''duration'', PInt (ps_walltime_sec s))] @
        (case pm_account m of Some a \<Rightarrow> if a \<noteq> '''' then [(''project'', PStr a)] else [] | None \<Rightarrow> [])))]"

text \<open>\<open>_do_pilot_submit\<close> up to the first await, after the client is known, and after psij answered.\<close>

definition pilot_submit_begin :: "host \<Rightarrow> string \<Rightarrow> pilot_size \<Rightarrow> pool_member \<Rightarrow> pool_state \<Rightarrow> pool_state out" where
  "pilot_submit_begin h pid s m ps = (case dget (pl_pilots ps) pid of
     None \<Rightarrow> (ps, [])
   | Some p \<Rightarrow>
      if p_endpoint_name p = '''' then
        mark_pilot_failed h pid (''pool '' @ quote (pc_name (pl_config ps)) @ '' has no endpoint_name set'') ps
      else if pm_queue m = ''default'' then
        mark_pilot_failed h pid (''pool queue is the '' @ quote ''default'' @
          '' sentinel; re-declare the pool with an explicit '' @ quote ''queue'' @ '' before submitting pilots'') ps
      else (ps, [FxSpawn (PilotSubmitClient pid s m)]))"

definition pilot_submit_client :: "host \<Rightarrow> bool \<Rightarrow> string \<Rightarrow> pilot_size \<Rightarrow> pool_member \<Rightarrow> pool_state \<Rightarrow> pool_state out" where
  "pilot_submit_client h got_client pid s m ps = (case dget (pl_pilots ps) pid of
     None \<Rightarrow> (ps, [])
   | Some p \<Rightarrow>
      if \<not> got_client then mark_pilot_failed h pid ''psij client unavailable'' ps
      else (upd_pilot pid (\<lambda>p. p\<lparr>p_child_endpoint_name :=
              Some (child_endpoint_name (pc_name (pl_config ps)) (Some (p_member_id p)) pid)\<rparr>) ps,
            [FxSpawn (PilotSubmitJob pid)]))"

definition pilot_submit_result ::
  "host \<Rightarrow> string + string option \<Rightarrow> string \<Rightarrow> pool_state \<Rightarrow> pool_state out" where
  "pilot_submit_result h answer pid ps = (case dget (pl_pilots ps) pid of
     None \<Rightarrow> (ps, [])
   | Some p \<Rightarrow>
      (case answer of
         Inl e \<Rightarrow> mark_pilot_failed h pid (''psij error: '' @ e) ps
       | Inr job_id \<Rightarrow>
          if pilot_is_terminal p then
            (ps, case job_id of Some j \<Rightarrow> if j \<noteq> '''' then [FxSpawn (PsijCancel j)] else [] | None \<Rightarrow> [])
          else
            let ps1 = upd_pilot pid (\<lambda>p. p\<lparr>p_psij_job_id := job_id\<rparr>) ps in
            if p_state p \<noteq> PILOT_PENDING then (ps1, [FxPersist (saved_pool_of ps1)])
            else
              let p1 = p\<lparr>p_psij_job_id := job_id, p_state := PILOT_STARTING\<rparr>;
                  ps2 = upd_pilot pid (\<lambda>_. p1) ps
              in (ps2\<lparr>pl_policy := policy_on_pilot_state (h_now h) p1 PILOT_PENDING PILOT_STARTING (pl_policy ps2)\<rparr>,
                  [FxPersist (saved_pool_of ps2), FxFrame ''pilot_status''
                    [(''pilot_id'', PStr pid), (''pool'', PStr (pc_name (pl_config ps))),
                     (''state'', PStr ''STARTING''), (''psij_job_id'', enc_opt PStr job_id)]])))"

text \<open>\<open>_do_pilot_cancel\<close>: the uids the event tap still knows are passed in.\<close>

definition has_job :: "pilot_record \<Rightarrow> bool" where
  "has_job p \<longleftrightarrow> p_endpoint_name p \<noteq> '''' \<and> (case p_psij_job_id p of None \<Rightarrow> False | Some j \<Rightarrow> j \<noteq> '''')"

definition pilot_uids :: "(string \<Rightarrow> bool) \<Rightarrow> string \<Rightarrow> pool_state \<Rightarrow> string list" where
  "pilot_uids known pid ps = concat (map (\<lambda>t. if t_pilot_id t = Some pid then
      (case t_rhapsody_uid t of Some u \<Rightarrow> if known u then [u] else [] | None \<Rightarrow> []) else [])
    (dvalues (pl_tasks ps)))"

definition pilot_cancel_begin :: "host \<Rightarrow> (string \<Rightarrow> bool) \<Rightarrow> string \<Rightarrow> pool_state \<Rightarrow> pool_state out" where
  "pilot_cancel_begin h known pid ps = (case dget (pl_pilots ps) pid of
     None \<Rightarrow> (ps, [])
   | Some p \<Rightarrow>
      if pilot_is_terminal p then (ps, [])
      else if p_adopted p then
        (case mark_pilot_done h pid ''endpoint released'' ps of (ps1, fx) \<Rightarrow>
           (ps1, fx @ [FxSpawn (RhCancel pid (pilot_uids known pid ps))]))
      else if \<not> has_job p then mark_pilot_failed h pid ''cancel requested'' ps
      else (ps, [FxSpawn (PilotCancelClient pid)]))"

definition pilot_cancel_client :: "host \<Rightarrow> bool \<Rightarrow> string \<Rightarrow> pool_state \<Rightarrow> pool_state out" where
  "pilot_cancel_client h got_client pid ps =
    (if got_client then (ps, [FxSpawn (PilotCancelJob pid)])
     else mark_pilot_failed h pid ''cancel requested'' ps)"

definition pilot_cancel_result :: "host \<Rightarrow> string \<Rightarrow> pool_state \<Rightarrow> pool_state out" where
  "pilot_cancel_result h pid ps = mark_pilot_failed h pid ''cancelled'' ps"

text \<open>\<open>_reconcile_pilot\<close>, the probe of an overdue pilot.\<close>

definition probe_begin :: "host \<Rightarrow> string \<Rightarrow> pool_state \<Rightarrow> pool_state out" where
  "probe_begin h pid ps = (case dget (pl_pilots ps) pid of
     None \<Rightarrow> (ps, [])
   | Some p \<Rightarrow>
      if pilot_is_terminal p then (ps, [])
      else if p_adopted p then mark_pilot_failed h pid (''endpoint '' @ opt_str (p_child_endpoint_name p) @ '' not connected'') ps
      else if \<not> has_job p then (ps, [])
      else (ps, [FxSpawn (PilotProbeClient pid)]))"

definition probe_client :: "bool \<Rightarrow> string \<Rightarrow> pool_state \<Rightarrow> pool_state out" where
  "probe_client got_client pid ps = (ps, if got_client then [FxSpawn (PilotProbeStatus pid)] else [])"

definition probe_result :: "host \<Rightarrow> string option \<Rightarrow> string \<Rightarrow> pool_state \<Rightarrow> pool_state out" where
  "probe_result h psij_state pid ps = (case psij_state of
     None \<Rightarrow> (ps, [])
   | Some s \<Rightarrow> if s \<in> {''COMPLETED'', ''DONE'', ''FAILED'', ''CANCELED''}
       then mark_pilot_failed h pid (''handshake timeout; psij state '' @ s) ps else (ps, []))"

text \<open>The filter of \<open>_reconcile_overdue_pilots\<close>.\<close>

definition overdue :: "rat \<Rightarrow> rat \<Rightarrow> pilot_record \<Rightarrow> bool" where
  "overdue timeout now p \<longleftrightarrow>
     p_state p \<in> {PILOT_PENDING, PILOT_STARTING} \<and> timeout \<le> now - p_submitted_at p"

section \<open>Forwarding tasks\<close>

definition fail_all :: "host \<Rightarrow> string \<Rightarrow> string list \<Rightarrow> pool_state \<Rightarrow> pool_state out" where
  "fail_all h reason tids ps = seq_each (\<lambda>tid. mark_task_failed h tid reason) tids ps"

definition rh_submit_begin :: "host \<Rightarrow> string list \<Rightarrow> string \<Rightarrow> pool_state \<Rightarrow> pool_state out" where
  "rh_submit_begin h tids pid ps = (case dget (pl_pilots ps) pid of
     None \<Rightarrow> (ps, [])
   | Some p \<Rightarrow> (case p_child_endpoint_name p of
        None \<Rightarrow> fail_all h ''child endpoint unavailable'' tids ps
      | Some ce \<Rightarrow> if ce = '''' then fail_all h ''child endpoint unavailable'' tids ps
                  else (ps, [FxSpawn (RhClient tids pid)])))"

definition rh_submit_client :: "host \<Rightarrow> bool \<Rightarrow> string list \<Rightarrow> string \<Rightarrow> pool_state \<Rightarrow> pool_state out" where
  "rh_submit_client h got_client tids pid ps =
    (if got_client then (ps, [FxSpawn (RhStage tids pid)])
     else fail_all h ''rhapsody client unavailable'' tids ps)"

text \<open>\<open>_place_inputs\<close>: nothing to place, no staging client, or one task after the other; \<open>RhPlace todo ok\<close>
  holds the tasks still to do and those already placed.\<close>

definition shared_pilot :: "pool_state \<Rightarrow> string \<Rightarrow> bool" where
  "shared_pilot ps pid = (case dget (pl_pilots ps) pid of None \<Rightarrow> True
     | Some p \<Rightarrow> (case pool_member_of ps (p_member_id p) of None \<Rightarrow> True | Some m \<Rightarrow> pm_shared_fs m))"

definition has_spooled :: "pool_state \<Rightarrow> string \<Rightarrow> bool" where
  "has_spooled ps tid = (case dget (pl_tasks ps) tid of None \<Rightarrow> False | Some t \<Rightarrow> t_spooled t \<noteq> [])"

definition place_begin :: "host \<Rightarrow> bool \<Rightarrow> string list \<Rightarrow> string \<Rightarrow> pool_state \<Rightarrow> pool_state out" where
  "place_begin h got_staging tids pid ps =
    (if shared_pilot ps pid \<and> \<not> list_ex (has_spooled ps) tids then (ps, [FxSpawn (RhPlace [] tids pid)])
     else if \<not> shared_pilot ps pid \<and> \<not> got_staging then
       fail_all h ''could not place inputs on the pilot: staging client unavailable'' tids ps
     else (ps, [FxSpawn (RhPlace tids [] pid)]))"

definition place_one ::
  "host \<Rightarrow> string option \<Rightarrow> string \<Rightarrow> string list \<Rightarrow> string list \<Rightarrow> string \<Rightarrow> pool_state \<Rightarrow> pool_state out" where
  "place_one h failure tid todo ok pid ps = (case failure of
     None \<Rightarrow> (ps, [FxSpawn (RhPlace todo (ok @ [tid]) pid)])
   | Some e \<Rightarrow> (case mark_task_failed h tid (''could not place inputs on the pilot: '' @ e) ps of
        (ps1, fx) \<Rightarrow> (ps1, fx @ [FxSpawn (RhPlace todo ok pid)])))"

definition task_uid :: "task_record \<Rightarrow> string" where
  "task_uid t = (case t_task_dict t of
     None \<Rightarrow> t_task_id t
   | Some _ \<Rightarrow> t_task_id t @ ''.'' @ t_owning_sid t)"

text \<open>The forwarded task description.\<close>

definition forward_dict :: "string \<Rightarrow> task_record \<Rightarrow> py_error + dict" where
  "forward_dict backend t = rbind (backend_kwargs (t_requirements t) backend) (\<lambda>derived.
    case t_task_dict t of
      Some td \<Rightarrow>
        let fwd = dset ''uid'' (PStr (task_uid t)) td in
        if derived = [] then Inr fwd
        else (case get_or td ''task_backend_specific_kwargs'' (PDict []) of
                PDict own \<Rightarrow> Inr (dset ''task_backend_specific_kwargs'' (PDict (dmerge derived own)) fwd)
              | _ \<Rightarrow> Inl TypeError)
    | None \<Rightarrow> Inr
       [(''uid'', PStr (t_task_id t)),
        (''executable'', PStr (case t_cmd t of [] \<Rightarrow> '''' | c # _ \<Rightarrow> c)),
        (''arguments'', enc_strs (tl (t_cmd t))),
        (''cwd'', PStr (t_cwd t)),
        (''task_backend_specific_kwargs'', PDict (dmerge [(''cwd'', PStr (t_cwd t))] derived))])"

definition map_uid :: "string \<Rightarrow> pool_state \<Rightarrow> pool_state out" where
  "map_uid tid ps = (case dget (pl_tasks ps) tid of
     None \<Rightarrow> (ps, [])
   | Some t \<Rightarrow> (upd_task tid (\<lambda>t. t\<lparr>t_rhapsody_uid := Some (task_uid t)\<rparr>) ps, [FxUidSet (task_uid t) tid]))"

definition uids_of :: "pool_state \<Rightarrow> string list \<Rightarrow> (string \<times> string) list" where
  "uids_of ps tids = concat (map (\<lambda>tid. case dget (pl_tasks ps) tid of
     None \<Rightarrow> [] | Some t \<Rightarrow> [(tid, task_uid t)]) tids)"

text \<open>The section from the placed inputs to the submit call.  An exception while a description is
  built ends the coroutine with the tasks as they are.\<close>

definition forwards_ok :: "pool_state \<Rightarrow> string \<Rightarrow> string list \<Rightarrow> bool" where
  "forwards_ok ps pid tids = list_all (\<lambda>tid. case dget (pl_tasks ps) tid of None \<Rightarrow> True
     | Some t \<Rightarrow> \<not> isl (forward_dict (case dget (pl_pilots ps) pid of None \<Rightarrow> '''' | Some p \<Rightarrow> p_rhapsody_backend p) t)) tids"

definition rh_submit_forward :: "string list \<Rightarrow> string \<Rightarrow> pool_state \<Rightarrow> pool_state out" where
  "rh_submit_forward ok pid ps =
    (if ok = [] \<or> \<not> forwards_ok ps pid ok then (ps, [])
     else (case seq_each map_uid ok ps of (ps1, fx) \<Rightarrow> (ps1, fx @ [FxSpawn (RhResult (uids_of ps ok))])))"

definition fail_submitted :: "host \<Rightarrow> string \<Rightarrow> string \<times> string \<Rightarrow> pool_state \<Rightarrow> pool_state out" where
  "fail_submitted h e tu ps = (case dget (pl_tasks ps) (fst tu) of
     None \<Rightarrow> (ps, [FxUidPop (snd tu)])
   | Some t \<Rightarrow>
      if task_is_terminal t then (ps, [FxUidPop (snd tu)])
      else (case mark_task_failed h (fst tu) (''rhapsody submit error: '' @ e)
                   (upd_task (fst tu) (\<lambda>t. t\<lparr>t_rhapsody_uid := None\<rparr>) ps) of
              (ps1, fx) \<Rightarrow> (ps1, FxUidPop (snd tu) # fx)))"

definition rh_submit_result ::
  "host \<Rightarrow> string + unit \<Rightarrow> (string \<times> string) list \<Rightarrow> pool_state \<Rightarrow> pool_state out" where
  "rh_submit_result h answer tus ps = (case answer of
     Inr _ \<Rightarrow> (ps, [FxDirty])
   | Inl e \<Rightarrow> seq_each (fail_submitted h e) tus ps)"

section \<open>Ending a task\<close>

record task_report =
  tr_exit_code :: "int option"
  tr_error :: "string option"
  tr_data :: dict

definition task_terminal :: "host \<Rightarrow> string \<Rightarrow> task_state \<Rightarrow> task_report \<Rightarrow> pool_state \<Rightarrow> pool_state out" where
  "task_terminal h tid target r ps = (case dget (pl_tasks ps) tid of
     None \<Rightarrow> (ps, [])
   | Some t \<Rightarrow>
      if task_is_terminal t then (ps, [])
      else
        let t1 = t\<lparr>t_state := target, t_exit_code := tr_exit_code r, t_error := tr_error r,
                   t_finished_at := Some (h_now h)\<rparr>;
            ps1 = free_slot (t_pilot_id t) (drop_spool tid (upd_task tid (\<lambda>_. t1) ps))
        in case drain_pending h ps1 of (ps2, fx) \<Rightarrow> (ps2, [FxDirty, FxTask t1 (Some (tr_data r))] @ fx))"

definition cancel_finish :: "host \<Rightarrow> string \<Rightarrow> string option \<Rightarrow> pool_state \<Rightarrow> pool_state out" where
  "cancel_finish h tid pilot ps = (case dget (pl_tasks ps) tid of
     None \<Rightarrow> (ps, [])
   | Some t \<Rightarrow>
      let t1 = t\<lparr>t_state := TASK_CANCELED, t_finished_at := Some (h_now h)\<rparr>;
          ps1 = drop_spool tid (upd_task tid (\<lambda>_. t1) ps)
      in (case pilot of None \<Rightarrow> ps1 | Some pid \<Rightarrow> free_slot (Some pid) ps1, [FxDirty, FxTask t1 None]))"

text \<open>\<open>_cancel_task\<close>: a running task with a pilot and a uid is cancelled on the pilot first, which is an
  await; the rest of the coroutine is \<open>cancel_finish\<close>.\<close>

definition cancel_task :: "host \<Rightarrow> string \<Rightarrow> pool_state \<Rightarrow> pool_state out" where
  "cancel_task h tid ps = (case dget (pl_tasks ps) tid of
     None \<Rightarrow> (ps, [])
   | Some t \<Rightarrow>
      if task_is_terminal t then (ps, [])
      else if t_state t = TASK_QUEUED then cancel_finish h tid None ps
      else
        let key = (case t_pilot_id t of None \<Rightarrow> '''' | Some s \<Rightarrow> s);
            pilot = (case dget (pl_pilots ps) key of None \<Rightarrow> None | Some _ \<Rightarrow> Some key);
            child = (case dget (pl_pilots ps) key of None \<Rightarrow> None | Some p \<Rightarrow> p_child_endpoint_name p);
            has_uid = (case t_rhapsody_uid t of None \<Rightarrow> False | Some u \<Rightarrow> u \<noteq> '''')
        in if pilot \<noteq> None \<and> has_uid \<and> child \<noteq> None \<and> child \<noteq> Some '''' then (ps, [FxSpawn (TaskCancel tid pilot)])
           else cancel_finish h tid pilot ps)"

end
