(* ===== verification/Dispatcher_Invariant.thy ===== *)
theory Dispatcher_Invariant
  imports Dispatcher_Runtime
begin

text \<open>
  The invariant of a pool and the order in which its records evolve, with the lemma that every
  atomic section of the runtime keeps the one and follows the other.  \<open>pool_inv\<close> carries the id of a
  pilot that is just being finalised, whose tasks are not reclaimed yet; it is \<open>None\<close> between
  sections.
\<close>

section \<open>Definitions\<close>

definition pilot_ok :: "pilot_record \<Rightarrow> bool" where
  "pilot_ok p \<longleftrightarrow> 0 \<le> p_in_flight p \<and> p_in_flight p \<le> p_capacity p \<and>
     (p_state p \<in> {PILOT_PENDING, PILOT_STARTING} \<longrightarrow> p_in_flight p = 0 \<and> p_active_at p = None) \<and>
     (pilot_is_terminal p \<longleftrightarrow> p_finished_at p \<noteq> None)"

definition task_ok :: "int \<Rightarrow> string option \<Rightarrow> (string \<times> pilot_record) list \<Rightarrow> task_record \<Rightarrow> bool" where
  "task_ok cap exc pilots t \<longleftrightarrow>
     (t_state t = TASK_QUEUED \<longrightarrow> t_pilot_id t = None) \<and>
     (t_state t = TASK_RUNNING \<longrightarrow> (\<exists>pid. t_pilot_id t = Some pid \<and>
        (exc = Some pid \<or> (\<exists>p. dget pilots pid = Some p \<and> p_state p = PILOT_ACTIVE)))) \<and>
     (\<not> task_is_terminal t \<longrightarrow> t_requeues t \<le> max 0 cap)"

definition requeue_cap :: "ext_policy \<Rightarrow> pool_state \<Rightarrow> int" where
  "requeue_cap ext ps = policy_max_requeues ext (pl_policy ps)"

definition pool_inv :: "ext_policy \<Rightarrow> string option \<Rightarrow> pool_state \<Rightarrow> bool" where
  "pool_inv ext exc ps \<longleftrightarrow> dict_ok (pl_pilots ps) \<and> dict_ok (pl_tasks ps) \<and>
     (\<forall>k p. dget (pl_pilots ps) k = Some p \<longrightarrow> p_pid p = k \<and> pilot_ok p) \<and>
     (\<forall>k t. dget (pl_tasks ps) k = Some t \<longrightarrow> t_task_id t = k \<and>
        task_ok (requeue_cap ext ps) exc (pl_pilots ps) t)"

definition pilot_le :: "pilot_record \<Rightarrow> pilot_record \<Rightarrow> bool" where
  "pilot_le p q \<longleftrightarrow> (pilot_is_terminal p \<longrightarrow> pilot_is_terminal q) \<and> p_nodes q = p_nodes p \<and>
     (\<forall>t. p_finished_at p = Some t \<longrightarrow> p_finished_at q = Some t) \<and>
     (\<forall>t. p_active_at p = Some t \<longrightarrow> p_active_at q = Some t) \<and>
     (pilot_is_terminal p \<longrightarrow> p_active_at q = p_active_at p)"

definition task_le :: "task_record \<Rightarrow> task_record \<Rightarrow> bool" where
  "task_le t u \<longleftrightarrow> (task_is_terminal t \<longrightarrow> task_is_terminal u) \<and> t_requeues t \<le> t_requeues u"

definition pool_le :: "pool_state \<Rightarrow> pool_state \<Rightarrow> bool" where
  "pool_le ps ps' \<longleftrightarrow>
     (\<forall>k p. dget (pl_pilots ps) k = Some p \<longrightarrow> (\<exists>q. dget (pl_pilots ps') k = Some q \<and> pilot_le p q)) \<and>
     (\<forall>k t. dget (pl_tasks ps) k = Some t \<longrightarrow> (\<exists>u. dget (pl_tasks ps') k = Some u \<and> task_le t u))"

lemma pilot_le_refl [simp]: "pilot_le p p"
  by (simp add: pilot_le_def)

lemma task_le_refl [simp]: "task_le t t"
  by (simp add: task_le_def)

lemma pilot_le_trans: "pilot_le p q \<Longrightarrow> pilot_le q r \<Longrightarrow> pilot_le p r"
  by (auto simp: pilot_le_def)

lemma task_le_trans: "task_le p q \<Longrightarrow> task_le q r \<Longrightarrow> task_le p r"
  by (auto simp: task_le_def)

lemma pool_le_refl [simp]: "pool_le ps ps"
  by (auto simp: pool_le_def)

lemma pool_le_trans: "pool_le a b \<Longrightarrow> pool_le b c \<Longrightarrow> pool_le a c"
  unfolding pool_le_def by (meson pilot_le_trans task_le_trans)

text \<open>A section keeps the invariant and follows the order.\<close>

definition keeps :: "ext_policy \<Rightarrow> string option \<Rightarrow> (pool_state \<Rightarrow> pool_state out) \<Rightarrow> bool" where
  "keeps ext exc f \<longleftrightarrow> (\<forall>ps. pool_inv ext exc ps \<longrightarrow>
     pool_inv ext exc (fst (f ps)) \<and> pool_le ps (fst (f ps)))"

lemma keepsD: "keeps ext exc f \<Longrightarrow> pool_inv ext exc ps \<Longrightarrow> pool_inv ext exc (fst (f ps)) \<and> pool_le ps (fst (f ps))"
  by (simp add: keeps_def)

lemma keeps_id: "keeps ext exc (\<lambda>ps. (ps, fx ps))"
  by (simp add: keeps_def)

lemma keeps_seq_each:
  assumes "\<And>x. keeps ext exc (f x)"
  shows "keeps ext exc (seq_each f xs)"
proof (induction xs)
  case Nil
  then show ?case by (simp add: keeps_def)
next
  case (Cons x xs)
  show ?case unfolding keeps_def
  proof (intro allI impI)
    fix ps assume "pool_inv ext exc ps"
    with keepsD [OF assms [of x]] have 1: "pool_inv ext exc (fst (f x ps))" "pool_le ps (fst (f x ps))" by auto
    with keepsD [OF Cons.IH] have "pool_inv ext exc (fst (seq_each f xs (fst (f x ps))))"
        "pool_le (fst (f x ps)) (fst (seq_each f xs (fst (f x ps))))" by auto
    with 1 show "pool_inv ext exc (fst (seq_each f (x # xs) ps)) \<and> pool_le ps (fst (seq_each f (x # xs) ps))"
      by (auto simp: split_beta intro: pool_le_trans)
  qed
qed

section \<open>Updates\<close>

lemma upd_task_inv:
  assumes "pool_inv ext exc ps"
    and "\<And>t. dget (pl_tasks ps) tid = Some t \<Longrightarrow> t_task_id (f t) = tid \<and>
      task_ok (requeue_cap ext ps) exc (pl_pilots ps) (f t) \<and> task_le t (f t)"
  shows "pool_inv ext exc (upd_task tid f ps)" and "pool_le ps (upd_task tid f ps)"
  using assms by (auto simp: upd_task_def pool_inv_def pool_le_def requeue_cap_def split: option.splits)

lemma upd_pilot_inv:
  assumes "pool_inv ext exc ps"
    and "\<And>p. dget (pl_pilots ps) pid = Some p \<Longrightarrow> p_pid (f p) = pid \<and> pilot_ok (f p) \<and> pilot_le p (f p) \<and>
      (p_state p = PILOT_ACTIVE \<longrightarrow> p_state (f p) = PILOT_ACTIVE \<or> exc = Some pid)"
  shows "pool_inv ext exc (upd_pilot pid f ps)" and "pool_le ps (upd_pilot pid f ps)"
proof -
  have t: "task_ok cap exc (pl_pilots ps) u \<Longrightarrow> task_ok cap exc (pl_pilots (upd_pilot pid f ps)) u" for cap u
    using assms(2) by (fastforce simp: task_ok_def upd_pilot_def split: option.splits if_splits)
  have sel: "pl_tasks (upd_pilot pid f ps) = pl_tasks ps" "requeue_cap ext (upd_pilot pid f ps) = requeue_cap ext ps"
    by (simp_all add: upd_pilot_def requeue_cap_def split: option.splits)
  have "dict_ok (pl_pilots (upd_pilot pid f ps))"
    using assms(1) by (auto simp: upd_pilot_def pool_inv_def split: option.splits)
  moreover have "\<forall>k p. dget (pl_pilots (upd_pilot pid f ps)) k = Some p \<longrightarrow> p_pid p = k \<and> pilot_ok p"
    using assms by (auto simp: upd_pilot_def pool_inv_def split: option.splits)
  ultimately show "pool_inv ext exc (upd_pilot pid f ps)"
    using assms(1) t by (auto simp: pool_inv_def sel)
  show "pool_le ps (upd_pilot pid f ps)"
    using assms(2) by (auto simp: upd_pilot_def pool_le_def split: option.splits)
qed

lemma inv_other_fields:
  "pool_inv ext exc (drop_spool tid ps) = pool_inv ext exc ps"
  "pool_le ps (drop_spool tid ps')  = pool_le ps ps'"
  by (auto simp: pool_inv_def drop_spool_def requeue_cap_def pool_le_def)

lemma policy_cap [simp]: "policy_max_requeues ext (policy_on_pilot_state now p old new pol) = policy_max_requeues ext pol"
  by (cases pol) (auto simp: conservative_on_pilot_state_def Let_def)

lemma inv_policy:
  "pool_inv ext exc (ps\<lparr>pl_policy := policy_on_pilot_state now p old new (pl_policy ps)\<rparr>) = pool_inv ext exc ps"
  "pool_le ps0 (ps\<lparr>pl_policy := pol\<rparr>) = pool_le ps0 ps"
  by (auto simp: pool_inv_def requeue_cap_def pool_le_def)

lemma pool_invD:
  assumes "pool_inv ext exc ps"
  shows "dget (pl_pilots ps) k = Some p \<Longrightarrow> p_pid p = k \<and> pilot_ok p"
    and "dget (pl_tasks ps) k = Some t \<Longrightarrow> t_task_id t = k \<and> task_ok (requeue_cap ext ps) exc (pl_pilots ps) t"
  using assms by (auto simp: pool_inv_def)

lemma pilot_ok_dec:
  assumes "pilot_ok p"
  shows "pilot_ok (p\<lparr>p_in_flight := max 0 (p_in_flight p - 1)\<rparr>)"
  using assms by (auto simp: pilot_ok_def pilot_is_terminal_def)

lemma pilot_le_in_flight: "pilot_le p (p\<lparr>p_in_flight := n\<rparr>)"
  by (simp add: pilot_le_def pilot_is_terminal_def)

lemma free_slot_keeps:
  assumes "pool_inv ext exc ps"
  shows "pool_inv ext exc (free_slot pid ps) \<and> pool_le ps (free_slot pid ps)"
proof -
  let ?f = "\<lambda>p. p\<lparr>p_in_flight := max 0 (p_in_flight p - 1)\<rparr>"
  have "p_pid (?f p) = k \<and> pilot_ok (?f p) \<and> pilot_le p (?f p) \<and>
      (p_state p = PILOT_ACTIVE \<longrightarrow> p_state (?f p) = PILOT_ACTIVE \<or> exc = Some k)"
    if "dget (pl_pilots ps) k = Some p" for k p
    using pool_invD(1) [OF assms that] pilot_ok_dec [of p] pilot_le_in_flight by simp
  from upd_pilot_inv [OF assms this] show ?thesis unfolding free_slot_def by blast
qed

text \<open>Writing a terminal record into the task table.\<close>

lemma upd_terminal:
  assumes "pool_inv ext exc ps" "dget (pl_tasks ps) tid = Some t" "t_task_id t1 = t_task_id t"
    "task_is_terminal t1" "t_requeues t1 = t_requeues t"
  shows "pool_inv ext exc (upd_task tid (\<lambda>_. t1) ps) \<and> pool_le ps (upd_task tid (\<lambda>_. t1) ps)"
  using assms pool_invD(2) [OF assms(1,2)]
  by (intro conjI upd_task_inv) (auto simp: task_ok_def task_le_def task_terminal_iff)

lemma end_task_keeps:
  assumes "pool_inv ext exc ps" "dget (pl_tasks ps) tid = Some t" "t_task_id t1 = t_task_id t"
    "task_is_terminal t1" "t_requeues t1 = t_requeues t"
  shows "pool_inv ext exc (free_slot pid (drop_spool tid (upd_task tid (\<lambda>_. t1) ps))) \<and>
    pool_le ps (free_slot pid (drop_spool tid (upd_task tid (\<lambda>_. t1) ps)))"
proof -
  let ?ps1 = "drop_spool tid (upd_task tid (\<lambda>_. t1) ps)"
  have 1: "pool_inv ext exc ?ps1" "pool_le ps ?ps1"
    using upd_terminal [OF assms] by (simp_all add: inv_other_fields)
  then show ?thesis using free_slot_keeps [OF 1(1), of pid] pool_le_trans by blast
qed

lemma mark_task_failed_keeps: "keeps ext exc (mark_task_failed h tid reason)"
  unfolding keeps_def
proof (intro allI impI)
  fix ps assume inv: "pool_inv ext exc ps"
  show "pool_inv ext exc (fst (mark_task_failed h tid reason ps)) \<and> pool_le ps (fst (mark_task_failed h tid reason ps))"
  proof (cases "dget (pl_tasks ps) tid")
    case None
    then show ?thesis using inv by (simp add: mark_task_failed_def)
  next
    case (Some t)
    then show ?thesis
      using end_task_keeps [OF inv Some, of "t\<lparr>t_state := TASK_FAILED, t_error := Some reason,
          t_finished_at := Some (h_now h)\<rparr>" "t_pilot_id t"]
      by (simp add: mark_task_failed_def Let_def task_terminal_iff)
  qed
qed

lemma fail_all_keeps: "keeps ext exc (fail_all h reason tids)"
  unfolding fail_all_def by (intro keeps_seq_each mark_task_failed_keeps)

section \<open>Finalising\<close>

lemma dset_dset: "dset k v (dset k w d) = dset k v d"
  by (induction d) auto

lemma upd_task_twice: "upd_task tid (\<lambda>_. b) (upd_task tid (\<lambda>_. a) ps) = upd_task tid (\<lambda>_. b) ps"
  by (auto simp: upd_task_def dset_dset split: option.splits)

lemma dget_upd_task: "dget (pl_tasks (upd_task tid f ps)) k =
    (if k = tid then map_option f (dget (pl_tasks ps) tid) else dget (pl_tasks ps) k)"
  by (auto simp: upd_task_def split: option.splits)

lemma dget_upd_pilot: "dget (pl_pilots (upd_pilot pid f ps)) k =
    (if k = pid then map_option f (dget (pl_pilots ps) pid) else dget (pl_pilots ps) k)"
  by (auto simp: upd_pilot_def split: option.splits)

lemma upd_sel [simp]:
  "pl_pilots (upd_task tid f ps) = pl_pilots ps" "pl_tasks (upd_pilot pid g ps) = pl_tasks ps"
  "pl_policy (upd_task tid f ps) = pl_policy ps" "pl_policy (upd_pilot pid g ps) = pl_policy ps"
  "pl_tasks (free_slot pid' ps) = pl_tasks ps" "pl_tasks (drop_spool tid ps) = pl_tasks ps"
  "pl_pilots (drop_spool tid ps) = pl_pilots ps" "pl_policy (free_slot pid' ps) = pl_policy ps"
  "pl_policy (drop_spool tid ps) = pl_policy ps"
  by (auto simp: upd_task_def upd_pilot_def free_slot_def drop_spool_def split: option.splits)

lemma mark_task_failed_tasks:
  "dget (pl_tasks (fst (mark_task_failed h tid reason ps))) k =
    (if k = tid then map_option (\<lambda>t. t\<lparr>t_state := TASK_FAILED, t_error := Some reason,
       t_finished_at := Some (h_now h)\<rparr>) (dget (pl_tasks ps) tid) else dget (pl_tasks ps) k)"
  by (auto simp: mark_task_failed_def Let_def dget_upd_task split: option.splits)

lemma reclaim_task_keeps:
  assumes "h_ext h = ext"
  shows "keeps ext exc (reclaim_task h pid tid)"
  unfolding keeps_def
proof (intro allI impI)
  fix ps assume inv: "pool_inv ext exc ps"
  show "pool_inv ext exc (fst (reclaim_task h pid tid ps)) \<and> pool_le ps (fst (reclaim_task h pid tid ps))"
  proof (cases "\<exists>t. dget (pl_tasks ps) tid = Some t \<and> t_pilot_id t = Some pid \<and> \<not> task_is_terminal t")
    case False
    then show ?thesis using inv by (auto simp: reclaim_task_def split: option.splits)
  next
    case True
    then obtain t where t: "dget (pl_tasks ps) tid = Some t" "t_pilot_id t = Some pid" "\<not> task_is_terminal t"
      by blast
    note ok = pool_invD(2) [OF inv t(1)]
    define t1 where "t1 = t\<lparr>t_rhapsody_uid := (if (case t_rhapsody_uid t of None \<Rightarrow> False | Some u \<Rightarrow> u \<noteq> [])
        then None else t_rhapsody_uid t), t_requeues := t_requeues t + 1, t_pilot_id := None, t_member_id := None\<rparr>"
    show ?thesis
    proof (cases "policy_max_requeues (h_ext h) (pl_policy ps) < t_requeues t + 1")
      case True
      let ?t2 = "t1\<lparr>t_state := TASK_FAILED, t_error := Some ''requeued too often (pilot lost)'',
         t_finished_at := Some (h_now h)\<rparr>"
      have "fst (reclaim_task h pid tid ps) = free_slot None (drop_spool tid (upd_task tid (\<lambda>_. ?t2) ps))"
        using t True by (simp add: reclaim_task_def Let_def mark_task_failed_def dget_upd_task
            upd_task_twice t1_def split: option.splits)
      moreover have "pool_inv ext exc (upd_task tid (\<lambda>_. ?t2) ps) \<and> pool_le ps (upd_task tid (\<lambda>_. ?t2) ps)"
        by (intro conjI upd_task_inv [OF inv])
          (use ok t in \<open>auto simp: t1_def task_ok_def task_le_def task_terminal_iff\<close>)
      ultimately show ?thesis
        using free_slot_keeps [of ext exc "drop_spool tid (upd_task tid (\<lambda>_. ?t2) ps)" None]
          pool_le_trans [of ps "drop_spool tid (upd_task tid (\<lambda>_. ?t2) ps)"]
        by (simp add: inv_other_fields)
    next
      case False
      have "fst (reclaim_task h pid tid ps) = upd_task tid (\<lambda>_. t1\<lparr>t_state := TASK_QUEUED\<rparr>) ps"
        using t False by (simp add: reclaim_task_def Let_def t1_def)
      moreover have "pool_inv ext exc (upd_task tid (\<lambda>_. t1\<lparr>t_state := TASK_QUEUED\<rparr>) ps) \<and>
          pool_le ps (upd_task tid (\<lambda>_. t1\<lparr>t_state := TASK_QUEUED\<rparr>) ps)"
        by (intro conjI upd_task_inv [OF inv])
          (use ok t False assms in \<open>auto simp: t1_def task_ok_def task_le_def requeue_cap_def\<close>)
      ultimately show ?thesis by simp
    qed
  qed
qed

lemma reclaim_task_tasks:
  "k \<noteq> tid \<Longrightarrow> dget (pl_tasks (fst (reclaim_task h pid tid ps))) k = dget (pl_tasks ps) k"
  "dget (pl_tasks (fst (reclaim_task h pid tid ps))) tid = Some t \<Longrightarrow> \<not> task_is_terminal t \<Longrightarrow>
    t_pilot_id t \<noteq> Some pid"
  by (auto simp: reclaim_task_def Let_def split_beta mark_task_failed_tasks dget_upd_task task_terminal_iff
      split: option.splits if_splits)

lemma seq_reclaim_tasks:
  "dget (pl_tasks (fst (seq_each (reclaim_task h pid) tids ps))) k = Some t \<Longrightarrow>
    k \<in> set tids \<or> dget (pl_tasks ps) k = Some t \<and> \<not> (\<not> task_is_terminal t \<and> t_pilot_id t = Some pid) \<Longrightarrow>
    \<not> task_is_terminal t \<Longrightarrow> t_pilot_id t \<noteq> Some pid"
proof (induction tids arbitrary: ps)
  case (Cons tid tids)
  let ?ps1 = "fst (reclaim_task h pid tid ps)"
  have fin: "dget (pl_tasks (fst (seq_each (reclaim_task h pid) tids ?ps1))) k = Some t"
    using Cons.prems(1) by (simp add: split_beta)
  show ?case
  proof (cases "k \<in> set tids")
    case True
    then show ?thesis using Cons.IH [OF fin] Cons.prems(3) by blast
  next
    case False
    have same: "dget (pl_tasks (fst (seq_each (reclaim_task h pid) tids ps'))) k = dget (pl_tasks ps') k" for ps'
      using False by (induction tids arbitrary: ps') (auto simp: split_beta reclaim_task_tasks(1))
    have now: "dget (pl_tasks ?ps1) k = Some t" using fin same by simp
    show ?thesis
    proof (cases "k = tid")
      case True
      then show ?thesis using reclaim_task_tasks(2) now Cons.prems(3) by blast
    next
      case False
      then show ?thesis using now reclaim_task_tasks(1) [OF False, of h pid ps] Cons.prems \<open>k \<notin> set tids\<close> by auto
    qed
  qed
qed simp

lemma task_ok_weaken: "task_ok cap None pilots t \<Longrightarrow> task_ok cap exc pilots t"
  unfolding task_ok_def by blast

lemma pool_inv_weaken: "pool_inv ext None ps \<Longrightarrow> pool_inv ext exc ps"
  unfolding pool_inv_def using task_ok_weaken by blast

lemma task_ok_strengthen:
  "task_ok cap (Some pid) pilots t \<Longrightarrow> \<not> task_is_terminal t \<longrightarrow> t_pilot_id t \<noteq> Some pid \<Longrightarrow>
    task_ok cap None pilots t"
  by (auto simp: task_ok_def task_terminal_iff)

lemma pool_inv_strengthen:
  assumes "pool_inv ext (Some pid) ps"
    and "\<And>k t. dget (pl_tasks ps) k = Some t \<Longrightarrow> \<not> task_is_terminal t \<Longrightarrow> t_pilot_id t \<noteq> Some pid"
  shows "pool_inv ext None ps"
  using assms(1) task_ok_strengthen assms(2) unfolding pool_inv_def by blast

lemma finalized_ok:
  assumes "pilot_ok p" "new = PILOT_DONE \<or> new = PILOT_FAILED"
  shows "pilot_ok (finalized h new reason p) \<and> pilot_le p (finalized h new reason p)"
  using assms by (auto simp: pilot_ok_def pilot_le_def finalized_def pilot_terminal_iff split: option.splits)

lemma finalize_pilot_keeps:
  assumes h: "h_ext h = ext" and new: "new = PILOT_DONE \<or> new = PILOT_FAILED"
  shows "keeps ext None (finalize_pilot h pid new reason)"
  unfolding keeps_def
proof (intro allI impI)
  fix ps assume inv: "pool_inv ext None ps"
  show "pool_inv ext None (fst (finalize_pilot h pid new reason ps)) \<and>
      pool_le ps (fst (finalize_pilot h pid new reason ps))"
  proof (cases "dget (pl_pilots ps) pid")
    case None
    then show ?thesis using inv by (simp add: finalize_pilot_def)
  next
    case (Some p)
    let ?p1 = "finalized h new reason p"
    let ?ps0 = "upd_pilot pid (\<lambda>_. ?p1) ps"
    let ?seq = "seq_each (reclaim_task h pid) (map fst (pl_tasks ps)) ?ps0"
    have p: "p_pid p = pid" "pilot_ok p" using pool_invD(1) [OF inv Some] by auto
    have 0: "pool_inv ext (Some pid) ?ps0" "pool_le ps ?ps0"
      by (rule upd_pilot_inv [OF pool_inv_weaken [OF inv]];
          use finalized_ok [OF p(2) new] p Some in \<open>auto simp: finalized_def\<close>)+
    have 1: "pool_inv ext (Some pid) (fst ?seq)" "pool_le ?ps0 (fst ?seq)"
      using keepsD [OF keeps_seq_each [where f = "reclaim_task h pid", OF reclaim_task_keeps [OF h]] 0(1)] by auto
    have "pool_inv ext None (fst ?seq)"
    proof (rule pool_inv_strengthen [OF 1(1)])
      fix k t assume kt: "dget (pl_tasks (fst ?seq)) k = Some t" "\<not> task_is_terminal t"
      show "t_pilot_id t \<noteq> Some pid"
      proof (cases "k \<in> set (map fst (pl_tasks ps))")
        case False
        have keep: "dget (pl_tasks (fst (seq_each (reclaim_task h pid) tids ps'))) k = dget (pl_tasks ps') k"
          if "k \<notin> set tids" for tids ps'
          using that by (induction tids arbitrary: ps') (auto simp: split_beta reclaim_task_tasks(1))
        have "dget (pl_tasks ps) k = None" using False by (simp add: map_of_eq_None_iff)
        then show ?thesis using keep [OF False] kt by simp
      qed (use seq_reclaim_tasks [OF kt(1)] kt(2) in blast)
    qed
    then show ?thesis
      using Some 0 1 by (auto simp: finalize_pilot_def Let_def split_beta inv_policy intro: pool_le_trans)
  qed
qed

lemma mark_pilot_keeps:
  assumes "h_ext h = ext"
  shows "keeps ext None (mark_pilot_failed h pid reason)" "keeps ext None (mark_pilot_done h pid reason)"
proof -
  have "mark_pilot_failed h pid reason = finalize_pilot h pid PILOT_FAILED reason"
    "mark_pilot_done h pid reason = finalize_pilot h pid PILOT_DONE reason"
    by (auto simp: mark_pilot_failed_def mark_pilot_done_def)
  then show "keeps ext None (mark_pilot_failed h pid reason)" "keeps ext None (mark_pilot_done h pid reason)"
    using finalize_pilot_keeps [OF assms] by auto
qed

section \<open>Claiming and draining\<close>

lemma keepsI:
  assumes "\<And>ps. pool_inv ext exc ps \<Longrightarrow> pool_inv ext exc (fst (f ps)) \<and> pool_le ps (fst (f ps))"
  shows "keeps ext exc f"
  using assms by (simp add: keeps_def)

lemma pilot_ok_take:
  assumes "pilot_ok p" "p_state p = PILOT_ACTIVE" "p_in_flight p < p_capacity p"
  shows "pilot_ok (take_slot p) \<and> pilot_le p (take_slot p)"
  using assms by (auto simp: pilot_ok_def pilot_le_def take_slot_def pilot_terminal_iff)

lemma claim_keeps:
  assumes inv: "pool_inv ext None ps"
    and t: "dget (pl_tasks ps) (t_task_id t) = Some t" "t_state t = TASK_QUEUED"
    and p: "dget (pl_pilots ps) (p_pid p) = Some p" "p_state p = PILOT_ACTIVE" "p_in_flight p < p_capacity p"
  shows "pool_inv ext None (fst (snd (claim h t p ps))) \<and> pool_le ps (fst (snd (claim h t p ps)))"
proof -
  let ?tid = "t_task_id t"
  define ps1 where "ps1 = (if t_cwd_assigned t
    then upd_task ?tid (\<lambda>t. t\<lparr>t_cwd := fst (assigned_cwd h ps p ?tid)\<rparr>) ps else ps)"
  note ok = pool_invD(2) [OF inv t(1)]
  have 1: "pool_inv ext None ps1" "pool_le ps ps1"
    using upd_task_inv [OF inv, of ?tid "\<lambda>t. t\<lparr>t_cwd := fst (assigned_cwd h ps p ?tid)\<rparr>"] ok t inv
    by (auto simp: ps1_def task_ok_def task_le_def task_is_terminal_def)
  obtain t1 where t1: "dget (pl_tasks ps1) ?tid = Some t1" "t_state t1 = TASK_QUEUED"
    using t by (cases "t_cwd_assigned t") (auto simp: ps1_def dget_upd_task)
  have p1: "dget (pl_pilots ps1) (p_pid p) = Some p" using p by (simp add: ps1_def)
  note ok1 = pool_invD(2) [OF 1(1) t1(1)]
  have 2: "pool_inv ext None (upd_task ?tid (claimed h p) ps1)" "pool_le ps1 (upd_task ?tid (claimed h p) ps1)"
    by (rule upd_task_inv [OF 1(1)], use ok1 t1 p1 p in
        \<open>simp add: claimed_def task_ok_def task_le_def task_terminal_iff\<close>)+
  have take: "p_pid (take_slot q) = p_pid p \<and> pilot_ok (take_slot q) \<and> pilot_le q (take_slot q) \<and>
      (p_state q = PILOT_ACTIVE \<longrightarrow> p_state (take_slot q) = PILOT_ACTIVE \<or> None = Some (p_pid p))"
    if "dget (pl_pilots (upd_task ?tid (claimed h p) ps1)) (p_pid p) = Some q" for q
    using that p1 pilot_ok_take [OF _ p(2,3)] pool_invD(1) [OF inv p(1)] p by (auto simp: take_slot_def)
  have 3: "pool_inv ext None (upd_pilot (p_pid p) take_slot (upd_task ?tid (claimed h p) ps1))"
      "pool_le (upd_task ?tid (claimed h p) ps1) (upd_pilot (p_pid p) take_slot (upd_task ?tid (claimed h p) ps1))"
    using upd_pilot_inv [OF 2(1) take] by blast+
  have failed: "pool_inv ext None (fst (mark_task_failed h ?tid r ps1)) \<and> pool_le ps (fst (mark_task_failed h ?tid r ps1))" for r
    using keepsD [OF mark_task_failed_keeps 1(1)] 1(2) pool_le_trans by blast
  have "pool_le ps (upd_pilot (p_pid p) take_slot (upd_task ?tid (claimed h p) ps1))"
    using 1 2 3 pool_le_trans by meson
  then show ?thesis
    unfolding claim_def Let_def ps1_def [symmetric] using failed 3(1) by (simp split: option.splits)
qed

lemma dvalues_dgetD:
  assumes "pool_inv ext exc ps"
  shows "t \<in> set (dvalues (pl_tasks ps)) \<Longrightarrow> dget (pl_tasks ps) (t_task_id t) = Some t"
    and "p \<in> set (dvalues (pl_pilots ps)) \<Longrightarrow> dget (pl_pilots ps) (p_pid p) = Some p"
  using assms dvalues_dget [of "pl_tasks ps" t] dvalues_dget [of "pl_pilots ps" p]
  by (auto simp: pool_inv_def)

context ext_sound
begin

lemma drain_loop_keeps:
  assumes "h_ext h = ext" "pool_inv ext None ps"
  shows "pool_inv ext None (fst (snd (drain_loop h n assigned ps))) \<and> pool_le ps (fst (snd (drain_loop h n assigned ps)))"
  using assms(2)
proof (induction n arbitrary: assigned ps)
  case (Suc n)
  show ?case
  proof (cases "policy_pick ext (pl_policy ps) (h_now h) ps")
    case (Inr r)
    show ?thesis
    proof (cases r)
      case (Some tp)
      obtain t p where tp: "tp = (t, p)" by (cases tp)
      have pick: "policy_pick ext (pl_policy ps) (h_now h) ps = Inr (Some (t, p))" using Inr Some tp by simp
      have t: "dget (pl_tasks ps) (t_task_id t) = Some t" "t_state t = TASK_QUEUED"
        using pool_policy.pick_task [OF pick] dvalues_dgetD(1) [OF Suc.prems] by auto
      have p: "dget (pl_pilots ps) (p_pid p) = Some p" "p_state p = PILOT_ACTIVE" "p_in_flight p < p_capacity p"
        using pool_policy.pick_pilot [OF pick] pool_policy.pick_sound [OF pick] dvalues_dgetD(2) [OF Suc.prems] by auto
      obtain ok ps1 fx where c: "claim h t p ps = (ok, ps1, fx)" by (cases "claim h t p ps") auto
      have k: "pool_inv ext None ps1" "pool_le ps ps1"
        using claim_keeps [OF Suc.prems t p, of h] c by auto
      let ?as = "if ok then assign_to (p_pid p) (t_task_id t) assigned else assigned"
      have "pool_inv ext None (fst (snd (drain_loop h n ?as ps1)))" "pool_le ps1 (fst (snd (drain_loop h n ?as ps1)))"
        using Suc.IH [OF k(1)] by auto
      then show ?thesis
        using pick c t k(2) assms(1) by (cases ok) (auto simp: split_beta intro: pool_le_trans)
    qed (use Inr Suc.prems assms(1) in simp)
  qed (use Suc.prems assms(1) in simp)
qed simp

lemma drain_pending_keeps:
  assumes "h_ext h = ext"
  shows "keeps ext None (drain_pending h)"
  by (rule keepsI) (use drain_loop_keeps [OF assms] in \<open>auto simp: drain_pending_def split_beta\<close>)

end

section \<open>Topology\<close>

lemma upd_pilot_keeps:
  assumes "\<And>p. p_pid (f p) = p_pid p" "\<And>p. pilot_ok p \<Longrightarrow> pilot_ok (f p)" "\<And>p. pilot_le p (f p)"
    "\<And>p. p_state (f p) = p_state p" "pool_inv ext exc ps"
  shows "pool_inv ext exc (upd_pilot pid f ps) \<and> pool_le ps (upd_pilot pid f ps)"
proof -
  have "p_pid (f p) = pid \<and> pilot_ok (f p) \<and> pilot_le p (f p) \<and>
      (p_state p = PILOT_ACTIVE \<longrightarrow> p_state (f p) = PILOT_ACTIVE \<or> exc = Some pid)"
    if "dget (pl_pilots ps) pid = Some p" for p
    using pool_invD(1) [OF assms(5) that] assms(1-4) by simp
  from upd_pilot_inv [OF assms(5) this] show ?thesis by blast
qed

lemma set_accepting_keeps:
  "pool_inv ext exc ps \<Longrightarrow> pool_inv ext exc (upd_pilot pid (set_accepting b) ps) \<and>
    pool_le ps (upd_pilot pid (set_accepting b) ps)"
  by (rule upd_pilot_keeps) (auto simp: set_accepting_def pilot_ok_def pilot_le_def pilot_is_terminal_def)

lemma activated_ok:
  assumes "pilot_ok p" "p_state p \<in> {PILOT_PENDING, PILOT_STARTING}" "0 < cap"
  shows "pilot_ok (p\<lparr>p_capacity := cap, p_state := PILOT_ACTIVE, p_active_at := Some t\<rparr>) \<and>
    pilot_le p (p\<lparr>p_capacity := cap, p_state := PILOT_ACTIVE, p_active_at := Some t\<rparr>)"
  using assms by (auto simp: pilot_ok_def pilot_le_def pilot_terminal_iff)

context ext_sound
begin

lemma activate_pilot_keeps:
  assumes h: "h_ext h = ext" and inv: "pool_inv ext None ps"
    and p: "dget (pl_pilots ps) pid = Some p" "p_state p \<in> {PILOT_PENDING, PILOT_STARTING}"
  shows "pool_inv ext None (fst (activate_pilot h pid ps)) \<and> pool_le ps (fst (activate_pilot h pid ps))"
proof -
  define cap where "cap = p_nodes p * p_cpus_per_node p"
  define p1 where "p1 = p\<lparr>p_capacity := cap, p_state := PILOT_ACTIVE, p_active_at := Some (h_now h)\<rparr>"
  define ps1 where "ps1 = (upd_pilot pid (\<lambda>_. p1) ps)
    \<lparr>pl_policy := policy_on_pilot_state (h_now h) p1 (p_state p) PILOT_ACTIVE (pl_policy (upd_pilot pid (\<lambda>_. p1) ps))\<rparr>"
  have failed: "pool_inv ext None (fst (mark_pilot_failed h pid r ps)) \<and> pool_le ps (fst (mark_pilot_failed h pid r ps))" for r
    using keepsD [OF mark_pilot_keeps(1) [OF h] inv] .
  have run: "pool_inv ext None (fst (drain_pending h ps1)) \<and> pool_le ps (fst (drain_pending h ps1))" if "0 < cap"
  proof -
    have "pilot_ok p1 \<and> pilot_le p p1"
      unfolding p1_def using activated_ok pool_invD(1) [OF inv p(1)] p(2) that by blast
    moreover have "p_pid p1 = pid" "p_state p1 = PILOT_ACTIVE"
      using pool_invD(1) [OF inv p(1)] by (simp_all add: p1_def)
    ultimately have "pool_inv ext None (upd_pilot pid (\<lambda>_. p1) ps) \<and> pool_le ps (upd_pilot pid (\<lambda>_. p1) ps)"
      by (intro conjI upd_pilot_inv [OF inv]) (simp_all add: p(1))
    then have "pool_inv ext None ps1 \<and> pool_le ps ps1" by (simp add: ps1_def inv_policy del: upd_sel)
    then show ?thesis using keepsD [OF drain_pending_keeps [OF h], of ps1] pool_le_trans by blast
  qed
  show ?thesis
    unfolding activate_pilot_def p(1) option.case Let_def cap_def [symmetric] p1_def [symmetric] ps1_def [symmetric]
    using failed run inv by (auto simp: split_beta)
qed

lemma pilot_present_keeps:
  assumes "h_ext h = ext"
  shows "keeps ext None (pilot_present h pid)"
proof (rule keepsI)
  fix ps assume inv: "pool_inv ext None ps"
  show "pool_inv ext None (fst (pilot_present h pid ps)) \<and> pool_le ps (fst (pilot_present h pid ps))"
  proof (cases "dget (pl_pilots ps) pid")
    case (Some p)
    have "pool_inv ext None (fst (drain_pending h (upd_pilot pid (set_accepting True) ps))) \<and>
        pool_le ps (fst (drain_pending h (upd_pilot pid (set_accepting True) ps)))"
      using set_accepting_keeps [OF inv, of pid True] keepsD [OF drain_pending_keeps [OF assms]] pool_le_trans by blast
    then show ?thesis
      using Some inv activate_pilot_keeps [OF assms inv Some] by (auto simp: pilot_present_def split_beta)
  qed (use inv in \<open>simp add: pilot_present_def\<close>)
qed

lemma pilot_lost_keeps:
  assumes "h_ext h = ext"
  shows "keeps ext None (pilot_lost h pid)"
proof (rule keepsI)
  fix ps assume inv: "pool_inv ext None ps"
  have seq: "pool_inv ext None (fst (drain_pending h (fst (f ps)))) \<and> pool_le ps (fst (drain_pending h (fst (f ps))))"
    if "keeps ext None f" for f
    using keepsD [OF that inv] keepsD [OF drain_pending_keeps [OF assms], of "fst (f ps)"] pool_le_trans by blast
  show "pool_inv ext None (fst (pilot_lost h pid ps)) \<and> pool_le ps (fst (pilot_lost h pid ps))"
    using inv seq [OF mark_pilot_keeps(1) [OF assms]] seq [OF mark_pilot_keeps(2) [OF assms]]
    by (auto simp: pilot_lost_def split_beta split: option.splits)
qed

lemma reconcile_one_keeps:
  assumes "h_ext h = ext"
  shows "keeps ext None (reconcile_one h participants pid)"
proof (rule keepsI)
  fix ps assume inv: "pool_inv ext None ps"
  show "pool_inv ext None (fst (reconcile_one h participants pid ps)) \<and>
      pool_le ps (fst (reconcile_one h participants pid ps))"
    using inv keepsD [OF pilot_present_keeps [OF assms] inv] keepsD [OF pilot_lost_keeps [OF assms] inv]
      set_accepting_keeps [OF inv, of pid False]
    by (auto simp: reconcile_one_def split: option.splits)
qed

lemma reconcile_pilots_for_keeps:
  assumes "h_ext h = ext"
  shows "keeps ext None (reconcile_pilots_for h participants)"
proof (rule keepsI)
  fix ps assume "pool_inv ext None ps"
  then show "pool_inv ext None (fst (reconcile_pilots_for h participants ps)) \<and>
      pool_le ps (fst (reconcile_pilots_for h participants ps))"
    unfolding reconcile_pilots_for_def
    by (intro keepsD [OF keeps_seq_each] reconcile_one_keeps [OF assms])
qed

end

section \<open>Pilots\<close>

lemma fresh_ok: "pilot_ok (fresh_record h ps pid key m s)" "p_pid (fresh_record h ps pid key m s) = pid"
  by (auto simp: pilot_ok_def fresh_record_def new_pilot_def Let_def pilot_terminal_iff)

lemma add_pilot_keeps:
  assumes "pool_inv ext None ps" "dget (pl_pilots ps) pid = None" "pilot_ok r" "p_pid r = pid"
  shows "pool_inv ext None (ps\<lparr>pl_pilots := dset pid r (pl_pilots ps)\<rparr>) \<and>
    pool_le ps (ps\<lparr>pl_pilots := dset pid r (pl_pilots ps)\<rparr>)"
proof -
  have "task_ok c None (pl_pilots ps) t \<Longrightarrow> task_ok c None (dset pid r (pl_pilots ps)) t" for c t
    using assms(2) unfolding task_ok_def by force
  then show ?thesis using assms by (auto simp: pool_inv_def pool_le_def requeue_cap_def)
qed

context ext_sound
begin

lemma submit_pilot_keeps:
  assumes h: "h_ext h = ext" and inv: "pool_inv ext None ps" and new: "dget (pl_pilots ps) pid = None"
  shows "pool_inv ext None (fst (snd (submit_pilot h participants pid size_key mid ps))) \<and>
    pool_le ps (fst (snd (submit_pilot h participants pid size_key mid ps)))"
proof -
  have add: "pool_inv ext None (ps\<lparr>pl_pilots := dset pid (fresh_record h ps pid k m s) (pl_pilots ps)\<rparr>) \<and>
      pool_le ps (ps\<lparr>pl_pilots := dset pid (fresh_record h ps pid k m s) (pl_pilots ps)\<rparr>)" for k m s
    by (rule add_pilot_keeps [OF inv new fresh_ok])
  have "pool_inv ext None (fst (reconcile_pilots_for h participants ps1)) \<and>
      pool_le ps (fst (reconcile_pilots_for h participants ps1))"
    if "pool_inv ext None ps1 \<and> pool_le ps ps1" for ps1
    using keepsD [OF reconcile_pilots_for_keeps [OF h]] that pool_le_trans by blast
  with add inv show ?thesis
    by (auto simp: submit_pilot_def Let_def split_beta split: sum.splits option.splits)
qed

end

lemma pilot_field_keeps:
  "pool_inv ext exc ps \<Longrightarrow> pool_inv ext exc (upd_pilot pid (\<lambda>p. p\<lparr>p_child_endpoint_name := g p\<rparr>) ps) \<and>
    pool_le ps (upd_pilot pid (\<lambda>p. p\<lparr>p_child_endpoint_name := g p\<rparr>) ps)"
  "pool_inv ext exc ps \<Longrightarrow> pool_inv ext exc (upd_pilot pid (\<lambda>p. p\<lparr>p_psij_job_id := j\<rparr>) ps) \<and>
    pool_le ps (upd_pilot pid (\<lambda>p. p\<lparr>p_psij_job_id := j\<rparr>) ps)"
  by (rule upd_pilot_keeps; auto simp: pilot_ok_def pilot_le_def pilot_is_terminal_def)+

lemma pilot_submit_begin_keeps: "h_ext h = ext \<Longrightarrow> keeps ext None (pilot_submit_begin h pid s m)"
  by (rule keepsI) (auto simp: pilot_submit_begin_def keepsD [OF mark_pilot_keeps(1)] split: option.splits)

lemma pilot_submit_client_keeps: "h_ext h = ext \<Longrightarrow> keeps ext None (pilot_submit_client h got pid s m)"
  by (rule keepsI) (auto simp: pilot_submit_client_def keepsD [OF mark_pilot_keeps(1)] pilot_field_keeps
      split: option.splits)

lemma pilot_submit_result_keeps:
  assumes h: "h_ext h = ext"
  shows "keeps ext None (pilot_submit_result h answer pid)"
proof (rule keepsI)
  fix ps assume inv: "pool_inv ext None ps"
  show "pool_inv ext None (fst (pilot_submit_result h answer pid ps)) \<and>
      pool_le ps (fst (pilot_submit_result h answer pid ps))"
  proof (cases "dget (pl_pilots ps) pid")
    case (Some p)
    let ?f = "\<lambda>j. p\<lparr>p_psij_job_id := j, p_state := PILOT_STARTING\<rparr>"
    have start: "pool_inv ext None (upd_pilot pid (\<lambda>_. ?f j) ps) \<and> pool_le ps (upd_pilot pid (\<lambda>_. ?f j) ps)"
      if "p_state p = PILOT_PENDING" for j
      by (intro conjI upd_pilot_inv [OF inv]) (use pool_invD(1) [OF inv Some] Some that in
          \<open>auto simp: pilot_ok_def pilot_le_def pilot_terminal_iff\<close>)
    show ?thesis
      using Some inv keepsD [OF mark_pilot_keeps(1) [OF h] inv] pilot_field_keeps(2) [OF inv, of pid] start
      by (auto simp: pilot_submit_result_def Let_def inv_policy simp del: upd_sel split: sum.splits)
  qed (use inv in \<open>simp add: pilot_submit_result_def\<close>)
qed

lemma pilot_cancel_keeps:
  assumes "h_ext h = ext"
  shows "keeps ext None (pilot_cancel_begin h known pid)" "keeps ext None (pilot_cancel_client h got pid)"
    "keeps ext None (pilot_cancel_result h pid)"
  using keepsD [OF mark_pilot_keeps(1) [OF assms]] keepsD [OF mark_pilot_keeps(2) [OF assms]]
  by (auto simp: keeps_def pilot_cancel_begin_def pilot_cancel_client_def pilot_cancel_result_def split_beta
      split: option.splits)

lemma probe_keeps:
  assumes "h_ext h = ext"
  shows "keeps ext None (probe_begin h pid)" "keeps ext None (probe_client got pid)"
    "keeps ext None (probe_result h state pid)"
  using keepsD [OF mark_pilot_keeps(1) [OF assms]]
  by (auto simp: keeps_def probe_begin_def probe_client_def probe_result_def split: option.splits)

section \<open>Tasks\<close>

lemma uid_keeps:
  assumes "pool_inv ext exc ps"
  shows "pool_inv ext exc (upd_task tid (\<lambda>t. t\<lparr>t_rhapsody_uid := g t\<rparr>) ps) \<and>
    pool_le ps (upd_task tid (\<lambda>t. t\<lparr>t_rhapsody_uid := g t\<rparr>) ps)"
proof -
  have "t_task_id (t\<lparr>t_rhapsody_uid := g t\<rparr>) = tid \<and>
      task_ok (requeue_cap ext ps) exc (pl_pilots ps) (t\<lparr>t_rhapsody_uid := g t\<rparr>) \<and>
      task_le t (t\<lparr>t_rhapsody_uid := g t\<rparr>)" if "dget (pl_tasks ps) tid = Some t" for t
    using pool_invD(2) [OF assms that] by (simp add: task_ok_def task_le_def task_is_terminal_def)
  from upd_task_inv [OF assms this] show ?thesis by blast
qed

lemma map_uid_keeps: "keeps ext exc (map_uid tid)"
  by (rule keepsI) (auto simp: map_uid_def uid_keeps split: option.splits)

lemma rh_submit_keeps:
  "keeps ext exc (rh_submit_begin h tids pid)" "keeps ext exc (rh_submit_client h got tids pid)"
  "keeps ext exc (place_begin h got tids pid)" "keeps ext exc (place_one h failure tid todo ok pid)"
  using keepsD [OF fail_all_keeps [of ext exc h]] keepsD [OF mark_task_failed_keeps [of ext exc h]]
  by (auto simp: keeps_def rh_submit_begin_def rh_submit_client_def place_begin_def place_one_def split_beta
      split: option.splits)

lemma rh_submit_forward_keeps: "keeps ext exc (rh_submit_forward ok pid)"
proof (rule keepsI)
  fix ps assume "pool_inv ext exc ps"
  then show "pool_inv ext exc (fst (rh_submit_forward ok pid ps)) \<and> pool_le ps (fst (rh_submit_forward ok pid ps))"
    using keepsD [OF keeps_seq_each [where f = map_uid, OF map_uid_keeps], of ext exc ps ok]
    by (auto simp: rh_submit_forward_def split_beta)
qed

lemma fail_submitted_keeps: "keeps ext exc (fail_submitted h e tu)"
proof (rule keepsI)
  fix ps assume inv: "pool_inv ext exc ps"
  let ?ps1 = "upd_task (fst tu) (\<lambda>t. t\<lparr>t_rhapsody_uid := None\<rparr>) ps"
  have "pool_inv ext exc (fst (mark_task_failed h tid r ?ps1)) \<and> pool_le ps (fst (mark_task_failed h tid r ?ps1))" for tid r
    using uid_keeps [OF inv, of "fst tu" "\<lambda>_. None"] keepsD [OF mark_task_failed_keeps, of ext exc ?ps1]
      pool_le_trans by blast
  then show "pool_inv ext exc (fst (fail_submitted h e tu ps)) \<and> pool_le ps (fst (fail_submitted h e tu ps))"
    using inv by (auto simp: fail_submitted_def split_beta split: option.splits)
qed

lemma rh_submit_result_keeps: "keeps ext exc (rh_submit_result h answer tus)"
proof (cases answer)
  case (Inl e)
  then have "rh_submit_result h answer tus = seq_each (fail_submitted h e) tus"
    by (auto simp: rh_submit_result_def)
  then show ?thesis using keeps_seq_each [where f = "fail_submitted h e", OF fail_submitted_keeps] by simp
qed (simp add: keeps_def rh_submit_result_def)

lemma cancel_finish_keeps: "keeps ext exc (cancel_finish h tid pilot)"
proof (rule keepsI)
  fix ps assume inv: "pool_inv ext exc ps"
  show "pool_inv ext exc (fst (cancel_finish h tid pilot ps)) \<and> pool_le ps (fst (cancel_finish h tid pilot ps))"
  proof (cases "dget (pl_tasks ps) tid")
    case (Some t)
    let ?t1 = "t\<lparr>t_state := TASK_CANCELED, t_finished_at := Some (h_now h)\<rparr>"
    have fin: "t_task_id ?t1 = t_task_id t" "task_is_terminal ?t1" "t_requeues ?t1 = t_requeues t"
      by (simp_all add: task_terminal_iff)
    show ?thesis
      using Some upd_terminal [OF inv Some fin] end_task_keeps [OF inv Some fin]
      by (auto simp: cancel_finish_def Let_def inv_other_fields split: option.splits)
  qed (use inv in \<open>simp add: cancel_finish_def\<close>)
qed

lemma cancel_task_keeps: "keeps ext exc (cancel_task h tid)"
  using keepsD [OF cancel_finish_keeps [of ext exc h tid]]
  by (auto simp: keeps_def cancel_task_def Let_def split: option.splits)

context ext_sound
begin

lemma task_terminal_keeps:
  assumes h: "h_ext h = ext" and target: "target \<in> set TASK_TERMINAL_STATES"
  shows "keeps ext None (task_terminal h tid target r)"
proof (rule keepsI)
  fix ps assume inv: "pool_inv ext None ps"
  show "pool_inv ext None (fst (task_terminal h tid target r ps)) \<and> pool_le ps (fst (task_terminal h tid target r ps))"
  proof (cases "dget (pl_tasks ps) tid")
    case (Some t)
    define t1 where "t1 = t\<lparr>t_state := target, t_exit_code := tr_exit_code r, t_error := tr_error r,
        t_finished_at := Some (h_now h)\<rparr>"
    define ps1 where "ps1 = free_slot (t_pilot_id t) (drop_spool tid (upd_task tid (\<lambda>_. t1) ps))"
    have "t_task_id t1 = t_task_id t" "task_is_terminal t1" "t_requeues t1 = t_requeues t"
      using target by (simp_all add: t1_def task_is_terminal_def)
    then have "pool_inv ext None ps1 \<and> pool_le ps ps1"
      unfolding ps1_def using end_task_keeps [OF inv Some] by blast
    then have "pool_inv ext None (fst (drain_pending h ps1)) \<and> pool_le ps (fst (drain_pending h ps1))"
      using keepsD [OF drain_pending_keeps [OF h], of ps1] pool_le_trans by blast
    then show ?thesis
      unfolding task_terminal_def Some option.case Let_def t1_def [symmetric] ps1_def [symmetric]
      using inv by (simp add: split_beta)
  qed (use inv in \<open>simp add: task_terminal_def\<close>)
qed

end

end
