(* ===== verification/Dispatcher_Members.thy ===== *)
theory Dispatcher_Members
  imports Dispatcher_Invariant
begin

text \<open>
  The member routes of a class pool (\<^verbatim>\<open>plugin_task_dispatcher.py\<close>, \<open>_require_class_pool\<close> to
  \<open>_route_remove_member\<close>).  Adding a member is one atomic section.  Removing one runs up to the first
  await inside the cancel of its first doomed pilot, then one section per further pilot, then the sweep; what the
  route carries over its awaits is the job \<open>MemberRemove\<close>, which may be resumed before the cancel it waits for has
  come to its end.
\<close>

section \<open>The same declaration\<close>

text \<open>\<open>==\<close> on two dicts: the same keys with equal values, in any order.\<close>

definition dict_same :: "('v \<Rightarrow> 'v \<Rightarrow> bool) \<Rightarrow> (string \<times> 'v) list \<Rightarrow> (string \<times> 'v) list \<Rightarrow> bool" where
  "dict_same eq a b \<longleftrightarrow> length a = length b \<and>
     list_all (\<lambda>(k, v). case dget b k of None \<Rightarrow> False | Some w \<Rightarrow> eq v w) a"

definition opt_same :: "('v \<Rightarrow> 'v \<Rightarrow> bool) \<Rightarrow> 'v option \<Rightarrow> 'v option \<Rightarrow> bool" where
  "opt_same eq a b = (case a of None \<Rightarrow> b = None | Some x \<Rightarrow> (case b of None \<Rightarrow> False | Some y \<Rightarrow> eq x y))"

text \<open>List-valued attributes are compared without their order.\<close>

definition fingerprint_value :: "pyval \<Rightarrow> pyval" where
  "fingerprint_value v = (case v of PList vs \<Rightarrow> PList (map PStr (sort (map str_of vs))) | _ \<Rightarrow> v)"

definition same_declaration :: "pool_member \<Rightarrow> pool_member \<Rightarrow> bool" where
  "same_declaration a b \<longleftrightarrow>
     pm_member_id a = pm_member_id b \<and> pm_endpoint_name a = pm_endpoint_name b \<and> pm_queue a = pm_queue b \<and>
     pm_account a = pm_account b \<and> dict_same (=) (pm_pilot_sizes a) (pm_pilot_sizes b) \<and>
     pm_default_size a = pm_default_size b \<and> pm_min_pilots a = pm_min_pilots b \<and> pm_max_pilots a = pm_max_pilots b \<and>
     pm_scratch_base a = pm_scratch_base b \<and> pm_shared_fs a = pm_shared_fs b \<and>
     dict_same py_eq (dmap_values fingerprint_value (pm_attributes a)) (dmap_values fingerprint_value (pm_attributes b)) \<and>
     dict_same feq (pm_budget a) (pm_budget b) \<and> pm_pilot a = pm_pilot b \<and>
     opt_same feq (pm_end_time a) (pm_end_time b)"

section \<open>Adding\<close>

datatype member_error =
    NotClassPool
  | NotAnObject
  | BadMember config_error
  | DifferentDeclaration
  | UnknownMember
  | LastMember

fun member_status :: "member_error \<Rightarrow> nat" where
  "member_status NotClassPool = 409"
| "member_status NotAnObject = 400"
| "member_status (BadMember (Raised e)) = 500"
| "member_status (BadMember e) = 400"
| "member_status DifferentDeclaration = 409"
| "member_status UnknownMember = 404"
| "member_status LastMember = 409"

record member_ack =
  ma_member :: pool_member
  ma_members :: "string list"
  ma_created :: bool
  ma_updated :: bool

definition set_members :: "(string \<times> pool_member) list \<Rightarrow> pool_state \<Rightarrow> pool_state" where
  "set_members ms ps = ps\<lparr>pl_config := reproject ((pl_config ps)\<lparr>pc_members := ms\<rparr>)\<rparr>"

definition members_frame :: "string \<Rightarrow> string \<Rightarrow> string \<Rightarrow> pool_state \<Rightarrow> effect" where
  "members_frame name act mid ps = FxFrame ''pool_members''
     [(''pool'', PStr name), (''sid'', PStr (pl_owning_sid ps)), (''action'', PStr act), (''member_id'', PStr mid),
      (''member_ids'', enc_strs (map fst (pc_members (pl_config ps))))]"

definition store_member :: "string \<Rightarrow> pool_member \<Rightarrow> bool \<Rightarrow> pool_state \<Rightarrow> (member_error + member_ack) \<times> pool_state out" where
  "store_member name m created ps =
    (let ps1 = set_members (dset (pm_member_id m) m (pc_members (pl_config ps))) ps
     in (Inr \<lparr>ma_member = m, ma_members = map fst (pc_members (pl_config ps1)), ma_created = created, ma_updated = \<not> created\<rparr>,
         ps1, [FxPersist (saved_pool_of ps1), members_frame name (if created then ''add'' else ''update'') (pm_member_id m) ps1]))"

definition add_member :: "string \<Rightarrow> pyval \<Rightarrow> pool_state \<Rightarrow> (member_error + member_ack) \<times> pool_state out" where
  "add_member name body ps =
    (if \<not> pc_multi_member (pl_config ps) then (Inl NotClassPool, ps, [])
     else case body of
       PDict d \<Rightarrow> (case parse_member name body of
          Inl e \<Rightarrow> (Inl (BadMember e), ps, [])
        | Inr m \<Rightarrow> (case dget (pc_members (pl_config ps)) (pm_member_id m) of
             None \<Rightarrow> store_member name m True ps
           | Some old \<Rightarrow>
              if \<not> same_declaration (member_post_init (old\<lparr>pm_pilot := pm_pilot m\<rparr>)) m then (Inl DifferentDeclaration, ps, [])
              else if pm_pilot old = pm_pilot m then
                (Inr \<lparr>ma_member = old, ma_members = map fst (pc_members (pl_config ps)), ma_created = False, ma_updated = False\<rparr>,
                 ps, [])
              else store_member name m False ps))
     | _ \<Rightarrow> (Inl NotAnObject, ps, []))"

section \<open>Removing\<close>

record remove_flags =
  rm_cancel_tasks :: bool
  rm_force :: bool
  rm_fail_unsatisfiable :: bool

definition flag_of :: "dict \<Rightarrow> string \<Rightarrow> bool \<Rightarrow> bool" where
  "flag_of d k dflt = truthy (pget_or d k (PBool dflt))"

definition remove_flags_of :: "pyval \<Rightarrow> remove_flags" where
  "remove_flags_of body = (let d = (case body of PDict d \<Rightarrow> d | _ \<Rightarrow> []) in
     \<lparr>rm_cancel_tasks = flag_of d ''cancel_tasks'' False, rm_force = flag_of d ''force'' False,
      rm_fail_unsatisfiable = flag_of d ''fail_unsatisfiable'' True\<rparr>)"

definition live_task_ids :: "pool_state \<Rightarrow> string list" where
  "live_task_ids ps = map fst (filter (\<lambda>(tid, t). \<not> task_is_terminal t) (pl_tasks ps))"

definition tasks_on :: "string list \<Rightarrow> pool_state \<Rightarrow> string list" where
  "tasks_on pids ps = map t_task_id (filter (\<lambda>t. case t_pilot_id t of None \<Rightarrow> False | Some p \<Rightarrow> p \<in> set pids)
     (dvalues (pl_tasks ps)))"

definition fail_live :: "host \<Rightarrow> string \<Rightarrow> string \<Rightarrow> pool_state \<Rightarrow> pool_state out" where
  "fail_live h reason tid ps = (case dget (pl_tasks ps) tid of
     None \<Rightarrow> (ps, [])
   | Some t \<Rightarrow> if task_is_terminal t then (ps, []) else mark_task_failed h tid reason ps)"

text \<open>Everything before the first await: the pilots of the member stop accepting, the member leaves the
  configuration, the policy forgets it, and with \<open>cancel_tasks\<close> the tasks on its pilots fail at once.\<close>

definition pause_pilots :: "string list \<Rightarrow> pool_state \<Rightarrow> pool_state" where
  "pause_pilots pids ps = fold (\<lambda>pid. upd_pilot pid (set_accepting False)) pids ps"

definition forget_member :: "string \<Rightarrow> pool_state \<Rightarrow> pool_state" where
  "forget_member mid ps = (set_members (dpop mid (pc_members (pl_config ps))) ps)
     \<lparr>pl_policy := policy_on_member_removed mid (pl_policy ps)\<rparr>"

definition remove_member_sync :: "host \<Rightarrow> string \<Rightarrow> remove_flags \<Rightarrow> pool_state \<Rightarrow> pool_state out" where
  "remove_member_sync h mid fl ps =
    (let doomed = map p_pid (live_pilots_for ps mid);
         ps1 = forget_member mid (pause_pilots doomed ps)
     in case seq_each (fail_live h ''member removed with cancel_tasks'')
               (if rm_cancel_tasks fl then sort (tasks_on doomed ps1) else []) ps1 of
          (ps2, fx) \<Rightarrow> (ps2, FxPersist (saved_pool_of ps1) # fx))"

text \<open>The cancels, one after the other.  \<open>uids\<close> are the rhapsody uids the plugin still maps to tasks.\<close>

definition remove_member_next :: "host \<Rightarrow> string list \<Rightarrow> string \<Rightarrow> string \<Rightarrow> string list \<Rightarrow> bool \<Rightarrow> string list \<Rightarrow> string list \<Rightarrow>
    pool_state \<Rightarrow> pool_state out" where
  "remove_member_next h uids mid pid rest fail_unsat live touched ps =
    (case pilot_cancel_begin h (\<lambda>u. u \<in> set uids) pid ps of (ps1, fx) \<Rightarrow>
       (ps1, fx @ [FxSpawn (MemberRemove mid rest fail_unsat live touched)]))"

text \<open>The sweep for tasks no remaining member can run; a matcher exception ends the route there.\<close>

fun sweep_unsatisfiable :: "host \<Rightarrow> pool_member list \<Rightarrow> string list \<Rightarrow> pool_state \<Rightarrow> (py_error + unit) \<times> pool_state out" where
  "sweep_unsatisfiable h ms [] ps = (Inr (), ps, [])"
| "sweep_unsatisfiable h ms (tid # tids) ps = (case dget (pl_tasks ps) tid of
     None \<Rightarrow> sweep_unsatisfiable h ms tids ps
   | Some t \<Rightarrow>
      if t_state t \<noteq> TASK_QUEUED then sweep_unsatisfiable h ms tids ps
      else (case no_member_reason ms (t_requirements t) of
        Inl e \<Rightarrow> (Inl e, ps, [])
      | Inr None \<Rightarrow> sweep_unsatisfiable h ms tids ps
      | Inr (Some why) \<Rightarrow>
          (case mark_task_failed h tid ''no member satisfies the task requirements'' ps of (ps1, fx1) \<Rightarrow>
           case sweep_unsatisfiable h ms tids ps1 of (r, ps2, fx2) \<Rightarrow> (r, ps2, fx1 @ fx2))))"

definition count_state :: "string list \<Rightarrow> task_state \<Rightarrow> pool_state \<Rightarrow> nat" where
  "count_state tids st ps = length (filter (\<lambda>tid. case dget (pl_tasks ps) tid of None \<Rightarrow> False | Some t \<Rightarrow> t_state t = st) tids)"

definition remove_member_finish :: "host \<Rightarrow> string \<Rightarrow> bool \<Rightarrow> string list \<Rightarrow> string list \<Rightarrow> pool_state \<Rightarrow>
    (py_error + nat \<times> nat) \<times> pool_state out" where
  "remove_member_finish h mid fail_unsat live touched ps =
    (case (if fail_unsat then sweep_unsatisfiable h (pool_members ps) (map fst (pl_tasks ps)) ps else (Inr (), ps, [])) of
       (Inl e, ps1, fx) \<Rightarrow> (Inl e, ps1, fx)
     | (Inr _, ps1, fx) \<Rightarrow>
        (case drain_pending h ps1 of (ps2, fx2) \<Rightarrow>
          (Inr (count_state live TASK_FAILED ps1, count_state touched TASK_QUEUED ps1), ps2,
           fx @ [FxPersist (saved_pool_of ps1), members_frame (pc_name (pl_config ps1)) ''remove'' mid ps1] @ fx2)))"

text \<open>The whole route up to its first suspension.\<close>

definition remove_member :: "host \<Rightarrow> string list \<Rightarrow> string \<Rightarrow> pyval \<Rightarrow> pool_state \<Rightarrow> (member_error + unit) \<times> pool_state out" where
  "remove_member h uids mid body ps =
    (let fl = remove_flags_of body; ms = pc_members (pl_config ps) in
     if \<not> pc_multi_member (pl_config ps) then (Inl NotClassPool, ps, [])
     else if \<not> dhas ms mid then (Inl UnknownMember, ps, [])
     else if length ms = 1 \<and> \<not> rm_force fl then (Inl LastMember, ps, [])
     else
       let live = live_task_ids ps; doomed = map p_pid (live_pilots_for ps mid); touched = tasks_on doomed ps in
       (case remove_member_sync h mid fl ps of (ps1, fx1) \<Rightarrow>
        case (case doomed of
                [] \<Rightarrow> snd (remove_member_finish h mid (rm_fail_unsatisfiable fl) live touched ps1)
              | pid # rest \<Rightarrow> remove_member_next h uids mid pid rest (rm_fail_unsatisfiable fl) live touched ps1) of
          (ps2, fx2) \<Rightarrow> (Inr (), ps2, fx1 @ fx2)))"

section \<open>The invariant\<close>

lemma set_members_inv [simp]:
  "pool_inv ext exc (set_members ms ps) = pool_inv ext exc ps" "pool_le ps0 (set_members ms ps) = pool_le ps0 ps"
  by (auto simp: set_members_def pool_inv_def requeue_cap_def pool_le_def)

lemma set_members_sel [simp]:
  "pl_pilots (set_members ms ps) = pl_pilots ps" "pl_tasks (set_members ms ps) = pl_tasks ps"
  "pl_policy (set_members ms ps) = pl_policy ps"
  by (simp_all add: set_members_def)

lemma add_member_keeps: "keeps ext exc (\<lambda>ps. snd (add_member name body ps))"
  by (rule keepsI) (auto simp: add_member_def store_member_def Let_def split: pyval.splits sum.splits option.splits)

lemma removed_cap [simp]: "policy_max_requeues ext (policy_on_member_removed mid pol) = policy_max_requeues ext pol"
  by (cases pol) (simp_all add: on_member_removed_def)

lemma forget_member_inv:
  "pool_inv ext exc (forget_member mid ps) = pool_inv ext exc ps" "pool_le ps0 (forget_member mid ps) = pool_le ps0 ps"
  by (auto simp: forget_member_def pool_inv_def requeue_cap_def pool_le_def)

lemma pause_pilots_keeps:
  "pool_inv ext exc ps \<Longrightarrow> pool_inv ext exc (pause_pilots pids ps) \<and> pool_le ps (pause_pilots pids ps)"
proof (induction pids arbitrary: ps)
  case (Cons pid pids)
  let ?ps = "upd_pilot pid (set_accepting False) ps"
  have "pool_inv ext exc ?ps" "pool_le ps ?ps" using set_accepting_keeps [OF Cons.prems] by auto
  then show ?case using Cons.IH [of ?ps] pool_le_trans by (auto simp: pause_pilots_def)
qed (simp add: pause_pilots_def)

lemma fail_live_keeps: "keeps ext exc (fail_live h reason tid)"
  by (rule keepsI) (auto simp: fail_live_def keepsD [OF mark_task_failed_keeps] split: option.splits)

lemma remove_member_sync_keeps: "keeps ext exc (remove_member_sync h mid fl)"
proof (rule keepsI)
  fix ps assume inv: "pool_inv ext exc ps"
  let ?ps1 = "forget_member mid (pause_pilots (map p_pid (live_pilots_for ps mid)) ps)"
  have 1: "pool_inv ext exc ?ps1" "pool_le ps ?ps1" using pause_pilots_keeps [OF inv] by (simp_all add: forget_member_inv)
  have "pool_inv ext exc (fst (seq_each (fail_live h reason) tids ?ps1)) \<and> pool_le ps (fst (seq_each (fail_live h reason) tids ?ps1))"
    for reason tids
  proof -
    have "keeps ext exc (seq_each (fail_live h reason) tids)" by (rule keeps_seq_each) (rule fail_live_keeps)
    from keepsD [OF this 1(1)] show ?thesis using pool_le_trans [OF 1(2)] by blast
  qed
  then show "pool_inv ext exc (fst (remove_member_sync h mid fl ps)) \<and> pool_le ps (fst (remove_member_sync h mid fl ps))"
    by (simp add: remove_member_sync_def Let_def split_beta)
qed

lemma remove_member_next_keeps:
  "h_ext h = ext \<Longrightarrow> keeps ext None (remove_member_next h uids mid pid rest fail_unsat live touched)"
  by (rule keepsI) (simp add: remove_member_next_def split_beta keepsD [OF pilot_cancel_keeps(1)])

lemma sweep_keeps:
  "pool_inv ext exc ps \<Longrightarrow> pool_inv ext exc (fst (snd (sweep_unsatisfiable h ms tids ps))) \<and>
     pool_le ps (fst (snd (sweep_unsatisfiable h ms tids ps)))"
proof (induction h ms tids ps rule: sweep_unsatisfiable.induct)
  case (2 h ms tid tids ps)
  let ?reason = "''no member satisfies the task requirements''"
  have f: "pool_inv ext exc (fst (mark_task_failed h tid ?reason ps)) \<and> pool_le ps (fst (mark_task_failed h tid ?reason ps))"
    by (rule keepsD [OF mark_task_failed_keeps "2.prems"])
  show ?case
  proof (cases "dget (pl_tasks ps) tid")
    case None
    then show ?thesis using "2.IH"(1) "2.prems" by simp
  next
    case (Some t)
    show ?thesis
    proof (cases "t_state t = TASK_QUEUED")
      case False
      then show ?thesis using "2.IH"(2) [OF Some] "2.prems" Some by simp
    next
      case queued: True
      show ?thesis
      proof (cases "no_member_reason ms (t_requirements t)")
        case (Inl e)
        then show ?thesis using "2.prems" Some queued by simp
      next
        case (Inr r)
        show ?thesis
        proof (cases r)
          case None
          then show ?thesis using "2.IH"(3) [OF Some _ Inr] "2.prems" Some queued Inr by simp
        next
          case (Some why)
          let ?ps1 = "fst (mark_task_failed h tid ?reason ps)"
          have step: "sweep_unsatisfiable h ms (tid # tids) ps =
              (fst (sweep_unsatisfiable h ms tids ?ps1), fst (snd (sweep_unsatisfiable h ms tids ?ps1)),
               snd (mark_task_failed h tid ?reason ps) @ snd (snd (sweep_unsatisfiable h ms tids ?ps1)))"
            using \<open>dget (pl_tasks ps) tid = Some t\<close> queued Inr Some by (simp add: split_beta)
          obtain ps1 fx1 where m: "mark_task_failed h tid ?reason ps = (ps1, fx1)" by fastforce
          have "pool_inv ext exc (fst (snd (sweep_unsatisfiable h ms tids ps1))) \<and>
              pool_le ps1 (fst (snd (sweep_unsatisfiable h ms tids ps1)))"
            using "2.IH"(4) [OF \<open>dget (pl_tasks ps) tid = Some t\<close> _ Inr Some m [symmetric]] queued f m by simp
          then show ?thesis using f m pool_le_trans by (simp only: step fst_conv snd_conv) (metis fst_conv)
        qed
      qed
    qed
  qed
qed simp

context ext_sound
begin

lemma remove_member_finish_keeps:
  assumes "h_ext h = ext"
  shows "keeps ext None (\<lambda>ps. snd (remove_member_finish h mid fail_unsat live touched ps))"
proof (rule keepsI)
  fix ps assume inv: "pool_inv ext None ps"
  let ?s = "if fail_unsat then sweep_unsatisfiable h (pool_members ps) (map fst (pl_tasks ps)) ps else (Inr (), ps, [])"
  have 1: "pool_inv ext None (fst (snd ?s))" "pool_le ps (fst (snd ?s))" using sweep_keeps [OF inv] inv by simp_all
  then have "pool_inv ext None (fst (drain_pending h (fst (snd ?s)))) \<and> pool_le ps (fst (drain_pending h (fst (snd ?s))))"
    using keepsD [OF drain_pending_keeps [OF assms] 1(1)] pool_le_trans [OF 1(2)] by blast
  then show "pool_inv ext None (fst (snd (remove_member_finish h mid fail_unsat live touched ps))) \<and>
      pool_le ps (fst (snd (remove_member_finish h mid fail_unsat live touched ps)))"
    using 1 unfolding remove_member_finish_def by (cases ?s; cases "fst ?s") (auto simp: split_beta)
qed

lemma remove_member_keeps:
  assumes "h_ext h = ext"
  shows "keeps ext None (\<lambda>ps. snd (remove_member h uids mid body ps))"
proof (rule keepsI)
  fix ps assume inv: "pool_inv ext None ps"
  let ?fl = "remove_flags_of body"
  let ?ps1 = "fst (remove_member_sync h mid ?fl ps)"
  have 1: "pool_inv ext None ?ps1" "pool_le ps ?ps1" using keepsD [OF remove_member_sync_keeps inv] by auto
  note next_keeps = keepsD [OF remove_member_next_keeps [OF assms] 1(1)]
  note finish_keeps = keepsD [OF remove_member_finish_keeps [OF assms] 1(1)]
  show "pool_inv ext None (fst (snd (remove_member h uids mid body ps))) \<and>
      pool_le ps (fst (snd (remove_member h uids mid body ps)))"
    using inv next_keeps finish_keeps pool_le_trans [OF 1(2)]
    by (simp add: remove_member_def Let_def split_beta split: list.split)
qed

end


section \<open>Re-posting a member\<close>

text \<open>A NaN is not equal to itself, so a declaration that carries one never reads as the same.\<close>

definition plain_value :: "pyval \<Rightarrow> bool" where
  "plain_value v \<longleftrightarrow> attr_value v \<and> v \<noteq> PFloat NaN"

definition plain_member :: "pool_member \<Rightarrow> bool" where
  "plain_member m \<longleftrightarrow> dict_ok (pm_attributes m) \<and> dict_ok (pm_pilot_sizes m) \<and> dict_ok (pm_budget m) \<and>
     list_all (\<lambda>(k, v). plain_value v) (pm_attributes m) \<and> list_all (\<lambda>(k, f). f \<noteq> NaN) (pm_budget m) \<and>
     pm_end_time m \<noteq> Some NaN"

lemma dict_same_refl:
  assumes "dict_ok d" "list_all (\<lambda>(k, v). eq v v) d"
  shows "dict_same eq d d"
  unfolding dict_same_def list_all_iff
proof (intro conjI ballI)
  fix kv assume "kv \<in> set d"
  then have "dget d (fst kv) = Some (snd kv)" "eq (snd kv) (snd kv)"
    using assms by (auto simp: dict_ok_def list_all_iff)
  then show "case kv of (k, v) \<Rightarrow> case dget d k of None \<Rightarrow> False | Some w \<Rightarrow> eq v w" by (simp add: split_beta)
qed simp

lemma feq_refl: "f \<noteq> NaN \<Longrightarrow> feq f f"
  by (cases f) simp_all

lemma py_eq_refls:
  "py_eq (PInt i) (PInt i)" "f \<noteq> NaN \<Longrightarrow> py_eq (PFloat f) (PFloat f)" "py_eq (PList (map PStr ss)) (PList (map PStr ss))"
  by (subst py_eq.simps, auto simp: feq_refl in_set_zip)+

lemma py_eq_fingerprint: "plain_value v \<Longrightarrow> py_eq (fingerprint_value v) (fingerprint_value v)"
  by (cases v) (auto simp: plain_value_def attr_value_def fingerprint_value_def py_eq_refls)

lemma same_declaration_refl:
  assumes "plain_member m"
  shows "same_declaration m m"
proof -
  have "dict_same py_eq (dmap_values fingerprint_value (pm_attributes m)) (dmap_values fingerprint_value (pm_attributes m))"
    using assms py_eq_fingerprint
    by (intro dict_same_refl) (auto simp: plain_member_def list_all_iff dmap_values_def dict_ok_def comp_def split_beta)
  moreover have "dict_same feq (pm_budget m) (pm_budget m)" "dict_same (=) (pm_pilot_sizes m) (pm_pilot_sizes m)"
    using assms feq_refl by (intro dict_same_refl; auto simp: plain_member_def list_all_iff)+
  moreover have "opt_same feq (pm_end_time m) (pm_end_time m)"
    using assms feq_refl by (auto simp: opt_same_def plain_member_def split: option.split)
  ultimately show ?thesis by (simp add: same_declaration_def)
qed

section \<open>Properties\<close>

text \<open>Declaring a member is idempotent: whatever a successful declaration did, created the member, switched its
  pilot mode or nothing, declaring it again with the same body leaves the pool as it is, writes nothing and notifies
  nobody, and says so.\<close>

theorem add_member_idempotent:
  assumes "add_member name body ps = (Inr ack, ps', fx)" and "plain_member (ma_member ack)"
  shows "add_member name body ps' = (Inr (ack\<lparr>ma_created := False, ma_updated := False\<rparr>), ps', []) \<and>
    dget (pc_members (pl_config ps')) (pm_member_id (ma_member ack)) = Some (ma_member ack)"
proof -
  obtain d m where d: "pc_multi_member (pl_config ps)" "body = PDict d" "parse_member name body = Inr m"
    using assms(1) by (auto simp: add_member_def split: if_splits pyval.splits sum.splits)
  have init: "member_post_init m = m" using parse_member_wf [OF d(3)] by (simp add: member_wf_def)
  have again: "add_member name body ps' = (Inr (ack\<lparr>ma_created := False, ma_updated := False\<rparr>), ps', []) \<and>
      dget (pc_members (pl_config ps')) (pm_member_id (ma_member ack)) = Some (ma_member ack)"
    if "(Inr ack, ps', fx) = store_member name m created ps" for created
  proof -
    have ack: "ack = \<lparr>ma_member = m, ma_members = map fst (pc_members (pl_config ps')), ma_created = created,
        ma_updated = \<not> created\<rparr>" and ps': "ps' = set_members (dset (pm_member_id m) m (pc_members (pl_config ps))) ps"
      using that by (simp_all add: store_member_def Let_def)
    have cfg: "pc_multi_member (pl_config ps')" "dget (pc_members (pl_config ps')) (pm_member_id m) = Some m"
      using d(1) by (simp_all add: ps' set_members_def)
    have "same_declaration m m" using assms(2) ack by (simp add: same_declaration_refl)
    then show ?thesis using cfg d(2,3) init by (simp add: add_member_def ack)
  qed
  show ?thesis
  proof (cases "dget (pc_members (pl_config ps)) (pm_member_id m)")
    case None
    then have "(Inr ack, ps', fx) = store_member name m True ps" using assms(1) d by (simp add: add_member_def)
    then show ?thesis by (rule again)
  next
    case (Some old)
    show ?thesis
    proof (cases "pm_pilot old = pm_pilot m")
      case True
      then have "ps' = ps" "ack = \<lparr>ma_member = old, ma_members = map fst (pc_members (pl_config ps)), ma_created = False, ma_updated = False\<rparr>"
          "fx = []" "same_declaration (member_post_init (old\<lparr>pm_pilot := pm_pilot m\<rparr>)) m"
        using assms(1) d Some by (auto simp: add_member_def split: if_splits)
      moreover from this(4) have "pm_member_id old = pm_member_id m"
        by (simp add: same_declaration_def member_post_init_def split: if_splits)
      ultimately show ?thesis using assms(1) Some by simp
    next
      case False
      then have "(Inr ack, ps', fx) = store_member name m False ps"
        using assms(1) d Some by (auto simp: add_member_def split: if_splits)
      then show ?thesis by (rule again)
    qed
  qed
qed


text \<open>The same member again, and the pilot mode switched in place.\<close>

definition demo_class_pool :: pool_state where
  "demo_class_pool = \<lparr>pl_config = demo_config, pl_scratch_base = ''/scratch'', pl_owning_sid = ''sid'', pl_pilots = [],
     pl_tasks = [], pl_policy = ConservativePolicy demo_policy, pl_spool = []\<rparr>"

definition demo_sibling :: pyval where
  "demo_sibling = PDict (member_to_dict (demo_member\<lparr>pm_member_id := ''bnl''\<rparr>))"

theorem add_member_idempotent_witness:
  "\<exists>ack ps' fx. add_member ''cpu'' demo_sibling demo_class_pool = (Inr ack, ps', fx) \<and> ma_created ack \<and>
     add_member ''cpu'' demo_sibling ps' = (Inr (ack\<lparr>ma_created := False, ma_updated := False\<rparr>), ps', [])"
proof -
  have "map_option (\<lambda>ack. (ma_created ack, ma_member ack))
      (case fst (add_member ''cpu'' demo_sibling demo_class_pool) of Inl e \<Rightarrow> None | Inr ack \<Rightarrow> Some ack) =
      Some (True, demo_member\<lparr>pm_member_id := ''bnl''\<rparr>)"
    by code_simp
  then obtain ack ps' fx where a: "add_member ''cpu'' demo_sibling demo_class_pool = (Inr ack, ps', fx)" "ma_created ack"
      "ma_member ack = demo_member\<lparr>pm_member_id := ''bnl''\<rparr>"
    by (cases "add_member ''cpu'' demo_sibling demo_class_pool") (auto split: sum.splits)
  have "plain_member (ma_member ack)" by (simp add: a(3) plain_member_def demo_member_def dict_ok_def)
  from add_member_idempotent [OF a(1) this] show ?thesis using a by blast
qed

end
