(* ===== verification/Dispatcher_System.thy ===== *)
theory Dispatcher_System
  imports Dispatcher_Members
begin

text \<open>
  One pool as a system: the requests, topology deliveries, task events and ticks that reach it, and
  the coroutines it has outstanding, interleaved in any order on the plugin's loop.  An action is one
  atomic section of \<^verbatim>\<open>plugin_task_dispatcher.py\<close>; \<open>do_action\<close> runs it and adds the coroutines
  it spawned.  A resumption carries the answer of the awaited call, which may be anything.
\<close>

section \<open>Accepting a task\<close>

text \<open>The resubmit ladder and the tail of \<open>_route_submit\<close>: \<open>DONE\<close>, \<open>RUNNING\<close> and \<open>QUEUED\<close> records are answered
  from the ledger, anything else is (re)executed.  The spooled input names come with the record.\<close>

definition cached_states :: "task_state list" where
  "cached_states = [TASK_DONE, TASK_RUNNING, TASK_QUEUED]"

definition cached_task :: "string \<Rightarrow> pool_state \<Rightarrow> task_record option" where
  "cached_task tid ps = (case dget (pl_tasks ps) tid of
     None \<Rightarrow> None
   | Some t \<Rightarrow> if t_state t \<in> set cached_states then Some t else None)"

definition write_spool :: "string \<Rightarrow> string list \<Rightarrow> pool_state \<Rightarrow> pool_state" where
  "write_spool tid names ps = (if names = [] then ps else ps\<lparr>pl_spool := dset tid names (pl_spool ps)\<rparr>)"

record submission =
  sb_task_id :: string
  sb_cmd :: "string list"
  sb_cwd :: string
  sb_priority :: int
  sb_inputs :: "string list"
  sb_outputs :: "string list"
  sb_spooled :: "string list"
  sb_requirements :: dict

definition submitted_record :: "host \<Rightarrow> submission \<Rightarrow> pool_state \<Rightarrow> task_record" where
  "submitted_record h sb ps =
    (new_task (sb_task_id sb) (pc_name (pl_config ps)) (sb_cmd sb) (sb_cwd sb))
      \<lparr>t_owning_sid := pl_owning_sid ps, t_cwd_assigned := (sb_cwd sb = ''''),
       t_priority := sb_priority sb, t_inputs := sb_inputs sb, t_outputs := sb_outputs sb,
       t_spooled := sb_spooled sb, t_requirements := sb_requirements sb,
       t_submitted_at := h_now h, t_arrival_ts := h_now h\<rparr>"

definition accept_task :: "host \<Rightarrow> submission \<Rightarrow> pool_state \<Rightarrow> task_record \<times> pool_state out" where
  "accept_task h sb ps = (case cached_task (sb_task_id sb) ps of
     Some t \<Rightarrow> (t, ps, [])
   | None \<Rightarrow>
      let t = submitted_record h sb ps;
          ps1 = write_spool (sb_task_id sb) (sb_spooled sb) ps;
          ps2 = ps1\<lparr>pl_tasks := dset (sb_task_id sb) t (pl_tasks ps1)\<rparr>
      in case drain_pending h ps2 of (ps3, fx) \<Rightarrow>
        ((case dget (pl_tasks ps3) (sb_task_id sb) of None \<Rightarrow> t | Some u \<Rightarrow> u), ps3,
         [FxPersist (saved_pool_of ps2), FxFrame ''task_status'' (task_asdict t)] @ fx))"

text \<open>The second loop of \<open>_route_submit_rh\<close> for one pool: the validated descriptions \<open>(td, req)\<close> in order,
  one ledger write and one drain if any of them was new.\<close>

definition dialect_record :: "host \<Rightarrow> string \<Rightarrow> dict \<Rightarrow> dict \<Rightarrow> pool_state \<Rightarrow> task_record" where
  "dialect_record h uid td req ps =
    (new_task uid (pc_name (pl_config ps)) [] '''')
      \<lparr>t_owning_sid := pl_owning_sid ps, t_requirements := req,
       t_task_dict := Some (dpop ''requirements'' (dpop ''pool'' td)),
       t_submitted_at := h_now h, t_arrival_ts := h_now h\<rparr>"

fun insert_batch ::
  "host \<Rightarrow> (string \<times> dict \<times> dict) list \<Rightarrow> pool_state \<Rightarrow> bool \<times> (string \<times> task_state) list \<times> pool_state" where
  "insert_batch h [] ps = (False, [], ps)"
| "insert_batch h ((uid, td, req) # rest) ps = (case cached_task uid ps of
     Some t \<Rightarrow> (case insert_batch h rest ps of (fresh, acks, ps1) \<Rightarrow> (fresh, (uid, t_state t) # acks, ps1))
   | None \<Rightarrow> (case insert_batch h rest (ps\<lparr>pl_tasks := dset uid (dialect_record h uid td req ps) (pl_tasks ps)\<rparr>) of
        (fresh, acks, ps1) \<Rightarrow> (True, (uid, TASK_QUEUED) # acks, ps1)))"

definition accept_batch ::
  "host \<Rightarrow> (string \<times> dict \<times> dict) list \<Rightarrow> pool_state \<Rightarrow> (string \<times> task_state) list \<times> pool_state out" where
  "accept_batch h tds ps = (case insert_batch h tds ps of (fresh, acks, ps1) \<Rightarrow>
     if fresh then (case drain_pending h ps1 of (ps2, fx) \<Rightarrow> (acks, ps2, FxPersist (saved_pool_of ps1) # fx))
     else (acks, ps1, []))"

section \<open>Actions\<close>

record answer =
  an_client :: bool
  an_error :: "string option"
  an_text :: "string option"
  an_uids :: "string list"

datatype event =
    EvSubmit submission
  | EvSubmitRh "(string \<times> dict \<times> dict) list"
  | EvTopology "(string \<times> participant) list"
  | EvTick "(string \<times> participant) list" string
  | EvProbe rat string
  | EvCancelPilot "string list" string
  | EvTask string task_state task_report
  | EvCancelTask string
  | EvAddMember string pyval
  | EvRemoveMember "string list" string pyval

datatype action = Event event | Resume nat answer

fun resume :: "host \<Rightarrow> answer \<Rightarrow> job \<Rightarrow> pool_state \<Rightarrow> pool_state out" where
  "resume h a (PilotSubmit pid s m) ps = pilot_submit_begin h pid s m ps"
| "resume h a (PilotSubmitClient pid s m) ps = pilot_submit_client h (an_client a) pid s m ps"
| "resume h a (PilotSubmitJob pid) ps = pilot_submit_result h
     (case an_error a of Some e \<Rightarrow> Inl e | None \<Rightarrow> Inr (an_text a)) pid ps"
| "resume h a (PilotCancelClient pid) ps = pilot_cancel_client h (an_client a) pid ps"
| "resume h a (PilotCancelJob pid) ps = pilot_cancel_result h pid ps"
| "resume h a (PilotProbeClient pid) ps = probe_client (an_client a) pid ps"
| "resume h a (PilotProbeStatus pid) ps = probe_result h
     (case an_error a of Some e \<Rightarrow> None | None \<Rightarrow> an_text a) pid ps"
| "resume h a (PsijCancel j) ps = (ps, [])"
| "resume h a (RhSubmit tids pid) ps = rh_submit_begin h tids pid ps"
| "resume h a (RhClient tids pid) ps = rh_submit_client h (an_client a) tids pid ps"
| "resume h a (RhStage tids pid) ps = place_begin h (an_client a) tids pid ps"
| "resume h a (RhPlace [] ok pid) ps = rh_submit_forward ok pid ps"
| "resume h a (RhPlace (tid # todo) ok pid) ps = place_one h (an_error a) tid todo ok pid ps"
| "resume h a (RhResult tus) ps = rh_submit_result h
     (case an_error a of Some e \<Rightarrow> Inl e | None \<Rightarrow> Inr ()) tus ps"
| "resume h a (RhCancel pid uids) ps = (ps, [])"
| "resume h a (TaskCancel tid pilot) ps = cancel_finish h tid pilot ps"
| "resume h a (MemberRemove mid [] fail_unsat live touched) ps =
     snd (remove_member_finish h mid fail_unsat live touched ps)"
| "resume h a (MemberRemove mid (pid # rest) fail_unsat live touched) ps =
     remove_member_next h (an_uids a) mid pid rest fail_unsat live touched ps"

fun handle :: "host \<Rightarrow> event \<Rightarrow> pool_state \<Rightarrow> pool_state out" where
  "handle h (EvSubmit sb) ps = snd (accept_task h sb ps)"
| "handle h (EvSubmitRh tds) ps = snd (accept_batch h tds ps)"
| "handle h (EvTopology participants) ps = reconcile_pilots_for h participants ps"
| "handle h (EvTick participants pid) ps = tick_pool h participants pid ps"
| "handle h (EvProbe timeout pid) ps = (case dget (pl_pilots ps) pid of None \<Rightarrow> (ps, [])
     | Some p \<Rightarrow> if overdue timeout (h_now h) p then probe_begin h pid ps else (ps, []))"
| "handle h (EvCancelPilot uids pid) ps = pilot_cancel_begin h (\<lambda>u. u \<in> set uids) pid ps"
| "handle h (EvTask tid target r) ps = task_terminal h tid target r ps"
| "handle h (EvCancelTask tid) ps = cancel_task h tid ps"
| "handle h (EvAddMember name body) ps = snd (add_member name body ps)"
| "handle h (EvRemoveMember uids mid body) ps = snd (remove_member h uids mid body ps)"

record pool_sys =
  sy_pool :: pool_state
  sy_jobs :: "job list"

definition spawned :: "effect list \<Rightarrow> job list" where
  "spawned fx = concat (map (\<lambda>e. case e of FxSpawn j \<Rightarrow> [j] | _ \<Rightarrow> []) fx)"

text \<open>The tasks a coroutine holds records of.\<close>

fun job_tasks :: "job \<Rightarrow> string list" where
  "job_tasks (RhSubmit tids pid) = tids"
| "job_tasks (RhClient tids pid) = tids"
| "job_tasks (RhStage tids pid) = tids"
| "job_tasks (RhPlace todo ok pid) = todo @ ok"
| "job_tasks (RhResult tus) = map fst tus"
| "job_tasks (TaskCancel tid pilot) = [tid]"
| "job_tasks _ = []"

text \<open>When an event can happen: a new pilot id is fresh, an end reported for a task is a terminal state,
  and a task is not replaced while a coroutine still holds its old record.\<close>

fun enabled :: "event \<Rightarrow> pool_sys \<Rightarrow> bool" where
  "enabled (EvTick participants pid) s \<longleftrightarrow> dget (pl_pilots (sy_pool s)) pid = None"
| "enabled (EvTask tid target r) s \<longleftrightarrow> target \<in> set TASK_TERMINAL_STATES"
| "enabled (EvSubmit sb) s \<longleftrightarrow> \<not> list_ex (\<lambda>j. sb_task_id sb \<in> set (job_tasks j)) (sy_jobs s)"
| "enabled (EvSubmitRh tds) s \<longleftrightarrow>
     \<not> list_ex (\<lambda>j. list_ex (\<lambda>(uid, td). uid \<in> set (job_tasks j)) tds) (sy_jobs s)"
| "enabled _ s \<longleftrightarrow> True"

definition drop_nth :: "nat \<Rightarrow> 'a list \<Rightarrow> 'a list" where
  "drop_nth n xs = take n xs @ drop (Suc n) xs"

fun do_action :: "host \<Rightarrow> action \<Rightarrow> pool_sys \<Rightarrow> pool_sys option" where
  "do_action h (Event e) s =
     (if enabled e s then
        (case handle h e (sy_pool s) of (ps, fx) \<Rightarrow> Some \<lparr>sy_pool = ps, sy_jobs = sy_jobs s @ spawned fx\<rparr>)
      else None)"
| "do_action h (Resume n a) s =
     (if n < length (sy_jobs s) then
        (case resume h a (sy_jobs s ! n) (sy_pool s) of (ps, fx) \<Rightarrow>
           Some \<lparr>sy_pool = ps, sy_jobs = drop_nth n (sy_jobs s) @ spawned fx\<rparr>)
      else None)"

text \<open>A freshly declared pool has no pilots, tasks or coroutines.\<close>

definition fresh_pool :: "pool_state \<Rightarrow> bool" where
  "fresh_pool ps \<longleftrightarrow> pl_pilots ps = [] \<and> pl_tasks ps = []"

inductive reachable :: "ext_policy \<Rightarrow> pool_sys \<Rightarrow> bool" for ext where
  start: "fresh_pool ps \<Longrightarrow> reachable ext \<lparr>sy_pool = ps, sy_jobs = []\<rparr>"
| act: "reachable ext s \<Longrightarrow> h_ext h = ext \<Longrightarrow> do_action h a s = Some s' \<Longrightarrow> reachable ext s'"

fun_cases do_action_EventE: "do_action h (Event e) s = Some s'"

fun_cases do_action_ResumeE: "do_action h (Resume n a) s = Some s'"

section \<open>Every action keeps the invariant\<close>

lemma add_task_inv:
  assumes "pool_inv ext None ps" "t_task_id t = tid" "t_state t = TASK_QUEUED" "t_pilot_id t = None" "t_requeues t = 0"
  shows "pool_inv ext None (ps\<lparr>pl_tasks := dset tid t (pl_tasks ps)\<rparr>)"
  using assms by (auto simp: pool_inv_def task_ok_def requeue_cap_def)

lemma pass_guards_cap: "c_max_requeues (snd (pass_guards ps now ms c)) = c_max_requeues c"
  by (induction ms arbitrary: c) (simp_all add: split_beta in_backoff_def Let_def)

lemma tick_choice_cap: "c_max_requeues (snd (tick_choice c ps now)) = c_max_requeues c"
  by (simp add: tick_choice_def split_beta pass_guards_cap split: sum.splits option.splits)

text \<open>The order on pilots alone, which every action follows.\<close>

definition pilots_le :: "pool_state \<Rightarrow> pool_state \<Rightarrow> bool" where
  "pilots_le ps ps' \<longleftrightarrow> (\<forall>k p. dget (pl_pilots ps) k = Some p \<longrightarrow>
     (\<exists>q. dget (pl_pilots ps') k = Some q \<and> pilot_le p q))"

lemma pool_le_pilots: "pool_le ps ps' \<Longrightarrow> pilots_le ps ps'"
  by (simp add: pool_le_def pilots_le_def)

lemma pilots_le_trans: "pilots_le a b \<Longrightarrow> pilots_le b c \<Longrightarrow> pilots_le a c"
  unfolding pilots_le_def by (meson pilot_le_trans)

lemma pilots_le_same: "pl_pilots ps' = pl_pilots ps \<Longrightarrow> pilots_le ps ps'"
  by (simp add: pilots_le_def)

lemma inv_same_policy:
  assumes "policy_max_requeues ext pol = policy_max_requeues ext (pl_policy ps)"
  shows "pool_inv ext exc (ps\<lparr>pl_policy := pol\<rparr>) = pool_inv ext exc ps"
  using assms by (simp add: pool_inv_def requeue_cap_def)

lemma set_last_submit_cap [simp]:
  "policy_max_requeues ext (set_last_submit mid now pol) = policy_max_requeues ext pol"
  by (cases pol) (simp_all add: set_last_submit_def)

lemma insert_batch_inv:
  assumes "pool_inv ext None ps"
  shows "pool_inv ext None (snd (snd (insert_batch h tds ps)))"
    and "pl_pilots (snd (snd (insert_batch h tds ps))) = pl_pilots ps"
proof -
  have "pool_inv ext None (snd (snd (insert_batch h tds ps))) \<and>
      pl_pilots (snd (snd (insert_batch h tds ps))) = pl_pilots ps"
    using assms
  proof (induction tds arbitrary: ps)
    case (Cons x tds)
    obtain uid td req where x: "x = (uid, td, req)" by (cases x)
    let ?ps1 = "ps\<lparr>pl_tasks := dset uid (dialect_record h uid td req ps) (pl_tasks ps)\<rparr>"
    have "pool_inv ext None ?ps1"
      by (rule add_task_inv [OF Cons.prems]) (simp_all add: dialect_record_def new_task_def)
    then show ?case
      using Cons.IH [OF Cons.prems] Cons.IH [of ?ps1] by (simp add: x split_beta split: option.splits)
  qed simp
  then show "pool_inv ext None (snd (snd (insert_batch h tds ps)))"
    "pl_pilots (snd (snd (insert_batch h tds ps))) = pl_pilots ps" by simp_all
qed

context ext_sound
begin

lemma resume_keeps:
  assumes "h_ext h = ext"
  shows "keeps ext None (resume h a j)"
proof -
  have step: "keeps ext None (resume h a j)" if "\<And>ps. resume h a j ps = f ps" "keeps ext None f" for f
    using that by (simp add: keeps_def)
  note rules = pilot_submit_begin_keeps [OF assms] pilot_submit_client_keeps [OF assms]
    pilot_submit_result_keeps [OF assms] pilot_cancel_keeps [OF assms] probe_keeps [OF assms]
    remove_member_next_keeps [OF assms] remove_member_finish_keeps [OF assms]
    rh_submit_keeps rh_submit_forward_keeps rh_submit_result_keeps cancel_finish_keeps keeps_id
  show ?thesis
  proof (cases j)
    case (RhPlace todo ok pid)
    then show ?thesis by (cases todo) (rule step, simp, rule rules)+
  next
    case (MemberRemove mid doomed fail_unsat live touched)
    then show ?thesis by (cases doomed) (rule step, simp, rule rules)+
  qed (rule step, simp, rule rules)+
qed

lemma on_tick_keeps:
  assumes h: "h_ext h = ext" and inv: "pool_inv ext None ps" and new: "dget (pl_pilots ps) pid = None"
  shows "pool_inv ext None (fst (snd (on_tick h participants pid ps))) \<and>
    pool_le ps (fst (snd (on_tick h participants pid ps)))"
proof (cases "pl_policy ps")
  case (ConservativePolicy c)
  obtain r c1 where tc: "tick_choice c ps (h_now h) = (r, c1)" by fastforce
  let ?ps = "ps\<lparr>pl_policy := ConservativePolicy c1\<rparr>"
  have "c_max_requeues c1 = c_max_requeues c" using tick_choice_cap [of c ps "h_now h"] tc by simp
  then have inv1: "pool_inv ext None ?ps" using inv ConservativePolicy by (simp add: inv_same_policy)
  have sub: "pool_inv ext None (fst (snd (submit_pilot h participants pid None mid ?ps))) \<and>
      pool_le ps (fst (snd (submit_pilot h participants pid None mid ?ps)))" for mid
    using submit_pilot_keeps [OF h inv1, of pid participants None mid] new by (simp add: pool_le_def)
  show ?thesis
    using inv1 sub
    by (auto simp: on_tick_def ConservativePolicy tc split_beta inv_same_policy inv_policy
        split: sum.splits option.splits)
qed (use inv in \<open>simp_all add: on_tick_def\<close>)

lemma tick_pool_keeps:
  assumes h: "h_ext h = ext" and inv: "pool_inv ext None ps" and new: "dget (pl_pilots ps) pid = None"
  shows "pool_inv ext None (fst (tick_pool h participants pid ps)) \<and>
    pool_le ps (fst (tick_pool h participants pid ps))"
proof -
  let ?ps1 = "fst (snd (on_tick h participants pid ps))"
  have 1: "pool_inv ext None ?ps1 \<and> pool_le ps ?ps1" by (rule on_tick_keeps [OF assms])
  then have "pool_inv ext None (fst (drain_pending h ?ps1)) \<and> pool_le ps (fst (drain_pending h ?ps1))"
    using keepsD [OF drain_pending_keeps [OF h], of ?ps1] pool_le_trans by blast
  then show ?thesis using 1 by (auto simp: tick_pool_def split_beta split: sum.splits)
qed

lemma drain_after:
  assumes "h_ext h = ext" "pool_inv ext None ps1" "pl_pilots ps1 = pl_pilots ps"
  shows "pool_inv ext None (fst (drain_pending h ps1)) \<and> pilots_le ps (fst (drain_pending h ps1))"
  using keepsD [OF drain_pending_keeps [OF assms(1)] assms(2)] pilots_le_same [OF assms(3)]
    pilots_le_trans pool_le_pilots by blast

lemma accept_task_keeps:
  assumes h: "h_ext h = ext" and inv: "pool_inv ext None ps"
  shows "pool_inv ext None (fst (snd (accept_task h sb ps))) \<and> pilots_le ps (fst (snd (accept_task h sb ps)))"
proof -
  let ?ps1 = "write_spool (sb_task_id sb) (sb_spooled sb) ps"
  let ?ps2 = "?ps1\<lparr>pl_tasks := dset (sb_task_id sb) (submitted_record h sb ps) (pl_tasks ?ps1)\<rparr>"
  have "pool_inv ext None ?ps1" using inv by (simp add: write_spool_def pool_inv_def requeue_cap_def)
  then have "pool_inv ext None ?ps2"
    by (rule add_task_inv) (simp_all add: submitted_record_def new_task_def)
  moreover have "pl_pilots ?ps2 = pl_pilots ps" by (simp add: write_spool_def)
  ultimately show ?thesis
    using drain_after [OF h] inv by (simp add: accept_task_def Let_def split_beta pilots_le_same split: option.splits)
qed

lemma accept_batch_keeps:
  assumes h: "h_ext h = ext" and inv: "pool_inv ext None ps"
  shows "pool_inv ext None (fst (snd (accept_batch h tds ps))) \<and> pilots_le ps (fst (snd (accept_batch h tds ps)))"
  using insert_batch_inv [OF inv, of h tds] drain_after [OF h]
  by (simp add: accept_batch_def split_beta pilots_le_same)

end

section \<open>Reachable states\<close>

fun is_submit :: "action \<Rightarrow> bool" where
  "is_submit (Event (EvSubmit sb)) = True"
| "is_submit (Event (EvSubmitRh tds)) = True"
| "is_submit _ = False"

context ext_sound
begin

lemma handle_keeps:
  assumes h: "h_ext h = ext" and inv: "pool_inv ext None (sy_pool s)" and en: "enabled e s"
  shows "pool_inv ext None (fst (handle h e (sy_pool s))) \<and> pilots_le (sy_pool s) (fst (handle h e (sy_pool s))) \<and>
    (is_submit (Event e) \<or> pool_le (sy_pool s) (fst (handle h e (sy_pool s))))"
proof (cases e)
  case (EvSubmit sb)
  then show ?thesis using accept_task_keeps [OF h inv] by simp
next
  case (EvSubmitRh tds)
  then show ?thesis using accept_batch_keeps [OF h inv] by simp
next
  case (EvTopology participants)
  then show ?thesis using keepsD [OF reconcile_pilots_for_keeps [OF h] inv] pool_le_pilots by simp
next
  case (EvTick participants pid)
  then show ?thesis using tick_pool_keeps [OF h inv] en pool_le_pilots by simp
next
  case (EvProbe timeout pid)
  then show ?thesis
    using keepsD [OF probe_keeps(1) [OF h] inv, of pid] inv pool_le_pilots [OF pool_le_refl] pool_le_pilots
    by (simp split: option.splits)
next
  case (EvCancelPilot uids pid)
  then show ?thesis using keepsD [OF pilot_cancel_keeps(1) [OF h] inv] pool_le_pilots by simp
next
  case (EvTask tid target r)
  then show ?thesis using keepsD [OF task_terminal_keeps [OF h] inv] en pool_le_pilots by simp
next
  case (EvCancelTask tid)
  then show ?thesis using keepsD [OF cancel_task_keeps inv] pool_le_pilots by simp
next
  case (EvAddMember name body)
  then show ?thesis using keepsD [OF add_member_keeps inv] pool_le_pilots by simp
next
  case (EvRemoveMember uids mid body)
  then show ?thesis using keepsD [OF remove_member_keeps [OF h] inv] pool_le_pilots by simp
qed

lemma do_action_keeps:
  assumes h: "h_ext h = ext" and inv: "pool_inv ext None (sy_pool s)" and step: "do_action h a s = Some s'"
  shows "pool_inv ext None (sy_pool s') \<and> pilots_le (sy_pool s) (sy_pool s') \<and>
    (is_submit a \<or> pool_le (sy_pool s) (sy_pool s'))"
proof (cases a)
  case (Event e)
  then show ?thesis
    using step handle_keeps [OF h inv, of e] by (auto simp: split_beta split: if_splits)
next
  case (Resume n an)
  then show ?thesis
    using step keepsD [OF resume_keeps [OF h] inv, of an "sy_jobs s ! n"] pool_le_pilots
    by (auto simp: split_beta split: if_splits)
qed

lemma reachable_inv: "reachable ext s \<Longrightarrow> pool_inv ext None (sy_pool s)"
proof (induction rule: reachable.induct)
  case (start ps)
  then show ?case by (simp add: fresh_pool_def pool_inv_def dict_ok_def)
next
  case (act s h a s')
  then show ?case using do_action_keeps by blast
qed

end

text \<open>Runs that use only some of the actions.\<close>

inductive runs :: "ext_policy \<Rightarrow> (action \<Rightarrow> bool) \<Rightarrow> pool_sys \<Rightarrow> pool_sys \<Rightarrow> bool" for ext allow where
  none: "runs ext allow s s"
| more: "runs ext allow s s' \<Longrightarrow> allow a \<Longrightarrow> h_ext h = ext \<Longrightarrow> do_action h a s' = Some s'' \<Longrightarrow> runs ext allow s s''"

context ext_sound
begin

lemma runs_keep:
  assumes "runs ext allow s s'" and "pool_inv ext None (sy_pool s)"
  shows "pool_inv ext None (sy_pool s') \<and> pilots_le (sy_pool s) (sy_pool s') \<and>
    ((\<forall>a. allow a \<longrightarrow> \<not> is_submit a) \<longrightarrow> pool_le (sy_pool s) (sy_pool s'))"
  using assms
proof (induction rule: runs.induct)
  case (none s)
  then show ?case by (simp add: pool_le_pilots)
next
  case (more s s' a h s'')
  then have "pool_inv ext None (sy_pool s')" and IH: "pilots_le (sy_pool s) (sy_pool s')"
      "(\<forall>a. allow a \<longrightarrow> \<not> is_submit a) \<longrightarrow> pool_le (sy_pool s) (sy_pool s')" by auto
  from do_action_keeps [OF more.hyps(3) this(1) more.hyps(4)]
  show ?case using IH more.hyps(2) pilots_le_trans pool_le_trans by blast
qed

end

lemma frozen_charge:
  assumes "pilot_ok p" "pilot_is_terminal p" "pilot_le p q"
  shows "pilot_is_terminal q" "pilot_charge now' q = pilot_charge now p"
  using assms by (auto simp: pilot_le_def pilot_ok_def pilot_charge_def split: option.splits)

section \<open>Properties\<close>

text \<open>C14. Slots and placement are consistent in every reachable state of a pool, whatever the order of
  requests, topology deliveries, task events, ticks and resumed coroutines and whatever the awaited
  calls answer: a running task sits on a pilot of this pool that is active, a queued task has no
  pilot, no pilot runs a negative number of tasks or books more than its capacity, a pilot that has
  not come up has none, and exactly the ended pilots carry an end time.\<close>

theorem placement_consistent:
  assumes "ext_sound ext" and "reachable ext s"
  shows "(\<forall>tid t. dget (pl_tasks (sy_pool s)) tid = Some t \<longrightarrow>
      (t_state t = TASK_RUNNING \<longrightarrow> (\<exists>pid p. t_pilot_id t = Some pid \<and>
         dget (pl_pilots (sy_pool s)) pid = Some p \<and> p_state p = PILOT_ACTIVE)) \<and>
      (t_state t = TASK_QUEUED \<longrightarrow> t_pilot_id t = None)) \<and>
    (\<forall>pid p. dget (pl_pilots (sy_pool s)) pid = Some p \<longrightarrow>
      0 \<le> p_in_flight p \<and> p_in_flight p \<le> p_capacity p \<and>
      (p_state p \<in> {PILOT_PENDING, PILOT_STARTING} \<longrightarrow> p_in_flight p = 0) \<and>
      (pilot_is_terminal p \<longleftrightarrow> p_finished_at p \<noteq> None))"
  using ext_sound.reachable_inv [OF assms] by (auto simp: pool_inv_def task_ok_def pilot_ok_def)


text \<open>C16. The account of an ended pilot is closed: along any further run of the pool the pilot stays in the
  ledger, stays ended, and is charged the same node-hours whenever the budget is read.\<close>

theorem ended_pilot_charge_fixed:
  assumes "ext_sound ext" and "reachable ext s" and "runs ext (\<lambda>_. True) s s'"
    and "dget (pl_pilots (sy_pool s)) pid = Some p" and "pilot_is_terminal p"
  shows "\<exists>q. dget (pl_pilots (sy_pool s')) pid = Some q \<and> pilot_is_terminal q \<and>
    (\<forall>now now'. pilot_charge now' q = pilot_charge now p)"
proof -
  have inv: "pool_inv ext None (sy_pool s)" by (rule ext_sound.reachable_inv [OF assms(1,2)])
  have "pilots_le (sy_pool s) (sy_pool s')" using ext_sound.runs_keep [OF assms(1,3) inv] by blast
  then obtain q where "dget (pl_pilots (sy_pool s')) pid = Some q" "pilot_le p q"
    using assms(4) by (auto simp: pilots_le_def)
  moreover have "pilot_ok p" using inv assms(4) by (simp add: pool_inv_def)
  ultimately show ?thesis using frozen_charge assms(5) by blast
qed

text \<open>A task that has ended runs again only when a client submits it again: along any run without a
  submission an ended task stays in the ledger and stays ended.\<close>

theorem ended_task_stays_ended:
  assumes "ext_sound ext" and "reachable ext s" and "runs ext (\<lambda>a. \<not> is_submit a) s s'"
    and "dget (pl_tasks (sy_pool s)) tid = Some t" and "task_is_terminal t"
  shows "\<exists>u. dget (pl_tasks (sy_pool s')) tid = Some u \<and> task_is_terminal u"
proof -
  have "pool_le (sy_pool s) (sy_pool s')"
    using ext_sound.runs_keep [OF assms(1,3) ext_sound.reachable_inv [OF assms(1,2)]] by blast
  then show ?thesis using assms(4,5) by (fastforce simp: pool_le_def task_le_def)
qed

section \<open>A concrete run\<close>

text \<open>A pool over one adopted endpoint with a single core.  The task \<open>t1\<close> is cancelled while it runs and
  ends on its own before the cancel call returns.\<close>

fun run_actions :: "host \<Rightarrow> action list \<Rightarrow> pool_sys \<Rightarrow> pool_sys option" where
  "run_actions h [] s = Some s"
| "run_actions h (a # as) s = (case do_action h a s of None \<Rightarrow> None | Some s' \<Rightarrow> run_actions h as s')"

lemma run_actions_reachable:
  "run_actions h as s = Some s' \<Longrightarrow> reachable (h_ext h) s \<Longrightarrow> reachable (h_ext h) s'"
proof (induction as arbitrary: s)
  case (Cons a as)
  then show ?case by (auto split: option.splits intro: reachable.act)
qed simp

lemma run_actions_runs:
  "run_actions h as s = Some s' \<Longrightarrow> list_all allow as \<Longrightarrow> runs (h_ext h) allow s0 s \<Longrightarrow> runs (h_ext h) allow s0 s'"
proof (induction as arbitrary: s)
  case (Cons a as)
  then show ?case by (auto split: option.splits intro: runs.more)
qed simp

definition solo_member :: pool_member where
  "solo_member = demo_member\<lparr>pm_pilot_sizes := [(''s'', \<lparr>ps_nodes = 1, ps_cpus_per_node = 1,
     ps_rhapsody_backend = ''dask'', ps_gpus_per_node = 0, ps_walltime_sec = 3600\<rparr>)]\<rparr>"

definition solo_start :: pool_sys where
  "solo_start = \<lparr>sy_pool = \<lparr>pl_config = demo_config\<lparr>pc_members := [(''anl'', solo_member)]\<rparr>,
     pl_scratch_base = ''/scratch'', pl_owning_sid = ''sid'', pl_pilots = [], pl_tasks = [],
     pl_policy = ConservativePolicy demo_policy, pl_spool = []\<rparr>, sy_jobs = []\<rparr>"

definition solo_host :: host where
  "solo_host = \<lparr>h_now = 100, h_ext = no_ext, h_mkdir = \<lambda>_. None, h_expanduser = \<lambda>p. p,
     h_connected = [(''ep1'', [''rhapsody''])]\<rparr>"

definition solo_submit :: "string \<Rightarrow> action" where
  "solo_submit tid = Event (EvSubmit \<lparr>sb_task_id = tid, sb_cmd = [''ls''], sb_cwd = ''/tmp'', sb_priority = 0,
     sb_inputs = [], sb_outputs = [], sb_spooled = [], sb_requirements = []\<rparr>)"

definition solo_resume :: action where
  "solo_resume = Resume 0 \<lparr>an_client = True, an_error = None, an_text = None, an_uids = []\<rparr>"

definition solo_report :: task_report where
  "solo_report = \<lparr>tr_exit_code = Some 0, tr_error = None, tr_data = []\<rparr>"

definition solo_up :: "action list" where
  "solo_up = [solo_submit ''t1'',
     Event (EvTick [(''ep1'', \<lparr>pt_liveness = ''present'', pt_plugins = [''rhapsody'']\<rparr>)] ''p.1'')] @
     replicate 5 solo_resume"

definition solo_race :: "action list" where
  "solo_race = [Event (EvCancelTask ''t1''), solo_submit ''t2'',
     Event (EvTask ''t1'' TASK_DONE solo_report), solo_resume, solo_submit ''t3'']"

definition running_on :: "pool_state \<Rightarrow> string \<Rightarrow> int" where
  "running_on ps pid = int (length (filter (\<lambda>t. t_state t = TASK_RUNNING \<and> t_pilot_id t = Some pid)
     (dvalues (pl_tasks ps))))"

lemma solo_start_reachable: "reachable no_ext solo_start"
  unfolding solo_start_def by (rule reachable.start) (simp add: fresh_pool_def)


definition solo_running :: pool_sys where
  "solo_running = the (run_actions solo_host solo_up solo_start)"

definition solo_lost :: pool_sys where
  "solo_lost = the (run_actions solo_host
     [Event (EvTask ''t1'' TASK_DONE solo_report),
      Event (EvTopology [(''ep1'', \<lparr>pt_liveness = ''lost'', pt_plugins = []\<rparr>)])] solo_running)"

definition solo_later :: pool_sys where
  "solo_later = the (run_actions solo_host
     [Event (EvTick [] ''p.2''), Event (EvTask ''t1'' TASK_FAILED solo_report)] solo_lost)"

lemma run_actions_the:
  assumes "run_actions h as s \<noteq> None" "h_ext h = ext"
  shows "reachable ext s \<Longrightarrow> reachable ext (the (run_actions h as s))"
    and "list_all allow as \<Longrightarrow> runs ext allow s (the (run_actions h as s))"
  using assms run_actions_reachable run_actions_runs [OF _ _ runs.none] by auto

lemma solo_reachable: "reachable no_ext solo_running" "reachable no_ext solo_lost"
proof -
  show 1: "reachable no_ext solo_running"
    unfolding solo_running_def
    by (rule run_actions_the(1) [OF _ _ solo_start_reachable]) (code_simp, simp add: solo_host_def)
  show "reachable no_ext solo_lost"
    unfolding solo_lost_def
    by (rule run_actions_the(1) [OF _ _ 1]) (code_simp, simp add: solo_host_def)
qed

lemma solo_later_runs:
  assumes "\<And>a. \<not> is_submit a \<Longrightarrow> allow a"
  shows "runs no_ext allow solo_lost solo_later"
  unfolding solo_later_def
  by (rule run_actions_the(2)) (code_simp, simp add: solo_host_def, simp add: assms)

theorem placement_consistent_witness:
  "t_state (the (dget (pl_tasks (sy_pool solo_running)) ''t1'')) = TASK_RUNNING \<and>
   (\<exists>pid p. t_pilot_id (the (dget (pl_tasks (sy_pool solo_running)) ''t1'')) = Some pid \<and>
      dget (pl_pilots (sy_pool solo_running)) pid = Some p \<and> p_state p = PILOT_ACTIVE)"
proof -
  have 1: "map_option t_state (dget (pl_tasks (sy_pool solo_running)) ''t1'') = Some TASK_RUNNING" by code_simp
  then obtain t where "dget (pl_tasks (sy_pool solo_running)) ''t1'' = Some t" "t_state t = TASK_RUNNING" by auto
  then show ?thesis
    using placement_consistent [OF builtin.ext_sound_axioms solo_reachable(1)] by auto
qed


theorem ended_pilot_charge_fixed_witness:
  "\<exists>p q. dget (pl_pilots (sy_pool solo_lost)) ''p.1'' = Some p \<and> dget (pl_pilots (sy_pool solo_later)) ''p.1'' = Some q \<and>
     pilot_is_terminal q \<and> (\<forall>now now'. pilot_charge now' q = pilot_charge now p)"
proof -
  have "map_option pilot_is_terminal (dget (pl_pilots (sy_pool solo_lost)) ''p.1'') = Some True" by code_simp
  then obtain p where "dget (pl_pilots (sy_pool solo_lost)) ''p.1'' = Some p" "pilot_is_terminal p" by auto
  then show ?thesis
    using ended_pilot_charge_fixed [OF builtin.ext_sound_axioms solo_reachable(2) solo_later_runs] by blast
qed

theorem ended_task_stays_ended_witness:
  "\<exists>u. dget (pl_tasks (sy_pool solo_later)) ''t1'' = Some u \<and> task_is_terminal u"
proof -
  have "map_option task_is_terminal (dget (pl_tasks (sy_pool solo_lost)) ''t1'') = Some True" by code_simp
  then obtain t where "dget (pl_tasks (sy_pool solo_lost)) ''t1'' = Some t" "task_is_terminal t" by auto
  then show ?thesis
    using ended_task_stays_ended [OF builtin.ext_sound_axioms solo_reachable(2) solo_later_runs] by blast
qed


section \<open>A removal under way\<close>

text \<open>The same pool with a batch pilot.  Its member is removed while \<open>t1\<close> runs and \<open>t2\<close> waits; the cancel of the pilot
  is still awaited when the pilot's endpoint is reported present once more.\<close>

definition batch_start :: pool_sys where
  "batch_start = \<lparr>sy_pool = (sy_pool solo_start)\<lparr>pl_config :=
     demo_config\<lparr>pc_members := [(''anl'', solo_member\<lparr>pm_pilot := PILOT_SUBMIT\<rparr>)]\<rparr>\<rparr>, sy_jobs = []\<rparr>"

definition batch_present :: action where
  "batch_present = Event (EvTopology [(''cpu_anl_p.1'', \<lparr>pt_liveness = ''present'', pt_plugins = [''rhapsody'']\<rparr>)])"

definition batch_up :: "action list" where
  "batch_up = [solo_submit ''t1'', solo_submit ''t2'',
     Event (EvTick [(''ep1'', \<lparr>pt_liveness = ''present'', pt_plugins = [''psij'']\<rparr>)] ''p.1''), solo_resume, solo_resume,
     Resume 0 \<lparr>an_client = True, an_error = None, an_text = Some ''j1'', an_uids = []\<rparr>, batch_present]"

definition batch_removed :: "action list" where
  "batch_removed = [Event (EvRemoveMember [] ''anl'' (PDict [(''force'', PBool True)])),
     Event (EvTask ''t1'' TASK_DONE solo_report)]"

definition doomed_view :: "pool_sys \<Rightarrow> (string option \<times> task_state option \<times> string option) \<times> bool" where
  "doomed_view s = ((map_option p_member_id (dget (pl_pilots (sy_pool s)) ''p.1''),
     map_option t_state (dget (pl_tasks (sy_pool s)) ''t2''),
     (case dget (pl_tasks (sy_pool s)) ''t2'' of None \<Rightarrow> None | Some t \<Rightarrow> t_pilot_id t)),
     dhas (pc_members (pl_config (sy_pool s))) ''anl'')"

text \<open>Pausing the pilots of a removed member does not keep work off them: a topology delivery between the awaits
  of the removal lifts the pause, and a task that was queued when the member had already left the pool is started on
  one of its doomed pilots.\<close>

theorem removal_pause_undone:
  "\<exists>s s'. reachable no_ext s \<and> runs no_ext (\<lambda>a. a = batch_present) s s' \<and>
     doomed_view s = ((Some ''anl'', Some TASK_QUEUED, None), False) \<and>
     doomed_view s' = ((Some ''anl'', Some TASK_RUNNING, Some ''p.1''), False)"
proof -
  let ?s = "the (run_actions solo_host (batch_up @ batch_removed) batch_start)"
  let ?s' = "the (run_actions solo_host [batch_present] ?s)"
  have views: "doomed_view ?s = ((Some ''anl'', Some TASK_QUEUED, None), False)"
      "doomed_view ?s' = ((Some ''anl'', Some TASK_RUNNING, Some ''p.1''), False)" by code_simp+
  have runs: "run_actions solo_host (batch_up @ batch_removed) batch_start \<noteq> None" "run_actions solo_host [batch_present] ?s \<noteq> None"
    by code_simp+
  have ext: "h_ext solo_host = no_ext" by (simp add: solo_host_def)
  have "reachable no_ext batch_start"
    unfolding batch_start_def by (rule reachable.start) (simp add: fresh_pool_def solo_start_def)
  then have "reachable no_ext ?s" by (rule run_actions_the(1) [OF runs(1) ext])
  moreover have "runs no_ext (\<lambda>a. a = batch_present) ?s ?s'"
    by (rule run_actions_the(2) [OF runs(2) ext]) simp
  ultimately show ?thesis using views by blast
qed

end
