(* ===== verification/Dispatcher_Drain.thy ===== *)
theory Dispatcher_Drain
  imports Dispatcher_System
begin

text \<open>
  The drain is complete: its bound, the length of the queue when it starts, never stops it while the
  policy would still place a task, because every round takes exactly one task out of the queue.
\<close>

lemma pending_length:
  "length (pending_queue ps) = length (filter (\<lambda>t. t_state t = TASK_QUEUED) (dvalues (pl_tasks ps)))"
  by (simp add: pending_queue_def)

lemma pending_shrinks:
  assumes "dict_ok (pl_tasks ps)" "dget (pl_tasks ps) tid = Some t" "t_state t = TASK_QUEUED"
    "dget (pl_tasks ps') tid = Some u" "pl_tasks ps' = dset tid u (pl_tasks ps)" "t_state u \<noteq> TASK_QUEUED"
  shows "length (pending_queue ps') < length (pending_queue ps)"
  using assms length_filter_dset_old [of "pl_tasks ps" tid t "\<lambda>t. t_state t = TASK_QUEUED" u]
  by (simp add: pending_length)

lemma upd_task_dset: "dget (pl_tasks ps) tid = Some t \<Longrightarrow> pl_tasks (upd_task tid f ps) = dset tid (f t) (pl_tasks ps)"
  by (simp add: upd_task_def)

lemma claim_tasks:
  assumes "dget (pl_tasks ps) (t_task_id t) = Some t"
  shows "\<exists>u. pl_tasks (fst (snd (claim h t p ps))) = dset (t_task_id t) u (pl_tasks ps) \<and> t_state u \<noteq> TASK_QUEUED"
    and "pl_policy (fst (snd (claim h t p ps))) = pl_policy ps"
  using assms
  by (auto simp: claim_def Let_def mark_task_failed_def upd_task_dset dset_dset claimed_def dget_upd_task
      split: option.splits)

context ext_sound
begin

lemma drain_loop_complete:
  fixes assigned :: "(string \<times> string list) list"
  assumes h: "h_ext h = ext" and "pool_inv ext None ps" and "length (pending_queue ps) \<le> n"
  defines "fin \<equiv> fst (snd (drain_loop h n assigned ps))"
  shows "(pending_queue fin = [] \<or> policy_pick ext (pl_policy fin) (h_now h) fin = Inr None \<or>
    isl (policy_pick ext (pl_policy fin) (h_now h) fin)) \<and> pl_policy fin = pl_policy ps"
  unfolding fin_def using assms(2,3)
proof (induction n arbitrary: assigned ps)
  case (Suc n)
  show ?case
  proof (cases "policy_pick ext (pl_policy ps) (h_now h) ps")
    case (Inr r)
    show ?thesis
    proof (cases r)
      case (Some tp)
      obtain t p where tp: "tp = (t, p)" by (cases tp)
      have pick: "policy_pick ext (pl_policy ps) (h_now h) ps = Inr (Some (t, p))" using Inr Some tp by simp
      have t: "dget (pl_tasks ps) (t_task_id t) = Some t" "t_state t = TASK_QUEUED"
        using pool_policy.pick_task [OF pick] dvalues_dgetD(1) [OF Suc.prems(1)] by auto
      have p: "dget (pl_pilots ps) (p_pid p) = Some p" "p_state p = PILOT_ACTIVE" "p_in_flight p < p_capacity p"
        using pool_policy.pick_pilot [OF pick] pool_policy.pick_sound [OF pick] dvalues_dgetD(2) [OF Suc.prems(1)] by auto
      obtain ok ps1 fx where c: "claim h t p ps = (ok, ps1, fx)" by (cases "claim h t p ps") auto
      have inv: "pool_inv ext None ps1" using claim_keeps [OF Suc.prems(1) t p, of h] c by auto
      obtain u where u: "pl_tasks ps1 = dset (t_task_id t) u (pl_tasks ps)" "t_state u \<noteq> TASK_QUEUED"
        and pol: "pl_policy ps1 = pl_policy ps"
        using claim_tasks [OF t(1), of h p] c by auto
      have "length (pending_queue ps1) < length (pending_queue ps)"
        using Suc.prems(1) pending_shrinks [OF _ t _ u] u(1) by (simp add: pool_inv_def)
      then have "length (pending_queue ps1) \<le> n" using Suc.prems(2) by simp
      note IH = Suc.IH [OF inv this, of "if ok then assign_to (p_pid p) (t_task_id t) assigned else assigned"]
      have "fst (snd (drain_loop h (Suc n) assigned ps)) =
          fst (snd (drain_loop h n (if ok then assign_to (p_pid p) (t_task_id t) assigned else assigned) ps1))"
        using pick c t h by (simp add: split_beta)
      then show ?thesis using IH pol by metis
    qed (use Inr h in simp)
  qed (use h in simp)
qed simp

lemma drain_pending_complete:
  assumes "h_ext h = ext" "pool_inv ext None ps"
  defines "fin \<equiv> fst (drain_pending h ps)"
  shows "pending_queue fin = [] \<or> policy_pick ext (pl_policy fin) (h_now h) fin = Inr None \<or>
      isl (policy_pick ext (pl_policy fin) (h_now h) fin)"
    and "pl_policy fin = pl_policy ps"
  using drain_loop_complete [OF assms(1,2) order_refl, of "[]"]
  by (auto simp: fin_def drain_pending_def split_beta)

end

text \<open>C13. Draining is complete: when a drain of a reachable pool under the conservative policy is over,
  either the policy raises on the pool it left, or no queued task can be served by any active pilot
  with a free slot and enough walltime left.  So the bound on the number of rounds never leaves
  behind a task that could run.\<close>

theorem drain_leaves_no_servable_task:
  assumes "reachable no_ext s" and "h_ext h = no_ext" and "pl_policy (sy_pool s) = ConservativePolicy c"
    and "drain_pending h (sy_pool s) = (ps, fx)"
    and "\<not> isl (conservative_pick c (h_now h) ps)"
    and "t \<in> set (pending_queue ps)" and "q \<in> set (live_pilots ps)" and "dispatchable c (h_now h) q"
  shows "serves t q = Inr False"
proof -
  note fin = builtin.drain_pending_complete [OF assms(2) builtin.reachable_inv [OF assms(1)]]
  have "pl_policy ps = ConservativePolicy c" using fin(2) assms(3,4) by simp
  then have "conservative_pick c (h_now h) ps = Inr None"
    using fin(1) assms(4-6) by auto
  then show ?thesis using assms(6-8) by (rule pick_none_unservable)
qed

definition solo_big :: pool_sys where
  "solo_big = the (run_actions solo_host
     [Event (EvSubmit \<lparr>sb_task_id = ''tb'', sb_cmd = [''ls''], sb_cwd = ''/tmp'', sb_priority = 0,
        sb_inputs = [], sb_outputs = [], sb_spooled = [], sb_requirements = [(''cores'', PInt 9)]\<rparr>),
      Event (EvTick [(''ep1'', \<lparr>pt_liveness = ''present'', pt_plugins = [''rhapsody'']\<rparr>)] ''p.1'')] solo_start)"

definition solo_policy :: conservative where
  "solo_policy = (case pl_policy (sy_pool solo_big) of ConservativePolicy c \<Rightarrow> c | _ \<Rightarrow> demo_policy)"

theorem drain_leaves_no_servable_task_witness:
  "\<exists>t q. dget (pl_tasks (sy_pool solo_big)) ''tb'' = Some t \<and> dget (pl_pilots (sy_pool solo_big)) ''p.1'' = Some q \<and>
     t_state t = TASK_QUEUED \<and> serves t q = Inr False"
proof -
  let ?ps = "fst (drain_pending solo_host (sy_pool solo_big))"
  have reach: "reachable no_ext solo_big"
    unfolding solo_big_def
    by (rule run_actions_the(1) [OF _ _ solo_start_reachable]) (code_simp, simp add: solo_host_def)
  have e1: "map_option (\<lambda>t. t_state t = TASK_QUEUED \<and> t \<in> set (pending_queue ?ps)) (dget (pl_tasks (sy_pool solo_big)) ''tb'') = Some True"
    by code_simp
  have e2: "map_option (\<lambda>q. q \<in> set (live_pilots ?ps) \<and> dispatchable solo_policy (h_now solo_host) q)
      (dget (pl_pilots (sy_pool solo_big)) ''p.1'') = Some True" by code_simp
  have "pl_policy (sy_pool solo_big) = ConservativePolicy solo_policy"
    "\<not> isl (conservative_pick solo_policy (h_now solo_host) ?ps)" by code_simp+
  moreover have "h_ext solo_host = no_ext" by (simp add: solo_host_def)
  ultimately have "serves t q = Inr False"
    if "t \<in> set (pending_queue ?ps)" "q \<in> set (live_pilots ?ps)" "dispatchable solo_policy (h_now solo_host) q" for t q
    using drain_leaves_no_servable_task [OF reach, of solo_host solo_policy ?ps "snd (drain_pending solo_host (sy_pool solo_big))" t q]
      that by simp
  then show ?thesis using e1 e2 by auto
qed

end
