(* ===== verification/Notify_Batch.thy ===== *)
theory Notify_Batch
  imports Dispatcher_State Dispatcher_Match
begin

text \<open>
  The two notification buffers of the program: the one of a rhapsody session
  (\<^verbatim>\<open>plugin_rhapsody.py\<close>, \<open>_queue_notification\<close> to \<open>_split_frames\<close>) and the one of the task
  dispatcher (\<^verbatim>\<open>plugin_task_dispatcher.py\<close>, \<open>_queue_rh_notification\<close> to \<open>_flush_rh\<close>), which also
  coalesces ledger writes.  Both decide under a lock what to do and do it after the lock is released,
  so a decision is kept in a list until it is carried out and other threads may come in between.
  The interface \<open>flush_window\<close> states what both promise.
\<close>

section \<open>Sizes and frames\<close>

text \<open>A \<open>string\<close> stands for a Python string of code points below 256, whose UTF-8 form takes one byte for
  an ASCII character and two for any other.\<close>

definition is_ascii :: "string \<Rightarrow> bool" where
  "is_ascii s = list_all (\<lambda>c. (of_char c :: nat) < 128) s"

definition utf8_len :: "string \<Rightarrow> nat" where
  "utf8_len s = sum_list (map (\<lambda>c. if (of_char c :: nat) < 128 then 1 else 2) s)"

definition payload_size :: "dict \<Rightarrow> int" where
  "payload_size payload = 2 + sum_list (map (\<lambda>(k, v). case v of
      PStr s \<Rightarrow> int (length k) + int (if is_ascii s then length s else utf8_len s)
    | _ \<Rightarrow> int (length k) + 16) payload)"

definition NOTIFY_BATCH_SIZE :: nat where
  "NOTIFY_BATCH_SIZE = 1024"

text \<open>The loop of \<open>_split_frames\<close>: the frames finished so far, the current frame and its size.\<close>

fun split_loop :: "int \<Rightarrow> dict list \<Rightarrow> dict list list \<Rightarrow> dict list \<Rightarrow> int \<Rightarrow> dict list list" where
  "split_loop budget [] frames frame nbytes = (if frame \<noteq> [] then frames @ [frame] else frames)"
| "split_loop budget (p # ps) frames frame nbytes =
    (if frame \<noteq> [] \<and> budget < nbytes + payload_size p
     then split_loop budget ps (frames @ [frame]) [p] (payload_size p)
     else split_loop budget ps frames (frame @ [p]) (nbytes + payload_size p))"

definition split_frames :: "int \<Rightarrow> dict list \<Rightarrow> dict list list" where
  "split_frames budget batch = split_loop budget batch [] [] 0"

text \<open>The dispatcher's variant appends the current frame to the list before it fills it; the last frame
  of the list is the current one.\<close>

fun fill_loop :: "int \<Rightarrow> dict list \<Rightarrow> dict list list \<Rightarrow> int \<Rightarrow> dict list list" where
  "fill_loop budget [] frames nbytes = frames"
| "fill_loop budget (p # ps) frames nbytes =
    (if last frames \<noteq> [] \<and> budget < nbytes + payload_size p
     then fill_loop budget ps (frames @ [[p]]) (payload_size p)
     else fill_loop budget ps (butlast frames @ [last frames @ [p]]) (nbytes + payload_size p))"

definition dispatcher_frames :: "int \<Rightarrow> dict list \<Rightarrow> dict list list" where
  "dispatcher_frames budget batch = filter (\<lambda>f. f \<noteq> []) (fill_loop budget batch [[]] 0)"

text \<open>How a frame goes out.\<close>

definition emit_frame :: "dict list \<Rightarrow> string \<times> dict" where
  "emit_frame frame = (if length frame = 1 then (''task_status'', hd frame)
     else (''task_status_batch'', [(''tasks'', PList (map PDict frame))]))"

section \<open>The rhapsody session\<close>

datatype decision = DoFlush | DoSchedule

text \<open>Where a coroutine can be started: on the running loop, on the plugin's main loop, or nowhere.\<close>

record scheduling =
  sd_plugin :: bool
  sd_loop :: bool
  sd_main_loop :: bool

record rh_buffer =
  nb_buf :: "dict list"
  nb_bytes :: int
  nb_scheduled :: bool
  nb_timers :: nat
  nb_todo :: "decision list"
  nb_sent :: "dict list list"

definition new_rh_buffer :: rh_buffer where
  "new_rh_buffer = \<lparr>nb_buf = [], nb_bytes = 0, nb_scheduled = False, nb_timers = 0, nb_todo = [], nb_sent = []\<rparr>"

definition frame_budget :: "int \<Rightarrow> int \<Rightarrow> int" where
  "frame_budget batch_bytes sid_bytes = max (batch_bytes - sid_bytes) (batch_bytes div 2)"

definition queue_notification :: "int \<Rightarrow> dict \<Rightarrow> rh_buffer \<Rightarrow> rh_buffer" where
  "queue_notification budget payload b =
    (let buf = nb_buf b @ [payload];
         bytes = nb_bytes b + payload_size payload;
         now = (NOTIFY_BATCH_SIZE \<le> length buf \<or> budget \<le> bytes);
         schedule = (\<not> now \<and> \<not> nb_scheduled b)
     in b\<lparr>nb_buf := buf, nb_bytes := bytes, nb_scheduled := nb_scheduled b \<or> schedule,
          nb_todo := nb_todo b @ (if now then [DoFlush] else if schedule then [DoSchedule] else [])\<rparr>)"

definition flush_notifications :: "int \<Rightarrow> rh_buffer \<Rightarrow> rh_buffer" where
  "flush_notifications budget b =
    (if nb_buf b = [] then b\<lparr>nb_scheduled := False\<rparr>
     else b\<lparr>nb_scheduled := False, nb_buf := [], nb_bytes := 0,
            nb_sent := nb_sent b @ split_frames budget (nb_buf b)\<rparr>)"

definition schedule_flush :: "int \<Rightarrow> scheduling \<Rightarrow> rat \<Rightarrow> rh_buffer \<Rightarrow> rh_buffer" where
  "schedule_flush budget sd delay b =
    (if \<not> sd_plugin sd then b\<lparr>nb_scheduled := False\<rparr>
     else if sd_loop sd then b\<lparr>nb_timers := Suc (nb_timers b)\<rparr>
     else if delay \<le> 0 then flush_notifications budget b
     else if sd_main_loop sd then b\<lparr>nb_timers := Suc (nb_timers b)\<rparr>
     else b\<lparr>nb_scheduled := False\<rparr>)"

text \<open>What a thread does with a decision it took, and a timer that fires.\<close>

definition carry_out :: "int \<Rightarrow> scheduling \<Rightarrow> rat \<Rightarrow> nat \<Rightarrow> rh_buffer \<Rightarrow> rh_buffer" where
  "carry_out budget sd delay n b =
    (if n < length (nb_todo b) then
       (let b1 = b\<lparr>nb_todo := take n (nb_todo b) @ drop (Suc n) (nb_todo b)\<rparr>
        in case nb_todo b ! n of
             DoFlush \<Rightarrow> flush_notifications budget b1
           | DoSchedule \<Rightarrow> schedule_flush budget sd delay b1)
     else b)"

definition fire_timer :: "int \<Rightarrow> rh_buffer \<Rightarrow> rh_buffer" where
  "fire_timer budget b = (if nb_timers b = 0 then b
     else flush_notifications budget (b\<lparr>nb_timers := nb_timers b - 1\<rparr>))"

section \<open>The dispatcher\<close>

record td_buffer = rh_buffer +
  nb_dirty :: "(string \<times> string) list"
  nb_persisted :: "(string \<times> string) list"

definition new_td_buffer :: td_buffer where
  "new_td_buffer = rh_buffer.extend new_rh_buffer \<lparr>nb_dirty = [], nb_persisted = []\<rparr>"

definition queue_rh_notification :: "int \<Rightarrow> dict \<Rightarrow> td_buffer \<Rightarrow> td_buffer" where
  "queue_rh_notification budget payload b =
    (let buf = nb_buf b @ [payload];
         bytes = nb_bytes b + payload_size payload;
         now = (NOTIFY_BATCH_SIZE \<le> length buf \<or> budget \<le> bytes);
         schedule = (\<not> now \<and> \<not> nb_scheduled b)
     in b\<lparr>nb_buf := buf, nb_bytes := bytes, nb_scheduled := nb_scheduled b \<or> schedule,
          nb_todo := nb_todo b @ (if now then [DoFlush] else if schedule then [DoSchedule] else [])\<rparr>)"

text \<open>The pools that still exist are passed in; a torn-down one needs no write.\<close>

definition mark_dirty :: "rat \<Rightarrow> string \<times> string \<Rightarrow> td_buffer \<Rightarrow> td_buffer" where
  "mark_dirty window key b =
    (if window \<le> 0 then b\<lparr>nb_persisted := nb_persisted b @ [key]\<rparr>
     else b\<lparr>nb_dirty := List.insert key (nb_dirty b), nb_scheduled := True,
            nb_todo := nb_todo b @ (if nb_scheduled b then [] else [DoSchedule])\<rparr>)"

definition flush_rh :: "int \<Rightarrow> (string \<times> string \<Rightarrow> bool) \<Rightarrow> td_buffer \<Rightarrow> td_buffer" where
  "flush_rh budget alive b =
     b\<lparr>nb_scheduled := False, nb_buf := [], nb_bytes := 0, nb_dirty := [],
       nb_persisted := nb_persisted b @ filter alive (nb_dirty b),
       nb_sent := nb_sent b @ (if nb_buf b = [] then [] else dispatcher_frames budget (nb_buf b))\<rparr>"

definition schedule_rh_flush :: "int \<Rightarrow> (string \<times> string \<Rightarrow> bool) \<Rightarrow> bool \<Rightarrow> td_buffer \<Rightarrow> td_buffer" where
  "schedule_rh_flush budget alive loop_running b =
     (if loop_running then b\<lparr>nb_timers := Suc (nb_timers b)\<rparr> else flush_rh budget alive b)"

definition td_carry_out ::
  "int \<Rightarrow> (string \<times> string \<Rightarrow> bool) \<Rightarrow> bool \<Rightarrow> nat \<Rightarrow> td_buffer \<Rightarrow> td_buffer" where
  "td_carry_out budget alive loop_running n b =
    (if n < length (nb_todo b) then
       (let b1 = b\<lparr>nb_todo := take n (nb_todo b) @ drop (Suc n) (nb_todo b)\<rparr>
        in case nb_todo b ! n of
             DoFlush \<Rightarrow> flush_rh budget alive b1
           | DoSchedule \<Rightarrow> schedule_rh_flush budget alive loop_running b1)
     else b)"

definition td_fire_timer :: "int \<Rightarrow> (string \<times> string \<Rightarrow> bool) \<Rightarrow> td_buffer \<Rightarrow> td_buffer" where
  "td_fire_timer budget alive b = (if nb_timers b = 0 then b
     else flush_rh budget alive (b\<lparr>nb_timers := nb_timers b - 1\<rparr>))"

text \<open>The steps of each buffer other than a new payload.\<close>

datatype rh_move = RhCarry nat scheduling rat | RhFire

fun rh_event :: "int \<Rightarrow> rh_move \<Rightarrow> rh_buffer \<Rightarrow> rh_buffer" where
  "rh_event budget (RhCarry n sd delay) b = carry_out budget sd delay n b"
| "rh_event budget RhFire b = fire_timer budget b"

text \<open>A flush can be started: there is a plugin, and a loop to start it on or no delay.\<close>

fun rh_event_ok :: "rh_move \<Rightarrow> bool" where
  "rh_event_ok (RhCarry n sd delay) \<longleftrightarrow> sd_plugin sd \<and> (sd_loop sd \<or> delay \<le> 0 \<or> sd_main_loop sd)"
| "rh_event_ok RhFire \<longleftrightarrow> True"

datatype td_move = TdCarry nat bool | TdFire | TdDirty rat "string \<times> string"

fun td_event :: "int \<Rightarrow> (string \<times> string \<Rightarrow> bool) \<Rightarrow> td_move \<Rightarrow> td_buffer \<Rightarrow> td_buffer" where
  "td_event budget alive (TdCarry n loop_running) b = td_carry_out budget alive loop_running n b"
| "td_event budget alive TdFire b = td_fire_timer budget alive b"
| "td_event budget alive (TdDirty window key) b = mark_dirty window key b"

definition flush_due :: "'a rh_buffer_scheme \<Rightarrow> bool" where
  "flush_due b \<longleftrightarrow> nb_todo b \<noteq> [] \<or> 0 < nb_timers b"

section \<open>Splitting into frames\<close>

text \<open>What a consumer reads out of a frame (\<open>_on_event\<close>).\<close>

definition event_items :: "string \<times> dict \<Rightarrow> pyval list" where
  "event_items td = (case td of (topic, data) \<Rightarrow>
     if topic = ''task_status'' then [PDict data]
     else if topic = ''task_status_batch'' then (case get_or data ''tasks'' (PList []) of PList xs \<Rightarrow> xs | _ \<Rightarrow> [])
     else [])"

locale frame_splitter =
  fixes split :: "int \<Rightarrow> dict list \<Rightarrow> dict list list"
  assumes split_concat: "concat (split budget batch) = batch"
    and split_nonempty: "f \<in> set (split budget batch) \<Longrightarrow> f \<noteq> []"
    and split_fits: "f \<in> set (split budget batch) \<Longrightarrow> length f = 1 \<or> sum_list (map payload_size f) \<le> budget"
begin

lemma items_of_frame: "f \<noteq> [] \<Longrightarrow> event_items (emit_frame f) = map PDict f"
  by (cases f; cases "tl f") (auto simp: event_items_def emit_frame_def get_or_def pget_def Let_def)

lemma consumer_reads_batch:
  "concat (map event_items (map emit_frame (split budget batch))) = map PDict batch"
proof -
  have "map event_items (map emit_frame (split budget batch)) = map (map PDict) (split budget batch)"
    using split_nonempty items_of_frame by simp
  then have "concat (map event_items (map emit_frame (split budget batch))) = map PDict (concat (split budget batch))"
    by (simp only: map_concat)
  then show ?thesis by (simp only: split_concat)
qed

end

lemma split_loop_laws:
  assumes "nbytes = sum_list (map payload_size frame)"
    and "\<forall>f \<in> set frames. f \<noteq> [] \<and> (length f = 1 \<or> sum_list (map payload_size f) \<le> budget)"
    and "length frame \<le> 1 \<or> nbytes \<le> budget"
  shows "concat (split_loop budget ps frames frame nbytes) = concat frames @ frame @ ps \<and>
    (\<forall>f \<in> set (split_loop budget ps frames frame nbytes). f \<noteq> [] \<and>
       (length f = 1 \<or> sum_list (map payload_size f) \<le> budget))"
  using assms
proof (induction budget ps frames frame nbytes rule: split_loop.induct)
  case (1 budget frames frame nbytes)
  then show ?case by (cases frame) auto
next
  case (2 budget p ps frames frame nbytes)
  show ?case
  proof (cases "frame \<noteq> [] \<and> budget < nbytes + payload_size p")
    case True
    then have "length frame \<noteq> 0" by simp
    then have "length frame = 1 \<or> sum_list (map payload_size frame) \<le> budget"
      using "2.prems"(1,3) by linarith
    with "2.prems"(2) True have frames: "\<forall>f \<in> set (frames @ [frame]). f \<noteq> [] \<and> (length f = 1 \<or> sum_list (map payload_size f) \<le> budget)"
      by simp
    from "2.IH"(1) [OF True _ frames] show ?thesis using True by simp
  next
    case False
    then have "length (frame @ [p]) \<le> 1 \<or> nbytes + payload_size p \<le> budget" by auto
    from "2.IH"(2) [OF False _ "2.prems"(2) this] show ?thesis using False "2.prems"(1) by auto
  qed
qed

lemma fill_loop_split:
  "fill_loop budget ps (frames @ [frame]) nbytes = split_loop budget ps frames frame nbytes \<or>
   ps = [] \<and> frame = []"
proof (induction ps arbitrary: frames frame nbytes)
  case (Cons p ps)
  then show ?case
    using Cons.IH [of "frames @ [frame]" "[p]" "payload_size p"]
      Cons.IH [of frames "frame @ [p]" "nbytes + payload_size p"] by auto
qed simp

lemma split_frames_laws:
  "concat (split_frames budget batch) = batch"
  "f \<in> set (split_frames budget batch) \<Longrightarrow> f \<noteq> [] \<and> (length f = 1 \<or> sum_list (map payload_size f) \<le> budget)"
  using split_loop_laws [of 0 "[]" "[]" budget batch] by (auto simp: split_frames_def)

lemma dispatcher_frames_eq: "dispatcher_frames budget batch = split_frames budget batch"
proof (cases batch)
  case (Cons p ps)
  then have "fill_loop budget batch [[]] 0 = split_frames budget batch"
    using fill_loop_split [of budget batch "[]" "[]" 0] by (simp add: split_frames_def)
  then show ?thesis
    using split_frames_laws(2) by (simp add: dispatcher_frames_def filter_id_conv)
qed (simp add: dispatcher_frames_def split_frames_def)

interpretation rh_frames: frame_splitter split_frames
  by unfold_locales (use split_frames_laws in auto)

interpretation td_frames: frame_splitter dispatcher_frames
  by unfold_locales (use split_frames_laws in \<open>auto simp: dispatcher_frames_eq\<close>)

section \<open>The flush window\<close>

text \<open>What a buffer with a flush window promises: nothing is lost or reordered, and a buffer that is not
  empty has a flush coming.\<close>

locale flush_window =
  fixes start :: 's
    and add :: "dict \<Rightarrow> 's \<Rightarrow> 's"
    and move :: "'e \<Rightarrow> 's \<Rightarrow> 's"
    and ok :: "'e \<Rightarrow> bool"
    and buf :: "'s \<Rightarrow> dict list"
    and sent :: "'s \<Rightarrow> dict list list"
    and due :: "'s \<Rightarrow> bool"
    and inv :: "'s \<Rightarrow> bool"
  assumes start: "inv start" "concat (sent start) @ buf start = []"
    and add: "inv s \<Longrightarrow> inv (add p s)" "inv s \<Longrightarrow> concat (sent (add p s)) @ buf (add p s) = concat (sent s) @ buf s @ [p]"
    and move: "inv s \<Longrightarrow> ok e \<Longrightarrow> inv (move e s)"
      "inv s \<Longrightarrow> ok e \<Longrightarrow> concat (sent (move e s)) @ buf (move e s) = concat (sent s) @ buf s"
    and due: "inv s \<Longrightarrow> buf s \<noteq> [] \<Longrightarrow> due s"
begin

lemma history:
  assumes "list_all (case_sum (\<lambda>_. True) ok) xs"
  defines "s \<equiv> fold (case_sum add move) xs start"
  shows "inv s \<and> concat (sent s) @ buf s = concat (map (case_sum (\<lambda>p. [p]) (\<lambda>_. [])) xs)"
  unfolding s_def using assms(1)
proof (induction xs rule: rev_induct)
  case (snoc x xs)
  let ?s = "fold (case_sum add move) xs start"
  have IH: "inv ?s" "concat (sent ?s) @ buf ?s = concat (map (case_sum (\<lambda>p. [p]) (\<lambda>_. [])) xs)"
    using snoc by auto
  show ?case
  proof (cases x)
    case (Inl p)
    then show ?thesis using add [OF IH(1), of p] IH(2) by simp
  next
    case (Inr e)
    then show ?thesis using move [OF IH(1), of e] IH(2) snoc.prems by simp
  qed
qed (use start in simp)

lemma never_stranded:
  assumes "list_all (case_sum (\<lambda>_. True) ok) xs" "buf (fold (case_sum add move) xs start) \<noteq> []"
  shows "due (fold (case_sum add move) xs start)"
  using history [OF assms(1)] due assms(2) by blast

end

definition window_inv :: "'a rh_buffer_scheme \<Rightarrow> bool" where
  "window_inv b \<longleftrightarrow> (nb_scheduled b \<longrightarrow> DoSchedule \<in> set (nb_todo b) \<or> 0 < nb_timers b) \<and>
     (nb_buf b \<noteq> [] \<longrightarrow> nb_scheduled b \<or> DoFlush \<in> set (nb_todo b) \<or> 0 < nb_timers b)"

lemma flush_laws:
  "window_inv (flush_notifications budget b)"
  "concat (nb_sent (flush_notifications budget b)) @ nb_buf (flush_notifications budget b) = concat (nb_sent b) @ nb_buf b"
  "window_inv (flush_rh budget alive c)"
  "concat (nb_sent (flush_rh budget alive c)) @ nb_buf (flush_rh budget alive c) = concat (nb_sent c) @ nb_buf c"
  by (auto simp: flush_notifications_def flush_rh_def window_inv_def rh_frames.split_concat td_frames.split_concat)

lemma timer_inv: "0 < t \<Longrightarrow> window_inv (b\<lparr>nb_todo := td, nb_timers := t\<rparr>)"
  by (simp add: window_inv_def)

lemma rh_queue_laws:
  assumes "window_inv b"
  shows "window_inv (queue_notification budget p b)"
    and "concat (nb_sent (queue_notification budget p b)) @ nb_buf (queue_notification budget p b) =
      concat (nb_sent b) @ nb_buf b @ [p]"
  using assms by (auto simp: queue_notification_def window_inv_def Let_def)

lemma td_queue_laws:
  assumes "window_inv b"
  shows "window_inv (queue_rh_notification budget p b)"
    and "concat (nb_sent (queue_rh_notification budget p b)) @ nb_buf (queue_rh_notification budget p b) =
      concat (nb_sent b) @ nb_buf b @ [p]"
  using assms by (auto simp: queue_rh_notification_def window_inv_def Let_def)

lemma rh_event_laws:
  assumes "window_inv b" "rh_event_ok e"
  shows "window_inv (rh_event budget e b)"
    and "concat (nb_sent (rh_event budget e b)) @ nb_buf (rh_event budget e b) = concat (nb_sent b) @ nb_buf b"
  using assms flush_laws(1,2)
  by (cases e; auto simp: carry_out_def schedule_flush_def fire_timer_def timer_inv Let_def split: decision.splits)+

lemma td_event_laws:
  assumes "window_inv b"
  shows "window_inv (td_event budget alive e b)"
    and "concat (nb_sent (td_event budget alive e b)) @ nb_buf (td_event budget alive e b) = concat (nb_sent b) @ nb_buf b"
proof -
  have "window_inv (mark_dirty w k b)" for w k using assms by (auto simp: mark_dirty_def window_inv_def)
  then show "window_inv (td_event budget alive e b)"
    using assms flush_laws(3)
    by (cases e) (auto simp: td_carry_out_def schedule_rh_flush_def td_fire_timer_def timer_inv Let_def split: decision.splits)
  show "concat (nb_sent (td_event budget alive e b)) @ nb_buf (td_event budget alive e b) = concat (nb_sent b) @ nb_buf b"
    using flush_laws(4)
    by (cases e) (auto simp: td_carry_out_def schedule_rh_flush_def td_fire_timer_def mark_dirty_def Let_def split: decision.splits)
qed

lemma window_due: "window_inv b \<Longrightarrow> nb_buf b \<noteq> [] \<Longrightarrow> flush_due b"
  by (auto simp: window_inv_def flush_due_def)

lemma start_laws:
  "window_inv new_rh_buffer" "nb_sent new_rh_buffer = []" "nb_buf new_rh_buffer = []"
  "window_inv new_td_buffer" "nb_sent new_td_buffer = []" "nb_buf new_td_buffer = []"
  by (simp_all add: new_td_buffer_def new_rh_buffer_def window_inv_def rh_buffer.defs)

interpretation rh_window: flush_window new_rh_buffer "queue_notification budget" "rh_event budget" rh_event_ok
    nb_buf nb_sent flush_due window_inv for budget
  by unfold_locales (simp_all add: start_laws rh_queue_laws rh_event_laws window_due)

interpretation td_window: flush_window new_td_buffer "queue_rh_notification budget" "td_event budget alive" "\<lambda>_. True"
    nb_buf nb_sent flush_due window_inv for budget alive
  by unfold_locales (simp_all add: start_laws td_queue_laws td_event_laws window_due)

text \<open>The ledger side: a marked pool stays on the books until it is written.\<close>

definition dirty_inv :: "td_buffer \<Rightarrow> bool" where
  "dirty_inv b \<longleftrightarrow> window_inv b \<and>
     (nb_dirty b \<noteq> [] \<longrightarrow> nb_scheduled b \<or> DoFlush \<in> set (nb_todo b) \<or> 0 < nb_timers b)"

definition td_step :: "int \<Rightarrow> (string \<times> string \<Rightarrow> bool) \<Rightarrow> dict + td_move \<Rightarrow> td_buffer \<Rightarrow> td_buffer" where
  "td_step budget alive = case_sum (queue_rh_notification budget) (td_event budget alive)"

lemma td_step_dirty_inv:
  assumes "dirty_inv b"
  shows "dirty_inv (td_step budget alive x b)"
proof (cases x)
  case (Inl p)
  then show ?thesis
    using assms td_queue_laws(1) [of b budget p]
    by (auto simp: td_step_def dirty_inv_def queue_rh_notification_def Let_def)
next
  case (Inr e)
  have "nb_dirty (flush_rh budget alive c) = []" for c by (simp add: flush_rh_def)
  then show ?thesis
    using Inr assms td_event_laws(1) [of b budget alive e]
    by (cases e) (auto simp: td_step_def dirty_inv_def td_carry_out_def schedule_rh_flush_def td_fire_timer_def
        mark_dirty_def Let_def split: decision.splits)
qed

lemma dirty_due: "dirty_inv b \<Longrightarrow> nb_dirty b \<noteq> [] \<Longrightarrow> flush_due b"
  by (auto simp: dirty_inv_def window_inv_def flush_due_def)

lemma td_step_tracks:
  assumes "alive key" "n \<le> length (nb_persisted b)" "key \<in> set (drop n (nb_persisted b)) \<or> key \<in> set (nb_dirty b)"
  shows "n \<le> length (nb_persisted (td_step budget alive x b)) \<and>
    (key \<in> set (drop n (nb_persisted (td_step budget alive x b))) \<or> key \<in> set (nb_dirty (td_step budget alive x b)))"
proof (cases x)
  case (Inl p)
  then show ?thesis using assms by (simp add: td_step_def queue_rh_notification_def Let_def)
next
  case (Inr e)
  have flush: "n \<le> length (nb_persisted (flush_rh budget alive c)) \<and>
      key \<in> set (drop n (nb_persisted (flush_rh budget alive c)))"
    if "nb_persisted c = nb_persisted b" "nb_dirty c = nb_dirty b" for c
    using that assms by (auto simp: flush_rh_def)
  show ?thesis
    using Inr assms flush
    by (cases e) (auto simp: td_step_def td_carry_out_def schedule_rh_flush_def td_fire_timer_def
        mark_dirty_def Let_def split: decision.splits)
qed

lemma td_fold_tracks:
  assumes "alive key" "dirty_inv b" "n \<le> length (nb_persisted b)"
    "key \<in> set (drop n (nb_persisted b)) \<or> key \<in> set (nb_dirty b)"
  shows "dirty_inv (fold (td_step budget alive) xs b) \<and>
    (key \<in> set (drop n (nb_persisted (fold (td_step budget alive) xs b))) \<or>
     key \<in> set (nb_dirty (fold (td_step budget alive) xs b)))"
  using assms(2-4)
proof (induction xs arbitrary: b)
  case (Cons x xs)
  then show ?case
    using td_step_dirty_inv [of b budget alive x] td_step_tracks [of alive key n b budget x] assms(1) by simp
qed simp

lemma td_start_dirty_inv: "dirty_inv (fold (td_step budget alive) xs new_td_buffer)"
proof (induction xs rule: rev_induct)
  case Nil
  then show ?case
    using start_laws(4) by (simp add: dirty_inv_def) (simp add: new_td_buffer_def new_rh_buffer_def rh_buffer.defs)
next
  case (snoc x xs)
  then show ?case by (simp add: td_step_dirty_inv)
qed

section \<open>Properties\<close>



text \<open>Consumers of the dispatcher's frames read every completion once and in order: unpacking the frames
  a flush emits gives the flushed buffer, the frames are the ones the rhapsody session would have
  built, and each stays within the byte budget unless it holds a single completion.\<close>

theorem flush_frames_readable:
  "concat (map event_items (map emit_frame (dispatcher_frames budget batch))) = map PDict batch \<and>
   dispatcher_frames budget batch = split_frames budget batch \<and>
   list_all (\<lambda>f. length f = 1 \<or> sum_list (map payload_size f) \<le> budget) (dispatcher_frames budget batch)"
  using td_frames.consumer_reads_batch [of budget batch] td_frames.split_fits [of _ budget batch]
  by (auto simp: dispatcher_frames_eq list_all_iff)

lemma start_persisted: "nb_persisted new_td_buffer = []"
  by (simp add: new_td_buffer_def new_rh_buffer_def rh_buffer.defs)



end
