(* ===== verification/Federation_State.thy ===== *)
theory Federation_State
  imports Dispatcher_State Dispatcher_Config
begin

text \<open>
  \<^verbatim>\<open>federation_state.py\<close>: the records of the federation (usage, ledger entry, member, resource), their
  persisted form with the migrations a load performs, the derived views, the ledger operations, the
  durable store and the validators of a join body.  A document whose fields have other types than the
  dataclasses declare is a decoding error here.
\<close>

section \<open>Usage and ledger\<close>

record usage =
  u_node_hours_used :: pyfloat
  u_node_hours_remaining :: pyfloat
  u_pilots_active :: int
  u_tasks_running :: int
  u_tasks_done :: int
  u_tasks_failed :: int
  u_stale :: bool
  u_updated_at :: rat
  u_pilot_error :: "string option"
  u_pilot_failures :: int
  u_paused_until :: "pyfloat option"
  u_remaining_sec :: "pyfloat option"

definition usage_asdict :: "usage \<Rightarrow> dict" where
  "usage_asdict r =
    [(''node_hours_used'', PFloat (u_node_hours_used r)),
     (''node_hours_remaining'', PFloat (u_node_hours_remaining r)),
     (''pilots_active'', PInt (u_pilots_active r)),
     (''tasks_running'', PInt (u_tasks_running r)),
     (''tasks_done'', PInt (u_tasks_done r)),
     (''tasks_failed'', PInt (u_tasks_failed r)),
     (''stale'', PBool (u_stale r)),
     (''updated_at'', enc_rat (u_updated_at r)),
     (''pilot_error'', enc_opt PStr (u_pilot_error r)),
     (''pilot_failures'', PInt (u_pilot_failures r)),
     (''paused_until'', enc_opt PFloat (u_paused_until r)),
     (''remaining_sec'', enc_opt PFloat (u_remaining_sec r))]"

definition usage_from_dict :: "dict \<Rightarrow> decode_error + usage" where
  "usage_from_dict d =
    rbind (optional dec_float (Fin 0) ''node_hours_used'' d) (\<lambda>v1.
    rbind (optional dec_float (Fin 0) ''node_hours_remaining'' d) (\<lambda>v2.
    rbind (optional dec_int 0 ''pilots_active'' d) (\<lambda>v3.
    rbind (optional dec_int 0 ''tasks_running'' d) (\<lambda>v4.
    rbind (optional dec_int 0 ''tasks_done'' d) (\<lambda>v5.
    rbind (optional dec_int 0 ''tasks_failed'' d) (\<lambda>v6.
    rbind (optional dec_bool False ''stale'' d) (\<lambda>v7.
    rbind (optional dec_rat 0 ''updated_at'' d) (\<lambda>v8.
    rbind (optional (dec_opt dec_str) None ''pilot_error'' d) (\<lambda>v9.
    rbind (optional dec_int 0 ''pilot_failures'' d) (\<lambda>v10.
    rbind (optional (dec_opt dec_float) None ''paused_until'' d) (\<lambda>v11.
    rbind (optional (dec_opt dec_float) None ''remaining_sec'' d) (\<lambda>v12.
    Inr \<lparr>u_node_hours_used = v1, u_node_hours_remaining = v2, u_pilots_active = v3,
      u_tasks_running = v4, u_tasks_done = v5, u_tasks_failed = v6, u_stale = v7, u_updated_at = v8,
      u_pilot_error = v9, u_pilot_failures = v10, u_paused_until = v11,
      u_remaining_sec = v12\<rparr>))))))))))))"

definition new_usage :: usage where
  "new_usage = \<lparr>u_node_hours_used = Fin 0, u_node_hours_remaining = Fin 0, u_pilots_active = 0,
     u_tasks_running = 0, u_tasks_done = 0, u_tasks_failed = 0, u_stale = False, u_updated_at = 0,
     u_pilot_error = None, u_pilot_failures = 0, u_paused_until = None, u_remaining_sec = None\<rparr>"

text \<open>A \<open>usage\<close> block that is not an object is replaced by an empty one.\<close>

fun dec_usage :: "pyval \<Rightarrow> usage option" where
  "dec_usage (PDict d) = (case usage_from_dict d of Inl e \<Rightarrow> None | Inr u \<Rightarrow> Some u)"
| "dec_usage _ = Some new_usage"

record ledger_entry =
  l_task_id :: string
  l_resource :: "string option"
  l_pool :: string
  l_dispatcher_sid :: string
  l_state :: string
  l_submitted_at :: rat
  l_finished_at :: "rat option"
  l_member_id :: "string option"
  l_cls :: string
  l_detail :: string

definition ledger_asdict :: "ledger_entry \<Rightarrow> dict" where
  "ledger_asdict r =
    [(''task_id'', PStr (l_task_id r)),
     (''resource'', enc_opt PStr (l_resource r)),
     (''pool'', PStr (l_pool r)),
     (''dispatcher_sid'', PStr (l_dispatcher_sid r)),
     (''state'', PStr (l_state r)),
     (''submitted_at'', enc_rat (l_submitted_at r)),
     (''finished_at'', enc_opt enc_rat (l_finished_at r)),
     (''member_id'', enc_opt PStr (l_member_id r)),
     (''cls'', PStr (l_cls r)),
     (''detail'', PStr (l_detail r))]"

definition ledger_from_dict :: "dict \<Rightarrow> decode_error + ledger_entry" where
  "ledger_from_dict d =
    rbind (required dec_str ''task_id'' d) (\<lambda>v1.
    rbind (required (dec_opt dec_str) ''resource'' d) (\<lambda>v2.
    rbind (optional dec_str '''' ''pool'' d) (\<lambda>v3.
    rbind (optional dec_str '''' ''dispatcher_sid'' d) (\<lambda>v4.
    rbind (optional dec_str ''QUEUED'' ''state'' d) (\<lambda>v5.
    rbind (optional dec_rat 0 ''submitted_at'' d) (\<lambda>v6.
    rbind (optional (dec_opt dec_rat) None ''finished_at'' d) (\<lambda>v7.
    rbind (optional (dec_opt dec_str) None ''member_id'' d) (\<lambda>v8.
    rbind (optional dec_str '''' ''cls'' d) (\<lambda>v9.
    rbind (optional dec_str '''' ''detail'' d) (\<lambda>v10.
    Inr \<lparr>l_task_id = v1, l_resource = v2, l_pool = v3, l_dispatcher_sid = v4, l_state = v5,
      l_submitted_at = v6, l_finished_at = v7, l_member_id = v8, l_cls = v9,
      l_detail = v10\<rparr>))))))))))"

section \<open>Members\<close>

record member_record =
  fm_member :: string
  fm_member_id :: string
  fm_cls :: string
  fm_pool_name :: string
  fm_endpoint :: string
  fm_pilot :: string
  fm_end_time :: "pyfloat option"
  fm_queue :: string
  fm_account :: "string option"
  fm_nodes :: int
  fm_cpus_per_node :: int
  fm_gpus_per_node :: int
  fm_walltime_sec :: int
  fm_min_pilots :: int
  fm_max_pilots :: int
  fm_rhapsody_backend :: string
  fm_scratch_base :: "string option"
  fm_shared_fs :: bool
  fm_software :: "string list"
  fm_attributes :: dict
  fm_budget :: dict
  fm_usage :: usage
  fm_liveness :: string

definition member_asdict :: "member_record \<Rightarrow> dict" where
  "member_asdict r =
    [(''member'', PStr (fm_member r)),
     (''member_id'', PStr (fm_member_id r)),
     (''cls'', PStr (fm_cls r)),
     (''pool_name'', PStr (fm_pool_name r)),
     (''endpoint'', PStr (fm_endpoint r)),
     (''pilot'', PStr (fm_pilot r)),
     (''end_time'', enc_opt PFloat (fm_end_time r)),
     (''queue'', PStr (fm_queue r)),
     (''account'', enc_opt PStr (fm_account r)),
     (''nodes'', PInt (fm_nodes r)),
     (''cpus_per_node'', PInt (fm_cpus_per_node r)),
     (''gpus_per_node'', PInt (fm_gpus_per_node r)),
     (''walltime_sec'', PInt (fm_walltime_sec r)),
     (''min_pilots'', PInt (fm_min_pilots r)),
     (''max_pilots'', PInt (fm_max_pilots r)),
     (''rhapsody_backend'', PStr (fm_rhapsody_backend r)),
     (''scratch_base'', enc_opt PStr (fm_scratch_base r)),
     (''shared_fs'', PBool (fm_shared_fs r)),
     (''software'', enc_strs (fm_software r)),
     (''attributes'', PDict (fm_attributes r)),
     (''budget'', PDict (fm_budget r)),
     (''usage'', PDict (usage_asdict (fm_usage r))),
     (''liveness'', PStr (fm_liveness r))]"

definition member_new :: "dict \<Rightarrow> decode_error + member_record" where
  "member_new d =
    rbind (required dec_str ''member'' d) (\<lambda>v1.
    rbind (optional dec_str '''' ''member_id'' d) (\<lambda>v2.
    rbind (optional dec_str '''' ''cls'' d) (\<lambda>v3.
    rbind (optional dec_str '''' ''pool_name'' d) (\<lambda>v4.
    rbind (optional dec_str '''' ''endpoint'' d) (\<lambda>v5.
    rbind (optional dec_str ''submit'' ''pilot'' d) (\<lambda>v6.
    rbind (optional (dec_opt dec_float) None ''end_time'' d) (\<lambda>v7.
    rbind (optional dec_str '''' ''queue'' d) (\<lambda>v8.
    rbind (optional (dec_opt dec_str) None ''account'' d) (\<lambda>v9.
    rbind (optional dec_int 1 ''nodes'' d) (\<lambda>v10.
    rbind (optional dec_int 1 ''cpus_per_node'' d) (\<lambda>v11.
    rbind (optional dec_int 0 ''gpus_per_node'' d) (\<lambda>v12.
    rbind (optional dec_int 3600 ''walltime_sec'' d) (\<lambda>v13.
    rbind (optional dec_int 0 ''min_pilots'' d) (\<lambda>v14.
    rbind (optional dec_int 1 ''max_pilots'' d) (\<lambda>v15.
    rbind (optional dec_str ''concurrent'' ''rhapsody_backend'' d) (\<lambda>v16.
    rbind (optional (dec_opt dec_str) None ''scratch_base'' d) (\<lambda>v17.
    rbind (optional dec_bool True ''shared_fs'' d) (\<lambda>v18.
    rbind (optional dec_strs [] ''software'' d) (\<lambda>v19.
    rbind (optional dec_dict [] ''attributes'' d) (\<lambda>v20.
    rbind (optional dec_dict [] ''budget'' d) (\<lambda>v21.
    rbind (optional dec_usage new_usage ''usage'' d) (\<lambda>v22.
    rbind (optional dec_str ''ok'' ''liveness'' d) (\<lambda>v23.
    Inr \<lparr>fm_member = v1, fm_member_id = v2, fm_cls = v3, fm_pool_name = v4, fm_endpoint = v5,
      fm_pilot = v6, fm_end_time = v7, fm_queue = v8, fm_account = v9, fm_nodes = v10,
      fm_cpus_per_node = v11, fm_gpus_per_node = v12, fm_walltime_sec = v13, fm_min_pilots = v14,
      fm_max_pilots = v15, fm_rhapsody_backend = v16, fm_scratch_base = v17, fm_shared_fs = v18,
      fm_software = v19, fm_attributes = v20, fm_budget = v21, fm_usage = v22,
      fm_liveness = v23\<rparr>)))))))))))))))))))))))"

definition fed_member_post_init :: "member_record \<Rightarrow> member_record" where
  "fed_member_post_init m = (if fm_pilot m = ''endpoint'' then m\<lparr>fm_min_pilots := 1, fm_max_pilots := 1\<rparr> else m)"

text \<open>\<open>float((budget or {}).get('node_hours') or 0.0)\<close>, with the two exceptions that are caught.\<close>

definition dict_node_hours :: "dict \<Rightarrow> py_error + pyfloat" where
  "dict_node_hours b = (case py_float (get_or b ''node_hours'' (PFloat (Fin 0))) of
     Inr f \<Rightarrow> Inr f
   | Inl e \<Rightarrow> if e = TypeError \<or> e = ValueError then Inr (Fin 0) else Inl e)"

definition member_node_hours :: "member_record \<Rightarrow> py_error + pyfloat" where
  "member_node_hours m = dict_node_hours (fm_budget m)"

definition default_class :: "member_record \<Rightarrow> string" where
  "default_class m = (if 0 < fm_gpus_per_node m then ''gpu'' else ''cpu'')"

definition or_int :: "int \<Rightarrow> int \<Rightarrow> int" where
  "or_int i d = (if i = 0 then d else i)"

definition fed_pilot_size :: "member_record \<Rightarrow> pilot_size" where
  "fed_pilot_size m = \<lparr>ps_nodes = or_int (fm_nodes m) 1, ps_cpus_per_node = or_int (fm_cpus_per_node m) 1,
     ps_rhapsody_backend = fm_rhapsody_backend m, ps_gpus_per_node = or_int (fm_gpus_per_node m) 0,
     ps_walltime_sec = or_int (fm_walltime_sec m) 0\<rparr>"

definition match_attributes :: "member_record \<Rightarrow> dict" where
  "match_attributes m = dset ''software'' (enc_strs (fm_software m)) (fm_attributes m)"

definition end_time_set :: "member_record \<Rightarrow> bool" where
  "end_time_set m = (case fm_end_time m of None \<Rightarrow> False | Some f \<Rightarrow> ftruthy f)"

definition end_time_of :: "member_record \<Rightarrow> pyfloat" where
  "end_time_of m = (case fm_end_time m of None \<Rightarrow> Fin 0 | Some f \<Rightarrow> f)"

definition member_remaining_sec :: "rat \<Rightarrow> member_record \<Rightarrow> pyfloat option" where
  "member_remaining_sec now m = (if end_time_set m then Some (fmax (Fin 0) (fsub (end_time_of m) (Fin now)))
     else u_remaining_sec (fm_usage m))"

definition allocation_ended :: "rat \<Rightarrow> member_record \<Rightarrow> bool" where
  "allocation_ended now m \<longleftrightarrow> end_time_set m \<and> fle (end_time_of m) (Fin now)"

definition FAILING_PILOT_FAILURES :: int where
  "FAILING_PILOT_FAILURES = 3"

definition usage_paused :: "rat \<Rightarrow> usage \<Rightarrow> bool" where
  "usage_paused now u = (case u_paused_until u of None \<Rightarrow> False | Some f \<Rightarrow> ftruthy f \<and> flt (Fin now) f)"

definition member_state :: "rat \<Rightarrow> member_record \<Rightarrow> string" where
  "member_state now m =
    (let u = fm_usage m in
     if allocation_ended now m then ''lost''
     else if fm_liveness m \<noteq> ''ok'' then fm_liveness m
     else if u_pilots_active u \<noteq> 0 then fm_liveness m
     else if usage_paused now u then ''failing''
     else if FAILING_PILOT_FAILURES \<le> u_pilot_failures u then ''failing''
     else if u_stale u then ''stale''
     else if u_pilot_error u = None \<or> u_pilot_error u = Some '''' then ''idle''
     else fm_liveness m)"

definition member_to_wire :: "rat \<Rightarrow> member_record \<Rightarrow> dict" where
  "member_to_wire now m = dset ''remaining_sec'' (enc_opt PFloat (member_remaining_sec now m))
     (dset ''state'' (PStr (member_state now m))
       (dset ''class'' (PStr (fm_cls m)) (dpop ''cls'' (member_asdict m))))"

text \<open>\<open>member_from_dict\<close>: the wire key \<open>class\<close> is accepted for \<open>cls\<close>, which wins when both are there.\<close>

definition rename_class :: "dict \<Rightarrow> dict" where
  "rename_class d = (case dget d ''class'' of
     None \<Rightarrow> d
   | Some c \<Rightarrow> (let d1 = dpop ''class'' d in if dhas d1 ''cls'' then d1 else dset ''cls'' c d1))"

definition member_from_dict :: "dict \<Rightarrow> decode_error + member_record" where
  "member_from_dict d = rbind (member_new (rename_class d)) (\<lambda>m. Inr (fed_member_post_init m))"

section \<open>Resources\<close>

record resource_record =
  fr_name :: string
  fr_endpoint :: string
  fr_mode :: string
  fr_site :: string
  fr_kind :: string
  fr_capabilities :: dict
  fr_budget :: dict
  fr_scratch_base :: "string option"
  fr_shared_fs :: bool
  fr_pool :: "dict option"
  fr_joined_at :: rat
  fr_dispatcher_sid :: string
  fr_pool_name :: string
  fr_usage :: usage
  fr_liveness :: string
  fr_members :: "(string \<times> member_record) list"
  fr_pool_config :: dict

definition resource_asdict :: "resource_record \<Rightarrow> dict" where
  "resource_asdict r =
    [(''name'', PStr (fr_name r)),
     (''endpoint'', PStr (fr_endpoint r)),
     (''mode'', PStr (fr_mode r)),
     (''site'', PStr (fr_site r)),
     (''kind'', PStr (fr_kind r)),
     (''capabilities'', PDict (fr_capabilities r)),
     (''budget'', PDict (fr_budget r)),
     (''scratch_base'', enc_opt PStr (fr_scratch_base r)),
     (''shared_fs'', PBool (fr_shared_fs r)),
     (''pool'', enc_opt PDict (fr_pool r)),
     (''joined_at'', enc_rat (fr_joined_at r)),
     (''dispatcher_sid'', PStr (fr_dispatcher_sid r)),
     (''pool_name'', PStr (fr_pool_name r)),
     (''usage'', PDict (usage_asdict (fr_usage r))),
     (''liveness'', PStr (fr_liveness r)),
     (''members'', PDict (records_to member_asdict (fr_members r))),
     (''pool_config'', PDict (fr_pool_config r))]"

text \<open>The constructor call of a load: every key but \<open>members\<close>.\<close>

definition resource_new :: "dict \<Rightarrow> decode_error + resource_record" where
  "resource_new d =
    rbind (required dec_str ''name'' d) (\<lambda>v1.
    rbind (required dec_str ''endpoint'' d) (\<lambda>v2.
    rbind (optional dec_str ''allocation'' ''mode'' d) (\<lambda>v3.
    rbind (optional dec_str '''' ''site'' d) (\<lambda>v4.
    rbind (optional dec_str '''' ''kind'' d) (\<lambda>v5.
    rbind (optional dec_dict [] ''capabilities'' d) (\<lambda>v6.
    rbind (optional dec_dict [] ''budget'' d) (\<lambda>v7.
    rbind (optional (dec_opt dec_str) None ''scratch_base'' d) (\<lambda>v8.
    rbind (optional dec_bool True ''shared_fs'' d) (\<lambda>v9.
    rbind (optional (dec_opt dec_dict) None ''pool'' d) (\<lambda>v10.
    rbind (optional dec_rat 0 ''joined_at'' d) (\<lambda>v11.
    rbind (optional dec_str '''' ''dispatcher_sid'' d) (\<lambda>v12.
    rbind (optional dec_str '''' ''pool_name'' d) (\<lambda>v13.
    rbind (optional dec_usage new_usage ''usage'' d) (\<lambda>v14.
    rbind (optional dec_str ''ok'' ''liveness'' d) (\<lambda>v15.
    rbind (optional dec_dict [] ''pool_config'' d) (\<lambda>v16.
    Inr \<lparr>fr_name = v1, fr_endpoint = v2, fr_mode = v3, fr_site = v4, fr_kind = v5,
      fr_capabilities = v6, fr_budget = v7, fr_scratch_base = v8, fr_shared_fs = v9, fr_pool = v10,
      fr_joined_at = v11, fr_dispatcher_sid = v12, fr_pool_name = v13, fr_usage = v14,
      fr_liveness = v15, fr_members = [], fr_pool_config = v16\<rparr>))))))))))))))))"

definition resource_node_hours :: "resource_record \<Rightarrow> py_error + pyfloat" where
  "resource_node_hours r = dict_node_hours (fr_budget r)"

definition capability :: "resource_record \<Rightarrow> string \<Rightarrow> pyval" where
  "capability r k = pget (fr_capabilities r) k"

definition member_list :: "resource_record \<Rightarrow> member_record list" where
  "member_list r = dvalues (fr_members r)"

text \<open>\<open>round(x, 6)\<close>: to the nearest millionth, ties to even.\<close>

definition round_half_even :: "rat \<Rightarrow> int" where
  "round_half_even r = (let f = \<lfloor>r\<rfloor>; d = r - of_int f in
     if d < 1 / 2 then f else if 1 / 2 < d then f + 1 else if even f then f else f + 1)"

fun round6 :: "pyfloat \<Rightarrow> pyfloat" where
  "round6 (Fin r) = Fin (of_int (round_half_even (r * 1000000)) / 1000000)"
| "round6 f = f"

fun union_tags :: "string list \<Rightarrow> string list \<Rightarrow> string list" where
  "union_tags acc [] = acc"
| "union_tags acc (t # ts) = union_tags (if t \<in> set acc then acc else acc @ [t]) ts"

definition aggregate :: "resource_record \<Rightarrow> py_error + resource_record" where
  "aggregate r =
    (let ms = member_list r in
     if ms = [] then Inr r
     else
       let caps = dset ''software'' (enc_strs (fold (\<lambda>m acc. union_tags acc (fm_software m)) ms []))
             (dset ''gpus'' (PInt (sum_list (map (\<lambda>m. fm_nodes m * fm_gpus_per_node m) ms)))
               (dset ''cores'' (PInt (sum_list (map (\<lambda>m. fm_nodes m * fm_cpus_per_node m) ms))) (fr_capabilities r)))
       in rbind (rmap_list member_node_hours ms) (\<lambda>hours.
            let tot = fold (\<lambda>h acc. fadd acc h) hours (Fin 0);
                r1 = r\<lparr>fr_capabilities := caps\<rparr>
            in Inr (if flt (Fin 0) tot then r1\<lparr>fr_budget := [(''node_hours'', PFloat (round6 tot))]\<rparr> else r1)))"

definition state_rank :: "string \<Rightarrow> int" where
  "state_rank s = (if s = ''lost'' then 5 else if s = ''failing'' then 4 else if s = ''suspect'' then 3
     else if s = ''stale'' then 2 else if s = ''ok'' then 1 else if s = ''idle'' then 0 else -1)"

text \<open>\<open>max(xs, key=f)\<close> returns the first of the largest.\<close>

fun max_key :: "('a \<Rightarrow> int) \<Rightarrow> 'a \<Rightarrow> 'a list \<Rightarrow> 'a" where
  "max_key f x [] = x"
| "max_key f x (y # ys) = max_key f (if f x < f y then y else x) ys"

definition resource_state :: "rat \<Rightarrow> resource_record \<Rightarrow> string" where
  "resource_state now r = (if fr_liveness r \<noteq> ''ok'' then fr_liveness r
     else case map (member_state now) (member_list r) of
            [] \<Rightarrow> fr_liveness r
          | s # ss \<Rightarrow> max_key state_rank s ss)"

definition resource_to_wire :: "rat \<Rightarrow> resource_record \<Rightarrow> dict" where
  "resource_to_wire now r = dset ''state'' (PStr (resource_state now r))
     (dset ''members'' (PList (map (\<lambda>m. PDict (member_to_wire now m)) (member_list r)))
       (dpop ''pool_config'' (resource_asdict r)))"

definition resource_attributes :: "string \<Rightarrow> string \<Rightarrow> pyval \<Rightarrow> dict" where
  "resource_attributes site kind mem_gb =
     filter (\<lambda>(k, v). v \<noteq> PNone \<and> v \<noteq> PStr '''')
       [(''site'', PStr site), (''kind'', PStr kind), (''mem_gb_per_node'', mem_gb)]"

text \<open>\<open>_derive_member\<close>: the one member of a record written before members existed.\<close>

definition conv_int :: "pyval \<Rightarrow> decode_error + int" where
  "conv_int v = (case py_int v of Inl e \<Rightarrow> Inl (IllTyped ''int'') | Inr i \<Rightarrow> Inr i)"

definition as_obj :: "string \<Rightarrow> pyval \<Rightarrow> decode_error + dict" where
  "as_obj k v = (case v of PDict d \<Rightarrow> Inr d | _ \<Rightarrow> Inl (IllTyped k))"

definition conv_str :: "string \<Rightarrow> pyval \<Rightarrow> decode_error + string" where
  "conv_str k v = (case v of PStr s \<Rightarrow> Inr s | _ \<Rightarrow> Inl (IllTyped k))"

definition derive_size :: "dict \<Rightarrow> dict \<Rightarrow> decode_error + dict" where
  "derive_size decl pool =
    rbind (as_obj ''pilot_sizes'' (get_or decl ''pilot_sizes'' (PDict []))) (\<lambda>sizes.
    rbind (conv_str ''default_size'' (get_or decl ''default_size'' (PStr ''default''))) (\<lambda>key.
    let first = (case dvalues sizes of [] \<Rightarrow> PNone | v # _ \<Rightarrow> v);
        chosen = get_or sizes key (if truthy first then first else PDict [])
    in rbind (as_obj ''pilot_size'' chosen) (\<lambda>size. Inr (if size = [] then pool else size))))"

definition derive_member :: "resource_record \<Rightarrow> string \<Rightarrow> decode_error + member_record" where
  "derive_member r pilot =
    (let decl = fr_pool_config r;
         pool = (case fr_pool r of None \<Rightarrow> [] | Some d \<Rightarrow> d);
         caps = fr_capabilities r;
         bound = (\<lambda>k d. case pget decl k of PNone \<Rightarrow> get_or pool k (PInt d) | v \<Rightarrow> v)
     in rbind (derive_size decl pool) (\<lambda>size.
        rbind (conv_str ''queue'' (get_or decl ''queue'' (get_or pool ''queue'' (PStr '''')))) (\<lambda>queue.
        rbind (case (case dget decl ''account'' of Some v \<Rightarrow> v | None \<Rightarrow> pget pool ''account'') of
                 PNone \<Rightarrow> Inr None | PStr s \<Rightarrow> Inr (Some s) | _ \<Rightarrow> Inl (IllTyped ''account'')) (\<lambda>account.
        rbind (conv_int (get_or size ''nodes'' (PInt 1))) (\<lambda>nodes.
        rbind (conv_int (get_or size ''cpus_per_node'' (PInt 1))) (\<lambda>cpus.
        rbind (conv_int (get_or size ''gpus_per_node'' (PInt 0))) (\<lambda>gpus.
        rbind (conv_int (get_or size ''walltime_sec'' (PInt 3600))) (\<lambda>wall.
        rbind (conv_int (bound ''min_pilots'' 0)) (\<lambda>minp.
        rbind (conv_int (bound ''max_pilots'' 1)) (\<lambda>maxp.
        rbind (conv_str ''rhapsody_backend'' (get_or size ''rhapsody_backend'' (PStr ''concurrent''))) (\<lambda>backend.
        rbind (case dec_strs (get_or caps ''software'' (PList [])) of
                 None \<Rightarrow> Inl (IllTyped ''software'') | Some s \<Rightarrow> Inr s) (\<lambda>software.
        let m = fed_member_post_init
              \<lparr>fm_member = ''default'', fm_member_id = fr_name r @ ''.default'', fm_cls = '''',
               fm_pool_name = '''', fm_endpoint = fr_endpoint r, fm_pilot = pilot, fm_end_time = None,
               fm_queue = queue, fm_account = account, fm_nodes = nodes, fm_cpus_per_node = cpus,
               fm_gpus_per_node = gpus, fm_walltime_sec = wall, fm_min_pilots = minp, fm_max_pilots = maxp,
               fm_rhapsody_backend = backend, fm_scratch_base = fr_scratch_base r, fm_shared_fs = True,
               fm_software = software,
               fm_attributes = resource_attributes (fr_site r) (fr_kind r) (pget caps ''mem_gb''),
               fm_budget = fr_budget r, fm_usage = fr_usage r, fm_liveness = fr_liveness r\<rparr>
        in Inr (m\<lparr>fm_cls := default_class m, fm_pool_name := ''fed-'' @ default_class m\<rparr>)))))))))))))"

text \<open>\<open>record_from_dict\<close>.\<close>

definition load_member :: "resource_record \<Rightarrow> dict \<Rightarrow> decode_error + member_record" where
  "load_member r d =
    rbind (member_from_dict (if fr_mode r = ''allocation'' then dset ''pilot'' (PStr ''endpoint'') d else d)) (\<lambda>m.
    Inr (if fm_endpoint m = '''' then m\<lparr>fm_endpoint := fr_endpoint r\<rparr> else m))"

fun load_members :: "resource_record \<Rightarrow> pyval list \<Rightarrow> (string \<times> member_record) list \<Rightarrow>
    decode_error + (string \<times> member_record) list" where
  "load_members r [] acc = Inr acc"
| "load_members r (PDict d # vs) acc =
    rbind (load_member r d) (\<lambda>m. load_members r vs (dset (fm_member m) m acc))"
| "load_members r (_ # vs) acc = load_members r vs acc"

definition raw_members :: "pyval \<Rightarrow> decode_error + pyval list" where
  "raw_members v = (case v of
     PDict d \<Rightarrow> Inr (dvalues d)
   | _ \<Rightarrow> if truthy v then (case py_iter v of Inl e \<Rightarrow> Inl (IllTyped ''members'') | Inr vs \<Rightarrow> Inr vs) else Inr [])"

definition record_from_dict :: "dict \<Rightarrow> decode_error + resource_record" where
  "record_from_dict d =
    rbind (resource_new d) (\<lambda>r.
    rbind (raw_members (pget d ''members'')) (\<lambda>raw.
    if raw \<noteq> [] then rbind (load_members r raw []) (\<lambda>ms. Inr (r\<lparr>fr_members := ms\<rparr>))
    else rbind (derive_member r (if fr_mode r = ''allocation'' then ''endpoint'' else ''submit'')) (\<lambda>m.
           Inr (r\<lparr>fr_members := [(fm_member m, m)]\<rparr>))))"

section \<open>The store\<close>

record federation_state =
  fs_resources :: "(string \<times> resource_record) list"
  fs_ledger :: "(string \<times> ledger_entry) list"

definition fed_payload :: "federation_state \<Rightarrow> pyval" where
  "fed_payload s = PDict [(''resources'', PDict (records_to resource_asdict (fs_resources s))),
     (''ledger'', PDict (records_to ledger_asdict (fs_ledger s)))]"

fun load_items :: "(dict \<Rightarrow> decode_error + 'r) \<Rightarrow> dict \<Rightarrow> decode_error + (string \<times> 'r) list" where
  "load_items from [] = Inr []"
| "load_items from ((k, PDict d) # rest) =
    rbind (from d) (\<lambda>r. rbind (load_items from rest) (\<lambda>rs. Inr ((k, r) # rs)))"
| "load_items from ((k, _) # rest) = load_items from rest"

definition fed_decode :: "pyval \<Rightarrow> decode_error + federation_state" where
  "fed_decode v = (case v of
     PDict d \<Rightarrow>
       rbind (as_obj ''resources'' (get_or d ''resources'' (PDict []))) (\<lambda>rs.
       rbind (load_items record_from_dict rs) (\<lambda>resources.
       rbind (as_obj ''ledger'' (get_or d ''ledger'' (PDict []))) (\<lambda>es.
       rbind (load_items ledger_from_dict es) (\<lambda>ledger.
       Inr \<lparr>fs_resources = resources, fs_ledger = ledger\<rparr>))))
   | _ \<Rightarrow> Inl (IllTyped ''state''))"

definition fed_load :: "string \<Rightarrow> fs \<Rightarrow> decode_error + federation_state" where
  "fed_load path fs = (let v = read_json path (PDict []) fs in fed_decode (if truthy v then v else PDict []))"

text \<open>\<open>save\<close> logs an \<open>OSError\<close> and goes on; the file is as the failed write left it.\<close>

definition fed_save :: "write_env \<Rightarrow> string \<Rightarrow> federation_state \<Rightarrow> fs \<Rightarrow> fs" where
  "fed_save env path s fs = snd (write_json_atomic env path (fed_payload s) fs)"

section \<open>The ledger\<close>

definition ledger_for :: "federation_state \<Rightarrow> string \<Rightarrow> ledger_entry list" where
  "ledger_for s res = filter (\<lambda>e. l_resource e = Some res) (dvalues (fs_ledger s))"

definition ledger_for_member :: "federation_state \<Rightarrow> string \<Rightarrow> ledger_entry list" where
  "ledger_for_member s mid = filter (\<lambda>e. l_member_id e = Some mid) (dvalues (fs_ledger s))"

definition entry_terminal :: "ledger_entry \<Rightarrow> bool" where
  "entry_terminal e \<longleftrightarrow> l_state e \<in> {''DONE'', ''FAILED'', ''CANCELED''}"

fun task_tally :: "ledger_entry list \<Rightarrow> int \<times> int \<times> int \<Rightarrow> int \<times> int \<times> int" where
  "task_tally [] acc = acc"
| "task_tally (e # es) (running, done_n, failed) = task_tally es
    (if l_state e = ''DONE'' then (running, done_n + 1, failed)
     else if l_state e \<in> {''FAILED'', ''CANCELED''} then (running, done_n, failed + 1)
     else (running + 1, done_n, failed))"

definition task_counts :: "federation_state \<Rightarrow> string \<Rightarrow> int \<times> int \<times> int" where
  "task_counts s res = task_tally (ledger_for s res) (0, 0, 0)"

definition member_task_counts :: "federation_state \<Rightarrow> string \<Rightarrow> int \<times> int \<times> int" where
  "member_task_counts s mid = task_tally (ledger_for_member s mid) (0, 0, 0)"

fun drop_entries :: "string \<Rightarrow> bool \<Rightarrow> (string \<times> ledger_entry) list \<Rightarrow> (string \<times> ledger_entry) list" where
  "drop_entries res keep [] = []"
| "drop_entries res keep ((tid, e) # rest) =
    (if l_resource e \<noteq> Some res then (tid, e) # drop_entries res keep rest
     else if \<not> keep \<or> entry_terminal e then drop_entries res keep rest
     else (tid, e\<lparr>l_resource := None, l_member_id := None\<rparr>) # drop_entries res keep rest)"

definition drop_resource :: "string \<Rightarrow> bool \<Rightarrow> federation_state \<Rightarrow> federation_state" where
  "drop_resource res keep_active s =
     s\<lparr>fs_resources := dpop res (fs_resources s), fs_ledger := drop_entries res keep_active (fs_ledger s)\<rparr>"

section \<open>Validation\<close>

datatype fed_invalid = FieldRequired string | FieldInvalid string | FieldRaised py_error

text \<open>\<open>expanduser\<close>, \<open>realpath\<close> and the allowed roots come from the broker host.\<close>

record path_env =
  pe_expanduser :: "string \<Rightarrow> string"
  pe_realpath :: "string \<Rightarrow> string"
  pe_bases :: "string list"

definition is_abs :: "string \<Rightarrow> bool" where
  "is_abs p \<longleftrightarrow> p \<noteq> '''' \<and> hd p = CHR ''/''"

definition starts_with :: "string \<Rightarrow> string \<Rightarrow> bool" where
  "starts_with pre s \<longleftrightarrow> take (length pre) s = pre"

definition under_base :: "path_env \<Rightarrow> string \<Rightarrow> bool" where
  "under_base pe p = list_ex (\<lambda>b. p = b \<or> starts_with (b @ ''/'') p) (pe_bases pe)"

definition validate_scratch_base :: "path_env \<Rightarrow> pyval \<Rightarrow> fed_invalid + string" where
  "validate_scratch_base pe v = (case v of
     PStr p \<Rightarrow>
       if p = '''' then Inl (FieldInvalid ''scratch_base'')
       else if \<not> is_abs (pe_expanduser pe p) then Inl (FieldInvalid ''scratch_base'')
       else if under_base pe (pe_realpath pe (pe_expanduser pe p)) then Inr (pe_expanduser pe p)
       else Inl (FieldInvalid ''scratch_base'')
   | _ \<Rightarrow> Inl (FieldInvalid ''scratch_base''))"

definition validate_scratch_for_host :: "path_env \<Rightarrow> bool \<Rightarrow> pyval \<Rightarrow> fed_invalid + string" where
  "validate_scratch_for_host pe shared v =
    (if shared then validate_scratch_base pe v
     else case v of
       PStr p \<Rightarrow> if p = '''' then Inl (FieldInvalid ''scratch_base'')
                 else if hd p = CHR ''/'' \<or> hd p = CHR ''~'' then Inr p
                 else Inl (FieldInvalid ''scratch_base'')
     | _ \<Rightarrow> Inl (FieldInvalid ''scratch_base''))"

definition validate_pool_int :: "dict \<Rightarrow> string \<Rightarrow> int option \<Rightarrow> int \<Rightarrow> int option \<Rightarrow> fed_invalid + int" where
  "validate_pool_int decl key dflt minimum maximum = (case pget decl key of
     PNone \<Rightarrow> (case dflt of None \<Rightarrow> Inl (FieldRequired key) | Some d \<Rightarrow> Inr d)
   | PInt i \<Rightarrow> if i < minimum then Inl (FieldInvalid key)
               else if (case maximum of None \<Rightarrow> False | Some m \<Rightarrow> m < i) then Inl (FieldInvalid key)
               else Inr i
   | _ \<Rightarrow> Inl (FieldInvalid key))"

definition member_name_char :: "char \<Rightarrow> bool" where
  "member_name_char c \<longleftrightarrow> lower_alnum c \<or> c \<in> {CHR ''_'', CHR ''-''}"

definition member_name_re :: "string \<Rightarrow> bool" where
  "member_name_re s = (case drop_newline s of [] \<Rightarrow> False | c # cs \<Rightarrow> lower_alnum c \<and> list_all member_name_char cs)"

definition name_re :: "string \<Rightarrow> bool" where
  "name_re s \<longleftrightarrow> drop_newline s \<noteq> [] \<and> list_all name_char (drop_newline s)"

definition validate_str :: "string \<Rightarrow> (string \<Rightarrow> bool) \<Rightarrow> pyval \<Rightarrow> fed_invalid + string" where
  "validate_str field re v = (case v of
     PStr s \<Rightarrow> if s \<noteq> '''' \<and> re s then Inr s else Inl (FieldInvalid field)
   | _ \<Rightarrow> Inl (FieldInvalid field))"

definition validate_member_name :: "pyval \<Rightarrow> fed_invalid + string" where
  "validate_member_name v = validate_str ''member'' member_name_re v"

definition validate_class :: "pyval \<Rightarrow> fed_invalid + string" where
  "validate_class v = validate_str ''class'' member_name_re v"

definition validate_name :: "pyval \<Rightarrow> fed_invalid + string" where
  "validate_name v = validate_str ''name'' name_re v"

fun validate_attr_items :: "dict \<Rightarrow> fed_invalid + dict" where
  "validate_attr_items [] = Inr []"
| "validate_attr_items ((k, v) # rest) =
    (if k = '''' then Inl (FieldInvalid ''attributes'')
     else if v = PNone then validate_attr_items rest
     else if is_str_list v \<or> is_str v \<or> is_number v then
       rbind (validate_attr_items rest) (\<lambda>out. Inr ((k, v) # out))
     else Inl (FieldInvalid k))"

definition validate_attributes :: "pyval \<Rightarrow> fed_invalid + dict" where
  "validate_attributes v = (case v of
     PNone \<Rightarrow> Inr [] | PDict d \<Rightarrow> validate_attr_items d | _ \<Rightarrow> Inl (FieldInvalid ''attributes''))"

definition validate_software :: "pyval \<Rightarrow> fed_invalid + string list" where
  "validate_software v = (if v = PNone then Inr [] else case dec_strs v of
     None \<Rightarrow> Inl (FieldInvalid ''software'') | Some s \<Rightarrow> Inr s)"

fun validate_cap_items :: "dict \<Rightarrow> fed_invalid + dict" where
  "validate_cap_items [] = Inr []"
| "validate_cap_items ((k, v) # rest) =
    (if k = '''' then Inl (FieldInvalid ''capabilities'')
     else if k = ''software'' \<or> (case v of PList _ \<Rightarrow> True | _ \<Rightarrow> False) then
       (if is_str_list v then rbind (validate_cap_items rest) (\<lambda>out. Inr ((k, v) # out))
        else Inl (FieldInvalid k))
     else if is_number v then rbind (validate_cap_items rest) (\<lambda>out. Inr ((k, v) # out))
     else Inl (FieldInvalid k))"

definition validate_capabilities :: "pyval \<Rightarrow> fed_invalid + dict" where
  "validate_capabilities v = (case v of
     PNone \<Rightarrow> Inr [] | PDict d \<Rightarrow> validate_cap_items d | _ \<Rightarrow> Inl (FieldInvalid ''capabilities''))"

definition validate_budget :: "bool \<Rightarrow> pyval \<Rightarrow> fed_invalid + dict" where
  "validate_budget needed v = (case (if v = PNone then PDict [] else v) of
     PDict d \<Rightarrow> (case pget d ''node_hours'' of
        PNone \<Rightarrow> if needed then Inl (FieldRequired ''budget.node_hours'') else Inr []
      | nh \<Rightarrow> if \<not> is_number nh then Inl (FieldInvalid ''budget.node_hours'')
               else (case num_of nh of
                 None \<Rightarrow> Inl (FieldInvalid ''budget.node_hours'')
               | Some f \<Rightarrow> if fle f (Fin 0) then Inl (FieldInvalid ''budget.node_hours'')
                            else (case py_float nh of Inl e \<Rightarrow> Inl (FieldRaised e)
                                    | Inr g \<Rightarrow> Inr [(''node_hours'', PFloat g)])))
   | _ \<Rightarrow> Inl (FieldInvalid ''budget''))"

section \<open>What a load rebuilds\<close>

lemma dec_enc_float [simp]: "dec_opt dec_float (enc_opt PFloat x) = Some x"
  by (auto simp: dec_opt_def enc_opt_def split: option.splits)

lemma usage_roundtrip: "usage_from_dict (usage_asdict u) = Inr u"
  unfolding usage_from_dict_def usage_asdict_def by (simp add: required_def optional_def)

lemma dec_usage_asdict [simp]: "dec_usage (PDict (usage_asdict u)) = Some u"
  by (simp add: usage_roundtrip)

lemma ledger_roundtrip: "ledger_from_dict (ledger_asdict e) = Inr e"
  unfolding ledger_from_dict_def ledger_asdict_def by (simp add: required_def optional_def)

lemma member_new_roundtrip: "member_new (member_asdict m) = Inr m"
  unfolding member_new_def member_asdict_def
  by (simp add: required_def optional_def del: dec_usage.simps)

lemma rename_asdict: "rename_class (member_asdict m) = member_asdict m"
  by (simp add: rename_class_def member_asdict_def)

lemma member_roundtrip: "fed_member_post_init m = m \<Longrightarrow> member_from_dict (member_asdict m) = Inr m"
  by (simp add: member_from_dict_def rename_asdict member_new_roundtrip)

text \<open>The shape a load leaves a resource in: members under their own names, served by an endpoint, and in
  allocation mode each of them the pilot itself.\<close>

definition fed_member_wf :: "string \<Rightarrow> string \<Rightarrow> member_record \<Rightarrow> bool" where
  "fed_member_wf mode k m \<longleftrightarrow> fm_member m = k \<and> fm_endpoint m \<noteq> '''' \<and> fed_member_post_init m = m \<and>
     (mode = ''allocation'' \<longrightarrow> fm_pilot m = ''endpoint'')"

definition fed_resource_wf :: "resource_record \<Rightarrow> bool" where
  "fed_resource_wf r \<longleftrightarrow> fr_members r \<noteq> [] \<and> dict_ok (fr_members r) \<and>
     (\<forall>(k, m) \<in> set (fr_members r). fed_member_wf (fr_mode r) k m)"

lemma load_member_roundtrip:
  assumes "fed_member_wf (fr_mode r) k m"
  shows "load_member r (member_asdict m) = Inr m"
proof -
  have "dset ''pilot'' (PStr (fm_pilot m)) (member_asdict m) = member_asdict m"
    by (simp add: member_asdict_def)
  then have "(if fr_mode r = ''allocation'' then dset ''pilot'' (PStr ''endpoint'') (member_asdict m) else member_asdict m)
      = member_asdict m"
    using assms by (auto simp: fed_member_wf_def)
  then show ?thesis using assms member_roundtrip [of m] by (simp add: load_member_def fed_member_wf_def)
qed

lemma load_members_roundtrip:
  assumes "\<forall>(k, m) \<in> set ms. fed_member_wf (fr_mode r) k m" "dict_ok (acc @ ms)"
  shows "load_members r (map (\<lambda>(k, m). PDict (member_asdict m)) ms) acc = Inr (acc @ ms)"
  using assms
proof (induction ms arbitrary: acc)
  case (Cons km ms)
  obtain k m where km: "km = (k, m)" by (cases km)
  have wf: "fed_member_wf (fr_mode r) k m" using Cons.prems(1) km by simp
  have "dget acc k = None"
    using Cons.prems(2) km by (auto simp: dict_ok_def map_of_eq_None_iff)
  then have "dset k m acc = acc @ [(k, m)]" by (induction acc) auto
  then show ?case
    using Cons.IH [of "acc @ [(k, m)]"] Cons.prems km load_member_roundtrip [OF wf] wf
    by (simp add: fed_member_wf_def)
qed simp

lemma resource_new_asdict: "resource_new (resource_asdict r) = Inr (r\<lparr>fr_members := []\<rparr>)"
  unfolding resource_new_def resource_asdict_def
  by (simp add: required_def optional_def del: dec_usage.simps)

lemma resource_roundtrip:
  assumes "fed_resource_wf r"
  shows "record_from_dict (resource_asdict r) = Inr r"
proof -
  let ?r0 = "r\<lparr>fr_members := []\<rparr>"
  have raw: "raw_members (pget (resource_asdict r) ''members'') =
      Inr (map (\<lambda>(k, m). PDict (member_asdict m)) (fr_members r))"
    by (simp add: raw_members_def resource_asdict_def pget_def records_to_def split_beta)
  have "load_members ?r0 (map (\<lambda>(k, m). PDict (member_asdict m)) (fr_members r)) [] = Inr (fr_members r)"
    using load_members_roundtrip [of "fr_members r" ?r0 "[]"] assms by (simp add: fed_resource_wf_def)
  then show ?thesis
    using assms raw by (simp add: record_from_dict_def resource_new_asdict fed_resource_wf_def)
qed

lemma load_member_wf:
  assumes "load_member r d = Inr m" "fr_endpoint r \<noteq> ''''"
  shows "fed_member_wf (fr_mode r) (fm_member m) m"
proof -
  let ?d = "if fr_mode r = ''allocation'' then dset ''pilot'' (PStr ''endpoint'') d else d"
  obtain m0 where m0: "member_from_dict ?d = Inr m0"
      "m = (if fm_endpoint m0 = '''' then m0\<lparr>fm_endpoint := fr_endpoint r\<rparr> else m0)"
    using assms(1) by (auto simp: load_member_def rbind_eq_Inr)
  obtain m1 where m1: "member_new (rename_class ?d) = Inr m1" "m0 = fed_member_post_init m1"
    using m0(1) by (auto simp: member_from_dict_def rbind_eq_Inr)
  have pilot: "fm_pilot m1 = ''endpoint''" if "dget (rename_class ?d) ''pilot'' = Some (PStr ''endpoint'')"
    using m1(1) that by (auto simp: member_new_def rbind_eq_Inr optional_def)
  have "dget (rename_class ?d) ''pilot'' = Some (PStr ''endpoint'')" if "fr_mode r = ''allocation''"
    using that by (auto simp: rename_class_def Let_def split: option.splits)
  then show ?thesis
    using pilot m0(2) m1(2) assms(2) by (auto simp: fed_member_wf_def fed_member_post_init_def)
qed

lemma load_members_wf:
  assumes "load_members r vs acc = Inr ms" "fr_endpoint r \<noteq> ''''" "dict_ok acc"
    and "\<forall>(k, m) \<in> set acc. fed_member_wf (fr_mode r) k m"
  shows "dict_ok ms \<and> (\<forall>(k, m) \<in> set ms. fed_member_wf (fr_mode r) k m)"
  using assms
proof (induction r vs acc rule: load_members.induct)
  case (2 r d vs acc)
  then obtain m where m: "load_member r d = Inr m" "load_members r vs (dset (fm_member m) m acc) = Inr ms"
    by (auto simp: rbind_eq_Inr)
  have "\<forall>(k, m') \<in> set (dset (fm_member m) m acc). fed_member_wf (fr_mode r) k m'"
    using "2.prems"(4) load_member_wf [OF m(1) "2.prems"(2)] by (induction acc) (auto split: if_splits)
  then show ?case using "2.IH" [OF m(2)] "2.prems" by simp
qed auto

lemma fed_member_post_init_sel:
  "fm_pilot (fed_member_post_init m) = fm_pilot m" "fm_endpoint (fed_member_post_init m) = fm_endpoint m"
  "fm_member (fed_member_post_init m) = fm_member m"
  "fed_member_post_init ((fed_member_post_init m)\<lparr>fm_cls := c, fm_pool_name := p\<rparr>) =
     (fed_member_post_init m)\<lparr>fm_cls := c, fm_pool_name := p\<rparr>"
  by (simp_all add: fed_member_post_init_def)

lemma derive_member_wf:
  assumes "derive_member r pilot = Inr m" "fr_endpoint r \<noteq> ''''" "fr_mode r = ''allocation'' \<longrightarrow> pilot = ''endpoint''"
  shows "fed_member_wf (fr_mode r) (fm_member m) m"
  using assms by (auto simp: derive_member_def Let_def rbind_eq_Inr fed_member_wf_def fed_member_post_init_sel)

lemma record_from_dict_wf:
  assumes "record_from_dict d = Inr r" "fr_endpoint r \<noteq> ''''" "fr_members r \<noteq> []"
  shows "fed_resource_wf r"
proof -
  obtain r0 raw where r0: "resource_new d = Inr r0" "raw_members (pget d ''members'') = Inr raw"
    using assms(1) by (auto simp: record_from_dict_def rbind_eq_Inr)
  show ?thesis
  proof (cases "raw = []")
    case True
    then obtain m where m: "r = r0\<lparr>fr_members := [(fm_member m, m)]\<rparr>"
        "derive_member r0 (if fr_mode r0 = ''allocation'' then ''endpoint'' else ''submit'') = Inr m"
      using assms(1) r0 by (auto simp: record_from_dict_def rbind_eq_Inr)
    show ?thesis using derive_member_wf [OF m(2)] assms(2) m(1) by (simp add: fed_resource_wf_def dict_ok_def)
  next
    case False
    then obtain ms where ms: "r = r0\<lparr>fr_members := ms\<rparr>" "load_members r0 raw [] = Inr ms"
      using assms(1) r0 by (auto simp: record_from_dict_def rbind_eq_Inr)
    show ?thesis using load_members_wf [OF ms(2)] assms(2,3) ms(1) by (simp add: fed_resource_wf_def)
  qed
qed

subsection \<open>The state file\<close>

definition fed_state_wf :: "federation_state \<Rightarrow> bool" where
  "fed_state_wf s \<longleftrightarrow> list_all fed_resource_wf (dvalues (fs_resources s)) \<and> json_clean (fed_payload s)"

lemma load_items_roundtrip:
  assumes "\<forall>x \<in> set (dvalues rs). from (to x) = Inr x"
  shows "load_items from (records_to to rs) = Inr rs"
  using assms by (induction rs) (auto simp: records_to_def)

lemma records_to_Nil: "records_to f xs = [] \<longleftrightarrow> xs = []"
  by (simp add: records_to_def)

lemma fed_decode_payload:
  assumes "fed_state_wf s"
  shows "fed_decode (json_norm (fed_payload s)) = Inr s"
proof -
  have "load_items record_from_dict (records_to resource_asdict (fs_resources s)) = Inr (fs_resources s)"
    using assms resource_roundtrip by (intro load_items_roundtrip) (simp add: fed_state_wf_def list_all_iff)
  moreover have "load_items ledger_from_dict (records_to ledger_asdict (fs_ledger s)) = Inr (fs_ledger s)"
    using ledger_roundtrip by (intro load_items_roundtrip) simp
  ultimately have "fed_decode (fed_payload s) = Inr s"
    by (cases s) (simp add: records_to_Nil fed_payload_def fed_decode_def as_obj_def get_or_def pget_def Let_def)
  then show ?thesis using assms by (simp add: fed_state_wf_def json_norm_clean)
qed


text \<open>\<open>save\<close> and \<open>load\<close> meet the contract of the durable store: what a reader gets of a written state is its
  decoding, and a save that raised is invisible to the next load.\<close>

interpretation fed_store: durable_store "\<lambda>s. fed_decode (json_norm (fed_payload s))"
    "\<lambda>env s fs. (fst (write_json_atomic env path (fed_payload s) fs), fed_save env path s fs)"
    "\<lambda>n kept env s fs. crash_in_write n kept env path (fed_payload s) fs"
    "fed_load path" "path_durable path" "\<lambda>env. path \<noteq> we_tmp env"
  for path
proof
  fix env s fs n kept e
  note laws = json_file.save_load json_file.save_fails json_file.crash_load
  have truthy: "truthy (json_norm (fed_payload s))" by (simp add: fed_payload_def)
  show "path \<noteq> we_tmp env \<Longrightarrow> fst (fst (write_json_atomic env path (fed_payload s) fs), fed_save env path s fs) = Inr () \<Longrightarrow>
      fed_load path (snd (fst (write_json_atomic env path (fed_payload s) fs), fed_save env path s fs)) =
        fed_decode (json_norm (fed_payload s)) \<and>
      path_durable path (snd (fst (write_json_atomic env path (fed_payload s) fs), fed_save env path s fs))"
    using laws(1) [of path env "fed_payload s" fs "PDict []"] truthy by (simp add: fed_load_def fed_save_def)
  show "path \<noteq> we_tmp env \<Longrightarrow> path_durable path fs \<Longrightarrow>
      fst (fst (write_json_atomic env path (fed_payload s) fs), fed_save env path s fs) = Inl e \<Longrightarrow>
      fed_load path (snd (fst (write_json_atomic env path (fed_payload s) fs), fed_save env path s fs)) = fed_load path fs \<and>
      path_durable path (snd (fst (write_json_atomic env path (fed_payload s) fs), fed_save env path s fs))"
    using laws(2) [of path env fs "fed_payload s" e "PDict []"] by (simp add: fed_load_def fed_save_def)
  show "path \<noteq> we_tmp env \<Longrightarrow> path_durable path fs \<Longrightarrow>
      fed_load path (crash_in_write n kept env path (fed_payload s) fs)
        \<in> {fed_load path fs, fed_decode (json_norm (fed_payload s))}"
    using laws(3) [of path env fs "PDict []" n kept "fed_payload s"] truthy by (auto simp: fed_load_def Let_def)
qed

lemma fed_save_all: "fed_store.save_all path hist fs = fold (\<lambda>(env, s). fed_save env path s) hist fs"
  by (induction hist arbitrary: fs) (auto simp: split_beta)

section \<open>Leaving\<close>

lemma drop_entries_dget:
  assumes "dict_ok led"
  shows "dget (drop_entries res keep led) tid = (case dget led tid of
     None \<Rightarrow> None
   | Some e \<Rightarrow> if l_resource e \<noteq> Some res then Some e
               else if \<not> keep \<or> entry_terminal e then None
               else Some (e\<lparr>l_resource := None, l_member_id := None\<rparr>))"
  using assms
proof (induction res keep led rule: drop_entries.induct)
  case (2 res keep t e rest)
  have "dget rest t = None" using "2.prems" by (auto simp: dict_ok_def map_of_eq_None_iff)
  then show ?case using 2 by (auto simp: dict_ok_def split: option.splits)
qed simp

lemma drop_entries_for: "filter (\<lambda>e. l_resource e = Some res) (dvalues (drop_entries res keep led)) = []"
  by (induction res keep led rule: drop_entries.induct) auto

lemma drop_entries_other:
  "other \<noteq> res \<Longrightarrow> filter (\<lambda>e. l_resource e = Some other) (dvalues (drop_entries res keep led)) =
     filter (\<lambda>e. l_resource e = Some other) (dvalues led)"
  by (induction res keep led rule: drop_entries.induct) auto


section \<open>Properties\<close>

text \<open>The state file survives failed writes and crashes: after any sequence of saves, some of which may
  have raised (an \<open>OSError\<close> is logged and swallowed), a crash at any point of one more save leaves a file that
  loads as one of the saved states, complete and field by field, or as what was there at the start.\<close>

theorem federation_state_durable:
  assumes "path_durable path fs" and "list_all (\<lambda>(env, s). path \<noteq> we_tmp env \<and> fed_state_wf s) (hist @ [(env, s)])"
  shows "fed_load path (crash_in_write n kept env path (fed_payload s) (fold (\<lambda>(env, s). fed_save env path s) hist fs))
     \<in> insert (fed_load path fs) (Inr ` snd ` set (hist @ [(env, s)]))"
proof -
  have decode: "fed_decode (json_norm (fed_payload s')) = Inr s'" if "s' \<in> snd ` set (hist @ [(env, s)])" for s'
    using assms(2) that by (intro fed_decode_payload) (auto simp: list_all_iff)
  have envs: "\<forall>es \<in> set hist. path \<noteq> we_tmp (fst es)" "path \<noteq> we_tmp env"
    using assms(2) by (auto simp: list_all_iff)
  have "fed_load path (crash_in_write n kept env path (fed_payload s) (fed_store.save_all path hist fs))
      \<in> insert (fed_load path fs) ((\<lambda>s. fed_decode (json_norm (fed_payload s))) ` snd ` set (hist @ [(env, s)]))"
    using fed_store.recover_after_crash [OF assms(1) envs, of n kept s]
      fed_store.save_all_ok [OF assms(1) envs(1)] by (simp add: image_Un) (elim conjE disjE; simp)
  then show ?thesis using decode by (auto simp: fed_save_all)
qed

text \<open>A leave forgets a resource without losing work: no entry of the ledger is attributed to it any more,
  the finished ones are gone, a task that is still live keeps its entry, pool and dispatcher session and only
  loses its placement, and every other entry and the task counts of every other resource stay as they are.\<close>

theorem leave_keeps_live_tasks:
  assumes "dict_ok (fs_ledger s)" and "other \<noteq> name"
  shows "ledger_for (drop_resource name True s) name = [] \<and>
     dget (fs_ledger (drop_resource name True s)) tid = (case dget (fs_ledger s) tid of
         None \<Rightarrow> None
       | Some e \<Rightarrow> if l_resource e \<noteq> Some name then Some e
                   else if entry_terminal e then None
                   else Some (e\<lparr>l_resource := None, l_member_id := None\<rparr>)) \<and>
     task_counts (drop_resource name True s) other = task_counts s other \<and>
     dget (fs_resources (drop_resource name True s)) other = dget (fs_resources s) other"
  using assms drop_entries_for [of name True] drop_entries_dget [OF assms(1), of name True tid]
    drop_entries_other [OF assms(2), of True "fs_ledger s"]
  by (auto simp: drop_resource_def ledger_for_def task_counts_def split: option.split)

definition demo_fed_doc :: dict where
  "demo_fed_doc = [(''name'', PStr ''r1''), (''endpoint'', PStr ''ep1''),
     (''members'', PList [PDict [(''member'', PStr ''a''), (''class'', PStr ''gpu''), (''gpus_per_node'', PInt 4)]])]"

definition demo_fed :: federation_state where
  "demo_fed = \<lparr>fs_resources = (case record_from_dict demo_fed_doc of Inl e \<Rightarrow> [] | Inr r \<Rightarrow> [(''r1'', r)]),
     fs_ledger = [(''t1'', \<lparr>l_task_id = ''t1'', l_resource = Some ''r1'', l_pool = ''fed-gpu'', l_dispatcher_sid = ''d'',
       l_state = ''RUNNING'', l_submitted_at = 0, l_finished_at = None, l_member_id = Some ''r1.a'', l_cls = ''gpu'',
       l_detail = ''''\<rparr>)]\<rparr>"

lemma demo_fed_wf: "fed_state_wf demo_fed \<and> fs_resources demo_fed \<noteq> []"
  by code_simp


theorem federation_state_durable_witness:
  "fed_load ''s'' (crash_in_write 3 (\<lambda>_. False) demo_env ''s'' (fed_payload (drop_resource ''r1'' False demo_fed))
     (fold (\<lambda>(env, s). fed_save env ''s'' s) [(demo_env, demo_fed)] []))
     \<in> {Inr \<lparr>fs_resources = [], fs_ledger = []\<rparr>, Inr demo_fed, Inr \<lparr>fs_resources = [], fs_ledger = []\<rparr>}"
proof -
  have drop: "drop_resource ''r1'' False demo_fed = \<lparr>fs_resources = [], fs_ledger = []\<rparr>" by code_simp
  have wf: "fed_state_wf \<lparr>fs_resources = [], fs_ledger = []\<rparr>" by code_simp
  have init: "fed_load ''s'' [] = Inr \<lparr>fs_resources = [], fs_ledger = []\<rparr>" by code_simp
  show ?thesis
    using federation_state_durable [of "''s''" "[]" "[(demo_env, demo_fed)]" demo_env
        "drop_resource ''r1'' False demo_fed" 3 "\<lambda>_. False"] demo_fed_wf wf init
    by (simp add: drop path_durable_def demo_env_def)
qed

theorem leave_keeps_live_tasks_witness:
  "map_option l_resource (dget (fs_ledger (drop_resource ''r1'' True demo_fed)) ''t1'') = Some None"
proof -
  have led: "dict_ok (fs_ledger demo_fed)" "dget (fs_ledger demo_fed) ''t1'' \<noteq> None"
    "map_option l_resource (dget (fs_ledger demo_fed) ''t1'') = Some (Some ''r1'')"
    "map_option entry_terminal (dget (fs_ledger demo_fed) ''t1'') = Some False"
    by (simp_all add: demo_fed_def entry_terminal_def dict_ok_def)
  then show ?thesis using leave_keeps_live_tasks [OF led(1), of "''r2''" "''r1''" "''t1''"] by auto
qed

end
