(* ===== verification/Federation_Policy.thy ===== *)
theory Federation_Policy
  imports Federation_State
begin

text \<open>
  \<^verbatim>\<open>federation_policy.py\<close>: the member filter and the score of the default policy, the choice of a class, the
  explanation a client gets when nothing fits, and the loader.  The time of day is an argument; an exception the
  code does not catch is an error value.
\<close>

section \<open>The default policy\<close>

datatype fed_reason = Allocation_Ended | Liveness_Is string | Unfit reason | Node_Hours pyfloat pyfloat

text \<open>\<open>float(requirements.get('node_hours') or 0)\<close>, 0 when the value does not convert.\<close>

definition wanted_hours :: "dict \<Rightarrow> py_error + pyfloat" where
  "wanted_hours req = (case py_float (get_or req ''node_hours'' (PInt 0)) of
     Inr f \<Rightarrow> Inr f
   | Inl e \<Rightarrow> if e = TypeError \<or> e = ValueError then Inr (Fin 0) else Inl e)"

definition fed_reject_reason :: "rat \<Rightarrow> dict \<Rightarrow> member_record \<Rightarrow> py_error + fed_reason option" where
  "fed_reject_reason now req m =
    (if allocation_ended now m then Inr (Some Allocation_Ended)
     else if fm_liveness m \<noteq> ''ok'' then Inr (Some (Liveness_Is (fm_liveness m)))
     else rbind (satisfies (Some req) (Some (match_attributes m)) (Some (size_shape (fed_pilot_size m)))) (\<lambda>r.
       case r of
         Some why \<Rightarrow> Inr (Some (Unfit why))
       | None \<Rightarrow> rbind (wanted_hours req) (\<lambda>want.
           let left = u_node_hours_remaining (fm_usage m) in
           if flt (Fin 0) want \<and> flt left want then Inr (Some (Node_Hours left want)) else Inr None)))"

definition fed_load_of :: "member_record \<Rightarrow> py_error + pyfloat" where
  "fed_load_of m = (let slots = or_int (fm_nodes m) 1 * or_int (fm_cpus_per_node m) 1 in
     rbind (py_float (PInt (or_int slots 1))) (\<lambda>s.
     rbind (py_float (PInt (u_tasks_running (fm_usage m)))) (\<lambda>t. Inr (fdiv t s))))"

definition fed_score :: "member_record \<Rightarrow> py_error + pyfloat" where
  "fed_score m = rbind (member_node_hours m) (\<lambda>budget.
     let frac = (if ftruthy budget then fdiv (u_node_hours_remaining (fm_usage m)) budget else Fin 1) in
     rbind (fed_load_of m) (\<lambda>load. Inr (fsub (clamp01 frac) load)))"

fun score_fitting :: "rat \<Rightarrow> dict \<Rightarrow> member_record list \<Rightarrow> py_error + (member_record \<times> pyfloat) list" where
  "score_fitting now req [] = Inr []"
| "score_fitting now req (m # ms) = rbind (fed_reject_reason now req m) (\<lambda>r.
     if r = None then rbind (fed_score m) (\<lambda>s. rbind (score_fitting now req ms) (\<lambda>rest. Inr ((m, s) # rest)))
     else score_fitting now req ms)"

definition eligible :: "rat \<Rightarrow> dict \<Rightarrow> member_record list \<Rightarrow> py_error + (member_record \<times> pyfloat) list" where
  "eligible now req ms = rbind (score_fitting now req ms) (\<lambda>scored.
     Inr (sort_key (\<lambda>(m, s). (fneg s, fm_member_id m)) scored))"

fun explain_into :: "rat \<Rightarrow> dict \<Rightarrow> member_record list \<Rightarrow> (string \<times> fed_reason) list \<Rightarrow>
    py_error + (string \<times> fed_reason) list" where
  "explain_into now req [] out = Inr out"
| "explain_into now req (m # ms) out = rbind (fed_reject_reason now req m) (\<lambda>r. case r of
     None \<Rightarrow> explain_into now req ms out
   | Some why \<Rightarrow> explain_into now req ms (dset (fm_member_id m) why out))"

definition explain :: "rat \<Rightarrow> dict \<Rightarrow> member_record list \<Rightarrow> py_error + (string \<times> fed_reason) list" where
  "explain now req ms = explain_into now req ms []"

definition member_cost :: "member_record \<Rightarrow> int \<times> int" where
  "member_cost m = (fm_gpus_per_node m, fm_cpus_per_node m)"

definition class_key :: "string \<Rightarrow> member_record \<Rightarrow> int \<times> int \<times> string" where
  "class_key cls m = (fm_gpus_per_node m, fm_cpus_per_node m, cls)"

definition cheapest :: "(member_record \<times> pyfloat) list \<Rightarrow> int \<times> int" where
  "cheapest ranked = Min (set (map (member_cost \<circ> fst) ranked))"

fun pick_loop :: "rat \<Rightarrow> dict \<Rightarrow> (string \<times> member_record list) list \<Rightarrow> string list \<Rightarrow>
    ((int \<times> int \<times> string) \<times> string \<times> pyfloat) option \<Rightarrow>
    py_error + ((int \<times> int \<times> string) \<times> string \<times> pyfloat) option" where
  "pick_loop now req classes [] best = Inr best"
| "pick_loop now req classes (cls # rest) best =
    rbind (eligible now req (case dget classes cls of None \<Rightarrow> [] | Some ms \<Rightarrow> ms)) (\<lambda>ranked.
      if ranked = [] then pick_loop now req classes rest best
      else let c = cheapest ranked; key = (fst c, snd c, cls) in
           pick_loop now req classes rest
             (case best of
                None \<Rightarrow> Some (key, cls, snd (hd ranked))
              | Some b \<Rightarrow> if key < fst b then Some (key, cls, snd (hd ranked)) else best))"

definition pick_class :: "rat \<Rightarrow> dict \<Rightarrow> (string \<times> member_record list) list \<Rightarrow>
    py_error + (string \<times> pyfloat) option" where
  "pick_class now req classes = rbind (pick_loop now req classes (sort (map fst classes)) None) (\<lambda>best.
     Inr (map_option snd best))"

section \<open>The loader\<close>

text \<open>What importing \<open>module\<close> and reading \<open>Class\<close> finds, whether that is a policy class, and whether its
  constructor takes a configuration are up to the installation.\<close>

datatype policy_error = Bad_Spec string | Unresolvable string | Not_A_Policy string | Rejected_Config string

definition DEFAULT_POLICY :: string where
  "DEFAULT_POLICY = ''radical.orbit.federation_policy:BudgetLoadPolicy''"

definition fed_make_policy :: "(string \<Rightarrow> string \<Rightarrow> 'c option) \<Rightarrow> ('c \<Rightarrow> bool) \<Rightarrow> ('c \<Rightarrow> dict \<Rightarrow> 'p option) \<Rightarrow>
    string \<Rightarrow> dict \<Rightarrow> policy_error + 'p" where
  "fed_make_policy import_attr is_policy build spec cfg =
    (let s = (if spec = '''' then DEFAULT_POLICY else spec) in
     if CHR '':'' \<notin> set s then Inl (Bad_Spec s)
     else case import_attr (takeWhile (\<lambda>c. c \<noteq> CHR '':'') s) (tl (dropWhile (\<lambda>c. c \<noteq> CHR '':'') s)) of
            None \<Rightarrow> Inl (Unresolvable s)
          | Some c \<Rightarrow> if \<not> is_policy c then Inl (Not_A_Policy s)
                      else case build c cfg of None \<Rightarrow> Inl (Rejected_Config s) | Some p \<Rightarrow> Inr p)"

section \<open>The filter\<close>

definition fits :: "rat \<Rightarrow> dict \<Rightarrow> member_record \<Rightarrow> bool" where
  "fits now req m \<longleftrightarrow> fed_reject_reason now req m = Inr None"

lemma score_fitting_Inr:
  assumes "score_fitting now req ms = Inr scored"
  shows "set scored = {(m, s). m \<in> set ms \<and> fits now req m \<and> fed_score m = Inr s} \<and>
    (\<forall>m \<in> set ms. \<exists>r. fed_reject_reason now req m = Inr r) \<and>
    (\<forall>m \<in> set ms. fits now req m \<longrightarrow> (\<exists>s. fed_score m = Inr s))"
  using assms
proof (induction ms arbitrary: scored)
  case (Cons m ms)
  obtain r where r: "fed_reject_reason now req m = Inr r" using Cons.prems by (auto simp: rbind_eq_Inr)
  show ?case
  proof (cases r)
    case None
    then obtain s rest where s: "fed_score m = Inr s" "score_fitting now req ms = Inr rest" "scored = (m, s) # rest"
      using Cons.prems r by (auto simp: rbind_eq_Inr)
    then show ?thesis using Cons.IH [OF s(2)] r None by (auto simp: fits_def)
  next
    case (Some why)
    then have "score_fitting now req ms = Inr scored" using Cons.prems r by simp
    then show ?thesis using Cons.IH r Some by (auto simp: fits_def)
  qed
qed simp

lemma eligible_Inr:
  assumes "eligible now req ms = Inr ranked"
  shows "set ranked = {(m, s). m \<in> set ms \<and> fits now req m \<and> fed_score m = Inr s}"
    and "\<And>m. m \<in> set ms \<Longrightarrow> \<exists>r. fed_reject_reason now req m = Inr r"
    and "\<And>m. m \<in> set ms \<Longrightarrow> fits now req m \<Longrightarrow> \<exists>s. (m, s) \<in> set ranked"
  using assms score_fitting_Inr [of now req ms] by (auto simp: eligible_def rbind_eq_Inr)


lemma cheapest_le:
  assumes "ranked \<noteq> []"
  shows "\<exists>m \<in> fst ` set ranked. cheapest ranked = member_cost m"
    and "m \<in> fst ` set ranked \<Longrightarrow> cheapest ranked \<le> member_cost m"
proof -
  have "Min (member_cost ` fst ` set ranked) \<in> member_cost ` fst ` set ranked" using assms by (intro Min_in) auto
  then show "\<exists>m \<in> fst ` set ranked. cheapest ranked = member_cost m" by (auto simp: cheapest_def image_image)
  show "m \<in> fst ` set ranked \<Longrightarrow> cheapest ranked \<le> member_cost m"
    by (auto simp: cheapest_def image_image intro!: Min_le)
qed

text \<open>The members a choice among the classes \<open>cs\<close> ranges over.\<close>

definition offers :: "rat \<Rightarrow> dict \<Rightarrow> (string \<times> member_record list) list \<Rightarrow> string set \<Rightarrow> (string \<times> member_record) set" where
  "offers now req classes cs =
     {(c, m). c \<in> cs \<and> (\<exists>ms. dget classes c = Some ms \<and> m \<in> set ms \<and> fits now req m)}"

definition best_ok :: "rat \<Rightarrow> dict \<Rightarrow> (string \<times> member_record list) list \<Rightarrow> string set \<Rightarrow>
    ((int \<times> int \<times> string) \<times> string \<times> pyfloat) option \<Rightarrow> bool" where
  "best_ok now req classes cs best = (case best of
     None \<Rightarrow> offers now req classes cs = {}
   | Some (key, cls, s) \<Rightarrow>
       (\<exists>m. (cls, m) \<in> offers now req classes cs \<and> class_key cls m = key) \<and>
       (\<forall>(c, m) \<in> offers now req classes cs. key \<le> class_key c m) \<and>
       (\<exists>m. (cls, m) \<in> offers now req classes cs \<and> fed_score m = Inr s) \<and>
       (\<forall>m s'. (cls, m) \<in> offers now req classes cs \<longrightarrow> fed_score m = Inr s' \<longrightarrow> fneg s \<le> fneg s'))"

lemma offers_insert:
  assumes "eligible now req (case dget classes c of None \<Rightarrow> [] | Some ms \<Rightarrow> ms) = Inr ranked"
  shows "offers now req classes (insert c cs) = offers now req classes cs \<union> {c} \<times> fst ` set ranked"
  using eligible_Inr [OF assms] by (auto simp: offers_def split: option.splits) force+


lemma fed_score_finite: "fed_score m = Inr s \<Longrightarrow> \<exists>q. s = Fin q"
proof -
  assume "fed_score m = Inr s"
  then obtain frac load where s: "s = fsub (clamp01 frac) load" "fed_load_of m = Inr load"
    by (auto simp: fed_score_def rbind_eq_Inr Let_def)
  obtain c where "clamp01 frac = Fin c" using clamp01_range by blast
  moreover obtain l where "load = Fin l" using s(2) by (auto simp: fed_load_of_def rbind_eq_Inr Let_def split: if_splits)
  ultimately show ?thesis using s(1) by (simp add: fsub_def)
qed

lemma ranked_hd:
  assumes "eligible now req ms = Inr ranked" "ranked \<noteq> []"
  shows "hd ranked \<in> set ranked" and "(m, s) \<in> set ranked \<Longrightarrow> fneg (snd (hd ranked)) \<le> fneg s"
proof -
  obtain scored where sc: "ranked = sort_key (\<lambda>(m, s). (fneg s, fm_member_id m)) scored"
    using assms(1) by (auto simp: eligible_def rbind_eq_Inr)
  show "hd ranked \<in> set ranked" using assms(2) by simp
  show "(m, s) \<in> set ranked \<Longrightarrow> fneg (snd (hd ranked)) \<le> fneg s"
    using hd_sort_key_le [of "(m, s)" scored "\<lambda>(m, s). (fneg s, fm_member_id m)"] sc
    by (auto simp: split_beta less_eq_prod_def)
qed

lemma new_best_ok:
  assumes el: "eligible now req (case dget classes c of None \<Rightarrow> [] | Some ms \<Rightarrow> ms) = Inr ranked" "ranked \<noteq> []"
    and fresh: "c \<notin> cs"
    and low: "\<forall>(d, m) \<in> offers now req classes cs. (fst (cheapest ranked), snd (cheapest ranked), c) \<le> class_key d m"
  shows "best_ok now req classes (insert c cs)
    (Some ((fst (cheapest ranked), snd (cheapest ranked), c), c, snd (hd ranked)))"
proof -
  let ?ms = "case dget classes c of None \<Rightarrow> [] | Some ms \<Rightarrow> ms"
  note off = offers_insert [OF el(1), of cs]
  have mine: "(c, m) \<in> offers now req classes (insert c cs) \<longleftrightarrow> m \<in> fst ` set ranked" for m
    using fresh off by (auto simp: offers_def)
  have hd: "(fst (hd ranked), snd (hd ranked)) \<in> set ranked" using ranked_hd(1) [OF el] by simp
  then have "fed_score (fst (hd ranked)) = Inr (snd (hd ranked))" using eligible_Inr(1) [OF el(1)] by auto
  then have 1: "\<exists>m. (c, m) \<in> offers now req classes (insert c cs) \<and> fed_score m = Inr (snd (hd ranked))"
    using mine hd by force
  have 2: "fneg (snd (hd ranked)) \<le> fneg s'"
    if "(c, m) \<in> offers now req classes (insert c cs)" "fed_score m = Inr s'" for m s'
    using that mine [of m] eligible_Inr(1) [OF el(1)] by (intro ranked_hd(2) [OF el, of m s']) auto
  have 3: "\<exists>m. (c, m) \<in> offers now req classes (insert c cs) \<and>
      class_key c m = (fst (cheapest ranked), snd (cheapest ranked), c)"
    using cheapest_le(1) [OF el(2)] mine by (force simp: class_key_def member_cost_def)
  have 4: "\<forall>(d, m) \<in> offers now req classes (insert c cs). (fst (cheapest ranked), snd (cheapest ranked), c) \<le> class_key d m"
    using low off cheapest_le(2) [OF el(2)]
    by (fastforce simp: class_key_def member_cost_def less_eq_prod_def less_prod_def)
  show ?thesis using 1 2 3 4 unfolding best_ok_def by (auto simp: split_beta)
qed


lemma old_best_ok:
  assumes el: "eligible now req (case dget classes c of None \<Rightarrow> [] | Some ms \<Rightarrow> ms) = Inr ranked"
    and fresh: "c \<notin> cs" and old: "best_ok now req classes cs (Some (key, cls, s))"
    and low: "ranked = [] \<or> \<not> (fst (cheapest ranked), snd (cheapest ranked), c) < key"
  shows "best_ok now req classes (insert c cs) (Some (key, cls, s))"
proof -
  note off = offers_insert [OF el, of cs]
  have other: "cls \<noteq> c" using old fresh by (auto simp: best_ok_def offers_def)
  then have same: "(cls, m) \<in> offers now req classes (insert c cs) \<longleftrightarrow> (cls, m) \<in> offers now req classes cs" for m
    using off by auto
  have "key \<le> class_key c m" if "m \<in> fst ` set ranked" for m
  proof -
    have ne: "ranked \<noteq> []" using that by auto
    then have "key \<le> (fst (cheapest ranked), snd (cheapest ranked), c)" using low by auto
    also have "\<dots> \<le> class_key c m" using cheapest_le(2) [OF ne that]
      by (auto simp: class_key_def member_cost_def less_eq_prod_def less_prod_def)
    finally show ?thesis .
  qed
  then show ?thesis using old same off other by (auto simp: best_ok_def)
qed

lemma pick_loop_best:
  assumes "pick_loop now req classes cs best = Inr res" "distinct cs" "set cs \<inter> seen = {}"
    and "best_ok now req classes seen best"
  shows "best_ok now req classes (set cs \<union> seen) res"
  using assms
proof (induction cs arbitrary: best seen)
  case (Cons c cs)
  let ?ms = "case dget classes c of None \<Rightarrow> [] | Some ms \<Rightarrow> ms"
  obtain ranked where el: "eligible now req ?ms = Inr ranked" using Cons.prems(1) by (auto simp: rbind_eq_Inr)
  let ?key = "(fst (cheapest ranked), snd (cheapest ranked), c)"
  let ?best = "if ranked = [] then best else case best of None \<Rightarrow> Some (?key, c, snd (hd ranked))
    | Some b \<Rightarrow> if ?key < fst b then Some (?key, c, snd (hd ranked)) else best"
  have fresh: "c \<notin> seen" using Cons.prems(3) by auto
  have "best_ok now req classes (insert c seen) ?best"
  proof (cases best)
    case None
    then have "offers now req classes seen = {}" using Cons.prems(4) by (simp add: best_ok_def)
    then show ?thesis using None new_best_ok [OF el _ fresh] offers_insert [OF el, of seen]
      by (auto simp: best_ok_def)
  next
    case (Some b)
    obtain key cls s where b: "b = (key, cls, s)" by (cases b)
    then have old: "best_ok now req classes seen (Some (key, cls, s))" using Some Cons.prems(4) by simp
    show ?thesis
    proof (cases "ranked = [] \<or> \<not> ?key < key")
      case True
      then show ?thesis using old_best_ok [OF el fresh old True] Some b by auto
    next
      case False
      then have "\<forall>(d, m) \<in> offers now req classes seen. ?key \<le> class_key d m"
        using old by (auto simp: best_ok_def intro: order_trans [OF less_imp_le])
      then show ?thesis using new_best_ok [OF el _ fresh] False Some b by simp
    qed
  qed
  moreover have "pick_loop now req classes cs ?best = Inr res" using Cons.prems(1) el by (simp add: Let_def split: if_splits)
  ultimately show ?case using Cons.IH [of ?best "insert c seen"] Cons.prems(2,3) by simp
qed simp


lemma pick_loop_judges:
  assumes "pick_loop now req classes cs best = Inr res" "c \<in> set cs" "dget classes c = Some ms" "m \<in> set ms"
  shows "\<exists>r. fed_reject_reason now req m = Inr r"
  using assms
proof (induction cs arbitrary: best)
  case (Cons d cs)
  then obtain ranked where el: "eligible now req (case dget classes d of None \<Rightarrow> [] | Some ms \<Rightarrow> ms) = Inr ranked"
    by (auto simp: rbind_eq_Inr)
  obtain best' where "pick_loop now req classes cs best' = Inr res"
    using Cons.prems(1) el by (auto simp: Let_def split: if_splits)
  then show ?case using Cons eligible_Inr(2) [OF el, of m] by auto
qed simp

lemma explain_into_other:
  "fm_member_id ` set ms \<inter> {k} = {} \<Longrightarrow> explain_into now req ms out = Inr res \<Longrightarrow> dget res k = dget out k"
  by (induction ms arbitrary: out) (auto simp: rbind_eq_Inr split: option.splits)

lemma explain_into_dget:
  assumes "explain_into now req ms out = Inr res" "distinct (map fm_member_id ms)" "m \<in> set ms"
    "dget out (fm_member_id m) = None"
  shows "fed_reject_reason now req m = Inr (dget res (fm_member_id m))"
  using assms
proof (induction ms arbitrary: out)
  case (Cons n ms)
  obtain r where r: "fed_reject_reason now req n = Inr r" using Cons.prems(1) by (auto simp: rbind_eq_Inr)
  let ?out = "case r of None \<Rightarrow> out | Some why \<Rightarrow> dset (fm_member_id n) why out"
  have rest: "explain_into now req ms ?out = Inr res" using Cons.prems(1) r by (auto split: option.splits)
  show ?case
  proof (cases "n = m")
    case True
    then have "dget res (fm_member_id m) = dget ?out (fm_member_id m)"
      using explain_into_other [OF _ rest] Cons.prems(2) by auto
    then show ?thesis using True r Cons.prems(4) by (auto split: option.splits)
  next
    case False
    then have "m \<in> set ms" "fm_member_id n \<noteq> fm_member_id m" using Cons.prems(2,3) by auto
    then show ?thesis using Cons.IH [OF rest] Cons.prems(2,4) by (auto split: option.splits)
  qed
qed simp

section \<open>Properties\<close>

text \<open>C21. The class choice is the cheapest possible and its explanation is complete.  When a class is chosen, one
  of its members fits the task and no fitting member of any class is cheaper, where cheap is fewer GPUs per node,
  then fewer cores, then the class name; the score returned is the best among the fitting members of that class.
  When nothing is chosen every member of every class was rejected, and explaining any list of members with distinct
  ids gives each of them exactly its own reason.\<close>

theorem pick_class_cheapest:
  assumes "dict_ok classes" and "pick_class now req classes = Inr res"
  shows "case res of
      Some (cls, s) \<Rightarrow> \<exists>ms m best. dget classes cls = Some ms \<and> m \<in> set ms \<and> fits now req m \<and>
        (\<forall>c ms' m'. dget classes c = Some ms' \<longrightarrow> m' \<in> set ms' \<longrightarrow> fits now req m' \<longrightarrow> class_key cls m \<le> class_key c m') \<and>
        best \<in> set ms \<and> fits now req best \<and> fed_score best = Inr s \<and>
        (\<forall>m' s'. m' \<in> set ms \<longrightarrow> fits now req m' \<longrightarrow> fed_score m' = Inr s' \<longrightarrow> fle s' s)
    | None \<Rightarrow> \<forall>c ms m. dget classes c = Some ms \<longrightarrow> m \<in> set ms \<longrightarrow>
        (\<exists>why. fed_reject_reason now req m = Inr (Some why)) \<and>
        (\<forall>all out. explain now req all = Inr out \<longrightarrow> distinct (map fm_member_id all) \<longrightarrow> m \<in> set all \<longrightarrow>
           fed_reject_reason now req m = Inr (dget out (fm_member_id m)))"
proof -
  let ?cs = "sort (map fst classes)"
  obtain best where best: "pick_loop now req classes ?cs None = Inr best" "res = map_option snd best"
    using assms(2) by (auto simp: pick_class_def rbind_eq_Inr)
  have ok: "best_ok now req classes (set ?cs \<union> {}) best"
    using assms(1) by (intro pick_loop_best [OF best(1)]) (auto simp: dict_ok_def best_ok_def offers_def)
  have cs: "c \<in> set ?cs" if "dget classes c = Some ms" for c ms
    using that by (auto simp: map_of_SomeD image_iff dest!: map_of_SomeD intro: rev_bexI)
  have score: "fle s' s" if "fneg s \<le> fneg s'" "fed_score m = Inr s" "fed_score m' = Inr s'" for s s' m m'
    using that(1) fed_score_finite [OF that(2)] fed_score_finite [OF that(3)] by auto
  show ?thesis
  proof (cases best)
    case None
    have none: "offers now req classes (set ?cs) = {}" using ok None by (simp add: best_ok_def)
    have "\<exists>why. fed_reject_reason now req m = Inr (Some why)" if "dget classes c = Some ms" "m \<in> set ms" for c ms m
    proof -
      have "(c, m) \<notin> offers now req classes (set ?cs)" using none by blast
      then have "\<not> fits now req m" using that cs [OF that(1)] unfolding offers_def by blast
      then show ?thesis using pick_loop_judges [OF best(1) cs [OF that(1)] that] by (auto simp: fits_def)
    qed
    then show ?thesis using None best(2) explain_into_dget by (auto simp: explain_def)
  next
    case (Some b)
    obtain key cls s where b: "b = (key, cls, s)" by (cases b)
    let ?off = "offers now req classes (set ?cs)"
    have off: "(c, m) \<in> ?off \<longleftrightarrow> (\<exists>ms. dget classes c = Some ms \<and> m \<in> set ms \<and> fits now req m)" for c m
      using cs unfolding offers_def by blast
    have sel: "\<exists>m. (cls, m) \<in> ?off \<and> class_key cls m = key" "\<forall>(c, m) \<in> ?off. key \<le> class_key c m"
        "\<exists>m. (cls, m) \<in> ?off \<and> fed_score m = Inr s"
        "\<forall>m s'. (cls, m) \<in> ?off \<longrightarrow> fed_score m = Inr s' \<longrightarrow> fneg s \<le> fneg s'"
      using ok Some b by (simp_all add: best_ok_def)
    obtain m where m: "(cls, m) \<in> ?off" "class_key cls m = key" using sel(1) by blast
    obtain t where t: "(cls, t) \<in> ?off" "fed_score t = Inr s" using sel(3) by blast
    obtain ms where ms: "dget classes cls = Some ms" "m \<in> set ms" "fits now req m" using m(1) off by blast
    have "\<forall>c ms' m'. dget classes c = Some ms' \<longrightarrow> m' \<in> set ms' \<longrightarrow> fits now req m' \<longrightarrow> class_key cls m \<le> class_key c m'"
      using sel(2) off m(2) by blast
    moreover have "t \<in> set ms \<and> fits now req t" using t(1) off ms(1) by auto
    moreover have "\<forall>m' s'. m' \<in> set ms \<longrightarrow> fits now req m' \<longrightarrow> fed_score m' = Inr s' \<longrightarrow> fle s' s"
      using sel(4) off ms(1) score t(2) by blast
    ultimately show ?thesis using Some b best(2) ms t(2) by auto
  qed
qed


definition demo_shape :: "string \<Rightarrow> string \<Rightarrow> int \<Rightarrow> member_record" where
  "demo_shape name cls gpus = (case member_from_dict [(''member'', PStr name), (''member_id'', PStr (''r.'' @ name)),
     (''class'', PStr cls), (''cpus_per_node'', PInt 8), (''gpus_per_node'', PInt gpus)] of
       Inl e \<Rightarrow> undefined | Inr m \<Rightarrow> m)"

definition demo_classes :: "(string \<times> member_record list) list" where
  "demo_classes = [(''gpu'', [demo_shape ''g'' ''gpu'' 4]), (''cpu'', [demo_shape ''c'' ''cpu'' 0])]"

lemma demo_pick_class: "pick_class 0 [(''cores'', PInt 4)] demo_classes = Inr (Some (''cpu'', Fin 1))"
  by code_simp

theorem pick_class_cheapest_witness:
  "\<exists>m. fits 0 [(''cores'', PInt 4)] m \<and> class_key ''cpu'' m \<le> (4, 8, ''gpu'')"
proof -
  have gpu: "dget demo_classes ''gpu'' = Some [demo_shape ''g'' ''gpu'' 4]" by (simp add: demo_classes_def)
  have fit: "fits 0 [(''cores'', PInt 4)] (demo_shape ''g'' ''gpu'' 4)" by code_simp
  have key: "class_key ''gpu'' (demo_shape ''g'' ''gpu'' 4) = (4, 8, ''gpu'')" by code_simp
  have "dict_ok demo_classes" by (simp add: demo_classes_def dict_ok_def)
  from pick_class_cheapest [OF this demo_pick_class] gpu fit key show ?thesis by (auto) (metis list.set_intros(1))
qed

end
