(* ===== verification/Federation_Join.thy ===== *)
theory Federation_Join
  imports Federation_Policy
begin

text \<open>
  The part of \<^verbatim>\<open>plugin_federation.py\<close> that turns a join body into members and members into the declarations
  the dispatcher is given: names, the three ways a member comes about (declared, from the flat pool block, from the
  endpoint's allocation), the completion of the members by the join, and the class-pool declarations.  The lemmas
  show that what a join builds is what the dispatcher's own parser accepts, and that the two sides match a task
  against the same data.
\<close>

section \<open>Naming\<close>

definition pool_name_for_class :: "string \<Rightarrow> string" where
  "pool_name_for_class cls = ''fed-'' @ cls"

text \<open>\<open>rpartition('.')\<close>: what is before the last dot and after it, both from the reversed string.\<close>

definition split_member_id :: "string \<Rightarrow> string \<times> string" where
  "split_member_id mid =
    (let r = rev mid; back = takeWhile (\<lambda>c. c \<noteq> CHR ''.'') r; front = dropWhile (\<lambda>c. c \<noteq> CHR ''.'') r
     in (rev (tl front), rev back))"

definition make_member_id :: "string \<Rightarrow> string \<Rightarrow> string" where
  "make_member_id name member = name @ ''.'' @ member"

section \<open>Members\<close>

definition LOGIN_POOL_KEYS :: "string list" where
  "LOGIN_POOL_KEYS = [''queue'', ''account'', ''nodes'', ''cpus_per_node'', ''gpus_per_node'', ''walltime_sec'',
     ''min_pilots'', ''max_pilots'', ''rhapsody_backend'']"

definition MEMBER_KEYS :: "string list" where
  "MEMBER_KEYS = [''member'', ''queue'', ''account'', ''nodes'', ''cpus_per_node'', ''gpus_per_node'',
     ''walltime_sec'', ''min_pilots'', ''max_pilots'', ''rhapsody_backend'', ''scratch_base'', ''shared_fs'',
     ''software'', ''class'', ''attributes'', ''budget'', ''pilot'']"

definition MAX_PILOTS_CAP :: int where "MAX_PILOTS_CAP = 1024"

definition MAX_NODES_CAP :: int where "MAX_NODES_CAP = 100000"

definition MAX_CPUS_CAP :: int where "MAX_CPUS_CAP = 4096"

definition MAX_GPUS_CAP :: int where "MAX_GPUS_CAP = 256"

definition MAX_WALLTIME_CAP :: int where "MAX_WALLTIME_CAP = 30 * 86400"

definition known_keys :: "string list \<Rightarrow> dict \<Rightarrow> fed_invalid + unit" where
  "known_keys ks d = (case sort (filter (\<lambda>k. k \<notin> set ks) (map fst d)) of
     [] \<Rightarrow> Inr () | k # _ \<Rightarrow> Inl (FieldInvalid k))"

definition decl_queue :: "dict \<Rightarrow> fed_invalid + string" where
  "decl_queue d = (case pget d ''queue'' of
     PStr q \<Rightarrow> if q = '''' \<or> q = ''default'' then Inl (FieldInvalid ''queue'') else Inr q
   | _ \<Rightarrow> Inl (FieldInvalid ''queue''))"

definition decl_account :: "dict \<Rightarrow> fed_invalid + string option" where
  "decl_account d = (case pget d ''account'' of
     PNone \<Rightarrow> Inr None | PStr a \<Rightarrow> Inr (Some a) | _ \<Rightarrow> Inl (FieldInvalid ''account''))"

definition decl_backend :: "dict \<Rightarrow> fed_invalid + string" where
  "decl_backend d = (case get_or d ''rhapsody_backend'' (PStr ''concurrent'') of
     PStr b \<Rightarrow> if b = '''' then Inl (FieldInvalid ''rhapsody_backend'') else Inr b
   | _ \<Rightarrow> Inl (FieldInvalid ''rhapsody_backend''))"

definition decl_shared :: "resource_record \<Rightarrow> dict \<Rightarrow> fed_invalid + bool" where
  "decl_shared r d = (case pget_or d ''shared_fs'' (PBool (fr_shared_fs r)) of
     PBool b \<Rightarrow> Inr b | _ \<Rightarrow> Inl (FieldInvalid ''shared_fs''))"

definition decl_scratch :: "path_env \<Rightarrow> resource_record \<Rightarrow> bool \<Rightarrow> dict \<Rightarrow> fed_invalid + string option" where
  "decl_scratch pe r shared d = (let v = pget d ''scratch_base'' in
     if truthy v then rbind (validate_scratch_for_host pe shared v) (\<lambda>s. Inr (Some s)) else Inr (fr_scratch_base r))"

definition decl_pilot :: "dict \<Rightarrow> fed_invalid + string" where
  "decl_pilot d = (let v = get_or d ''pilot'' (PStr ''submit'') in
     if v = PStr ''submit'' then Inr ''submit'' else if v = PStr ''endpoint'' then Inr ''endpoint''
     else Inl (FieldInvalid ''pilot''))"

definition declared_member :: "path_env \<Rightarrow> resource_record \<Rightarrow> pyval \<Rightarrow> fed_invalid + member_record" where
  "declared_member pe r v = (case v of
     PDict d \<Rightarrow>
       rbind (known_keys MEMBER_KEYS d) (\<lambda>_.
       rbind (validate_member_name (pget d ''member'')) (\<lambda>name.
       rbind (decl_queue d) (\<lambda>queue.
       rbind (decl_account d) (\<lambda>account.
       rbind (decl_backend d) (\<lambda>backend.
       rbind (decl_shared r d) (\<lambda>shared.
       rbind (decl_scratch pe r shared d) (\<lambda>scratch.
       rbind (validate_pool_int d ''max_pilots'' (Some 1) 1 (Some MAX_PILOTS_CAP)) (\<lambda>max_pilots.
       rbind (validate_budget True (pget d ''budget'')) (\<lambda>budget.
       rbind (decl_pilot d) (\<lambda>pilot.
       rbind (validate_pool_int d ''nodes'' None 1 (Some MAX_NODES_CAP)) (\<lambda>nodes.
       rbind (validate_pool_int d ''cpus_per_node'' None 1 (Some MAX_CPUS_CAP)) (\<lambda>cpus.
       rbind (validate_pool_int d ''gpus_per_node'' (Some 0) 0 (Some MAX_GPUS_CAP)) (\<lambda>gpus.
       rbind (validate_pool_int d ''walltime_sec'' None 1 (Some MAX_WALLTIME_CAP)) (\<lambda>wall.
       rbind (validate_pool_int d ''min_pilots'' (Some 0) 0 (Some max_pilots)) (\<lambda>min_pilots.
       rbind (validate_software (pget d ''software'')) (\<lambda>software.
       rbind (validate_attributes (pget d ''attributes'')) (\<lambda>attributes.
       let m = fed_member_post_init
             \<lparr>fm_member = name, fm_member_id = '''', fm_cls = '''', fm_pool_name = '''', fm_endpoint = fr_endpoint r,
              fm_pilot = pilot, fm_end_time = None, fm_queue = queue, fm_account = account, fm_nodes = nodes,
              fm_cpus_per_node = cpus, fm_gpus_per_node = gpus, fm_walltime_sec = wall, fm_min_pilots = min_pilots,
              fm_max_pilots = max_pilots, fm_rhapsody_backend = backend, fm_scratch_base = scratch,
              fm_shared_fs = shared, fm_software = software, fm_attributes = attributes, fm_budget = budget,
              fm_usage = new_usage, fm_liveness = ''ok''\<rparr>;
           declared = pget d ''class''
       in rbind (if truthy declared then validate_class declared else Inr (default_class m)) (\<lambda>cls.
          Inr (m\<lparr>fm_cls := cls\<rparr>)))))))))))))))))))
   | _ \<Rightarrow> Inl (FieldInvalid ''members''))"

text \<open>The dict literal that describes a single pool, and its two sources.\<close>

record pool_decl =
  pd_queue :: string
  pd_account :: "string option"
  pd_pilot :: string
  pd_end_time :: "pyfloat option"
  pd_min_pilots :: int
  pd_max_pilots :: int
  pd_size :: pilot_size

definition login_pool :: "resource_record \<Rightarrow> fed_invalid + pool_decl" where
  "login_pool r = (case fr_pool r of
     None \<Rightarrow> Inl (FieldRequired ''pool'')
   | Some d \<Rightarrow>
       rbind (known_keys LOGIN_POOL_KEYS d) (\<lambda>_.
       rbind (decl_queue d) (\<lambda>queue.
       rbind (decl_account d) (\<lambda>account.
       rbind (decl_backend d) (\<lambda>backend.
       rbind (validate_pool_int d ''max_pilots'' (Some 1) 1 (Some MAX_PILOTS_CAP)) (\<lambda>max_pilots.
       rbind (validate_pool_int d ''min_pilots'' (Some 0) 0 (Some max_pilots)) (\<lambda>min_pilots.
       rbind (validate_pool_int d ''nodes'' None 1 (Some MAX_NODES_CAP)) (\<lambda>nodes.
       rbind (validate_pool_int d ''cpus_per_node'' None 1 (Some MAX_CPUS_CAP)) (\<lambda>cpus.
       rbind (validate_pool_int d ''gpus_per_node'' (Some 0) 0 (Some MAX_GPUS_CAP)) (\<lambda>gpus.
       rbind (validate_pool_int d ''walltime_sec'' None 1 (Some MAX_WALLTIME_CAP)) (\<lambda>wall.
       Inr \<lparr>pd_queue = queue, pd_account = account, pd_pilot = ''submit'', pd_end_time = None,
            pd_min_pilots = min_pilots, pd_max_pilots = max_pilots,
            pd_size = \<lparr>ps_nodes = nodes, ps_cpus_per_node = cpus, ps_rhapsody_backend = backend,
              ps_gpus_per_node = gpus, ps_walltime_sec = wall\<rparr>\<rparr>)))))))))))"

definition fed_int :: "pyval \<Rightarrow> fed_invalid + int" where
  "fed_int v = (case py_int v of Inl e \<Rightarrow> Inl (FieldRaised e) | Inr i \<Rightarrow> Inr i)"

text \<open>\<open>end\<close> is the allocation's end as an absolute time, \<open>None\<close> when the endpoint reports none.\<close>

definition allocation_walltime :: "rat \<Rightarrow> pyval \<Rightarrow> pyfloat option \<Rightarrow> fed_invalid + int" where
  "allocation_walltime now runtime end0 = (case end0 of
     Some e \<Rightarrow> (case int_of_float (fsub e (Fin now)) of
        Inl err \<Rightarrow> Inl (FieldRaised err)
      | Inr remaining \<Rightarrow> if remaining \<le> 0 then Inl (FieldInvalid ''allocation'') else Inr remaining)
   | None \<Rightarrow> rbind (fed_int (if truthy runtime then runtime else PInt 3600)) (\<lambda>i. Inr (max 1 i)))"

definition alloc_end :: "dict \<Rightarrow> fed_invalid + pyfloat option" where
  "alloc_end alloc = (let v = pget alloc ''end_time'' in
     if \<not> truthy v then Inr None
     else case v of PFloat f \<Rightarrow> Inr (Some f) | PInt i \<Rightarrow> (case py_float v of Inl e \<Rightarrow> Inl (FieldRaised e) | Inr f \<Rightarrow> Inr (Some f))
          | _ \<Rightarrow> Inl (FieldRaised TypeError))"

definition allocation_pool :: "rat \<Rightarrow> resource_record \<Rightarrow> dict \<Rightarrow> fed_invalid + pool_decl" where
  "allocation_pool now r alloc =
     rbind (fed_int (get_or alloc ''n_nodes'' (PInt 1))) (\<lambda>n.
     let nodes = or_int n 1; cores = capability r ''cores''; all_gpus = capability r ''gpus'';
         cpus0 = pget alloc ''cpus_per_node''; gpus0 = pget alloc ''gpus_per_node'' in
     rbind (if truthy cpus0 then fed_int cpus0
            else if truthy cores then rbind (fed_int cores) (\<lambda>c. Inr (max 1 (c div nodes))) else Inr 1) (\<lambda>cpus.
     rbind (if truthy gpus0 then fed_int gpus0
            else if truthy all_gpus then rbind (fed_int all_gpus) (\<lambda>g. Inr (g div nodes)) else Inr 0) (\<lambda>gpus.
     rbind (alloc_end alloc) (\<lambda>end_time.
     rbind (allocation_walltime now (pget alloc ''runtime'') end_time) (\<lambda>wall.
     Inr \<lparr>pd_queue = ''allocation'', pd_account = None, pd_pilot = ''endpoint'', pd_end_time = end_time,
          pd_min_pilots = 0, pd_max_pilots = 1,
          pd_size = \<lparr>ps_nodes = nodes, ps_cpus_per_node = max 1 cpus, ps_rhapsody_backend = ''concurrent'',
            ps_gpus_per_node = max 0 gpus, ps_walltime_sec = wall\<rparr>\<rparr>)))))"

definition implicit_fed_member :: "resource_record \<Rightarrow> pool_decl \<Rightarrow> fed_invalid + member_record" where
  "implicit_fed_member r d =
    rbind (case dec_strs (get_or (fr_capabilities r) ''software'' (PList [])) of
             None \<Rightarrow> Inl (FieldRaised TypeError) | Some s \<Rightarrow> Inr s) (\<lambda>software.
    let size = pd_size d;
        m = fed_member_post_init
          \<lparr>fm_member = ''default'', fm_member_id = '''', fm_cls = '''', fm_pool_name = '''', fm_endpoint = fr_endpoint r,
           fm_pilot = pd_pilot d, fm_end_time = pd_end_time d, fm_queue = pd_queue d, fm_account = pd_account d,
           fm_nodes = ps_nodes size, fm_cpus_per_node = ps_cpus_per_node size,
           fm_gpus_per_node = ps_gpus_per_node size, fm_walltime_sec = ps_walltime_sec size,
           fm_min_pilots = pd_min_pilots d, fm_max_pilots = pd_max_pilots d,
           fm_rhapsody_backend = ps_rhapsody_backend size, fm_scratch_base = fr_scratch_base r,
           fm_shared_fs = fr_shared_fs r, fm_software = software,
           fm_attributes = resource_attributes (fr_site r) (fr_kind r) (capability r ''mem_gb''),
           fm_budget = fr_budget r, fm_usage = new_usage, fm_liveness = ''ok''\<rparr>
    in Inr (m\<lparr>fm_cls := default_class m\<rparr>))"

fun declared_members :: "path_env \<Rightarrow> resource_record \<Rightarrow> pyval list \<Rightarrow> string list \<Rightarrow> fed_invalid + member_record list" where
  "declared_members pe r [] seen = Inr []"
| "declared_members pe r (v # vs) seen =
    rbind (declared_member pe r v) (\<lambda>m.
      if fm_member m \<in> set seen then Inl (FieldInvalid ''member'')
      else rbind (declared_members pe r vs (fm_member m # seen)) (\<lambda>ms. Inr (m # ms)))"

text \<open>\<open>alloc\<close> is what the endpoint reports about its batch job, empty when it reports nothing.\<close>

definition build_members :: "path_env \<Rightarrow> rat \<Rightarrow> dict \<Rightarrow> resource_record \<Rightarrow> dict \<Rightarrow> fed_invalid + member_record list" where
  "build_members pe now alloc r body = (case pget body ''members'' of
     PNone \<Rightarrow> rbind (if fr_mode r = ''allocation'' then allocation_pool now r alloc else login_pool r) (\<lambda>d.
                rbind (implicit_fed_member r d) (\<lambda>m. Inr [m]))
   | PList [] \<Rightarrow> Inl (FieldInvalid ''members'')
   | PList vs \<Rightarrow> if fr_mode r = ''allocation'' then Inl (FieldInvalid ''members'') else declared_members pe r vs []
   | _ \<Rightarrow> Inl (FieldInvalid ''members''))"


section \<open>Completing the members of a join\<close>

fun round4 :: "pyfloat \<Rightarrow> pyfloat" where
  "round4 (Fin r) = Fin (of_int (round_half_even (r * 10000)) / 10000)"
| "round4 f = f"

text \<open>\<open>or_raise\<close> passes an exception of the standard conversions on.\<close>

definition or_raise :: "py_error + 'a \<Rightarrow> fed_invalid + 'a" where
  "or_raise x = (case x of Inl e \<Rightarrow> Inl (FieldRaised e) | Inr v \<Rightarrow> Inr v)"

text \<open>A member without a budget may spend what its pilot can hold.\<close>

definition complete_budget :: "member_record \<Rightarrow> fed_invalid + dict" where
  "complete_budget m =
    rbind (or_raise (member_node_hours m)) (\<lambda>hours.
    if ftruthy hours then Inr (fm_budget m)
    else rbind (or_raise (py_float (PInt (fm_nodes m * fm_walltime_sec m)))) (\<lambda>node_sec.
           Inr [(''node_hours'', PFloat (round4 (fdiv node_sec (Fin 3600))))]))"

definition complete_member :: "resource_record \<Rightarrow> member_record \<Rightarrow> fed_invalid + member_record" where
  "complete_member r m =
    rbind (complete_budget m) (\<lambda>budget.
    let m1 = m\<lparr>fm_budget := budget, fm_member_id := make_member_id (fr_name r) (fm_member m),
               fm_pool_name := pool_name_for_class (fm_cls m), fm_liveness := fr_liveness r\<rparr> in
    rbind (or_raise (member_node_hours m1)) (\<lambda>left.
    if MAX_POOL_MEMBER_NAME_LEN < length (fm_pool_name m1) + length (fm_member_id m1) then Inl (FieldInvalid ''member_id'')
    else Inr (m1\<lparr>fm_usage := (fm_usage m1)\<lparr>u_node_hours_remaining := left\<rparr>\<rparr>)))"

definition complete_record :: "resource_record \<Rightarrow> member_record list \<Rightarrow> fed_invalid + resource_record" where
  "complete_record r ms =
    rbind (rmap_list (complete_member r) ms) (\<lambda>ms1.
    rbind (or_raise (aggregate (r\<lparr>fr_members := fold (\<lambda>m d. dset (fm_member m) m d) ms1 []\<rparr>))) (\<lambda>r1.
    rbind (or_raise (resource_node_hours r1)) (\<lambda>left.
    Inr (r1\<lparr>fr_pool_name := fm_pool_name (hd ms1),
            fr_usage := (fr_usage r1)\<lparr>u_node_hours_remaining := left\<rparr>\<rparr>))))"

section \<open>The join request\<close>

text \<open>What a join reads from its surroundings: the file system, \<open>str()\<close> of a value that is not a string, the default
  scratch directory of a resource, the endpoint's system metrics and batch allocation, the clock and the endpoint's
  liveness.\<close>

record join_env =
  je_path :: path_env
  je_str :: "pyval \<Rightarrow> string"
  je_scratch :: "string \<Rightarrow> string"
  je_metrics :: pyval
  je_alloc :: dict
  je_now :: rat
  je_liveness :: string

definition py_str_or :: "join_env \<Rightarrow> pyval \<Rightarrow> string" where
  "py_str_or je v = (if truthy v then (case v of PStr s \<Rightarrow> s | _ \<Rightarrow> je_str je v) else '''')"

definition validate_join :: "join_env \<Rightarrow> dict \<Rightarrow> fed_invalid + resource_record" where
  "validate_join je body =
    (let declared = truthy (pget body ''members'') in
     rbind (guard_or (\<not> declared \<or> pget body ''pool'' = PNone) (FieldInvalid ''pool'')) (\<lambda>_.
     rbind (validate_name (pget body ''name'')) (\<lambda>name.
     rbind (let v = pget_or body ''mode'' (PStr ''allocation'') in
            if v = PStr ''allocation'' then Inr ''allocation'' else if v = PStr ''login'' then Inr ''login''
            else Inl (FieldInvalid ''mode'')) (\<lambda>mode.
     rbind (case pget body ''endpoint'' of
              PStr e \<Rightarrow> if e = '''' then Inl (FieldInvalid ''endpoint'') else Inr e
            | _ \<Rightarrow> Inl (FieldInvalid ''endpoint'')) (\<lambda>endpoint.
     rbind (validate_capabilities (pget body ''capabilities'')) (\<lambda>caps.
     rbind (validate_budget (mode = ''login'' \<and> \<not> declared) (pget body ''budget'')) (\<lambda>budget.
     rbind (case pget_or body ''shared_fs'' (PBool True) of PBool b \<Rightarrow> Inr b | _ \<Rightarrow> Inl (FieldInvalid ''shared_fs'')) (\<lambda>shared.
     rbind (let v = pget body ''scratch_base'' in
            if truthy v then validate_scratch_for_host (je_path je) shared v else Inr (je_scratch je name)) (\<lambda>scratch.
     Inr \<lparr>fr_name = name, fr_endpoint = endpoint, fr_mode = mode, fr_site = py_str_or je (pget body ''site''),
          fr_kind = py_str_or je (pget body ''kind''), fr_capabilities = caps, fr_budget = budget,
          fr_scratch_base = Some scratch, fr_shared_fs = shared,
          fr_pool = (if declared then None else case pget body ''pool'' of PDict d \<Rightarrow> Some d | _ \<Rightarrow> None),
          fr_joined_at = je_now je, fr_dispatcher_sid = ''fed'', fr_pool_name = '''', fr_usage = new_usage,
          fr_liveness = je_liveness je, fr_members = [], fr_pool_config = []\<rparr>)))))))))"

fun round1 :: "pyfloat \<Rightarrow> pyfloat" where
  "round1 (Fin r) = Fin (of_int (round_half_even (r * 10)) / 10)"
| "round1 f = f"

definition sub_dict :: "dict \<Rightarrow> string \<Rightarrow> fed_invalid + dict" where
  "sub_dict d k = (case get_or d k (PDict []) of PDict e \<Rightarrow> Inr e | _ \<Rightarrow> Inl (FieldRaised AttributeError))"

definition fill_cores :: "dict \<Rightarrow> dict \<Rightarrow> fed_invalid + dict" where
  "fill_cores cpu caps = (let cores = get_or cpu ''cores_logical'' (pget cpu ''cores_physical'') in
     if dhas caps ''cores'' \<or> \<not> truthy cores then Inr caps
     else rbind (fed_int cores) (\<lambda>c. Inr (dset ''cores'' (PInt c) caps)))"

definition fill_gpus :: "dict \<Rightarrow> dict \<Rightarrow> dict" where
  "fill_gpus metrics caps = (case pget metrics ''gpus'' of
     PList gs \<Rightarrow> if dhas caps ''gpus'' then caps else dset ''gpus'' (PInt (int (length gs))) caps
   | _ \<Rightarrow> caps)"

definition fill_mem :: "dict \<Rightarrow> dict \<Rightarrow> fed_invalid + dict" where
  "fill_mem mem caps = (if dhas caps ''mem_gb'' \<or> \<not> truthy (pget mem ''total'') then Inr caps
     else rbind (or_raise (py_float (pget mem ''total''))) (\<lambda>t.
       Inr (dset ''mem_gb'' (PFloat (round1 (fdiv t (Fin (1024 ^ 3))))) caps)))"

definition discover_capabilities :: "pyval \<Rightarrow> dict \<Rightarrow> fed_invalid + dict" where
  "discover_capabilities metrics caps =
    (if dhas caps ''cores'' \<and> dhas caps ''gpus'' \<and> dhas caps ''mem_gb'' then Inr caps
     else case metrics of
       PDict d \<Rightarrow> rbind (sub_dict d ''cpu'') (\<lambda>cpu. rbind (sub_dict d ''memory'') (\<lambda>mem.
         rbind (fill_cores cpu caps) (\<lambda>c1. fill_mem mem (fill_gpus d c1))))
     | _ \<Rightarrow> Inr caps)"

definition finish_join :: "join_env \<Rightarrow> dict \<Rightarrow> resource_record \<Rightarrow> fed_invalid + resource_record" where
  "finish_join je body r =
    rbind (discover_capabilities (je_metrics je) (fr_capabilities r)) (\<lambda>caps.
    let r1 = r\<lparr>fr_capabilities := caps\<rparr> in
    rbind (build_members (je_path je) (je_now je) (je_alloc je) r1 body) (\<lambda>ms. complete_record r1 ms))"

section \<open>Declarations for the dispatcher\<close>

definition member_decl :: "resource_record \<Rightarrow> member_record \<Rightarrow> dict" where
  "member_decl r m =
    [(''member_id'', PStr (fm_member_id m)),
     (''endpoint_name'', PStr (fr_endpoint r)),
     (''pilot'', PStr (fm_pilot m)),
     (''end_time'', enc_opt PFloat (fm_end_time m)),
     (''queue'', PStr (fm_queue m)),
     (''account'', enc_opt PStr (fm_account m)),
     (''pilot_sizes'', PDict [(''default'', PDict
       [(''nodes'', PInt (fm_nodes m)),
        (''cpus_per_node'', PInt (fm_cpus_per_node m)),
        (''gpus_per_node'', PInt (fm_gpus_per_node m)),
        (''walltime_sec'', PInt (fm_walltime_sec m)),
        (''rhapsody_backend'', PStr (fm_rhapsody_backend m))])]),
     (''default_size'', PStr ''default''),
     (''min_pilots'', PInt (fm_min_pilots m)),
     (''max_pilots'', PInt (fm_max_pilots m)),
     (''scratch_base'', enc_opt PStr (fm_scratch_base m)),
     (''shared_fs'', PBool (fm_shared_fs m)),
     (''attributes'', PDict (match_attributes m)),
     (''budget'', PDict (fm_budget m))]"

definition group_member :: "resource_record \<Rightarrow> member_record \<Rightarrow> (string \<times> pyval list) list \<Rightarrow> (string \<times> pyval list) list" where
  "group_member r m by_class = dset (fm_cls m)
     ((case dget by_class (fm_cls m) of None \<Rightarrow> [] | Some ds \<Rightarrow> ds) @ [PDict (member_decl r m)]) by_class"

definition class_pool_decls :: "resource_record list \<Rightarrow> dict list" where
  "class_pool_decls recs =
    (let by_class = fold (\<lambda>r acc. fold (group_member r) (member_list r) acc) recs []
     in map (\<lambda>cls. [(''name'', PStr (pool_name_for_class cls)), (''pool_class'', PStr cls), (''multi_member'', PBool True),
          (''members'', PList (case dget by_class cls of None \<Rightarrow> [] | Some ds \<Rightarrow> ds)),
          (''strategy'', PStr ''conservative''),
          (''strategy_config'', PDict [(''min_dwell_sec'', PInt 5), (''max_in_flight_submissions'', PInt 1)])])
        (sort (map fst by_class)))"

text \<open>The requirements a submit forwards.\<close>

definition forward_requirements :: "dict \<Rightarrow> dict" where
  "forward_requirements req = filter (\<lambda>(k, v). k \<noteq> ''node_hours'') req"

section \<open>What the dispatcher makes of a declaration\<close>

definition fed_mode :: "string \<Rightarrow> pilot_mode" where
  "fed_mode s = (if s = ''endpoint'' then PILOT_ENDPOINT else PILOT_SUBMIT)"

definition fed_pool_member :: "resource_record \<Rightarrow> member_record \<Rightarrow> pyfloat \<Rightarrow> pool_member" where
  "fed_pool_member r m hours =
    \<lparr>pm_member_id = fm_member_id m, pm_endpoint_name = fr_endpoint r, pm_queue = fm_queue m,
     pm_account = fm_account m, pm_pilot_sizes = [(''default'', fed_pilot_size m)], pm_default_size = ''default'',
     pm_min_pilots = fm_min_pilots m, pm_max_pilots = fm_max_pilots m, pm_scratch_base = fm_scratch_base m,
     pm_shared_fs = fm_shared_fs m, pm_attributes = match_attributes m, pm_budget = [(''node_hours'', hours)],
     pm_pilot = fed_mode (fm_pilot m), pm_end_time = fm_end_time m\<rparr>"

text \<open>The contract between the two sides, field by field.\<close>

definition shape_ready :: "member_record \<Rightarrow> bool" where
  "shape_ready m \<longleftrightarrow> 1 \<le> fm_nodes m \<and> 1 \<le> fm_cpus_per_node m \<and> 0 \<le> fm_gpus_per_node m \<and> 1 \<le> fm_walltime_sec m \<and>
     fm_rhapsody_backend m \<noteq> '''' \<and> fm_queue m \<noteq> '''' \<and> fm_queue m \<noteq> ''default'' \<and> fm_pilot m \<in> {''submit'', ''endpoint''} \<and>
     0 \<le> fm_min_pilots m \<and> fm_min_pilots m \<le> fm_max_pilots m \<and> 1 \<le> fm_max_pilots m \<and> fed_member_post_init m = m \<and>
     list_all attr_value (map snd (fm_attributes m)) \<and>
     (case fm_end_time m of None \<Rightarrow> True | Some f \<Rightarrow> \<not> fle f (Fin 0))"

definition budget_ready :: "member_record \<Rightarrow> pyfloat \<Rightarrow> bool" where
  "budget_ready m hours \<longleftrightarrow> fm_budget m = [(''node_hours'', PFloat hours)] \<and> \<not> fle hours (Fin 0)"

lemma attr_value_software: "attr_value (enc_strs s)"
  by (simp add: attr_value_def enc_strs_def list_all_iff)

lemma match_attributes_ok:
  assumes "list_all attr_value (map snd (fm_attributes m))"
  shows "parse_attributes (match_attributes m) = Inr ()"
proof -
  have "list_all attr_value (map snd (dset ''software'' (enc_strs (fm_software m)) d))"
    if "list_all attr_value (map snd d)" for d
    using that by (induction d) (auto simp: attr_value_software)
  then have "list_all attr_value (map snd (match_attributes m))" using assms by (simp add: match_attributes_def)
  then show ?thesis by (auto simp: parse_attributes_eq list_all_iff)
qed


lemma fed_post_init_iff:
  "fed_member_post_init m = m \<longleftrightarrow> (fm_pilot m = ''endpoint'' \<longrightarrow> fm_min_pilots m = 1 \<and> fm_max_pilots m = 1)"
  by (cases m) (auto simp: fed_member_post_init_def)

lemma member_decl_accepted:
  assumes shape: "shape_ready m" and budget: "budget_ready m hours" and ep: "fr_endpoint r \<noteq> ''''"
    and mid: "member_re (fm_member_id m)" "length pool + length (fm_member_id m) \<le> MAX_POOL_MEMBER_NAME_LEN"
  shows "parse_member pool (PDict (member_decl r m)) = Inr (fed_pool_member r m hours)"
proof -
  let ?d = "member_decl r m"
  let ?s = "fed_pilot_size m"
  have size: "parse_pilot_size (PDict [(''nodes'', PInt (fm_nodes m)), (''cpus_per_node'', PInt (fm_cpus_per_node m)),
      (''gpus_per_node'', PInt (fm_gpus_per_node m)), (''walltime_sec'', PInt (fm_walltime_sec m)),
      (''rhapsody_backend'', PStr (fm_rhapsody_backend m))]) = Inr ?s"
    using shape by (simp add: parse_pilot_size_def pget_eval result_simps parse_eqs shape_ready_def
        fed_pilot_size_def or_int_def)
  have strs: "str_or_null n (enc_opt PStr x) = Inr x" for n x
    by (cases x) (simp_all add: str_or_null_def enc_opt_def)
  have res: "parse_resource ?d True = Inr \<lparr>rf_endpoint_name = Some (fr_endpoint r), rf_queue = fm_queue m,
      rf_account = fm_account m, rf_pilot_sizes = [(''default'', ?s)], rf_default_size = ''default'',
      rf_min_pilots = fm_min_pilots m, rf_max_pilots = fm_max_pilots m, rf_scratch_base = fm_scratch_base m\<rparr>"
    using shape ep
    by (simp add: parse_resource_def member_decl_def pget_eval strs parse_endpoint_def nonempty_str_def
        parse_sizes_def parse_size_item_def size parse_default_size_def dhas_def parse_int_def guard_or_def shape_ready_def)
  have mode: "parse_pilot_mode (PStr (fm_pilot m)) = Inr (fed_mode (fm_pilot m))"
    using shape by (auto simp: parse_pilot_mode_def fed_mode_def shape_ready_def)
  have end0: "parse_end_time (enc_opt PFloat (fm_end_time m)) = Inr (fm_end_time m)"
    using shape end_time_replay [of "fm_end_time m"] by (cases "fm_end_time m") (simp_all add: shape_ready_def enc_opt_def)
  have bud: "parse_budget (fm_budget m) = Inr [(''node_hours'', hours)]"
    using budget budget_replay [of "[(''node_hours'', hours)]"] by (simp add: budget_ready_def budget_wf_iff)
  have keys: "require_keys [''member_id'', ''endpoint_name'', ''queue'', ''default_size'', ''pilot_sizes''] ?d = Inr ()"
    by (simp add: member_decl_def pget_eval)
  have get: "pget ?d ''member_id'' = PStr (fm_member_id m)" "pget_or ?d ''shared_fs'' (PBool True) = PBool (fm_shared_fs m)"
      "pget_or ?d ''attributes'' (PDict []) = PDict (match_attributes m)"
      "pget_or ?d ''pilot'' (PStr ''submit'') = PStr (fm_pilot m)"
      "pget ?d ''end_time'' = enc_opt PFloat (fm_end_time m)"
      "pget_or ?d ''budget'' (PDict []) = PDict (fm_budget m)"
    by (simp_all add: member_decl_def pget_eval)
  have attrs: "parse_attributes (match_attributes m) = Inr ()"
    using shape by (simp add: shape_ready_def match_attributes_ok)
  have post: "member_post_init (fed_pool_member r m hours) = fed_pool_member r m hours"
    using shape by (simp add: member_post_init_def fed_pool_member_def fed_mode_def shape_ready_def fed_post_init_iff)
  show ?thesis
    unfolding parse_member_def pyval.case keys get res rbind_simps
    using mid post shape by (simp add: parse_member_id_def as_bool_def as_dict_def attrs mode end0 bud guard_or_def
        DEFAULT_POOL_NAME_def shape_ready_def fed_pool_member_def)
qed


section \<open>What the validators leave behind\<close>

lemma validate_pool_int_range:
  assumes "validate_pool_int d k dflt lo hi = Inr i" "\<And>x. dflt = Some x \<Longrightarrow> lo \<le> x"
  shows "lo \<le> i"
  using assms by (auto simp: validate_pool_int_def split: pyval.splits option.splits if_splits)

lemma validate_pool_int_max:
  assumes "validate_pool_int d k (Some x) lo (Some hi) = Inr i" "x \<le> hi"
  shows "i \<le> hi"
  using assms by (auto simp: validate_pool_int_def split: pyval.splits if_splits)

lemma validate_attr_items_ok: "validate_attr_items d = Inr out \<Longrightarrow> list_all attr_value (map snd out)"
  by (induction d arbitrary: out rule: validate_attr_items.induct)
    (auto simp: attr_value_def rbind_eq_Inr split: if_splits)

lemma validate_attributes_ok: "validate_attributes v = Inr out \<Longrightarrow> list_all attr_value (map snd out)"
  by (auto simp: validate_attributes_def validate_attr_items_ok split: pyval.splits)

lemma validate_cap_items_ok: "validate_cap_items d = Inr out \<Longrightarrow> list_all attr_value (map snd out)"
  by (induction d arbitrary: out rule: validate_cap_items.induct)
    (auto simp: attr_value_def rbind_eq_Inr split: if_splits)

lemma validate_capabilities_ok: "validate_capabilities v = Inr out \<Longrightarrow> list_all attr_value (map snd out)"
  by (auto simp: validate_capabilities_def validate_cap_items_ok split: pyval.splits)

definition budget_valid :: "dict \<Rightarrow> bool" where
  "budget_valid b \<longleftrightarrow> b = [] \<or> (\<exists>h. b = [(''node_hours'', PFloat h)] \<and> \<not> fle h (Fin 0))"

lemma num_py_float: "is_number v \<Longrightarrow> num_of v = Some f \<Longrightarrow> py_float v = Inr g \<Longrightarrow> g = f"
  by (cases v) (auto split: if_splits)

lemma validate_budget_ok:
  assumes "validate_budget needed v = Inr b"
  shows "budget_valid b" and "needed \<Longrightarrow> b \<noteq> []"
  using assms num_py_float by (auto simp: validate_budget_def budget_valid_def split: pyval.splits option.splits sum.splits if_splits)


lemma decl_field_ok:
  "decl_queue d = Inr q \<Longrightarrow> q \<noteq> '''' \<and> q \<noteq> ''default''"
  "decl_backend d = Inr b \<Longrightarrow> b \<noteq> ''''"
  "decl_pilot d = Inr p \<Longrightarrow> p \<in> {''submit'', ''endpoint''}"
  by (auto simp: decl_queue_def decl_backend_def decl_pilot_def Let_def split: pyval.splits if_splits)

text \<open>One member built from validated fields.\<close>

lemma shape_ready_intro:
  assumes "1 \<le> fm_nodes m" "1 \<le> fm_cpus_per_node m" "0 \<le> fm_gpus_per_node m" "1 \<le> fm_walltime_sec m"
    "fm_rhapsody_backend m \<noteq> ''''" "fm_queue m \<noteq> '''' \<and> fm_queue m \<noteq> ''default''" "fm_pilot m \<in> {''submit'', ''endpoint''}"
    "0 \<le> fm_min_pilots m" "fm_min_pilots m \<le> fm_max_pilots m" "1 \<le> fm_max_pilots m"
    "list_all attr_value (map snd (fm_attributes m))"
    "case fm_end_time m of None \<Rightarrow> True | Some f \<Rightarrow> \<not> fle f (Fin 0)"
  shows "shape_ready ((fed_member_post_init m)\<lparr>fm_cls := c\<rparr>)"
  using assms by (auto simp: shape_ready_def fed_member_post_init_def)

lemma member_name_dot_free:
  assumes "validate_member_name v = Inr s"
  shows "CHR ''.'' \<notin> set s"
proof -
  have re: "member_name_re s" using assms by (auto simp: validate_member_name_def validate_str_def split: pyval.splits if_splits)
  have no: "\<not> member_name_char (CHR ''.'')" by code_simp
  have "\<not> lower_alnum (CHR ''.'')" by code_simp
  then have "CHR ''.'' \<notin> set (drop_newline s)"
    using re no by (auto simp: member_name_re_def list_all_iff split: list.splits)
  moreover have "char_nat (CHR ''.'') \<noteq> 10" by code_simp
  ultimately show ?thesis by (cases s rule: rev_cases) (auto simp: drop_newline_def split: if_splits)
qed

lemma declared_member_ready:
  assumes "declared_member pe r v = Inr m"
  shows "shape_ready m" and "budget_valid (fm_budget m) \<and> fm_budget m \<noteq> []" and "CHR ''.'' \<notin> set (fm_member m)"
proof -
  obtain d where d: "v = PDict d" using assms by (cases v) (simp_all add: declared_member_def)
  obtain name queue account backend shared scratch maxp budget pilot nodes cpus gpus wall minp software attributes cls where
    f: "decl_queue d = Inr queue" "decl_backend d = Inr backend"
       "validate_pool_int d ''max_pilots'' (Some 1) 1 (Some MAX_PILOTS_CAP) = Inr maxp"
       "validate_budget True (pget d ''budget'') = Inr budget" "decl_pilot d = Inr pilot"
       "validate_pool_int d ''nodes'' None 1 (Some MAX_NODES_CAP) = Inr nodes"
       "validate_pool_int d ''cpus_per_node'' None 1 (Some MAX_CPUS_CAP) = Inr cpus"
       "validate_pool_int d ''gpus_per_node'' (Some 0) 0 (Some MAX_GPUS_CAP) = Inr gpus"
       "validate_pool_int d ''walltime_sec'' None 1 (Some MAX_WALLTIME_CAP) = Inr wall"
       "validate_pool_int d ''min_pilots'' (Some 0) 0 (Some maxp) = Inr minp"
       "validate_attributes (pget d ''attributes'') = Inr attributes"
       "validate_member_name (pget d ''member'') = Inr name"
    and m: "m = (fed_member_post_init \<lparr>fm_member = name, fm_member_id = '''', fm_cls = '''', fm_pool_name = '''',
        fm_endpoint = fr_endpoint r, fm_pilot = pilot, fm_end_time = None, fm_queue = queue, fm_account = account,
        fm_nodes = nodes, fm_cpus_per_node = cpus, fm_gpus_per_node = gpus, fm_walltime_sec = wall,
        fm_min_pilots = minp, fm_max_pilots = maxp, fm_rhapsody_backend = backend, fm_scratch_base = scratch,
        fm_shared_fs = shared, fm_software = software, fm_attributes = attributes, fm_budget = budget,
        fm_usage = new_usage, fm_liveness = ''ok''\<rparr>)\<lparr>fm_cls := cls\<rparr>"
    using assms d by (auto simp: declared_member_def rbind_eq_Inr Let_def)
  have ints: "1 \<le> maxp" "1 \<le> nodes" "1 \<le> cpus" "0 \<le> gpus" "1 \<le> wall" "0 \<le> minp"
    using f by (auto dest: validate_pool_int_range)
  have "minp \<le> maxp" using validate_pool_int_max [OF f(10)] ints by simp
  then show "shape_ready m"
    unfolding m by (intro shape_ready_intro)
      (use ints f decl_field_ok(1) [OF f(1)] decl_field_ok(2) [OF f(2)] decl_field_ok(3) [OF f(5)]
         validate_attributes_ok [OF f(11)] in simp_all)
  show "budget_valid (fm_budget m) \<and> fm_budget m \<noteq> []"
    using validate_budget_ok [OF f(4)] by (simp add: m fed_member_post_init_def)
  show "CHR ''.'' \<notin> set (fm_member m)"
    using member_name_dot_free [OF f(12)] by (simp add: m fed_member_post_init_def)
qed

lemma resource_attributes_ok:
  "list_all attr_value (map snd caps) \<Longrightarrow>
    list_all attr_value (map snd (resource_attributes site kind (pget caps ''mem_gb'')))"
proof -
  assume "list_all attr_value (map snd caps)"
  then have "pget caps ''mem_gb'' = PNone \<or> attr_value (pget caps ''mem_gb'')"
    by (auto simp: pget_def list_all_iff split: option.splits dest!: map_of_SomeD)
  then show ?thesis by (auto simp: resource_attributes_def attr_value_def)
qed


definition decl_ready :: "pool_decl \<Rightarrow> bool" where
  "decl_ready d \<longleftrightarrow> 1 \<le> ps_nodes (pd_size d) \<and> 1 \<le> ps_cpus_per_node (pd_size d) \<and> 0 \<le> ps_gpus_per_node (pd_size d) \<and>
     1 \<le> ps_walltime_sec (pd_size d) \<and> ps_rhapsody_backend (pd_size d) \<noteq> '''' \<and>
     pd_queue d \<noteq> '''' \<and> pd_queue d \<noteq> ''default'' \<and> pd_pilot d \<in> {''submit'', ''endpoint''} \<and>
     0 \<le> pd_min_pilots d \<and> pd_min_pilots d \<le> pd_max_pilots d \<and> 1 \<le> pd_max_pilots d \<and>
     (case pd_end_time d of None \<Rightarrow> True | Some f \<Rightarrow> \<not> fle f (Fin 0))"

lemma login_pool_ready:
  assumes "login_pool r = Inr p"
  shows "decl_ready p"
proof -
  obtain d queue account backend maxp minp nodes cpus gpus wall where
    f: "decl_queue d = Inr queue" "decl_backend d = Inr backend"
       "validate_pool_int d ''max_pilots'' (Some 1) 1 (Some MAX_PILOTS_CAP) = Inr maxp"
       "validate_pool_int d ''min_pilots'' (Some 0) 0 (Some maxp) = Inr minp"
       "validate_pool_int d ''nodes'' None 1 (Some MAX_NODES_CAP) = Inr nodes"
       "validate_pool_int d ''cpus_per_node'' None 1 (Some MAX_CPUS_CAP) = Inr cpus"
       "validate_pool_int d ''gpus_per_node'' (Some 0) 0 (Some MAX_GPUS_CAP) = Inr gpus"
       "validate_pool_int d ''walltime_sec'' None 1 (Some MAX_WALLTIME_CAP) = Inr wall"
    and p: "p = \<lparr>pd_queue = queue, pd_account = account, pd_pilot = ''submit'', pd_end_time = None,
            pd_min_pilots = minp, pd_max_pilots = maxp,
            pd_size = \<lparr>ps_nodes = nodes, ps_cpus_per_node = cpus, ps_rhapsody_backend = backend,
              ps_gpus_per_node = gpus, ps_walltime_sec = wall\<rparr>\<rparr>"
    using assms by (auto simp: login_pool_def rbind_eq_Inr split: option.splits)
  have ints: "1 \<le> maxp" "1 \<le> nodes" "1 \<le> cpus" "0 \<le> gpus" "1 \<le> wall" "0 \<le> minp"
    using f by (auto dest: validate_pool_int_range)
  moreover have "minp \<le> maxp" using validate_pool_int_max [OF f(4)] ints by simp
  ultimately show ?thesis using decl_field_ok(1) [OF f(1)] decl_field_ok(2) [OF f(2)] by (simp add: decl_ready_def p)
qed

text \<open>A scheduler reports a node count that is not negative.\<close>

definition alloc_sane :: "dict \<Rightarrow> bool" where
  "alloc_sane alloc \<longleftrightarrow> (case fed_int (get_or alloc ''n_nodes'' (PInt 1)) of Inl e \<Rightarrow> True | Inr n \<Rightarrow> 0 \<le> n)"

lemma allocation_walltime_ok:
  assumes "allocation_walltime now runtime e = Inr w" "0 \<le> now"
  shows "1 \<le> w" and "case e of None \<Rightarrow> True | Some f \<Rightarrow> \<not> fle f (Fin 0)"
proof -
  show "1 \<le> w" using assms(1) by (auto simp: allocation_walltime_def rbind_eq_Inr split: option.splits sum.splits if_splits)
  show "case e of None \<Rightarrow> True | Some f \<Rightarrow> \<not> fle f (Fin 0)"
  proof (cases e)
    case (Some f)
    obtain k where k: "int_of_float (fsub f (Fin now)) = Inr k" "0 < k"
      using assms(1) Some by (auto simp: allocation_walltime_def split: sum.splits if_splits)
    obtain q where q: "f = Fin q" using k(1) by (cases f) (simp_all add: fsub_def)
    have "0 < trunc_rat (q - now)" using k q by (simp add: fsub_def)
    then have "0 < q - now" by (auto simp: trunc_rat_def split: if_splits)
    then show ?thesis using assms(2) q Some by simp
  qed simp
qed

lemma allocation_pool_ready:
  assumes "allocation_pool now r alloc = Inr p" "alloc_sane alloc" "0 \<le> now"
  shows "decl_ready p"
proof -
  obtain n cpus gpus e wall where
    f: "fed_int (get_or alloc ''n_nodes'' (PInt 1)) = Inr n" "allocation_walltime now (pget alloc ''runtime'') e = Inr wall"
    and p: "p = \<lparr>pd_queue = ''allocation'', pd_account = None, pd_pilot = ''endpoint'', pd_end_time = e,
          pd_min_pilots = 0, pd_max_pilots = 1,
          pd_size = \<lparr>ps_nodes = or_int n 1, ps_cpus_per_node = max 1 cpus, ps_rhapsody_backend = ''concurrent'',
            ps_gpus_per_node = max 0 gpus, ps_walltime_sec = wall\<rparr>\<rparr>"
    using assms(1) by (auto simp: allocation_pool_def rbind_eq_Inr Let_def)
  have "0 \<le> n" using assms(2) f(1) by (simp add: alloc_sane_def)
  then show ?thesis
    using allocation_walltime_ok [OF f(2) assms(3)] by (simp add: decl_ready_def p or_int_def)
qed

lemma implicit_member_ready:
  assumes "implicit_fed_member r p = Inr m" "decl_ready p" "list_all attr_value (map snd (fr_capabilities r))"
  shows "shape_ready m" and "fm_budget m = fr_budget r" and "fm_member m = ''default''"
proof -
  obtain software where m: "m = (fed_member_post_init
          \<lparr>fm_member = ''default'', fm_member_id = '''', fm_cls = '''', fm_pool_name = '''', fm_endpoint = fr_endpoint r,
           fm_pilot = pd_pilot p, fm_end_time = pd_end_time p, fm_queue = pd_queue p, fm_account = pd_account p,
           fm_nodes = ps_nodes (pd_size p), fm_cpus_per_node = ps_cpus_per_node (pd_size p),
           fm_gpus_per_node = ps_gpus_per_node (pd_size p), fm_walltime_sec = ps_walltime_sec (pd_size p),
           fm_min_pilots = pd_min_pilots p, fm_max_pilots = pd_max_pilots p,
           fm_rhapsody_backend = ps_rhapsody_backend (pd_size p), fm_scratch_base = fr_scratch_base r,
           fm_shared_fs = fr_shared_fs r, fm_software = software,
           fm_attributes = resource_attributes (fr_site r) (fr_kind r) (capability r ''mem_gb''),
           fm_budget = fr_budget r, fm_usage = new_usage, fm_liveness = ''ok''\<rparr>)\<lparr>fm_cls := fm_cls m\<rparr>"
    using assms(1) by (auto simp: implicit_fed_member_def rbind_eq_Inr Let_def fed_member_post_init_def)
  have "list_all attr_value (map snd (resource_attributes (fr_site r) (fr_kind r) (capability r ''mem_gb'')))"
    using resource_attributes_ok [OF assms(3)] by (simp add: capability_def)
  then show "shape_ready m"
    by (subst m, intro shape_ready_intro) (use assms(2) in \<open>auto simp: decl_ready_def\<close>)
  show "fm_budget m = fr_budget r" "fm_member m = ''default''" by (subst m, simp add: fed_member_post_init_def)+
qed


definition record_valid :: "resource_record \<Rightarrow> bool" where
  "record_valid r \<longleftrightarrow> fr_endpoint r \<noteq> '''' \<and> budget_valid (fr_budget r) \<and> list_all attr_value (map snd (fr_capabilities r))"

lemma declared_members_ready:
  assumes "declared_members pe r vs seen = Inr ms"
  shows "\<forall>m \<in> set ms. shape_ready m \<and> budget_valid (fm_budget m) \<and> CHR ''.'' \<notin> set (fm_member m)" and "distinct (map fm_member ms)"
    and "set (map fm_member ms) \<inter> set seen = {}"
proof -
  have "(\<forall>m \<in> set ms. shape_ready m \<and> budget_valid (fm_budget m) \<and> CHR ''.'' \<notin> set (fm_member m)) \<and>
      distinct (map fm_member ms) \<and>
      set (map fm_member ms) \<inter> set seen = {}"
    using assms
  proof (induction vs arbitrary: seen ms)
    case (Cons v vs)
    then obtain m rest where m: "declared_member pe r v = Inr m" "fm_member m \<notin> set seen"
        "declared_members pe r vs (fm_member m # seen) = Inr rest" "ms = m # rest"
      by (auto simp: rbind_eq_Inr split: if_splits)
    then show ?case using declared_member_ready [OF m(1)] Cons.IH [OF m(3)] by auto
  qed simp
  then show "\<forall>m \<in> set ms. shape_ready m \<and> budget_valid (fm_budget m) \<and> CHR ''.'' \<notin> set (fm_member m)" "distinct (map fm_member ms)"
    "set (map fm_member ms) \<inter> set seen = {}" by blast+
qed

lemma build_members_ready:
  assumes "build_members pe now alloc r body = Inr ms" "record_valid r" "alloc_sane alloc" "0 \<le> now"
  shows "(\<forall>m \<in> set ms. shape_ready m \<and> budget_valid (fm_budget m) \<and> CHR ''.'' \<notin> set (fm_member m)) \<and>
    distinct (map fm_member ms)"
proof (cases "pget body ''members''")
  case PNone
  then obtain p m where p: "(if fr_mode r = ''allocation'' then allocation_pool now r alloc else login_pool r) = Inr p"
      "implicit_fed_member r p = Inr m" "ms = [m]"
    using assms(1) by (auto simp: build_members_def rbind_eq_Inr)
  have "decl_ready p" using p(1) allocation_pool_ready [OF _ assms(3,4)] login_pool_ready by (auto split: if_splits)
  then show ?thesis using implicit_member_ready [OF p(2)] assms(2) p(3) by (simp add: record_valid_def)
next
  case (PList vs)
  then have "declared_members pe r vs [] = Inr ms"
    using assms(1) by (auto simp: build_members_def split: list.splits if_splits)
  then show ?thesis using declared_members_ready(1,2) by blast
qed (use assms(1) in \<open>simp_all add: build_members_def\<close>)

lemma round_half_even_ge: "\<lfloor>r\<rfloor> \<le> round_half_even r"
  by (simp add: round_half_even_def Let_def)

lemma derived_budget_pos:
  assumes "1 \<le> n * w" "py_float (PInt (n * w)) = Inr f"
  shows "\<not> fle (round4 (fdiv f (Fin 3600))) (Fin 0)"
proof -
  have f: "f = Fin (of_int (n * w))" using assms(2) by (auto split: if_splits)
  have "(2::rat) \<le> of_int (n * w) / 3600 * 10000"
  proof -
    have "(1::rat) \<le> of_int (n * w)" using assms(1) by (metis of_int_1_le_iff)
    then show ?thesis by simp
  qed
  then have "2 \<le> \<lfloor>(of_int (n * w) / 3600 * 10000 :: rat)\<rfloor>" by linarith
  then have "2 \<le> round_half_even (of_int (n * w) / 3600 * 10000)" using round_half_even_ge order_trans by blast
  then show ?thesis by (simp add: f)
qed

lemma budget_node_hours:
  "fm_budget m = [] \<Longrightarrow> member_node_hours m = Inr (Fin 0)"
  "budget_ready m h \<Longrightarrow> member_node_hours m = Inr h \<and> ftruthy h"
  by (auto simp: member_node_hours_def dict_node_hours_def get_or_def pget_def budget_ready_def ftruthy_def Let_def)

lemma or_raise_eq: "or_raise x = Inr v \<longleftrightarrow> x = Inr v"
  by (cases x) (simp_all add: or_raise_def)

lemma complete_budget_ready:
  assumes "complete_budget m = Inr b" "shape_ready m" "budget_valid (fm_budget m)"
  shows "\<exists>h. b = [(''node_hours'', PFloat h)] \<and> \<not> fle h (Fin 0)"
proof (cases "fm_budget m = []")
  case True
  have pos: "1 \<le> fm_nodes m * fm_walltime_sec m"
    using assms(2) mult_mono [of 1 "fm_nodes m" 1 "fm_walltime_sec m"] by (simp add: shape_ready_def)
  obtain ns where "py_float (PInt (fm_nodes m * fm_walltime_sec m)) = Inr ns"
      "b = [(''node_hours'', PFloat (round4 (fdiv ns (Fin 3600))))]"
    using assms(1) budget_node_hours(1) [OF True] by (auto simp: complete_budget_def or_raise_eq rbind_eq_Inr ftruthy_def)
  then show ?thesis using derived_budget_pos [OF pos] by auto
next
  case False
  then obtain h where h: "budget_ready m h" using assms(3) by (auto simp: budget_valid_def budget_ready_def)
  then have "b = fm_budget m" using budget_node_hours(2) [OF h] assms(1) by (simp add: complete_budget_def or_raise_def)
  then show ?thesis using h by (auto simp: budget_ready_def)
qed

lemma complete_member_ready:
  assumes "complete_member r m = Inr m'" "shape_ready m" "budget_valid (fm_budget m)"
  shows "shape_ready m'" and "\<exists>h. budget_ready m' h" and "fm_member m' = fm_member m"
    and "fm_member_id m' = make_member_id (fr_name r) (fm_member m)" and "fm_pool_name m' = pool_name_for_class (fm_cls m')"
    and "length (fm_pool_name m') + length (fm_member_id m') \<le> MAX_POOL_MEMBER_NAME_LEN"
proof -
  obtain budget left where c: "complete_budget m = Inr budget"
    and m': "m' = m\<lparr>fm_budget := budget, fm_member_id := make_member_id (fr_name r) (fm_member m),
        fm_pool_name := pool_name_for_class (fm_cls m), fm_liveness := fr_liveness r,
        fm_usage := (fm_usage m)\<lparr>u_node_hours_remaining := left\<rparr>\<rparr>"
    and len: "\<not> MAX_POOL_MEMBER_NAME_LEN < length (fm_pool_name m') + length (fm_member_id m')"
    using assms(1) by (auto simp: complete_member_def rbind_eq_Inr Let_def split: if_splits)
  show "shape_ready m'" using assms(2) by (auto simp: m' shape_ready_def fed_post_init_iff)
  show "\<exists>h. budget_ready m' h" using complete_budget_ready [OF c assms(2,3)] by (auto simp: budget_ready_def m')
  show "fm_member m' = fm_member m" "fm_member_id m' = make_member_id (fr_name r) (fm_member m)"
    "fm_pool_name m' = pool_name_for_class (fm_cls m')" by (simp_all add: m')
  show "length (fm_pool_name m') + length (fm_member_id m') \<le> MAX_POOL_MEMBER_NAME_LEN" using len by simp
qed


lemma validate_join_valid: "validate_join je body = Inr r \<Longrightarrow> record_valid r"
  by (auto simp: validate_join_def rbind_eq_Inr Let_def record_valid_def validate_budget_ok(1) validate_capabilities_ok
      split: pyval.splits if_splits)

lemma dset_values_ok: "list_all P (map snd d) \<Longrightarrow> P v \<Longrightarrow> list_all P (map snd (dset k v d))"
  by (induction d) auto

lemma discover_capabilities_ok:
  assumes "discover_capabilities metrics caps = Inr out" "list_all attr_value (map snd caps)"
  shows "list_all attr_value (map snd out)"
proof -
  have num: "list_all attr_value (map snd c) \<Longrightarrow> list_all attr_value (map snd (dset k (PInt i) c))"
      "list_all attr_value (map snd c) \<Longrightarrow> list_all attr_value (map snd (dset k (PFloat f) c))" for c k i f
    by (auto intro!: dset_values_ok simp: attr_value_def)
  have 1: "list_all attr_value (map snd c1)" if "fill_cores cpu caps = Inr c1" for cpu c1
    using that assms(2) num(1) by (auto simp: fill_cores_def Let_def rbind_eq_Inr split: if_splits)
  have 2: "list_all attr_value (map snd (fill_gpus d c))" if "list_all attr_value (map snd c)" for d c
    using that num(1) by (auto simp: fill_gpus_def split: pyval.splits)
  have 3: "list_all attr_value (map snd c')" if "fill_mem mem c = Inr c'" "list_all attr_value (map snd c)" for mem c c'
    using that num(2) by (auto simp: fill_mem_def rbind_eq_Inr split: if_splits)
  show ?thesis using assms(1) 1 2 3 assms(2)
    by (auto simp: discover_capabilities_def rbind_eq_Inr split: if_splits pyval.splits)
qed

lemma aggregate_sel:
  "aggregate r = Inr r' \<Longrightarrow> fr_members r' = fr_members r \<and> fr_endpoint r' = fr_endpoint r \<and> fr_name r' = fr_name r"
  by (auto simp: aggregate_def Let_def rbind_eq_Inr split: if_splits)

lemma dvalues_fold_dset: "set (dvalues (fold (\<lambda>m d. dset (key m) m d) ms acc)) \<subseteq> set (dvalues acc) \<union> set ms"
proof (induction ms arbitrary: acc)
  case (Cons m ms)
  have "set (dvalues (dset (key m) m acc)) \<subseteq> insert m (set (dvalues acc))" by (rule dvalues_dset_subset)
  then show ?case using Cons.IH [of "dset (key m) m acc"] by (simp add: subset_iff) blast
qed simp

lemma finish_join_members:
  assumes "finish_join je body r = Inr r'" "record_valid r" "alloc_sane (je_alloc je)" "0 \<le> je_now je" "m \<in> set (member_list r')"
  shows "\<exists>m0. complete_member (r\<lparr>fr_capabilities := caps\<rparr>) m0 = complete_member r m0 \<and> complete_member r m0 = Inr m \<and>
      shape_ready m0 \<and> budget_valid (fm_budget m0) \<and> CHR ''.'' \<notin> set (fm_member m0)"
    and "fr_endpoint r' = fr_endpoint r" and "fr_name r' = fr_name r"
proof -
  obtain cs ms where f: "discover_capabilities (je_metrics je) (fr_capabilities r) = Inr cs"
      "build_members (je_path je) (je_now je) (je_alloc je) (r\<lparr>fr_capabilities := cs\<rparr>) body = Inr ms"
      "complete_record (r\<lparr>fr_capabilities := cs\<rparr>) ms = Inr r'"
    using assms(1) by (auto simp: finish_join_def rbind_eq_Inr Let_def)
  have caps: "complete_member (r\<lparr>fr_capabilities := c\<rparr>) = complete_member r" for c
    by (rule ext) (simp add: complete_member_def)
  have valid: "record_valid (r\<lparr>fr_capabilities := cs\<rparr>)"
    using assms(2) discover_capabilities_ok [OF f(1)] by (simp add: record_valid_def)
  note ready = build_members_ready [OF f(2) valid assms(3,4)]
  obtain ms1 r1 where c: "rmap_list (complete_member r) ms = Inr ms1"
      "aggregate (r\<lparr>fr_capabilities := cs, fr_members := fold (\<lambda>m d. dset (fm_member m) m d) ms1 []\<rparr>) = Inr r1"
      "fr_members r' = fr_members r1" "fr_endpoint r' = fr_endpoint r1" "fr_name r' = fr_name r1"
    using f(3) by (auto simp: complete_record_def rbind_eq_Inr or_raise_eq caps)
  have "m \<in> set ms1"
    using assms(5) dvalues_fold_dset [of fm_member ms1 "[]"] aggregate_sel [OF c(2)] c(3) by (auto simp: member_list_def)
  then obtain m0 where "m0 \<in> set ms" "complete_member r m0 = Inr m" using rmap_list_set [OF c(1)] by auto
  then show "\<exists>m0. complete_member (r\<lparr>fr_capabilities := caps\<rparr>) m0 = complete_member r m0 \<and> complete_member r m0 = Inr m \<and>
      shape_ready m0 \<and> budget_valid (fm_budget m0) \<and> CHR ''.'' \<notin> set (fm_member m0)"
    using ready caps by (intro exI [of _ m0]) simp
  show "fr_endpoint r' = fr_endpoint r" "fr_name r' = fr_name r" using aggregate_sel [OF c(2)] c(4,5) by simp_all
qed

lemma split_make_member_id: "CHR ''.'' \<notin> set member \<Longrightarrow> split_member_id (make_member_id name member) = (name, member)"
  by (simp add: split_member_id_def make_member_id_def Let_def takeWhile_append dropWhile_append)

text \<open>Federation and dispatcher match a task against the same attributes and the same pilot size; the node hours the
  federation keeps for itself are not read by the matcher.\<close>

lemma satisfies_forward:
  assumes "satisfies (Some req) a s = Inr None"
  shows "satisfies (Some (forward_requirements req)) a s = Inr None"
proof (cases "forward_requirements req = []")
  case False
  let ?f = "forward_requirements req"
  have p: "pget ?f k = pget req k" if "k \<noteq> ''node_hours''" for k
    using that by (induction req) (auto simp: forward_requirements_def pget_def)
  then have g: "get_or ?f k d = get_or req k d" if "k \<noteq> ''node_hours''" for k d
    using that by (simp add: get_or_def)
  have "check_software ?f b = check_software req b" "check_cores ?f s = check_cores req s"
      "check_gpus ?f s = check_gpus req s" "check_mem ?f b = check_mem req b" "check_labels ?f b = check_labels req b"
      "check_mpi ?f s = check_mpi req s" for b
    by (simp_all add: check_software_def check_cores_def check_gpus_def check_mem_def check_labels_def check_mpi_def p g split: option.split)
  moreover have "req \<noteq> []" using False by (auto simp: forward_requirements_def)
  ultimately show ?thesis using assms False by (simp add: satisfies_def Let_def)
qed (simp add: satisfies_def)


section \<open>Properties\<close>

text \<open>C20. What a join builds is what the dispatcher accepts: every member of a validated join, declared or derived
  from a pool block or an allocation, is parsed by the dispatcher's own member parser without error whenever its id
  has the dispatcher's charset.  The id splits back into resource and member, the pilot bounds are the declared ones,
  and a task the federation finds fitting for the member is one the dispatcher's matcher accepts for it, on the
  requirements the federation forwards.\<close>

theorem joined_member_accepted:
  assumes "validate_join je body = Inr r0" and "finish_join je body r0 = Inr r"
    and "alloc_sane (je_alloc je)" and "0 \<le> je_now je"
    and "m \<in> set (member_list r)" and "member_re (fm_member_id m)"
  shows "\<exists>pm. parse_member (fm_pool_name m) (PDict (member_decl r m)) = Inr pm \<and>
    fm_pool_name m = pool_name_for_class (fm_cls m) \<and> pm_member_id pm = fm_member_id m \<and>
    split_member_id (pm_member_id pm) = (fr_name r, fm_member m) \<and>
    pm_min_pilots pm = fm_min_pilots m \<and> pm_max_pilots pm = fm_max_pilots m \<and>
    (\<forall>now req. fed_reject_reason now req m = Inr None \<longrightarrow> reject_reason pm (Some (forward_requirements req)) = Inr None)"
proof -
  note valid = validate_join_valid [OF assms(1)]
  note fin = finish_join_members [OF assms(2) valid assms(3,4,5)]
  obtain m0 where m0: "complete_member r0 m0 = Inr m" "shape_ready m0" "budget_valid (fm_budget m0)"
      "CHR ''.'' \<notin> set (fm_member m0)" using fin(1) by blast
  note done0 = complete_member_ready [OF m0(1-3)]
  obtain h where h: "budget_ready m h" using done0(2) by blast
  let ?pm = "fed_pool_member r m h"
  have parsed: "parse_member (fm_pool_name m) (PDict (member_decl r m)) = Inr ?pm"
    using valid fin(2) by (intro member_decl_accepted [OF done0(1) h _ assms(6) done0(6)]) (simp add: record_valid_def)
  have "split_member_id (fm_member_id m) = (fr_name r, fm_member m)"
    using split_make_member_id [OF m0(4)] done0(3,4) fin(3) by simp
  moreover have "reject_reason ?pm (Some (forward_requirements req)) = Inr None"
    if "fed_reject_reason now req m = Inr None" for now req
  proof -
    have "satisfies (Some req) (Some (match_attributes m)) (Some (size_shape (fed_pilot_size m))) = Inr None"
      using that by (auto simp: fed_reject_reason_def rbind_eq_Inr split: if_splits option.splits)
    then show ?thesis using satisfies_forward by (simp add: reject_reason_def fed_pool_member_def)
  qed
  ultimately show ?thesis using parsed done0(5) by (auto simp: fed_pool_member_def)
qed

text \<open>A resource name may start with a separator, which the dispatcher refuses as the start of a member id.\<close>

lemma separator_name_refused:
  "validate_name (PStr ''-r'') = Inr ''-r'' \<and>
   parse_member_id ''fed-cpu'' (PStr (make_member_id ''-r'' ''default'')) = Inl (BadField ''member_id'')"
  by code_simp

definition demo_join_env :: join_env where
  "demo_join_env = \<lparr>je_path = \<lparr>pe_expanduser = \<lambda>p. p, pe_realpath = \<lambda>p. p, pe_bases = [''/tmp'']\<rparr>,
     je_str = \<lambda>_. '''', je_scratch = \<lambda>n. ''/tmp/'' @ n, je_metrics = PNone,
     je_alloc = [(''n_nodes'', PInt 2), (''cpus_per_node'', PInt 16), (''end_time'', PFloat (Fin 7300))],
     je_now = 100, je_liveness = ''ok''\<rparr>"

definition demo_join_body :: dict where
  "demo_join_body = [(''name'', PStr ''anl.polaris''), (''endpoint'', PStr ''ep1''), (''site'', PStr ''anl'')]"

definition demo_joined :: resource_record where
  "demo_joined = (case validate_join demo_join_env demo_join_body of Inl e \<Rightarrow> undefined
     | Inr r \<Rightarrow> (case finish_join demo_join_env demo_join_body r of Inl e \<Rightarrow> undefined | Inr r' \<Rightarrow> r'))"

theorem joined_member_accepted_witness:
  "\<exists>m pm. member_list demo_joined = [m] \<and> parse_member ''fed-cpu'' (PDict (member_decl demo_joined m)) = Inr pm \<and>
     pm_member_id pm = ''anl.polaris.default'' \<and> split_member_id (pm_member_id pm) = (''anl.polaris'', ''default'')"
proof -
  have ok: "case validate_join demo_join_env demo_join_body of Inl e \<Rightarrow> False
     | Inr r \<Rightarrow> (case finish_join demo_join_env demo_join_body r of Inl e \<Rightarrow> False | Inr r' \<Rightarrow> True)" by code_simp
  then obtain r0 where r0: "validate_join demo_join_env demo_join_body = Inr r0"
      "finish_join demo_join_env demo_join_body r0 = Inr demo_joined"
    by (auto simp: demo_joined_def split: sum.splits)
  have sel: "map fm_member_id (member_list demo_joined) = [''anl.polaris.default'']"
      "map fm_pool_name (member_list demo_joined) = [''fed-cpu'']" "map fm_member (member_list demo_joined) = [''default'']"
      "fr_name demo_joined = ''anl.polaris''" "alloc_sane (je_alloc demo_join_env)" "member_re ''anl.polaris.default''"
    by code_simp+
  then obtain m where m: "member_list demo_joined = [m]" by (cases "member_list demo_joined") auto
  have "0 \<le> je_now demo_join_env" by (simp add: demo_join_env_def)
  from joined_member_accepted [OF r0 sel(5) this, of m] show ?thesis using m sel by auto
qed

end
