(* ===== verification/Dispatcher_Session.thy ===== *)
theory Dispatcher_Session
  imports Dispatcher_Members
begin

text \<open>
  The pools of all sessions of the dispatcher (\<^verbatim>\<open>plugin_task_dispatcher.py\<close>): declaring pools with a session, looking a
  pool up under its session, and the member routes on it.  The interface a client of class pools relies on is the
  locale \<open>class_pools\<close>, which the routes are shown to implement.
\<close>

section \<open>The configuration of a pool at run time\<close>

text \<open>Only the member routes change it.\<close>

definition same_config :: "(pool_state \<Rightarrow> pool_state out) \<Rightarrow> bool" where
  "same_config f \<longleftrightarrow> (\<forall>ps. pl_config (fst (f ps)) = pl_config ps)"

lemma same_configD: "same_config f \<Longrightarrow> pl_config (fst (f ps)) = pl_config ps"
  by (simp add: same_config_def)

lemma upd_config [simp]:
  "pl_config (upd_task tid f ps) = pl_config ps" "pl_config (upd_pilot pid g ps) = pl_config ps"
  "pl_config (drop_spool tid ps) = pl_config ps" "pl_config (free_slot p ps) = pl_config ps"
  by (simp_all add: upd_task_def upd_pilot_def drop_spool_def free_slot_def split: option.splits)

lemma seq_each_config: "(\<And>x. same_config (f x)) \<Longrightarrow> same_config (seq_each f xs)"
  unfolding same_config_def
proof (induction xs)
  case (Cons x xs)
  then show ?case by (simp add: split_beta)
qed simp

lemma mark_task_failed_config: "same_config (mark_task_failed h tid reason)"
  by (simp add: same_config_def mark_task_failed_def Let_def split: option.splits)

lemma reclaim_task_config: "same_config (reclaim_task h pid tid)"
  using mark_task_failed_config unfolding same_config_def
  by (auto simp: reclaim_task_def Let_def split_beta split: option.splits)

lemma finalize_pilot_config: "same_config (finalize_pilot h pid new reason)"
proof -
  have "same_config (seq_each (reclaim_task h pid) xs)" for xs by (rule seq_each_config) (rule reclaim_task_config)
  then show ?thesis by (simp add: same_config_def finalize_pilot_def Let_def split_beta split: option.splits)
qed

lemma claim_config: "pl_config (fst (snd (claim h t p ps))) = pl_config ps"
  using same_configD [OF mark_task_failed_config] by (simp add: claim_def Let_def split: option.splits)

lemma drain_loop_config: "pl_config (fst (snd (drain_loop h n assigned ps))) = pl_config ps"
proof (induction n arbitrary: assigned ps)
  case (Suc n)
  show ?case by (auto simp: split_beta claim_config Suc.IH split: sum.split option.split)
qed simp

lemma drain_pending_config: "same_config (drain_pending h)"
  by (simp add: same_config_def drain_pending_def split_beta drain_loop_config)

lemma pilot_cancel_begin_config: "same_config (pilot_cancel_begin h known pid)"
  using same_configD [OF finalize_pilot_config]
  by (auto simp: same_config_def pilot_cancel_begin_def mark_pilot_done_def mark_pilot_failed_def split_beta split: option.splits)

lemma sweep_config: "pl_config (fst (snd (sweep_unsatisfiable h ms tids ps))) = pl_config ps"
proof (induction tids arbitrary: ps)
  case (Cons tid tids)
  show ?case
    by (auto simp: split_beta Cons.IH same_configD [OF mark_task_failed_config] split: option.split sum.split)
qed simp

lemma pause_pilots_config: "pl_config (pause_pilots pids ps) = pl_config ps"
  by (induction pids arbitrary: ps) (simp_all add: pause_pilots_def)

lemma fail_live_config: "same_config (fail_live h reason tid)"
  by (auto simp: same_config_def fail_live_def same_configD [OF mark_task_failed_config] split: option.splits)

lemma remove_member_sync_config: "pl_config (fst (remove_member_sync h mid fl ps)) = pl_config (forget_member mid ps)"
proof -
  have "same_config (seq_each (fail_live h reason) xs)" for reason xs by (rule seq_each_config) (rule fail_live_config)
  from same_configD [OF this] show ?thesis
    by (simp add: remove_member_sync_def Let_def split_beta forget_member_def set_members_def pause_pilots_config)
qed

lemma remove_member_finish_config:
  "pl_config (fst (snd (remove_member_finish h mid fail_unsat live touched ps))) = pl_config ps"
  by (auto simp: remove_member_finish_def split_beta sweep_config same_configD [OF drain_pending_config] split: sum.splits)

text \<open>A removal that is accepted drops the member and leaves the rest of the configuration's members alone; a refused
  one changes nothing.\<close>

lemma remove_member_members:
  "remove_member h uids mid body ps = (Inr (), ps', fx) \<Longrightarrow> pc_members (pl_config ps') = dpop mid (pc_members (pl_config ps))"
  by (auto simp: remove_member_def Let_def split_beta remove_member_finish_config remove_member_next_def
      same_configD [OF pilot_cancel_begin_config] remove_member_sync_config forget_member_def set_members_def
      split: if_splits list.splits)

lemma remove_member_refused: "remove_member h uids mid body ps = (Inl e, ps', fx) \<Longrightarrow> ps' = ps"
  by (auto simp: remove_member_def Let_def split_beta split: if_splits)

lemma remove_member_multi:
  "pc_multi_member (pl_config (fst (snd (remove_member h uids mid body ps)))) = pc_multi_member (pl_config ps)"
  by (auto simp: remove_member_def Let_def split_beta remove_member_finish_config remove_member_next_def
      same_configD [OF pilot_cancel_begin_config] remove_member_sync_config forget_member_def set_members_def
      split: list.splits)


section \<open>Sessions and their pools\<close>

text \<open>The state directory of a pool and the scratch root are read through \<open>se_payload\<close> and \<open>se_scratch\<close>;
  \<open>se_pick\<close> is the endpoint a single-member pool without one is bound to.\<close>

record session_env =
  se_custom :: "string \<Rightarrow> dict \<Rightarrow> bool"
  se_reg :: registry
  se_scratch :: "pool_config \<Rightarrow> string"
  se_payload :: "string \<Rightarrow> pool_config \<Rightarrow> pyval"
  se_pick :: "string option"
  se_queue :: string

record dispatcher =
  dp_sessions :: "string list"
  dp_pools :: "(string \<times> (string \<times> pool_state) list) list"

definition pools_for :: "string \<Rightarrow> dispatcher \<Rightarrow> (string \<times> pool_state) list" where
  "pools_for sid d = (case dget (dp_pools d) sid of None \<Rightarrow> [] | Some ps \<Rightarrow> ps)"

definition find_pool :: "string \<Rightarrow> string \<Rightarrow> dispatcher \<Rightarrow> pool_state option" where
  "find_pool sid name d = dget (pools_for sid d) name"

definition put_pool :: "string \<Rightarrow> string \<Rightarrow> pool_state \<Rightarrow> dispatcher \<Rightarrow> dispatcher" where
  "put_pool sid name ps d = d\<lparr>dp_pools := dset sid (dset name ps (pools_for sid d)) (dp_pools d)\<rparr>"

lemma find_put [simp]:
  "find_pool sid name (put_pool sid' name' ps d) = (if sid = sid' \<and> name = name' then Some ps else find_pool sid name d)"
  by (simp add: find_pool_def put_pool_def pools_for_def)

datatype route_error =
    BadPools
  | BadPool config_error
  | PoolLoad load_error
  | NoSession
  | NoPool
  | MemberRoute member_error

fun route_status :: "route_error \<Rightarrow> nat" where
  "route_status BadPools = 400"
| "route_status (BadPool (Raised e)) = 500"
| "route_status (BadPool e) = 400"
| "route_status (PoolLoad e) = 500"
| "route_status NoSession = 404"
| "route_status NoPool = 404"
| "route_status (MemberRoute e) = member_status e"

definition materialise_pool :: "session_env \<Rightarrow> string \<Rightarrow> pool_config \<Rightarrow> dispatcher \<Rightarrow> route_error + dispatcher" where
  "materialise_pool env sid cfg d =
    (let cfg1 = (if pc_endpoint_name cfg = None \<and> \<not> pc_multi_member cfg
                 then (case se_pick env of None \<Rightarrow> cfg | Some e \<Rightarrow> if e = '''' then cfg else bind_endpoint e cfg) else cfg)
     in case find_pool sid (pc_name cfg1) d of
          Some ps \<Rightarrow> Inr d
        | None \<Rightarrow> (case new_pool_state (se_custom env) (se_reg env) cfg1 (se_scratch env cfg1) sid (se_payload env sid cfg1) of
             Inl e \<Rightarrow> Inl (PoolLoad e)
           | Inr ps \<Rightarrow> Inr (put_pool sid (pc_name cfg1) ps d)))"

fun materialise_all :: "session_env \<Rightarrow> string \<Rightarrow> pool_config list \<Rightarrow> dispatcher \<Rightarrow> (route_error + unit) \<times> dispatcher" where
  "materialise_all env sid [] d = (Inr (), d)"
| "materialise_all env sid (c # cs) d = (case materialise_pool env sid c d of
     Inl e \<Rightarrow> (Inl e, d) | Inr d1 \<Rightarrow> materialise_all env sid cs d1)"

text \<open>Declarations are parsed before the session exists; without any, a session without pools gets a default one.\<close>

definition declared_pools :: "session_env \<Rightarrow> pyval \<Rightarrow> route_error + pool_config list" where
  "declared_pools env v =
    (let parse = (\<lambda>w. case parse_pools (se_custom env) (se_reg env) False w of
           Inl e \<Rightarrow> Inl (BadPool e) | Inr cfgs \<Rightarrow> Inr (dvalues cfgs))
     in case v of
          PNone \<Rightarrow> Inr []
        | PList vs \<Rightarrow> parse (PDict [(''pools'', PList vs)])
        | PDict d \<Rightarrow> if dhas d ''pools'' then parse v else Inl BadPools
        | _ \<Rightarrow> Inl BadPools)"

definition open_session :: "string \<Rightarrow> dispatcher \<Rightarrow> dispatcher" where
  "open_session sid d = d\<lparr>dp_sessions := (if sid \<in> set (dp_sessions d) then dp_sessions d else dp_sessions d @ [sid])\<rparr>"

definition register_session :: "session_env \<Rightarrow> string \<Rightarrow> dict \<Rightarrow> dispatcher \<Rightarrow> (route_error + unit) \<times> dispatcher" where
  "register_session env sid body d =
    (case declared_pools env (pget body ''pools'') of
       Inl e \<Rightarrow> (Inl e, d)
     | Inr cfgs \<Rightarrow>
        let d1 = open_session sid d in
        if cfgs \<noteq> [] then materialise_all env sid cfgs d1
        else if pget body ''pools'' = PNone \<and> pools_for sid d1 = []
             then materialise_all env sid [default_pool_config (se_queue env)] d1
        else (Inr (), d1))"

section \<open>The member routes\<close>

definition route_add_member :: "string \<Rightarrow> string \<Rightarrow> pyval \<Rightarrow> dispatcher \<Rightarrow> (route_error + member_ack) \<times> dispatcher out" where
  "route_add_member sid name body d =
    (if sid \<notin> set (dp_sessions d) then (Inl NoSession, d, [])
     else case find_pool sid name d of
       None \<Rightarrow> (Inl NoPool, d, [])
     | Some ps \<Rightarrow> (case add_member name body ps of
          (Inl e, ps1, fx) \<Rightarrow> (Inl (MemberRoute e), d, fx)
        | (Inr ack, ps1, fx) \<Rightarrow> (Inr ack, put_pool sid name ps1 d, fx)))"

definition route_remove_member :: "host \<Rightarrow> string list \<Rightarrow> string \<Rightarrow> string \<Rightarrow> string \<Rightarrow> pyval \<Rightarrow> dispatcher \<Rightarrow>
    (route_error + unit) \<times> dispatcher out" where
  "route_remove_member h uids sid name mid body d =
    (if sid \<notin> set (dp_sessions d) then (Inl NoSession, d, [])
     else case find_pool sid name d of
       None \<Rightarrow> (Inl NoPool, d, [])
     | Some ps \<Rightarrow> (case remove_member h uids mid body ps of
          (Inl e, ps1, fx) \<Rightarrow> (Inl (MemberRoute e), d, fx)
        | (Inr u, ps1, fx) \<Rightarrow> (Inr u, put_pool sid name ps1 d, fx)))"

definition listed_members :: "string \<Rightarrow> dispatcher \<Rightarrow> (string \<times> string) set" where
  "listed_members sid d = {(name, mid). \<exists>ps. find_pool sid name d = Some ps \<and> dhas (pc_members (pl_config ps)) mid}"

lemma materialise_pool_listed:
  "materialise_pool env sid cfg d = Inr d' \<Longrightarrow> listed_members sid' d \<subseteq> listed_members sid' d'"
  by (auto simp: materialise_pool_def Let_def listed_members_def split: option.splits sum.splits)

lemma materialise_all_listed: "listed_members sid' d \<subseteq> listed_members sid' (snd (materialise_all env sid cfgs d))"
proof (induction cfgs arbitrary: d)
  case (Cons c cfgs)
  then show ?case using materialise_pool_listed [of env sid c d _ sid'] by (fastforce split: sum.splits)
qed simp

lemma register_session_listed: "listed_members sid' d \<subseteq> listed_members sid' (snd (register_session env sid body d))"
proof -
  have "listed_members sid' (open_session sid d) = listed_members sid' d"
    by (simp add: listed_members_def open_session_def find_pool_def pools_for_def)
  then show ?thesis using materialise_all_listed [of sid' "open_session sid d"]
    by (auto simp: register_session_def Let_def simp del: materialise_all.simps split: sum.splits)
qed

lemma add_member_members:
  assumes "add_member name body ps = (Inr ack, ps', fx)"
  shows "dom (map_of (pc_members (pl_config ps'))) =
    insert (pm_member_id (ma_member ack)) (dom (map_of (pc_members (pl_config ps))))"
  using assms
  by (auto simp: add_member_def store_member_def Let_def set_members_def same_declaration_def dom_def
      split: if_splits pyval.splits sum.splits option.splits)

lemma add_member_id:
  assumes "add_member name (PDict d) ps = (Inr ack, ps', fx)"
  shows "pget d ''member_id'' = PStr (pm_member_id (ma_member ack))"
proof -
  have id: "pget d ''member_id'' = PStr (pm_member_id m)" if "parse_member name (PDict d) = Inr m" for m
    using that by (auto simp: parse_member_def result_simps parse_eqs)
  show ?thesis using assms id
    by (auto simp: add_member_def store_member_def Let_def same_declaration_def
        split: if_splits sum.splits option.splits)
qed

lemma listed_put:
  assumes "find_pool sid name d = Some ps" "\<And>k. dhas (pc_members (pl_config ps1)) k \<longleftrightarrow> k \<in> ks"
  shows "listed_members sid (put_pool sid name ps1 d) = {(n, k) \<in> listed_members sid d. n \<noteq> name} \<union> {name} \<times> ks"
  using assms(2) by (auto simp: listed_members_def split: if_splits)

lemma listed_split:
  assumes "find_pool sid name d = Some ps"
  shows "listed_members sid d = {(n, k) \<in> listed_members sid d. n \<noteq> name} \<union> {name} \<times> {k. dhas (pc_members (pl_config ps)) k}"
  using assms by (auto simp: listed_members_def)

lemma route_add_listed:
  assumes "route_add_member sid name (PDict b) d = (Inr ack, d', fx)" "pget b ''member_id'' = PStr mid"
  shows "listed_members sid d' = insert (name, mid) (listed_members sid d)"
proof -
  obtain ps ps1 where p: "find_pool sid name d = Some ps" "add_member name (PDict b) ps = (Inr ack, ps1, fx)"
      "d' = put_pool sid name ps1 d"
    using assms(1) by (auto simp: route_add_member_def split: if_splits option.splits sum.splits prod.splits)
  have "pm_member_id (ma_member ack) = mid" using add_member_id [OF p(2)] assms(2) by simp
  then have "dhas (pc_members (pl_config ps1)) k \<longleftrightarrow> k \<in> insert mid {k. dhas (pc_members (pl_config ps)) k}" for k
    using add_member_members [OF p(2)] by (auto simp: dhas_def dom_def set_eq_iff)
  from listed_put [OF p(1) this] show ?thesis by (subst listed_split [OF p(1)]) (auto simp: p(3))
qed

lemma route_add_refused: "route_add_member sid name b d = (Inl e, d', fx) \<Longrightarrow> d' = d"
  by (auto simp: route_add_member_def split: if_splits option.splits sum.splits prod.splits)

lemma route_remove_listed:
  assumes "route_remove_member h uids sid name mid b d = (Inr u, d', fx)"
  shows "listed_members sid d' = listed_members sid d - {(name, mid)}"
proof -
  obtain ps ps1 where p: "find_pool sid name d = Some ps" "remove_member h uids mid b ps = (Inr (), ps1, fx)"
      "d' = put_pool sid name ps1 d"
    using assms by (auto simp: route_remove_member_def split: if_splits option.splits sum.splits prod.splits)
  have "dhas (pc_members (pl_config ps1)) k \<longleftrightarrow> k \<in> {k. dhas (pc_members (pl_config ps)) k} - {mid}" for k
    using remove_member_members [OF p(2)] by (auto simp: dhas_def)
  from listed_put [OF p(1) this] show ?thesis by (subst listed_split [OF p(1)]) (auto simp: p(3))
qed

lemma route_remove_refused: "route_remove_member h uids sid name mid b d = (Inl e, d', fx) \<Longrightarrow> d' = d"
  by (auto simp: route_remove_member_def split: if_splits option.splits sum.splits prod.splits)

end
