(* ===== verification/Dispatcher_Routes.thy ===== *)
theory Dispatcher_Routes
  imports Dispatcher_Session Dispatcher_System
begin

text \<open>
  The task routes of the dispatcher (\<^verbatim>\<open>plugin_task_dispatcher.py\<close>): the two submits with everything they check,
  the task lookup, the cancel routes, the staging checks, the end of a session and the per-member summary.  Task ids,
  pool names and file names of a request are strings, as the clients send them; a value of another type reads as the
  empty string.  The state is the pools of all sessions and the ledger of the tasks forwarded to an endpoint.
\<close>

section \<open>Failures\<close>

datatype route_fail =
    BadRequest string
  | NotFound string
  | Conflict string
  | TooLarge string
  | Unavailable string
  | BadGateway string
  | ServerError py_error

fun fail_status :: "route_fail \<Rightarrow> nat" where
  "fail_status (BadRequest s) = 400"
| "fail_status (NotFound s) = 404"
| "fail_status (Conflict s) = 409"
| "fail_status (TooLarge s) = 413"
| "fail_status (Unavailable s) = 503"
| "fail_status (BadGateway s) = 502"
| "fail_status (ServerError e) = 500"

definition req_fail :: "req_error \<Rightarrow> route_fail" where
  "req_fail e = (case e of ReqRaised x \<Rightarrow> ServerError x | _ \<Rightarrow> BadRequest ''requirements'')"

definition as_fail :: "('e \<Rightarrow> route_fail) \<Rightarrow> 'e + 'a \<Rightarrow> route_fail + 'a" where
  "as_fail f x = (case x of Inl e \<Rightarrow> Inl (f e) | Inr v \<Rightarrow> Inr v)"

section \<open>Base64\<close>

text \<open>\<open>base64.b64decode(s, validate=True)\<close>: groups of four letters of the alphabet, the last one padded.\<close>

definition b64_letter :: "char \<Rightarrow> nat option" where
  "b64_letter c = (let n = char_nat c in
     if 65 \<le> n \<and> n \<le> 90 then Some (n - 65)
     else if 97 \<le> n \<and> n \<le> 122 then Some (n - 71)
     else if 48 \<le> n \<and> n \<le> 57 then Some (n + 4)
     else if c = CHR ''+'' then Some 62 else if c = CHR ''/'' then Some 63 else None)"

fun b64decode :: "string \<Rightarrow> string option" where
  "b64decode [] = Some []"
| "b64decode [a, b, c, d] =
    (case (b64_letter a, b64_letter b) of
       (Some x, Some y) \<Rightarrow>
         if c = CHR ''='' \<and> d = CHR ''='' then Some [char_of (4 * x + y div 16)]
         else (case b64_letter c of
            None \<Rightarrow> None
          | Some z \<Rightarrow>
             if d = CHR ''='' then Some [char_of (4 * x + y div 16), char_of (16 * (y mod 16) + z div 4)]
             else (case b64_letter d of
                None \<Rightarrow> None
              | Some w \<Rightarrow> Some [char_of (4 * x + y div 16), char_of (16 * (y mod 16) + z div 4), char_of (64 * (z mod 4) + w)]))
     | _ \<Rightarrow> None)"
| "b64decode (a # b # c # d # rest) =
    (case (b64_letter a, b64_letter b, b64_letter c, b64_letter d, b64decode rest) of
       (Some x, Some y, Some z, Some w, Some out) \<Rightarrow>
         Some ([char_of (4 * x + y div 16), char_of (16 * (y mod 16) + z div 4), char_of (64 * (z mod 4) + w)] @ out)
     | _ \<Rightarrow> None)"
| "b64decode _ = None"

section \<open>Files of a task\<close>

definition check_filename :: "string \<Rightarrow> route_fail + unit" where
  "check_filename name = guard_or
     (CHR ''/'' \<notin> set name \<and> CHR 0x5C \<notin> set name \<and> name \<notin> {'''', ''.'', ''..''}) (BadRequest ''filename'')"

definition MAX_INPUT_BYTES :: nat where "MAX_INPUT_BYTES = 2 * 1024 * 1024"

definition MAX_INPUTS_BYTES :: nat where "MAX_INPUTS_BYTES = 8 * 1024 * 1024"

fun decode_files :: "dict \<Rightarrow> nat \<Rightarrow> route_fail + (string \<times> string) list" where
  "decode_files [] used = Inr []"
| "decode_files ((name, v) # rest) used =
    rbind (check_filename name) (\<lambda>_.
    rbind (case v of PStr s \<Rightarrow> (case b64decode s of None \<Rightarrow> Inl (BadRequest ''base64'') | Some c \<Rightarrow> Inr c)
           | _ \<Rightarrow> Inl (BadRequest ''base64'')) (\<lambda>content.
    if MAX_INPUT_BYTES < length content then Inl (TooLarge name)
    else if MAX_INPUTS_BYTES < used + length content then Inl (TooLarge name)
    else rbind (decode_files rest (used + length content)) (\<lambda>out. Inr ((name, content) # out))))"

definition decode_inputs_b64 :: "pyval \<Rightarrow> route_fail + (string \<times> string) list" where
  "decode_inputs_b64 raw = (if \<not> truthy raw then Inr []
     else case raw of PDict d \<Rightarrow> decode_files d 0 | _ \<Rightarrow> Inl (BadRequest ''inputs_b64''))"

text \<open>Where the inputs of a task are spooled, and where its files are staged: the task id is a path component that
  nothing checks.\<close>

definition spool_dir :: "string \<Rightarrow> string \<Rightarrow> string" where
  "spool_dir state_dir tid = path_join (path_join state_dir ''inputs'') tid"

definition check_broker_local :: "pool_state \<Rightarrow> task_record option \<Rightarrow> route_fail + unit" where
  "check_broker_local ps rec = (case rec of
     None \<Rightarrow> Inr ()
   | Some t \<Rightarrow>
      if t_task_dict t \<noteq> None then Inr ()
      else if t_cwd t = '''' then Inl (Conflict ''task not yet placed'')
      else (case t_member_id t of None \<Rightarrow> Inr ()
        | Some mid \<Rightarrow> (case pool_member_of ps mid of
             None \<Rightarrow> Inr ()
           | Some m \<Rightarrow> if pm_shared_fs m then Inr () else Inl (Conflict ''not broker-local''))))"

definition stage_base :: "pool_state \<Rightarrow> string \<Rightarrow> task_record option \<Rightarrow> string" where
  "stage_base ps tid rec = (case rec of
     None \<Rightarrow> path_join (pl_scratch_base ps) tid
   | Some t \<Rightarrow> if t_cwd t \<noteq> '''' then t_cwd t else path_join (pl_scratch_base ps) tid)"


section \<open>Submitting\<close>

text \<open>\<open>_endpoint_mode_tasks\<close> beside the pools.  What a route reads from outside: the clock and the host of the pools,
  the plugins of the connected endpoints, and what the call on the endpoint's own task plugin answers (no client, an
  error, a result).\<close>

type_synonym routes_state = "dispatcher \<times> (string \<times> string) list"

datatype remote = NoClient | Failed | Answered pyval

record route_env =
  re_host :: host
  re_plugins :: "(string \<times> string list) list"
  re_remote :: remote
  re_str :: "pyval \<Rightarrow> string"

definition remote_result :: "remote \<Rightarrow> route_fail + pyval" where
  "remote_result r = (case r of NoClient \<Rightarrow> Inl (Unavailable ''client'') | Failed \<Rightarrow> Inl (BadGateway ''remote'') | Answered v \<Rightarrow> Inr v)"

text \<open>The request is refused before the ledger is touched; a refused call on the endpoint takes the entry out again.\<close>

definition endpoint_submit :: "route_env \<Rightarrow> string \<Rightarrow> string \<Rightarrow> dict \<Rightarrow> (string \<times> string) list \<Rightarrow>
    (route_fail + pyval) \<times> (string \<times> string) list" where
  "endpoint_submit env ep tid body em =
    (case rbind (case dget (re_plugins env) ep of None \<Rightarrow> Inl (NotFound ''endpoint'') | Some ps \<Rightarrow> Inr ps) (\<lambda>plugins.
          rbind (guard_or (''rhapsody'' \<in> set plugins) (Unavailable ''endpoint'')) (\<lambda>_.
          rbind (guard_or (\<not> truthy (pget body ''inputs'') \<and> \<not> truthy (pget body ''outputs'')) (BadRequest ''staging'')) (\<lambda>_.
          rbind (guard_or (\<not> truthy (pget body ''inputs_b64'')) (BadRequest ''inputs_b64'')) (\<lambda>_.
          as_fail req_fail (validated_requirements (pget body ''requirements'') None))))) of
       Inl e \<Rightarrow> (Inl e, em)
     | Inr req \<Rightarrow> (case re_remote env of
          NoClient \<Rightarrow> (Inl (Unavailable ''client''), em)
        | Failed \<Rightarrow> (Inl (BadGateway ''remote''), dpop tid (dset tid ep em))
        | Answered v \<Rightarrow> (Inr v, dset tid ep em)))"

definition submission_of :: "dict \<Rightarrow> pool_state \<Rightarrow> route_fail + submission" where
  "submission_of body ps =
    rbind (as_fail ServerError (py_int (pget_or body ''priority'' (PInt 0)))) (\<lambda>priority.
    rbind (as_fail ServerError (py_iter (get_or body ''inputs'' (PList [])))) (\<lambda>inputs.
    rbind (as_fail ServerError (py_iter (get_or body ''outputs'' (PList [])))) (\<lambda>outputs.
    rbind (guard_or (\<not> truthy (pget body ''cwd'') \<or> list_all pm_shared_fs (pool_members ps)) (BadRequest ''cwd'')) (\<lambda>_.
    rbind (as_fail req_fail (validated_requirements (pget body ''requirements'') (Some (pl_config ps)))) (\<lambda>req.
    rbind (decode_inputs_b64 (pget body ''inputs_b64'')) (\<lambda>files.
    rbind (as_fail ServerError (py_iter (pget body ''cmd''))) (\<lambda>cmd.
    Inr \<lparr>sb_task_id = str_of (pget body ''task_id''), sb_cmd = map str_of cmd, sb_cwd = str_of (pget body ''cwd''),
         sb_priority = priority, sb_inputs = map str_of inputs, sb_outputs = map str_of outputs,
         sb_spooled = map fst files, sb_requirements = req\<rparr>)))))))"

definition route_submit :: "route_env \<Rightarrow> string \<Rightarrow> dict \<Rightarrow> routes_state \<Rightarrow> (route_fail + pyval) \<times> routes_state out" where
  "route_submit env sid body st = (case st of (d, em) \<Rightarrow>
     let pool = str_of (pget body ''pool''); ep = str_of (pget body ''endpoint''); tid = str_of (pget body ''task_id'');
         found = find_pool sid pool d;
         placed = (case found of Some ps \<Rightarrow> pc_multi_member (pl_config ps) | None \<Rightarrow> False);
         refuse = (\<lambda>e. (Inl e, st, []))
     in if sid \<notin> set (dp_sessions d) then refuse (NotFound ''session'')
        else if (pool = '''') = (ep = '''') then refuse (BadRequest ''pool'')
        else if pool \<noteq> '''' \<and> found = None then refuse (NotFound ''pool'')
        else if tid = '''' \<or> \<not> truthy (pget body ''cmd'') \<or> (\<not> truthy (pget body ''cwd'') \<and> \<not> (pool \<noteq> '''' \<and> placed))
        then refuse (BadRequest ''task'')
        else if ep \<noteq> '''' then (case endpoint_submit env ep tid body em of (res, em1) \<Rightarrow> (res, (d, em1), []))
        else case found of
          None \<Rightarrow> refuse (NotFound ''pool'')
        | Some ps \<Rightarrow> (case submission_of body ps of
             Inl e \<Rightarrow> refuse e
           | Inr sb \<Rightarrow> (case accept_task (re_host env) sb ps of (t, ps1, fx) \<Rightarrow>
                (Inr (PDict (task_asdict t)), (put_pool sid pool ps1 d, em), fx))))"

text \<open>The batch submit: the whole batch is validated and grouped by pool before any pool is touched.\<close>

type_synonym grouped = "(string \<times> (string \<times> dict \<times> dict) list) list"

definition check_item :: "string \<Rightarrow> dict \<Rightarrow> dispatcher \<Rightarrow> route_fail + (string \<times> dict)" where
  "check_item sid td d =
    (let pool = str_of (pget td ''pool'') in
     if \<not> truthy (pget td ''uid'') \<or> pool = '''' then Inl (BadRequest ''uid'')
     else case find_pool sid pool d of
       None \<Rightarrow> Inl (NotFound ''pool'')
     | Some ps \<Rightarrow>
        rbind (as_fail req_fail (validated_requirements (pget td ''requirements'') (Some (pl_config ps)))) (\<lambda>req.
        rbind (guard_or (\<not> truthy (pget td ''inputs_b64'')) (BadRequest ''inputs_b64'')) (\<lambda>_.
        rbind (guard_or (\<not> (pc_multi_member (pl_config ps) \<and> \<not> truthy (pget td ''cwd''))) (BadRequest ''cwd'')) (\<lambda>_.
        Inr (pool, req)))))"

fun group_items :: "(pyval \<Rightarrow> string) \<Rightarrow> string \<Rightarrow> dispatcher \<Rightarrow> dict list \<Rightarrow> grouped \<Rightarrow> route_fail + grouped" where
  "group_items str sid d [] g = Inr g"
| "group_items str sid d (td # tds) g = rbind (check_item sid td d) (\<lambda>(pool, req).
     group_items str sid d tds
       (dset pool ((case dget g pool of None \<Rightarrow> [] | Some xs \<Rightarrow> xs) @ [(str (pget td ''uid''), td, req)]) g))"

fun submit_groups :: "host \<Rightarrow> string \<Rightarrow> grouped \<Rightarrow> dispatcher \<Rightarrow> (string \<times> task_state) list \<times> dispatcher out" where
  "submit_groups h sid [] d = ([], d, [])"
| "submit_groups h sid ((pool, tds) # gs) d = (case find_pool sid pool d of
     None \<Rightarrow> submit_groups h sid gs d
   | Some ps \<Rightarrow> (case accept_batch h tds ps of (acks, ps1, fx) \<Rightarrow>
       (case submit_groups h sid gs (put_pool sid pool ps1 d) of (acks1, d1, fx1) \<Rightarrow> (acks @ acks1, d1, fx @ fx1))))"

definition route_submit_rh :: "route_env \<Rightarrow> string \<Rightarrow> dict list \<Rightarrow> dispatcher \<Rightarrow>
    (route_fail + (string \<times> task_state) list) \<times> dispatcher out" where
  "route_submit_rh env sid tds d =
    (if sid \<notin> set (dp_sessions d) then (Inl (NotFound ''session''), d, [])
     else case group_items (re_str env) sid d tds [] of
       Inl e \<Rightarrow> (Inl e, d, [])
     | Inr gs \<Rightarrow> (case submit_groups (re_host env) sid gs d of (acks, d1, fx) \<Rightarrow> (Inr acks, d1, fx)))"

section \<open>Looking up and cancelling\<close>

fun find_task :: "string \<Rightarrow> (string \<times> pool_state) list \<Rightarrow> (string \<times> task_record) option" where
  "find_task tid [] = None"
| "find_task tid ((name, ps) # rest) = (case dget (pl_tasks ps) tid of
     Some t \<Rightarrow> Some (name, t) | None \<Rightarrow> find_task tid rest)"

definition route_get_task :: "route_env \<Rightarrow> string \<Rightarrow> string \<Rightarrow> routes_state \<Rightarrow> route_fail + pyval" where
  "route_get_task env sid tid st = (case st of (d, em) \<Rightarrow>
     if sid \<notin> set (dp_sessions d) then Inl (NotFound ''session'')
     else if dhas em tid then remote_result (re_remote env)
     else case find_task tid (pools_for sid d) of
       None \<Rightarrow> Inl (NotFound ''task'') | Some (name, t) \<Rightarrow> Inr (PDict (task_asdict t)))"

definition route_cancel_task :: "route_env \<Rightarrow> string \<Rightarrow> string \<Rightarrow> routes_state \<Rightarrow> (route_fail + unit) \<times> routes_state out" where
  "route_cancel_task env sid tid st = (case st of (d, em) \<Rightarrow>
     if sid \<notin> set (dp_sessions d) then (Inl (NotFound ''session''), st, [])
     else if dhas em tid then (rbind (remote_result (re_remote env)) (\<lambda>_. Inr ()), st, [])
     else case find_task tid (pools_for sid d) of
       None \<Rightarrow> (Inl (NotFound ''task''), st, [])
     | Some (name, t) \<Rightarrow> (case find_pool sid name d of
          None \<Rightarrow> (Inl (NotFound ''task''), st, [])
        | Some ps \<Rightarrow> (case cancel_task (re_host env) tid ps of (ps1, fx) \<Rightarrow> (Inr (), (put_pool sid name ps1 d, em), fx))))"

section \<open>The end of a session\<close>

text \<open>\<open>uids\<close> are the task uids the event tap still maps to this session.\<close>

definition teardown_pool :: "host \<Rightarrow> string list \<Rightarrow> pool_state \<Rightarrow> pool_state out" where
  "teardown_pool h uids ps =
    (case seq_each (pilot_cancel_begin h (\<lambda>u. u \<in> set uids))
        (map p_pid (filter (\<lambda>p. \<not> pilot_is_terminal p) (dvalues (pl_pilots ps)))) ps of (ps1, fx) \<Rightarrow>
      (close_pool ps1, fx @ map FxUidPop uids))"

definition teardown_session_pools :: "host \<Rightarrow> string list \<Rightarrow> string \<Rightarrow> dispatcher \<Rightarrow> nat \<times> dispatcher out" where
  "teardown_session_pools h uids sid d =
    (let pools = pools_for sid d in
     (length pools, d\<lparr>dp_pools := dpop sid (dp_pools d)\<rparr>, concat (map (\<lambda>ps. snd (teardown_pool h uids ps)) (dvalues pools))))"

definition route_cancel_all :: "host \<Rightarrow> string list \<Rightarrow> string \<Rightarrow> dispatcher \<Rightarrow> (route_fail + nat) \<times> dispatcher out" where
  "route_cancel_all h uids sid d =
    (if sid \<notin> set (dp_sessions d) then (Inl (NotFound ''session''), d, [])
     else case teardown_session_pools h uids sid d of (n, d1, fx) \<Rightarrow> (Inr n, d1, fx))"

text \<open>\<open>unregister_session\<close> of the plugin base with the session's \<open>close\<close>; \<open>ended\<close> says whether the base remembers
  the session as ended.\<close>

definition unregister_session :: "host \<Rightarrow> string list \<Rightarrow> bool \<Rightarrow> string \<Rightarrow> dispatcher \<Rightarrow> (route_fail + unit) \<times> dispatcher out" where
  "unregister_session h uids ended sid d =
    (if sid \<notin> set (dp_sessions d) then (if ended then Inr () else Inl (NotFound ''session''), d, [])
     else case teardown_session_pools h uids sid (d\<lparr>dp_sessions := filter (\<lambda>s. s \<noteq> sid) (dp_sessions d)\<rparr>) of
       (n, d1, fx) \<Rightarrow> (Inr (), d1, fx))"

section \<open>The per-member summary\<close>

text \<open>The fields of \<open>_member_dict\<close> that a client of the pool reads, next to the declaration.\<close>

record member_summary =
  ms_member_id :: string
  ms_live_pilots :: nat
  ms_pilots_active :: nat
  ms_node_hours_used :: pyfloat
  ms_node_hours_remaining :: "pyfloat option"
  ms_last_pilot_error :: "string option"
  ms_failures :: int
  ms_paused_until :: "pyfloat option"
  ms_remaining_sec :: "pyfloat option"

fun last_pilot_error :: "pilot_record list \<Rightarrow> string option" where
  "last_pilot_error [] = None"
| "last_pilot_error (p # older) =
    (if (case p_active_at p of None \<Rightarrow> False | Some t \<Rightarrow> t \<noteq> 0) then None
     else if p_state p = PILOT_FAILED \<and> (case p_error p of None \<Rightarrow> False | Some e \<Rightarrow> e \<noteq> '''') then p_error p
     else last_pilot_error older)"

fun max_float :: "pyfloat \<Rightarrow> pyfloat list \<Rightarrow> pyfloat" where
  "max_float m [] = m"
| "max_float m (x # xs) = max_float (fmax m x) xs"

definition member_dict :: "pool_state \<Rightarrow> pool_member \<Rightarrow> rat \<Rightarrow> member_summary" where
  "member_dict ps m now =
    (let mine = live_pilots_for ps (pm_member_id m); history = pilot_history ps (Some (pm_member_id m));
         health = policy_member_health now (pm_member_id m) (pl_policy ps);
         left = map (\<lambda>p. fmax (Fin 0) (fsub (p_walltime_deadline p) (Fin now))) (filter (\<lambda>p. ftruthy (p_walltime_deadline p)) mine)
     in \<lparr>ms_member_id = pm_member_id m, ms_live_pilots = length mine,
         ms_pilots_active = length (filter (\<lambda>p. p_state p = PILOT_ACTIVE) mine),
         ms_node_hours_used = Fin (node_hours history now),
         ms_node_hours_remaining = member_budget_left ps (pm_member_id m) now,
         ms_last_pilot_error = last_pilot_error (rev history),
         ms_failures = fst health, ms_paused_until = snd health,
         ms_remaining_sec = (case left of [] \<Rightarrow> None | x # xs \<Rightarrow> Some (max_float x xs))\<rparr>)"

definition member_summaries :: "pool_state \<Rightarrow> rat \<Rightarrow> member_summary list" where
  "member_summaries ps now = (if pc_multi_member (pl_config ps) then map (\<lambda>m. member_dict ps m now) (pool_members ps) else [])"

definition route_pool_detail :: "rat \<Rightarrow> string \<Rightarrow> string \<Rightarrow> dispatcher \<Rightarrow> route_fail + (member_summary list \<times> pilot_record list)" where
  "route_pool_detail now sid name d =
    (if sid \<notin> set (dp_sessions d) then Inl (NotFound ''session'')
     else case find_pool sid name d of
       None \<Rightarrow> Inl (NotFound ''pool'') | Some ps \<Rightarrow> Inr (member_summaries ps now, live_pilots ps))"


section \<open>The ledger is kept\<close>

text \<open>No operation of a pool drops a task record.\<close>

definition task_ids :: "pool_state \<Rightarrow> string set" where
  "task_ids ps = {tid. dhas (pl_tasks ps) tid}"

lemma task_ids_upd [simp]:
  "task_ids (upd_task tid f ps) = task_ids ps" "task_ids (upd_pilot pid g ps) = task_ids ps"
  "task_ids (drop_spool tid ps) = task_ids ps" "task_ids (free_slot p ps) = task_ids ps"
  by (auto simp: task_ids_def upd_task_def upd_pilot_def drop_spool_def free_slot_def dhas_def split: option.splits)

lemma task_ids_insert [simp]: "task_ids (ps\<lparr>pl_tasks := dset tid t (pl_tasks ps')\<rparr>) = insert tid (task_ids ps')"
  by (auto simp: task_ids_def dhas_def)

lemma task_ids_spool [simp]: "task_ids (write_spool tid names ps) = task_ids ps"
  by (simp add: write_spool_def task_ids_def)

lemma mark_task_failed_ids [simp]: "task_ids (fst (mark_task_failed h tid reason ps)) = task_ids ps"
  by (simp add: mark_task_failed_def Let_def split: option.splits)

lemma claim_ids [simp]: "task_ids (fst (snd (claim h t p ps))) = task_ids ps"
  by (simp add: claim_def Let_def split: option.splits)

lemma drain_loop_ids [simp]: "task_ids (fst (snd (drain_loop h n assigned ps))) = task_ids ps"
  by (induction n arbitrary: assigned ps) (auto simp: split_beta split: sum.split option.split)

lemma drain_pending_ids [simp]: "task_ids (fst (drain_pending h ps)) = task_ids ps"
  by (simp add: drain_pending_def split_beta)

lemma cancel_task_ids [simp]: "task_ids (fst (cancel_task h tid ps)) = task_ids ps"
  by (simp add: cancel_task_def cancel_finish_def Let_def split: option.splits)

lemma cached_task_in: "cached_task tid ps = Some t \<Longrightarrow> tid \<in> task_ids ps"
  by (auto simp: cached_task_def task_ids_def dhas_def split: option.splits)

lemma accept_task_ids: "task_ids (fst (snd (accept_task h sb ps))) = insert (sb_task_id sb) (task_ids ps)"
proof (cases "cached_task (sb_task_id sb) ps")
  case None
  then show ?thesis by (simp add: accept_task_def Let_def split_beta)
next
  case (Some t)
  then show ?thesis using cached_task_in [OF Some] by (auto simp: accept_task_def)
qed

lemma insert_batch_ids: "task_ids (snd (snd (insert_batch h tds ps))) = fst ` set tds \<union> task_ids ps"
  by (induction h tds ps rule: insert_batch.induct) (auto simp: split_beta dest: cached_task_in split: option.splits)

lemma insert_batch_acks: "map fst (fst (snd (insert_batch h tds ps))) = map fst tds"
  by (induction h tds ps rule: insert_batch.induct) (auto simp: split_beta split: option.splits)

lemma accept_batch_ids: "task_ids (fst (snd (accept_batch h tds ps))) = fst ` set tds \<union> task_ids ps"
  by (simp add: accept_batch_def split_beta insert_batch_ids)

lemma accept_batch_acks: "map fst (fst (accept_batch h tds ps)) = map fst tds"
  by (simp add: accept_batch_def split_beta insert_batch_acks)

section \<open>The batch submit\<close>

definition recorded :: "string \<Rightarrow> dispatcher \<Rightarrow> (string \<times> string) set" where
  "recorded sid d = {(name, tid). \<exists>ps. find_pool sid name d = Some ps \<and> tid \<in> task_ids ps}"

text \<open>The pool and the uid a batch item names.\<close>

definition item_key :: "(pyval \<Rightarrow> string) \<Rightarrow> dict \<Rightarrow> string \<times> string" where
  "item_key str td = (str_of (pget td ''pool''), str (pget td ''uid''))"

definition group_keys :: "grouped \<Rightarrow> (string \<times> string) list" where
  "group_keys g = concat (map (\<lambda>(pool, xs). map (\<lambda>(uid, td, req). (pool, uid)) xs) g)"

lemma put_pool_recorded:
  assumes "find_pool sid name d = Some ps" "task_ids ps1 = A \<union> task_ids ps"
  shows "recorded sid (put_pool sid name ps1 d) = recorded sid d \<union> {name} \<times> A"
    and "sid' \<noteq> sid \<Longrightarrow> recorded sid' (put_pool sid name ps1 d) = recorded sid' d"
  using assms by (auto simp: recorded_def split: if_splits)

lemma submit_groups_recorded:
  assumes "list_all (\<lambda>(pool, xs). find_pool sid pool d \<noteq> None) g"
  shows "recorded sid (fst (snd (submit_groups h sid g d))) = recorded sid d \<union> set (group_keys g)"
    and "map fst (fst (submit_groups h sid g d)) = map snd (group_keys g)"
    and "sid' \<noteq> sid \<Longrightarrow> recorded sid' (fst (snd (submit_groups h sid g d))) = recorded sid' d"
proof -
  have "recorded sid (fst (snd (submit_groups h sid g d))) = recorded sid d \<union> set (group_keys g) \<and>
      map fst (fst (submit_groups h sid g d)) = map snd (group_keys g) \<and>
      (sid' \<noteq> sid \<longrightarrow> recorded sid' (fst (snd (submit_groups h sid g d))) = recorded sid' d)"
    using assms
  proof (induction g arbitrary: d)
    case (Cons x g)
    obtain pool tds where x: "x = (pool, tds)" by (cases x)
    obtain ps where ps: "find_pool sid pool d = Some ps" using Cons.prems x by auto
    obtain acks ps1 fx where ab: "accept_batch h tds ps = (acks, ps1, fx)" by (cases "accept_batch h tds ps") auto
    have ids: "task_ids ps1 = fst ` set tds \<union> task_ids ps" "map fst acks = map fst tds"
      using accept_batch_ids [of h tds ps] accept_batch_acks [of h tds ps] ab by simp_all
    have "list_all (\<lambda>(p, xs). find_pool sid p (put_pool sid pool ps1 d) \<noteq> None) g"
      using Cons.prems x by (auto simp: list_all_iff)
    note IH = Cons.IH [OF this]
    have keys: "set (group_keys (x # g)) = {pool} \<times> fst ` set tds \<union> set (group_keys g)"
      by (force simp: group_keys_def x)
    show ?case
      using IH put_pool_recorded [OF ps ids(1)]
      by (auto simp: x ps ab split_beta keys [unfolded x] ids(2)) (auto simp: group_keys_def)
  qed (simp add: group_keys_def)
  then show "recorded sid (fst (snd (submit_groups h sid g d))) = recorded sid d \<union> set (group_keys g)"
    "map fst (fst (submit_groups h sid g d)) = map snd (group_keys g)"
    "sid' \<noteq> sid \<Longrightarrow> recorded sid' (fst (snd (submit_groups h sid g d))) = recorded sid' d" by simp_all
qed

lemma group_keys_dset:
  "set (group_keys (dset pool ((case dget g pool of None \<Rightarrow> [] | Some xs \<Rightarrow> xs) @ [(uid, td, req)]) g)) =
     insert (pool, uid) (set (group_keys g))"
  "length (group_keys (dset pool ((case dget g pool of None \<Rightarrow> [] | Some xs \<Rightarrow> xs) @ [(uid, td, req)]) g)) =
     Suc (length (group_keys g))"
  by (induction g) (auto simp: group_keys_def split: option.splits)

lemma group_items_ok:
  assumes "group_items str sid d tds g = Inr g'" "list_all (\<lambda>(pool, xs). find_pool sid pool d \<noteq> None) g"
  shows "set (group_keys g') = set (group_keys g) \<union> item_key str ` set tds \<and>
    length (group_keys g') = length (group_keys g) + length tds \<and>
    list_all (\<lambda>(pool, xs). find_pool sid pool d \<noteq> None) g'"
  using assms
proof (induction tds arbitrary: g)
  case (Cons td tds)
  obtain pool req where c: "check_item sid td d = Inr (pool, req)" and
    rest: "group_items str sid d tds
       (dset pool ((case dget g pool of None \<Rightarrow> [] | Some xs \<Rightarrow> xs) @ [(str (pget td ''uid''), td, req)]) g) = Inr g'"
    using Cons.prems(1) by (auto simp: rbind_eq_Inr)
  have pool: "pool = str_of (pget td ''pool'')" "find_pool sid pool d \<noteq> None"
    using c by (auto simp: check_item_def Let_def rbind_eq_Inr split: if_splits option.splits)
  have "list_all (\<lambda>(pool, xs). find_pool sid pool d \<noteq> None)
      (dset pool ((case dget g pool of None \<Rightarrow> [] | Some xs \<Rightarrow> xs) @ [(str (pget td ''uid''), td, req)]) g)"
    using Cons.prems(2) pool(2) by (induction g) (auto split: option.splits)
  from Cons.IH [OF rest this] show ?case
    by (simp add: group_keys_dset item_key_def pool(1))
qed simp


section \<open>Properties\<close>

text \<open>C22. A batch submit is all or nothing.  If any item of the batch is refused (no uid or pool, an unknown pool,
  requirements no member can meet, inline inputs, a class pool without a cwd), no pool has changed and nothing was
  persisted, sent or spawned.  If the batch is accepted, every item is in the ledger of the pool it named under its
  uid, nothing that was recorded before is lost, nothing else is recorded, other sessions are untouched, and the
  answer has one acknowledgement per item.\<close>

theorem submit_rh_all_or_nothing:
  "case route_submit_rh env sid tds d of (res, d', fx) \<Rightarrow>
     (case res of
        Inl e \<Rightarrow> d' = d \<and> fx = []
      | Inr acks \<Rightarrow>
          recorded sid d' = recorded sid d \<union> item_key (re_str env) ` set tds \<and>
          (sid' = sid \<or> recorded sid' d' = recorded sid' d) \<and>
          length acks = length tds \<and> fst ` set acks = snd ` item_key (re_str env) ` set tds)"
proof (cases "sid \<in> set (dp_sessions d)")
  case True
  show ?thesis
  proof (cases "group_items (re_str env) sid d tds []")
    case (Inr g)
    obtain acks d' fx where s: "submit_groups (re_host env) sid g d = (acks, d', fx)"
      by (cases "submit_groups (re_host env) sid g d") auto
    note g = group_items_ok [OF Inr, simplified]
    note ok = submit_groups_recorded [where h = "re_host env", of sid d g, unfolded s, simplified]
    have keys: "set (group_keys g) = item_key (re_str env) ` set tds" "length (group_keys g) = length tds"
      using g by (simp_all add: group_keys_def)
    have acks: "map fst acks = map snd (group_keys g)" using ok(2) g by blast
    then have "fst ` set acks = snd ` set (group_keys g)" by (metis list.set_map)
    moreover have "length acks = length tds" using arg_cong [OF acks, of length] keys(2) by simp
    ultimately show ?thesis using True Inr s ok g keys by (auto simp: route_submit_rh_def)
  qed (simp add: route_submit_rh_def True)
qed (simp add: route_submit_rh_def)

text \<open>The task id of a submission is not checked the way a file name is: an absolute one makes the spool of the task
  the directory it names.\<close>

lemma spool_dir_escapes:
  "check_filename ''/data'' = Inl (BadRequest ''filename'') \<and> spool_dir ''/state/p'' ''/data'' = ''/data''"
  by code_simp

end
