(* ===== verification/Federation_Usage.thy ===== *)
theory Federation_Usage
  imports Federation_Policy Dispatcher_Routes
begin

text \<open>
  The usage accounting of \<^verbatim>\<open>plugin_federation.py\<close>: a member's usage from the summary of its class pool, a
  resource's usage from its members, and the refresh with its two-second cache.  The summary is what the dispatcher
  reports per member (\<open>member_dict\<close>).  An exception inside a refresh leaves the row as it was here; the code may
  have written part of it.
\<close>

section \<open>One member\<close>

definition USAGE_CACHE_SEC :: rat where "USAGE_CACHE_SEC = 2"

definition find_summary :: "string \<Rightarrow> member_summary list option \<Rightarrow> member_summary option" where
  "find_summary mid detail = (case detail of None \<Rightarrow> None | Some es \<Rightarrow> find (\<lambda>e. ms_member_id e = mid) es)"

definition or_none :: "pyfloat option \<Rightarrow> pyfloat option" where
  "or_none x = (case x of Some f \<Rightarrow> if ftruthy f then Some f else None | None \<Rightarrow> None)"

definition str_or_none :: "string option \<Rightarrow> string option" where
  "str_or_none x = (if x = Some '''' then None else x)"

definition reported_usage :: "member_summary \<Rightarrow> pyfloat \<Rightarrow> usage \<Rightarrow> usage" where
  "reported_usage e budget u =
    (let left = (case ms_node_hours_remaining e of
         Some r \<Rightarrow> r
       | None \<Rightarrow> if ftruthy budget then fsub budget (ms_node_hours_used e) else Fin 0)
     in u\<lparr>u_stale := False, u_node_hours_used := ms_node_hours_used e, u_pilots_active := int (ms_pilots_active e),
          u_pilot_error := str_or_none (ms_last_pilot_error e), u_pilot_failures := ms_failures e,
          u_paused_until := or_none (ms_paused_until e), u_remaining_sec := ms_remaining_sec e,
          u_node_hours_remaining := fmax (Fin 0) left\<rparr>)"

definition with_counts :: "int \<times> int \<times> int \<Rightarrow> rat \<Rightarrow> usage \<Rightarrow> usage" where
  "with_counts c now u = (case c of (running, done_n, failed) \<Rightarrow>
     u\<lparr>u_tasks_running := running, u_tasks_done := done_n, u_tasks_failed := failed, u_updated_at := now\<rparr>)"

definition apply_member_usage :: "federation_state \<Rightarrow> rat \<Rightarrow> member_summary list option \<Rightarrow> member_record \<Rightarrow> py_error + member_record" where
  "apply_member_usage s now detail m =
    rbind (case find_summary (fm_member_id m) detail of
        None \<Rightarrow> Inr ((fm_usage m)\<lparr>u_stale := True\<rparr>)
      | Some e \<Rightarrow> rbind (member_node_hours m) (\<lambda>budget. Inr (reported_usage e budget (fm_usage m)))) (\<lambda>u.
    Inr (m\<lparr>fm_usage := with_counts (member_task_counts s (fm_member_id m)) now u\<rparr>))"

section \<open>One resource\<close>

definition sum_float :: "pyfloat list \<Rightarrow> pyfloat" where
  "sum_float xs = fold (\<lambda>x acc. fadd acc x) xs (Fin 0)"

definition first_error :: "member_record list \<Rightarrow> string option" where
  "first_error ms = (case find (\<lambda>m. str_or_none (u_pilot_error (fm_usage m)) \<noteq> None) ms of
     None \<Rightarrow> None | Some m \<Rightarrow> u_pilot_error (fm_usage m))"

definition furthest_pause :: "member_record list \<Rightarrow> pyfloat option" where
  "furthest_pause ms = (case concat (map (\<lambda>m. case or_none (u_paused_until (fm_usage m)) of None \<Rightarrow> [] | Some f \<Rightarrow> [f]) ms) of
     [] \<Rightarrow> None | f # fs \<Rightarrow> or_none (Some (max_float f fs)))"

definition aggregate_usage :: "federation_state \<Rightarrow> rat \<Rightarrow> resource_record \<Rightarrow> resource_record" where
  "aggregate_usage s now r =
    (let ms = member_list r; us = map fm_usage ms in
     r\<lparr>fr_usage := with_counts (task_counts s (fr_name r)) now
        ((fr_usage r)\<lparr>u_node_hours_used := sum_float (map u_node_hours_used us),
           u_node_hours_remaining := sum_float (map u_node_hours_remaining us),
           u_pilots_active := sum_list (map u_pilots_active us),
           u_stale := list_ex u_stale us,
           u_pilot_error := first_error ms,
           u_pilot_failures := (case map u_pilot_failures us of [] \<Rightarrow> 0 | n # ns \<Rightarrow> fold max ns n),
           u_paused_until := furthest_pause ms\<rparr>)\<rparr>)"

definition due :: "rat \<Rightarrow> resource_record \<Rightarrow> bool" where
  "due now r \<longleftrightarrow> USAGE_CACHE_SEC \<le> now - u_updated_at (fr_usage r)"

definition refresh_record :: "federation_state \<Rightarrow> rat \<Rightarrow> (string \<Rightarrow> member_summary list option) \<Rightarrow> resource_record \<Rightarrow>
    py_error + resource_record" where
  "refresh_record s now details r =
    rbind (rmap_list (\<lambda>(k, m). rbind (apply_member_usage s now (details (fm_pool_name m)) m) (\<lambda>m1. Inr (k, m1))) (fr_members r)) (\<lambda>ms.
    Inr (aggregate_usage s now (r\<lparr>fr_members := ms\<rparr>)))"

section \<open>What a refresh reports\<close>

definition non_negative :: "pyfloat \<Rightarrow> bool" where
  "non_negative f \<longleftrightarrow> (case f of Fin r \<Rightarrow> 0 \<le> r | PosInf \<Rightarrow> True | _ \<Rightarrow> False)"

lemma fmax_non_negative: "non_negative (fmax (Fin 0) x)"
  by (cases x) (auto simp: fmax_def non_negative_def)

lemma fadd_non_negative: "non_negative a \<Longrightarrow> non_negative b \<Longrightarrow> non_negative (fadd a b)"
  by (cases a; cases b) (auto simp: non_negative_def)

lemma sum_float_non_negative: "list_all non_negative xs \<Longrightarrow> non_negative (sum_float xs)"
proof -
  have "list_all non_negative xs \<Longrightarrow> non_negative acc \<Longrightarrow> non_negative (fold (\<lambda>x acc. fadd acc x) xs acc)" for acc
    by (induction xs arbitrary: acc) (simp_all add: fadd_non_negative)
  then show "list_all non_negative xs \<Longrightarrow> non_negative (sum_float xs)" by (simp add: sum_float_def non_negative_def)
qed

lemma reported_left: "non_negative (u_node_hours_remaining (reported_usage e budget u))"
  by (simp add: reported_usage_def Let_def fmax_non_negative)

lemma with_counts_left: "u_node_hours_remaining (with_counts c now u) = u_node_hours_remaining u"
  by (simp add: with_counts_def split: prod.splits)

text \<open>A member's declaration and identity are not touched by a refresh.\<close>

lemma apply_member_usage_sel:
  "apply_member_usage s now detail m = Inr m1 \<Longrightarrow> m1 = m\<lparr>fm_usage := fm_usage m1\<rparr>"
  by (auto simp: apply_member_usage_def rbind_eq_Inr)

lemma apply_member_usage_left:
  assumes "apply_member_usage s now detail m = Inr m1" "non_negative (u_node_hours_remaining (fm_usage m))"
  shows "non_negative (u_node_hours_remaining (fm_usage m1))"
  using assms by (auto simp: apply_member_usage_def rbind_eq_Inr reported_left with_counts_left split: option.splits)

lemma refresh_record_sel:
  assumes "refresh_record s now details r = Inr r1"
  shows "map fst (fr_members r1) = map fst (fr_members r) \<and>
    list_all2 (\<lambda>m m1. m1 = m\<lparr>fm_usage := fm_usage m1\<rparr>) (member_list r) (member_list r1) \<and>
    r1 = r\<lparr>fr_members := fr_members r1, fr_usage := fr_usage r1\<rparr>"
proof -
  obtain ms where ms: "rmap_list (\<lambda>(k, m). rbind (apply_member_usage s now (details (fm_pool_name m)) m) (\<lambda>m1. Inr (k, m1))) (fr_members r) = Inr ms"
      "r1 = aggregate_usage s now (r\<lparr>fr_members := ms\<rparr>)"
    using assms by (auto simp: refresh_record_def rbind_eq_Inr)
  have "map fst ms = map fst xs \<and> list_all2 (\<lambda>m m1. m1 = m\<lparr>fm_usage := fm_usage m1\<rparr>) (map snd xs) (map snd ms)"
    if "rmap_list (\<lambda>(k, m). rbind (apply_member_usage s now (details (fm_pool_name m)) m) (\<lambda>m1. Inr (k, m1))) xs = Inr ms" for xs ms
    using that
  proof (induction xs arbitrary: ms)
    case (Cons x xs)
    then show ?case by (cases x) (auto simp: rbind_eq_Inr dest: apply_member_usage_sel)
  qed simp
  from this [OF ms(1)] show ?thesis by (simp add: ms(2) aggregate_usage_def Let_def member_list_def)
qed

end
