(* ===== verification/Federation_Plugin.thy ===== *)
theory Federation_Plugin
  imports Federation_Join Federation_Usage
begin

text \<open>
  The federation plugin (\<^verbatim>\<open>plugin_federation.py\<close>): its state, the routes that change it and the topology handler.
  The dispatcher it drives is an argument, a record of the calls of \<open>_DispatcherAPI\<close> on a state of its own; what the
  federation relies on is the locale \<open>class_pools\<close>, which the dispatcher's routes are shown to implement.  A handler
  runs from its first statement to its last here; the interleaving of two handlers at their awaits is not part of
  this theory.
\<close>

section \<open>The dispatcher as the federation sees it\<close>

text \<open>A call that raises gives the HTTP status.  The detail of a pool is its member summaries and live pilots, or
  nothing when the call failed or took too long; lookups do not change the dispatcher.\<close>

type_synonym pool_detail = "member_summary list \<times> pilot_record list"

record 'd dispatcher_api =
  da_register :: "string \<Rightarrow> dict list \<Rightarrow> 'd \<Rightarrow> (nat + unit) \<times> 'd"
  da_unregister :: "string \<Rightarrow> 'd \<Rightarrow> (nat + unit) \<times> 'd"
  da_add :: "string \<Rightarrow> string \<Rightarrow> dict \<Rightarrow> 'd \<Rightarrow> (nat + unit) \<times> 'd"
  da_del :: "string \<Rightarrow> string \<Rightarrow> string \<Rightarrow> dict \<Rightarrow> 'd \<Rightarrow> (nat + unit) \<times> 'd"
  da_cancel :: "string \<Rightarrow> string \<Rightarrow> 'd \<Rightarrow> (nat + unit) \<times> 'd"
  da_submit :: "string \<Rightarrow> dict \<Rightarrow> 'd \<Rightarrow> (nat + dict) \<times> 'd"
  da_task :: "string \<Rightarrow> string \<Rightarrow> 'd \<Rightarrow> nat + dict"
  da_detail :: "string \<Rightarrow> string \<Rightarrow> 'd \<Rightarrow> pool_detail option"

definition FED_SID :: string where
  "FED_SID = ''fed''"

definition del_body :: "bool \<Rightarrow> bool \<Rightarrow> bool \<Rightarrow> dict" where
  "del_body cancel_tasks force fail_unsat =
    [(''cancel_tasks'', PBool cancel_tasks), (''force'', PBool force), (''fail_unsatisfiable'', PBool fail_unsat)]"

section \<open>State\<close>

text \<open>\<open>fp_disk\<close> is the state of the last save, \<open>fp_attached\<close> the ids of the members posted to their class pool,
  \<open>fp_pools\<close> the class pools the session was last registered with.\<close>

record fed_plugin =
  fp_state :: federation_state
  fp_disk :: federation_state
  fp_participants :: "(string \<times> string \<times> string) list"
  fp_attached :: "string list"
  fp_pools :: "string list"
  fp_replayed :: bool
  fp_cache :: "(string \<times> rat \<times> pool_detail) list"

type_synonym 'd fed_world = "fed_plugin \<times> 'd"

text \<open>A state loaded from disk is lost until topology says otherwise.\<close>

definition mark_lost :: "resource_record \<Rightarrow> resource_record" where
  "mark_lost r = r\<lparr>fr_liveness := ''lost'', fr_members := dmap_values (\<lambda>m. m\<lparr>fm_liveness := ''lost''\<rparr>) (fr_members r)\<rparr>"

definition new_fed_plugin :: "federation_state \<Rightarrow> fed_plugin" where
  "new_fed_plugin s = \<lparr>fp_state = s\<lparr>fs_resources := dmap_values mark_lost (fs_resources s)\<rparr>, fp_disk = s,
     fp_participants = [], fp_attached = [], fp_pools = [], fp_replayed = False, fp_cache = []\<rparr>"

definition fed_persist :: "fed_plugin \<Rightarrow> fed_plugin" where
  "fed_persist p = p\<lparr>fp_disk := fp_state p\<rparr>"

definition fed_records :: "fed_plugin \<Rightarrow> resource_record list" where
  "fed_records p = dvalues (fs_resources (fp_state p))"

definition set_record :: "string \<Rightarrow> resource_record \<Rightarrow> fed_plugin \<Rightarrow> fed_plugin" where
  "set_record n r p = p\<lparr>fp_state := (fp_state p)\<lparr>fs_resources := dset n r (fs_resources (fp_state p))\<rparr>\<rparr>"

definition liveness_for :: "fed_plugin \<Rightarrow> string \<Rightarrow> string" where
  "liveness_for p ep = (case dget (fp_participants p) ep of
     None \<Rightarrow> ''lost''
   | Some (live, role) \<Rightarrow> if live = ''present'' then ''ok'' else if live = ''suspect'' then ''suspect'' else ''lost'')"

definition add_attached :: "string \<Rightarrow> fed_plugin \<Rightarrow> fed_plugin" where
  "add_attached mid p = p\<lparr>fp_attached := (if mid \<in> set (fp_attached p) then fp_attached p else fp_attached p @ [mid])\<rparr>"

definition discard_attached :: "string \<Rightarrow> fed_plugin \<Rightarrow> fed_plugin" where
  "discard_attached mid p = p\<lparr>fp_attached := filter (\<lambda>x. x \<noteq> mid) (fp_attached p)\<rparr>"

definition forget_detail :: "string \<Rightarrow> fed_plugin \<Rightarrow> fed_plugin" where
  "forget_detail pool p = p\<lparr>fp_cache := dpop pool (fp_cache p)\<rparr>"

section \<open>Attaching and detaching\<close>

definition attach :: "'d dispatcher_api \<Rightarrow> resource_record \<Rightarrow> member_record \<Rightarrow> 'd fed_world \<Rightarrow> bool \<times> 'd fed_world" where
  "attach api r m w = (case w of (p, d) \<Rightarrow>
     (case da_add api FED_SID (fm_pool_name m) (member_decl r m) d of
        (Inl e, d1) \<Rightarrow> (False, p, d1)
      | (Inr u, d1) \<Rightarrow> (True, add_attached (fm_member_id m) p, d1)))"

definition detach :: "'d dispatcher_api \<Rightarrow> member_record \<Rightarrow> 'd fed_world \<Rightarrow> 'd fed_world" where
  "detach api m w = (case w of (p, d) \<Rightarrow>
     (case da_del api FED_SID (fm_pool_name m) (fm_member_id m) (del_body False True False) d of (res, d1) \<Rightarrow>
        (forget_detail (fm_pool_name m) (discard_attached (fm_member_id m) p), d1)))"

definition register_fed :: "'d dispatcher_api \<Rightarrow> resource_record list \<Rightarrow> 'd fed_world \<Rightarrow> (nat + unit) \<times> 'd fed_world" where
  "register_fed api extra w = (case w of (p, d) \<Rightarrow>
     let decls = class_pool_decls (fed_records p @ extra) in
     if decls = [] then (Inr (), p, d)
     else (case da_register api FED_SID decls d of
        (Inl e, d1) \<Rightarrow> (Inl e, p, d1)
      | (Inr u, d1) \<Rightarrow> (Inr (), p\<lparr>fp_pools := map (\<lambda>x. str_of (pget x ''name'')) decls\<rparr>, d1)))"

text \<open>One member under the liveness \<open>target\<close> of its endpoint; the first component is the liveness the resource ends
  up with.\<close>

definition sync_member :: "'d dispatcher_api \<Rightarrow> rat \<Rightarrow> string \<Rightarrow> resource_record \<Rightarrow> member_record \<Rightarrow>
    string \<times> 'd fed_world \<Rightarrow> string \<times> 'd fed_world" where
  "sync_member api now target r m rw = (case rw of (result, w) \<Rightarrow>
     let ended = allocation_ended now m;
         state = (if ended then ''lost'' else target);
         result1 = (if ended then ''lost'' else result)
     in if state = ''lost'' then (result1, if fm_member_id m \<in> set (fp_attached (fst w)) then detach api m w else w)
        else if state = ''suspect'' then (result1, w)
        else if fm_member_id m \<in> set (fp_attached (fst w)) then (result1, w)
        else (case (if fm_pool_name m \<notin> set (fp_pools (fst w)) then register_fed api [] w else (Inr (), w)) of
             (Inl e, w1) \<Rightarrow> (''lost'', w1)
           | (Inr u, w1) \<Rightarrow> (case attach api r m w1 of (ok, w2) \<Rightarrow> (if ok then result1 else ''lost'', w2))))"

definition set_liveness :: "string \<Rightarrow> resource_record \<Rightarrow> resource_record" where
  "set_liveness live r = r\<lparr>fr_liveness := live, fr_members := dmap_values (\<lambda>m. m\<lparr>fm_liveness := live\<rparr>) (fr_members r)\<rparr>"

definition sync_resource :: "'d dispatcher_api \<Rightarrow> rat \<Rightarrow> string \<Rightarrow> bool \<times> 'd fed_world \<Rightarrow> bool \<times> 'd fed_world" where
  "sync_resource api now n dw = (case dw of (dirty, w) \<Rightarrow>
     (case dget (fs_resources (fp_state (fst w))) n of
        None \<Rightarrow> (dirty, w)
      | Some r \<Rightarrow>
         let target = liveness_for (fst w) (fr_endpoint r) in
         (case fold (sync_member api now target r) (member_list r) (target, w) of (result, p, d) \<Rightarrow>
            (dirty \<or> set_liveness result r \<noteq> r, set_record n (set_liveness result r) p, d))))"

definition sync_attachments :: "'d dispatcher_api \<Rightarrow> rat \<Rightarrow> 'd fed_world \<Rightarrow> 'd fed_world" where
  "sync_attachments api now w =
    (case fold (sync_resource api now) (map fst (fs_resources (fp_state (fst w)))) (False, w) of (dirty, p, d) \<Rightarrow>
       (if dirty then fed_persist p else p, d))"

section \<open>The re-attach after a restart\<close>

definition legacy_sids :: "fed_plugin \<Rightarrow> (string \<times> resource_record) list" where
  "legacy_sids p = fold (\<lambda>r acc. let sid = fr_dispatcher_sid r in
     if sid \<noteq> '''' \<and> sid \<noteq> FED_SID \<and> \<not> dhas acc sid then acc @ [(sid, r)] else acc) (fed_records p) []"

definition release_legacy :: "'d dispatcher_api \<Rightarrow> string \<times> resource_record \<Rightarrow> 'd \<Rightarrow> 'd" where
  "release_legacy api sr d = (case sr of (sid, r) \<Rightarrow>
     (case (if fr_pool_config r \<noteq> [] then da_register api sid [fr_pool_config r] d else (Inr (), d)) of
        (Inl e, d1) \<Rightarrow> d1
      | (Inr u, d1) \<Rightarrow> snd (da_unregister api sid d1)))"

definition fail_legacy_entry :: "rat \<Rightarrow> ledger_entry \<Rightarrow> ledger_entry" where
  "fail_legacy_entry now e =
    (if l_dispatcher_sid e \<noteq> '''' \<and> l_dispatcher_sid e \<noteq> FED_SID \<and> \<not> entry_terminal e
     then e\<lparr>l_state := ''FAILED'', l_detail := ''the federation was upgraded'', l_finished_at := Some now\<rparr> else e)"

definition adopt_record :: "resource_record \<Rightarrow> resource_record" where
  "adopt_record r = r\<lparr>fr_dispatcher_sid := FED_SID,
     fr_pool_name := (case member_list r of [] \<Rightarrow> fr_pool_name r | m # _ \<Rightarrow> fm_pool_name m)\<rparr>"

definition upgrade_legacy :: "'d dispatcher_api \<Rightarrow> rat \<Rightarrow> 'd fed_world \<Rightarrow> 'd fed_world" where
  "upgrade_legacy api now w = (case w of (p, d) \<Rightarrow>
     if legacy_sids p = [] then (p, d)
     else (p\<lparr>fp_state := \<lparr>fs_resources = dmap_values adopt_record (fs_resources (fp_state p)),
              fs_ledger = dmap_values (fail_legacy_entry now) (fs_ledger (fp_state p))\<rparr>\<rparr>,
           fold (release_legacy api) (legacy_sids p) d))"

definition replay_member :: "'d dispatcher_api \<Rightarrow> rat \<Rightarrow> resource_record \<Rightarrow> member_record \<Rightarrow> 'd fed_world \<Rightarrow> 'd fed_world" where
  "replay_member api now r m w = (if allocation_ended now m then detach api m w else snd (attach api r m w))"

definition replay_attachments :: "'d dispatcher_api \<Rightarrow> rat \<Rightarrow> 'd fed_world \<Rightarrow> 'd fed_world" where
  "replay_attachments api now w =
    (case register_fed api [] (upgrade_legacy api now w) of
       (Inl e, p, d) \<Rightarrow> (fed_persist p, d)
     | (Inr u, w1) \<Rightarrow>
        (case fold (\<lambda>r. fold (replay_member api now r) (member_list r)) (fed_records (fst w1)) w1 of
           (p, d) \<Rightarrow> (fed_persist p, d)))"

definition ensure_replayed :: "'d dispatcher_api \<Rightarrow> rat \<Rightarrow> 'd fed_world \<Rightarrow> 'd fed_world" where
  "ensure_replayed api now w = (if fp_replayed (fst w) then w
     else replay_attachments api now ((fst w)\<lparr>fp_replayed := True\<rparr>, snd w))"

definition on_topology_change :: "'d dispatcher_api \<Rightarrow> rat \<Rightarrow> (string \<times> string \<times> string) list \<Rightarrow> 'd fed_world \<Rightarrow> 'd fed_world" where
  "on_topology_change api now participants w =
     sync_attachments api now (ensure_replayed api now ((fst w)\<lparr>fp_participants := participants\<rparr>, snd w))"

section \<open>Refreshing usage\<close>

definition pool_detail_of :: "'d dispatcher_api \<Rightarrow> rat \<Rightarrow> string \<Rightarrow> 'd fed_world \<Rightarrow> pool_detail option \<times> 'd fed_world" where
  "pool_detail_of api now pool w = (case w of (p, d) \<Rightarrow>
     let fetch = (case da_detail api FED_SID pool d of
           None \<Rightarrow> (None, p, d)
         | Some v \<Rightarrow> (Some v, p\<lparr>fp_cache := dset pool (now, v) (fp_cache p)\<rparr>, d))
     in case dget (fp_cache p) pool of
          None \<Rightarrow> fetch
        | Some (t, v) \<Rightarrow> if now - t < USAGE_CACHE_SEC then (Some v, p, d) else fetch)"

fun fetch_details :: "'d dispatcher_api \<Rightarrow> rat \<Rightarrow> string list \<Rightarrow> 'd fed_world \<Rightarrow>
    (string \<times> member_summary list option) list \<times> 'd fed_world" where
  "fetch_details api now [] w = ([], w)"
| "fetch_details api now (pool # pools) w = (case pool_detail_of api now pool w of (v, w1) \<Rightarrow>
     (case fetch_details api now pools w1 of (vs, w2) \<Rightarrow> ((pool, map_option fst v) # vs, w2)))"

fun refresh_names :: "rat \<Rightarrow> (string \<times> member_summary list option) list \<Rightarrow> string list \<Rightarrow> fed_plugin \<Rightarrow>
    (py_error + unit) \<times> fed_plugin" where
  "refresh_names now details [] p = (Inr (), p)"
| "refresh_names now details (n # ns) p = (case dget (fs_resources (fp_state p)) n of
     None \<Rightarrow> refresh_names now details ns p
   | Some r \<Rightarrow> (case refresh_record (fp_state p) now
          (\<lambda>pool. case dget details pool of None \<Rightarrow> None | Some v \<Rightarrow> v) r of
        Inl e \<Rightarrow> (Inl e, p)
      | Inr r1 \<Rightarrow> refresh_names now details ns (set_record n r1 p)))"

definition refresh_due :: "'d dispatcher_api \<Rightarrow> rat \<Rightarrow> (string \<times> resource_record) list \<Rightarrow> 'd fed_world \<Rightarrow>
    (py_error + unit) \<times> 'd fed_world" where
  "refresh_due api now recs w =
    (let todo = filter (\<lambda>(n, r). due now r) recs in
     if todo = [] then (Inr (), w)
     else let pools = sort (remdups (concat (map (\<lambda>(n, r). map fm_pool_name (member_list r)) todo))) in
          case fetch_details api now pools w of (details, p, d) \<Rightarrow>
          (case refresh_names now details (map fst todo) p of (res, p1) \<Rightarrow> (res, p1, d)))"

definition refresh_all :: "'d dispatcher_api \<Rightarrow> rat \<Rightarrow> 'd fed_world \<Rightarrow> (py_error + unit) \<times> 'd fed_world" where
  "refresh_all api now w = refresh_due api now (fs_resources (fp_state (fst w))) w"

definition refresh_usage :: "'d dispatcher_api \<Rightarrow> rat \<Rightarrow> string \<Rightarrow> 'd fed_world \<Rightarrow> (py_error + unit) \<times> 'd fed_world" where
  "refresh_usage api now n w = refresh_due api now
     (case dget (fs_resources (fp_state (fst w))) n of None \<Rightarrow> [] | Some r \<Rightarrow> [(n, r)]) w"

end
