(* ===== verification/Federation_Routes.thy ===== *)
theory Federation_Routes
  imports Federation_Plugin
begin

text \<open>
  The routes of the federation plugin (\<^verbatim>\<open>plugin_federation.py\<close>): join, leave, resources, pick, submit and task, each
  from its first statement to its last.  A refused request answers with its HTTP status.  The choice of a class is
  the default policy's; creating the scratch directory of a join and the log lines are left out.
\<close>

section \<open>Sessions and requests\<close>

text \<open>Every route forces the re-attach first; \<open>known\<close> says whether the session id is registered.\<close>

definition require_session :: "'d dispatcher_api \<Rightarrow> rat \<Rightarrow> bool \<Rightarrow> 'd fed_world \<Rightarrow> (nat + unit) \<times> 'd fed_world" where
  "require_session api now known w = (if known then Inr () else Inl 404, ensure_replayed api now w)"

fun fed_status :: "fed_invalid \<Rightarrow> nat" where
  "fed_status (FieldRaised e) = 500"
| "fed_status _ = 400"

text \<open>\<open>(body or {}).get(k)\<close>.\<close>

definition body_get :: "pyval \<Rightarrow> string \<Rightarrow> nat + pyval" where
  "body_get body k = (case body of PDict d \<Rightarrow> Inr (pget d k) | v \<Rightarrow> if truthy v then Inl 500 else Inr PNone)"

definition fed_resource :: "string \<Rightarrow> fed_plugin \<Rightarrow> resource_record option" where
  "fed_resource n p = dget (fs_resources (fp_state p)) n"

section \<open>Join\<close>

fun add_members :: "'d dispatcher_api \<Rightarrow> resource_record \<Rightarrow> member_record list \<Rightarrow> member_record list \<Rightarrow> 'd \<Rightarrow>
    (nat + unit) \<times> member_record list \<times> 'd" where
  "add_members api r [] added d = (Inr (), added, d)"
| "add_members api r (m # ms) added d = (case da_add api FED_SID (fm_pool_name m) (member_decl r m) d of
     (Inl e, d1) \<Rightarrow> (Inl e, added, d1)
   | (Inr u, d1) \<Rightarrow> add_members api r ms (added @ [m]) d1)"

definition roll_back :: "'d dispatcher_api \<Rightarrow> member_record list \<Rightarrow> 'd \<Rightarrow> 'd" where
  "roll_back api added d =
    fold (\<lambda>m d. snd (da_del api FED_SID (fm_pool_name m) (fm_member_id m) (del_body False True True) d)) added d"

definition check_endpoint :: "fed_plugin \<Rightarrow> string \<Rightarrow> nat + unit" where
  "check_endpoint p ep =
    (if liveness_for p ep = ''lost'' then Inl 404
     else case dget (fp_participants p) ep of
       Some (live, role) \<Rightarrow> if role = ''broker'' then Inl 400 else Inr () | None \<Rightarrow> Inr ())"

definition join_record :: "join_env \<Rightarrow> dict \<Rightarrow> fed_plugin \<Rightarrow> nat + resource_record" where
  "join_record je body p = (case validate_join je body of
     Inl e \<Rightarrow> Inl (fed_status e)
   | Inr r0 \<Rightarrow>
      if dhas (fs_resources (fp_state p)) (fr_name r0) then Inl 409
      else rbind (check_endpoint p (fr_endpoint r0)) (\<lambda>_.
        case finish_join je body (r0\<lparr>fr_liveness := liveness_for p (fr_endpoint r0)\<rparr>) of
          Inl e \<Rightarrow> Inl (fed_status e) | Inr r \<Rightarrow> Inr r))"

definition attach_join :: "'d dispatcher_api \<Rightarrow> resource_record \<Rightarrow> 'd fed_world \<Rightarrow> (nat + unit) \<times> 'd fed_world" where
  "attach_join api r w = (case register_fed api [r] w of
     (Inl e, w1) \<Rightarrow> (Inl e, w1)
   | (Inr u, p, d) \<Rightarrow> (case add_members api r (member_list r) [] d of
        (Inl e, added, d1) \<Rightarrow> (Inl e, p, roll_back api added d1)
      | (Inr u, added, d1) \<Rightarrow>
          (Inr (), fed_persist (fold (\<lambda>m. add_attached (fm_member_id m)) (member_list r) (set_record (fr_name r) r p)), d1)))"

definition route_join :: "'d dispatcher_api \<Rightarrow> join_env \<Rightarrow> bool \<Rightarrow> pyval \<Rightarrow> 'd fed_world \<Rightarrow>
    (nat + resource_record) \<times> 'd fed_world" where
  "route_join api je known body w = (case require_session api (je_now je) known w of
     (Inl e, w1) \<Rightarrow> (Inl e, w1)
   | (Inr u, w1) \<Rightarrow> (case (case body of PDict b \<Rightarrow> join_record je b (fst w1) | _ \<Rightarrow> Inl 400) of
        Inl e \<Rightarrow> (Inl e, w1)
      | Inr r \<Rightarrow> (case attach_join api r w1 of
           (Inl e, w2) \<Rightarrow> (Inl e, w2) | (Inr u, w2) \<Rightarrow> (Inr r, w2))))"

section \<open>Leave\<close>

record leave_answer =
  lv_removed :: nat
  lv_errors :: "string list"
  lv_cancelled :: nat

definition leave_member :: "'d dispatcher_api \<Rightarrow> bool \<Rightarrow> member_record \<Rightarrow> (nat \<times> string list) \<times> 'd fed_world \<Rightarrow>
    (nat \<times> string list) \<times> 'd fed_world" where
  "leave_member api cancel m st = (case st of ((removed, errors), p, d) \<Rightarrow>
     (case da_del api FED_SID (fm_pool_name m) (fm_member_id m) (del_body cancel True True) d of (res, d1) \<Rightarrow>
        ((case res of
            Inr u \<Rightarrow> (removed + 1, errors)
          | Inl e \<Rightarrow> (removed, if e \<noteq> 404 \<or> fm_member_id m \<in> set (fp_attached p) then errors @ [fm_member_id m] else errors)),
         forget_detail (fm_pool_name m) (discard_attached (fm_member_id m) p), d1)))"

definition canceled_entry :: "rat \<Rightarrow> string \<Rightarrow> ledger_entry \<Rightarrow> ledger_entry" where
  "canceled_entry now res e = (if l_resource e = Some res \<and> \<not> entry_terminal e
     then e\<lparr>l_state := ''CANCELED'', l_finished_at := Some now\<rparr> else e)"

definition cancel_ledger :: "'d dispatcher_api \<Rightarrow> rat \<Rightarrow> string \<Rightarrow> 'd fed_world \<Rightarrow> nat \<times> 'd fed_world" where
  "cancel_ledger api now res w = (case w of (p, d) \<Rightarrow>
     let live = filter (\<lambda>e. \<not> entry_terminal e) (ledger_for (fp_state p) res);
         cancel = (\<lambda>e d. snd (da_cancel api (if l_dispatcher_sid e = '''' then FED_SID else l_dispatcher_sid e) (l_task_id e) d))
     in (length live,
         p\<lparr>fp_state := (fp_state p)\<lparr>fs_ledger := dmap_values (canceled_entry now res) (fs_ledger (fp_state p))\<rparr>\<rparr>,
         fold cancel live d))"

definition leave_resource :: "'d dispatcher_api \<Rightarrow> rat \<Rightarrow> bool \<Rightarrow> string \<Rightarrow> resource_record \<Rightarrow> 'd fed_world \<Rightarrow>
    leave_answer \<times> 'd fed_world" where
  "leave_resource api now cancel name r w =
    (case fold (leave_member api cancel) (member_list r) ((0, []), w) of ((removed, errors), w1) \<Rightarrow>
     (case (if cancel then cancel_ledger api now name w1 else (0, w1)) of (n, p, d) \<Rightarrow>
       (\<lparr>lv_removed = removed, lv_errors = errors, lv_cancelled = n\<rparr>,
        fed_persist (p\<lparr>fp_state := drop_resource name (\<not> cancel) (fp_state p)\<rparr>), d)))"

definition route_leave :: "'d dispatcher_api \<Rightarrow> rat \<Rightarrow> bool \<Rightarrow> pyval \<Rightarrow> string \<Rightarrow> 'd fed_world \<Rightarrow>
    (nat + leave_answer) \<times> 'd fed_world" where
  "route_leave api now known body name w = (case require_session api now known w of
     (Inl e, w1) \<Rightarrow> (Inl e, w1)
   | (Inr u, w1) \<Rightarrow> (case body_get body ''cancel_tasks'' of
        Inl e \<Rightarrow> (Inl e, w1)
      | Inr v \<Rightarrow> (case fed_resource name (fst w1) of
           None \<Rightarrow> (Inl 404, w1)
         | Some r \<Rightarrow> (case leave_resource api now (truthy v) name r w1 of (ans, w2) \<Rightarrow> (Inr ans, w2)))))"


section \<open>Listing and picking\<close>

definition route_resources :: "'d dispatcher_api \<Rightarrow> rat \<Rightarrow> bool \<Rightarrow> 'd fed_world \<Rightarrow> (nat + resource_record list) \<times> 'd fed_world" where
  "route_resources api now known w = (case require_session api now known w of
     (Inl e, w1) \<Rightarrow> (Inl e, w1)
   | (Inr u, w1) \<Rightarrow> (case refresh_all api now w1 of
        (Inl e, w2) \<Rightarrow> (Inl 500, w2)
      | (Inr u, w2) \<Rightarrow> (Inr (sort_key fr_name (fed_records (fst w2))), w2)))"

definition route_resource :: "'d dispatcher_api \<Rightarrow> rat \<Rightarrow> bool \<Rightarrow> string \<Rightarrow> 'd fed_world \<Rightarrow> (nat + resource_record) \<times> 'd fed_world" where
  "route_resource api now known name w = (case require_session api now known w of
     (Inl e, w1) \<Rightarrow> (Inl e, w1)
   | (Inr u, w1) \<Rightarrow>
      if fed_resource name (fst w1) = None then (Inl 404, w1)
      else (case refresh_usage api now name w1 of
        (Inl e, w2) \<Rightarrow> (Inl 500, w2)
      | (Inr u, w2) \<Rightarrow> (case fed_resource name (fst w2) of None \<Rightarrow> (Inl 404, w2) | Some r \<Rightarrow> (Inr r, w2))))"

definition fed_classes :: "fed_plugin \<Rightarrow> (string \<times> member_record list) list" where
  "fed_classes p = fold (\<lambda>r acc. fold (\<lambda>m acc. dset (fm_cls m)
     ((case dget acc (fm_cls m) of None \<Rightarrow> [] | Some ms \<Rightarrow> ms) @ [m]) acc) (member_list r) acc) (fed_records p) []"

definition fed_members :: "fed_plugin \<Rightarrow> member_record list" where
  "fed_members p = concat (map member_list (fed_records p))"

type_synonym ranking = "(member_record \<times> pyfloat) list"

text \<open>An exception of the policy is logged and reads as nothing fits.\<close>

definition fed_pick :: "rat \<Rightarrow> dict \<Rightarrow> fed_plugin \<Rightarrow> (string \<times> pyfloat \<times> ranking) option" where
  "fed_pick now req p = (case pick_class now req (fed_classes p) of
     Inl e \<Rightarrow> None
   | Inr None \<Rightarrow> None
   | Inr (Some (cls, score)) \<Rightarrow>
      (case eligible now req (case dget (fed_classes p) cls of None \<Rightarrow> [] | Some ms \<Rightarrow> ms) of
         Inl e \<Rightarrow> None | Inr ranked \<Rightarrow> Some (cls, score, ranked)))"

definition resource_of_member :: "string \<Rightarrow> string option" where
  "resource_of_member mid = (let r = fst (split_member_id mid) in if r = '''' then None else Some r)"

definition advisory_resource :: "ranking \<Rightarrow> string option" where
  "advisory_resource ranked = (case ranked of [] \<Rightarrow> None | (m, s) # _ \<Rightarrow> resource_of_member (fm_member_id m))"

text \<open>The body of the 409: why each member lost.\<close>

definition no_resource :: "rat \<Rightarrow> dict \<Rightarrow> fed_plugin \<Rightarrow> (string \<times> fed_reason) list" where
  "no_resource now req p = (case explain now req (fed_members p) of Inl e \<Rightarrow> [] | Inr rs \<Rightarrow> rs)"

datatype 'a placed = Placed 'a | NothingFits "(string \<times> fed_reason) list"

record pick_answer =
  pa_pool :: string
  pa_class :: string
  pa_members :: "(string \<times> string \<times> pyfloat) list"
  pa_resource :: "string option"
  pa_score :: pyfloat

definition member_view :: "ranking \<Rightarrow> (string \<times> string \<times> pyfloat) list" where
  "member_view ranked = map (\<lambda>(m, s). (fm_member_id m, fst (split_member_id (fm_member_id m)), round6 s)) ranked"

text \<open>\<open>requirements\<close> of a pick or submit body, an object or nothing.\<close>

definition body_requirements :: "pyval \<Rightarrow> nat + dict" where
  "body_requirements body = rbind (body_get body ''requirements'') (\<lambda>v.
     if \<not> truthy v then Inr [] else case v of PDict d \<Rightarrow> Inr d | _ \<Rightarrow> Inl 400)"

definition route_pick :: "'d dispatcher_api \<Rightarrow> rat \<Rightarrow> bool \<Rightarrow> pyval \<Rightarrow> 'd fed_world \<Rightarrow> (nat + pick_answer placed) \<times> 'd fed_world" where
  "route_pick api now known body w = (case require_session api now known w of
     (Inl e, w1) \<Rightarrow> (Inl e, w1)
   | (Inr u, w1) \<Rightarrow> (case body_requirements body of
        Inl e \<Rightarrow> (Inl e, w1)
      | Inr req \<Rightarrow> (case refresh_all api now w1 of
           (Inl e, w2) \<Rightarrow> (Inl 500, w2)
         | (Inr u, w2) \<Rightarrow> (case fed_pick now req (fst w2) of
              None \<Rightarrow> (Inr (NothingFits (no_resource now req (fst w2))), w2)
            | Some (cls, score, ranked) \<Rightarrow>
                (Inr (Placed \<lparr>pa_pool = pool_name_for_class cls, pa_class = cls, pa_members = member_view ranked,
                        pa_resource = advisory_resource ranked, pa_score = score\<rparr>), w2)))))"

section \<open>Submit\<close>

record fed_task =
  ft_task_id :: string
  ft_task :: dict
  ft_priority :: pyval
  ft_requirements :: dict
  ft_inputs_b64 :: dict

definition check_fed_task :: "pyval \<Rightarrow> nat + fed_task" where
  "check_fed_task body =
    rbind (body_get body ''task'') (\<lambda>tv.
    rbind (if \<not> truthy tv then Inr [] else case tv of PDict t \<Rightarrow> Inr t | _ \<Rightarrow> Inl 400) (\<lambda>t.
    rbind (guard_or (str_of (pget t ''task_id'') \<noteq> '''' \<and> (case pget t ''cmd'' of PList xs \<Rightarrow> xs \<noteq> [] | _ \<Rightarrow> False)) 400) (\<lambda>_.
    rbind (guard_or (\<not> truthy (pget t ''cwd'')) 400) (\<lambda>_.
    rbind (body_requirements body) (\<lambda>req.
    let priority = get_or t ''priority'' (PInt 0); files = pget t ''inputs_b64'' in
    rbind (guard_or (is_number priority) 400) (\<lambda>_.
    rbind (case files of PNone \<Rightarrow> Inr [] | PDict fs \<Rightarrow> if list_all (\<lambda>(k, v). is_str v) fs then Inr fs else Inl 400 | _ \<Rightarrow> Inl 400) (\<lambda>fs.
    Inr \<lparr>ft_task_id = str_of (pget t ''task_id''), ft_task = t, ft_priority = priority, ft_requirements = req,
         ft_inputs_b64 = fs\<rparr>)))))))"

definition fed_payload_of :: "string \<Rightarrow> fed_task \<Rightarrow> py_error + dict" where
  "fed_payload_of pool ft =
    rbind (py_int (ft_priority ft)) (\<lambda>priority.
    rbind (py_iter (get_or (ft_task ft) ''inputs'' (PList []))) (\<lambda>inputs.
    rbind (py_iter (get_or (ft_task ft) ''outputs'' (PList []))) (\<lambda>outputs.
    let forward = forward_requirements (ft_requirements ft) in
    Inr ([(''pool'', PStr pool), (''task_id'', PStr (ft_task_id ft)), (''cmd'', pget (ft_task ft) ''cmd''),
          (''priority'', PInt priority), (''inputs'', PList inputs), (''outputs'', PList outputs)] @
         (if forward = [] then [] else [(''requirements'', PDict forward)]) @
         (if ft_inputs_b64 ft = [] then [] else [(''inputs_b64'', PDict (ft_inputs_b64 ft))])))))"

definition submit_entry :: "rat \<Rightarrow> string \<Rightarrow> string option \<Rightarrow> string \<Rightarrow> dict \<Rightarrow> ledger_entry" where
  "submit_entry now tid resource cls result =
    \<lparr>l_task_id = tid, l_resource = resource, l_pool = pool_name_for_class cls, l_dispatcher_sid = FED_SID,
     l_state = (let s = str_of (pget result ''state'') in if s = '''' then ''QUEUED'' else s),
     l_submitted_at = now, l_finished_at = None, l_member_id = None, l_cls = cls, l_detail = ''''\<rparr>"

definition set_entry :: "string \<Rightarrow> ledger_entry \<Rightarrow> fed_plugin \<Rightarrow> fed_plugin" where
  "set_entry tid e p = p\<lparr>fp_state := (fp_state p)\<lparr>fs_ledger := dset tid e (fs_ledger (fp_state p))\<rparr>\<rparr>"

record submit_answer =
  sa_task :: dict
  sa_pool :: string
  sa_class :: string
  sa_resource :: "string option"
  sa_eligible :: "string list"

definition place_task :: "'d dispatcher_api \<Rightarrow> rat \<Rightarrow> fed_task \<Rightarrow> string \<Rightarrow> ranking \<Rightarrow> 'd fed_world \<Rightarrow>
    (nat + submit_answer) \<times> 'd fed_world" where
  "place_task api now ft cls ranked w = (case w of (p, d) \<Rightarrow>
     (case fed_payload_of (pool_name_for_class cls) ft of
        Inl e \<Rightarrow> (Inl 500, w)
      | Inr payload \<Rightarrow> (case da_submit api FED_SID payload d of
           (Inl e, d1) \<Rightarrow> (Inl e, p, d1)
         | (Inr result, d1) \<Rightarrow>
             (Inr \<lparr>sa_task = result, sa_pool = pool_name_for_class cls, sa_class = cls,
                   sa_resource = advisory_resource ranked, sa_eligible = map (fm_member_id \<circ> fst) ranked\<rparr>,
              fed_persist (set_entry (ft_task_id ft)
                (submit_entry now (ft_task_id ft) (advisory_resource ranked) cls result) p), d1))))"

definition fed_submit :: "'d dispatcher_api \<Rightarrow> rat \<Rightarrow> bool \<Rightarrow> pyval \<Rightarrow> 'd fed_world \<Rightarrow>
    (nat + submit_answer placed) \<times> 'd fed_world" where
  "fed_submit api now known body w = (case require_session api now known w of
     (Inl e, w1) \<Rightarrow> (Inl e, w1)
   | (Inr u, w1) \<Rightarrow> (case check_fed_task body of
        Inl e \<Rightarrow> (Inl e, w1)
      | Inr ft \<Rightarrow> (case refresh_all api now w1 of
           (Inl e, w2) \<Rightarrow> (Inl 500, w2)
         | (Inr u, w2) \<Rightarrow> (case fed_pick now (ft_requirements ft) (fst w2) of
              None \<Rightarrow> (Inr (NothingFits (no_resource now (ft_requirements ft) (fst w2))), w2)
            | Some (cls, score, ranked) \<Rightarrow> (case place_task api now ft cls ranked w2 of
                 (Inl e, w3) \<Rightarrow> (Inl e, w3) | (Inr ans, w3) \<Rightarrow> (Inr (Placed ans), w3))))))"

section \<open>Task\<close>

text \<open>What a poll writes into the ledger entry.\<close>

definition note_state :: "rat \<Rightarrow> dict \<Rightarrow> ledger_entry \<Rightarrow> ledger_entry" where
  "note_state now task e =
    (let s = str_of (pget task ''state''); state = (if s = '''' then l_state e else s) in
     if state = l_state e then e
     else if state \<in> {''DONE'', ''FAILED'', ''CANCELED''}
     then e\<lparr>l_state := state, l_finished_at := Some (case dec_rat (pget task ''finished_at'') of
            Some t \<Rightarrow> if t = 0 then now else t | None \<Rightarrow> now)\<rparr>
     else e\<lparr>l_state := state\<rparr>)"

definition note_member :: "dict \<Rightarrow> ledger_entry \<Rightarrow> ledger_entry" where
  "note_member task e =
    (let mid = str_of (pget task ''member_id'') in
     if mid \<noteq> '''' then (if Some mid = l_member_id e then e
        else e\<lparr>l_member_id := Some mid, l_resource := resource_of_member mid\<rparr>)
     else if l_member_id e \<noteq> None \<and> l_member_id e \<noteq> Some '''' \<and> \<not> entry_terminal e then e\<lparr>l_member_id := None\<rparr>
     else e)"

definition task_view :: "ledger_entry \<Rightarrow> dict \<Rightarrow> dict" where
  "task_view e task =
    (let mid = l_member_id e;
         member = (case mid of Some s \<Rightarrow> if s = '''' then PNone else PStr (snd (split_member_id s)) | None \<Rightarrow> PNone);
         t = dset ''resource'' (enc_opt PStr (l_resource e)) (dset ''member'' member (dset ''member_id'' (enc_opt PStr mid) task))
     in if l_cls e = '''' then t else dset ''class'' (PStr (l_cls e)) t)"

definition ledger_view :: "ledger_entry \<Rightarrow> dict" where
  "ledger_view e =
    (let mid = l_member_id e;
         t = [(''task_id'', PStr (l_task_id e)), (''state'', PStr (l_state e)), (''pool'', PStr (l_pool e)), (''pilot_id'', PNone),
              (''submitted_at'', enc_rat (l_submitted_at e)), (''finished_at'', enc_opt enc_rat (l_finished_at e)),
              (''member_id'', enc_opt PStr mid),
              (''member'', case mid of Some s \<Rightarrow> if s = '''' then PNone else PStr (snd (split_member_id s)) | None \<Rightarrow> PNone),
              (''resource'', enc_opt PStr (l_resource e)), (''dispatcher_sid'', PStr (l_dispatcher_sid e))]
     in t @ (if l_detail e = '''' then [] else [(''detail'', PStr (l_detail e))]) @
            (if l_cls e = '''' then [] else [(''class'', PStr (l_cls e))]))"

definition with_child :: "'d dispatcher_api \<Rightarrow> rat \<Rightarrow> ledger_entry \<Rightarrow> dict \<Rightarrow> 'd fed_world \<Rightarrow> dict \<times> 'd fed_world" where
  "with_child api now e task w =
    (let pid = str_of (pget task ''pilot_id'') in
     if l_pool e = '''' \<or> pid = '''' then (task, w)
     else case pool_detail_of api now (l_pool e) w of (v, w1) \<Rightarrow>
       ((case (case v of None \<Rightarrow> None | Some (ms, pilots) \<Rightarrow> find (\<lambda>p. p_pid p = pid) pilots) of
           None \<Rightarrow> task
         | Some p \<Rightarrow> dset ''child_endpoint'' (enc_opt PStr (p_child_endpoint_name p)) task), w1))"

definition route_task :: "'d dispatcher_api \<Rightarrow> rat \<Rightarrow> bool \<Rightarrow> string \<Rightarrow> 'd fed_world \<Rightarrow> (nat + dict) \<times> 'd fed_world" where
  "route_task api now known tid w = (case require_session api now known w of
     (Inl e, w1) \<Rightarrow> (Inl e, w1)
   | (Inr u, p, d) \<Rightarrow> (case dget (fs_ledger (fp_state p)) tid of
        None \<Rightarrow> (Inl 404, p, d)
      | Some e \<Rightarrow>
         if l_dispatcher_sid e \<noteq> '''' \<and> l_dispatcher_sid e \<noteq> FED_SID then (Inr (ledger_view e), p, d)
         else (case da_task api FED_SID tid d of
            Inl s \<Rightarrow> (Inl s, p, d)
          | Inr task \<Rightarrow>
             let e1 = note_member task (note_state now task e);
                 p1 = (if e1 = e then p else fed_persist (set_entry tid e1 p))
             in case with_child api now e1 (task_view e1 task) (p1, d) of (t, w1) \<Rightarrow> (Inr t, w1))))"

end
