(* ===== verification/Federation_Contract.thy ===== *)
theory Federation_Contract
  imports Federation_Routes
begin

text \<open>
  What the federation relies on when it drives the dispatcher, as the locale \<open>class_pools\<close>: which members a class
  pool lists after each call.  The invariant of the federation is proved inside it, for every sequence of requests,
  and the locale is interpreted on the dispatcher's own routes.
\<close>

section \<open>Well-formed records\<close>

text \<open>A record is stored under its name, and a member under its name, which has no dot: the id of a member names the
  resource and the member.\<close>

definition record_ok :: "string \<Rightarrow> resource_record \<Rightarrow> bool" where
  "record_ok n r \<longleftrightarrow> fr_name r = n \<and> dict_ok (fr_members r) \<and>
     list_all (\<lambda>(k, m). fm_member_id m = make_member_id n k \<and> CHR ''.'' \<notin> set k) (fr_members r)"

definition records_ok :: "federation_state \<Rightarrow> bool" where
  "records_ok s \<longleftrightarrow> dict_ok (fs_resources s) \<and> (\<forall>n r. dget (fs_resources s) n = Some r \<longrightarrow> record_ok n r)"

text \<open>An attached member belongs to a record, and the class pool of that record's member lists it.\<close>

definition member_at :: "fed_plugin \<Rightarrow> string \<Rightarrow> string \<Rightarrow> bool" where
  "member_at p pool mid \<longleftrightarrow> (\<exists>n r m. fed_resource n p = Some r \<and> m \<in> set (member_list r) \<and>
     fm_member_id m = mid \<and> fm_pool_name m = pool)"

definition attached_ok :: "(string \<times> string) set \<Rightarrow> fed_plugin \<Rightarrow> bool" where
  "attached_ok ls p \<longleftrightarrow> (\<forall>mid \<in> set (fp_attached p). \<exists>pool. member_at p pool mid \<and> (pool, mid) \<in> ls)"

definition fed_inv :: "(string \<times> string) set \<Rightarrow> fed_plugin \<Rightarrow> bool" where
  "fed_inv ls p \<longleftrightarrow> records_ok (fp_state p) \<and> records_ok (fp_disk p) \<and> attached_ok ls p"

lemma member_id_inj:
  assumes "make_member_id n k = make_member_id n' k'" "CHR ''.'' \<notin> set k" "CHR ''.'' \<notin> set k'"
  shows "n = n' \<and> k = k'"
proof -
  have "(n, k) = (n', k')"
    using split_make_member_id [OF assms(2), of n, unfolded assms(1)] split_make_member_id [OF assms(3), of n'] by (rule trans [OF sym])
  then show ?thesis by simp
qed

lemma record_member:
  assumes "record_ok n r" "m \<in> set (member_list r)"
  obtains k where "dget (fr_members r) k = Some m" "fm_member_id m = make_member_id n k" "CHR ''.'' \<notin> set k"
proof -
  obtain k where "(k, m) \<in> set (fr_members r)" using assms(2) by (auto simp: member_list_def)
  moreover have "dict_ok (fr_members r)" using assms(1) by (simp add: record_ok_def)
  ultimately have "dget (fr_members r) k = Some m" by (simp only: dict_ok_dget)
  moreover have "fm_member_id m = make_member_id n k \<and> CHR ''.'' \<notin> set k"
    using assms(1) \<open>(k, m) \<in> set (fr_members r)\<close> by (auto simp: record_ok_def list_all_iff)
  ultimately show ?thesis using that by blast
qed

lemma member_atI: "fed_resource n p = Some r \<Longrightarrow> m \<in> set (member_list r) \<Longrightarrow> member_at p (fm_pool_name m) (fm_member_id m)"
  unfolding member_at_def by blast

text \<open>Two members with one id are one member of one record.\<close>

lemma same_member:
  assumes "records_ok (fp_state p)" "fed_resource n p = Some r" "m \<in> set (member_list r)"
    "fed_resource n' p = Some r'" "m' \<in> set (member_list r')" "fm_member_id m = fm_member_id m'"
  shows "n = n' \<and> r = r' \<and> m = m'"
proof -
  have ok: "record_ok n r" "record_ok n' r'" using assms by (auto simp: records_ok_def fed_resource_def)
  obtain k where k: "dget (fr_members r) k = Some m" "fm_member_id m = make_member_id n k" "CHR ''.'' \<notin> set k"
    using record_member [OF ok(1) assms(3)] .
  obtain k' where k': "dget (fr_members r') k' = Some m'" "fm_member_id m' = make_member_id n' k'" "CHR ''.'' \<notin> set k'"
    using record_member [OF ok(2) assms(5)] .
  have "n = n' \<and> k = k'" using member_id_inj [of n k n' k'] k k' assms(6) by simp
  then show ?thesis using assms(2,4) k(1) k'(1) by auto
qed

lemma attached_grow: "attached_ok ls p \<Longrightarrow> ls \<subseteq> ls' \<Longrightarrow> attached_ok ls' p"
  unfolding attached_ok_def by blast

lemma fed_inv_grow: "fed_inv ls p \<Longrightarrow> ls \<subseteq> ls' \<Longrightarrow> fed_inv ls' p"
  unfolding fed_inv_def using attached_grow by blast

text \<open>What the invariant reads of the plugin state.\<close>

lemma fed_inv_cong:
  "fs_resources (fp_state p') = fs_resources (fp_state p) \<Longrightarrow> fp_disk p' = fp_disk p \<Longrightarrow> fp_attached p' = fp_attached p \<Longrightarrow>
     fed_inv ls p' = fed_inv ls p"
  by (simp add: fed_inv_def records_ok_def attached_ok_def member_at_def fed_resource_def)

lemma fed_persist_inv: "fed_inv ls p \<Longrightarrow> fed_inv ls (fed_persist p)"
  by (simp add: fed_inv_def fed_persist_def attached_ok_def member_at_def fed_resource_def)

lemma fed_inv_simps [simp]:
  "fed_inv ls (forget_detail pool p) = fed_inv ls p"
  "fed_inv ls (set_entry tid e p) = fed_inv ls p" "fed_inv ls (p\<lparr>fp_cache := c\<rparr>) = fed_inv ls p"
  "fed_inv ls (p\<lparr>fp_replayed := b\<rparr>) = fed_inv ls p" "fed_inv ls (p\<lparr>fp_participants := ps\<rparr>) = fed_inv ls p"
  "fed_inv ls (p\<lparr>fp_pools := qs\<rparr>) = fed_inv ls p"
  by (rule fed_inv_cong; simp add: fed_persist_def forget_detail_def set_entry_def)+

lemma resource_simps [simp]:
  "fed_resource n (fed_persist p) = fed_resource n p" "fed_resource n (forget_detail pool p) = fed_resource n p"
  "fed_resource n (discard_attached mid p) = fed_resource n p" "fed_resource n (add_attached mid p) = fed_resource n p"
  "fed_resource n (set_record n' r p) = (if n = n' then Some r else fed_resource n p)"
  "fed_resource n (p\<lparr>fp_pools := qs\<rparr>) = fed_resource n p"
  by (simp_all add: fed_resource_def fed_persist_def forget_detail_def discard_attached_def add_attached_def set_record_def)

lemma attached_simps [simp]:
  "set (fp_attached (add_attached mid p)) = insert mid (set (fp_attached p))"
  "set (fp_attached (discard_attached mid p)) = set (fp_attached p) - {mid}"
  "fp_attached (forget_detail pool p) = fp_attached p" "fp_attached (fed_persist p) = fp_attached p"
  "fp_attached (set_record n r p) = fp_attached p" "fp_participants (set_record n r p) = fp_participants p"
  by (auto simp: add_attached_def discard_attached_def forget_detail_def fed_persist_def set_record_def)

lemma records_simps [simp]:
  "fp_state (add_attached mid p) = fp_state p" "fp_state (discard_attached mid p) = fp_state p"
  "fp_state (forget_detail pool p) = fp_state p" "fp_state (fed_persist p) = fp_state p"
  by (simp_all add: add_attached_def discard_attached_def forget_detail_def fed_persist_def)

lemma disk_simps [simp]:
  "fp_disk (add_attached mid p) = fp_disk p" "fp_disk (discard_attached mid p) = fp_disk p" "fp_disk (set_record n r p) = fp_disk p"
  by (simp_all add: add_attached_def discard_attached_def set_record_def)

lemma member_at_simps [simp]:
  "member_at (add_attached mid' p) = member_at p" "member_at (discard_attached mid' p) = member_at p"
  by (simp_all add: member_at_def fun_eq_iff)

lemma add_attached_inv:
  assumes "fed_inv ls p" "fed_resource n p = Some r" "m \<in> set (member_list r)"
  shows "fed_inv (insert (fm_pool_name m, fm_member_id m) ls) (add_attached (fm_member_id m) p)"
  using assms member_atI [OF assms(2,3)] unfolding fed_inv_def attached_ok_def by auto

lemma discard_inv:
  assumes "fed_inv ls p" "ls - {(pool, mid)} \<subseteq> ls'"
  shows "fed_inv ls' (discard_attached mid p)"
  using assms unfolding fed_inv_def attached_ok_def by auto blast

text \<open>A record may be replaced by one with the same members up to what the invariant reads.\<close>

definition same_members :: "resource_record \<Rightarrow> resource_record \<Rightarrow> bool" where
  "same_members r r' \<longleftrightarrow> fr_name r' = fr_name r \<and> map fst (fr_members r') = map fst (fr_members r) \<and>
     list_all2 (\<lambda>m m'. fm_member_id m' = fm_member_id m \<and> fm_pool_name m' = fm_pool_name m) (member_list r) (member_list r')"

lemma same_members_record_ok:
  assumes "same_members r r'" "record_ok n r"
  shows "record_ok n r'"
proof -
  have "list_all (\<lambda>(k, m). fm_member_id m = make_member_id n k \<and> CHR ''.'' \<notin> set k) xs"
    if "list_all2 (\<lambda>m m'. fm_member_id m' = fm_member_id m \<and> fm_pool_name m' = fm_pool_name m) (map snd ys) (map snd xs)"
      "map fst xs = map fst ys" "list_all (\<lambda>(k, m). fm_member_id m = make_member_id n k \<and> CHR ''.'' \<notin> set k) ys"
    for xs ys :: "(string \<times> member_record) list"
    using that
  proof (induction ys arbitrary: xs)
    case (Cons y ys)
    then show ?case by (cases xs) auto
  qed simp
  then show ?thesis using assms by (auto simp: record_ok_def same_members_def member_list_def dict_ok_def)
qed

lemma same_members_ex:
  assumes "same_members r r'" "m \<in> set (member_list r)"
  shows "\<exists>m' \<in> set (member_list r'). fm_member_id m' = fm_member_id m \<and> fm_pool_name m' = fm_pool_name m"
proof -
  obtain i where i: "i < length (member_list r)" "m = member_list r ! i" using assms(2) unfolding in_set_conv_nth by blast
  note all = assms(1) [unfolded same_members_def list_all2_conv_all_nth]
  have "member_list r' ! i \<in> set (member_list r')" using all i(1) by (intro nth_mem) simp
  then show ?thesis using all i by blast
qed

lemma member_at_set_record:
  assumes "member_at p pool mid" "fed_resource n p = Some r" "same_members r r'"
  shows "member_at (set_record n r' p) pool mid"
proof -
  obtain n1 r1 m where m: "fed_resource n1 p = Some r1" "m \<in> set (member_list r1)" "fm_member_id m = mid" "fm_pool_name m = pool"
    using assms(1) by (auto simp: member_at_def)
  show ?thesis
  proof (cases "n1 = n")
    case True
    then obtain m' where "m' \<in> set (member_list r')" "fm_member_id m' = mid" "fm_pool_name m' = pool"
      using same_members_ex [OF assms(3)] m assms(2) by auto
    then show ?thesis using member_atI [of n "set_record n r' p" r' m'] by simp
  next
    case False
    then show ?thesis using member_atI [of n1 "set_record n r' p" r1 m] m by simp
  qed
qed

lemma set_record_inv:
  assumes "fed_inv ls p" "fed_resource n p = Some r" "same_members r r'"
  shows "fed_inv ls (set_record n r' p)"
proof -
  have "record_ok n r'" using assms same_members_record_ok by (auto simp: fed_inv_def records_ok_def fed_resource_def)
  then have "records_ok (fp_state (set_record n r' p))" using assms(1) by (auto simp: fed_inv_def records_ok_def set_record_def)
  moreover have "attached_ok ls (set_record n r' p)"
    using assms(1) member_at_set_record [OF _ assms(2,3)] unfolding fed_inv_def attached_ok_def by simp blast
  ultimately show ?thesis using assms(1) by (simp add: fed_inv_def)
qed

lemma same_members_set_liveness: "same_members r (set_liveness live r)"
  by (simp add: same_members_def set_liveness_def member_list_def list_all2_conv_all_nth)

lemma same_members_refresh:
  assumes "refresh_record s now details r = Inr r'"
  shows "same_members r r'"
proof -
  note sel = refresh_record_sel [OF assms]
  have name: "fr_name r' = fr_name r" using arg_cong [OF conjunct2 [OF conjunct2 [OF sel]], of fr_name] by simp
  have "fm_member_id m' = fm_member_id m \<and> fm_pool_name m' = fm_pool_name m" if "m' = m\<lparr>fm_usage := fm_usage m'\<rparr>" for m m'
    using arg_cong [OF that, of fm_member_id] arg_cong [OF that, of fm_pool_name] by simp
  then have "list_all2 (\<lambda>m m'. fm_member_id m' = fm_member_id m \<and> fm_pool_name m' = fm_pool_name m) (member_list r) (member_list r')"
    by (rule list_all2_mono [OF conjunct1 [OF conjunct2 [OF sel]]])
  with name conjunct1 [OF sel] show ?thesis by (simp add: same_members_def)
qed


section \<open>Liveness applied\<close>

text \<open>A member whose endpoint is lost or whose allocation ended is not attached; a usable one is, and has time left.\<close>

definition settled :: "rat \<Rightarrow> string \<Rightarrow> string set \<Rightarrow> member_record \<Rightarrow> bool" where
  "settled now target att m \<longleftrightarrow>
     (target = ''lost'' \<or> allocation_ended now m \<longrightarrow> fm_member_id m \<notin> att)"

definition usable :: "rat \<Rightarrow> string set \<Rightarrow> member_record \<Rightarrow> bool" where
  "usable now att m \<longleftrightarrow> \<not> allocation_ended now m \<and> fm_member_id m \<in> att"

lemma settled_liveness [simp]:
  "settled now target att (m\<lparr>fm_liveness := live\<rparr>) = settled now target att m"
  "usable now att (m\<lparr>fm_liveness := live\<rparr>) = usable now att m"
  by (simp_all add: settled_def usable_def allocation_ended_def end_time_set_def end_time_of_def)

lemma set_liveness_sel [simp]:
  "fr_liveness (set_liveness live r) = live" "fr_endpoint (set_liveness live r) = fr_endpoint r"
  "member_list (set_liveness live r) = map (\<lambda>m. m\<lparr>fm_liveness := live\<rparr>) (member_list r)"
  by (simp_all add: set_liveness_def member_list_def)

definition resource_settled :: "rat \<Rightarrow> fed_plugin \<Rightarrow> string \<Rightarrow> bool" where
  "resource_settled now p n \<longleftrightarrow> (\<forall>r. fed_resource n p = Some r \<longrightarrow>
     (\<forall>m \<in> set (member_list r). settled now (liveness_for p (fr_endpoint r)) (set (fp_attached p)) m) \<and>
     (fr_liveness r = ''ok'' \<longrightarrow> liveness_for p (fr_endpoint r) = ''ok'' \<and>
        (\<forall>m \<in> set (member_list r). usable now (set (fp_attached p)) m)))"

lemma distinct_member_ids:
  assumes "record_ok n r"
  shows "distinct (map fm_member_id (member_list r))"
proof -
  have "distinct (map fst xs) \<Longrightarrow> list_all (\<lambda>(k, m). fm_member_id m = make_member_id n k \<and> CHR ''.'' \<notin> set k) xs \<Longrightarrow>
      distinct (map fm_member_id (map snd xs))" for xs
  proof (induction xs)
    case (Cons x xs)
    obtain k m where x: "x = (k, m)" by (cases x)
    have "fm_member_id m \<noteq> fm_member_id m'" if "(k', m') \<in> set xs" for k' m'
    proof -
      have "k \<noteq> k'" using Cons.prems(1) that x by (force simp: image_iff)
      then show ?thesis using Cons.prems(2) that x member_id_inj [of n k n k'] by (auto simp: list_all_iff)
    qed
    then have "fm_member_id m \<notin> set (map fm_member_id (map snd xs))" by force
    then show ?case using Cons x by simp
  qed simp
  from this [of "fr_members r"] show ?thesis using assms unfolding record_ok_def member_list_def dict_ok_def by blast
qed

section \<open>The contract\<close>

locale class_pools =
  fixes api :: "'d dispatcher_api" and listed :: "'d \<Rightarrow> (string \<times> string) set"
  assumes register_listed: "listed d \<subseteq> listed (snd (da_register api sid decls d))"
    and unregister_listed: "sid \<noteq> FED_SID \<Longrightarrow> listed d \<subseteq> listed (snd (da_unregister api sid d))"
    and add_listed: "da_add api FED_SID pool b d = (Inr u, d') \<Longrightarrow> pget b ''member_id'' = PStr mid \<Longrightarrow>
      listed d' = insert (pool, mid) (listed d)"
    and add_refused: "da_add api FED_SID pool b d = (Inl e, d') \<Longrightarrow> listed d' = listed d"
    and del_listed: "listed d - {(pool, mid)} \<subseteq> listed (snd (da_del api FED_SID pool mid b d))"
    and cancel_listed: "listed d \<subseteq> listed (snd (da_cancel api sid tid d))"
    and submit_listed: "listed d \<subseteq> listed (snd (da_submit api sid b d))"
begin

definition inv :: "'d fed_world \<Rightarrow> bool" where
  "inv w \<longleftrightarrow> fed_inv (listed (snd w)) (fst w)"

lemma inv_grow: "fed_inv (listed d) p \<Longrightarrow> listed d \<subseteq> listed d' \<Longrightarrow> inv (p, d')"
  by (simp add: inv_def) (rule fed_inv_grow)

lemma decl_id: "pget (member_decl r m) ''member_id'' = PStr (fm_member_id m)"
  by (simp add: member_decl_def pget_def)

text \<open>Attaching and detaching.\<close>

lemma attach_spec:
  assumes "attach api r m (p, d) = (ok, p', d')"
  shows "p' = (if ok then add_attached (fm_member_id m) p else p)"
    and "listed d' = (if ok then insert (fm_pool_name m, fm_member_id m) (listed d) else listed d)"
  using assms add_listed [OF _ decl_id] add_refused by (auto simp: attach_def split: prod.splits sum.splits)

lemma attach_inv:
  assumes "inv w" "fed_resource n (fst w) = Some r" "m \<in> set (member_list r)" "attach api r m w = (ok, w')"
  shows "inv w'"
proof -
  obtain p d where w: "w = (p, d)" by (cases w)
  obtain p' d' where w': "w' = (p', d')" by (cases w')
  show ?thesis
    using assms attach_spec [OF assms(4) [unfolded w w']] add_attached_inv [of "listed d" p n r m] by (simp add: w w' inv_def)
qed

lemma detach_spec:
  "fp_attached (fst (detach api m w)) = filter (\<lambda>x. x \<noteq> fm_member_id m) (fp_attached (fst w))"
  "fp_state (fst (detach api m w)) = fp_state (fst w)"
  by (auto simp: detach_def discard_attached_def forget_detail_def split: prod.splits)

lemma detach_inv: "inv w \<Longrightarrow> inv (detach api m w)"
proof (cases w)
  case (Pair p d)
  assume inv: "inv w"
  obtain res d1 where d1: "da_del api FED_SID (fm_pool_name m) (fm_member_id m) (del_body False True False) d = (res, d1)" by fastforce
  have "listed d - {(fm_pool_name m, fm_member_id m)} \<subseteq> listed d1"
    using del_listed [of d "fm_pool_name m" "fm_member_id m"] d1 by (metis snd_conv)
  then show ?thesis using inv discard_inv by (simp add: Pair detach_def d1 inv_def)
qed

lemma register_inv: "inv w \<Longrightarrow> register_fed api extra w = (res, w') \<Longrightarrow> inv w'"
  using register_listed [of "snd w" FED_SID "class_pool_decls (fed_records (fst w) @ extra)"]
  by (auto simp: register_fed_def Let_def inv_def split: if_splits prod.splits sum.splits intro: fed_inv_grow)

lemma register_frame:
  "register_fed api extra w = (res, w') \<Longrightarrow> fp_attached (fst w') = fp_attached (fst w) \<and> fp_state (fst w') = fp_state (fst w)"
  by (auto simp: register_fed_def Let_def split: if_splits prod.splits sum.splits)

lemma attach_frame:
  "attach api r m w = (ok, w') \<Longrightarrow> fp_state (fst w') = fp_state (fst w) \<and>
     set (fp_attached (fst w')) = (if ok then insert (fm_member_id m) (set (fp_attached (fst w))) else set (fp_attached (fst w)))"
  by (cases w, cases w') (auto dest: attach_spec(1))

section \<open>The topology handler\<close>

text \<open>One member: what is attached after it, and what it means that the resource still reads \<open>ok\<close>.\<close>

lemma sync_member_cases:
  assumes "sync_member api now target r m (result, w) = (result', w')"
  obtains
    (lost) "target = ''lost'' \<or> allocation_ended now m" "result' = (if allocation_ended now m then ''lost'' else result)"
      "w' = (if fm_member_id m \<in> set (fp_attached (fst w)) then detach api m w else w)"
  | (kept) "target \<noteq> ''lost''" "\<not> allocation_ended now m" "w' = w" "result' = result"
      "target = ''suspect'' \<or> fm_member_id m \<in> set (fp_attached (fst w))"
  | (failed) e where "target \<noteq> ''lost''" "\<not> allocation_ended now m" "register_fed api [] w = (Inl e, w')" "result' = ''lost''"
  | (tried) w1 ok where "target \<noteq> ''lost''" "\<not> allocation_ended now m" "w1 = w \<or> register_fed api [] w = (Inr (), w1)"
      "attach api r m w1 = (ok, w')" "result' = (if ok then result else ''lost'')"
proof -
  let ?at = "fm_member_id m \<in> set (fp_attached (fst w))"
  let ?reg = "if fm_pool_name m \<notin> set (fp_pools (fst w)) then register_fed api [] w else (Inr (), w)"
  show thesis
  proof (cases "target = ''lost'' \<or> allocation_ended now m")
    case True
    then show ?thesis using assms by (intro lost) (auto simp: sync_member_def Let_def split: if_splits)
  next
    case False
    note live = this
    show ?thesis
    proof (cases "target = ''suspect'' \<or> ?at")
      case True
      then show ?thesis using assms live by (intro kept) (auto simp: sync_member_def Let_def split: if_splits)
    next
      case False
      obtain res w1 where reg: "?reg = (res, w1)" by (cases ?reg)
      obtain ok w2 where att: "attach api r m w1 = (ok, w2)" by (cases "attach api r m w1")
      have step: "sync_member api now target r m (result, w) = (case res of Inl e \<Rightarrow> (''lost'', w1)
          | Inr u \<Rightarrow> (if ok then result else ''lost'', w2))"
        using live False reg att by (simp add: sync_member_def Let_def split: sum.splits)
      show ?thesis
      proof (cases res)
        case (Inl e)
        then show ?thesis using step reg assms live by (intro failed [of e]) (auto split: if_splits)
      next
        case (Inr u)
        then show ?thesis using step reg att assms live by (intro tried [of w1 ok]) (auto split: if_splits)
      qed
    qed
  qed
qed

lemma sync_member_spec:
  assumes "sync_member api now target r m (result, w) = (result', w')"
  shows "fp_state (fst w') = fp_state (fst w) \<and>
    (mid \<noteq> fm_member_id m \<longrightarrow> (mid \<in> set (fp_attached (fst w')) \<longleftrightarrow> mid \<in> set (fp_attached (fst w)))) \<and>
    settled now target (set (fp_attached (fst w'))) m \<and>
    (result' = ''ok'' \<longrightarrow> result = ''ok'' \<and> (target = ''ok'' \<longrightarrow> usable now (set (fp_attached (fst w'))) m))"
  using assms
proof (cases rule: sync_member_cases)
  case (tried w1 ok)
  have "fp_attached (fst w1) = fp_attached (fst w) \<and> fp_state (fst w1) = fp_state (fst w)"
    using tried(3) register_frame by blast
  then show ?thesis using attach_frame [OF tried(4)] tried by (auto simp: settled_def usable_def)
qed (use detach_spec [of m w] in \<open>auto simp: settled_def usable_def dest!: register_frame\<close>)

lemma sync_member_inv:
  assumes "sync_member api now target r m (result, w) = (result', w')" "inv w" "fed_resource n (fst w) = Some r" "m \<in> set (member_list r)"
  shows "inv w'"
  using assms(1)
proof (cases rule: sync_member_cases)
  case (tried w1 ok)
  have "inv w1" using tried(3) assms(2) register_inv by metis
  moreover have "fp_state (fst w1) = fp_state (fst w)" using tried(3) register_frame by metis
  then have "fed_resource n (fst w1) = Some r" using assms(3) by (simp add: fed_resource_def)
  ultimately show ?thesis using attach_inv [OF _ _ assms(4) tried(4)] by blast
qed (use assms detach_inv register_inv in auto)

lemma sync_fold:
  assumes "fold (sync_member api now target r) ms (result, w) = (result', w')"
    and "inv w" "fed_resource n (fst w) = Some r" "set ms \<subseteq> set (member_list r)" "distinct (map fm_member_id ms)"
  shows "inv w' \<and> fp_state (fst w') = fp_state (fst w) \<and>
    (\<forall>mid. mid \<notin> fm_member_id ` set ms \<longrightarrow> (mid \<in> set (fp_attached (fst w')) \<longleftrightarrow> mid \<in> set (fp_attached (fst w)))) \<and>
    (\<forall>m \<in> set ms. settled now target (set (fp_attached (fst w'))) m) \<and>
    (result' = ''ok'' \<longrightarrow> result = ''ok'' \<and> (target = ''ok'' \<longrightarrow> (\<forall>m \<in> set ms. usable now (set (fp_attached (fst w'))) m)))"
  using assms
proof (induction ms arbitrary: result w)
  case (Cons m ms)
  obtain res1 w1 where s: "sync_member api now target r m (result, w) = (res1, w1)"
    by (cases "sync_member api now target r m (result, w)")
  note spec = sync_member_spec [OF s]
  have "inv w1" using sync_member_inv [OF s Cons.prems(2,3)] Cons.prems(4) by simp
  moreover have "fed_resource n (fst w1) = Some r" using Cons.prems(3) spec by (simp add: fed_resource_def)
  ultimately have IH: "inv w' \<and> fp_state (fst w') = fp_state (fst w1) \<and>
    (\<forall>mid. mid \<notin> fm_member_id ` set ms \<longrightarrow> (mid \<in> set (fp_attached (fst w')) \<longleftrightarrow> mid \<in> set (fp_attached (fst w1)))) \<and>
    (\<forall>m \<in> set ms. settled now target (set (fp_attached (fst w'))) m) \<and>
    (result' = ''ok'' \<longrightarrow> res1 = ''ok'' \<and> (target = ''ok'' \<longrightarrow> (\<forall>m \<in> set ms. usable now (set (fp_attached (fst w'))) m)))"
    using Cons.IH [of res1 w1] Cons.prems s by simp
  have new: "fm_member_id m \<notin> fm_member_id ` set ms" using Cons.prems(5) by simp
  then have at: "fm_member_id m \<in> set (fp_attached (fst w')) \<longleftrightarrow> fm_member_id m \<in> set (fp_attached (fst w1))" using IH by blast
  have "settled now target (set (fp_attached (fst w'))) m" using spec at by (simp add: settled_def)
  moreover have "usable now (set (fp_attached (fst w'))) m" if "usable now (set (fp_attached (fst w1))) m"
    using that at by (simp add: usable_def)
  ultimately show ?case using IH spec by (auto simp del: fold.simps)
qed simp

lemma participants_frame:
  "fp_participants (fst (snd (attach api r m w))) = fp_participants (fst w)"
  "fp_participants (fst (detach api m w)) = fp_participants (fst w)"
  "fp_participants (fst (snd (register_fed api extra w))) = fp_participants (fst w)"
  by (auto simp: attach_def detach_def register_fed_def Let_def discard_attached_def add_attached_def forget_detail_def
      split: prod.splits sum.splits)

lemma sync_member_participants:
  assumes "sync_member api now target r m (result, w) = (result', w')"
  shows "fp_participants (fst w') = fp_participants (fst w)"
  using assms
proof (cases rule: sync_member_cases)
  case (tried w1 ok)
  then show ?thesis using participants_frame(1) [of r m w1] participants_frame(3) [of "[]" w] by auto
next
  case (failed e)
  then show ?thesis using participants_frame(3) [of "[]" w] by simp
qed (simp_all add: participants_frame)

lemma sync_fold_participants:
  "fp_participants (fst (snd (fold (sync_member api now target r) ms (result, w)))) = fp_participants (fst w)"
proof (induction ms arbitrary: result w)
  case (Cons m ms)
  obtain res1 w1 where s: "sync_member api now target r m (result, w) = (res1, w1)"
    by (cases "sync_member api now target r m (result, w)")
  show ?case using Cons.IH [of res1 w1] sync_member_participants [OF s] s by simp
qed simp

lemma sync_resource_spec:
  assumes "sync_resource api now n (dirty, w) = (dirty', w')" "inv w"
  shows "inv w'" and "resource_settled now (fst w') n" and "fp_participants (fst w') = fp_participants (fst w)"
    and "n' \<noteq> n \<Longrightarrow> fed_resource n' (fst w') = fed_resource n' (fst w)"
    and "n' \<noteq> n \<Longrightarrow> resource_settled now (fst w) n' \<Longrightarrow> resource_settled now (fst w') n'"
    and "(fed_resource n (fst w') = None) = (fed_resource n (fst w) = None)"
proof -
  have "inv w' \<and> resource_settled now (fst w') n \<and> fp_participants (fst w') = fp_participants (fst w) \<and>
    (n' \<noteq> n \<longrightarrow> fed_resource n' (fst w') = fed_resource n' (fst w)) \<and>
    (n' \<noteq> n \<longrightarrow> resource_settled now (fst w) n' \<longrightarrow> resource_settled now (fst w') n') \<and>
    (fed_resource n (fst w') = None) = (fed_resource n (fst w) = None)"
  proof (cases "fed_resource n (fst w)")
    case None
    then have "w' = w" using assms(1) by (simp add: sync_resource_def fed_resource_def)
    then show ?thesis using assms(2) None by (simp add: resource_settled_def)
  next
    case (Some r)
    let ?t = "liveness_for (fst w) (fr_endpoint r)"
    obtain result p d where f: "fold (sync_member api now ?t r) (member_list r) (?t, w) = (result, p, d)"
      by (cases "fold (sync_member api now ?t r) (member_list r) (?t, w)") auto
    have w': "w' = (set_record n (set_liveness result r) p, d)"
      using assms(1) Some f by (simp add: sync_resource_def fed_resource_def Let_def)
    have recs: "records_ok (fp_state (fst w))" using assms(2) by (simp add: inv_def fed_inv_def)
    then have rok: "record_ok n r" using Some by (simp add: records_ok_def fed_resource_def)
    note sync = sync_fold [OF f assms(2) Some subset_refl distinct_member_ids [OF rok], simplified]
    have parts: "fp_participants p = fp_participants (fst w)"
      using sync_fold_participants [of now ?t r "member_list r" ?t w] f by simp
    have res: "fed_resource k p = fed_resource k (fst w)" for k using sync by (simp add: fed_resource_def)
    have live: "liveness_for (fst w') ep = liveness_for (fst w) ep" for ep
      by (simp add: w' liveness_for_def parts set_record_def)
    have inv': "inv w'" using sync set_record_inv [of "listed d" p n r] Some res same_members_set_liveness
      by (simp add: w' inv_def)
    have mine: "resource_settled now (fst w') n"
      unfolding resource_settled_def live using sync
      by (auto simp: w')
    have other: "resource_settled now (fst w') n'" if "n' \<noteq> n" "resource_settled now (fst w) n'"
    proof -
      have "fm_member_id m \<in> set (fp_attached (fst w')) \<longleftrightarrow> fm_member_id m \<in> set (fp_attached (fst w))"
        if "fed_resource n' (fst w) = Some r'" "m \<in> set (member_list r')" for r' m
      proof -
        have "fm_member_id m \<notin> fm_member_id ` set (member_list r)"
          using same_member [OF recs that Some] \<open>n' \<noteq> n\<close> by auto
        then show ?thesis using sync by (simp add: w')
      qed
      then show ?thesis using that(2) \<open>n' \<noteq> n\<close> res unfolding resource_settled_def live
        by (simp add: w' settled_def usable_def)
    qed
    show ?thesis using inv' mine other res parts Some by (auto simp: w')
  qed
  then show "inv w'" "resource_settled now (fst w') n" "fp_participants (fst w') = fp_participants (fst w)"
    "n' \<noteq> n \<Longrightarrow> fed_resource n' (fst w') = fed_resource n' (fst w)"
    "n' \<noteq> n \<Longrightarrow> resource_settled now (fst w) n' \<Longrightarrow> resource_settled now (fst w') n'"
    "(fed_resource n (fst w') = None) = (fed_resource n (fst w) = None)" by simp_all
qed

end


context class_pools
begin

lemma sync_names_spec:
  assumes "fold (sync_resource api now) ns (dirty, w) = (dirty', w')" "inv w"
  shows "inv w' \<and> fp_participants (fst w') = fp_participants (fst w) \<and>
    (\<forall>n. n \<in> set ns \<or> resource_settled now (fst w) n \<longrightarrow> resource_settled now (fst w') n) \<and>
    (\<forall>n. (fed_resource n (fst w') = None) = (fed_resource n (fst w) = None))"
  using assms
proof (induction ns arbitrary: dirty w)
  case (Cons n ns)
  obtain d1 w1 where s: "sync_resource api now n (dirty, w) = (d1, w1)" by (cases "sync_resource api now n (dirty, w)")
  note spec = sync_resource_spec [OF s Cons.prems(2)]
  have kept: "(fed_resource n' (fst w1) = None) = (fed_resource n' (fst w) = None)" for n'
    using spec(4,6) by (cases "n' = n") simp_all
  have "resource_settled now (fst w1) n'" if "n' = n \<or> resource_settled now (fst w) n'" for n'
    using that spec(2) spec(5) [of n'] by (cases "n' = n") simp_all
  then show ?case using Cons.IH [of d1 w1] Cons.prems(1) s spec(1,3) kept by auto
qed simp

text \<open>After a sync every resource is settled.\<close>

lemma sync_attachments_spec:
  assumes "inv w"
  shows "inv (sync_attachments api now w) \<and> resource_settled now (fst (sync_attachments api now w)) n \<and>
    fp_participants (fst (sync_attachments api now w)) = fp_participants (fst w)"
proof -
  let ?ns = "map fst (fs_resources (fp_state (fst w)))"
  obtain dirty p d where f: "fold (sync_resource api now) ?ns (False, w) = (dirty, p, d)"
    by (cases "fold (sync_resource api now) ?ns (False, w)") auto
  note spec = sync_names_spec [OF f assms]
  have "resource_settled now p n"
  proof (cases "n \<in> set ?ns")
    case False
    then have "fed_resource n (fst w) = None" by (simp add: fed_resource_def map_of_eq_None_iff)
    then have "fed_resource n p = None" using spec by simp
    then show ?thesis by (simp add: resource_settled_def)
  qed (use spec in simp)
  moreover have "resource_settled now (fed_persist p) n = resource_settled now p n"
    by (simp add: resource_settled_def liveness_for_def fed_persist_def fed_resource_def)
  ultimately show ?thesis using f spec
    by (auto simp: sync_attachments_def inv_def fed_persist_inv) (auto simp: fed_persist_def)
qed

section \<open>The re-attach\<close>

lemma map_records_inv:
  assumes "fed_inv ls p" "\<And>r. same_members r (f r)"
    "p' = p\<lparr>fp_state := \<lparr>fs_resources = dmap_values f (fs_resources (fp_state p)), fs_ledger = led\<rparr>\<rparr>"
  shows "fed_inv ls p'"
proof -
  have res: "fed_resource n p' = map_option f (fed_resource n p)" for n by (simp add: assms(3) fed_resource_def)
  have "records_ok (fp_state p')"
    using assms(1) same_members_record_ok [OF assms(2)] by (auto simp: assms(3) fed_inv_def records_ok_def)
  moreover have "member_at p' pool mid" if "member_at p pool mid" for pool mid
  proof -
    obtain n r m where m: "fed_resource n p = Some r" "m \<in> set (member_list r)" "fm_member_id m = mid" "fm_pool_name m = pool"
      using \<open>member_at p pool mid\<close> by (auto simp: member_at_def)
    obtain m' where "m' \<in> set (member_list (f r))" "fm_member_id m' = mid" "fm_pool_name m' = pool"
      using same_members_ex [OF assms(2) m(2)] m by auto
    then show ?thesis using member_atI [of n p' "f r" m'] res m(1) by simp
  qed
  then have "attached_ok ls p'" using assms(1) unfolding fed_inv_def attached_ok_def by (simp add: assms(3)) blast
  moreover have "fp_disk p' = fp_disk p" by (simp add: assms(3))
  ultimately show ?thesis using assms(1) by (simp add: fed_inv_def)
qed

lemma release_legacy_listed:
  assumes "fst sr \<noteq> FED_SID"
  shows "listed d \<subseteq> listed (release_legacy api sr d)"
proof -
  obtain sid r where sr: "sr = (sid, r)" by (cases sr)
  obtain res d1 where reg: "(if fr_pool_config r \<noteq> [] then da_register api sid [fr_pool_config r] d else (Inr (), d)) = (res, d1)"
    by (cases "if fr_pool_config r \<noteq> [] then da_register api sid [fr_pool_config r] d else (Inr (), d)")
  have "listed d \<subseteq> listed d1" using register_listed [of d sid "[fr_pool_config r]"] reg by (auto split: if_splits)
  moreover have "listed d1 \<subseteq> listed (snd (da_unregister api sid d1))" using unregister_listed assms sr by simp
  moreover have "release_legacy api sr d = (case res of Inl e \<Rightarrow> d1 | Inr u \<Rightarrow> snd (da_unregister api sid d1))"
    by (simp add: release_legacy_def sr reg)
  ultimately show ?thesis by (auto split: sum.splits)
qed

lemma legacy_sids_foreign: "list_all (\<lambda>sr. fst sr \<noteq> FED_SID) (legacy_sids p)"
proof -
  let ?f = "\<lambda>r acc. let sid = fr_dispatcher_sid r in if sid \<noteq> '''' \<and> sid \<noteq> FED_SID \<and> \<not> dhas acc sid then acc @ [(sid, r)] else acc"
  have "list_all (\<lambda>sr. fst sr \<noteq> FED_SID) (fold ?f rs acc)" if "list_all (\<lambda>sr. fst sr \<noteq> FED_SID) acc" for rs acc
    using that by (induction rs arbitrary: acc) (simp_all add: Let_def)
  from this [of "[]"] show ?thesis by (simp add: legacy_sids_def)
qed

lemma fold_listed:
  assumes "\<And>x d. P x \<Longrightarrow> listed d \<subseteq> listed (f x d)" "list_all P xs"
  shows "listed d \<subseteq> listed (fold f xs d)"
  using assms(2)
proof (induction xs arbitrary: d)
  case (Cons x xs)
  then have "listed d \<subseteq> listed (f x d)" using assms(1) by simp
  also have "listed (f x d) \<subseteq> listed (fold f xs (f x d))" using Cons.prems by (intro Cons.IH) simp
  finally show ?case by simp
qed simp

lemma upgrade_inv: "inv w \<Longrightarrow> inv (upgrade_legacy api now w)"
proof (cases w)
  case (Pair p d)
  assume inv: "inv w"
  have same: "same_members r (adopt_record r)" for r
    by (simp add: same_members_def adopt_record_def member_list_def list_all2_conv_all_nth)
  have "listed d \<subseteq> listed (fold (release_legacy api) (legacy_sids p) d)"
    by (rule fold_listed [where P = "\<lambda>sr. fst sr \<noteq> FED_SID"]) (simp_all add: release_legacy_listed legacy_sids_foreign)
  moreover have "fed_inv (listed d) (p\<lparr>fp_state := \<lparr>fs_resources = dmap_values adopt_record (fs_resources (fp_state p)), fs_ledger = led\<rparr>\<rparr>)" for led
    using inv [unfolded inv_def Pair fst_conv snd_conv] same refl by (rule map_records_inv)
  ultimately have "inv (p\<lparr>fp_state := \<lparr>fs_resources = dmap_values adopt_record (fs_resources (fp_state p)), fs_ledger = led\<rparr>\<rparr>,
      fold (release_legacy api) (legacy_sids p) d)" for led by (rule inv_grow [rotated])
  then show ?thesis using inv by (simp add: upgrade_legacy_def Pair)
qed

lemma replay_member_spec:
  assumes "inv w" "fed_resource n (fst w) = Some r" "m \<in> set (member_list r)"
  shows "inv (replay_member api now r m w) \<and> fp_state (fst (replay_member api now r m w)) = fp_state (fst w)"
proof -
  obtain ok w' where a: "attach api r m w = (ok, w')" by (cases "attach api r m w")
  show ?thesis using attach_inv [OF assms a] attach_frame [OF a] detach_inv [OF assms(1)] detach_spec(2) [of m w] a
    by (simp add: replay_member_def)
qed

lemma replay_record_spec:
  assumes "inv w" "fed_resource n (fst w) = Some r" "set ms \<subseteq> set (member_list r)"
  shows "inv (fold (replay_member api now r) ms w) \<and> fp_state (fst (fold (replay_member api now r) ms w)) = fp_state (fst w)"
  using assms
proof (induction ms arbitrary: w)
  case (Cons m ms)
  note spec = replay_member_spec [OF Cons.prems(1,2), of m now]
  show ?case using Cons.IH [of "replay_member api now r m w"] Cons.prems spec by (simp add: fed_resource_def)
qed simp

lemma replay_records_inv:
  assumes "inv w" "\<And>r. r \<in> set rs \<Longrightarrow> \<exists>n. fed_resource n (fst w) = Some r"
  shows "inv (fold (\<lambda>r. fold (replay_member api now r) (member_list r)) rs w)"
  using assms
proof (induction rs arbitrary: w)
  case (Cons r rs)
  obtain n where n: "fed_resource n (fst w) = Some r" using Cons.prems(2) by auto
  note spec = replay_record_spec [OF Cons.prems(1) n subset_refl, of now]
  show ?case using Cons.IH [of "fold (replay_member api now r) (member_list r) w"] Cons.prems(2) spec by (simp add: fed_resource_def)
qed simp

lemma persist_inv: "inv (p, d) \<Longrightarrow> inv (fed_persist p, d)"
  by (simp add: inv_def fed_persist_inv)

lemma replay_inv: "inv w \<Longrightarrow> inv (replay_attachments api now w)"
proof -
  assume "inv w"
  then have up: "inv (upgrade_legacy api now w)" by (rule upgrade_inv)
  obtain res w1 where reg: "register_fed api [] (upgrade_legacy api now w) = (res, w1)"
    by (cases "register_fed api [] (upgrade_legacy api now w)")
  have inv1: "inv w1" by (rule register_inv [OF up reg])
  have "dict_ok (fs_resources (fp_state (fst w1)))" using inv1 by (simp add: inv_def fed_inv_def records_ok_def)
  from dvalues_dget [OF this] have "\<exists>n. fed_resource n (fst w1) = Some r" if "r \<in> set (fed_records (fst w1))" for r
    using that by (simp add: fed_records_def fed_resource_def)
  from replay_records_inv [OF inv1 this, where now = now]
  have "inv (fold (\<lambda>r. fold (replay_member api now r) (member_list r)) (fed_records (fst w1)) w1)" by simp
  then show ?thesis using inv1
    by (auto simp: replay_attachments_def reg intro: persist_inv split: sum.splits prod.splits)
qed

lemma replay_participants: "fp_participants (fst (replay_attachments api now w)) = fp_participants (fst w)"
proof -
  have one: "fp_participants (fst (replay_member api now r m w)) = fp_participants (fst w)" for r m w
    by (simp add: replay_member_def participants_frame)
  have rec: "fp_participants (fst (fold (replay_member api now r) ms w)) = fp_participants (fst w)" for r ms w
    by (induction ms arbitrary: w) (simp_all add: one)
  have all: "fp_participants (fst (fold (\<lambda>r. fold (replay_member api now r) (member_list r)) rs w)) = fp_participants (fst w)" for rs w
    by (induction rs arbitrary: w) (simp_all add: rec)
  obtain res w1 where reg: "register_fed api [] (upgrade_legacy api now w) = (res, w1)"
    by (cases "register_fed api [] (upgrade_legacy api now w)")
  have "fp_participants (fst w1) = fp_participants (fst w)"
    using participants_frame(3) [of "[]" "upgrade_legacy api now w"] reg by (simp add: upgrade_legacy_def split: prod.splits if_splits)
  then show ?thesis using all [of "fed_records (fst w1)" w1]
    by (auto simp: replay_attachments_def reg fed_persist_def split: sum.splits prod.splits)
qed

lemma ensure_inv: "inv w \<Longrightarrow> inv (ensure_replayed api now w)"
  using replay_inv [of "((fst w)\<lparr>fp_replayed := True\<rparr>, snd w)"] by (simp add: ensure_replayed_def inv_def)

lemma topology_spec:
  assumes "inv w"
  shows "inv (on_topology_change api now parts w) \<and> resource_settled now (fst (on_topology_change api now parts w)) n \<and>
    fp_participants (fst (on_topology_change api now parts w)) = parts"
proof -
  let ?w = "((fst w)\<lparr>fp_participants := parts\<rparr>, snd w)"
  have "inv ?w" using assms by (simp add: inv_def)
  moreover have "fp_participants (fst (ensure_replayed api now ?w)) = parts" by (simp add: ensure_replayed_def replay_participants)
  ultimately show ?thesis using sync_attachments_spec [OF ensure_inv, of ?w now now] by (simp add: on_topology_change_def)
qed

end


section \<open>What a join builds\<close>

lemma complete_member_ids:
  assumes "complete_member r m = Inr m'"
  shows "fm_member m' = fm_member m \<and> fm_member_id m' = make_member_id (fr_name r) (fm_member m)"
  using assms by (auto simp: complete_member_def rbind_eq_Inr Let_def split: if_splits)

lemma implicit_member_name: "implicit_fed_member r p = Inr m \<Longrightarrow> fm_member m = ''default''"
  by (auto simp: implicit_fed_member_def rbind_eq_Inr Let_def fed_member_post_init_def)

lemma built_names:
  assumes "build_members pe now alloc r body = Inr ms"
  shows "list_all (\<lambda>m. CHR ''.'' \<notin> set (fm_member m)) ms"
proof (cases "pget body ''members''")
  case PNone
  then obtain p m where "implicit_fed_member r p = Inr m" "ms = [m]" using assms by (auto simp: build_members_def rbind_eq_Inr)
  then show ?thesis using implicit_member_name by simp
next
  case (PList vs)
  then have "declared_members pe r vs [] = Inr ms" using assms by (auto simp: build_members_def split: list.splits if_splits)
  from declared_members_ready(1) [OF this] show ?thesis by (simp add: list_all_iff)
qed (use assms in \<open>simp_all add: build_members_def\<close>)

lemma fold_dset_members:
  assumes "list_all (\<lambda>m. P (key m) m) ms" "list_all (\<lambda>(k, m). P k m) acc" "dict_ok acc"
  shows "list_all (\<lambda>(k, m). P k m) (fold (\<lambda>m d. dset (key m) m d) ms acc) \<and> dict_ok (fold (\<lambda>m d. dset (key m) m d) ms acc)"
  using assms
proof (induction ms arbitrary: acc)
  case (Cons m ms)
  have "list_all (\<lambda>(k, m). P k m) (dset (key m) m acc)" using Cons.prems(1,2) by (induction acc) auto
  then show ?case using Cons by simp
qed simp

lemma finish_join_record:
  assumes "finish_join je body r = Inr r'"
  shows "record_ok (fr_name r) r'"
proof -
  obtain cs ms where f: "build_members (je_path je) (je_now je) (je_alloc je) (r\<lparr>fr_capabilities := cs\<rparr>) body = Inr ms"
      "complete_record (r\<lparr>fr_capabilities := cs\<rparr>) ms = Inr r'"
    using assms by (auto simp: finish_join_def rbind_eq_Inr Let_def)
  let ?r = "r\<lparr>fr_capabilities := cs\<rparr>"
  obtain ms1 r1 where c: "rmap_list (complete_member ?r) ms = Inr ms1"
      "aggregate (?r\<lparr>fr_members := fold (\<lambda>m d. dset (fm_member m) m d) ms1 []\<rparr>) = Inr r1"
      "fr_members r' = fr_members r1" "fr_name r' = fr_name r1"
    using f(2) by (auto simp: complete_record_def rbind_eq_Inr or_raise_eq)
  have "list_all (\<lambda>m. fm_member_id m = make_member_id (fr_name r) (fm_member m) \<and> CHR ''.'' \<notin> set (fm_member m)) ms1"
    unfolding list_all_iff
  proof
    fix m assume "m \<in> set ms1"
    then obtain m0 where "m0 \<in> set ms" "complete_member ?r m0 = Inr m" using rmap_list_set [OF c(1)] by auto
    then show "fm_member_id m = make_member_id (fr_name r) (fm_member m) \<and> CHR ''.'' \<notin> set (fm_member m)"
      using complete_member_ids [of ?r m0 m] built_names [OF f(1)] by (simp add: list_all_iff)
  qed
  from fold_dset_members [where P = "\<lambda>k m. fm_member_id m = make_member_id (fr_name r) k \<and> CHR ''.'' \<notin> set k", OF this]
  show ?thesis using aggregate_sel [OF c(2)] c(3,4) by (simp add: record_ok_def)
qed

lemma join_record_ok:
  assumes "join_record je body p = Inr r"
  shows "record_ok (fr_name r) r \<and> fed_resource (fr_name r) p = None"
proof -
  obtain r0 where r0: "\<not> dhas (fs_resources (fp_state p)) (fr_name r0)"
      "finish_join je body (r0\<lparr>fr_liveness := liveness_for p (fr_endpoint r0)\<rparr>) = Inr r"
    using assms by (auto simp: join_record_def rbind_eq_Inr split: sum.splits if_splits)
  have "record_ok (fr_name r0) r" using finish_join_record [OF r0(2)] by simp
  moreover from this have "fr_name r = fr_name r0" by (simp add: record_ok_def)
  ultimately show ?thesis using r0(1) by (simp add: dhas_def fed_resource_def)
qed

context class_pools
begin

section \<open>Join and leave\<close>

definition pool_ids :: "member_record list \<Rightarrow> (string \<times> string) set" where
  "pool_ids ms = (\<lambda>m. (fm_pool_name m, fm_member_id m)) ` set ms"

lemma add_members_spec:
  assumes "add_members api r ms added d = (res, added', d')"
  shows "set added \<subseteq> set added' \<and> set added' \<subseteq> set added \<union> set ms \<and> listed d \<subseteq> listed d' \<and>
    (res = Inr () \<longrightarrow> listed d' = listed d \<union> pool_ids ms)"
  using assms
proof (induction ms arbitrary: added d)
  case Nil
  then show ?case by (simp add: pool_ids_def)
next
  case (Cons m ms)
  obtain r1 d1 where a: "da_add api FED_SID (fm_pool_name m) (member_decl r m) d = (r1, d1)" by fastforce
  show ?case
  proof (cases r1)
    case (Inl e)
    then show ?thesis using Cons.prems a add_refused by auto
  next
    case (Inr u)
    then have rest: "add_members api r ms (added @ [m]) d1 = (res, added', d')" using Cons.prems a by simp
    have "listed d1 = insert (fm_pool_name m, fm_member_id m) (listed d)" using add_listed [OF _ decl_id] a Inr by blast
    then show ?thesis using Cons.IH [OF rest] by (auto simp: pool_ids_def)
  qed
qed

lemma roll_back_listed: "listed d - pool_ids added \<subseteq> listed (roll_back api added d)"
proof (induction added arbitrary: d)
  case Nil
  then show ?case by (simp add: roll_back_def pool_ids_def)
next
  case (Cons m added)
  let ?d1 = "snd (da_del api FED_SID (fm_pool_name m) (fm_member_id m) (del_body False True True) d)"
  have "listed d - {(fm_pool_name m, fm_member_id m)} \<subseteq> listed ?d1" by (rule del_listed)
  moreover have "listed ?d1 - pool_ids added \<subseteq> listed (roll_back api (m # added) d)"
    using Cons.IH [of ?d1] by (simp add: roll_back_def)
  ultimately show ?case by (auto simp: pool_ids_def)
qed

text \<open>Ids of a new resource are not attached.\<close>

lemma new_ids_free:
  assumes "fed_inv ls p" "record_ok (fr_name r) r" "fed_resource (fr_name r) p = None" "m \<in> set (member_list r)" "member_at p pool mid"
  shows "mid \<noteq> fm_member_id m"
proof -
  obtain n' r' m' where m': "fed_resource n' p = Some r'" "m' \<in> set (member_list r')" "fm_member_id m' = mid"
    using assms(5) by (auto simp: member_at_def)
  then have ok: "record_ok n' r'" using assms(1) by (simp add: fed_inv_def records_ok_def fed_resource_def)
  obtain k where k: "fm_member_id m = make_member_id (fr_name r) k" "CHR ''.'' \<notin> set k" using record_member [OF assms(2,4)] .
  obtain k' where k': "fm_member_id m' = make_member_id n' k'" "CHR ''.'' \<notin> set k'" using record_member [OF ok m'(2)] .
  show ?thesis using member_id_inj [of n' k' "fr_name r" k] k k' m' assms(3) by auto
qed

lemma shrink_inv:
  assumes "fed_inv ls p" "record_ok (fr_name r) r" "fed_resource (fr_name r) p = None" "ls - pool_ids (member_list r) \<subseteq> ls'"
  shows "fed_inv ls' p"
proof -
  have "attached_ok ls' p"
    unfolding attached_ok_def
  proof
    fix mid assume "mid \<in> set (fp_attached p)"
    then obtain pool where at: "member_at p pool mid" "(pool, mid) \<in> ls" using assms(1) unfolding fed_inv_def attached_ok_def by blast
    have "(pool, mid) \<notin> pool_ids (member_list r)" using new_ids_free [OF assms(1-3) _ at(1)] by (auto simp: pool_ids_def)
    then show "\<exists>pool. member_at p pool mid \<and> (pool, mid) \<in> ls'" using at assms(4) by blast
  qed
  then show ?thesis using assms(1) by (simp add: fed_inv_def)
qed

lemma new_record_inv:
  assumes "fed_inv ls p" "record_ok (fr_name r) r" "fed_resource (fr_name r) p = None"
  shows "fed_inv ls (set_record (fr_name r) r p)"
proof -
  have "member_at (set_record (fr_name r) r p) pool mid" if "member_at p pool mid" for pool mid
    using that assms(3) unfolding member_at_def by simp (metis option.distinct(1))
  then have "attached_ok ls (set_record (fr_name r) r p)" using assms(1) unfolding fed_inv_def attached_ok_def by simp blast
  then show ?thesis using assms by (auto simp: fed_inv_def records_ok_def set_record_def)
qed

lemma add_all_attached:
  assumes "fed_inv ls p" "fed_resource n p = Some r" "set ms \<subseteq> set (member_list r)" "pool_ids ms \<subseteq> ls"
  shows "fed_inv ls (fold (\<lambda>m. add_attached (fm_member_id m)) ms p) \<and>
    fed_resource n (fold (\<lambda>m. add_attached (fm_member_id m)) ms p) = Some r"
  using assms
proof (induction ms arbitrary: p)
  case (Cons m ms)
  have "fed_inv (insert (fm_pool_name m, fm_member_id m) ls) (add_attached (fm_member_id m) p)"
    using Cons.prems by (intro add_attached_inv) auto
  moreover have "insert (fm_pool_name m, fm_member_id m) ls = ls" using Cons.prems(4) by (auto simp: pool_ids_def)
  ultimately show ?case using Cons.IH [of "add_attached (fm_member_id m) p"] Cons.prems by (simp add: pool_ids_def)
qed simp

lemma attach_join_inv:
  assumes "inv w" "record_ok (fr_name r) r" "fed_resource (fr_name r) (fst w) = None" "attach_join api r w = (res, w')"
  shows "inv w'"
proof -
  obtain r1 p d where reg: "register_fed api [r] w = (r1, p, d)" by (cases "register_fed api [r] w") auto
  have inv1: "fed_inv (listed d) p" using register_inv [OF assms(1) reg] by (simp add: inv_def)
  have new: "fed_resource (fr_name r) p = None" using register_frame [OF reg] assms(3) by (simp add: fed_resource_def)
  obtain r2 added d1 where add: "add_members api r (member_list r) [] d = (r2, added, d1)"
    by (cases "add_members api r (member_list r) [] d") auto
  note spec = add_members_spec [OF add]
  show ?thesis
  proof (cases r1)
    case (Inl e)
    then show ?thesis using assms(4) reg inv1 by (auto simp: attach_join_def inv_def)
  next
    case (Inr u)
    show ?thesis
    proof (cases r2)
      case (Inl e)
      have "listed d - pool_ids (member_list r) \<subseteq> listed (roll_back api added d1)"
        using roll_back_listed [of d1 added] spec by (auto simp: pool_ids_def)
      from shrink_inv [OF inv1 assms(2) new this] show ?thesis
        using assms(4) reg add Inr Inl by (auto simp: attach_join_def inv_def)
    next
      case (Inr v)
      have ids: "listed d \<subseteq> listed d1" "pool_ids (member_list r) \<subseteq> listed d1" using spec Inr by auto
      have "fed_inv (listed d1) (set_record (fr_name r) r p)"
        using new_record_inv [OF fed_inv_grow [OF inv1 ids(1)] assms(2) new] .
      from add_all_attached [OF this, of "fr_name r" r "member_list r"] ids(2) show ?thesis
        using assms(4) reg add \<open>r1 = Inr u\<close> Inr by (auto simp: attach_join_def inv_def fed_persist_inv)
    qed
  qed
qed

lemma join_inv: "inv w \<Longrightarrow> inv (snd (route_join api je known body w))"
proof -
  assume "inv w"
  then have inv1: "inv (ensure_replayed api (je_now je) w)" by (rule ensure_inv)
  let ?w = "ensure_replayed api (je_now je) w"
  have "inv w'" if "join_record je b (fst ?w) = Inr r" "attach_join api r ?w = (res, w')" for b r res w'
    by (rule attach_join_inv [OF inv1 _ _ that(2)]) (use join_record_ok [OF that(1)] in simp_all)
  then show ?thesis using inv1
    by (auto simp: route_join_def require_session_def split: sum.splits pyval.splits prod.splits if_splits)
qed

end


context class_pools
begin

lemma leave_member_spec:
  assumes "leave_member api cancel m (acc, w) = (acc', w')" "inv w"
  shows "inv w' \<and> fp_state (fst w') = fp_state (fst w) \<and>
    set (fp_attached (fst w')) = set (fp_attached (fst w)) - {fm_member_id m}"
proof -
  obtain p d where w: "w = (p, d)" by (cases w)
  obtain res d1 where del: "da_del api FED_SID (fm_pool_name m) (fm_member_id m) (del_body cancel True True) d = (res, d1)" by fastforce
  have "listed d - {(fm_pool_name m, fm_member_id m)} \<subseteq> listed d1"
    using del_listed [of d "fm_pool_name m" "fm_member_id m"] del by (metis snd_conv)
  from discard_inv [OF _ this] show ?thesis
    using assms by (cases acc) (auto simp: leave_member_def w del inv_def)
qed

lemma leave_fold_spec:
  assumes "fold (leave_member api cancel) ms (acc, w) = (acc', w')" "inv w"
  shows "inv w' \<and> fp_state (fst w') = fp_state (fst w) \<and>
    set (fp_attached (fst w')) = set (fp_attached (fst w)) - fm_member_id ` set ms"
  using assms
proof (induction ms arbitrary: acc w)
  case (Cons m ms)
  obtain acc1 w1 where s: "leave_member api cancel m (acc, w) = (acc1, w1)" by (cases "leave_member api cancel m (acc, w)")
  show ?case using leave_member_spec [OF s Cons.prems(2)] Cons.IH [of acc1 w1] Cons.prems(1) s by auto
qed simp

lemma drop_resource_inv:
  assumes "fed_inv ls p" "\<And>m. fed_resource n p = Some r \<Longrightarrow> m \<in> set (member_list r) \<Longrightarrow> fm_member_id m \<notin> set (fp_attached p)"
    "fs_resources s = dpop n (fs_resources (fp_state p))" "fed_resource n p = Some r"
  shows "fed_inv ls (p\<lparr>fp_state := s\<rparr>)"
proof -
  let ?p = "p\<lparr>fp_state := s\<rparr>"
  have res: "fed_resource k ?p = (if k = n then None else fed_resource k p)" for k by (simp add: fed_resource_def assms(3))
  have "records_ok (fp_state ?p)" using assms(1) by (auto simp: fed_inv_def records_ok_def assms(3) split: if_splits)
  moreover have "attached_ok ls ?p"
    unfolding attached_ok_def
  proof
    fix mid assume mid: "mid \<in> set (fp_attached ?p)"
    then obtain pool where at: "member_at p pool mid" "(pool, mid) \<in> ls" using assms(1) unfolding fed_inv_def attached_ok_def by auto
    then obtain k r' m where m: "fed_resource k p = Some r'" "m \<in> set (member_list r')" "fm_member_id m = mid" "fm_pool_name m = pool"
      by (auto simp: member_at_def)
    have "k \<noteq> n" using m assms(2,4) mid by auto
    then have "member_at ?p pool mid" using member_atI [of k ?p r' m] m res by simp
    then show "\<exists>pool. member_at ?p pool mid \<and> (pool, mid) \<in> ls" using at(2) by blast
  qed
  ultimately show ?thesis using assms(1) by (simp add: fed_inv_def)
qed

lemma cancel_ledger_spec:
  assumes "cancel_ledger api now n w = (k, w')" "inv w"
  shows "inv w' \<and> fs_resources (fp_state (fst w')) = fs_resources (fp_state (fst w)) \<and> fp_attached (fst w') = fp_attached (fst w)"
proof -
  obtain p d where w: "w = (p, d)" by (cases w)
  let ?f = "\<lambda>e d. snd (da_cancel api (if l_dispatcher_sid e = '''' then FED_SID else l_dispatcher_sid e) (l_task_id e) d)"
  let ?p = "p\<lparr>fp_state := (fp_state p)\<lparr>fs_ledger := dmap_values (canceled_entry now n) (fs_ledger (fp_state p))\<rparr>\<rparr>"
  have "listed d \<subseteq> listed (fold ?f es d)" for es
    by (rule fold_listed [where P = "\<lambda>_. True"]) (simp_all add: cancel_listed list_all_iff)
  moreover have "fed_inv (listed d) ?p" using assms(2) by (subst fed_inv_cong [of ?p p]) (simp_all add: w inv_def)
  ultimately have "inv (?p, fold ?f es d)" for es using inv_grow by blast
  then show ?thesis using assms(1) by (auto simp: cancel_ledger_def w Let_def)
qed

lemma leave_resource_inv:
  assumes "inv w" "fed_resource n (fst w) = Some r"
  shows "inv (snd (leave_resource api now cancel n r w))"
proof -
  obtain removed errors w1 where f: "fold (leave_member api cancel) (member_list r) ((0, []), w) = ((removed, errors), w1)"
    by (cases "fold (leave_member api cancel) (member_list r) ((0, []), w)") auto
  note spec = leave_fold_spec [OF f assms(1)]
  obtain k p d where c: "(if cancel then cancel_ledger api now n w1 else (0, w1)) = (k, p, d)"
    by (cases "if cancel then cancel_ledger api now n w1 else (0, w1)") auto
  have c': "inv (p, d)" "fs_resources (fp_state p) = fs_resources (fp_state (fst w1))" "fp_attached p = fp_attached (fst w1)"
    using c spec cancel_ledger_spec [of now n w1 k "(p, d)"] by (auto split: if_splits)
  have res: "fed_resource n p = Some r" using c'(2) spec assms(2) by (simp add: fed_resource_def)
  have "fed_inv (listed d) (p\<lparr>fp_state := drop_resource n (\<not> cancel) (fp_state p)\<rparr>)"
    by (rule drop_resource_inv [where n = n and r = r]) (use c' spec res in \<open>simp_all add: inv_def drop_resource_def\<close>)
  then show ?thesis using f c by (simp add: leave_resource_def inv_def fed_persist_inv)
qed

lemma leave_inv: "inv w \<Longrightarrow> inv (snd (route_leave api now known body n w))"
proof -
  assume "inv w"
  then have inv1: "inv (ensure_replayed api now w)" by (rule ensure_inv)
  then show ?thesis using leave_resource_inv [OF inv1]
    by (auto simp: route_leave_def require_session_def split: sum.splits option.splits prod.splits if_splits) (metis snd_conv)+
qed

section \<open>The reading routes and the ledger\<close>

lemma pool_detail_spec:
  "pool_detail_of api now pool w = (v, w') \<Longrightarrow> inv w \<Longrightarrow>
     inv w' \<and> fs_resources (fp_state (fst w')) = fs_resources (fp_state (fst w))"
  by (auto simp: pool_detail_of_def Let_def inv_def split: prod.splits option.splits if_splits)

lemma fetch_details_spec:
  "fetch_details api now pools w = (vs, w') \<Longrightarrow> inv w \<Longrightarrow>
     inv w' \<and> fs_resources (fp_state (fst w')) = fs_resources (fp_state (fst w))"
proof (induction pools arbitrary: w vs)
  case (Cons pool pools)
  obtain v w1 where d: "pool_detail_of api now pool w = (v, w1)" by (cases "pool_detail_of api now pool w")
  obtain vs1 where "fetch_details api now pools w1 = (vs1, w')" using Cons.prems(1) d by (auto split: prod.splits)
  from Cons.IH [OF this] pool_detail_spec [OF d Cons.prems(2)] show ?case by simp
qed simp

lemma refresh_names_inv: "fed_inv ls p \<Longrightarrow> fed_inv ls (snd (refresh_names now details ns p))"
proof (induction ns arbitrary: p)
  case (Cons n ns)
  have "fed_inv ls (set_record n r1 p)" if "dget (fs_resources (fp_state p)) n = Some r" "refresh_record s now ds r = Inr r1" for r r1 s ds
    using set_record_inv [OF Cons.prems _ same_members_refresh [OF that(2)]] that(1) by (simp add: fed_resource_def)
  then show ?case using Cons by (auto split: option.splits sum.splits)
qed simp

lemma refresh_due_inv:
  assumes "inv w" "refresh_due api now recs w = (res, w')"
  shows "inv w'"
proof -
  let ?todo = "filter (\<lambda>(n, r). due now r) recs"
  let ?pools = "sort (remdups (concat (map (\<lambda>(n, r). map fm_pool_name (member_list r)) ?todo)))"
  obtain details p d where f: "fetch_details api now ?pools w = (details, p, d)" by (cases "fetch_details api now ?pools w") auto
  have "fed_inv (listed d) p" using fetch_details_spec [OF f assms(1)] by (simp add: inv_def)
  from refresh_names_inv [OF this, of now details "map fst ?todo"] show ?thesis
    using assms f by (auto simp: refresh_due_def Let_def inv_def split: if_splits prod.splits)
qed

lemma refresh_all_inv: "inv w \<Longrightarrow> refresh_all api now w = (res, w') \<Longrightarrow> inv w'"
  unfolding refresh_all_def by (rule refresh_due_inv)

lemma reading_inv:
  assumes "inv w"
  shows "inv (snd (route_resources api now known w))" and "inv (snd (route_resource api now known n w))"
    and "inv (snd (route_pick api now known body w))"
proof -
  have inv1: "inv (ensure_replayed api now w)" using assms by (rule ensure_inv)
  note all = refresh_all_inv [OF inv1]
  show "inv (snd (route_resources api now known w))" using inv1
    by (auto simp: route_resources_def require_session_def dest: all split: sum.splits prod.splits if_splits)
  show "inv (snd (route_pick api now known body w))" using inv1
    by (auto simp: route_pick_def require_session_def dest: all split: sum.splits prod.splits if_splits option.splits)
  show "inv (snd (route_resource api now known n w))" using inv1
    by (auto simp: route_resource_def require_session_def refresh_usage_def dest: refresh_due_inv [OF inv1]
        split: sum.splits prod.splits if_splits option.splits)
qed

lemma place_task_inv: "inv w \<Longrightarrow> place_task api now ft cls ranked w = (res, w') \<Longrightarrow> inv w'"
proof -
  assume inv: "inv w" and place: "place_task api now ft cls ranked w = (res, w')"
  obtain p d where w: "w = (p, d)" by (cases w)
  have "fed_inv (listed d1) p" if "da_submit api FED_SID payload d = (r, d1)" for payload r d1
    using fed_inv_grow [of "listed d" p] submit_listed [of d FED_SID payload] inv that by (simp add: w inv_def)
  then show "inv w'" using place inv by (auto simp: place_task_def w inv_def fed_persist_inv split: sum.splits prod.splits)
qed

lemma fed_submit_inv: "inv w \<Longrightarrow> inv (snd (fed_submit api now known body w))"
proof -
  assume "inv w"
  then have inv1: "inv (ensure_replayed api now w)" by (rule ensure_inv)
  note all = refresh_all_inv [OF inv1]
  show ?thesis using inv1
    by (auto simp: fed_submit_def require_session_def dest: all place_task_inv [OF all] split: sum.splits prod.splits if_splits option.splits)
qed

lemma task_inv: "inv w \<Longrightarrow> inv (snd (route_task api now known tid w))"
proof -
  assume "inv w"
  then have inv1: "inv (ensure_replayed api now w)" by (rule ensure_inv)
  have child: "inv (snd (with_child api now e t v))" if "inv v" for e t v
    using that pool_detail_spec [of now _ v] by (auto simp: with_child_def Let_def split: prod.splits)
  have "inv (snd (with_child api now e t (fed_persist (set_entry tid e p), d)))" if "inv (p, d)" for p d e t
    using that by (intro child) (simp add: inv_def fed_persist_inv)
  then show ?thesis using inv1 child [of _ _ _]
    by (auto simp: route_task_def require_session_def Let_def split: sum.splits prod.splits if_splits option.splits) (metis snd_conv)+
qed

text \<open>A restart: the records are what was saved last, nothing is attached yet.\<close>

lemma restart_inv:
  assumes "inv (p, d)"
  shows "inv (new_fed_plugin (fp_disk p), d)"
proof -
  let ?p = "p\<lparr>fp_state := fp_disk p, fp_attached := []\<rparr>"
  have same: "same_members r (mark_lost r)" for r
    by (simp add: same_members_def mark_lost_def member_list_def list_all2_conv_all_nth)
  have "fed_inv (listed d) ?p" using assms by (simp add: inv_def fed_inv_def attached_ok_def)
  from map_records_inv [OF this same refl]
  have "fed_inv (listed d) (?p\<lparr>fp_state := \<lparr>fs_resources = dmap_values mark_lost (fs_resources (fp_disk p)), fs_ledger = fs_ledger (fp_disk p)\<rparr>\<rparr>)"
    by simp
  then show ?thesis by (simp add: inv_def new_fed_plugin_def fed_inv_def attached_ok_def records_ok_def)
qed

end

end
