(* ===== verification/Federation_System.thy ===== *)
theory Federation_System
  imports Federation_Contract
begin

text \<open>
  Federation and dispatcher together: the calls of the federation on the dispatcher's own routes, the interpretation of
  \<open>class_pools\<close> on them, every sequence of federation requests and restarts, and the properties of the composition.
\<close>

section \<open>The calls\<close>

text \<open>Everything the dispatcher reads from outside during one call.\<close>

record dispatcher_setup =
  ds_session :: session_env
  ds_route :: route_env
  ds_uids :: "string list"
  ds_ended :: bool

definition call_register :: "dispatcher_setup \<Rightarrow> string \<Rightarrow> dict list \<Rightarrow> routes_state \<Rightarrow> (nat + unit) \<times> routes_state" where
  "call_register x sid decls st =
    (case register_session (ds_session x) sid
        [(''sid'', PStr sid), (''pools'', PList (map PDict decls)), (''lifetime'', PStr ''persistent'')] (fst st) of
       (res, d) \<Rightarrow> (map_sum route_status id res, d, snd st))"

definition call_unregister :: "dispatcher_setup \<Rightarrow> string \<Rightarrow> routes_state \<Rightarrow> (nat + unit) \<times> routes_state" where
  "call_unregister x sid st =
    (case unregister_session (re_host (ds_route x)) (ds_uids x) (ds_ended x) sid (fst st) of
       (res, d, fx) \<Rightarrow> (map_sum fail_status id res, d, snd st))"

definition call_add :: "string \<Rightarrow> string \<Rightarrow> dict \<Rightarrow> routes_state \<Rightarrow> (nat + unit) \<times> routes_state" where
  "call_add sid pool b st = (case route_add_member sid pool (PDict b) (fst st) of
     (res, d, fx) \<Rightarrow> (map_sum route_status (\<lambda>_. ()) res, d, snd st))"

definition call_del :: "dispatcher_setup \<Rightarrow> string \<Rightarrow> string \<Rightarrow> string \<Rightarrow> dict \<Rightarrow> routes_state \<Rightarrow> (nat + unit) \<times> routes_state" where
  "call_del x sid pool mid b st =
    (case route_remove_member (re_host (ds_route x)) (ds_uids x) sid pool mid (PDict b) (fst st) of
       (res, d, fx) \<Rightarrow> (map_sum route_status id res, d, snd st))"

definition call_cancel :: "dispatcher_setup \<Rightarrow> string \<Rightarrow> string \<Rightarrow> routes_state \<Rightarrow> (nat + unit) \<times> routes_state" where
  "call_cancel x sid tid st = (case route_cancel_task (ds_route x) sid tid st of
     (res, st1, fx) \<Rightarrow> (map_sum fail_status id res, st1))"

definition json_object :: "pyval \<Rightarrow> dict" where
  "json_object v = (case v of PDict d \<Rightarrow> d | _ \<Rightarrow> [])"

definition call_submit :: "dispatcher_setup \<Rightarrow> string \<Rightarrow> dict \<Rightarrow> routes_state \<Rightarrow> (nat + dict) \<times> routes_state" where
  "call_submit x sid b st = (case route_submit (ds_route x) sid b st of
     (res, st1, fx) \<Rightarrow> (map_sum fail_status json_object res, st1))"

definition dispatcher_calls :: "dispatcher_setup \<Rightarrow> routes_state dispatcher_api" where
  "dispatcher_calls x = \<lparr>da_register = call_register x, da_unregister = call_unregister x, da_add = call_add,
     da_del = call_del x, da_cancel = call_cancel x, da_submit = call_submit x,
     da_task = (\<lambda>sid tid st. map_sum fail_status json_object (route_get_task (ds_route x) sid tid st)),
     da_detail = (\<lambda>sid name st. case route_pool_detail (h_now (re_host (ds_route x))) sid name (fst st) of
        Inl e \<Rightarrow> None | Inr v \<Rightarrow> Some v)\<rparr>"

definition class_members :: "routes_state \<Rightarrow> (string \<times> string) set" where
  "class_members st = listed_members FED_SID (fst st)"

section \<open>The dispatcher keeps the contract\<close>

lemma cancel_task_config: "same_config (cancel_task h tid)"
  by (simp add: same_config_def cancel_task_def cancel_finish_def Let_def split: option.splits)

lemma accept_task_config: "pl_config (fst (snd (accept_task h sb ps))) = pl_config ps"
  using same_configD [OF drain_pending_config]
  by (simp add: accept_task_def Let_def split_beta write_spool_def split: option.splits)

lemma listed_put_config:
  assumes "find_pool sid name d = Some ps" "pl_config ps1 = pl_config ps"
  shows "listed_members sid' (put_pool sid name ps1 d) = listed_members sid' d"
  using assms by (auto simp: listed_members_def split: if_splits)

lemma cancel_route_listed: "listed_members sid' (fst (fst (snd (route_cancel_task env sid tid st)))) = listed_members sid' (fst st)"
proof (cases st)
  case (Pair d em)
  show ?thesis using listed_put_config [OF _ same_configD [OF cancel_task_config], of sid _ d _ sid']
    by (simp add: route_cancel_task_def Pair split_beta split: option.split)
qed

lemma submit_route_listed: "listed_members sid' (fst (fst (snd (route_submit env sid b st)))) = listed_members sid' (fst st)"
proof (cases st)
  case (Pair d em)
  show ?thesis using listed_put_config [OF _ accept_task_config, of sid _ d _ sid']
    by (simp add: route_submit_def Pair Let_def split_beta split: option.split sum.split)
qed

lemma unregister_listed:
  assumes "sid \<noteq> sid'"
  shows "listed_members sid' (fst (snd (unregister_session h uids ended sid d))) = listed_members sid' d"
  using assms
  by (auto simp: unregister_session_def teardown_session_pools_def Let_def listed_members_def find_pool_def pools_for_def)

interpretation fed: class_pools "dispatcher_calls x" class_members for x
proof (unfold_locales, goal_cases)
  case (1 d sid decls)
  show ?case using register_session_listed [of FED_SID "fst d"]
    by (auto simp: dispatcher_calls_def call_register_def class_members_def split_beta)
next
  case (2 sid d)
  then show ?case by (simp add: dispatcher_calls_def call_unregister_def class_members_def split_beta unregister_listed)
next
  case (3 pool b d u d' mid)
  obtain res d1 fx where r: "route_add_member FED_SID pool (PDict b) (fst d) = (res, d1, fx)"
    by (cases "route_add_member FED_SID pool (PDict b) (fst d)") auto
  then obtain ack where "res = Inr ack" using 3 by (cases res) (auto simp: dispatcher_calls_def call_add_def)
  then show ?case using route_add_listed [of FED_SID pool b "fst d" ack d1 fx mid] 3 r
    by (auto simp: dispatcher_calls_def call_add_def class_members_def)
next
  case (4 pool b d e d')
  obtain res d1 fx where r: "route_add_member FED_SID pool (PDict b) (fst d) = (res, d1, fx)"
    by (cases "route_add_member FED_SID pool (PDict b) (fst d)") auto
  then obtain e1 where "res = Inl e1" using 4 by (cases res) (auto simp: dispatcher_calls_def call_add_def)
  then show ?case using route_add_refused [of FED_SID pool "PDict b" "fst d" e1 d1 fx] 4 r
    by (auto simp: dispatcher_calls_def call_add_def class_members_def)
next
  case (5 d pool mid b)
  obtain res d1 fx where r: "route_remove_member (re_host (ds_route x)) (ds_uids x) FED_SID pool mid (PDict b) (fst d) = (res, d1, fx)"
    by (cases "route_remove_member (re_host (ds_route x)) (ds_uids x) FED_SID pool mid (PDict b) (fst d)") auto
  show ?case using route_remove_refused [of _ _ FED_SID pool mid "PDict b" "fst d" _ d1 fx]
      route_remove_listed [of _ _ FED_SID pool mid "PDict b" "fst d" _ d1 fx] r
    by (cases res) (auto simp: dispatcher_calls_def call_del_def class_members_def)
next
  case (6 d sid tid)
  show ?case by (simp add: dispatcher_calls_def call_cancel_def class_members_def split_beta cancel_route_listed)
next
  case (7 d sid b)
  show ?case by (simp add: dispatcher_calls_def call_submit_def class_members_def split_beta submit_route_listed)
qed

section \<open>Every sequence of requests\<close>

text \<open>The dispatcher may do anything in between that keeps the members of the class pools (its own requests, its
  housekeeping, its policies).  A restart of the federation loads what was saved last.\<close>

inductive fed_reachable :: "routes_state fed_world \<Rightarrow> bool" where
  start: "records_ok s \<Longrightarrow> fed_reachable (new_fed_plugin s, st)"
| topology: "fed_reachable w \<Longrightarrow> fed_reachable (on_topology_change (dispatcher_calls x) now parts w)"
| join: "fed_reachable w \<Longrightarrow> fed_reachable (snd (route_join (dispatcher_calls x) je known body w))"
| leave: "fed_reachable w \<Longrightarrow> fed_reachable (snd (route_leave (dispatcher_calls x) now known body n w))"
| resources: "fed_reachable w \<Longrightarrow> fed_reachable (snd (route_resources (dispatcher_calls x) now known w))"
| resource: "fed_reachable w \<Longrightarrow> fed_reachable (snd (route_resource (dispatcher_calls x) now known n w))"
| pick: "fed_reachable w \<Longrightarrow> fed_reachable (snd (route_pick (dispatcher_calls x) now known body w))"
| submit: "fed_reachable w \<Longrightarrow> fed_reachable (snd (fed_submit (dispatcher_calls x) now known body w))"
| task: "fed_reachable w \<Longrightarrow> fed_reachable (snd (route_task (dispatcher_calls x) now known tid w))"
| dispatcher: "fed_reachable (p, st) \<Longrightarrow> class_members st \<subseteq> class_members st' \<Longrightarrow> fed_reachable (p, st')"
| restart: "fed_reachable (p, st) \<Longrightarrow> fed_reachable (new_fed_plugin (fp_disk p), st)"

lemma new_plugin_inv:
  assumes "records_ok s"
  shows "fed_inv ls (new_fed_plugin s)"
proof -
  have same: "same_members r (mark_lost r)" for r
    by (simp add: same_members_def mark_lost_def member_list_def list_all2_conv_all_nth)
  show ?thesis using assms same_members_record_ok [OF same]
    by (auto simp: fed_inv_def new_fed_plugin_def records_ok_def attached_ok_def)
qed

lemma fed_reachable_inv: "fed_reachable w \<Longrightarrow> fed_inv (class_members (snd w)) (fst w)"
proof (induction rule: fed_reachable.induct)
  case (dispatcher p st st')
  then show ?case using fed_inv_grow by simp
next
  case (restart p st)
  then show ?case using fed.restart_inv by (simp add: fed.inv_def)
qed (simp_all add: new_plugin_inv fed.topology_spec fed.join_inv fed.leave_inv fed.reading_inv fed.fed_submit_inv fed.task_inv
    flip: fed.inv_def)


section \<open>Properties\<close>

text \<open>C23. For every sequence of joins, leaves, polls, submits, topology changes, legacy upgrades and restarts, a member
  the federation believes attached belongs to a joined resource and is listed by its class pool in the dispatcher: rollbacks, failed calls and removals never leave an attached id without its member.\<close>

theorem attached_members_listed:
  assumes "fed_reachable (p, st)" and "mid \<in> set (fp_attached p)"
  shows "\<exists>n r m. fed_resource n p = Some r \<and> m \<in> set (member_list r) \<and> fm_member_id m = mid \<and>
    (fm_pool_name m, mid) \<in> class_members st"
  using fed_reachable_inv [OF assms(1)] assms(2) by (force simp: fed_inv_def attached_ok_def member_at_def)


definition demo_setup :: dispatcher_setup where
  "demo_setup = \<lparr>ds_session = \<lparr>se_custom = \<lambda>_ _. False, se_reg = BUILTINS, se_scratch = \<lambda>_. ''/scratch'',
       se_payload = \<lambda>_ _. PDict [], se_pick = None, se_queue = ''q''\<rparr>,
     ds_route = \<lparr>re_host = solo_host, re_plugins = [], re_remote = NoClient, re_str = str_of\<rparr>, ds_uids = [], ds_ended = False\<rparr>"

definition fed_start :: "routes_state fed_world" where
  "fed_start = on_topology_change (dispatcher_calls demo_setup) 100 [(''ep1'', ''present'', ''endpoint'')]
     (new_fed_plugin \<lparr>fs_resources = [], fs_ledger = []\<rparr>, \<lparr>dp_sessions = [], dp_pools = []\<rparr>, [])"

definition fed_joined :: "routes_state fed_world" where
  "fed_joined = snd (route_join (dispatcher_calls demo_setup) demo_join_env True (PDict demo_join_body) fed_start)"

lemma fed_joined_reachable: "fed_reachable fed_start" "fed_reachable fed_joined"
proof -
  show "fed_reachable fed_start" unfolding fed_start_def by (intro fed_reachable.topology fed_reachable.start) (simp add: records_ok_def)
  then show "fed_reachable fed_joined" unfolding fed_joined_def by (rule fed_reachable.join)
qed

definition pool_lists :: "string \<Rightarrow> string \<Rightarrow> routes_state \<Rightarrow> bool" where
  "pool_lists pool mid st = (case find_pool FED_SID pool (fst st) of None \<Rightarrow> False | Some ps \<Rightarrow> dhas (pc_members (pl_config ps)) mid)"

lemma pool_lists_iff: "(pool, mid) \<in> class_members st \<longleftrightarrow> pool_lists pool mid st"
  by (auto simp: class_members_def listed_members_def pool_lists_def split: option.splits)

theorem attached_members_listed_witness:
  "fp_attached (fst fed_joined) = [''anl.polaris.default''] \<and>
   (\<exists>n r m. fed_resource n (fst fed_joined) = Some r \<and> m \<in> set (member_list r) \<and> fm_member_id m = ''anl.polaris.default'' \<and>
     (fm_pool_name m, ''anl.polaris.default'') \<in> class_members (snd fed_joined))"
proof -
  have "fp_attached (fst fed_joined) = [''anl.polaris.default'']" by code_simp
  then show ?thesis using attached_members_listed [of "fst fed_joined" "snd fed_joined" "''anl.polaris.default''"] fed_joined_reachable(2)
    by simp
qed


definition fed_again :: "routes_state fed_world" where
  "fed_again = on_topology_change (dispatcher_calls demo_setup) 200 [(''ep1'', ''present'', ''endpoint'')] fed_joined"


text \<open>A join whose budget is not a number: the registration declares the new class pool with the member in it, the member
  route refuses the repeated declaration (a NaN differs from itself), and the roll back, which only removes what the
  member route added, leaves the member in the pool of a resource that never joined.\<close>

definition nan_join_body :: dict where
  "nan_join_body = dset ''budget'' (PDict [(''node_hours'', PFloat NaN)]) demo_join_body"

lemma refused_join_leaves_member:
  "(case route_join (dispatcher_calls demo_setup) demo_join_env True (PDict nan_join_body) fed_start of (res, p, st) \<Rightarrow>
      res = Inl 409 \<and> fs_resources (fp_state p) = [] \<and> pool_lists ''fed-cpu'' ''anl.polaris.default'' st)"
  by code_simp

end
