(* ===== verification/Broker.thy ===== *)
theory Broker
  imports Event_Router
begin

text \<open>
  The routing loop of the broker (\<^verbatim>\<open>broker.py\<close>): registration and resume, request and response routing
  with the table of calls in flight, calls the broker makes itself, liveness with its grace timers, the
  reaper and the topology broadcast.  All of it runs on one event loop, so a step of the model is the
  code between two awaits: an action is what reaches the loop from outside (\<open>bk_action\<close>), and what a
  coroutine does after its next await is a job (\<open>bk_job\<close>).  A loop with an await in its body is a job
  that does one iteration per step.  Outputs are effects in the order they are issued; whether a send
  succeeds does not matter, since \<open>_send\<close> swallows every error.
\<close>

section \<open>State\<close>

text \<open>\<open>_participants[name]\<close>, an entry of the topology, and a call in flight.  Keys of a plugin dictionary
  are in the canonical form of \<open>hash_key\<close>.\<close>

type_synonym plugin_dict = "(pyval \<times> dict) list"

record bk_participant =
  bp_role :: string
  bp_plugins :: plugin_dict

record participant_info =
  pi_role :: string
  pi_plugins :: plugin_dict
  pi_liveness :: string

type_synonym topology = "(string \<times> participant_info) list"

record bk_call =
  c_src :: string
  c_dst :: string
  c_future :: "nat option"
  c_deadline :: rat

datatype bk_future = Fut_Pending | Fut_Result pyval | Fut_Cancelled

text \<open>What a coroutine still has to do: the rest of a topology broadcast and what follows it, the calls
  that a lost endpoint or the reaper still has to look at, a spawned \<open>_on_lost\<close>, and a request that the
  plugin host is working on.\<close>

datatype bk_cont =
    Then_Nothing
  | Then_Serve socket string
  | Then_Arm string socket
  | Then_Terminate string socket

datatype bk_job =
    Broadcast topology "(string \<times> socket) list" bk_cont
  | Fail_Calls string "(pyval \<times> bk_call) list"
  | Reap rat "(pyval \<times> bk_call) list"
  | Lost string socket
  | Host_Call string dict

text \<open>\<open>b_grace_timers\<close> maps a name to the socket its timer was armed with, \<open>b_conns\<close> a socket to the name under
  which its \<open>/register\<close> handler serves it, \<open>b_hosted\<close> is the topology entry of the plugin host when it is
  up, and \<open>b_reaper\<close> says that the reaper task is alive.  Sockets and futures are numbered by \<open>b_next\<close>.\<close>

record 'b broker =
  b_registry :: "(string \<times> socket) list"
  b_participants :: "(string \<times> bk_participant) list"
  b_liveness :: "(string \<times> string) list"
  b_resume_keys :: "(string \<times> string) list"
  b_grace_timers :: "(string \<times> socket) list"
  b_host_prev :: topology
  b_calls :: "(pyval \<times> bk_call) list"
  b_futures :: "(nat \<times> bk_future) list"
  b_events :: "'b router"
  b_conns :: "(socket \<times> string) list"
  b_jobs :: "bk_job list"
  b_hosted :: "plugin_dict option"
  b_reaper :: bool
  b_next :: nat

text \<open>The tunables of \<open>BrokerTuning\<close> that the routing loop reads, the ingress token, and \<open>msgpack.packb\<close>.\<close>

record 'b bk_env =
  e_auth :: bool
  e_token :: "string option"
  e_call_cap :: nat
  e_forwarded_call_cap :: nat
  e_call_timeout :: rat
  e_packb :: "dict \<Rightarrow> 'b"

datatype bk_frame =
    Ack bool string "string option"
  | Topology_Frame topology
  | Forwarded dict
  | Answer string pyval nat pyval
  | Terminate_Frame string

datatype 'b bk_effect =
    Send_To socket bk_frame
  | Send_Event socket 'b
  | Close_Socket socket
  | Host_Topology topology
  | Topology_Listeners
  | Run_Taps "(nat \<times> dict) list"
  | Terminate_Process

definition new_broker :: "nat \<Rightarrow> 'b broker" where
  "new_broker eq = \<lparr>b_registry = [], b_participants = [], b_liveness = [], b_resume_keys = [],
     b_grace_timers = [], b_host_prev = [], b_calls = [], b_futures = [], b_events = new_router eq,
     b_conns = [], b_jobs = [], b_hosted = None, b_reaper = True, b_next = 0\<rparr>"

section \<open>Topology\<close>

definition is_reserved :: "pyval \<Rightarrow> bool" where
  "is_reserved v = (case v of PStr (c # cs) \<Rightarrow> c = CHR ''_'' | _ \<Rightarrow> False)"

text \<open>\<open>str(i)\<close> of a list position.\<close>

fun nat_str :: "nat \<Rightarrow> string" where
  "nat_str n = (if n < 10 then [char_of (48 + n)] else nat_str (n div 10) @ [char_of (48 + n mod 10)])"

declare nat_str.simps [simp del]

definition plugin_key :: "nat \<Rightarrow> dict \<Rightarrow> pyval" where
  "plugin_key i p = (if truthy (pget p ''name'') then pget p ''name''
     else if truthy (pget p ''type'') then pget p ''type'' else PStr (''plugin.'' @ nat_str i))"

fun add_plugins :: "nat \<Rightarrow> dict list \<Rightarrow> plugin_dict \<Rightarrow> py_error + plugin_dict" where
  "add_plugins i [] out = Inr out"
| "add_plugins i (p # ps) out =
    (if is_reserved (plugin_key i p) then add_plugins (Suc i) ps out
     else case hash_key (plugin_key i p) of
       None \<Rightarrow> Inl TypeError | Some k \<Rightarrow> add_plugins (Suc i) ps (dset k p out))"

definition plugins_list_to_dict :: "dict list \<Rightarrow> py_error + plugin_dict" where
  "plugins_list_to_dict ps = add_plugins 0 ps []"

definition BROKER_CAPS :: string where
  "BROKER_CAPS = ''_broker''"

definition broker_caps_entry :: dict where
  "broker_caps_entry = [(''name'', PStr BROKER_CAPS), (''type'', PStr BROKER_CAPS),
     (''namespace'', PStr (''/broker/'' @ BROKER_CAPS)), (''version'', PStr ''1''), (''enabled'', PBool False),
     (''ui_config'', PNone), (''session_events'', PBool True)]"

text \<open>\<open>ParticipantInfo\<close> admits only strings as plugin names (bytes are read as a string).\<close>

definition is_text :: "pyval \<Rightarrow> bool" where
  "is_text v = (case v of PStr s \<Rightarrow> True | PBytes s \<Rightarrow> True | _ \<Rightarrow> False)"

definition plugins_valid :: "plugin_dict \<Rightarrow> bool" where
  "plugins_valid pl = list_all is_text (map fst pl)"

definition participants_for_topology :: "'b broker \<Rightarrow> py_error + topology" where
  "participants_for_topology b =
    (let parts = map (\<lambda>(n, p). (n, \<lparr>pi_role = bp_role p, pi_plugins = bp_plugins p,
           pi_liveness = (case dget (b_liveness b) n of None \<Rightarrow> ''present'' | Some l \<Rightarrow> l)\<rparr>)) (b_participants b);
         hosted = (case b_hosted b of None \<Rightarrow> [] | Some ps \<Rightarrow> ps);
         own = \<lparr>pi_role = ''broker'', pi_plugins = dset (PStr BROKER_CAPS) broker_caps_entry hosted,
                pi_liveness = ''present''\<rparr>
     in if list_all (\<lambda>(n, i). plugins_valid (pi_plugins i)) parts then Inr (dset ''broker'' own parts) else Inl ValueError)"

definition public_topology :: "topology \<Rightarrow> topology" where
  "public_topology t = dmap_values (\<lambda>i. i\<lparr>pi_plugins := filter (\<lambda>(k, p). \<not> is_reserved k) (pi_plugins i)\<rparr>) t"

text \<open>\<open>_deliver_topology_to_host\<close>: what the hosted plugins are told.\<close>

definition vanished :: "topology \<Rightarrow> topology \<Rightarrow> topology" where
  "vanished prev t = map (\<lambda>(n, i). (n, i\<lparr>pi_liveness := ''lost''\<rparr>))
     (filter (\<lambda>(n, i). \<not> dhas t n \<and> pi_liveness i \<in> {''present'', ''suspect''}) prev)"

definition deliver_topology :: "'b broker \<Rightarrow> py_error + 'b broker \<times> 'b bk_effect list" where
  "deliver_topology b = (case b_hosted b of
     None \<Rightarrow> Inr (b, [])
   | Some ps \<Rightarrow> rbind (participants_for_topology b) (\<lambda>topo.
       let t = public_topology topo
       in Inr (b\<lparr>b_host_prev := t\<rparr>, [Host_Topology (t @ vanished (b_host_prev b) t)])))"

text \<open>The first section of \<open>_broadcast_topology\<close>: build the frame and take the list of sockets.\<close>

definition start_broadcast :: "bk_cont \<Rightarrow> 'b broker \<Rightarrow> py_error + 'b broker" where
  "start_broadcast k b = rbind (participants_for_topology b) (\<lambda>topo.
     Inr (b\<lparr>b_jobs := b_jobs b @ [Broadcast topo (b_registry b) k]\<rparr>))"

section \<open>Liveness\<close>

definition cancel_grace :: "string \<Rightarrow> 'b broker \<Rightarrow> 'b broker" where
  "cancel_grace name b = b\<lparr>b_grace_timers := dpop name (b_grace_timers b)\<rparr>"

definition arm_grace :: "string \<Rightarrow> socket \<Rightarrow> 'b broker \<Rightarrow> 'b broker" where
  "arm_grace name ws b = b\<lparr>b_grace_timers := dset name ws (dpop name (b_grace_timers b))\<rparr>"

definition remove_participant :: "string \<Rightarrow> 'b broker \<Rightarrow> 'b broker" where
  "remove_participant name b = cancel_grace name
     (b\<lparr>b_registry := dpop name (b_registry b), b_participants := dpop name (b_participants b),
        b_liveness := dpop name (b_liveness b), b_resume_keys := dpop name (b_resume_keys b),
        b_events := remove_endpoint name (b_events b)\<rparr>)"

text \<open>A coroutine that raises keeps what it did before.\<close>

definition try_broadcast :: "bk_cont \<Rightarrow> 'b broker \<Rightarrow> 'b broker" where
  "try_broadcast k b = (case start_broadcast k b of Inl e \<Rightarrow> b | Inr b' \<Rightarrow> b')"

definition on_socket_drop :: "string \<Rightarrow> socket \<Rightarrow> bool \<Rightarrow> 'b broker \<Rightarrow> 'b broker" where
  "on_socket_drop name ws clean b =
    (if dget (b_registry b) name \<noteq> Some ws then b
     else if clean then try_broadcast Then_Nothing (remove_participant name b)
     else try_broadcast (Then_Arm name ws)
            (b\<lparr>b_liveness := dset name ''suspect'' (b_liveness b), b_events := pause_sender name (b_events b)\<rparr>))"

definition fire_lost :: "string \<Rightarrow> socket \<Rightarrow> 'b broker \<Rightarrow> 'b broker" where
  "fire_lost name ws b = b\<lparr>b_grace_timers := dpop name (b_grace_timers b), b_jobs := b_jobs b @ [Lost name ws]\<rparr>"

text \<open>\<open>_on_lost\<close> up to the loop over the calls.\<close>

definition on_lost :: "string \<Rightarrow> socket \<Rightarrow> 'b broker \<Rightarrow> 'b broker" where
  "on_lost name ws b =
    (if dget (b_registry b) name \<noteq> Some ws then b
     else let b1 = remove_participant name b in b1\<lparr>b_jobs := b_jobs b1 @ [Fail_Calls name (b_calls b1)]\<rparr>)"

section \<open>Calls in flight\<close>

definition settle_call :: "bk_call option \<Rightarrow> pyval \<Rightarrow> 'b broker \<Rightarrow> 'b broker" where
  "settle_call call resp b = (case Option.bind call c_future of
     None \<Rightarrow> b
   | Some f \<Rightarrow> if dget (b_futures b) f = Some Fut_Pending then b\<lparr>b_futures := dset f (Fut_Result resp) (b_futures b)\<rparr> else b)"

definition response_504 :: "bk_call \<Rightarrow> pyval \<Rightarrow> string \<Rightarrow> pyval" where
  "response_504 call corr why = PDict [(''kind'', PStr ''response''), (''status'', PInt 504),
     (''src'', PStr (c_dst call)), (''dst'', PStr ''broker''), (''corr_id'', corr), (''headers'', PDict []),
     (''body'', PBytes ''''), (''reason'', PStr why)]"

text \<open>A \<open>Response\<close> takes a string or nothing as correlation id.\<close>

definition corr_valid :: "pyval \<Rightarrow> bool" where
  "corr_valid v \<longleftrightarrow> v = PNone \<or> is_text v"

definition fail_call :: "pyval \<Rightarrow> bk_call \<Rightarrow> string \<Rightarrow> 'b broker \<Rightarrow> py_error + 'b broker \<times> 'b bk_effect list" where
  "fail_call corr call why b = (case c_future call of
     Some f \<Rightarrow> Inr (settle_call (Some call) (response_504 call corr why) b, [])
   | None \<Rightarrow> (case dget (b_registry b) (c_src call) of
        None \<Rightarrow> Inr (b, [])
      | Some ws \<Rightarrow> if corr_valid corr then Inr (b, [Send_To ws (Answer (c_dst call) (PStr (c_src call)) 504 corr)])
                   else Inl ValueError))"

definition pop_call :: "pyval \<Rightarrow> 'b broker \<Rightarrow> 'b broker" where
  "pop_call corr b = b\<lparr>b_calls := dpop corr (b_calls b)\<rparr>"

text \<open>One iteration of the loop of \<open>_fail_inflight_for\<close> and of the sweep of \<open>_reap_calls\<close>.\<close>

definition fail_if_touching :: "string \<Rightarrow> pyval \<times> bk_call \<Rightarrow> 'b broker \<Rightarrow> py_error + 'b broker \<times> 'b bk_effect list" where
  "fail_if_touching name cc b = (case cc of (corr, call) \<Rightarrow>
     if c_dst call = name then fail_call corr call ''endpoint lost'' (pop_call corr b)
     else if c_src call = name then Inr (pop_call corr b, [])
     else Inr (b, []))"

definition reap_if_due :: "rat \<Rightarrow> pyval \<times> bk_call \<Rightarrow> 'b broker \<Rightarrow> py_error + 'b broker \<times> 'b bk_effect list" where
  "reap_if_due now cc b = (case cc of (corr, call) \<Rightarrow>
     if c_deadline call \<le> now then fail_call corr call ''call timed out'' (pop_call corr b) else Inr (b, []))"

text \<open>\<open>_broker_call\<close> up to its wait: \<open>fits\<close> says that the packed request is within the frame cap.  The wait ends with
  the future, or with its timeout (\<open>broker_call_expires\<close>), which takes the entry of its correlation id out.\<close>

datatype call_outcome = At_Cap | Unknown_Endpoint | Too_Large | Waiting_For nat

definition broker_calls_open :: "'b broker \<Rightarrow> nat" where
  "broker_calls_open b = length (filter (\<lambda>(k, c). c_future c \<noteq> None) (b_calls b))"

definition broker_call :: "'b bk_env \<Rightarrow> string \<Rightarrow> string \<Rightarrow> dict \<Rightarrow> bool \<Rightarrow> rat \<Rightarrow> 'b broker \<Rightarrow>
    call_outcome \<times> 'b broker \<times> 'b bk_effect list" where
  "broker_call env dst corr payload fits now b =
    (if e_call_cap env \<le> broker_calls_open b then (At_Cap, b, [])
     else case dget (b_registry b) dst of
       None \<Rightarrow> (Unknown_Endpoint, b, [])
     | Some ws \<Rightarrow>
        if \<not> fits then (Too_Large, b, [])
        else let f = b_next b in
          (Waiting_For f,
           b\<lparr>b_next := Suc f, b_futures := dset f Fut_Pending (b_futures b),
             b_calls := dset (PStr corr) \<lparr>c_src = ''broker'', c_dst = dst, c_future = Some f,
               c_deadline = now + e_call_timeout env\<rparr> (b_calls b)\<rparr>,
           [Send_To ws (Forwarded ([(''src'', PStr ''broker''), (''dst'', PStr dst), (''corr_id'', PStr corr)] @ payload))]))"

definition broker_call_expires :: "string \<Rightarrow> nat \<Rightarrow> 'b broker \<Rightarrow> 'b broker" where
  "broker_call_expires corr f b =
    (if dget (b_futures b) f = Some Fut_Pending
     then pop_call (PStr corr) (b\<lparr>b_futures := dset f Fut_Cancelled (b_futures b)\<rparr>) else b)"

section \<open>Registration\<close>

definition tokens_match :: "string option \<Rightarrow> string option \<Rightarrow> bool" where
  "tokens_match provided expected = (case (provided, expected) of
     (Some p, Some e) \<Rightarrow> p \<noteq> [] \<and> e \<noteq> [] \<and> p = e | _ \<Rightarrow> False)"

record bk_hello =
  h_name :: string
  h_credential :: "string option"
  h_resume_key :: "string option"
  h_role :: string
  h_plugins :: "dict list"

definition refuse_register :: "socket \<Rightarrow> string \<Rightarrow> 'b broker \<Rightarrow> 'b broker \<times> 'b bk_effect list" where
  "refuse_register ws why b = (b, [Send_To ws (Ack False [] (Some why)), Close_Socket ws])"

text \<open>A coroutine that raises in \<open>_register\<close> leaves the handler without a name, so nothing is undone.\<close>

definition resume_participant :: "socket \<Rightarrow> socket \<Rightarrow> bk_hello \<Rightarrow> 'b broker \<Rightarrow> 'b broker \<times> 'b bk_effect list" where
  "resume_participant ws old h b =
    (let name = h_name h;
         b1 = cancel_grace name (b\<lparr>b_registry := dset name ws (b_registry b)\<rparr>);
         b2 = b1\<lparr>b_liveness := dset name ''present'' (b_liveness b1)\<rparr>
     in case dget (b_participants b2) name of
          None \<Rightarrow> (b2, [Close_Socket ws])
        | Some p \<Rightarrow>
           (let b3 = b2\<lparr>b_participants := dset name (p\<lparr>bp_role := h_role h\<rparr>) (b_participants b2)\<rparr>
            in case plugins_list_to_dict (h_plugins h) of
                 Inl e \<Rightarrow> (b3, [Close_Socket ws])
               | Inr pl \<Rightarrow>
                  (let b4 = b3\<lparr>b_participants := dset name \<lparr>bp_role = h_role h, bp_plugins = pl\<rparr> (b_participants b3),
                               b_events := restart_sender name (b_events b3)\<rparr>;
                       key = (case dget (b_resume_keys b4) name of None \<Rightarrow> [] | Some k \<Rightarrow> k);
                       sent = Send_To ws (Ack True key None) # (if old \<noteq> ws then [Close_Socket old] else [])
                   in case start_broadcast (Then_Serve ws name) b4 of
                        Inl e \<Rightarrow> (b4, sent @ [Close_Socket ws]) | Inr b5 \<Rightarrow> (b5, sent))))"

definition fresh_participant :: "socket \<Rightarrow> string \<Rightarrow> bk_hello \<Rightarrow> 'b broker \<Rightarrow> 'b broker \<times> 'b bk_effect list" where
  "fresh_participant ws key h b =
    (let name = h_name h;
         b1 = b\<lparr>b_registry := dset name ws (b_registry b), b_resume_keys := dset name key (b_resume_keys b),
                b_liveness := dset name ''present'' (b_liveness b)\<rparr>
     in case plugins_list_to_dict (h_plugins h) of
          Inl e \<Rightarrow> (b1, [Close_Socket ws])
        | Inr pl \<Rightarrow>
           (let b2 = b1\<lparr>b_participants := dset name \<lparr>bp_role = h_role h, bp_plugins = pl\<rparr> (b_participants b1),
                        b_events := add_endpoint name (b_events b1)\<rparr>
            in case start_broadcast (Then_Serve ws name) b2 of
                 Inl e \<Rightarrow> (b2, [Send_To ws (Ack True key None), Close_Socket ws])
               | Inr b3 \<Rightarrow> (b3, [Send_To ws (Ack True key None)])))"

definition register_ws :: "'b bk_env \<Rightarrow> socket \<Rightarrow> string \<Rightarrow> bk_hello \<Rightarrow> 'b broker \<Rightarrow> 'b broker \<times> 'b bk_effect list" where
  "register_ws env ws key h b =
    (if e_auth env \<and> \<not> tokens_match (h_credential h) (e_token env) then refuse_register ws ''invalid-credential'' b
     else if h_name h = ''broker'' then refuse_register ws ''name-reserved'' b
     else case dget (b_registry b) (h_name h) of
       Some old \<Rightarrow>
         if tokens_match (h_resume_key h) (dget (b_resume_keys b) (h_name h)) then resume_participant ws old h b
         else refuse_register ws ''name-in-use'' b
     | None \<Rightarrow> fresh_participant ws key h b)"

section \<open>Frames\<close>

text \<open>A handler that raises is left by an exception: its socket is dropped uncleanly.  \<open>_error_response\<close> builds a
  \<open>Response\<close>, so it raises for a correlation id that is not a string.\<close>

definition error_response :: "string \<Rightarrow> pyval \<Rightarrow> nat \<Rightarrow> 'b broker \<Rightarrow> py_error + 'b broker \<times> 'b bk_effect list" where
  "error_response src corr status b =
    (if corr_valid corr
     then Inr (b, case dget (b_registry b) src of None \<Rightarrow> []
                  | Some ws \<Rightarrow> [Send_To ws (Answer ''broker'' (PStr src) status corr)])
     else Inl ValueError)"

definition registered :: "pyval \<Rightarrow> 'b broker \<Rightarrow> py_error + socket option" where
  "registered dst b = (case hash_key dst of
     None \<Rightarrow> Inl TypeError
   | Some k \<Rightarrow> Inr (case k of PStr n \<Rightarrow> dget (b_registry b) n | _ \<Rightarrow> None))"

definition str_name :: "pyval \<Rightarrow> string" where
  "str_name v = (case v of PStr s \<Rightarrow> s | _ \<Rightarrow> [])"

definition route_request :: "'b bk_env \<Rightarrow> rat \<Rightarrow> string \<Rightarrow> dict \<Rightarrow> 'b broker \<Rightarrow> py_error + 'b broker \<times> 'b bk_effect list" where
  "route_request env now src raw0 b =
    (let raw = dset ''src'' (PStr src) raw0; dst = pget raw ''dst''; corr = pget raw ''corr_id''
     in if dst = PStr ''broker'' then Inr (b\<lparr>b_jobs := b_jobs b @ [Host_Call src raw]\<rparr>, [])
        else rbind (registered dst b) (\<lambda>target. case target of
            None \<Rightarrow> error_response src corr 502 b
          | Some ws \<Rightarrow>
             if e_forwarded_call_cap env \<le> length (b_calls b) then error_response src corr 503 b
             else case hash_key corr of
               None \<Rightarrow> Inl TypeError
             | Some k \<Rightarrow> Inr (b\<lparr>b_calls := dset k \<lparr>c_src = src, c_dst = str_name dst, c_future = None,
                                  c_deadline = now + e_call_timeout env\<rparr> (b_calls b)\<rparr>,
                             [Send_To ws (Forwarded raw)])))"

definition route_response :: "dict \<Rightarrow> 'b broker \<Rightarrow> py_error + 'b broker \<times> 'b bk_effect list" where
  "route_response raw b =
    (case hash_key (pget raw ''corr_id'') of
       None \<Rightarrow> Inl TypeError
     | Some k \<Rightarrow>
        (let b1 = pop_call k b
         in if pget raw ''dst'' = PStr ''broker'' then Inr (settle_call (dget (b_calls b) k) (PDict raw) b1, [])
            else rbind (registered (pget raw ''dst'') b1) (\<lambda>target.
              Inr (b1, case target of None \<Rightarrow> [] | Some ws \<Rightarrow> [Send_To ws (Forwarded raw)]))))"

text \<open>\<open>_dispatch_to_host\<close> after the host has answered with \<open>status\<close>.\<close>

definition strip_broker_prefix :: "string \<Rightarrow> string" where
  "strip_broker_prefix path =
    (let prefix = ''/broker'' in
     if path = prefix then ''/''
     else if take (length prefix + 1) path = prefix @ ''/'' then drop (length prefix) path
     else if take (length prefix + 1) path = prefix @ ''?'' then CHR ''/'' # drop (length prefix) path
     else path)"

definition host_reply :: "nat \<Rightarrow> string \<Rightarrow> dict \<Rightarrow> 'b broker \<Rightarrow> 'b bk_effect list" where
  "host_reply status src raw b =
    (if corr_valid (pget raw ''corr_id'')
     then case dget (b_registry b) src of None \<Rightarrow> []
          | Some ws \<Rightarrow> [Send_To ws (Answer ''broker'' (PStr src) status (pget raw ''corr_id''))]
     else [])"

text \<open>\<open>_disconnect\<close> and \<open>_handle_control\<close>; both raise when the topology cannot be built, with the participant already
  removed.\<close>

definition bk_disconnect :: "pyval \<Rightarrow> 'b broker \<Rightarrow> (py_error + unit) \<times> 'b broker" where
  "bk_disconnect target b = (case registered target b of
     Inl e \<Rightarrow> (Inl e, b)
   | Inr None \<Rightarrow> (Inr (), b)
   | Inr (Some ws) \<Rightarrow>
      (let b1 = remove_participant (str_name target) b
       in case start_broadcast (Then_Terminate (str_name target) ws) b1 of
            Inl e \<Rightarrow> (Inl e, b1) | Inr b2 \<Rightarrow> (Inr (), b2)))"

definition handle_control :: "dict \<Rightarrow> 'b broker \<Rightarrow> (py_error + 'b bk_effect list) \<times> 'b broker" where
  "handle_control raw b =
    (if pget raw ''op'' = PStr ''terminate'' then (Inr [Terminate_Process], b)
     else if pget raw ''op'' = PStr ''disconnect'' then
       (case (if truthy (pget raw ''data'') then pget raw ''data'' else PDict []) of
          PDict d \<Rightarrow>
            if truthy (pget d ''name'')
            then (case bk_disconnect (pget d ''name'') b of (Inl e, b1) \<Rightarrow> (Inl e, b1) | (Inr u, b1) \<Rightarrow> (Inr [], b1))
            else (Inr [], b)
        | _ \<Rightarrow> (Inl AttributeError, b))
     else (Inr [], b))"


text \<open>\<open>_route_frame\<close> for one decoded frame (\<open>None\<close> when it does not decode).\<close>

definition route_frame :: "'b bk_env \<Rightarrow> rat \<Rightarrow> string \<Rightarrow> pyval option \<Rightarrow> 'b broker \<Rightarrow> (py_error + 'b bk_effect list) \<times> 'b broker" where
  "route_frame env now name frame b = (case frame of
     Some (PDict raw) \<Rightarrow>
       (let kind = pget raw ''kind'';
            call = (\<lambda>r. case r of Inl e \<Rightarrow> (Inl e, b) | Inr (b1, fx) \<Rightarrow> (Inr fx, b1))
        in if kind = PStr ''request'' then call (route_request env now name raw b)
           else if kind = PStr ''response'' then
             (case route_response raw b of
                Inl e \<Rightarrow> (Inl e, case hash_key (pget raw ''corr_id'') of None \<Rightarrow> b | Some k \<Rightarrow> pop_call k b)
              | Inr (b1, fx) \<Rightarrow> (Inr fx, b1))
           else if kind = PStr ''event'' then
             (case ingest (e_packb env) now name raw (b_events b) of
                (r, Raised) \<Rightarrow> (Inl TypeError, b\<lparr>b_events := r\<rparr>)
              | (r, Stamped ev tps) \<Rightarrow> (Inr [Run_Taps tps], b\<lparr>b_events := r\<rparr>))
           else if kind = PStr ''subscribe'' then (Inr [], b\<lparr>b_events := update_subscription name raw True (b_events b)\<rparr>)
           else if kind = PStr ''unsubscribe'' then (Inr [], b\<lparr>b_events := update_subscription name raw False (b_events b)\<rparr>)
           else if kind = PStr ''control'' then handle_control raw b
           else (Inr [], b))
   | _ \<Rightarrow> (Inl AttributeError, b))"

text \<open>The loop of the \<open>/register\<close> handler: a frame, or the end of the connection.\<close>

definition receive_frame :: "'b bk_env \<Rightarrow> rat \<Rightarrow> socket \<Rightarrow> string \<Rightarrow> pyval option \<Rightarrow> 'b broker \<Rightarrow> 'b broker \<times> 'b bk_effect list" where
  "receive_frame env now ws name frame b = (case route_frame env now name frame b of
     (Inr fx, b1) \<Rightarrow> (b1, fx)
   | (Inl e, b1) \<Rightarrow> (on_socket_drop name ws False (b1\<lparr>b_conns := dpop ws (b_conns b1)\<rparr>), []))"

section \<open>Jobs and actions\<close>

text \<open>What follows a broadcast: the new handler serves its socket, the grace timer of the dropped socket is armed, or
  the disconnected endpoint is told to terminate.\<close>

fun run_cont :: "bk_cont \<Rightarrow> 'b broker \<Rightarrow> 'b broker \<times> 'b bk_effect list" where
  "run_cont Then_Nothing b = (b, [])"
| "run_cont (Then_Serve ws name) b = (b\<lparr>b_conns := dset ws name (b_conns b)\<rparr>, [])"
| "run_cont (Then_Arm name ws) b = (arm_grace name ws b, [])"
| "run_cont (Then_Terminate name ws) b = (b, [Send_To ws (Terminate_Frame name), Close_Socket ws])"

text \<open>One step of a job that has been taken off the list; it puts itself back while it has work left.  A job that
  raises is gone, and the reaper never comes back.\<close>

fun job_step :: "nat \<Rightarrow> bk_job \<Rightarrow> 'b broker \<Rightarrow> 'b broker \<times> 'b bk_effect list" where
  "job_step status (Broadcast topo ((name, ws) # rest) k) b =
     (b\<lparr>b_jobs := b_jobs b @ [Broadcast topo rest k]\<rparr>, [Send_To ws (Topology_Frame topo)])"
| "job_step status (Broadcast topo [] k) b = (case deliver_topology b of
     Inl e \<Rightarrow> (b, [])
   | Inr (b1, fx) \<Rightarrow> (case run_cont k b1 of (b2, fx2) \<Rightarrow> (b2, fx @ [Topology_Listeners] @ fx2)))"
| "job_step status (Fail_Calls name []) b = (try_broadcast Then_Nothing b, [])"
| "job_step status (Fail_Calls name (cc # rest)) b = (case fail_if_touching name cc b of
     Inl e \<Rightarrow> (pop_call (fst cc) b, [])
   | Inr (b1, fx) \<Rightarrow> (b1\<lparr>b_jobs := b_jobs b1 @ [Fail_Calls name rest]\<rparr>, fx))"
| "job_step status (Reap now []) b = (b, [])"
| "job_step status (Reap now (cc # rest)) b = (case reap_if_due now cc b of
     Inl e \<Rightarrow> ((pop_call (fst cc) b)\<lparr>b_reaper := False\<rparr>, [])
   | Inr (b1, fx) \<Rightarrow> (b1\<lparr>b_jobs := b_jobs b1 @ [Reap now rest]\<rparr>, fx))"
| "job_step status (Lost name ws) b = (on_lost name ws b, [])"
| "job_step status (Host_Call src raw) b = (b, host_reply status src raw b)"

definition run_job :: "nat \<Rightarrow> nat \<Rightarrow> 'b broker \<Rightarrow> ('b broker \<times> 'b bk_effect list) option" where
  "run_job i status b =
    (if i < length (b_jobs b)
     then Some (job_step status (b_jobs b ! i) (b\<lparr>b_jobs := take i (b_jobs b) @ drop (Suc i) (b_jobs b)\<rparr>)) else None)"

definition is_reap :: "bk_job \<Rightarrow> bool" where
  "is_reap j = (case j of Reap now cs \<Rightarrow> True | _ \<Rightarrow> False)"

text \<open>What reaches the loop: a first frame on a new socket with the resume key that would be minted for it, a frame or
  the end of a served connection, a grace timer, the next await of a job, a call of a hosted plugin or its timeout,
  the reaper's wake-up, a sender, an event or a change of the plugin host.\<close>

datatype bk_action =
    Connects bk_hello string
  | Receives socket "pyval option" rat
  | Drops socket bool
  | Grace_Fires string
  | Runs nat nat
  | Calls string string dict bool rat
  | Call_Expires string nat
  | Reaps rat
  | Sender_Runs string bool
  | Host_Event dict rat
  | Host_Changed "plugin_dict option"

fun bk_do :: "'b bk_env \<Rightarrow> bk_action \<Rightarrow> 'b broker \<Rightarrow> ('b broker \<times> 'b bk_effect list) option" where
  "bk_do env (Connects h key) b =
     Some (register_ws env (b_next b) key h (b\<lparr>b_next := Suc (b_next b)\<rparr>))"
| "bk_do env (Receives ws frame now) b =
     map_option (\<lambda>name. receive_frame env now ws name frame b) (dget (b_conns b) ws)"
| "bk_do env (Drops ws clean) b =
     map_option (\<lambda>name. (on_socket_drop name ws clean (b\<lparr>b_conns := dpop ws (b_conns b)\<rparr>), [])) (dget (b_conns b) ws)"
| "bk_do env (Grace_Fires name) b = map_option (\<lambda>ws. (fire_lost name ws b, [])) (dget (b_grace_timers b) name)"
| "bk_do env (Runs i status) b = run_job i status b"
| "bk_do env (Calls dst corr payload fits now) b = Some (snd (broker_call env dst corr payload fits now b))"
| "bk_do env (Call_Expires corr f) b = Some (broker_call_expires corr f b, [])"
| "bk_do env (Reaps now) b =
     (if b_reaper b \<and> \<not> list_ex is_reap (b_jobs b)
      then Some (b\<lparr>b_jobs := b_jobs b @ [Reap now (b_calls b)]\<rparr>, []) else None)"
| "bk_do env (Sender_Runs name ok) b =
     (case sender_step ok name (b_registry b) (b_events b) of (r, item) \<Rightarrow>
        Some (b\<lparr>b_events := r\<rparr>, case (item, dget (b_registry b) name) of
                                  (Some x, Some ws) \<Rightarrow> [Send_Event ws x] | _ \<Rightarrow> []))"
| "bk_do env (Host_Event raw now) b =
     (case ingest (e_packb env) now ''broker'' raw (b_events b) of
        (r, Raised) \<Rightarrow> Some (b\<lparr>b_events := r\<rparr>, [])
      | (r, Stamped ev tps) \<Rightarrow> Some (b\<lparr>b_events := r\<rparr>, [Run_Taps tps]))"
| "bk_do env (Host_Changed ps) b = Some (try_broadcast Then_Nothing (b\<lparr>b_hosted := ps\<rparr>), [])"

inductive bk_step :: "'b bk_env \<Rightarrow> (bk_action \<Rightarrow> bool) \<Rightarrow> 'b broker \<Rightarrow> 'b broker \<Rightarrow> bool" for env allow where
  act: "allow a \<Longrightarrow> bk_do env a b = Some (b', fx) \<Longrightarrow> bk_step env allow b b'"

inductive bk_reachable :: "'b bk_env \<Rightarrow> (bk_action \<Rightarrow> bool) \<Rightarrow> 'b broker \<Rightarrow> bool" for env allow where
  start: "bk_reachable env allow (new_broker n)"
| step: "bk_reachable env allow b \<Longrightarrow> bk_step env allow b b' \<Longrightarrow> bk_reachable env allow b'"


section \<open>What well-formed input keeps\<close>

text \<open>Input that the code survives: plugin entries whose name is a string, requests whose correlation id is one
  (or absent).\<close>

definition plugin_named :: "dict \<Rightarrow> bool" where
  "plugin_named p \<longleftrightarrow> is_text (plugin_key 0 p)"

fun bk_conforming :: "bk_action \<Rightarrow> bool" where
  "bk_conforming (Connects h key) = list_all plugin_named (h_plugins h)"
| "bk_conforming (Receives ws (Some (PDict raw)) now) = corr_valid (pget raw ''corr_id'')"
| "bk_conforming a = True"

definition tables_ok :: "'b broker \<Rightarrow> bool" where
  "tables_ok b \<longleftrightarrow>
     (\<forall>n. (dget (b_participants b) n = None \<longleftrightarrow> dget (b_registry b) n = None) \<and>
          (dget (b_liveness b) n = None \<longleftrightarrow> dget (b_registry b) n = None) \<and>
          (dget (b_resume_keys b) n = None \<longleftrightarrow> dget (b_registry b) n = None)) \<and>
     dget (b_registry b) ''broker'' = None \<and>
     (\<forall>e \<in> set (b_participants b). plugins_valid (bp_plugins (snd e)))"

text \<open>Every call that could still be failed has a correlation id that a response can carry.\<close>

fun job_calls :: "bk_job \<Rightarrow> (pyval \<times> bk_call) list" where
  "job_calls (Fail_Calls name cs) = cs"
| "job_calls (Reap now cs) = cs"
| "job_calls j = []"

definition calls_ok :: "'b broker \<Rightarrow> bool" where
  "calls_ok b \<longleftrightarrow> b_reaper b \<and> list_all corr_valid (map fst (b_calls b)) \<and>
     (\<forall>j \<in> set (b_jobs b). list_all corr_valid (map fst (job_calls j)))"

text \<open>The queue of a participant exists while it is registered, and nothing takes events from the queue of a suspect
  one.\<close>

definition delivery_ok :: "'b broker \<Rightarrow> bool" where
  "delivery_ok b \<longleftrightarrow> (\<forall>n. dget (b_registry b) n \<noteq> None \<longrightarrow>
     dget (outq (b_events b)) n \<noteq> None \<and> dget (senders (b_events b)) n \<noteq> None \<and>
     (dget (b_liveness b) n = Some ''suspect'' \<longrightarrow> dget (senders (b_events b)) n = Some Finished))"

definition bk_inv :: "'b broker \<Rightarrow> bool" where
  "bk_inv b \<longleftrightarrow> tables_ok b \<and> calls_ok b \<and> delivery_ok b"

lemma is_text_hash [simp]: "is_text k \<Longrightarrow> hash_key k = Some k"
  by (cases k) (auto simp: is_text_def)

lemma plugin_key_text: "plugin_named p \<Longrightarrow> is_text (plugin_key i p)"
  by (auto simp: plugin_named_def plugin_key_def is_text_def split: if_splits)

lemma plugins_valid_dset: "is_text k \<Longrightarrow> plugins_valid pl \<Longrightarrow> plugins_valid (dset k p pl)"
  by (auto simp: plugins_valid_def list_all_iff keys_dset)

lemma add_plugins_valid:
  "list_all plugin_named ps \<Longrightarrow> plugins_valid out \<Longrightarrow> \<exists>pl. add_plugins i ps out = Inr pl \<and> plugins_valid pl"
  by (induction i ps out rule: add_plugins.induct) (auto simp: plugin_key_text plugins_valid_dset)

lemma plugins_list_valid:
  "list_all plugin_named ps \<Longrightarrow> \<exists>pl. plugins_list_to_dict ps = Inr pl \<and> plugins_valid pl"
  unfolding plugins_list_to_dict_def by (rule add_plugins_valid) (auto simp: plugins_valid_def)

lemma topology_buildable: "tables_ok b \<Longrightarrow> \<exists>t. participants_for_topology b = Inr t"
  by (force simp: participants_for_topology_def tables_ok_def list_all_iff Let_def split: if_splits)


lemmas bk_inv_defs = bk_inv_def tables_ok_def calls_ok_def delivery_ok_def

lemma start_broadcast_ok:
  "tables_ok b \<Longrightarrow> \<exists>t. start_broadcast k b = Inr (b\<lparr>b_jobs := b_jobs b @ [Broadcast t (b_registry b) k]\<rparr>)"
  using topology_buildable [of b] by (auto simp: start_broadcast_def)

lemma add_job_inv: "bk_inv b \<Longrightarrow> list_all corr_valid (map fst (job_calls j)) \<Longrightarrow> bk_inv (b\<lparr>b_jobs := b_jobs b @ [j]\<rparr>)"
  by (auto simp: bk_inv_defs)

lemma start_broadcast_inv: "bk_inv b \<Longrightarrow> \<exists>b'. start_broadcast k b = Inr b' \<and> bk_inv b'"
  using start_broadcast_ok [of b k] add_job_inv [of b] by (fastforce simp: bk_inv_def)

lemma try_broadcast_inv: "bk_inv b \<Longrightarrow> bk_inv (try_broadcast k b)"
  using start_broadcast_inv [of b k] by (auto simp: try_broadcast_def)

text \<open>Dropping an entry and keeping the others.\<close>

lemma dpop_mem: "e \<in> set (dpop k d) \<Longrightarrow> e \<in> set d"
  by (auto simp: AList.delete_eq)

lemma dset_mem: "e \<in> set (dset k v d) \<Longrightarrow> e = (k, v) \<or> e \<in> set d"
  by (induction d) (auto split: if_splits)

lemma list_all_dpop: "list_all P (map fst d) \<Longrightarrow> list_all P (map fst (dpop k d))"
  by (auto simp: AList.delete_eq list_all_iff)

lemma list_all_dset: "list_all P (map fst d) \<Longrightarrow> P k \<Longrightarrow> list_all P (map fst (dset k v d))"
  by (auto simp: keys_dset list_all_iff)

lemma router_queue_simps [simp]:
  "dget (outq (remove_endpoint n r)) m = (if m = n then None else dget (outq r) m)"
  "dget (senders (pause_sender n r)) m = (if m = n then map_option (\<lambda>c. Finished) (dget (senders r) n) else dget (senders r) m)"
  "dget (senders (remove_endpoint n r)) m = (if m = n then None else dget (senders r) m)"
  "dget (senders (restart_sender n r)) m = (if m = n then Some Waiting else dget (senders r) m)"
  "dget (outq (restart_sender n r)) m = (if m = n then map_option (\<lambda>q. q\<lparr>wake := buf q \<noteq> [] \<or> wake q\<rparr>) (dget (outq r) n) else dget (outq r) m)"
  "dget (senders (add_endpoint n r)) m = (if m = n then Some Waiting else dget (senders r) m)"
  by (auto simp: remove_endpoint_def pause_sender_def restart_sender_def add_endpoint_def Let_def reindex_def
      setdefault_subs_def split: option.splits)

lemma remove_participant_inv: "bk_inv b \<Longrightarrow> bk_inv (remove_participant name b)"
  by (auto simp: bk_inv_defs remove_participant_def cancel_grace_def dest!: dpop_mem)

lemma on_socket_drop_inv: "bk_inv b \<Longrightarrow> bk_inv (on_socket_drop name ws clean b)"
  unfolding on_socket_drop_def
  by (auto intro!: try_broadcast_inv remove_participant_inv) (auto simp: bk_inv_defs)

lemma on_lost_inv: "bk_inv b \<Longrightarrow> bk_inv (on_lost name ws b)"
  using remove_participant_inv [of b name] add_job_inv [of "remove_participant name b" "Fail_Calls name (b_calls (remove_participant name b))"]
  by (auto simp: on_lost_def Let_def) (auto simp: bk_inv_defs)


lemma pop_call_inv: "bk_inv b \<Longrightarrow> bk_inv (pop_call k b)"
  by (auto simp: bk_inv_defs pop_call_def intro: list_all_dpop)

lemma settle_call_inv: "bk_inv b \<Longrightarrow> bk_inv (settle_call call resp b)"
  by (auto simp: bk_inv_defs settle_call_def split: option.splits)

lemma fail_call_inv:
  "bk_inv b \<Longrightarrow> corr_valid corr \<Longrightarrow> \<exists>b' fx. fail_call corr call why b = Inr (b', fx) \<and> bk_inv b'"
  by (auto simp: fail_call_def settle_call_inv split: option.splits)

lemma fail_if_touching_inv:
  "bk_inv b \<Longrightarrow> corr_valid (fst cc) \<Longrightarrow> \<exists>b' fx. fail_if_touching name cc b = Inr (b', fx) \<and> bk_inv b'"
  using fail_call_inv [of "pop_call (fst cc) b" "fst cc" "snd cc"] pop_call_inv [of b "fst cc"]
  by (cases cc) (auto simp: fail_if_touching_def)

lemma reap_if_due_inv:
  "bk_inv b \<Longrightarrow> corr_valid (fst cc) \<Longrightarrow> \<exists>b' fx. reap_if_due now cc b = Inr (b', fx) \<and> bk_inv b'"
  using fail_call_inv [of "pop_call (fst cc) b" "fst cc" "snd cc"] pop_call_inv [of b "fst cc"]
  by (cases cc) (auto simp: reap_if_due_def)

lemma add_call_inv: "bk_inv b \<Longrightarrow> corr_valid k \<Longrightarrow> bk_inv (b\<lparr>b_calls := dset k c (b_calls b)\<rparr>)"
  by (auto simp: bk_inv_defs intro: list_all_dset)

lemma broker_call_inv: "bk_inv b \<Longrightarrow> broker_call env dst corr payload fits now b = (r, b', fx) \<Longrightarrow> bk_inv b'"
  by (auto simp: broker_call_def Let_def bk_inv_defs is_text_def corr_valid_def intro!: list_all_dset split: if_splits option.splits)

lemma broker_call_expires_inv: "bk_inv b \<Longrightarrow> bk_inv (broker_call_expires corr f b)"
  unfolding broker_call_expires_def by (auto intro!: pop_call_inv) (auto simp: bk_inv_defs)

lemma events_inv:
  assumes "bk_inv b" and "\<And>n. dget (outq (b_events b)) n \<noteq> None \<Longrightarrow> dget (outq r) n \<noteq> None"
    and "\<And>n. dget (senders r) n = None \<longleftrightarrow> dget (senders (b_events b)) n = None"
    and "\<And>n. dget (senders (b_events b)) n = Some Finished \<Longrightarrow> dget (senders r) n = Some Finished"
  shows "bk_inv (b\<lparr>b_events := r\<rparr>)"
  using assms by (fastforce simp: bk_inv_defs)

lemma update_subscription_frame [simp]:
  "outq (update_subscription n raw add r) = outq r" "senders (update_subscription n raw add r) = senders r"
  by (simp_all add: update_subscription_def Let_def reindex_def setdefault_subs_def)

lemma subscribe_inv: "bk_inv b \<Longrightarrow> bk_inv (b\<lparr>b_events := update_subscription n raw add (b_events b)\<rparr>)"
  by (rule events_inv) auto

lemma fan_out_kept: "fan_out src pl t s f ix out = (out', err) \<Longrightarrow> dget out n \<noteq> None \<Longrightarrow> dget out' n \<noteq> None"
proof (induction src pl t s f ix out rule: fan_out.induct)
  case (2 src plugin topic session frame sub ix rest out)
  then show ?case by (fastforce split: if_splits option.splits)
qed simp

lemma ingest_frame:
  assumes "ingest pk now src raw r = (r', oc)"
  shows "senders r' = senders r \<and> (\<forall>n. dget (outq r) n \<noteq> None \<longrightarrow> dget (outq r') n \<noteq> None)"
  using assms
proof (cases rule: ingest_cases)
  case (session s kp ks n r1 raw3 out err)
  moreover have "outq r1 = outq r" "senders r1 = senders r"
    using session(4) by (auto simp: stamp_session_def Let_def)
  ultimately show ?thesis using fan_out_kept [OF session(6)] session(7) by simp
next
  case (global n r1 raw3 out err)
  moreover have "outq r1 = outq r" "senders r1 = senders r"
    using global(2) by (auto simp: stamp_global_def)
  ultimately show ?thesis using fan_out_kept [OF global(4)] global(5) by simp
qed simp

lemma ingest_bk_inv:
  assumes "bk_inv b" "ingest pk now src raw (b_events b) = (r, oc)"
  shows "bk_inv (b\<lparr>b_events := r\<rparr>)"
  using assms(1) ingest_frame [OF assms(2)] by (intro events_inv) auto

lemma sender_bk_inv: "bk_inv b \<Longrightarrow> sender_step ok name reg (b_events b) = (r, it) \<Longrightarrow> bk_inv (b\<lparr>b_events := r\<rparr>)"
  by (rule events_inv) (auto simp: sender_step_def Let_def split: option.splits prod.splits if_splits)


text \<open>The handlers.  The queue of a fresh participant is there because \<open>add_endpoint\<close> made it, that of a resumed one
  because it was registered.\<close>

lemma add_endpoint_outq [simp]:
  "dget (outq (add_endpoint n r)) m = (if m = n then Some (new_queue (event_queue r)) else dget (outq r) m)"
  by (simp add: add_endpoint_def Let_def reindex_def setdefault_subs_def new_queue_def)

lemma fresh_participant_inv:
  assumes inv: "bk_inv b" and h: "list_all plugin_named (h_plugins h)" "h_name h \<noteq> ''broker''"
  shows "bk_inv (fst (fresh_participant ws key h b))"
proof -
  obtain pl where pl: "plugins_list_to_dict (h_plugins h) = Inr pl" "plugins_valid pl"
    using plugins_list_valid [OF h(1)] by blast
  let ?n = "h_name h"
  let ?b = "b\<lparr>b_registry := dset ?n ws (b_registry b), b_resume_keys := dset ?n key (b_resume_keys b),
     b_liveness := dset ?n ''present'' (b_liveness b),
     b_participants := dset ?n \<lparr>bp_role = h_role h, bp_plugins = pl\<rparr> (b_participants b),
     b_events := add_endpoint ?n (b_events b)\<rparr>"
  have "tables_ok ?b" using inv pl(2) h(2) by (auto simp: bk_inv_def tables_ok_def dest!: dset_mem)
  moreover have "calls_ok ?b" "delivery_ok ?b" using inv by (auto simp: bk_inv_def calls_ok_def delivery_ok_def)
  ultimately have "bk_inv ?b" by (simp add: bk_inv_def)
  from start_broadcast_inv [OF this, of "Then_Serve ws ?n"] show ?thesis
    by (auto simp: fresh_participant_def Let_def pl(1))
qed

lemma resume_participant_inv:
  assumes inv: "bk_inv b" and old: "dget (b_registry b) (h_name h) = Some old" and h: "list_all plugin_named (h_plugins h)"
  shows "bk_inv (fst (resume_participant ws old h b))"
proof -
  obtain pl where pl: "plugins_list_to_dict (h_plugins h) = Inr pl" "plugins_valid pl"
    using plugins_list_valid [OF h] by blast
  let ?n = "h_name h"
  obtain p where p: "dget (b_participants b) ?n = Some p"
    using inv old by (fastforce simp: bk_inv_defs)
  let ?b = "b\<lparr>b_registry := dset ?n ws (b_registry b), b_grace_timers := dpop ?n (b_grace_timers b),
     b_liveness := dset ?n ''present'' (b_liveness b),
     b_participants := dset ?n \<lparr>bp_role = h_role h, bp_plugins = pl\<rparr> (dset ?n (p\<lparr>bp_role := h_role h\<rparr>) (b_participants b)),
     b_events := restart_sender ?n (b_events b)\<rparr>"
  have "plugins_valid (bp_plugins p)"
    using inv map_of_SomeD [OF p] by (force simp: bk_inv_defs)
  then have "tables_ok ?b" using inv pl(2) old by (auto simp: bk_inv_def tables_ok_def dest!: dset_mem)
  moreover have "calls_ok ?b" "delivery_ok ?b" using inv old by (auto simp: bk_inv_def calls_ok_def delivery_ok_def)
  ultimately have "bk_inv ?b" by (simp add: bk_inv_def)
  from start_broadcast_inv [OF this, of "Then_Serve ws ?n"] show ?thesis
    by (auto simp: resume_participant_def cancel_grace_def Let_def pl(1) p)
qed

lemma register_ws_inv:
  "bk_inv b \<Longrightarrow> list_all plugin_named (h_plugins h) \<Longrightarrow> bk_inv (fst (register_ws env ws key h b))"
  by (auto simp: register_ws_def refuse_register_def fresh_participant_inv resume_participant_inv split: option.splits)

lemma hash_corr: "corr_valid v \<Longrightarrow> hash_key v = Some v"
  by (auto simp: corr_valid_def)

lemma route_request_inv:
  "bk_inv b \<Longrightarrow> corr_valid (pget raw ''corr_id'') \<Longrightarrow> route_request env now src raw b = Inr (b', fx) \<Longrightarrow> bk_inv b'"
  by (auto simp: route_request_def Let_def error_response_def result_simps pget_def hash_corr
      intro!: add_job_inv add_call_inv split: if_splits option.splits)

lemma route_response_inv: "bk_inv b \<Longrightarrow> route_response raw b = Inr (b', fx) \<Longrightarrow> bk_inv b'"
  by (auto simp: route_response_def Let_def result_simps intro!: settle_call_inv pop_call_inv split: if_splits option.splits)

lemma bk_disconnect_inv: "bk_inv b \<Longrightarrow> bk_disconnect target b = (r, b') \<Longrightarrow> bk_inv b'"
  using start_broadcast_inv [OF remove_participant_inv [of b "str_name target"]]
  by (auto simp: bk_disconnect_def Let_def remove_participant_inv split: sum.splits option.splits)
    (metis sum.inject(2))

lemma handle_control_inv: "bk_inv b \<Longrightarrow> handle_control raw b = (r, b') \<Longrightarrow> bk_inv b'"
  by (auto simp: handle_control_def split: if_splits pyval.splits sum.splits prod.splits dest: bk_disconnect_inv)

lemma route_frame_inv:
  assumes inv: "bk_inv b" and ok: "\<And>raw. frame = Some (PDict raw) \<Longrightarrow> corr_valid (pget raw ''corr_id'')"
    and step: "route_frame env now name frame b = (r, b')"
  shows "bk_inv b'"
proof (cases "\<exists>raw. frame = Some (PDict raw)")
  case True
  then obtain raw where raw: "frame = Some (PDict raw)" by blast
  show ?thesis
    using step inv ok [OF raw]
    by (auto simp: route_frame_def raw Let_def split: if_splits sum.splits prod.splits option.splits ingest_outcome.splits
        dest: route_request_inv route_response_inv ingest_bk_inv handle_control_inv intro: pop_call_inv subscribe_inv)
next
  case False
  then show ?thesis using step inv
    by (auto simp: route_frame_def split: option.splits pyval.splits)
qed


lemma fields_inv:
  "bk_inv b \<Longrightarrow> bk_inv (b\<lparr>b_conns := x\<rparr>)" "bk_inv b \<Longrightarrow> bk_inv (b\<lparr>b_grace_timers := y\<rparr>)"
  "bk_inv b \<Longrightarrow> bk_inv (b\<lparr>b_host_prev := t\<rparr>)" "bk_inv b \<Longrightarrow> bk_inv (b\<lparr>b_hosted := h\<rparr>)"
  "bk_inv b \<Longrightarrow> bk_inv (b\<lparr>b_next := n\<rparr>)"
  by (simp_all add: bk_inv_defs)

lemma receive_frame_inv:
  assumes "bk_inv b" and "\<And>raw. frame = Some (PDict raw) \<Longrightarrow> corr_valid (pget raw ''corr_id'')"
  shows "bk_inv (fst (receive_frame env now ws name frame b))"
proof -
  obtain r b1 where r: "route_frame env now name frame b = (r, b1)" by fastforce
  have "bk_inv b1" by (rule route_frame_inv [OF assms r])
  then show ?thesis
    by (cases r) (simp_all add: receive_frame_def r on_socket_drop_inv fields_inv)
qed

lemma run_cont_inv: "bk_inv b \<Longrightarrow> bk_inv (fst (run_cont k b))"
  by (cases k) (auto simp: arm_grace_def intro: fields_inv)

lemma deliver_topology_inv: "bk_inv b \<Longrightarrow> \<exists>b' fx. deliver_topology b = Inr (b', fx) \<and> bk_inv b'"
  using topology_buildable [of b] fields_inv(3) [of b]
  by (auto simp: deliver_topology_def Let_def bk_inv_def split: option.splits)

lemma job_step_inv:
  assumes "bk_inv b" and "list_all corr_valid (map fst (job_calls j))"
  shows "bk_inv (fst (job_step status j b))"
  using assms
proof (induction status j b rule: job_step.induct)
  case (2 status topo k b)
  then obtain b1 fx where b1: "deliver_topology b = Inr (b1, fx)" "bk_inv b1" using deliver_topology_inv by blast
  then show ?case using run_cont_inv [OF b1(2), of k] by (auto split: prod.splits)
next
  case (4 status name cc rest b)
  then show ?case using fail_if_touching_inv [of b cc name] by (auto intro!: add_job_inv)
next
  case (6 status now cc rest b)
  then show ?case using reap_if_due_inv [of b cc now] by (auto intro!: add_job_inv)
qed (auto intro: add_job_inv try_broadcast_inv on_lost_inv)

lemma remove_job_inv: "bk_inv b \<Longrightarrow> bk_inv (b\<lparr>b_jobs := take i (b_jobs b) @ drop j (b_jobs b)\<rparr>)"
  by (auto simp: bk_inv_defs dest: in_set_takeD in_set_dropD)

lemma run_job_inv:
  assumes "bk_inv b" "run_job i status b = Some (b', fx)"
  shows "bk_inv b'"
proof -
  have i: "i < length (b_jobs b)" using assms(2) by (simp add: run_job_def split: if_splits)
  then have "list_all corr_valid (map fst (job_calls (b_jobs b ! i)))"
    using assms(1) nth_mem [OF i] by (simp add: bk_inv_def calls_ok_def)
  from job_step_inv [OF remove_job_inv [OF assms(1)] this, of status i "Suc i"] show ?thesis
    using assms(2) i by (simp add: run_job_def)
qed

lemma bk_do_inv:
  assumes "bk_inv b" "bk_conforming a" "bk_do env a b = Some (b', fx)"
  shows "bk_inv b'"
  using assms
proof (cases a)
  case (Connects h key)
  then show ?thesis using assms register_ws_inv [OF fields_inv(5) [OF assms(1)], of h env "b_next b" key "Suc (b_next b)"]
    by (simp add: Let_def)
next
  case (Receives ws frame now)
  then have "frame = Some (PDict raw) \<Longrightarrow> corr_valid (pget raw ''corr_id'')" for raw
    using assms(2) by simp
  from receive_frame_inv [OF assms(1) this] show ?thesis
    using Receives assms(3) by auto (metis fst_conv)
next
  case (Calls dst corr payload fits now)
  then show ?thesis using assms by (metis bk_do.simps(6) broker_call_inv option.inject prod.collapse)
next
  case (Grace_Fires name)
  then show ?thesis using assms add_job_inv [OF fields_inv(2) [OF assms(1)]] by (auto simp: fire_lost_def)
next
  case (Reaps now)
  then show ?thesis using assms
    by (auto split: if_splits intro!: add_job_inv) (auto simp: bk_inv_defs)
qed (auto split: prod.splits ingest_outcome.splits
       intro: on_socket_drop_inv fields_inv run_job_inv broker_call_expires_inv sender_bk_inv ingest_bk_inv try_broadcast_inv)

lemma new_broker_inv: "bk_inv (new_broker n)"
  by (simp add: bk_inv_defs new_broker_def)

lemma bk_reachable_inv:
  "bk_reachable env allow b \<Longrightarrow> (\<And>a. allow a \<Longrightarrow> bk_conforming a) \<Longrightarrow> bk_inv b"
  by (induction rule: bk_reachable.induct) (auto elim!: bk_step.cases intro: new_broker_inv bk_do_inv)


section \<open>The calls in flight\<close>

definition fwd_calls :: "'b broker \<Rightarrow> nat" where
  "fwd_calls b = length (filter (\<lambda>(k, c). c_future c = None) (b_calls b))"

definition caps_ok :: "'b bk_env \<Rightarrow> 'b broker \<Rightarrow> bool" where
  "caps_ok env b \<longleftrightarrow> fwd_calls b \<le> e_forwarded_call_cap env \<and> broker_calls_open b \<le> e_call_cap env \<and>
     dict_ok (b_calls b)"

lemma filter_dset_le: "length (filter P (dset k v d)) \<le> length (filter P d) + (if P (k, v) then 1 else 0)"
  by (induction d) auto

lemma filter_dpop_le: "length (filter P (dpop k d)) \<le> length (filter P d)"
  by (induction d) auto

lemma caps_same_calls: "caps_ok env b \<Longrightarrow> b_calls b' = b_calls b \<Longrightarrow> caps_ok env b'"
  by (simp add: caps_ok_def fwd_calls_def broker_calls_open_def)

lemma caps_pop: "caps_ok env b \<Longrightarrow> caps_ok env (pop_call k b)"
  using filter_dpop_le [of "\<lambda>(k, c). c_future c = None" k "b_calls b"] filter_dpop_le [of "\<lambda>(k, c). c_future c \<noteq> None" k "b_calls b"]
  by (auto simp: caps_ok_def fwd_calls_def broker_calls_open_def pop_call_def)

lemma caps_forward:
  assumes "caps_ok env b" "length (b_calls b) < e_forwarded_call_cap env" "c_future c = None"
  shows "caps_ok env (b\<lparr>b_calls := dset k c (b_calls b)\<rparr>)"
proof -
  have "length (filter (\<lambda>(k, c). c_future c = None) (dset k c (b_calls b))) \<le> length (dset k c (b_calls b))" by simp
  also have "\<dots> \<le> Suc (length (b_calls b))" by (simp add: length_dset)
  finally show ?thesis
    using assms filter_dset_le [of "\<lambda>(k, c). c_future c \<noteq> None" k c "b_calls b"]
    by (auto simp: caps_ok_def fwd_calls_def broker_calls_open_def)
qed

lemma caps_own:
  assumes "caps_ok env b" "broker_calls_open b < e_call_cap env" "c_future c \<noteq> None"
  shows "caps_ok env (b\<lparr>b_calls := dset k c (b_calls b)\<rparr>)"
  using assms filter_dset_le [of "\<lambda>(k, c). c_future c \<noteq> None" k c "b_calls b"]
    filter_dset_le [of "\<lambda>(k, c). c_future c = None" k c "b_calls b"]
  by (auto simp: caps_ok_def fwd_calls_def broker_calls_open_def)

text \<open>What leaves the table of calls alone.\<close>

lemma same_calls [simp]:
  "b_calls (cancel_grace n b) = b_calls b" "b_calls (arm_grace n ws b) = b_calls b"
  "b_calls (remove_participant n b) = b_calls b" "b_calls (settle_call c r b) = b_calls b"
  by (simp_all add: cancel_grace_def arm_grace_def remove_participant_def settle_call_def split: option.splits)

lemma start_broadcast_calls: "start_broadcast k b = Inr b' \<Longrightarrow> b_calls b' = b_calls b"
  by (auto simp: start_broadcast_def result_simps)

lemma same_calls_broadcast [simp]: "b_calls (try_broadcast k b) = b_calls b"
  by (auto simp: try_broadcast_def start_broadcast_calls split: sum.splits)

lemma same_calls_handlers [simp]:
  "b_calls (on_socket_drop n ws cl b) = b_calls b" "b_calls (fire_lost n ws b) = b_calls b"
  "b_calls (on_lost n ws b) = b_calls b" "b_calls (fst (run_cont k b)) = b_calls b"
  by (simp_all add: on_socket_drop_def fire_lost_def on_lost_def Let_def run_cont.simps split: bk_cont.splits)
    (cases k; simp)

lemma same_calls_register: "b_calls (fst (register_ws env ws key h b)) = b_calls b"
  by (auto simp: register_ws_def refuse_register_def fresh_participant_def resume_participant_def Let_def cancel_grace_def
      dest!: start_broadcast_calls split: option.splits sum.splits)

lemma deliver_topology_calls: "deliver_topology b = Inr (b', fx) \<Longrightarrow> b_calls b' = b_calls b"
  by (auto simp: deliver_topology_def Let_def result_simps split: option.splits)


lemma fail_call_calls: "fail_call corr c why b = Inr (b', fx) \<Longrightarrow> b_calls b' = b_calls b"
  by (auto simp: fail_call_def split: option.splits if_splits)

lemma sweep_caps:
  "caps_ok env b \<Longrightarrow> fail_if_touching n cc b = Inr (b', fx) \<Longrightarrow> caps_ok env b'"
  "caps_ok env b \<Longrightarrow> reap_if_due now cc b = Inr (b', fx) \<Longrightarrow> caps_ok env b'"
  by (auto simp: fail_if_touching_def reap_if_due_def caps_pop split: prod.splits if_splits dest!: fail_call_calls
      intro: caps_same_calls [OF caps_pop])

lemma job_step_caps: "caps_ok env b \<Longrightarrow> caps_ok env (fst (job_step status j b))"
proof (induction status j b rule: job_step.induct)
  case (2 status topo k b)
  show ?case
  proof (cases "deliver_topology b")
    case (Inl e)
    then show ?thesis using 2 by simp
  next
    case (Inr r)
    obtain b1 fx where r: "r = (b1, fx)" by fastforce
    have "b_calls (fst (run_cont k b1)) = b_calls b"
      using deliver_topology_calls [of b b1 fx] Inr r by simp
    then show ?thesis using caps_same_calls [OF 2] Inr r by (cases "run_cont k b1") simp
  qed
next
  case (4 status name cc rest b)
  show ?case
  proof (cases "fail_if_touching name cc b")
    case (Inr r)
    then show ?thesis using sweep_caps(1) [OF 4] by (cases r) (simp add: caps_ok_def fwd_calls_def broker_calls_open_def)
  qed (simp add: caps_pop 4)
next
  case (6 status now cc rest b)
  show ?case
  proof (cases "reap_if_due now cc b")
    case (Inl e)
    then show ?thesis using caps_pop [OF 6] by (simp add: caps_ok_def fwd_calls_def broker_calls_open_def)
  next
    case (Inr r)
    then show ?thesis using sweep_caps(2) [OF 6] by (cases r) (simp add: caps_ok_def fwd_calls_def broker_calls_open_def)
  qed
qed (auto intro: caps_same_calls)

lemma error_response_same: "error_response src corr st b = Inr (b', fx) \<Longrightarrow> b' = b"
  by (auto simp: error_response_def split: if_splits)

lemma route_request_calls:
  assumes "route_request env now src raw b = Inr (b', fx)"
  shows "b_calls b' = b_calls b \<or> (\<exists>k c. b_calls b' = dset k c (b_calls b) \<and>
     length (b_calls b) < e_forwarded_call_cap env \<and> c_future c = None)"
proof -
  let ?raw = "dset ''src'' (PStr src) raw"
  consider "pget ?raw ''dst'' = PStr ''broker''" | "pget ?raw ''dst'' \<noteq> PStr ''broker''" "registered (pget ?raw ''dst'') b = Inr None"
    | ws where "pget ?raw ''dst'' \<noteq> PStr ''broker''" "registered (pget ?raw ''dst'') b = Inr (Some ws)"
    using assms by (cases "registered (pget ?raw ''dst'') b") (auto simp: route_request_def Let_def split: option.splits if_splits)
  then show ?thesis
  proof cases
    case 3
    show ?thesis
    proof (cases "e_forwarded_call_cap env \<le> length (b_calls b)")
      case False
      then show ?thesis using assms 3
        by (intro disjI2) (auto simp: route_request_def Let_def split: option.splits intro!: exI)
    qed (use assms 3 in \<open>auto simp: route_request_def Let_def dest!: error_response_same\<close>)
  qed (use assms in \<open>auto simp: route_request_def Let_def dest!: error_response_same\<close>)
qed

lemma route_request_caps:
  "caps_ok env b \<Longrightarrow> route_request env now src raw b = Inr (b', fx) \<Longrightarrow> caps_ok env b'"
  by (drule route_request_calls) (auto intro: caps_same_calls caps_same_calls [OF caps_forward])

lemma route_response_caps: "caps_ok env b \<Longrightarrow> route_response raw b = Inr (b', fx) \<Longrightarrow> caps_ok env b'"
  by (auto simp: route_response_def Let_def rbind_def intro: caps_pop caps_same_calls [OF caps_pop]
      split: if_splits option.splits sum.splits)

lemma bk_disconnect_calls: "bk_disconnect target b = (r, b') \<Longrightarrow> b_calls b' = b_calls b"
  by (auto simp: bk_disconnect_def Let_def dest!: start_broadcast_calls split: sum.splits option.splits)

lemma handle_control_calls: "handle_control raw b = (r, b') \<Longrightarrow> b_calls b' = b_calls b"
  by (auto simp: handle_control_def split: if_splits pyval.splits sum.splits prod.splits dest: bk_disconnect_calls)

lemma route_frame_caps: "caps_ok env b \<Longrightarrow> route_frame env now n frame b = (r, b') \<Longrightarrow> caps_ok env b'"
  by (auto simp: route_frame_def Let_def split: option.splits pyval.splits if_splits sum.splits prod.splits ingest_outcome.splits
      intro: route_request_caps route_response_caps caps_pop caps_same_calls dest: handle_control_calls)

lemma receive_frame_caps: "caps_ok env b \<Longrightarrow> caps_ok env (fst (receive_frame env now ws n frame b))"
proof -
  assume b: "caps_ok env b"
  obtain r b1 where r: "route_frame env now n frame b = (r, b1)" by fastforce
  from route_frame_caps [OF b r] show ?thesis
    by (cases r) (auto simp: receive_frame_def r intro: caps_same_calls)
qed

lemma broker_call_caps: "caps_ok env b \<Longrightarrow> caps_ok env (fst (snd (broker_call env dst corr payload fits now b)))"
proof -
  assume b: "caps_ok env b"
  have "caps_ok env (b\<lparr>b_next := x, b_futures := y, b_calls := dset (PStr corr) c (b_calls b)\<rparr>)"
    if "broker_calls_open b < e_call_cap env" "c_future c \<noteq> None" for x y c
    using caps_same_calls [OF caps_own [OF b that, of "PStr corr"]] by simp
  then show ?thesis using b by (auto simp: broker_call_def Let_def split: option.splits)
qed

lemma bk_do_caps: "caps_ok env b \<Longrightarrow> bk_do env a b = Some (b', fx) \<Longrightarrow> caps_ok env b'"
proof (cases a)
  case (Connects h key)
  assume "caps_ok env b" "bk_do env a b = Some (b', fx)"
  then show ?thesis
    using Connects same_calls_register [of env "b_next b" key h "b\<lparr>b_next := Suc (b_next b)\<rparr>"]
    by (auto intro: caps_same_calls)
next
  case (Receives ws frame now)
  assume "caps_ok env b" "bk_do env a b = Some (b', fx)"
  moreover from this obtain z where "receive_frame env now ws z frame b = (b', fx)" using Receives by auto
  ultimately show ?thesis using receive_frame_caps [of env b now ws z frame] by simp
next
  case (Runs i status)
  assume "caps_ok env b" "bk_do env a b = Some (b', fx)"
  then show ?thesis
    using Runs job_step_caps [OF caps_same_calls, of env b "b\<lparr>b_jobs := take i (b_jobs b) @ drop (Suc i) (b_jobs b)\<rparr>" status "b_jobs b ! i"]
    by (auto simp: run_job_def split: if_splits)
next
  case (Calls dst corr payload fits now)
  assume "caps_ok env b" "bk_do env a b = Some (b', fx)"
  then show ?thesis using Calls broker_call_caps [of env b dst corr payload fits now] by auto
next
  case (Call_Expires corr f)
  assume "caps_ok env b" "bk_do env a b = Some (b', fx)"
  then show ?thesis using Call_Expires
    by (auto simp: broker_call_expires_def intro!: caps_pop) (simp add: caps_ok_def fwd_calls_def broker_calls_open_def)
qed (auto split: prod.splits if_splits ingest_outcome.splits intro: caps_same_calls)

lemma bk_reachable_caps: "bk_reachable env allow b \<Longrightarrow> caps_ok env b"
proof (induction rule: bk_reachable.induct)
  case (start n)
  show ?case by (simp add: caps_ok_def fwd_calls_def broker_calls_open_def new_broker_def)
qed (auto elim!: bk_step.cases intro: bk_do_caps)

end
