(* ===== verification/Broker_Safety.thy ===== *)
theory Broker_Safety
  imports Broker "HOL-Library.Code_Target_Nat"
begin

text \<open>
  What holds of the broker in every state that its inputs and coroutines can reach, in any order, and inputs
  outside the conditions of these results that it does not survive.
\<close>

section \<open>Who owns a name\<close>

text \<open>Only a registration puts a socket behind a name.\<close>

lemma registry_simps [simp]:
  "b_registry (cancel_grace n b) = b_registry b" "b_registry (arm_grace n ws b) = b_registry b"
  "b_registry (remove_participant n b) = dpop n (b_registry b)" "b_registry (pop_call k b) = b_registry b"
  "b_registry (settle_call c r b) = b_registry b" "b_registry (fire_lost n ws b) = b_registry b"
  "b_registry (broker_call_expires corr f b) = b_registry b"
  by (simp_all add: cancel_grace_def arm_grace_def remove_participant_def pop_call_def settle_call_def fire_lost_def
      broker_call_expires_def split: option.splits)

lemma start_broadcast_registry: "start_broadcast k b = Inr b' \<Longrightarrow> b_registry b' = b_registry b"
  by (auto simp: start_broadcast_def result_simps)

lemma try_broadcast_registry [simp]: "b_registry (try_broadcast k b) = b_registry b"
  by (auto simp: try_broadcast_def start_broadcast_registry split: sum.splits)

lemma run_cont_registry [simp]: "b_registry (fst (run_cont k b)) = b_registry b"
  by (cases k) simp_all

lemma deliver_topology_registry: "deliver_topology b = Inr (b', fx) \<Longrightarrow> b_registry b' = b_registry b"
  by (auto simp: deliver_topology_def Let_def result_simps split: option.splits)

definition owned_by :: "'b broker \<Rightarrow> 'b broker \<Rightarrow> bool" where
  "owned_by b b' \<longleftrightarrow> (\<forall>n ws. dget (b_registry b') n = Some ws \<longrightarrow> dget (b_registry b) n = Some ws)"

lemma owned_by_same: "b_registry b' = b_registry b \<Longrightarrow> owned_by b b'"
  by (simp add: owned_by_def)

lemma owned_by_cong: "b_registry b' = b_registry b \<Longrightarrow> owned_by b'' b' = owned_by b'' b"
  by (simp add: owned_by_def)

lemma owned_by_handlers:
  "owned_by b (on_socket_drop n ws cl b)" "owned_by b (on_lost n ws b)"
  by (auto simp: owned_by_def on_socket_drop_def on_lost_def Let_def split: if_splits)

lemma fail_call_registry: "fail_call corr c why b = Inr (b', fx) \<Longrightarrow> b_registry b' = b_registry b"
  by (auto simp: fail_call_def split: option.splits if_splits)

lemma sweep_registry:
  "fail_if_touching n cc b = Inr (b', fx) \<Longrightarrow> b_registry b' = b_registry b"
  "reap_if_due now cc b = Inr (b', fx) \<Longrightarrow> b_registry b' = b_registry b"
  by (auto simp: fail_if_touching_def reap_if_due_def split: prod.splits if_splits dest!: fail_call_registry)

lemma job_step_owned: "owned_by b (fst (job_step status j b))"
proof (induction status j b rule: job_step.induct)
  case (2 status topo k b)
  show ?case
  proof (cases "deliver_topology b")
    case (Inr r)
    obtain b1 fx where r: "r = (b1, fx)" by fastforce
    have "b_registry (fst (run_cont k b1)) = b_registry b"
      using deliver_topology_registry [of b b1 fx] Inr r by simp
    then show ?thesis using Inr r by (cases "run_cont k b1") (simp add: owned_by_same)
  qed (simp add: owned_by_same)
next
  case (4 status name cc rest b)
  show ?case by (cases "fail_if_touching name cc b") (auto intro!: owned_by_same dest: sweep_registry split: prod.splits)
next
  case (6 status now cc rest b)
  show ?case by (cases "reap_if_due now cc b") (auto intro!: owned_by_same dest: sweep_registry split: prod.splits)
qed (auto intro: owned_by_same owned_by_handlers)

lemma route_request_registry: "route_request env now src raw b = Inr (b', fx) \<Longrightarrow> b_registry b' = b_registry b"
  by (auto simp: route_request_def Let_def rbind_def dest!: error_response_same split: if_splits option.splits sum.splits)

lemma route_response_registry: "route_response raw b = Inr (b', fx) \<Longrightarrow> b_registry b' = b_registry b"
  by (auto simp: route_response_def Let_def rbind_def split: if_splits option.splits sum.splits)

lemma bk_disconnect_owned: "bk_disconnect target b = (r, b') \<Longrightarrow> owned_by b b'"
  by (auto simp: bk_disconnect_def Let_def owned_by_def dest!: start_broadcast_registry split: sum.splits option.splits if_splits)

lemma handle_control_owned: "handle_control raw b = (r, b') \<Longrightarrow> owned_by b b'"
  by (auto simp: handle_control_def owned_by_same split: if_splits pyval.splits sum.splits prod.splits dest: bk_disconnect_owned)

lemma route_frame_owned: "route_frame env now n frame b = (r, b') \<Longrightarrow> owned_by b b'"
  by (auto simp: route_frame_def Let_def owned_by_same split: option.splits pyval.splits if_splits sum.splits prod.splits
      ingest_outcome.splits intro: owned_by_same dest: handle_control_owned route_request_registry route_response_registry)

lemma owned_by_trans: "owned_by b b1 \<Longrightarrow> owned_by b1 b2 \<Longrightarrow> owned_by b b2"
  by (auto simp: owned_by_def)

lemma receive_frame_owned: "owned_by b (fst (receive_frame env now ws n frame b))"
proof -
  obtain r b1 where r: "route_frame env now n frame b = (r, b1)" by fastforce
  have b1: "owned_by b b1" by (rule route_frame_owned [OF r])
  show ?thesis
  proof (cases r)
    case (Inl e)
    have "owned_by b1 (on_socket_drop n ws False (b1\<lparr>b_conns := dpop ws (b_conns b1)\<rparr>))"
      using owned_by_handlers(1) [of "b1\<lparr>b_conns := dpop ws (b_conns b1)\<rparr>" n ws False] by (simp add: owned_by_def)
    then show ?thesis using b1 Inl by (auto simp: receive_frame_def r intro: owned_by_trans)
  qed (simp add: receive_frame_def r b1)
qed

text \<open>A registration changes the entry of its own name only, and that of a registered name only with the key.\<close>

lemma fresh_registry: "b_registry (fst (fresh_participant ws key h b)) = dset (h_name h) ws (b_registry b)"
  by (auto simp: fresh_participant_def Let_def dest!: start_broadcast_registry split: sum.splits)

lemma resume_registry: "b_registry (fst (resume_participant ws old h b)) = dset (h_name h) ws (b_registry b)"
  by (auto simp: resume_participant_def Let_def dest!: start_broadcast_registry split: sum.splits option.splits)

lemma register_ws_registry:
  assumes "dget (b_registry (fst (register_ws env ws key h b))) n \<noteq> dget (b_registry b) n"
  shows "n = h_name h \<and> dget (b_registry (fst (register_ws env ws key h b))) n = Some ws \<and> n \<noteq> ''broker'' \<and>
     (e_auth env \<longrightarrow> tokens_match (h_credential h) (e_token env)) \<and>
     (dget (b_registry b) n \<noteq> None \<longrightarrow> tokens_match (h_resume_key h) (dget (b_resume_keys b) n))"
  using assms
  by (simp add: register_ws_def refuse_register_def fresh_registry resume_registry split: option.splits if_splits)

lemma bk_do_owned:
  assumes "bk_do env a b = Some (b', fx)" "\<And>h key. a \<noteq> Connects h key"
  shows "owned_by b b'"
  using assms
proof (cases a)
  case (Receives ws frame now)
  with assms(1) obtain z where "receive_frame env now ws z frame b = (b', fx)" by auto
  then show ?thesis using receive_frame_owned [of b env now ws z frame] by simp
next
  case (Drops ws clean)
  with assms(1) obtain z where "b' = on_socket_drop z ws clean (b\<lparr>b_conns := dpop ws (b_conns b)\<rparr>)" by auto
  then show ?thesis
    using owned_by_handlers(1) [of "b\<lparr>b_conns := dpop ws (b_conns b)\<rparr>" z ws clean] by (simp add: owned_by_def)
next
  case (Runs i status)
  then show ?thesis
    using assms job_step_owned [of "b\<lparr>b_jobs := take i (b_jobs b) @ drop (Suc i) (b_jobs b)\<rparr>" status "b_jobs b ! i"]
    by (auto simp: run_job_def owned_by_def split: if_splits)
next
  case (Calls dst corr payload fits now)
  then show ?thesis using assms
    by (auto simp: broker_call_def Let_def intro!: owned_by_same split: if_splits option.splits)
qed (auto split: prod.splits if_splits ingest_outcome.splits intro!: owned_by_same)

section \<open>Topology\<close>

lemma registry_keys:
  assumes "tables_ok b"
  shows "fst ` set (b_participants b) = fst ` set (b_registry b)"
proof -
  have "n \<in> fst ` set (b_participants b) \<longleftrightarrow> n \<in> fst ` set (b_registry b)" for n
    using assms map_of_eq_None_iff [of "b_participants b" n] map_of_eq_None_iff [of "b_registry b" n]
    by (simp add: tables_ok_def)
  then show ?thesis by blast
qed

lemma dget_map_entry: "dget (map (\<lambda>(n, p). (n, g n p)) d) k = map_option (g k) (dget d k)"
  by (induction d) auto

lemma entries_keys: "fst ` set (map (\<lambda>(n, p). (n, g n p)) d) = fst ` set d"
  by (induction d) auto

lemma dset_keys: "fst ` set (dset k v d) = insert k (fst ` set d)"
  by (induction d) auto

text \<open>The topology frame has the broker and one entry per registered participant, with its liveness.\<close>

lemma topology_entries:
  assumes "participants_for_topology b = Inr t"
  obtains own where "t = dset ''broker'' own (map (\<lambda>(n, p). (n, \<lparr>pi_role = bp_role p, pi_plugins = bp_plugins p,
     pi_liveness = (case dget (b_liveness b) n of None \<Rightarrow> ''present'' | Some l \<Rightarrow> l)\<rparr>)) (b_participants b))"
  using assms by (auto simp: participants_for_topology_def Let_def split: if_splits)

lemma topology_keys:
  assumes "participants_for_topology b = Inr t"
  shows "fst ` set t = insert ''broker'' (fst ` set (b_participants b))"
proof -
  from topology_entries [OF assms] obtain own where t: "t = dset ''broker'' own (map (\<lambda>(n, p). (n, \<lparr>pi_role = bp_role p,
     pi_plugins = bp_plugins p, pi_liveness = (case dget (b_liveness b) n of None \<Rightarrow> ''present'' | Some l \<Rightarrow> l)\<rparr>))
     (b_participants b))" by blast
  show ?thesis by (simp only: t dset_keys entries_keys)
qed

lemma topology_dget:
  assumes "participants_for_topology b = Inr t" "n \<noteq> ''broker''"
  shows "dget t n = map_option (\<lambda>p. \<lparr>pi_role = bp_role p, pi_plugins = bp_plugins p,
       pi_liveness = (case dget (b_liveness b) n of None \<Rightarrow> ''present'' | Some l \<Rightarrow> l)\<rparr>) (dget (b_participants b) n)"
proof -
  from topology_entries [OF assms(1)] obtain own where t: "t = dset ''broker'' own (map (\<lambda>(n, p). (n, \<lparr>pi_role = bp_role p,
     pi_plugins = bp_plugins p, pi_liveness = (case dget (b_liveness b) n of None \<Rightarrow> ''present'' | Some l \<Rightarrow> l)\<rparr>))
     (b_participants b))" by blast
  show ?thesis using assms(2) by (simp only: t dget_dset dget_map_entry if_False)
qed

section \<open>Properties\<close>

text \<open>C25. The broker's tables agree in every state that well-formed input can lead to, whatever the order of
  frames, drops, timers and coroutines: the topology can be built and lists exactly the broker and the registered
  participants, each with the liveness recorded for it; the name of the broker is never given away, and the reaper is
  alive.\<close>

theorem conforming_broker_consistent:
  assumes "bk_reachable env bk_conforming b"
  shows "\<exists>t. participants_for_topology b = Inr t \<and>
     fst ` set t = insert ''broker'' (fst ` set (b_registry b)) \<and>
     (\<forall>n. n \<noteq> ''broker'' \<longrightarrow> map_option pi_liveness (dget t n) = dget (b_liveness b) n) \<and>
     dget (b_registry b) ''broker'' = None \<and> b_reaper b"
proof -
  have inv: "bk_inv b" using bk_reachable_inv [OF assms] by blast
  then obtain t where t: "participants_for_topology b = Inr t" using topology_buildable by (auto simp: bk_inv_def)
  have "map_option pi_liveness (dget t n) = dget (b_liveness b) n" if "n \<noteq> ''broker''" for n
  proof -
    have "(dget (b_participants b) n = None) = (dget (b_liveness b) n = None)" using inv by (simp add: bk_inv_def tables_ok_def)
    then show ?thesis by (cases "dget (b_participants b) n") (auto simp: topology_dget [OF t that])
  qed
  then show ?thesis using inv t topology_keys [OF t] registry_keys [of b]
    by (auto simp: bk_inv_def tables_ok_def calls_ok_def)
qed

text \<open>C26. A registered name stays with its socket.  Whatever happens, the socket behind a name that is registered
  changes only by a registration that presents the resume key minted for that name (and the ingress token, when there
  is one); a name that was free is taken only by a registration under it.\<close>

theorem name_takeover_needs_key:
  assumes "bk_do env a b = Some (b', fx)"
    and "dget (b_registry b') n = Some ws" and "dget (b_registry b) n \<noteq> Some ws"
  shows "\<exists>h key. a = Connects h key \<and> h_name h = n \<and> ws = b_next b \<and>
     (e_auth env \<longrightarrow> tokens_match (h_credential h) (e_token env)) \<and>
     (dget (b_registry b) n \<noteq> None \<longrightarrow> tokens_match (h_resume_key h) (dget (b_resume_keys b) n))"
proof (cases "\<exists>h key. a = Connects h key")
  case True
  then obtain h key where a: "a = Connects h key" by blast
  let ?b = "b\<lparr>b_next := Suc (b_next b)\<rparr>"
  have b': "b' = fst (register_ws env (b_next b) key h ?b)" using assms(1) a by (cases "register_ws env (b_next b) key h ?b") simp
  show ?thesis using register_ws_registry [of env "b_next b" key h ?b n] assms(2,3) a b' by auto
next
  case False
  then show ?thesis using bk_do_owned [OF assms(1)] assms(2,3) by (auto simp: owned_by_def)
qed

text \<open>C27. The table of calls in flight is bounded by the two caps together, in every reachable state and for any
  input: the forwarded calls by the forwarded cap and the broker's own calls by the call cap.\<close>

theorem inflight_calls_bounded:
  assumes "bk_reachable env allow b"
  shows "length (b_calls b) \<le> e_forwarded_call_cap env + e_call_cap env"
proof -
  have "length (b_calls b) = fwd_calls b + broker_calls_open b"
    unfolding fwd_calls_def broker_calls_open_def using sum_length_filter_compl [of "\<lambda>(k, c). c_future c = None" "b_calls b"]
    by (simp add: case_prod_unfold)
  then show ?thesis using bk_reachable_caps [OF assms] by (simp add: caps_ok_def)
qed

section \<open>The coroutines come to an end\<close>

text \<open>An upper bound on the steps a job can still cause while nothing else happens, in terms of the registered sockets
  and the calls in flight: a lost endpoint goes through the calls and then broadcasts.\<close>

fun job_work :: "nat \<Rightarrow> nat \<Rightarrow> bk_job \<Rightarrow> nat" where
  "job_work r c (Broadcast topo rest k) = length rest + 1"
| "job_work r c (Fail_Calls n cs) = length cs + r + 2"
| "job_work r c (Reap now cs) = length cs + 1"
| "job_work r c (Lost n ws) = c + r + 3"
| "job_work r c (Host_Call src raw) = 1"

definition jobs_work :: "'b broker \<Rightarrow> nat" where
  "jobs_work b = sum_list (map (job_work (length (b_registry b)) (length (b_calls b))) (b_jobs b))"

definition runs_job :: "'b broker \<Rightarrow> 'b broker \<Rightarrow> bool" where
  "runs_job b b' \<longleftrightarrow> (\<exists>i status fx. run_job i status b = Some (b', fx))"

lemma job_work_mono: "r \<le> r' \<Longrightarrow> c \<le> c' \<Longrightarrow> job_work r c j \<le> job_work r' c' j"
  by (cases j) auto

definition shrinks :: "'b broker \<Rightarrow> nat \<Rightarrow> 'b broker \<Rightarrow> bool" where
  "shrinks b w b' \<longleftrightarrow> length (b_registry b') \<le> length (b_registry b) \<and> length (b_calls b') \<le> length (b_calls b) \<and>
     (\<exists>extra. b_jobs b' = b_jobs b @ extra \<and>
        sum_list (map (job_work (length (b_registry b')) (length (b_calls b'))) extra) < w)"

lemma shrinks_none: "length (b_registry b') \<le> length (b_registry b) \<Longrightarrow> length (b_calls b') \<le> length (b_calls b) \<Longrightarrow>
    b_jobs b' = b_jobs b \<Longrightarrow> 0 < w \<Longrightarrow> shrinks b w b'"
  by (simp add: shrinks_def)

lemma shrinks_one: "length (b_registry b') \<le> length (b_registry b) \<Longrightarrow> length (b_calls b') \<le> length (b_calls b) \<Longrightarrow>
    b_jobs b' = b_jobs b @ [j] \<Longrightarrow> job_work (length (b_registry b')) (length (b_calls b')) j < w \<Longrightarrow> shrinks b w b'"
  by (simp add: shrinks_def)

lemma jobs_simps [simp]:
  "b_jobs (cancel_grace n b) = b_jobs b" "b_jobs (arm_grace n ws b) = b_jobs b" "b_jobs (remove_participant n b) = b_jobs b"
  "b_jobs (pop_call k b) = b_jobs b" "b_jobs (settle_call c r b) = b_jobs b" "b_jobs (fst (run_cont t b)) = b_jobs b"
  by (simp_all add: cancel_grace_def arm_grace_def remove_participant_def pop_call_def settle_call_def split: option.splits)
    (cases t; simp add: arm_grace_def)

lemma pop_call_calls: "length (b_calls (pop_call k b)) \<le> length (b_calls b)"
  by (simp add: pop_call_def length_dpop_le)

lemma fail_call_sel:
  "fail_call corr c why b = Inr (b', fx) \<Longrightarrow> b_jobs b' = b_jobs b \<and> b_calls b' = b_calls b \<and> b_registry b' = b_registry b"
  by (auto simp: fail_call_def split: option.splits if_splits)

lemma sweep_sel:
  "fail_if_touching n cc b = Inr (b', fx) \<Longrightarrow>
     b_jobs b' = b_jobs b \<and> b_registry b' = b_registry b \<and> length (b_calls b') \<le> length (b_calls b)"
  "reap_if_due now cc b = Inr (b', fx) \<Longrightarrow>
     b_jobs b' = b_jobs b \<and> b_registry b' = b_registry b \<and> length (b_calls b') \<le> length (b_calls b)"
  by (auto simp: fail_if_touching_def reap_if_due_def pop_call_calls split: prod.splits if_splits dest!: fail_call_sel)

lemma sum_list_remove:
  "i < length xs \<Longrightarrow> sum_list (map f xs) = sum_list (map f (take i xs @ drop (Suc i) xs)) + (f (xs ! i) :: nat)"
  by (induction xs arbitrary: i) (auto simp: nth_Cons split: nat.splits)

lemma job_step_shrinks:
  "shrinks b (job_work (length (b_registry b)) (length (b_calls b)) j) (fst (job_step status j b))"
proof (induction status j b rule: job_step.induct)
  case (2 status topo k b)
  show ?case
  proof (cases "deliver_topology b")
    case (Inr r)
    obtain b1 fx where r: "r = (b1, fx)" by fastforce
    have "b_jobs b1 = b_jobs b" using Inr r by (auto simp: deliver_topology_def Let_def result_simps split: option.splits)
    then show ?thesis
      using Inr r deliver_topology_registry [of b b1 fx] deliver_topology_calls [of b b1 fx] same_calls_handlers(4) [of k b1]
        run_cont_registry [of k b1] jobs_simps(6) [of k b1]
      by (cases "run_cont k b1") (auto intro: shrinks_none)
  qed (simp add: shrinks_none)
next
  case (3 status name b)
  show ?case by (auto simp: try_broadcast_def start_broadcast_def result_simps split: sum.splits intro: shrinks_none shrinks_one)
next
  case (4 status name cc rest b)
  show ?case
  proof (cases "fail_if_touching name cc b")
    case (Inr r)
    then show ?thesis using sweep_sel(1) [of name cc b] by (cases r) (auto intro: shrinks_one)
  qed (simp add: shrinks_none pop_call_calls)
next
  case (6 status now cc rest b)
  show ?case
  proof (cases "reap_if_due now cc b")
    case (Inr r)
    then show ?thesis using sweep_sel(2) [of now cc b] by (cases r) (auto intro: shrinks_one)
  qed (simp add: shrinks_none pop_call_calls)
next
  case (7 status name ws b)
  show ?case
  proof (cases "dget (b_registry b) name = Some ws")
    case True
    then show ?thesis using length_dpop_le [of name "b_registry b"]
      by (auto simp: on_lost_def Let_def intro!: shrinks_one)
  qed (simp add: on_lost_def shrinks_none)
qed (auto intro: shrinks_none shrinks_one)

lemma runs_job_decreases:
  assumes "runs_job b b'"
  shows "jobs_work b' < jobs_work b"
proof -
  from assms obtain i status fx where r: "run_job i status b = Some (b', fx)" by (auto simp: runs_job_def)
  then have i: "i < length (b_jobs b)" by (simp add: run_job_def split: if_splits)
  let ?j = "b_jobs b ! i"
  let ?js = "take i (b_jobs b) @ drop (Suc i) (b_jobs b)"
  let ?b = "b\<lparr>b_jobs := ?js\<rparr>"
  let ?w = "job_work (length (b_registry b)) (length (b_calls b))"
  let ?w' = "job_work (length (b_registry b')) (length (b_calls b'))"
  have "shrinks ?b (?w ?j) b'"
    using job_step_shrinks [of ?b ?j status] r i by (simp add: run_job_def)
  then obtain extra where b': "b_jobs b' = ?js @ extra" "sum_list (map ?w' extra) < ?w ?j"
    "length (b_registry b') \<le> length (b_registry b)" "length (b_calls b') \<le> length (b_calls b)"
    by (auto simp: shrinks_def)
  have "sum_list (map ?w' ?js) \<le> sum_list (map ?w ?js)"
    by (rule sum_list_mono) (rule job_work_mono [OF b'(3,4)])
  moreover have "sum_list (map ?w (b_jobs b)) = sum_list (map ?w ?js) + ?w ?j"
    by (rule sum_list_remove [OF i])
  ultimately show ?thesis using b'(1,2) by (simp add: jobs_work_def)
qed



section \<open>A lost endpoint\<close>

text \<open>The whole loop of \<open>_fail_inflight_for\<close>, when no await in it gives way to anything else.\<close>

fun fail_inflight :: "string \<Rightarrow> (pyval \<times> bk_call) list \<Rightarrow> 'b broker \<Rightarrow> py_error + 'b broker \<times> 'b bk_effect list" where
  "fail_inflight n [] b = Inr (b, [])"
| "fail_inflight n (cc # rest) b = rbind (fail_if_touching n cc b) (\<lambda>(b1, fx).
     rbind (fail_inflight n rest b1) (\<lambda>(b2, fx2). Inr (b2, fx @ fx2)))"

definition touches :: "string \<Rightarrow> bk_call \<Rightarrow> bool" where
  "touches n c \<longleftrightarrow> c_dst c = n \<or> c_src c = n"

text \<open>The answers the requesters of forwarded calls get.\<close>

definition lost_answers :: "string \<Rightarrow> (string \<times> socket) list \<Rightarrow> (pyval \<times> bk_call) list \<Rightarrow> 'b bk_effect list" where
  "lost_answers n reg cs = concat (map (\<lambda>(k, c).
     if c_dst c = n \<and> c_future c = None
     then (case dget reg (c_src c) of None \<Rightarrow> [] | Some ws \<Rightarrow> [Send_To ws (Answer n (PStr (c_src c)) 504 k)])
     else []) cs)"

lemma settle_not_pending: "dget (b_futures b) f \<noteq> Some Fut_Pending \<Longrightarrow> dget (b_futures (settle_call c r b)) f \<noteq> Some Fut_Pending"
  by (auto simp: settle_call_def split: option.splits)

lemma settled: "c_future c = Some f \<Longrightarrow> dget (b_futures (settle_call (Some c) r b)) f \<noteq> Some Fut_Pending"
  by (auto simp: settle_call_def split: option.splits)

lemma fail_if_touching_step:
  assumes "corr_valid k"
  shows "\<exists>b1. fail_if_touching n (k, c) b = Inr (b1, lost_answers n (b_registry b) [(k, c)]) \<and>
     b_registry b1 = b_registry b \<and>
     b_calls b1 = (if touches n c then dpop k (b_calls b) else b_calls b) \<and>
     (\<forall>f. dget (b_futures b) f \<noteq> Some Fut_Pending \<longrightarrow> dget (b_futures b1) f \<noteq> Some Fut_Pending) \<and>
     (\<forall>f. c_dst c = n \<longrightarrow> c_future c = Some f \<longrightarrow> dget (b_futures b1) f \<noteq> Some Fut_Pending)"
  using assms
  by (auto simp: fail_if_touching_def fail_call_def touches_def lost_answers_def pop_call_def settled settle_not_pending
      split: option.splits)

lemma lost_answers_Cons: "lost_answers n reg (cc # cs) = lost_answers n reg [cc] @ lost_answers n reg cs"
  by (simp add: lost_answers_def)

lemma fail_inflight_all:
  assumes "list_all corr_valid (map fst cs)"
  shows "\<exists>b2. fail_inflight n cs b = Inr (b2, lost_answers n (b_registry b) cs) \<and>
     b_calls b2 = filter (\<lambda>(k, c). k \<notin> fst ` set (filter (\<lambda>(k, c). touches n c) cs)) (b_calls b) \<and>
     (\<forall>f. dget (b_futures b) f \<noteq> Some Fut_Pending \<longrightarrow> dget (b_futures b2) f \<noteq> Some Fut_Pending) \<and>
     (\<forall>(k, c) \<in> set cs. \<forall>f. c_dst c = n \<longrightarrow> c_future c = Some f \<longrightarrow> dget (b_futures b2) f \<noteq> Some Fut_Pending)"
  using assms
proof (induction cs arbitrary: b)
  case Nil
  then show ?case by (simp add: lost_answers_def)
next
  case (Cons cc cs)
  obtain k c where cc: "cc = (k, c)" by fastforce
  from fail_if_touching_step [of k n c b] Cons.prems cc obtain b1 where
    b1: "fail_if_touching n (k, c) b = Inr (b1, lost_answers n (b_registry b) [(k, c)])" "b_registry b1 = b_registry b"
      "b_calls b1 = (if touches n c then dpop k (b_calls b) else b_calls b)"
      "\<And>f. dget (b_futures b) f \<noteq> Some Fut_Pending \<Longrightarrow> dget (b_futures b1) f \<noteq> Some Fut_Pending"
      "\<And>f. c_dst c = n \<Longrightarrow> c_future c = Some f \<Longrightarrow> dget (b_futures b1) f \<noteq> Some Fut_Pending" by auto
  from Cons.IH [of b1] Cons.prems obtain b2 where
    b2: "fail_inflight n cs b1 = Inr (b2, lost_answers n (b_registry b) cs)"
      "b_calls b2 = filter (\<lambda>(k, c). k \<notin> fst ` set (filter (\<lambda>(k, c). touches n c) cs)) (b_calls b1)"
      "\<And>f. dget (b_futures b1) f \<noteq> Some Fut_Pending \<Longrightarrow> dget (b_futures b2) f \<noteq> Some Fut_Pending"
      "\<forall>(k, c) \<in> set cs. \<forall>f. c_dst c = n \<longrightarrow> c_future c = Some f \<longrightarrow> dget (b_futures b2) f \<noteq> Some Fut_Pending"
    using b1(2) by auto
  have "b_calls b2 = filter (\<lambda>(k, c). k \<notin> fst ` set (filter (\<lambda>(k, c). touches n c) (cc # cs))) (b_calls b)"
    by (auto simp: b2(2) b1(3) cc AList.delete_eq intro!: filter_cong split: if_splits)
  then show ?case using b1 b2 by (auto simp: cc lost_answers_Cons [of _ _ "(k, c)" cs])
qed



section \<open>Suspects\<close>

text \<open>C30. A suspect participant loses no event to its dead socket.  While it is suspect, its sender hands nothing over and
  its queue is left alone; when it resumes with its key in time, it is present again, its queue holds the same events,
  and its new sender is awake whenever there are any.\<close>

theorem resume_keeps_backlog:
  assumes reach: "bk_reachable env bk_conforming b" and suspect: "dget (b_liveness b) n = Some ''suspect''"
    and hello: "h_name h = n" "list_all plugin_named (h_plugins h)"
    and cred: "e_auth env \<longrightarrow> tokens_match (h_credential h) (e_token env)"
    and key: "tokens_match (h_resume_key h) (dget (b_resume_keys b) n)"
  shows "\<exists>q b' fx. dget (outq (b_events b)) n = Some q \<and>
     (\<forall>ok. \<exists>b1. bk_do env (Sender_Runs n ok) b = Some (b1, []) \<and> dget (outq (b_events b1)) n = Some q) \<and>
     bk_do env (Connects h k) b = Some (b', fx) \<and> dget (b_liveness b') n = Some ''present'' \<and>
     dget (senders (b_events b')) n = Some Waiting \<and>
     dget (outq (b_events b')) n = Some (q\<lparr>wake := buf q \<noteq> [] \<or> wake q\<rparr>)"
proof -
  have inv: "bk_inv b" using bk_reachable_inv [OF reach] by blast
  then obtain q old p where q: "dget (outq (b_events b)) n = Some q" "dget (senders (b_events b)) n = Some Finished"
    and old: "dget (b_registry b) n = Some old" and p: "dget (b_participants b) n = Some p"
    using suspect by (auto simp: bk_inv_def delivery_ok_def tables_ok_def) (metis not_None_eq)
  have nb: "n \<noteq> ''broker''" using inv old by (auto simp: bk_inv_def tables_ok_def)
  have idle: "\<exists>b1. bk_do env (Sender_Runs n ok) b = Some (b1, []) \<and> dget (outq (b_events b1)) n = Some q" for ok
    by (simp add: sender_step_def q)
  let ?b = "b\<lparr>b_next := Suc (b_next b)\<rparr>"
  obtain b' fx where b': "resume_participant (b_next b) old h ?b = (b', fx)" by fastforce
  obtain pl where pl: "plugins_list_to_dict (h_plugins h) = Inr pl" using plugins_list_valid [OF hello(2)] by blast
  have "b_events b' = restart_sender n (b_events b) \<and> b_liveness b' = dset n ''present'' (b_liveness b)"
    using b' by (auto simp: resume_participant_def cancel_grace_def Let_def hello p pl start_broadcast_def result_simps
        split: sum.splits)
  moreover have "bk_do env (Connects h k) b = Some (b', fx)"
    using old cred key nb by (auto simp: register_ws_def hello b')
  ultimately show ?thesis using q idle by auto
qed

section \<open>A topology that cannot be built\<close>

lemma topology_fails_iff:
  "(\<exists>e. participants_for_topology b = Inl e) \<longleftrightarrow> \<not> list_all (\<lambda>(n, p). plugins_valid (bp_plugins p)) (b_participants b)"
  by (simp add: participants_for_topology_def Let_def list.pred_map o_def case_prod_unfold)

lemma topology_error: "participants_for_topology b = Inl e \<Longrightarrow> e = ValueError"
  by (auto simp: participants_for_topology_def Let_def split: if_splits)

lemma topology_fails_participants:
  "b_participants b' = b_participants b \<Longrightarrow> participants_for_topology b = Inl e \<Longrightarrow> participants_for_topology b' = Inl e"
  using topology_fails_iff [of b] topology_fails_iff [of b'] topology_error by metis


section \<open>Concrete runs\<close>

fun bk_run :: "'b bk_env \<Rightarrow> bk_action list \<Rightarrow> 'b broker \<Rightarrow> 'b broker option" where
  "bk_run env [] b = Some b"
| "bk_run env (a # as) b = (case bk_do env a b of None \<Rightarrow> None | Some (b1, fx) \<Rightarrow> bk_run env as b1)"

lemma bk_run_reachable:
  "bk_reachable env allow b \<Longrightarrow> list_all allow as \<Longrightarrow> bk_run env as b = Some b' \<Longrightarrow> bk_reachable env allow b'"
proof (induction as arbitrary: b)
  case (Cons a as)
  from Cons.prems obtain b1 fx where "bk_do env a b = Some (b1, fx)" and run: "bk_run env as b1 = Some b'"
    by (auto split: option.splits)
  with Cons.prems have "bk_step env allow b b1" by (auto intro: bk_step.act)
  with Cons.prems have "bk_reachable env allow b1" by (blast intro: bk_reachable.step)
  with Cons.prems Cons.IH run show ?case by simp
qed simp

lemma bk_run_the:
  "bk_run env as (new_broker n) \<noteq> None \<Longrightarrow> list_all allow as \<Longrightarrow> bk_reachable env allow (the (bk_run env as (new_broker n)))"
  using bk_run_reachable [OF bk_reachable.start] by auto

definition demo_bk_env :: "dict bk_env" where
  "demo_bk_env = \<lparr>e_auth = True, e_token = Some ''tok'', e_call_cap = 2, e_forwarded_call_cap = 2,
     e_call_timeout = 30, e_packb = id\<rparr>"

definition demo_hello :: "string \<Rightarrow> string option \<Rightarrow> dict list \<Rightarrow> bk_hello" where
  "demo_hello n key ps = \<lparr>h_name = n, h_credential = Some ''tok'', h_resume_key = key, h_role = ''endpoint'', h_plugins = ps\<rparr>"

text \<open>An endpoint and a client register and are served; the client calls the endpoint and the broker does.\<close>

definition demo_served :: "bk_action list" where
  "demo_served = [Connects (demo_hello ''ep'' None []) ''k0'', Runs 0 0, Runs 0 0,
     Connects (demo_hello ''cl'' None []) ''k1'', Runs 0 0, Runs 0 0, Runs 0 0]"

definition demo_calls :: "bk_action list" where
  "demo_calls = demo_served @ [Receives 1 (Some (PDict [(''kind'', PStr ''request''), (''dst'', PStr ''ep''),
     (''corr_id'', PStr ''c1'')])) 0, Calls ''ep'' ''c2'' [] True 0, Drops 0 False]"

lemma demo_calls_run: "bk_run demo_bk_env demo_calls (new_broker 4) \<noteq> None" "list_all bk_conforming demo_calls"
  by code_simp+

lemma demo_calls_reachable: "bk_reachable demo_bk_env bk_conforming (the (bk_run demo_bk_env demo_calls (new_broker 4)))"
  by (rule bk_run_the [OF demo_calls_run])

theorem conforming_broker_consistent_witness:
  "\<exists>t. participants_for_topology (the (bk_run demo_bk_env demo_calls (new_broker 4))) = Inr t \<and>
     fst ` set t = insert ''broker'' (fst ` set (b_registry (the (bk_run demo_bk_env demo_calls (new_broker 4)))))"
  using conforming_broker_consistent [OF demo_calls_reachable] by blast

theorem inflight_calls_bounded_witness:
  "length (b_calls (the (bk_run demo_bk_env demo_calls (new_broker 4)))) \<le> 2 + 2"
  using inflight_calls_bounded [OF demo_calls_reachable] by (simp add: demo_bk_env_def)


text \<open>The endpoint drops, an event for it is queued meanwhile, and it comes back.\<close>

definition demo_suspect :: "bk_action list" where
  "demo_suspect = demo_served @ [Receives 0 (Some (PDict [(''kind'', PStr ''subscribe''), (''patterns'', PList [PDict []])])) 0,
     Drops 0 False, Runs 0 0, Runs 0 0, Runs 0 0,
     Receives 1 (Some (PDict [(''kind'', PStr ''event''), (''plugin'', PStr ''p''), (''topic'', PStr ''t'')])) 1]"

lemma demo_suspect_run: "bk_run demo_bk_env demo_suspect (new_broker 4) \<noteq> None" "list_all bk_conforming demo_suspect"
  by code_simp+

theorem resume_keeps_backlog_witness:
  "\<exists>q b' fx. dget (outq (b_events (the (bk_run demo_bk_env demo_suspect (new_broker 4))))) ''ep'' = Some q \<and>
     bk_do demo_bk_env (Connects (demo_hello ''ep'' (Some ''k0'') []) ''k2'')
       (the (bk_run demo_bk_env demo_suspect (new_broker 4))) = Some (b', fx) \<and>
     dget (b_liveness b') ''ep'' = Some ''present'' \<and>
     dget (outq (b_events b')) ''ep'' = Some (q\<lparr>wake := buf q \<noteq> [] \<or> wake q\<rparr>) \<and> length (buf q) = 1"
proof -
  let ?b = "the (bk_run demo_bk_env demo_suspect (new_broker 4))"
  have "dget (b_liveness ?b) ''ep'' = Some ''suspect''" "dget (b_resume_keys ?b) ''ep'' = Some ''k0''"
    "map_option (\<lambda>q. length (buf q)) (dget (outq (b_events ?b)) ''ep'') = Some 1"
    by code_simp+
  then show ?thesis
    using resume_keeps_backlog [OF bk_run_the [OF demo_suspect_run], of "''ep''" "demo_hello ''ep'' (Some ''k0'') []" "''k2''"]
    by (auto simp: demo_hello_def demo_bk_env_def tokens_match_def)
qed

theorem name_takeover_needs_key_witness:
  "\<exists>h key. Connects (demo_hello ''ep'' (Some ''k0'') []) ''k2'' = Connects h key \<and> h_name h = ''ep'' \<and>
     tokens_match (h_resume_key h) (Some ''k0'')"
proof -
  let ?b = "the (bk_run demo_bk_env demo_served (new_broker 4))"
  let ?a = "Connects (demo_hello ''ep'' (Some ''k0'') []) ''k2''"
  obtain b' fx where b': "bk_do demo_bk_env ?a ?b = Some (b', fx)" by fastforce
  have "dget (b_registry (fst (the (bk_do demo_bk_env ?a ?b)))) ''ep'' = Some 2" "dget (b_registry ?b) ''ep'' = Some 0"
    "dget (b_resume_keys ?b) ''ep'' = Some ''k0''"
    by code_simp+
  then show ?thesis using name_takeover_needs_key [OF b', of "''ep''" 2] b' by auto
qed


section \<open>Input that the broker does not survive\<close>

definition run_from_empty :: "bk_action list \<Rightarrow> dict broker" where
  "run_from_empty as = the (bk_run demo_bk_env as (new_broker 4))"

text \<open>A hello whose plugin entry has a number for a name is admitted into the tables and then fails every topology
  that is built: its handler ends without undoing it, and the unclean drop of a well-behaved participant leaves it
  suspect with no grace timer and no job that could ever remove it.\<close>

definition demo_bad_name :: "bk_action list" where
  "demo_bad_name = demo_served @ [Connects (demo_hello ''bad'' None [[(''name'', PInt 5)]]) ''k9'', Drops 0 False]"

lemma demo_bad_name_run: "bk_run demo_bk_env demo_bad_name (new_broker 4 :: dict broker) \<noteq> None"
  by code_simp

lemma bad_plugin_name_stops_broker:
  "participants_for_topology (run_from_empty demo_bad_name) = Inl ValueError"
  "dget (b_registry (run_from_empty demo_bad_name)) ''bad'' = Some 2"
  "dget (b_conns (run_from_empty demo_bad_name)) 2 = None"
  "dget (b_liveness (run_from_empty demo_bad_name)) ''ep'' = Some ''suspect''"
  "b_grace_timers (run_from_empty demo_bad_name) = []"
  "b_jobs (run_from_empty demo_bad_name) = []"
  by code_simp+


text \<open>Two drops of one participant around a resume: the broadcast of the first drop ends last, and its
  \<open>_arm_grace\<close> replaces the timer of the second by one for the socket that has been replaced.  When that timer fires,
  the guard of \<open>_on_lost\<close> ends it, and the participant stays suspect.\<close>

definition demo_stale_arm :: "bk_action list" where
  "demo_stale_arm = demo_served @
     [Drops 0 False, Connects (demo_hello ''ep'' (Some ''k0'') []) ''k2''] @ replicate 3 (Runs 1 0) @
     [Drops 2 False] @ replicate 3 (Runs 1 0) @ replicate 3 (Runs 0 0)"

definition demo_stale_fired :: "bk_action list" where
  "demo_stale_fired = demo_stale_arm @ [Grace_Fires ''ep'', Runs 0 0]"

lemma demo_stale_fired_run:
  "bk_run demo_bk_env demo_stale_fired (new_broker 4 :: dict broker) \<noteq> None" "list_all bk_conforming demo_stale_fired"
  by code_simp+

lemma stale_drop_disarms_grace:
  "b_grace_timers (run_from_empty demo_stale_arm) = [(''ep'', 0)]"
  "dget (b_registry (run_from_empty demo_stale_arm)) ''ep'' = Some 2"
  "dget (b_liveness (run_from_empty demo_stale_fired)) ''ep'' = Some ''suspect''"
  "dget (b_registry (run_from_empty demo_stale_fired)) ''ep'' = Some 2"
  "b_grace_timers (run_from_empty demo_stale_fired) = []"
  "b_jobs (run_from_empty demo_stale_fired) = []"
  by code_simp+

text \<open>A request whose correlation id is a number is forwarded; when it runs out of time, the synthesized answer cannot
  be built and the reaper is gone: no later wake-up exists.\<close>

definition demo_bad_corr :: "bk_action list" where
  "demo_bad_corr = demo_served @ [Receives 1 (Some (PDict [(''kind'', PStr ''request''), (''dst'', PStr ''ep''),
     (''corr_id'', PInt 7)])) 0, Reaps 30, Runs 0 0]"

lemma demo_bad_corr_run: "bk_run demo_bk_env demo_bad_corr (new_broker 4 :: dict broker) \<noteq> None"
  by code_simp

lemma bad_corr_id_ends_reaper:
  "b_reaper (run_from_empty demo_bad_corr) = False"
  "b_calls (run_from_empty demo_bad_corr) = []"
  by code_simp+

text \<open>A request that carries the correlation id of a call that the broker waits for takes the entry over: the
  answer of the endpoint then settles nothing, and the future of the broker's call stays pending.\<close>

definition demo_same_corr :: "bk_action list" where
  "demo_same_corr = demo_served @ [Calls ''ep'' ''c1'' [] True 0,
     Receives 1 (Some (PDict [(''kind'', PStr ''request''), (''dst'', PStr ''ep''), (''corr_id'', PStr ''c1'')])) 0,
     Receives 0 (Some (PDict [(''kind'', PStr ''response''), (''dst'', PStr ''broker''), (''corr_id'', PStr ''c1'')])) 1]"

lemma demo_same_corr_run:
  "bk_run demo_bk_env demo_same_corr (new_broker 4 :: dict broker) \<noteq> None" "list_all bk_conforming demo_same_corr"
  by code_simp+

lemma same_corr_id_loses_call:
  "b_calls (run_from_empty demo_same_corr) = []"
  "map snd (b_futures (run_from_empty demo_same_corr)) = [Fut_Pending]"
  by code_simp+

end
