(* ===== verification/Plugin_Sessions.thy ===== *)
theory Plugin_Sessions
  imports Py_Numbers "HOL-Library.Code_Target_Nat"
begin

text \<open>
  The session registry that every plugin inherits (\<^verbatim>\<open>plugin_base.py\<close>): registration under a lifetime policy, the
  wrapper around every route of a session, \<open>_forward\<close>, the idle expiry with its sweep, and the memory of ended
  sessions.  A session object and a lifetime record are numbered when they are made, so that a request that still
  runs keeps the record it started with after the table has lost it, and the identity test of the sweep is that of
  the code.  A coroutine is cut where it awaits: the rest of a registration after the close of an expired session,
  and the sweep and the shutdown between two sessions, are jobs.  All calls of the clock within one section give one
  time, which is an argument, as are the answers of \<open>is_busy\<close> (a probe that raises counts as busy).
\<close>

section \<open>State\<close>

definition ENDED_KEEP :: nat where
  "ENDED_KEEP = 100000"

definition DEFAULT_SID :: pyval where
  "DEFAULT_SID = PStr ''default''"

record session_record =
  sr_lifetime :: string
  sr_ttl :: "rat option"
  sr_owner :: "string option"
  sr_last_access :: rat
  sr_client :: "string option"
  sr_inflight :: int

record ended_entry =
  en_time :: rat
  en_reason :: string
  en_timeout :: rat
  en_idle :: rat
  en_client :: "string option"

datatype pl_job =
    Register_Rest pyval pyval string "rat option" "string option" "string option"
  | Sweep_Rest "(pyval \<times> nat) list"
  | Shutdown_Rest "pyval list"

text \<open>\<open>pl_running\<close> holds the calls of session methods that have not returned, with the record that counts them.
  Keys are session ids in their canonical form as dictionary keys.\<close>

record plugin =
  pl_sessions :: "(pyval \<times> nat) list"
  pl_records :: "(pyval \<times> nat) list"
  pl_heap :: "(nat \<times> session_record) list"
  pl_ended :: "(pyval \<times> ended_entry) list"
  pl_running :: "(nat \<times> nat option) list"
  pl_jobs :: "pl_job list"
  pl_cleanup :: bool
  pl_next :: nat

definition new_plugin :: plugin where
  "new_plugin = \<lparr>pl_sessions = [], pl_records = [], pl_heap = [], pl_ended = [], pl_running = [], pl_jobs = [],
     pl_cleanup = False, pl_next = 0\<rparr>"

datatype pl_error = Http nat | Crash py_error

datatype pl_effect = Closes nat | Replies pl_error | Registered pyval | Session_Call nat nat | Reply_Ok

section \<open>The lifetime policy\<close>

text \<open>\<open>_validate_session_policy\<close>; an absent session id is \<open>PNone\<close>.\<close>

definition validate_session_policy :: "dict \<Rightarrow> pl_error + pyval \<times> string \<times> rat option" where
  "validate_session_policy data =
    (let sid = pget data ''sid''; lifetime = pget_or data ''lifetime'' (PStr ''ephemeral''); ttl = pget data ''ttl''
     in if sid = DEFAULT_SID then
          if dhas data ''lifetime'' \<and> pget data ''lifetime'' \<noteq> PStr ''persistent'' then Inl (Http 409)
          else if ttl \<noteq> PNone then Inl (Http 409)
          else Inr (sid, ''persistent'', None)
        else if lifetime \<notin> {PStr ''ephemeral'', PStr ''ttl'', PStr ''persistent''} then Inl (Http 409)
        else if ttl \<noteq> PNone then
          if \<not> is_number ttl then Inl (Http 409)
          else (case py_isfinite ttl of
                  Inl e \<Rightarrow> Inl (Crash e)
                | Inr fin \<Rightarrow>
                    (case num_of ttl of
                       Some (Fin r) \<Rightarrow> if \<not> fin \<or> r < 0 then Inl (Http 409)
                         else if r = 0 then Inr (sid, ''persistent'', None) else Inr (sid, ''ttl'', Some r)
                     | _ \<Rightarrow> Inl (Http 409)))
        else if lifetime = PStr ''ttl'' then Inl (Http 409)
        else Inr (sid, str_of lifetime, None))"

text \<open>\<open>_timeout\<close>, with the plugin's \<open>session_ttl\<close>; a record of lifetime \<open>ttl\<close> always has one.\<close>

definition session_timeout :: "rat \<Rightarrow> session_record \<Rightarrow> rat" where
  "session_timeout dflt r =
    (if sr_lifetime r = ''persistent'' then 0
     else if sr_lifetime r = ''ttl'' then (case sr_ttl r of None \<Rightarrow> 0 | Some t \<Rightarrow> t)
     else dflt)"

definition expiry_deadline :: "rat \<Rightarrow> session_record \<Rightarrow> rat option" where
  "expiry_deadline dflt r =
    (let timeout = session_timeout dflt r in if 0 < timeout then Some (sr_last_access r + timeout) else None)"

definition session_expired :: "rat \<Rightarrow> session_record \<Rightarrow> rat \<Rightarrow> bool" where
  "session_expired dflt r now = (case expiry_deadline dflt r of None \<Rightarrow> False | Some d \<Rightarrow> d < now)"

section \<open>Records\<close>

definition upd_rec :: "nat \<Rightarrow> (session_record \<Rightarrow> session_record) \<Rightarrow> plugin \<Rightarrow> plugin" where
  "upd_rec rid f p = (case dget (pl_heap p) rid of
     None \<Rightarrow> p | Some r \<Rightarrow> p\<lparr>pl_heap := dset rid (f r) (pl_heap p)\<rparr>)"

definition touch_session :: "pyval \<Rightarrow> rat \<Rightarrow> plugin \<Rightarrow> plugin" where
  "touch_session k now p = (case dget (pl_records p) k of
     None \<Rightarrow> p | Some rid \<Rightarrow> upd_rec rid (\<lambda>r. r\<lparr>sr_last_access := now\<rparr>) p)"

definition record_session :: "pyval \<Rightarrow> string \<Rightarrow> rat option \<Rightarrow> string option \<Rightarrow> rat \<Rightarrow> plugin \<Rightarrow> plugin" where
  "record_session k lifetime ttl owner now p =
    (let n = pl_next p in
     p\<lparr>pl_sessions := dset k n (pl_sessions p), pl_records := dset k n (pl_records p),
       pl_heap := dset n \<lparr>sr_lifetime = lifetime, sr_ttl = ttl, sr_owner = owner, sr_last_access = now,
         sr_client = None, sr_inflight = 0\<rparr> (pl_heap p),
       pl_next := Suc n\<rparr>)"

definition ensure_default_session :: "rat \<Rightarrow> plugin \<Rightarrow> plugin" where
  "ensure_default_session now p = (if dhas (pl_sessions p) DEFAULT_SID then p
     else record_session DEFAULT_SID ''persistent'' None None now p)"

definition tag_client :: "string option \<Rightarrow> session_record \<Rightarrow> session_record" where
  "tag_client header r =
    (let client = (case header of Some (c # cs) \<Rightarrow> c # cs | _ \<Rightarrow> ''other'')
     in if sr_client r = None \<or> sr_client r = Some client then r\<lparr>sr_client := Some client\<rparr>
        else r\<lparr>sr_client := Some ''mixed''\<rparr>)"

section \<open>The end of a session\<close>

definition drop_session :: "pyval \<Rightarrow> plugin \<Rightarrow> plugin \<times> pl_effect list" where
  "drop_session k p =
    (p\<lparr>pl_records := dpop k (pl_records p), pl_sessions := dpop k (pl_sessions p)\<rparr>,
     case dget (pl_sessions p) k of None \<Rightarrow> [] | Some obj \<Rightarrow> [Closes obj])"

definition remember_ended :: "pyval \<Rightarrow> ended_entry \<Rightarrow> plugin \<Rightarrow> plugin" where
  "remember_ended k e p =
    (let ended = dpop k (pl_ended p) @ [(k, e)]
     in p\<lparr>pl_ended := drop (length ended - ENDED_KEEP) ended\<rparr>)"

definition end_session :: "rat \<Rightarrow> pyval \<Rightarrow> string \<Rightarrow> rat \<Rightarrow> plugin \<Rightarrow> plugin \<times> pl_effect list" where
  "end_session dflt k reason now p =
    drop_session k
      (case Option.bind (dget (pl_records p) k) (dget (pl_heap p)) of
         None \<Rightarrow> p
       | Some r \<Rightarrow>
           if 0 < session_timeout dflt r
           then remember_ended k \<lparr>en_time = now, en_reason = reason, en_timeout = session_timeout dflt r,
                  en_idle = now - sr_last_access r, en_client = sr_client r\<rparr> p
           else p)"

definition ended_detail :: "pyval \<Rightarrow> plugin \<Rightarrow> ended_entry option" where
  "ended_detail k p = (if truthy k then dget (pl_ended p) k else None)"

definition session_busy :: "(nat \<Rightarrow> bool) \<Rightarrow> pyval \<Rightarrow> session_record \<Rightarrow> plugin \<Rightarrow> bool" where
  "session_busy busy k r p \<longleftrightarrow> 0 < sr_inflight r \<or> (case dget (pl_sessions p) k of None \<Rightarrow> False | Some obj \<Rightarrow> busy obj)"

definition expire_if_due :: "rat \<Rightarrow> (nat \<Rightarrow> bool) \<Rightarrow> pyval \<Rightarrow> nat \<Rightarrow> rat \<Rightarrow> plugin \<Rightarrow> bool \<times> plugin \<times> pl_effect list" where
  "expire_if_due dflt busy k rid now p = (case dget (pl_heap p) rid of
     None \<Rightarrow> (False, p, [])
   | Some r \<Rightarrow>
       if \<not> session_expired dflt r now then (False, p, [])
       else if session_busy busy k r p then (False, upd_rec rid (\<lambda>r. r\<lparr>sr_last_access := now\<rparr>) p, [])
       else (True, end_session dflt k ''expired'' now p))"

section \<open>Registration\<close>

definition tag_session :: "pyval \<Rightarrow> string option \<Rightarrow> plugin \<Rightarrow> plugin" where
  "tag_session k header p = (if truthy k
     then case dget (pl_records p) k of None \<Rightarrow> p | Some rid \<Rightarrow> upd_rec rid (tag_client header) p else p)"

text \<open>\<open>_open_session\<close> with the tag that the route wrapper adds; \<open>mint\<close> is the session id that was found free.\<close>

definition open_plugin_session :: "pyval \<Rightarrow> pyval \<Rightarrow> string \<Rightarrow> rat option \<Rightarrow> string option \<Rightarrow> string option \<Rightarrow> string \<Rightarrow> rat \<Rightarrow>
    plugin \<Rightarrow> plugin \<times> pl_effect list" where
  "open_plugin_session k sid lifetime ttl owner header mint now p =
    (if sid = DEFAULT_SID
     then (tag_session k header (touch_session k now (ensure_default_session now p)), [Registered sid])
     else let sid' = (if sid = PNone then PStr mint else sid); k' = (if sid = PNone then PStr mint else k)
       in (tag_session k' header
             (if dhas (pl_sessions p) k' then touch_session k' now p else record_session k' lifetime ttl owner now p),
           [Registered sid']))"

text \<open>The rest of \<open>_normalize_session_policy\<close> after the expiry, and what follows it.\<close>

definition register_rest :: "pyval \<Rightarrow> pyval \<Rightarrow> string \<Rightarrow> rat option \<Rightarrow> string option \<Rightarrow> string option \<Rightarrow> string \<Rightarrow> rat \<Rightarrow>
    plugin \<Rightarrow> plugin \<times> pl_effect list" where
  "register_rest k sid lifetime ttl owner header mint now p =
    (if sid \<noteq> PNone \<and> \<not> dhas (pl_records p) k \<and> ended_detail k p \<noteq> None then (p, [Replies (Http 410)])
     else open_plugin_session k sid lifetime ttl owner header mint now p)"

definition register_begin :: "rat \<Rightarrow> (nat \<Rightarrow> bool) \<Rightarrow> pyval option \<Rightarrow> string option \<Rightarrow> string option \<Rightarrow> string \<Rightarrow> rat \<Rightarrow>
    plugin \<Rightarrow> plugin \<times> pl_effect list" where
  "register_begin dflt busy body owner header mint now p0 =
    (let p = p0\<lparr>pl_cleanup := True\<rparr>; data = (case body of Some (PDict d) \<Rightarrow> d | _ \<Rightarrow> [])
     in case validate_session_policy data of
          Inl e \<Rightarrow> (p, [Replies e])
        | Inr (sid, lifetime, ttl) \<Rightarrow>
           (case hash_key sid of
              None \<Rightarrow> (p, [Replies (Crash TypeError)])
            | Some k \<Rightarrow>
               (case (if sid = PNone then None else dget (pl_records p) k) of
                  None \<Rightarrow> register_rest k sid lifetime ttl owner header mint now p
                | Some rid \<Rightarrow>
                   (case expire_if_due dflt busy k rid now p of
                      (True, p1, fx) \<Rightarrow> (p1\<lparr>pl_jobs := pl_jobs p1 @ [Register_Rest k sid lifetime ttl owner header]\<rparr>, fx)
                    | (False, p1, fx) \<Rightarrow> register_rest k sid lifetime ttl owner header mint now p1))))"

definition unregister_begin :: "rat \<Rightarrow> string \<Rightarrow> rat \<Rightarrow> plugin \<Rightarrow> plugin \<times> pl_effect list" where
  "unregister_begin dflt sid now p =
    (if \<not> dhas (pl_sessions p) (PStr sid) \<and> \<not> dhas (pl_records p) (PStr sid)
     then (p, [if ended_detail (PStr sid) p \<noteq> None then Reply_Ok else Replies (Http 404)])
     else case end_session dflt (PStr sid) ''closed'' now p of (p1, fx) \<Rightarrow> (p1, fx @ [Reply_Ok]))"

section \<open>Requests on a session\<close>

text \<open>\<open>_forward\<close> up to the call of the session method.\<close>

definition forward_begin :: "rat \<Rightarrow> (nat \<Rightarrow> bool) \<Rightarrow> pyval \<Rightarrow> rat \<Rightarrow> plugin \<Rightarrow> (pl_error + nat) \<times> plugin \<times> pl_effect list" where
  "forward_begin dflt busy k now p0 =
    (let p = (if k = DEFAULT_SID then ensure_default_session now p0 else p0)
     in case (case dget (pl_records p) k of None \<Rightarrow> (False, p, []) | Some rid \<Rightarrow> expire_if_due dflt busy k rid now p) of
          (True, p1, fx) \<Rightarrow> (Inl (Http 410), p1, fx)
        | (False, p1, fx) \<Rightarrow>
           (case dget (pl_sessions p1) k of
              None \<Rightarrow> (Inl (Http (if ended_detail k p1 \<noteq> None then 410 else 404)), p1, fx)
            | Some obj \<Rightarrow> (Inr obj, touch_session k now p1, fx)))"

text \<open>The \<open>finally\<close> of the route wrapper.\<close>

definition finish_access :: "nat option \<Rightarrow> rat \<Rightarrow> plugin \<Rightarrow> plugin" where
  "finish_access orid now p = (case orid of
     None \<Rightarrow> p | Some rid \<Rightarrow> upd_rec rid (\<lambda>r. r\<lparr>sr_inflight := sr_inflight r - 1, sr_last_access := now\<rparr>) p)"

definition serve_request :: "rat \<Rightarrow> (nat \<Rightarrow> bool) \<Rightarrow> pyval \<Rightarrow> nat option \<Rightarrow> rat \<Rightarrow> plugin \<Rightarrow> plugin \<times> pl_effect list" where
  "serve_request dflt busy k orid now p = (case forward_begin dflt busy k now p of
     (Inl e, p1, fx) \<Rightarrow> (finish_access orid now p1, fx @ [Replies e])
   | (Inr obj, p1, fx) \<Rightarrow>
       (p1\<lparr>pl_running := pl_running p1 @ [(pl_next p1, orid)], pl_next := Suc (pl_next p1)\<rparr>,
        fx @ [Session_Call (pl_next p1) obj]))"

text \<open>A route of a session: the wrapper \<open>_accessing\<close> around a handler that forwards.\<close>

definition request_begin :: "rat \<Rightarrow> (nat \<Rightarrow> bool) \<Rightarrow> string \<Rightarrow> string option \<Rightarrow> rat \<Rightarrow> plugin \<Rightarrow> plugin \<times> pl_effect list" where
  "request_begin dflt busy sid header now p =
    (let k = PStr sid in case dget (pl_records p) k of
       None \<Rightarrow> if ended_detail k p \<noteq> None then (p, [Replies (Http 410)]) else serve_request dflt busy k None now p
     | Some rid \<Rightarrow>
        (case expire_if_due dflt busy k rid now p of
           (True, p1, fx) \<Rightarrow> (p1, fx @ [Replies (Http 410)])
         | (False, p1, fx) \<Rightarrow>
             (case serve_request dflt busy k (Some rid) now
                     (upd_rec rid (\<lambda>r. (tag_client header r)\<lparr>sr_inflight := sr_inflight r + 1\<rparr>) p1) of
                (p2, fx2) \<Rightarrow> (p2, fx @ fx2))))"

definition request_end :: "nat \<Rightarrow> rat \<Rightarrow> plugin \<Rightarrow> plugin option" where
  "request_end q now p =
    map_option (\<lambda>orid. finish_access orid now (p\<lparr>pl_running := dpop q (pl_running p)\<rparr>)) (dget (pl_running p) q)"

section \<open>Sweep and shutdown\<close>

definition sweep_due :: "rat \<Rightarrow> rat \<Rightarrow> plugin \<Rightarrow> (pyval \<times> nat) list" where
  "sweep_due dflt now p = filter (\<lambda>(k, rid). case dget (pl_heap p) rid of
     None \<Rightarrow> False | Some r \<Rightarrow> session_expired dflt r now) (pl_records p)"

definition sweep_one :: "rat \<Rightarrow> (nat \<Rightarrow> bool) \<Rightarrow> rat \<Rightarrow> pyval \<times> nat \<Rightarrow> plugin \<Rightarrow> plugin \<times> pl_effect list" where
  "sweep_one dflt busy now c p = (case c of (k, rid) \<Rightarrow>
     if dget (pl_records p) k = Some rid then snd (expire_if_due dflt busy k rid now p) else (p, []))"

definition is_sweep :: "pl_job \<Rightarrow> bool" where
  "is_sweep j = (case j of Sweep_Rest cs \<Rightarrow> True | _ \<Rightarrow> False)"

text \<open>\<open>shutdown\<close> cancels the sweep and drops the sessions that were there when it began.\<close>

definition shutdown_begin :: "plugin \<Rightarrow> plugin" where
  "shutdown_begin p = p\<lparr>pl_cleanup := False,
     pl_jobs := filter (\<lambda>j. \<not> is_sweep j) (pl_jobs p) @
       [Shutdown_Rest (remdups (map fst (pl_sessions p) @ map fst (pl_records p)))]\<rparr>"

fun pl_job_step :: "rat \<Rightarrow> (nat \<Rightarrow> bool) \<Rightarrow> rat \<Rightarrow> pl_job \<Rightarrow> plugin \<Rightarrow> plugin \<times> pl_effect list" where
  "pl_job_step dflt busy now (Register_Rest k sid lifetime ttl owner header) p =
     register_rest k sid lifetime ttl owner header [] now p"
| "pl_job_step dflt busy now (Sweep_Rest []) p = (p, [])"
| "pl_job_step dflt busy now (Sweep_Rest (c # cs)) p = (case sweep_one dflt busy now c p of
     (p1, fx) \<Rightarrow> (p1\<lparr>pl_jobs := pl_jobs p1 @ [Sweep_Rest cs]\<rparr>, fx))"
| "pl_job_step dflt busy now (Shutdown_Rest []) p = (p, [])"
| "pl_job_step dflt busy now (Shutdown_Rest (k # ks)) p = (case drop_session k p of
     (p1, fx) \<Rightarrow> (p1\<lparr>pl_jobs := pl_jobs p1 @ [Shutdown_Rest ks]\<rparr>, fx))"

section \<open>Actions\<close>

datatype pl_action =
    Register "pyval option" "string option" "string option" string rat
  | Unregister string rat
  | Request string "string option" rat
  | Returns nat rat
  | Notifies pyval rat
  | Sweeps rat
  | Shuts_Down
  | Runs_Job nat rat

fun pl_do :: "rat \<Rightarrow> (nat \<Rightarrow> bool) \<Rightarrow> pl_action \<Rightarrow> plugin \<Rightarrow> (plugin \<times> pl_effect list) option" where
  "pl_do dflt busy (Register body owner header mint now) p =
     (if take 8 mint \<noteq> ''session.'' \<or> dhas (pl_sessions p) (PStr mint) then None
      else Some (register_begin dflt busy body owner header mint now p))"
| "pl_do dflt busy (Unregister sid now) p = Some (unregister_begin dflt sid now p)"
| "pl_do dflt busy (Request sid header now) p = Some (request_begin dflt busy sid header now p)"
| "pl_do dflt busy (Returns q now) p = map_option (\<lambda>p'. (p', [])) (request_end q now p)"
| "pl_do dflt busy (Notifies k now) p = Some (touch_session k now p, [])"
| "pl_do dflt busy (Sweeps now) p =
     (if pl_cleanup p \<and> \<not> list_ex is_sweep (pl_jobs p)
      then Some (p\<lparr>pl_jobs := pl_jobs p @ [Sweep_Rest (sweep_due dflt now p)]\<rparr>, []) else None)"
| "pl_do dflt busy Shuts_Down p = Some (shutdown_begin p, [])"
| "pl_do dflt busy (Runs_Job i now) p =
     (if i < length (pl_jobs p)
      then Some (pl_job_step dflt busy now (pl_jobs p ! i) (p\<lparr>pl_jobs := take i (pl_jobs p) @ drop (Suc i) (pl_jobs p)\<rparr>))
      else None)"

fun pl_run :: "rat \<Rightarrow> (pl_action \<times> (nat \<Rightarrow> bool)) list \<Rightarrow> plugin \<Rightarrow> plugin option" where
  "pl_run dflt [] p = Some p"
| "pl_run dflt ((a, busy) # as) p = (case pl_do dflt busy a p of None \<Rightarrow> None | Some (p1, fx) \<Rightarrow> pl_run dflt as p1)"

definition pl_reachable :: "rat \<Rightarrow> plugin \<Rightarrow> bool" where
  "pl_reachable dflt p \<longleftrightarrow> (\<exists>as. pl_run dflt as new_plugin = Some p)"

end
