(* ===== verification/Plugin_Session_Safety.thy ===== *)
theory Plugin_Session_Safety
  imports Plugin_Sessions
begin

text \<open>
  What every sequence of requests, registrations, notifications, sweeps and shutdowns keeps of a plugin's session
  registry, and what ends a session.
\<close>

section \<open>The invariant\<close>

definition session_record_ok :: "session_record \<Rightarrow> bool" where
  "session_record_ok r \<longleftrightarrow> sr_lifetime r \<in> {''ephemeral'', ''ttl'', ''persistent''} \<and>
     (sr_lifetime r = ''ttl'' \<longrightarrow> (\<exists>t. sr_ttl r = Some t \<and> 0 < t))"

definition calls_on :: "nat \<Rightarrow> plugin \<Rightarrow> int" where
  "calls_on rid p = int (length (filter (\<lambda>(q, o'). o' = Some rid) (pl_running p)))"

text \<open>\<open>extra\<close> is the record of the request whose section is under way, between the increment of its counter and its
  entry in \<open>pl_running\<close>.\<close>

definition counts_ok :: "nat option \<Rightarrow> plugin \<Rightarrow> bool" where
  "counts_ok extra p \<longleftrightarrow>
     (\<forall>rid r. dget (pl_heap p) rid = Some r \<longrightarrow> sr_inflight r = calls_on rid p + (if extra = Some rid then 1 else 0)) \<and>
     (\<forall>(q, o') \<in> set (pl_running p). q < pl_next p \<and> (\<forall>rid. o' = Some rid \<longrightarrow> dhas (pl_heap p) rid)) \<and>
     (\<forall>rid. extra = Some rid \<longrightarrow> dhas (pl_heap p) rid) \<and> dict_ok (pl_running p)"

definition session_records_ok :: "plugin \<Rightarrow> bool" where
  "session_records_ok p \<longleftrightarrow> dict_ok (pl_records p) \<and>
     (\<forall>k. dhas (pl_sessions p) k \<longleftrightarrow> dhas (pl_records p) k) \<and>
     (\<forall>k rid. dget (pl_records p) k = Some rid \<longrightarrow> dhas (pl_heap p) rid) \<and>
     (\<forall>k k' rid. dget (pl_records p) k = Some rid \<longrightarrow> dget (pl_records p) k' = Some rid \<longrightarrow> k = k') \<and>
     (\<forall>rid r. dget (pl_heap p) rid = Some r \<longrightarrow> rid < pl_next p \<and> session_record_ok r) \<and>
     (\<forall>rid r. dget (pl_records p) DEFAULT_SID = Some rid \<longrightarrow> dget (pl_heap p) rid = Some r \<longrightarrow> sr_lifetime r = ''persistent'')"

definition ended_ok :: "plugin \<Rightarrow> bool" where
  "ended_ok p \<longleftrightarrow> length (pl_ended p) \<le> ENDED_KEEP \<and> dict_ok (pl_ended p) \<and>
     (\<forall>(k, e) \<in> set (pl_ended p). 0 < en_timeout e)"

definition job_ok :: "pl_job \<Rightarrow> bool" where
  "job_ok j = (case j of
     Register_Rest k sid lifetime ttl owner header \<Rightarrow> k \<noteq> DEFAULT_SID \<and> sid \<noteq> DEFAULT_SID \<and> sid \<noteq> PNone \<and>
       session_record_ok \<lparr>sr_lifetime = lifetime, sr_ttl = ttl, sr_owner = owner, sr_last_access = 0, sr_client = None, sr_inflight = 0\<rparr>
   | _ \<Rightarrow> True)"

definition pl_inv_at :: "nat option \<Rightarrow> plugin \<Rightarrow> bool" where
  "pl_inv_at extra p \<longleftrightarrow> session_records_ok p \<and> counts_ok extra p \<and> ended_ok p \<and> list_all job_ok (pl_jobs p)"

abbreviation pl_inv :: "plugin \<Rightarrow> bool" where
  "pl_inv \<equiv> pl_inv_at None"

lemma dhas_simps [simp]:
  "dhas (dset k v d) k' \<longleftrightarrow> k' = k \<or> dhas d k'" "dhas (dpop k d) k' \<longleftrightarrow> k' \<noteq> k \<and> dhas d k'" "\<not> dhas [] k"
  by (auto simp: dhas_def)

lemma dhasI: "dget d k = Some v \<Longrightarrow> dhas d k"
  by (simp add: dhas_def)

lemma dhasE: "dhas d k \<Longrightarrow> \<exists>v. dget d k = Some v"
  by (auto simp: dhas_def)

section \<open>Frame facts\<close>

lemma upd_rec_simps [simp]:
  "pl_sessions (upd_rec rid f p) = pl_sessions p" "pl_records (upd_rec rid f p) = pl_records p"
  "pl_ended (upd_rec rid f p) = pl_ended p" "pl_running (upd_rec rid f p) = pl_running p"
  "pl_jobs (upd_rec rid f p) = pl_jobs p" "pl_next (upd_rec rid f p) = pl_next p"
  "pl_cleanup (upd_rec rid f p) = pl_cleanup p"
  by (auto simp: upd_rec_def split: option.splits)

lemma upd_rec_heap: "dget (pl_heap (upd_rec rid f p)) rid' =
    (if rid' = rid then map_option f (dget (pl_heap p) rid) else dget (pl_heap p) rid')"
  by (auto simp: upd_rec_def split: option.splits)

lemma upd_rec_dhas [simp]: "dhas (pl_heap (upd_rec rid f p)) rid' = dhas (pl_heap p) rid'"
  by (auto simp: dhas_def upd_rec_heap)

lemma upd_rec_records:
  "session_records_ok p \<Longrightarrow> (\<And>r. sr_lifetime (f r) = sr_lifetime r \<and> sr_ttl (f r) = sr_ttl r) \<Longrightarrow> session_records_ok (upd_rec rid f p)"
  unfolding session_records_ok_def upd_rec_heap upd_rec_simps upd_rec_dhas session_record_ok_def
  by (auto simp: map_option_case split: option.splits if_splits)

lemma running_upd_rec [simp]: "calls_on rid (upd_rec rid' f p) = calls_on rid p"
  by (simp add: calls_on_def)

lemma upd_rec_same_count:
  "pl_inv_at extra p \<Longrightarrow> (\<And>r. sr_lifetime (f r) = sr_lifetime r \<and> sr_ttl (f r) = sr_ttl r \<and> sr_inflight (f r) = sr_inflight r) \<Longrightarrow>
   pl_inv_at extra (upd_rec rid f p)"
  using upd_rec_records [of p f rid]
  by (auto simp: pl_inv_at_def counts_ok_def ended_ok_def upd_rec_heap split: if_splits)

lemma touch_inv [simp]: "pl_inv_at extra p \<Longrightarrow> pl_inv_at extra (touch_session k now p)"
  by (auto simp: touch_session_def intro!: upd_rec_same_count split: option.splits)

lemma tag_inv [simp]: "pl_inv_at extra p \<Longrightarrow> pl_inv_at extra (tag_session k header p)"
  by (auto simp: tag_session_def tag_client_def Let_def intro!: upd_rec_same_count split: option.splits)

lemma upd_rec_enter:
  assumes "pl_inv_at None p" and "dhas (pl_heap p) rid"
    and "\<And>r. sr_lifetime (f r) = sr_lifetime r \<and> sr_ttl (f r) = sr_ttl r \<and> sr_inflight (f r) = sr_inflight r + 1"
  shows "pl_inv_at (Some rid) (upd_rec rid f p)"
  using assms(1,2) upd_rec_records [of p f rid] assms(3)
  by (auto simp: pl_inv_at_def counts_ok_def ended_ok_def upd_rec_heap split: if_splits)

lemma finish_access_inv: "pl_inv_at orid p \<Longrightarrow> pl_inv (finish_access orid now p)"
proof (cases orid)
  case (Some rid)
  assume inv: "pl_inv_at orid p"
  then have "session_records_ok (finish_access orid now p)"
    unfolding finish_access_def Some option.case by (intro upd_rec_records) (auto simp: pl_inv_at_def)
  then show ?thesis using inv Some
    by (auto simp: pl_inv_at_def counts_ok_def ended_ok_def finish_access_def upd_rec_heap split: if_splits)
qed (simp add: finish_access_def)

lemma record_session_inv:
  assumes inv: "pl_inv_at extra p"
    and ok: "session_record_ok \<lparr>sr_lifetime = lifetime, sr_ttl = ttl, sr_owner = owner, sr_last_access = 0, sr_client = None, sr_inflight = 0\<rparr>"
    and def: "k = DEFAULT_SID \<Longrightarrow> lifetime = ''persistent''"
  shows "pl_inv_at extra (record_session k lifetime ttl owner now p)"
proof -
  have new: "dget (pl_heap p) (pl_next p) = None"
    using inv unfolding pl_inv_at_def session_records_ok_def by (cases "dget (pl_heap p) (pl_next p)") auto
  then have fresh: "\<not> dhas (pl_heap p) (pl_next p)" by (simp add: dhas_def)
  have counts: "counts_ok extra p" using inv by (simp add: pl_inv_at_def)
  then have "\<forall>(q, o') \<in> set (pl_running p). o' \<noteq> Some (pl_next p)" using fresh by (auto simp: counts_ok_def)
  then have none: "calls_on (pl_next p) p = 0" "extra \<noteq> Some (pl_next p)"
    using counts fresh by (auto simp: counts_ok_def calls_on_def filter_empty_conv)
  have norec: "dget (pl_records p) k' \<noteq> Some (pl_next p)" for k'
    using inv new by (force simp: pl_inv_at_def session_records_ok_def dhas_def)
  have "session_records_ok (record_session k lifetime ttl owner now p)"
    using inv ok def norec unfolding session_records_ok_def pl_inv_at_def record_session_def Let_def
    by (auto simp: session_record_ok_def less_Suc_eq split: if_splits)
  moreover have "counts_ok extra (record_session k lifetime ttl owner now p)"
    using counts none unfolding counts_ok_def record_session_def Let_def
    by (auto simp: calls_on_def less_Suc_eq split: if_splits)
  ultimately show ?thesis using inv by (simp add: pl_inv_at_def ended_ok_def record_session_def Let_def)
qed

lemma drop_session_fields [simp]:
  "pl_heap (fst (drop_session k p)) = pl_heap p" "pl_ended (fst (drop_session k p)) = pl_ended p"
  "pl_running (fst (drop_session k p)) = pl_running p" "pl_jobs (fst (drop_session k p)) = pl_jobs p"
  "pl_records (fst (drop_session k p)) = dpop k (pl_records p)" "pl_sessions (fst (drop_session k p)) = dpop k (pl_sessions p)"
  "pl_next (fst (drop_session k p)) = pl_next p"
  by (simp_all add: drop_session_def)

lemma drop_session_inv: "pl_inv_at extra p \<Longrightarrow> pl_inv_at extra (fst (drop_session k p))"
  by (auto simp: pl_inv_at_def session_records_ok_def counts_ok_def ended_ok_def calls_on_def split: if_splits)

lemma remember_ended_fields [simp]:
  "pl_heap (remember_ended k e p) = pl_heap p" "pl_records (remember_ended k e p) = pl_records p"
  "pl_running (remember_ended k e p) = pl_running p" "pl_jobs (remember_ended k e p) = pl_jobs p"
  "pl_sessions (remember_ended k e p) = pl_sessions p" "pl_next (remember_ended k e p) = pl_next p"
  by (simp_all add: remember_ended_def Let_def)

lemma dict_ok_drop: "dict_ok d \<Longrightarrow> dict_ok (drop n d)"
  by (simp add: dict_ok_def drop_map [symmetric] distinct_drop)

lemma dict_ok_move_end: "dict_ok d \<Longrightarrow> dict_ok (dpop k d @ [(k, v)])"
  by (induction d) (auto simp: dict_ok_def AList.delete_eq)

lemma remember_ended_inv:
  assumes "pl_inv_at extra p" and "0 < en_timeout e"
  shows "pl_inv_at extra (remember_ended k e p)"
proof -
  let ?d = "dpop k (pl_ended p) @ [(k, e)]"
  have ok: "dict_ok (pl_ended p)" "\<forall>(k, e) \<in> set (pl_ended p). 0 < en_timeout e"
    using assms(1) by (auto simp: pl_inv_at_def ended_ok_def)
  have "\<forall>(k, e) \<in> set ?d. 0 < en_timeout e"
    using ok(2) assms(2) by (auto simp: AList.delete_eq)
  then have "\<forall>(k, e) \<in> set (drop (length ?d - ENDED_KEEP) ?d). 0 < en_timeout e"
    by (meson in_set_dropD)
  moreover have "dict_ok (drop (length ?d - ENDED_KEEP) ?d)"
    by (intro dict_ok_drop dict_ok_move_end ok(1))
  moreover have "length (drop (length ?d - ENDED_KEEP) ?d) \<le> ENDED_KEEP" by simp
  ultimately have "ended_ok (remember_ended k e p)"
    unfolding ended_ok_def remember_ended_def Let_def by simp
  then show ?thesis
    using assms(1) by (simp add: pl_inv_at_def session_records_ok_def counts_ok_def calls_on_def)
qed

lemma end_session_inv: "pl_inv_at extra p \<Longrightarrow> pl_inv_at extra (fst (end_session dflt k reason now p))"
  unfolding end_session_def by (rule drop_session_inv) (auto intro!: remember_ended_inv split: option.splits)

lemma expire_if_due_inv:
  "pl_inv_at extra p \<Longrightarrow> expire_if_due dflt busy k rid now p = (b, p', fx) \<Longrightarrow> pl_inv_at extra p'"
  using end_session_inv [of extra p dflt k "''expired''" now]
  by (auto simp: expire_if_due_def intro!: upd_rec_same_count split: option.splits if_splits prod.splits)

lemma ensure_default_inv [simp]: "pl_inv_at extra p \<Longrightarrow> pl_inv_at extra (ensure_default_session now p)"
  by (auto simp: ensure_default_session_def session_record_ok_def intro!: record_session_inv)

section \<open>Every operation keeps it\<close>

lemma persistent_never_expires [simp]: "sr_lifetime r = ''persistent'' \<Longrightarrow> \<not> session_expired dflt r now"
  by (simp add: session_expired_def expiry_deadline_def session_timeout_def)

lemma expire_cases:
  assumes "expire_if_due dflt busy k rid now p = (b, p', fx)"
  shows "(b \<and> (\<exists>r. dget (pl_heap p) rid = Some r \<and> session_expired dflt r now \<and> \<not> session_busy busy k r p) \<and>
           (p', fx) = end_session dflt k ''expired'' now p) \<or>
         (\<not> b \<and> fx = [] \<and> (p' = p \<or> p' = upd_rec rid (\<lambda>r. r\<lparr>sr_last_access := now\<rparr>) p))"
  using assms by (auto simp: expire_if_due_def split: option.splits if_splits)

lemma default_not_expired:
  "pl_inv_at extra p \<Longrightarrow> dget (pl_records p) DEFAULT_SID = Some rid \<Longrightarrow> dget (pl_heap p) rid = Some r \<Longrightarrow> \<not> session_expired dflt r now"
  by (rule persistent_never_expires) (simp add: pl_inv_at_def session_records_ok_def)

lemma validate_policy_ok:
  "validate_session_policy data = Inr (sid, lifetime, ttl) \<Longrightarrow>
   session_record_ok \<lparr>sr_lifetime = lifetime, sr_ttl = ttl, sr_owner = owner, sr_last_access = 0, sr_client = None, sr_inflight = 0\<rparr> \<and>
   (sid = DEFAULT_SID \<longrightarrow> lifetime = ''persistent'')"
  by (auto simp: validate_session_policy_def Let_def session_record_ok_def split: if_splits sum.splits option.splits pyfloat.splits)

lemma hash_key_default: "hash_key sid = Some DEFAULT_SID \<Longrightarrow> sid = DEFAULT_SID"
  by (cases sid) (auto simp: DEFAULT_SID_def)

lemma open_session_inv:
  assumes "pl_inv p"
    and ok: "session_record_ok \<lparr>sr_lifetime = lifetime, sr_ttl = ttl, sr_owner = owner, sr_last_access = 0, sr_client = None, sr_inflight = 0\<rparr>"
    and keys: "sid = PNone \<Longrightarrow> PStr mint \<noteq> DEFAULT_SID" "sid \<noteq> DEFAULT_SID \<Longrightarrow> k \<noteq> DEFAULT_SID"
  shows "pl_inv (fst (open_plugin_session k sid lifetime ttl owner header mint now p))"
  using assms by (auto simp: open_plugin_session_def Let_def intro!: tag_inv touch_inv record_session_inv)

lemma register_rest_inv:
  assumes "pl_inv p"
    and ok: "session_record_ok \<lparr>sr_lifetime = lifetime, sr_ttl = ttl, sr_owner = owner, sr_last_access = 0, sr_client = None, sr_inflight = 0\<rparr>"
    and keys: "sid = PNone \<Longrightarrow> PStr mint \<noteq> DEFAULT_SID" "sid \<noteq> DEFAULT_SID \<Longrightarrow> k \<noteq> DEFAULT_SID"
  shows "pl_inv (fst (register_rest k sid lifetime ttl owner header mint now p))"
  using open_session_inv [OF assms] assms(1) by (simp add: register_rest_def)

lemma add_pl_job_inv: "pl_inv_at extra p \<Longrightarrow> list_all job_ok (pl_jobs p') \<Longrightarrow> p' = p\<lparr>pl_jobs := pl_jobs p'\<rparr> \<Longrightarrow> pl_inv_at extra p'"
  by (cases p; cases p') (simp add: pl_inv_at_def session_records_ok_def counts_ok_def ended_ok_def calls_on_def)

text \<open>The four ways a registration goes.\<close>

lemma register_begin_cases:
  obtains (refused) "fst (register_begin dflt busy body owner header mint now p) = p\<lparr>pl_cleanup := True\<rparr>"
  | (unknown) k sid lifetime ttl data where
      "register_begin dflt busy body owner header mint now p =
         register_rest k sid lifetime ttl owner header mint now (p\<lparr>pl_cleanup := True\<rparr>)"
      "validate_session_policy data = Inr (sid, lifetime, ttl)" "hash_key sid = Some k"
      "sid \<noteq> PNone \<longrightarrow> dget (pl_records p) k = None"
  | (expired) k sid lifetime ttl rid p1 fx data where
      "expire_if_due dflt busy k rid now (p\<lparr>pl_cleanup := True\<rparr>) = (True, p1, fx)" "dget (pl_records p) k = Some rid"
      "fst (register_begin dflt busy body owner header mint now p) =
         p1\<lparr>pl_jobs := pl_jobs p1 @ [Register_Rest k sid lifetime ttl owner header]\<rparr>"
      "validate_session_policy data = Inr (sid, lifetime, ttl)" "hash_key sid = Some k" "sid \<noteq> PNone"
  | (alive) k sid lifetime ttl rid p1 fx data where
      "expire_if_due dflt busy k rid now (p\<lparr>pl_cleanup := True\<rparr>) = (False, p1, fx)" "dget (pl_records p) k = Some rid"
      "register_begin dflt busy body owner header mint now p = register_rest k sid lifetime ttl owner header mint now p1"
      "validate_session_policy data = Inr (sid, lifetime, ttl)" "hash_key sid = Some k" "sid \<noteq> PNone"
proof -
  let ?p = "p\<lparr>pl_cleanup := True\<rparr>"
  let ?data = "case body of Some (PDict d) \<Rightarrow> d | _ \<Rightarrow> []"
  note register_begin_def [simp] Let_def [simp]
  show ?thesis
  proof (cases "validate_session_policy ?data")
    case (Inl e)
    then show ?thesis by (intro refused) simp
  next
    case (Inr res)
    obtain sid lifetime ttl where res: "res = (sid, lifetime, ttl)" by (cases res)
    show ?thesis
    proof (cases "hash_key sid")
      case None
      then show ?thesis using Inr res by (intro refused) simp
    next
      case (Some k)
      show ?thesis
      proof (cases "if sid = PNone then None else dget (pl_records ?p) k")
        case None
        show ?thesis
          by (rule unknown [of k sid lifetime ttl ?data]) (use None Inr res Some in \<open>auto split: if_splits\<close>)
      next
        case rid: (Some rid)
        obtain b p1 fx where e: "expire_if_due dflt busy k rid now ?p = (b, p1, fx)" by (cases "expire_if_due dflt busy k rid now ?p")
        from rid have rec: "sid \<noteq> PNone" "dget (pl_records p) k = Some rid" by (auto split: if_splits)
        show ?thesis
          by (cases b, rule expired [of k rid p1 fx sid lifetime ttl ?data], use Inr res Some rec e in auto,
              rule alive [of k rid p1 fx sid lifetime ttl ?data], use Inr res Some rec e in auto)
      qed
    qed
  qed
qed

lemma register_begin_inv:
  assumes inv: "pl_inv p" and mint: "take 8 mint = ''session.''"
  shows "pl_inv (fst (register_begin dflt busy body owner header mint now p))"
proof -
  have inv0: "pl_inv (p\<lparr>pl_cleanup := True\<rparr>)"
    using inv by (simp add: pl_inv_at_def session_records_ok_def counts_ok_def ended_ok_def calls_on_def)
  have "PStr mint \<noteq> DEFAULT_SID" using mint by (auto simp: DEFAULT_SID_def)
  then have rest: "pl_inv (fst (register_rest k sid lifetime ttl owner header mint now p'))"
    if "pl_inv p'" "validate_session_policy data = Inr (sid, lifetime, ttl)" "hash_key sid = Some k" for p' data sid k lifetime ttl
    using that hash_key_default by (intro register_rest_inv validate_policy_ok [THEN conjunct1]) auto
  show ?thesis
  proof (cases dflt busy body owner header mint now p rule: register_begin_cases)
    case refused
    then show ?thesis using inv0 by simp
  next
    case unknown
    then show ?thesis using rest [OF inv0] by simp
  next
    case (expired k sid lifetime ttl rid p1 fx data)
    have inv1: "pl_inv p1" by (rule expire_if_due_inv [OF inv0 expired(1)])
    have "k \<noteq> DEFAULT_SID"
      using expire_cases [OF expired(1)] expired(2) default_not_expired [OF inv0, of rid] by auto
    moreover from this have "sid \<noteq> DEFAULT_SID" using expired(5) by (auto simp: DEFAULT_SID_def)
    moreover note validate_policy_ok [OF expired(4), THEN conjunct1, of owner]
    ultimately have "job_ok (Register_Rest k sid lifetime ttl owner header)" using expired(6) by (simp add: job_ok_def)
    then show ?thesis unfolding expired(3) using inv1 by (intro add_pl_job_inv [OF inv1]) (simp_all add: pl_inv_at_def)
  next
    case alive
    then show ?thesis using rest [OF expire_if_due_inv [OF inv0 alive(1)]] by simp
  qed
qed

lemma forward_begin_inv:
  "pl_inv_at extra p \<Longrightarrow> forward_begin dflt busy k now p = (res, p', fx) \<Longrightarrow> pl_inv_at extra p'"
  by (auto simp: forward_begin_def Let_def intro: expire_if_due_inv split: option.splits if_splits bool.splits prod.splits
      dest!: expire_if_due_inv [rotated])

lemma add_running_inv:
  assumes "pl_inv_at orid p"
  shows "pl_inv (p\<lparr>pl_running := pl_running p @ [(pl_next p, orid)], pl_next := Suc (pl_next p)\<rparr>)"
proof -
  have "pl_next p \<notin> fst ` set (pl_running p)" using assms by (auto simp: pl_inv_at_def counts_ok_def)
  then have "dict_ok (pl_running p @ [(pl_next p, orid)])"
    using assms by (auto simp: pl_inv_at_def counts_ok_def dict_ok_def)
  then show ?thesis
    using assms by (fastforce simp: pl_inv_at_def counts_ok_def session_records_ok_def ended_ok_def calls_on_def)
qed

lemma serve_request_inv: "pl_inv_at orid p \<Longrightarrow> pl_inv (fst (serve_request dflt busy k orid now p))"
  unfolding serve_request_def
  by (auto split: prod.splits sum.splits intro!: finish_access_inv add_running_inv dest: forward_begin_inv)

lemma request_begin_inv:
  assumes inv: "pl_inv p"
  shows "pl_inv (fst (request_begin dflt busy sid header now p))"
proof (cases "dget (pl_records p) (PStr sid)")
  case None
  then show ?thesis using inv serve_request_inv [OF inv] by (simp add: request_begin_def Let_def)
next
  case (Some rid)
  obtain b p1 fx where e: "expire_if_due dflt busy (PStr sid) rid now p = (b, p1, fx)"
    by (cases "expire_if_due dflt busy (PStr sid) rid now p")
  note inv1 = expire_if_due_inv [OF inv e]
  have "dhas (pl_heap p) rid" using inv Some by (auto simp: pl_inv_at_def session_records_ok_def)
  then have "\<not> b \<Longrightarrow> dhas (pl_heap p1) rid" using expire_cases [OF e] by auto
  then have "\<not> b \<Longrightarrow> pl_inv_at (Some rid) (upd_rec rid (\<lambda>r. (tag_client header r)\<lparr>sr_inflight := sr_inflight r + 1\<rparr>) p1)"
    by (intro upd_rec_enter [OF inv1]) (auto simp: tag_client_def Let_def)
  then show ?thesis using serve_request_inv inv1 Some e
    by (cases b) (auto simp: request_begin_def Let_def case_prod_unfold)
qed

lemma length_filter_dpop:
  "dict_ok d \<Longrightarrow> dget d q = Some v \<Longrightarrow> length (filter P d) = length (filter P (dpop q d)) + (if P (q, v) then 1 else 0)"
proof (induction d)
  case (Cons x xs)
  obtain k w where x: "x = (k, w)" by (cases x)
  have "k = q \<Longrightarrow> dpop q xs = xs"
    using Cons.prems(1) x by (simp add: dict_ok_def delete_notin_dom)
  moreover have "dict_ok xs" using Cons.prems(1) by (simp add: dict_ok_def)
  ultimately show ?case using Cons x by (cases "k = q") auto
qed simp

lemma request_end_inv:
  assumes inv: "pl_inv p" and e: "request_end q now p = Some p'"
  shows "pl_inv p'"
proof -
  obtain orid where q: "dget (pl_running p) q = Some orid" and p': "p' = finish_access orid now (p\<lparr>pl_running := dpop q (pl_running p)\<rparr>)"
    using e by (auto simp: request_end_def)
  have d: "dict_ok (pl_running p)" using inv by (simp add: pl_inv_at_def counts_ok_def)
  have "length (filter (\<lambda>(q, o'). o' = Some rid) (pl_running p)) =
      length (filter (\<lambda>(q, o'). o' = Some rid) (dpop q (pl_running p))) + (if orid = Some rid then 1 else 0)" for rid
    using length_filter_dpop [OF d q, of "\<lambda>(q, o'). o' = Some rid"] by simp
  then have "calls_on rid p = calls_on rid (p\<lparr>pl_running := dpop q (pl_running p)\<rparr>) + (if orid = Some rid then 1 else 0)" for rid
    by (simp add: calls_on_def)
  moreover have "\<And>rid. orid = Some rid \<Longrightarrow> dhas (pl_heap p) rid"
    using inv map_of_SomeD [OF q] by (auto simp: pl_inv_at_def counts_ok_def)
  moreover have "\<forall>(q', o') \<in> set (dpop q (pl_running p)). q' < pl_next p \<and> (\<forall>rid. o' = Some rid \<longrightarrow> dhas (pl_heap p) rid)"
    using inv by (auto simp: pl_inv_at_def counts_ok_def AList.delete_eq)
  ultimately have "pl_inv_at orid (p\<lparr>pl_running := dpop q (pl_running p)\<rparr>)"
    using inv d by (auto simp: pl_inv_at_def counts_ok_def session_records_ok_def ended_ok_def)
  then show ?thesis unfolding p' by (rule finish_access_inv)
qed

lemma sweep_one_inv:
  assumes "pl_inv p" shows "pl_inv (fst (sweep_one dflt busy now c p))"
proof -
  obtain k rid where c: "c = (k, rid)" by (cases c)
  obtain b p1 fx where e: "expire_if_due dflt busy k rid now p = (b, p1, fx)" by (cases "expire_if_due dflt busy k rid now p")
  then show ?thesis using expire_if_due_inv [OF assms e] assms by (simp add: sweep_one_def c)
qed

lemma unregister_begin_inv: "pl_inv p \<Longrightarrow> pl_inv (fst (unregister_begin dflt sid now p))"
  using end_session_inv [of None p dflt "PStr sid" "''closed''" now]
  by (auto simp: unregister_begin_def split: prod.splits)

lemma jobs_inv: "pl_inv_at extra p \<Longrightarrow> list_all job_ok js \<Longrightarrow> pl_inv_at extra (p\<lparr>pl_jobs := js\<rparr>)"
  by (rule add_pl_job_inv) auto

lemma inv_jobs: "pl_inv_at extra p \<Longrightarrow> list_all job_ok (pl_jobs p)"
  by (simp add: pl_inv_at_def)

lemma job_ok_simps [simp]: "job_ok (Sweep_Rest cs)" "job_ok (Shutdown_Rest ks)"
  by (simp_all add: job_ok_def)

lemma shutdown_begin_inv: "pl_inv p \<Longrightarrow> pl_inv (shutdown_begin p)"
  by (auto simp: shutdown_begin_def pl_inv_at_def session_records_ok_def counts_ok_def ended_ok_def calls_on_def job_ok_def list_all_iff)

lemma pl_job_step_inv:
  assumes "pl_inv p" and "job_ok j"
  shows "pl_inv (fst (pl_job_step dflt busy now j p))"
proof (cases "(dflt, busy, now, j, p)" rule: pl_job_step.cases)
  case (1 dflt' busy' now' k sid lifetime ttl owner header p')
  then show ?thesis using assms by (auto simp: job_ok_def intro!: register_rest_inv)
next
  case (3 dflt' busy' now' c cs p')
  have inv: "pl_inv (fst (sweep_one dflt busy now c p))" by (rule sweep_one_inv) (rule assms)
  then have "list_all job_ok (pl_jobs (fst (sweep_one dflt busy now c p)))" by (simp add: pl_inv_at_def)
  with inv 3 show ?thesis by (auto simp: case_prod_unfold job_ok_def intro!: jobs_inv)
next
  case (5 dflt' busy' now' k ks p')
  have inv: "pl_inv (fst (drop_session k p))" by (rule drop_session_inv) (rule assms)
  then have "list_all job_ok (pl_jobs p)" by (simp add: pl_inv_at_def)
  with inv 5 show ?thesis by (auto simp: case_prod_unfold job_ok_def intro!: jobs_inv)
qed (use assms in auto)

lemma pl_do_inv: "pl_inv p \<Longrightarrow> pl_do dflt busy a p = Some (p', fx) \<Longrightarrow> pl_inv p'"
proof (cases a)
  case (Register body owner header mint now)
  assume "pl_inv p" "pl_do dflt busy a p = Some (p', fx)"
  then show ?thesis using register_begin_inv [of p mint dflt busy body owner header now] Register by (auto split: if_splits)
next
  case (Unregister sid now)
  assume "pl_inv p" "pl_do dflt busy a p = Some (p', fx)"
  then show ?thesis using unregister_begin_inv [of p dflt sid now] Unregister by auto
next
  case (Request sid header now)
  assume "pl_inv p" "pl_do dflt busy a p = Some (p', fx)"
  then show ?thesis using request_begin_inv [of p dflt busy sid header now] Request by auto
next
  case (Runs_Job i now)
  assume inv: "pl_inv p" and d: "pl_do dflt busy a p = Some (p', fx)"
  from d Runs_Job have i: "i < length (pl_jobs p)" by (auto split: if_splits)
  have jobs: "list_all job_ok (pl_jobs p)" using inv by (simp add: pl_inv_at_def)
  then have "job_ok (pl_jobs p ! i)" "list_all job_ok (take i (pl_jobs p) @ drop (Suc i) (pl_jobs p))"
    using i by (auto simp: list_all_iff dest: in_set_takeD in_set_dropD)
  then show ?thesis using pl_job_step_inv [OF jobs_inv [OF inv]] d Runs_Job i
    by (metis fst_conv option.inject pl_do.simps(8))
qed (auto intro: request_end_inv shutdown_begin_inv touch_inv intro!: jobs_inv dest: inv_jobs split: if_splits)

lemma pl_run_inv: "pl_inv p \<Longrightarrow> pl_run dflt as p = Some p' \<Longrightarrow> pl_inv p'"
  by (induction dflt as p rule: pl_run.induct) (auto split: option.splits prod.splits dest: pl_do_inv)

lemma new_registry_inv: "pl_inv new_plugin"
  by (simp add: new_plugin_def pl_inv_at_def session_records_ok_def counts_ok_def ended_ok_def)

lemma pl_reachable_inv: "pl_reachable dflt p \<Longrightarrow> pl_inv p"
  using pl_run_inv [OF new_registry_inv] by (auto simp: pl_reachable_def)

section \<open>Only an idle session expires\<close>

text \<open>A session that has a request running, whose probe says busy, or that has no timeout.\<close>

definition active :: "rat \<Rightarrow> (nat \<Rightarrow> bool) \<Rightarrow> pyval \<Rightarrow> nat \<Rightarrow> nat \<Rightarrow> plugin \<Rightarrow> bool" where
  "active dflt busy k rid obj p \<longleftrightarrow> dget (pl_records p) k = Some rid \<and> dget (pl_sessions p) k = Some obj \<and> rid < pl_next p \<and>
     (\<exists>r. dget (pl_heap p) rid = Some r \<and> (0 < sr_inflight r \<or> busy obj \<or> session_timeout dflt r \<le> 0))"

lemma activeI:
  "pl_inv_at extra p \<Longrightarrow> dget (pl_records p) k = Some rid \<Longrightarrow> dget (pl_heap p) rid = Some r \<Longrightarrow> dget (pl_sessions p) k = Some obj \<Longrightarrow>
   0 < sr_inflight r \<or> busy obj \<or> session_timeout dflt r \<le> 0 \<Longrightarrow> active dflt busy k rid obj p"
  by (auto simp: active_def pl_inv_at_def session_records_ok_def)

lemma active_upd:
  "active dflt busy k rid obj p \<Longrightarrow> (\<And>r. sr_lifetime (f r) = sr_lifetime r \<and> sr_ttl (f r) = sr_ttl r \<and> sr_inflight r \<le> sr_inflight (f r)) \<Longrightarrow>
   active dflt busy k rid obj (upd_rec rid' f p)"
  unfolding active_def upd_rec_heap upd_rec_simps session_timeout_def
  by (auto simp: intro: less_le_trans)

lemma active_touch [simp]: "active dflt busy k rid obj p \<Longrightarrow> active dflt busy k rid obj (touch_session k' now p)"
  by (auto simp: touch_session_def intro!: active_upd split: option.splits)

lemma active_tag [simp]: "active dflt busy k rid obj p \<Longrightarrow> active dflt busy k rid obj (tag_session k' header p)"
  by (auto simp: tag_session_def tag_client_def Let_def intro!: active_upd split: option.splits)

lemma active_jobs [simp]:
  "active dflt busy k rid obj (p\<lparr>pl_jobs := js\<rparr>) = active dflt busy k rid obj p"
  "active dflt busy k rid obj (p\<lparr>pl_cleanup := c\<rparr>) = active dflt busy k rid obj p"
  "active dflt busy k rid obj (p\<lparr>pl_running := rs\<rparr>) = active dflt busy k rid obj p"
  by (simp_all add: active_def)

lemma active_record:
  "active dflt busy k rid obj p \<Longrightarrow> \<not> dhas (pl_sessions p) k' \<Longrightarrow>
   active dflt busy k rid obj (record_session k' lifetime ttl owner now p)"
  by (auto simp: active_def record_session_def Let_def dhas_def)

lemma active_default [simp]: "active dflt busy k rid obj p \<Longrightarrow> active dflt busy k rid obj (ensure_default_session now p)"
  by (simp add: ensure_default_session_def active_record)

lemma active_end_other:
  "active dflt busy k rid obj p \<Longrightarrow> k' \<noteq> k \<Longrightarrow> active dflt busy k rid obj (fst (end_session dflt k' reason now p))"
  by (auto simp: active_def end_session_def split: option.splits)

lemma active_drop_other:
  "active dflt busy k rid obj p \<Longrightarrow> k' \<noteq> k \<Longrightarrow> active dflt busy k rid obj (fst (drop_session k' p))"
  by (simp add: active_def)

lemma no_timeout_no_expiry: "session_timeout dflt r \<le> 0 \<Longrightarrow> \<not> session_expired dflt r now"
  by (simp add: session_expired_def expiry_deadline_def Let_def)

lemma active_expire:
  assumes act: "active dflt busy k rid obj p" and e: "expire_if_due dflt busy k' rid' now p = (b, p1, fx)"
    and rid': "dget (pl_records p) k' = Some rid'"
  shows "active dflt busy k rid obj p1 \<and> (k' = k \<longrightarrow> \<not> b)"
proof (cases b)
  case True
  with expire_cases [OF e] obtain r where r: "dget (pl_heap p) rid' = Some r" "session_expired dflt r now"
      "\<not> session_busy busy k' r p" and p1: "(p1, fx) = end_session dflt k' ''expired'' now p" by auto
  have "k' \<noteq> k"
    using act rid' r no_timeout_no_expiry [of dflt r now] by (auto simp: active_def session_busy_def)
  moreover have "p1 = fst (end_session dflt k' ''expired'' now p)" by (metis p1 fst_conv)
  ultimately show ?thesis using active_end_other [OF act] by simp
next
  case False
  with expire_cases [OF e] show ?thesis using act by (auto intro!: active_upd)
qed

lemma active_open: "active dflt busy k rid obj p \<Longrightarrow> active dflt busy k rid obj (fst (open_plugin_session k' sid lifetime ttl owner header mint now p))"
  by (auto simp: open_plugin_session_def Let_def intro!: active_tag active_record)

lemma active_register_rest:
  "active dflt busy k rid obj p \<Longrightarrow> active dflt busy k rid obj (fst (register_rest k' sid lifetime ttl owner header mint now p))"
  by (simp add: register_rest_def active_open)

lemma active_register_begin:
  assumes "active dflt busy k rid obj p"
  shows "active dflt busy k rid obj (fst (register_begin dflt busy body owner header mint now p))"
proof -
  have act: "active dflt busy k rid obj (p\<lparr>pl_cleanup := True\<rparr>)" using assms by simp
  show ?thesis
  proof (cases dflt busy body owner header mint now p rule: register_begin_cases)
    case expired
    then show ?thesis using active_expire [OF act expired(1)] by simp
  next
    case alive
    then show ?thesis using active_expire [OF act alive(1)] by (simp add: active_register_rest)
  qed (simp_all add: assms active_register_rest)
qed

lemma active_forward:
  assumes "active dflt busy k rid obj p" and f: "forward_begin dflt busy k' now p = (res, p', fx)"
  shows "active dflt busy k rid obj p'"
proof -
  let ?p = "if k' = DEFAULT_SID then ensure_default_session now p else p"
  have act: "active dflt busy k rid obj ?p" using assms(1) by simp
  show ?thesis
    using f act active_expire [OF act]
    by (auto simp: forward_begin_def Let_def split: option.splits prod.splits bool.splits)
qed

lemma finish_access_keeps [simp]:
  "pl_records (finish_access orid now p) = pl_records p" "pl_sessions (finish_access orid now p) = pl_sessions p"
  by (simp_all add: finish_access_def split: option.splits)

definition kept :: "pyval \<Rightarrow> nat \<Rightarrow> nat \<Rightarrow> plugin \<Rightarrow> bool" where
  "kept k rid obj p \<longleftrightarrow> dget (pl_records p) k = Some rid \<and> dget (pl_sessions p) k = Some obj"

lemma active_kept: "active dflt busy k rid obj p \<Longrightarrow> kept k rid obj p"
  by (simp add: active_def kept_def)

lemma active_serve: "active dflt busy k rid obj p \<Longrightarrow> kept k rid obj (fst (serve_request dflt busy k' orid now p))"
  by (auto simp: serve_request_def kept_def active_def split: prod.splits sum.splits dest!: active_forward [rotated])

lemma active_request_begin:
  assumes act: "active dflt busy k rid obj p"
  shows "kept k rid obj (fst (request_begin dflt busy sid header now p))"
proof (cases "dget (pl_records p) (PStr sid)")
  case None
  then show ?thesis using act active_serve [OF act] by (simp add: request_begin_def Let_def active_kept)
next
  case (Some rid')
  obtain b p1 fx where e: "expire_if_due dflt busy (PStr sid) rid' now p = (b, p1, fx)"
    by (cases "expire_if_due dflt busy (PStr sid) rid' now p")
  have act1: "active dflt busy k rid obj p1" using active_expire [OF act e Some] by blast
  have "active dflt busy k rid obj (upd_rec rid' (\<lambda>r. (tag_client header r)\<lparr>sr_inflight := sr_inflight r + 1\<rparr>) p1)"
    by (rule active_upd [OF act1]) (simp add: tag_client_def Let_def)
  then show ?thesis using Some e active_serve active_kept [OF act1]
    by (cases b) (auto simp: request_begin_def Let_def case_prod_unfold)
qed

lemma active_job_step:
  assumes act: "active dflt busy k rid obj p" and "\<forall>ks. j \<noteq> Shutdown_Rest (k # ks)"
  shows "kept k rid obj (fst (pl_job_step dflt busy now j p))"
proof (cases "(dflt, busy, now, j, p)" rule: pl_job_step.cases)
  case (1 dflt' busy' now' k' sid lifetime ttl owner header p')
  then show ?thesis using active_register_rest [OF act] by (auto intro!: active_kept)
next
  case (3 dflt' busy' now' c cs p')
  obtain k' rid' where c: "c = (k', rid')" by (cases c)
  obtain b p1 fx where e: "expire_if_due dflt busy k' rid' now p = (b, p1, fx)"
    by (cases "expire_if_due dflt busy k' rid' now p")
  then have "kept k rid obj (fst (sweep_one dflt busy now c p))"
    using active_expire [OF act e] act by (auto simp: sweep_one_def c intro!: active_kept)
  then show ?thesis using 3 by (simp add: kept_def case_prod_unfold)
next
  case (5 dflt' busy' now' k' ks p')
  then have "k' \<noteq> k" using assms(2) by auto
  from active_kept [OF active_drop_other [OF act this]] show ?thesis using 5 by (auto simp: kept_def case_prod_unfold split: if_splits)
qed (use active_kept [OF act] in auto)

text \<open>C33. A session that has a request running, whose probe says busy, or that has no timeout, keeps its object and its
  record through every action, of any request, registration, sweep or job, except the unregistration of its own id and
  the shutdown's step for it.\<close>

theorem active_session_kept:
  assumes reach: "pl_reachable dflt p" and d: "pl_do dflt busy a p = Some (p', fx)"
    and rec: "dget (pl_records p) k = Some rid" "dget (pl_heap p) rid = Some r" "dget (pl_sessions p) k = Some obj"
    and act: "0 < sr_inflight r \<or> busy obj \<or> session_timeout dflt r \<le> 0"
    and "\<forall>sid now. a = Unregister sid now \<longrightarrow> PStr sid \<noteq> k"
    and "\<forall>i now ks. a = Runs_Job i now \<longrightarrow> i < length (pl_jobs p) \<longrightarrow> pl_jobs p ! i \<noteq> Shutdown_Rest (k # ks)"
  shows "dget (pl_records p') k = Some rid \<and> dget (pl_sessions p') k = Some obj"
proof -
  have act: "active dflt busy k rid obj p"
    using activeI [OF pl_reachable_inv [OF reach] rec, where busy = busy and dflt = dflt] act by blast
  have "kept k rid obj p'"
  proof (cases a)
    case (Register body owner header mint now)
    then have "p' = fst (register_begin dflt busy body owner header mint now p)" using d by (auto split: if_splits)
    then show ?thesis using active_kept [OF active_register_begin [OF act]] by simp
  next
    case (Unregister sid now)
    then have "PStr sid \<noteq> k" using assms(7) by auto
    then show ?thesis using d Unregister active_kept [OF active_end_other [OF act, of "PStr sid" "''closed''" now]] active_kept [OF act]
      by (auto simp: unregister_begin_def split: if_splits prod.splits)
  next
    case (Request sid header now)
    then have "p' = fst (request_begin dflt busy sid header now p)" using d by auto
    then show ?thesis using active_request_begin [OF act] by simp
  next
    case (Returns q now)
    then show ?thesis using d active_kept [OF act] by (auto simp: request_end_def kept_def)
  next
    case (Notifies k' now)
    then show ?thesis using d active_kept [OF active_touch [OF act, of k' now]] by simp
  next
    case (Runs_Job i now)
    have "active dflt busy k rid obj (p\<lparr>pl_jobs := take i (pl_jobs p) @ drop (Suc i) (pl_jobs p)\<rparr>)" using act by simp
    then have "kept k rid obj (fst (pl_job_step dflt busy now (pl_jobs p ! i)
        (p\<lparr>pl_jobs := take i (pl_jobs p) @ drop (Suc i) (pl_jobs p)\<rparr>)))"
      using d Runs_Job assms(8) by (intro active_job_step) (auto split: if_splits)
    then show ?thesis using d Runs_Job by (auto split: if_splits)
  qed (use d active_kept [OF act] in \<open>auto simp: kept_def shutdown_begin_def split: if_splits\<close>)
  then show ?thesis by (simp add: kept_def)
qed

section \<open>An ended session stays ended\<close>

text \<open>How many sessions have ended since the one of a key.\<close>

definition younger :: "pyval \<Rightarrow> (pyval \<times> ended_entry) list \<Rightarrow> nat" where
  "younger k d = length (takeWhile (\<lambda>x. fst x \<noteq> k) (rev d))"

definition gone :: "pyval \<Rightarrow> plugin \<Rightarrow> bool" where
  "gone k p \<longleftrightarrow> \<not> dhas (pl_records p) k \<and> \<not> dhas (pl_sessions p) k"

definition quiet :: "pyval \<Rightarrow> plugin \<Rightarrow> plugin \<Rightarrow> bool" where
  "quiet k p p' \<longleftrightarrow> pl_ended p' = pl_ended p \<and> gone k p'"

text \<open>What one action may do to the memory while \<open>k\<close> is gone: end at most one other session.\<close>

definition aged :: "pyval \<Rightarrow> plugin \<Rightarrow> plugin \<Rightarrow> bool" where
  "aged k p p' \<longleftrightarrow> gone k p' \<and> (pl_ended p' = pl_ended p \<or>
     (\<exists>k' e. k' \<noteq> k \<and> pl_ended p' = pl_ended (remember_ended k' e p)))"

lemma quiet_aged: "quiet k p p' \<Longrightarrow> aged k p p'"
  by (simp add: quiet_def aged_def)

lemma gone_simps [simp]:
  "gone k (upd_rec rid f p) = gone k p" "gone k (touch_session k' now p) = gone k p" "gone k (tag_session k' header p) = gone k p"
  "gone k (p\<lparr>pl_jobs := js\<rparr>) = gone k p" "gone k (p\<lparr>pl_cleanup := c\<rparr>) = gone k p" "gone k (p\<lparr>pl_running := rs\<rparr>) = gone k p"
  "gone k (finish_access orid now p) = gone k p" "gone k (record_session k' lifetime ttl owner now p) \<longleftrightarrow> k' \<noteq> k \<and> gone k p"
  by (auto simp: gone_def touch_session_def tag_session_def record_session_def Let_def split: option.splits)

lemma ended_simps [simp]:
  "pl_ended (touch_session k' now p) = pl_ended p" "pl_ended (tag_session k' header p) = pl_ended p"
  "pl_ended (finish_access orid now p) = pl_ended p" "pl_ended (record_session k' lifetime ttl owner now p) = pl_ended p"
  "pl_ended (ensure_default_session now p) = pl_ended p"
  by (auto simp: touch_session_def tag_session_def finish_access_def record_session_def ensure_default_session_def Let_def
      split: option.splits)

lemma gone_default [simp]: "k \<noteq> DEFAULT_SID \<Longrightarrow> gone k (ensure_default_session now p) = gone k p"
  by (auto simp: ensure_default_session_def)

lemma shutdown_simps [simp]:
  "gone k (shutdown_begin p) = gone k p" "pl_ended (shutdown_begin p) = pl_ended p"
  by (simp_all add: shutdown_begin_def gone_def)

lemma end_session_aged: "gone k p \<Longrightarrow> k' \<noteq> k \<Longrightarrow> aged k p (fst (end_session dflt k' reason now p))"
  by (auto simp: aged_def gone_def end_session_def split: option.splits)

lemma expire_aged:
  assumes "gone k p" and e: "expire_if_due dflt busy k' rid now p = (b, p1, fx)" and rec: "dget (pl_records p) k' = Some rid"
  shows "aged k p p1 \<and> (\<not> b \<longrightarrow> quiet k p p1)"
proof -
  have "k' \<noteq> k" using assms(1) rec by (auto simp: gone_def dhas_def)
  note aged = end_session_aged [OF assms(1) this, of dflt "''expired''" now]
  show ?thesis
  proof (cases b)
    case True
    with expire_cases [OF e] have "(p1, fx) = end_session dflt k' ''expired'' now p" by blast
    then have "p1 = fst (end_session dflt k' ''expired'' now p)" by (metis fst_conv)
    then show ?thesis using aged True by simp
  next
    case False
    then show ?thesis using expire_cases [OF e] assms(1) by (auto simp: quiet_def aged_def)
  qed
qed

text \<open>The second expiry check of a request, in \<open>_forward\<close>, never ends a session: the request itself counts.\<close>

lemma forward_begin_quiet:
  assumes "gone k p" and "k \<noteq> DEFAULT_SID"
    and counted: "\<And>rid r. dget (pl_records p) k' = Some rid \<Longrightarrow> dget (pl_heap p) rid = Some r \<Longrightarrow> 0 < sr_inflight r"
    and f: "forward_begin dflt busy k' now p = (res, p', fx)"
  shows "quiet k p p'"
proof -
  let ?p = "if k' = DEFAULT_SID then ensure_default_session now p else p"
  have g: "gone k ?p" "pl_ended ?p = pl_ended p" using assms(1,2) by simp_all
  have alive: "\<not> b" if rec: "dget (pl_records ?p) k' = Some rid" and e: "expire_if_due dflt busy k' rid now ?p = (b, p1, fx)"
    for rid b p1 fx
  proof
    assume b
    with expire_cases [OF e] obtain r where r: "dget (pl_heap ?p) rid = Some r" "session_expired dflt r now" "\<not> session_busy busy k' r ?p"
      by auto
    then have "\<not> 0 < sr_inflight r" "sr_lifetime r \<noteq> ''persistent''" by (auto simp: session_busy_def)
    then show False using rec r(1) counted [of rid r]
      by (auto simp: ensure_default_session_def record_session_def Let_def split: if_splits)
  qed
  have ex: "quiet k p p1" if "dget (pl_records ?p) k' = Some rid" "expire_if_due dflt busy k' rid now ?p = (b, p1, fx)" for rid b p1 fx
    using expire_aged [OF g(1) that(2,1)] alive [OF that] g(2) by (simp add: quiet_def)
  have q: "quiet k p ?p" using g by (simp add: quiet_def)
  show ?thesis
  proof (cases "dget (pl_records ?p) k'")
    case None
    then show ?thesis using f q by (auto simp: forward_begin_def Let_def quiet_def split: option.splits)
  next
    case (Some rid)
    obtain b p1 fx1 where e: "expire_if_due dflt busy k' rid now ?p = (b, p1, fx1)" by (cases "expire_if_due dflt busy k' rid now ?p")
    show ?thesis using f e Some ex [OF Some e] by (cases b) (auto simp: forward_begin_def Let_def quiet_def split: option.splits)
  qed
qed

lemma serve_request_quiet:
  assumes "gone k p" and "k \<noteq> DEFAULT_SID"
    and counted: "\<And>rid r. dget (pl_records p) k' = Some rid \<Longrightarrow> dget (pl_heap p) rid = Some r \<Longrightarrow> 0 < sr_inflight r"
  shows "quiet k p (fst (serve_request dflt busy k' orid now p))"
proof -
  obtain res p1 fx where f: "forward_begin dflt busy k' now p = (res, p1, fx)" by (cases "forward_begin dflt busy k' now p")
  have "quiet k p p1" by (rule forward_begin_quiet [OF assms(1,2) _ f]) (rule counted)
  then show ?thesis using f by (cases res) (simp_all add: serve_request_def quiet_def gone_def)
qed

lemma remember_cong: "pl_ended p = pl_ended q \<Longrightarrow> pl_ended (remember_ended k e p) = pl_ended (remember_ended k e q)"
  by (simp add: remember_ended_def Let_def)

lemma aged_cong: "pl_ended p = pl_ended q \<Longrightarrow> aged k p p' = aged k q p'"
  by (simp add: aged_def cong: remember_cong)

lemma register_rest_quiet:
  assumes "gone k p" "k \<noteq> DEFAULT_SID" "ended_detail k p \<noteq> None" "sid = PNone \<Longrightarrow> PStr mint \<noteq> k"
  shows "quiet k p (fst (register_rest k' sid lifetime ttl owner header mint now p))"
proof (cases "k' = k \<and> sid \<noteq> PNone")
  case True
  then show ?thesis using assms by (simp add: register_rest_def quiet_def gone_def)
next
  case False
  then have "sid \<noteq> PNone \<Longrightarrow> k' \<noteq> k" by simp
  then show ?thesis using assms by (auto simp: register_rest_def open_plugin_session_def quiet_def Let_def)
qed

lemma register_begin_aged:
  assumes "gone k p" "k \<noteq> DEFAULT_SID" "ended_detail k p \<noteq> None" "PStr mint \<noteq> k"
  shows "aged k p (fst (register_begin dflt busy body owner header mint now p))"
proof -
  have g: "gone k (p\<lparr>pl_cleanup := True\<rparr>)" using assms(1) by simp
  note rest = register_rest_quiet [OF _ assms(2)]
  show ?thesis
  proof (cases dflt busy body owner header mint now p rule: register_begin_cases)
    case refused
    then show ?thesis using assms(1) by (simp add: aged_def)
  next
    case (unknown k' sid lifetime ttl data)
    have "ended_detail k (p\<lparr>pl_cleanup := True\<rparr>) \<noteq> None"
      using assms(3) by (auto simp: ended_detail_def split: if_splits)
    from rest [OF g this, of sid mint k' lifetime ttl owner header now] show ?thesis
      using unknown(1) assms(4) by (simp add: aged_def quiet_def)
  next
    case (expired k' sid lifetime ttl rid p1 fx data)
    then show ?thesis using expire_aged [OF g expired(1)] aged_cong [of "p\<lparr>pl_cleanup := True\<rparr>" p k p1]
      by (simp add: aged_def gone_def)
  next
    case (alive k' sid lifetime ttl rid p1 fx data)
    have q: "quiet k p p1" using expire_aged [OF g alive(1)] alive(2) by (simp add: quiet_def)
    then have "quiet k p1 (fst (register_rest k' sid lifetime ttl owner header mint now p1))"
      using assms(3,4) by (intro rest) (auto simp: quiet_def ended_detail_def split: if_splits)
    then show ?thesis using q alive(3) by (simp add: aged_def quiet_def)
  qed
qed

lemma request_begin_aged:
  assumes inv: "pl_inv p" and g: "gone k p" "k \<noteq> DEFAULT_SID"
  shows "aged k p (fst (request_begin dflt busy sid header now p))"
proof (cases "dget (pl_records p) (PStr sid)")
  case None
  then show ?thesis using g quiet_aged [OF serve_request_quiet [OF g, of "PStr sid" dflt busy None now]]
    by (auto simp: request_begin_def Let_def aged_def)
next
  case (Some rid)
  obtain b p1 fx where e: "expire_if_due dflt busy (PStr sid) rid now p = (b, p1, fx)"
    by (cases "expire_if_due dflt busy (PStr sid) rid now p")
  note ex = expire_aged [OF g(1) e Some]
  let ?p2 = "upd_rec rid (\<lambda>r. (tag_client header r)\<lparr>sr_inflight := sr_inflight r + 1\<rparr>) p1"
  have "aged k p (fst (serve_request dflt busy (PStr sid) (Some rid) now ?p2))" if "\<not> b"
  proof -
    have q: "quiet k p p1" using ex that by blast
    have recs: "pl_records p1 = pl_records p" using expire_cases [OF e] that by auto
    have "pl_inv p1" by (rule expire_if_due_inv [OF inv e])
    then have pos: "0 \<le> sr_inflight r" if "dget (pl_heap p1) rid = Some r" for r
      using that by (auto simp: pl_inv_at_def counts_ok_def calls_on_def)
    have "quiet k ?p2 (fst (serve_request dflt busy (PStr sid) (Some rid) now ?p2))"
      using q g(2) Some recs pos by (intro serve_request_quiet) (auto simp: quiet_def upd_rec_heap dest: pos)
    then show ?thesis using q by (simp add: quiet_def aged_def)
  qed
  then show ?thesis using Some e ex by (cases b) (auto simp: request_begin_def Let_def case_prod_unfold)
qed

lemma pl_job_step_aged:
  assumes "gone k p" "k \<noteq> DEFAULT_SID" "ended_detail k p \<noteq> None" "job_ok j"
  shows "aged k p (fst (pl_job_step dflt busy now j p))"
proof (cases "(dflt, busy, now, j, p)" rule: pl_job_step.cases)
  case (1 dflt' busy' now' k' sid lifetime ttl owner header p')
  then show ?thesis using assms quiet_aged [OF register_rest_quiet [OF assms(1-3), of sid "[]" k' lifetime ttl owner header now]]
    by (simp add: job_ok_def)
next
  case (3 dflt' busy' now' c cs p')
  obtain k' rid where c: "c = (k', rid)" by (cases c)
  obtain b p1 fx where e: "expire_if_due dflt busy k' rid now p = (b, p1, fx)" by (cases "expire_if_due dflt busy k' rid now p")
  have "aged k p (fst (sweep_one dflt busy now c p))"
    using expire_aged [OF assms(1) e] assms(1) e by (auto simp: sweep_one_def c aged_def)
  then show ?thesis using 3 by (auto simp: aged_def gone_def case_prod_unfold)
next
  case (5 dflt' busy' now' k' ks p')
  then show ?thesis using assms(1) by (auto simp: aged_def gone_def case_prod_unfold)
qed (use assms(1) in \<open>auto simp: aged_def\<close>)

lemma pl_do_aged:
  assumes inv: "pl_inv p" and g: "gone k p" "k \<noteq> DEFAULT_SID" "ended_detail k p \<noteq> None"
    and mint: "\<forall>body owner header mint now. a = Register body owner header mint now \<longrightarrow> PStr mint \<noteq> k"
    and d: "pl_do dflt busy a p = Some (p', fx)"
  shows "aged k p p'"
proof (cases a)
  case (Register body owner header mint now)
  then have "p' = fst (register_begin dflt busy body owner header mint now p)" using d by (auto split: if_splits)
  then show ?thesis using register_begin_aged [OF g] mint Register by simp
next
  case (Unregister sid now)
  have "PStr sid \<noteq> k \<Longrightarrow> aged k p (fst (end_session dflt (PStr sid) ''closed'' now p))"
    by (rule end_session_aged [OF g(1)])
  then show ?thesis using d Unregister g(1)
    by (cases "PStr sid = k") (auto simp: unregister_begin_def aged_def gone_def split: if_splits prod.splits)
next
  case (Request sid header now)
  then have "p' = fst (request_begin dflt busy sid header now p)" using d by auto
  then show ?thesis using request_begin_aged [OF inv g(1,2)] by simp
next
  case (Runs_Job i now)
  let ?q = "p\<lparr>pl_jobs := take i (pl_jobs p) @ drop (Suc i) (pl_jobs p)\<rparr>"
  have i: "i < length (pl_jobs p)" and p': "p' = fst (pl_job_step dflt busy now (pl_jobs p ! i) ?q)"
    using d Runs_Job by (auto split: if_splits)
  have "job_ok (pl_jobs p ! i)" using inv_jobs [OF inv] i by (simp add: list_all_iff)
  then have "aged k ?q p'" unfolding p' using g by (intro pl_job_step_aged) (auto simp: ended_detail_def split: if_splits)
  then show ?thesis using aged_cong [of ?q p k p'] by simp
qed (use d g(1) in \<open>auto simp: aged_def request_end_def split: if_splits\<close>)

lemma split_at_key:
  "dict_ok d \<Longrightarrow> dget d k = Some e \<Longrightarrow> \<exists>a b. d = a @ (k, e) # b \<and> k \<notin> fst ` set a \<and> k \<notin> fst ` set b \<and> younger k d = length b"
proof -
  assume ok: "dict_ok d" and e: "dget d k = Some e"
  from map_of_SomeD [OF e] obtain a b where d: "d = a @ (k, e) # b" by (meson split_list)
  then have no: "k \<notin> fst ` set a" "k \<notin> fst ` set b" using ok by (auto simp: dict_ok_def)
  have "takeWhile (\<lambda>x. fst x \<noteq> k) (rev d) = rev b"
    unfolding d using no(2) by (simp add: takeWhile_append) force
  then show ?thesis using d no by (auto simp: younger_def)
qed

lemma remember_keeps:
  assumes ok: "dict_ok (pl_ended p)" and e: "dget (pl_ended p) k = Some e" and "k' \<noteq> k" and "Suc (younger k (pl_ended p)) < ENDED_KEEP"
  shows "dget (pl_ended (remember_ended k' e' p)) k = Some e \<and>
    younger k (pl_ended (remember_ended k' e' p)) \<le> Suc (younger k (pl_ended p))"
proof -
  obtain a b where d: "pl_ended p = a @ (k, e) # b" "k \<notin> fst ` set a" "k \<notin> fst ` set b" "younger k (pl_ended p) = length b"
    using split_at_key [OF ok e] by blast
  let ?a = "filter (\<lambda>(x, _). k' \<noteq> x) a" and ?b = "filter (\<lambda>(x, _). k' \<noteq> x) b @ [(k', e')]"
  have len: "length ?b \<le> Suc (length b)" by simp
  have "dpop k' (pl_ended p) @ [(k', e')] = ?a @ (k, e) # ?b"
    using \<open>k' \<noteq> k\<close> by (simp add: AList.delete_eq d(1))
  moreover have "length (?a @ (k, e) # ?b) - ENDED_KEEP \<le> length ?a"
  proof -
    have "length (?a @ (k, e) # ?b) = length ?a + Suc (length ?b)" by simp
    with len assms(4) d(4) show ?thesis by linarith
  qed
  ultimately have shape: "pl_ended (remember_ended k' e' p) =
      drop (length (?a @ (k, e) # ?b) - ENDED_KEEP) ?a @ (k, e) # ?b"
    by (simp add: remember_ended_def Let_def)
  have "k \<notin> fst ` set ?b" using d(3) \<open>k' \<noteq> k\<close> by auto
  then have "takeWhile (\<lambda>x. fst x \<noteq> k) (rev (drop n ?a @ (k, e) # ?b)) = rev ?b" for n
    using \<open>k' \<noteq> k\<close> by (simp add: takeWhile_append) force
  moreover have "dget (drop n ?a) k = None" for n
    using d(2) by (auto simp: map_of_eq_None_iff dest!: in_set_dropD)
  ultimately show ?thesis using len d(4)
    by (simp add: shape younger_def map_add_def)
qed


fun mints :: "pl_action \<Rightarrow> string option" where
  "mints (Register body owner header mint now) = Some mint"
| "mints a = None"

lemma ended_run:
  assumes "pl_run dflt as p = Some p'" and "pl_inv p" and "gone k p" "k \<noteq> DEFAULT_SID" "truthy k"
    and "dget (pl_ended p) k = Some e" and "younger k (pl_ended p) + length as < ENDED_KEEP"
    and "\<forall>(a, busy) \<in> set as. \<forall>m. mints a = Some m \<longrightarrow> PStr m \<noteq> k"
  shows "gone k p' \<and> dget (pl_ended p') k = Some e"
  using assms
proof (induction as arbitrary: p)
  case (Cons ab as)
  obtain a busy where ab: "ab = (a, busy)" by (cases ab)
  with Cons.prems(1) obtain p1 fx where d: "pl_do dflt busy a p = Some (p1, fx)" and run: "pl_run dflt as p1 = Some p'"
    by (auto split: option.splits)
  have "ended_detail k p \<noteq> None" using Cons.prems(5,6) by (simp add: ended_detail_def)
  moreover have "\<forall>body owner header mint now. a = Register body owner header mint now \<longrightarrow> PStr mint \<noteq> k"
    using Cons.prems(8) by (auto simp: ab)
  ultimately have aged: "aged k p p1" using pl_do_aged [OF Cons.prems(2-4) _ _ d] by blast
  have ok: "dict_ok (pl_ended p)" using Cons.prems(2) by (simp add: pl_inv_at_def ended_ok_def)
  have "dget (pl_ended p1) k = Some e \<and> younger k (pl_ended p1) \<le> Suc (younger k (pl_ended p))"
    using aged remember_keeps [OF ok Cons.prems(6)] Cons.prems(6,7) by (auto simp: aged_def)
  moreover have "gone k p1" using aged by (simp add: aged_def)
  ultimately show ?case
    using Cons.prems Cons.IH [OF run pl_do_inv [OF Cons.prems(2) d]] by (auto simp: ab)
qed simp



section \<open>A whole sweep\<close>

fun sweep_all :: "rat \<Rightarrow> (nat \<Rightarrow> bool) \<Rightarrow> rat \<Rightarrow> (pyval \<times> nat) list \<Rightarrow> plugin \<Rightarrow> plugin" where
  "sweep_all dflt busy now [] p = p"
| "sweep_all dflt busy now (c # cs) p = sweep_all dflt busy now cs (fst (sweep_one dflt busy now c p))"

definition sweep_ends :: "rat \<Rightarrow> (nat \<Rightarrow> bool) \<Rightarrow> rat \<Rightarrow> plugin \<Rightarrow> pyval \<Rightarrow> bool" where
  "sweep_ends dflt busy now p k \<longleftrightarrow> (case dget (pl_records p) k of None \<Rightarrow> False | Some rid \<Rightarrow>
     (case dget (pl_heap p) rid of None \<Rightarrow> False | Some r \<Rightarrow> session_expired dflt r now \<and> \<not> session_busy busy k r p))"

lemma end_session_fields:
  "pl_records (fst (end_session dflt k why now p)) = dpop k (pl_records p)"
  "pl_sessions (fst (end_session dflt k why now p)) = dpop k (pl_sessions p)"
  "pl_heap (fst (end_session dflt k why now p)) = pl_heap p"
  by (auto simp: end_session_def split: option.splits)

text \<open>What a step for one candidate does to another session and to its own.\<close>

lemma sweep_one_other:
  fixes dflt now :: rat and busy :: "nat \<Rightarrow> bool"
  assumes inv: "pl_inv p" and "k' \<noteq> k" and own: "dget (pl_records p) k' = Some rid'"
  defines "p1 \<equiv> fst (sweep_one dflt busy now (k', rid') p)"
  shows "dget (pl_records p1) k = dget (pl_records p) k \<and> sweep_ends dflt busy now p1 k = sweep_ends dflt busy now p k \<and>
     dget (pl_sessions p1) k = dget (pl_sessions p) k"
proof -
  obtain b q fx where e: "expire_if_due dflt busy k' rid' now p = (b, q, fx)" by (cases "expire_if_due dflt busy k' rid' now p")
  have p1: "p1 = q" using own e by (simp add: p1_def sweep_one_def)
  have other: "dget (pl_records p) k \<noteq> Some rid'"
    using inv own \<open>k' \<noteq> k\<close> by (auto simp: pl_inv_at_def session_records_ok_def)
  show ?thesis
  proof (cases b)
    case True
    with expire_cases [OF e] have "(q, fx) = end_session dflt k' ''expired'' now p" by blast
    then have "q = fst (end_session dflt k' ''expired'' now p)" by (metis fst_conv)
    then show ?thesis unfolding p1 using \<open>k' \<noteq> k\<close>
      by (auto simp: end_session_fields sweep_ends_def session_busy_def split: option.splits)
  next
    case False
    with expire_cases [OF e] other show ?thesis unfolding p1
      by (auto simp: sweep_ends_def session_busy_def upd_rec_heap split: option.splits)
  qed
qed

lemma sweep_one_own:
  assumes own: "dget (pl_records p) k = Some rid"
  shows "dhas (pl_records (fst (sweep_one dflt busy now (k, rid) p))) k \<longleftrightarrow> \<not> sweep_ends dflt busy now p k"
  using own end_session_fields [of dflt k "''expired''" now p]
  by (auto simp: sweep_one_def expire_if_due_def sweep_ends_def dhas_def split: option.splits)

lemma sweep_all_records:
  "pl_inv p \<Longrightarrow> distinct (map fst cs) \<Longrightarrow> \<forall>(k', rid) \<in> set cs. dget (pl_records p) k' = Some rid \<Longrightarrow>
   dhas (pl_records (sweep_all dflt busy now cs p)) k \<longleftrightarrow>
     dhas (pl_records p) k \<and> \<not> (k \<in> fst ` set cs \<and> sweep_ends dflt busy now p k)"
proof (induction cs arbitrary: p)
  case (Cons c cs)
  obtain k' rid where c: "c = (k', rid)" by (cases c)
  let ?p1 = "fst (sweep_one dflt busy now (k', rid) p)"
  have own: "dget (pl_records p) k' = Some rid" using Cons.prems(3) c by auto
  note other = sweep_one_other [OF Cons.prems(1) _ own, of _ dflt busy now]
  have "\<forall>(k'', r'') \<in> set cs. dget (pl_records ?p1) k'' = Some r''"
  proof clarify
    fix k'' r'' assume m: "(k'', r'') \<in> set cs"
    then have "k' \<noteq> k''" using Cons.prems(2) c by force
    then show "dget (pl_records ?p1) k'' = Some r''" using other [of k''] m Cons.prems(3) by auto
  qed
  then have IH: "dhas (pl_records (sweep_all dflt busy now cs ?p1)) k \<longleftrightarrow>
      dhas (pl_records ?p1) k \<and> \<not> (k \<in> fst ` set cs \<and> sweep_ends dflt busy now ?p1 k)"
    using Cons.IH [OF sweep_one_inv [OF Cons.prems(1)]] Cons.prems(2) by simp
  show ?case
  proof (cases "k' = k")
    case True
    then have "k \<notin> fst ` set cs" using Cons.prems(2) c by auto
    then show ?thesis using IH sweep_one_own [of p k rid dflt busy now] own True c by (auto simp: dhas_def)
  next
    case False
    then show ?thesis using IH other [of k] c by (auto simp: dhas_def)
  qed
qed simp

text \<open>A sweep with nothing in between ends exactly the sessions that are past their deadline when it runs and whose
  request counter and probe are idle; every other session is still registered.\<close>

theorem sweep_ends_exactly_idle:
  assumes "pl_reachable dflt p"
  shows "dhas (pl_records (sweep_all dflt busy now (sweep_due dflt now p) p)) k \<longleftrightarrow>
    dhas (pl_records p) k \<and> \<not> sweep_ends dflt busy now p k"
proof -
  let ?due = "sweep_due dflt now p"
  have inv: "pl_inv p" by (rule pl_reachable_inv) fact
  then have ok: "dict_ok (pl_records p)" by (simp add: pl_inv_at_def session_records_ok_def)
  then have "distinct (map fst ?due)" by (auto simp: sweep_due_def dict_ok_def intro: distinct_map_filter)
  moreover have "\<forall>(k', rid) \<in> set ?due. dget (pl_records p) k' = Some rid"
    using ok by (auto simp: sweep_due_def dict_ok_dget)
  moreover have "sweep_ends dflt busy now p k \<Longrightarrow> k \<in> fst ` set ?due"
    using ok by (force simp: sweep_ends_def sweep_due_def dict_ok_dget split: option.splits)
  ultimately show ?thesis using sweep_all_records [OF inv, of ?due dflt busy now k] by blast
qed


section \<open>The tables\<close>

text \<open>C32. In every reachable state a session id has an object exactly when it has a record, no two ids share a record, the
  counter of a record is the number of its calls that have not returned, the reserved session is persistent, and the
  memory of ended sessions keeps within its bound.\<close>

theorem session_tables_consistent:
  assumes "pl_reachable dflt p"
  shows "(dget (pl_sessions p) k = None \<longleftrightarrow> dget (pl_records p) k = None) \<and>
    (\<forall>rid. dget (pl_records p) k = Some rid \<longrightarrow> (\<forall>k'. dget (pl_records p) k' = Some rid \<longrightarrow> k' = k) \<and>
       (\<exists>r. dget (pl_heap p) rid = Some r \<and>
          sr_inflight r = int (length (filter (\<lambda>(q, orid). orid = Some rid) (pl_running p))) \<and>
          (k = DEFAULT_SID \<longrightarrow> sr_lifetime r = ''persistent''))) \<and>
    length (pl_ended p) \<le> ENDED_KEEP"
proof -
  have inv: "session_records_ok p" "counts_ok None p" "ended_ok p"
    using pl_reachable_inv [OF assms] by (simp_all add: pl_inv_at_def)
  have "\<exists>r. dget (pl_heap p) rid = Some r \<and> sr_inflight r = calls_on rid p \<and> (k = DEFAULT_SID \<longrightarrow> sr_lifetime r = ''persistent'')"
    if "dget (pl_records p) k = Some rid" for rid
  proof -
    have "dhas (pl_heap p) rid" using that inv(1) unfolding session_records_ok_def by blast
    from dhasE [OF this] obtain r where r: "dget (pl_heap p) rid = Some r" ..
    then have "sr_inflight r = calls_on rid p" using inv(2) by (simp add: counts_ok_def)
    moreover have "k = DEFAULT_SID \<longrightarrow> sr_lifetime r = ''persistent''" using that inv(1) r unfolding session_records_ok_def by blast
    ultimately show ?thesis using r by blast
  qed
  moreover have "\<forall>k'. dget (pl_records p) k' = Some rid \<longrightarrow> k' = k" if "dget (pl_records p) k = Some rid" for rid
    using that inv(1) unfolding session_records_ok_def by blast
  moreover have "dget (pl_sessions p) k = None \<longleftrightarrow> dget (pl_records p) k = None"
    using inv(1) unfolding session_records_ok_def dhas_def by blast
  ultimately show ?thesis using inv(3) unfolding ended_ok_def calls_on_def by blast
qed

section \<open>Concrete runs\<close>

abbreviation idle :: "nat \<Rightarrow> bool" where "idle \<equiv> \<lambda>obj. False"

text \<open>A session is opened at time 0 under the default timeout of 900 seconds, and one request on it is running.\<close>

definition demo_open :: "(pl_action \<times> (nat \<Rightarrow> bool)) list" where
  "demo_open = [(Register (Some (PDict [])) None None ''session.a'' 0, idle)]"

definition demo_served_session :: "(pl_action \<times> (nat \<Rightarrow> bool)) list" where
  "demo_served_session = demo_open @ [(Request ''session.a'' None 10, idle), (Sweeps 2000, idle)]"

definition demo_expired :: "(pl_action \<times> (nat \<Rightarrow> bool)) list" where
  "demo_expired = demo_open @ [(Sweeps 2000, idle), (Runs_Job 0 2000, idle)]"

definition after :: "(pl_action \<times> (nat \<Rightarrow> bool)) list \<Rightarrow> plugin" where
  "after as = the (pl_run 900 as new_plugin)"

lemma reachable_after: "pl_run 900 as new_plugin \<noteq> None \<Longrightarrow> pl_reachable 900 (after as)"
  by (auto simp: pl_reachable_def after_def)

lemma demo_reachable:
  "pl_reachable 900 (after demo_open)" "pl_reachable 900 (after demo_served_session)" "pl_reachable 900 (after demo_expired)"
  by (rule reachable_after, code_simp)+

theorem session_tables_consistent_witness:
  "\<exists>r. dget (pl_heap (after demo_served_session)) 0 = Some r \<and> sr_inflight r = 1"
proof -
  have "dget (pl_records (after demo_served_session)) (PStr ''session.a'') = Some 0"
    "length (filter (\<lambda>(q, orid). orid = Some 0) (pl_running (after demo_served_session))) = 1"
    by code_simp+
  then show ?thesis using session_tables_consistent [OF demo_reachable(2), of "PStr ''session.a''"] by auto
qed

theorem active_session_kept_witness:
  "dget (pl_records (fst (the (pl_do 900 idle (Runs_Job 0 2000) (after demo_served_session))))) (PStr ''session.a'') = Some 0"
proof -
  let ?p = "after demo_served_session"
  obtain p' fx where d: "pl_do 900 idle (Runs_Job 0 2000) ?p = Some (p', fx)"
  proof -
    have "pl_do 900 idle (Runs_Job 0 2000) ?p \<noteq> None" by code_simp
    with that show thesis by fastforce
  qed
  have rec: "dget (pl_records ?p) (PStr ''session.a'') = Some 0" "dget (pl_sessions ?p) (PStr ''session.a'') = Some 0"
    "map_option sr_inflight (dget (pl_heap ?p) 0) = Some 1" "map is_sweep (pl_jobs ?p) = [True]"
    by code_simp+
  then obtain r where r: "dget (pl_heap ?p) 0 = Some r" "0 < sr_inflight r" by auto
  have "pl_jobs ?p ! 0 \<noteq> Shutdown_Rest (PStr ''session.a'' # ks)" for ks
    using rec(4) by (cases "pl_jobs ?p") (auto simp: is_sweep_def)
  then show ?thesis
    using active_session_kept [OF demo_reachable(2) d rec(1) r(1) rec(2)] r(2) d by auto
qed


theorem sweep_ends_exactly_idle_witness:
  "\<not> dhas (pl_records (sweep_all 900 idle 2000 (sweep_due 900 2000 (after demo_open)) (after demo_open))) (PStr ''session.a'') \<and>
   dhas (pl_records (after demo_open)) (PStr ''session.a'')"
proof -
  have "sweep_ends 900 idle 2000 (after demo_open) (PStr ''session.a'')" "dhas (pl_records (after demo_open)) (PStr ''session.a'')"
    by code_simp+
  then show ?thesis using sweep_ends_exactly_idle [OF demo_reachable(1), of idle 2000] by simp
qed

end
