(* ===== verification/Runtime_Subscriptions.thy ===== *)
theory Runtime_Subscriptions
  imports Event_Router "HOL-Library.Multiset"
begin

text \<open>
  The event subscriptions of an endpoint runtime (\<^verbatim>\<open>runtime.py\<close>, \<open>register_callback\<close> to \<open>_on_topology\<close>): many
  callbacks share one connection, so the runtime counts its registrations per pattern on the wire and sends the
  broker a \<open>subscribe\<close> for the first and an \<open>unsubscribe\<close> for the last.  Then the runtime, its outbox and the
  broker's event router as one system, with lost connections in between.  A callback is a number (the code compares
  callbacks with \<open>==\<close>).  An outgoing frame is assumed to fit the frame cap, and the transport thread to be running.
\<close>

section \<open>State\<close>

type_synonym cb_key = "string option \<times> string option \<times> string option"
type_synonym registration = "nat \<times> bool \<times> string option"

datatype sub_frame = Subscribe "pattern list" | Unsubscribe "pattern list"

record subs =
  rt_callbacks :: "(cb_key \<times> registration list) list"
  rt_wire :: "(pattern \<times> int) list"
  rt_held :: "(pattern \<times> int) list"
  rt_live :: bool
  rt_routes :: bool
  rt_gen :: int
  rt_outbox :: "sub_frame list"

definition new_subs :: subs where
  "new_subs = \<lparr>rt_callbacks = [], rt_wire = [], rt_held = [], rt_live = False, rt_routes = False, rt_gen = 0, rt_outbox = []\<rparr>"

text \<open>\<open>session or None\<close>.\<close>

definition norm_session :: "string option \<Rightarrow> string option" where
  "norm_session s = (if s = Some [] then None else s)"

definition wire_key :: "bool \<Rightarrow> cb_key \<Rightarrow> string option \<Rightarrow> pattern" where
  "wire_key routes key session = (case key of (e, p, t) \<Rightarrow>
     if session \<noteq> None \<and> routes \<and> e \<noteq> None \<and> p \<noteq> None
     then \<lparr>pat_endpoint = e, pat_plugin = p, pat_topic = t, pat_session = session\<rparr>
     else \<lparr>pat_endpoint = e, pat_plugin = p, pat_topic = t, pat_session = None\<rparr>)"

text \<open>A \<open>Counter\<close> reads an absent key as zero.\<close>

definition cget :: "('k \<times> int) list \<Rightarrow> 'k \<Rightarrow> int" where
  "cget d k = (case dget d k of None \<Rightarrow> 0 | Some n \<Rightarrow> n)"

section \<open>Counting patterns\<close>

text \<open>The two loops of \<open>_move_wire\<close>, each with the patterns that it collects.\<close>

fun count_on :: "pattern list \<Rightarrow> (pattern \<times> int) list \<Rightarrow> (pattern \<times> int) list \<times> pattern list" where
  "count_on [] d = (d, [])"
| "count_on (w # ws) d = (case count_on ws (dset w (cget d w + 1) d) of (d', sub) \<Rightarrow>
     (d', (if cget d w + 1 = 1 then [w] else []) @ sub))"

fun count_off :: "pattern list \<Rightarrow> (pattern \<times> int) list \<Rightarrow> (pattern \<times> int) list \<times> pattern list" where
  "count_off [] d = (d, [])"
| "count_off (w # ws) d =
     (if cget d w - 1 \<le> 0
      then (case count_off ws (dpop w d) of (d', unsub) \<Rightarrow> (d', w # unsub))
      else count_off ws (dset w (cget d w - 1) d))"

definition emit :: "sub_frame list \<Rightarrow> subs \<Rightarrow> subs" where
  "emit fs s = s\<lparr>rt_outbox := rt_outbox s @ fs\<rparr>"

definition move_wire :: "pattern list \<Rightarrow> pattern list \<Rightarrow> subs \<Rightarrow> subs" where
  "move_wire old new s =
    (case count_on new (rt_wire s) of (d1, sub) \<Rightarrow>
     case count_off old d1 of (d2, unsub) \<Rightarrow>
       let s1 = s\<lparr>rt_wire := d2\<rparr>
       in if \<not> rt_live s then s1
          else emit ((if sub \<noteq> [] then [Subscribe sub] else []) @ (if unsub \<noteq> [] then [Unsubscribe unsub] else [])) s1)"

section \<open>Registrations\<close>

definition cbs_at :: "cb_key \<Rightarrow> subs \<Rightarrow> registration list" where
  "cbs_at key s = (case dget (rt_callbacks s) key of None \<Rightarrow> [] | Some cs \<Rightarrow> cs)"

definition register_callback :: "cb_key \<Rightarrow> nat \<Rightarrow> bool \<Rightarrow> string option \<Rightarrow> subs \<Rightarrow> subs" where
  "register_callback key cb meta session0 s =
    (let session = norm_session session0
     in move_wire [] [wire_key (rt_routes s) key session]
          (s\<lparr>rt_callbacks := dset key (cbs_at key s @ [(cb, meta, session)]) (rt_callbacks s)\<rparr>))"

text \<open>\<open>only\<close> is \<open>None\<close> when no session was given, which means all of them.\<close>

definition unregisters :: "nat \<Rightarrow> string option option \<Rightarrow> registration \<Rightarrow> bool" where
  "unregisters cb only r = (case r of (c, m, sess) \<Rightarrow>
     c = cb \<and> (case only of None \<Rightarrow> True | Some session \<Rightarrow> sess = norm_session session))"

definition unregister_callback :: "cb_key \<Rightarrow> nat \<Rightarrow> string option option \<Rightarrow> subs \<Rightarrow> subs" where
  "unregister_callback key cb only s =
    (let keep = filter (\<lambda>r. \<not> unregisters cb only r) (cbs_at key s);
         gone = map (\<lambda>(c, m, sess). sess) (filter (unregisters cb only) (cbs_at key s))
     in move_wire (map (wire_key (rt_routes s) key) gone) []
          (s\<lparr>rt_callbacks := (if keep \<noteq> [] then dset key keep (rt_callbacks s) else dpop key (rt_callbacks s))\<rparr>))"

definition rescopes :: "nat \<Rightarrow> string option \<Rightarrow> registration \<Rightarrow> bool" where
  "rescopes cb session r = (case r of (c, m, sess) \<Rightarrow> c = cb \<and> sess = session)"

definition rescope_callback :: "cb_key \<Rightarrow> nat \<Rightarrow> string option \<Rightarrow> string option \<Rightarrow> subs \<Rightarrow> subs \<times> bool" where
  "rescope_callback key cb session0 new0 s =
    (let session = norm_session session0; new = norm_session new0;
         moved = length (filter (rescopes cb session) (cbs_at key s));
         cbs = map (\<lambda>r. if rescopes cb session r then (case r of (c, m, sess) \<Rightarrow> (c, m, new)) else r) (cbs_at key s);
         s1 = (if dhas (rt_callbacks s) key then s\<lparr>rt_callbacks := dset key cbs (rt_callbacks s)\<rparr> else s)
     in (move_wire (replicate moved (wire_key (rt_routes s) key session)) (replicate moved (wire_key (rt_routes s) key new)) s1,
         0 < moved))"

definition plain :: "cb_key \<Rightarrow> pattern" where
  "plain key = wire_key False key None"

definition hold_subscription :: "cb_key \<Rightarrow> subs \<Rightarrow> subs" where
  "hold_subscription key s =
     move_wire [] [plain key] (s\<lparr>rt_held := dset (plain key) (cget (rt_held s) (plain key) + 1) (rt_held s)\<rparr>)"

definition release_subscription :: "cb_key \<Rightarrow> subs \<Rightarrow> subs" where
  "release_subscription key s =
    (let w = plain key; n = cget (rt_held s) w in
     if n \<le> 0 then s\<lparr>rt_held := dpop w (rt_held s)\<rparr>
     else move_wire [w] []
       (s\<lparr>rt_held := (if n - 1 = 0 then dpop w (rt_held s) else dset w (n - 1) (rt_held s))\<rparr>))"

section \<open>Connections\<close>

text \<open>All registrations in the order of the registry.\<close>

definition registrations :: "(cb_key \<times> registration list) list \<Rightarrow> (cb_key \<times> string option) list" where
  "registrations cbs = concat (map (\<lambda>(key, rs). map (\<lambda>(c, m, sess). (key, sess)) rs) cbs)"

definition counter_of :: "pattern list \<Rightarrow> (pattern \<times> int) list" where
  "counter_of ws = fst (count_on ws [])"

definition counter_update :: "(pattern \<times> int) list \<Rightarrow> (pattern \<times> int) list \<Rightarrow> (pattern \<times> int) list" where
  "counter_update held d = fold (\<lambda>(w, n) d. dset w (cget d w + n) d) held d"

definition resync_subscriptions :: "subs \<Rightarrow> subs" where
  "resync_subscriptions s =
    (let wire = counter_update (rt_held s) (counter_of (map (\<lambda>(key, sess). plain key) (registrations (rt_callbacks s))));
         s1 = s\<lparr>rt_gen := rt_gen s + 1, rt_routes := False, rt_live := True, rt_wire := wire\<rparr>
     in if wire \<noteq> [] then emit [Subscribe (map fst wire)] s1 else s1)"

definition subs_down :: "subs \<Rightarrow> subs" where
  "subs_down s = s\<lparr>rt_live := False\<rparr>"

definition rescope_sessions :: "bool \<Rightarrow> int option \<Rightarrow> subs \<Rightarrow> subs" where
  "rescope_sessions routes gen s =
    (if gen \<noteq> None \<and> gen \<noteq> Some (rt_gen s) then s
     else if routes = rt_routes s then s
     else let scoped = filter (\<lambda>(key, sess). sess \<noteq> None) (registrations (rt_callbacks s))
          in move_wire (map (\<lambda>(key, sess). wire_key (rt_routes s) key sess) scoped)
               (map (\<lambda>(key, sess). wire_key routes key sess) scoped) (s\<lparr>rt_routes := routes\<rparr>))"

section \<open>Local delivery\<close>

definition key_admits :: "cb_key \<Rightarrow> string \<Rightarrow> string \<Rightarrow> string \<Rightarrow> bool" where
  "key_admits key endpoint plugin topic = (case key of (e, p, t) \<Rightarrow>
     (e = None \<or> e = Some endpoint) \<and> (p = None \<or> p = Some plugin) \<and> (t = None \<or> t = Some topic))"

definition session_admits :: "string option \<Rightarrow> string option \<Rightarrow> bool" where
  "session_admits s session \<longleftrightarrow> s = None \<or> session = None \<or> s = session"

text \<open>\<open>_on_event\<close>: the callbacks that an event is submitted to, in order, and whether with its metadata.\<close>

definition on_event :: "string \<Rightarrow> string \<Rightarrow> string \<Rightarrow> string option \<Rightarrow> subs \<Rightarrow> (nat \<times> bool) list" where
  "on_event endpoint plugin topic session0 s =
    (let session = norm_session session0
     in concat (map (\<lambda>(key, rs). if key_admits key endpoint plugin topic
          then map (\<lambda>(c, m, sess). (c, m)) (filter (\<lambda>(c, m, sess). session_admits sess session) rs) else [])
        (rt_callbacks s)))"

section \<open>Runtime, outbox and broker\<close>

definition frame_doc :: "sub_frame \<Rightarrow> dict" where
  "frame_doc f = (case f of
     Subscribe ps \<Rightarrow> [(''kind'', PStr ''subscribe''), (''patterns'', PList (map (PDict \<circ> dump_pattern) ps))]
   | Unsubscribe ps \<Rightarrow> [(''kind'', PStr ''unsubscribe''), (''patterns'', PList (map (PDict \<circ> dump_pattern) ps))])"

definition broker_takes :: "string \<Rightarrow> sub_frame \<Rightarrow> 'b router \<Rightarrow> 'b router" where
  "broker_takes name f r = update_subscription name (frame_doc f) (case f of Subscribe ps \<Rightarrow> True | Unsubscribe ps \<Rightarrow> False) r"

record 'b rt_system =
  sy_subs :: subs
  sy_router :: "'b router"
  sy_conn :: bool

text \<open>Any call on the registry, a topology frame, the next frame reaching the broker, the connection breaking, a
  frame lost on the broken connection, the runtime noticing it, and a new connection: the broker still has the
  participant (\<open>resumed\<close>) or takes it in afresh.\<close>

datatype rt_action =
    Registers cb_key nat bool "string option"
  | Unregisters cb_key nat "string option option"
  | Rescopes cb_key nat "string option" "string option"
  | Holds cb_key
  | Releases cb_key
  | Topology_Says bool "int option"
  | Delivers
  | Breaks
  | Loses
  | Notices
  | Reconnects bool

fun rt_subs_do :: "rt_action \<Rightarrow> subs \<Rightarrow> subs" where
  "rt_subs_do (Registers key cb meta session) s = register_callback key cb meta session s"
| "rt_subs_do (Unregisters key cb only) s = unregister_callback key cb only s"
| "rt_subs_do (Rescopes key cb session new) s = fst (rescope_callback key cb session new s)"
| "rt_subs_do (Holds key) s = hold_subscription key s"
| "rt_subs_do (Releases key) s = release_subscription key s"
| "rt_subs_do (Topology_Says routes gen) s = rescope_sessions routes gen s"
| "rt_subs_do Notices s = subs_down s"
| "rt_subs_do (Reconnects resumed) s = resync_subscriptions s"
| "rt_subs_do Delivers s = s\<lparr>rt_outbox := tl (rt_outbox s)\<rparr>"
| "rt_subs_do Loses s = s\<lparr>rt_outbox := tl (rt_outbox s)\<rparr>"
| "rt_subs_do Breaks s = s"

definition rt_do :: "string \<Rightarrow> rt_action \<Rightarrow> 'b rt_system \<Rightarrow> 'b rt_system option" where
  "rt_do name a y = (let y1 = y\<lparr>sy_subs := rt_subs_do a (sy_subs y)\<rparr> in case a of
     Delivers \<Rightarrow> (case rt_outbox (sy_subs y) of
        [] \<Rightarrow> None | f # fs \<Rightarrow> if sy_conn y then Some (y1\<lparr>sy_router := broker_takes name f (sy_router y)\<rparr>) else None)
   | Breaks \<Rightarrow> if sy_conn y then Some (y1\<lparr>sy_conn := False\<rparr>) else None
   | Loses \<Rightarrow> if \<not> sy_conn y \<and> rt_live (sy_subs y) \<and> rt_outbox (sy_subs y) \<noteq> [] then Some y1 else None
   | Notices \<Rightarrow> if \<not> sy_conn y then Some y1 else None
   | Reconnects resumed \<Rightarrow>
       if sy_conn y \<or> rt_live (sy_subs y) then None
       else Some (y1\<lparr>sy_conn := True, sy_router := (if resumed then restart_sender name (sy_router y)
              else add_endpoint name (remove_endpoint name (sy_router y)))\<rparr>)
   | _ \<Rightarrow> Some y1)"

text \<open>The broker does other things in between, which leave the patterns of this participant alone.\<close>

inductive rt_reachable :: "string \<Rightarrow> 'b rt_system \<Rightarrow> bool" for name where
  start: "rt_reachable name \<lparr>sy_subs = new_subs, sy_router = new_router n, sy_conn = False\<rparr>"
| act: "rt_reachable name y \<Longrightarrow> rt_do name a y = Some y' \<Longrightarrow> rt_reachable name y'"
| other: "rt_reachable name y \<Longrightarrow> subscribed r name = subscribed (sy_router y) name \<Longrightarrow> rt_reachable name (y\<lparr>sy_router := r\<rparr>)"

end
