(* ===== verification/Runtime_Subscription_Safety.thy ===== *)
theory Runtime_Subscription_Safety
  imports Runtime_Subscriptions "HOL-Library.Code_Target_Nat"
begin

text \<open>
  The counts of a runtime are exact, and with the broker's router at the other end no event that a registered callback
  would accept is filtered out there once the frames under way have arrived, whatever connections were lost.
\<close>

section \<open>The counters\<close>

definition positive :: "('k \<times> int) list \<Rightarrow> bool" where
  "positive d \<longleftrightarrow> (\<forall>w n. dget d w = Some n \<longrightarrow> 0 < n)"

lemma cget_simps [simp]:
  "cget [] w = 0" "cget (dset w n d) w' = (if w' = w then n else cget d w')" "cget (dpop w d) w' = (if w' = w then 0 else cget d w')"
  by (simp_all add: cget_def)

lemma positive_dset [simp]: "positive d \<Longrightarrow> 0 < n \<Longrightarrow> positive (dset w n d)"
  by (auto simp: positive_def split: if_splits)

lemma positive_dpop [simp]: "positive d \<Longrightarrow> positive (dpop w d)"
  by (auto simp: positive_def split: if_splits)

lemma positive_Nil [simp]: "positive []"
  by (simp add: positive_def)

lemma positive_cget: "positive d \<Longrightarrow> 0 \<le> cget d w"
  by (auto simp: positive_def cget_def less_imp_le split: option.splits)

lemma cget_present: "positive d \<Longrightarrow> dget d w \<noteq> None \<longleftrightarrow> 0 < cget d w"
  by (auto simp: positive_def cget_def split: option.splits)

lemma count_on_spec:
  "count_on ws d = (d', sub) \<Longrightarrow> positive d \<Longrightarrow>
     cget d' w = cget d w + int (count (mset ws) w) \<and> positive d' \<and> (dict_ok d \<longrightarrow> dict_ok d') \<and>
     (0 < cget d' w \<longrightarrow> 0 < cget d w \<or> w \<in> set sub)"
proof (induction ws arbitrary: d d' sub)
  case (Cons v ws)
  let ?d = "dset v (cget d v + 1) d"
  obtain d1 sub1 where r: "count_on ws ?d = (d1, sub1)" by (cases "count_on ws ?d")
  have "positive ?d" using Cons.prems(2) positive_cget [of d v] by (intro positive_dset) auto
  from Cons.IH [OF r this] show ?case
    using Cons.prems r positive_cget [OF Cons.prems(2), of v] by (auto split: if_splits)
qed simp

lemma count_off_spec:
  "count_off ws d = (d', unsub) \<Longrightarrow> positive d \<Longrightarrow> \<forall>w. int (count (mset ws) w) \<le> cget d w \<Longrightarrow>
     cget d' w = cget d w - int (count (mset ws) w) \<and> positive d' \<and> (dict_ok d \<longrightarrow> dict_ok d') \<and>
     (w \<in> set unsub \<longrightarrow> cget d' w = 0)"
proof (induction ws arbitrary: d d' unsub)
  case (Cons v ws)
  have v: "1 \<le> cget d v" using Cons.prems(3) by (auto dest: spec [of _ v])
  show ?case
  proof (cases "cget d v - 1 \<le> 0")
    case True
    obtain d1 u1 where r: "count_off ws (dpop v d) = (d1, u1)" by (cases "count_off ws (dpop v d)")
    have bound: "int (count (mset ws) w') \<le> cget (dpop v d) w'" for w'
      using Cons.prems(3) [rule_format, of w'] True v by (auto split: if_splits)
    from Cons.IH [OF r positive_dpop [OF Cons.prems(2)] allI [OF bound]] show ?thesis
      using Cons.prems True v r bound [of v] by (auto split: if_splits)
  next
    case False
    let ?d = "dset v (cget d v - 1) d"
    have "int (count (mset ws) w') \<le> cget ?d w'" for w'
      using Cons.prems(3) [rule_format, of w'] by (auto split: if_splits)
    moreover have "positive ?d" using Cons.prems(2) False by (intro positive_dset) auto
    ultimately show ?thesis using Cons.IH [of ?d d' unsub] Cons.prems(1) False by (auto split: if_splits)
  qed
qed simp

section \<open>Registrations as a multiset\<close>

definition keyed :: "cb_key \<Rightarrow> registration list \<Rightarrow> (cb_key \<times> string option) multiset" where
  "keyed key rs = mset (map (\<lambda>(c, m, sess). (key, sess)) rs)"

lemma keyed_simps [simp]:
  "keyed key [] = {#}" "keyed key (rs @ rs') = keyed key rs + keyed key rs'" "keyed key [(c, m, sess)] = {#(key, sess)#}"
  by (simp_all add: keyed_def)

lemma registrations_simps [simp]:
  "registrations [] = []" "mset (registrations ((key, rs) # d)) = keyed key rs + mset (registrations d)"
  by (simp_all add: registrations_def keyed_def)

lemma registrations_dset:
  "mset (registrations (dset key rs d)) + keyed key (case dget d key of None \<Rightarrow> [] | Some cs \<Rightarrow> cs) =
   mset (registrations d) + keyed key rs"
proof (induction d)
  case (Cons x d)
  then show ?case by (cases x) (auto simp: ac_simps)
qed simp

lemma registrations_dpop:
  "dict_ok d \<Longrightarrow> mset (registrations (dpop key d)) + keyed key (case dget d key of None \<Rightarrow> [] | Some cs \<Rightarrow> cs) = mset (registrations d)"
proof (induction d)
  case (Cons x d)
  obtain k rs where x: "x = (k, rs)" by (cases x)
  have "dict_ok d" using Cons.prems by (simp add: dict_ok_def)
  moreover have "k = key \<Longrightarrow> dpop key d = d" using Cons.prems x by (simp add: dict_ok_def delete_notin_dom)
  ultimately show ?case using Cons x by (cases "k = key") (auto simp: ac_simps)
qed simp

lemma keyed_filter: "keyed key (filter P rs) + keyed key (filter (\<lambda>r. \<not> P r) rs) = keyed key rs"
  by (induction rs) (auto simp: keyed_def)

definition wires :: "bool \<Rightarrow> (cb_key \<times> string option) multiset \<Rightarrow> pattern multiset" where
  "wires routes rs = image_mset (\<lambda>(key, sess). wire_key routes key sess) rs"

lemma wires_simps [simp]:
  "wires routes {#} = {#}" "wires routes (a + b) = wires routes a + wires routes b"
  "wires routes {#(key, sess)#} = {#wire_key routes key sess#}"
  "wires routes (add_mset (key, sess) a) = add_mset (wire_key routes key sess) (wires routes a)"
  by (simp_all add: wires_def)

section \<open>The counts are exact\<close>

definition subs_inv :: "subs \<Rightarrow> bool" where
  "subs_inv s \<longleftrightarrow> dict_ok (rt_callbacks s) \<and> dict_ok (rt_wire s) \<and> dict_ok (rt_held s) \<and> positive (rt_wire s) \<and> positive (rt_held s) \<and>
     (\<forall>w. cget (rt_wire s) w = int (count (wires (rt_routes s) (mset (registrations (rt_callbacks s)))) w) + cget (rt_held s) w) \<and>
     (\<forall>(key, sess) \<in> set (registrations (rt_callbacks s)). sess \<noteq> Some []) \<and>
     (\<forall>w. dget (rt_held s) w \<noteq> None \<longrightarrow> pat_session w = None)"

lemma move_wire_fields [simp]:
  "rt_callbacks (move_wire old new s) = rt_callbacks s" "rt_held (move_wire old new s) = rt_held s"
  "rt_live (move_wire old new s) = rt_live s" "rt_routes (move_wire old new s) = rt_routes s" "rt_gen (move_wire old new s) = rt_gen s"
  by (simp_all add: move_wire_def emit_def Let_def split: prod.splits)

lemma move_wire_wire:
  assumes "positive (rt_wire s)" and "\<forall>w. int (count (mset old) w) \<le> cget (rt_wire s) w + int (count (mset new) w)"
  shows "cget (rt_wire (move_wire old new s)) w = cget (rt_wire s) w + int (count (mset new) w) - int (count (mset old) w) \<and>
    positive (rt_wire (move_wire old new s)) \<and> (dict_ok (rt_wire s) \<longrightarrow> dict_ok (rt_wire (move_wire old new s)))"
proof -
  obtain d1 sub where on: "count_on new (rt_wire s) = (d1, sub)" by (cases "count_on new (rt_wire s)")
  obtain d2 unsub where off: "count_off old d1 = (d2, unsub)" by (cases "count_off old d1")
  note spec1 = count_on_spec [OF on assms(1)]
  have "\<forall>w. int (count (mset old) w) \<le> cget d1 w" using assms(2) spec1 by simp
  note spec2 = count_off_spec [OF off _ this]
  show ?thesis using spec1 spec2 on off by (simp add: move_wire_def emit_def Let_def)
qed

text \<open>A change of the registry whose registrations move from \<open>old\<close> to \<open>new\<close>.\<close>

lemma move_wire_inv:
  assumes inv: "subs_inv s"
    and ok: "dict_ok (rt_callbacks s')" "dict_ok (rt_held s')" "positive (rt_held s')" "\<forall>w. dget (rt_held s') w \<noteq> None \<longrightarrow> pat_session w = None"
      "\<forall>(key, sess) \<in> set (registrations (rt_callbacks s')). sess \<noteq> Some []"
    and wire: "rt_wire s' = rt_wire s"
    and moved: "\<forall>w. int (count (wires (rt_routes s') (mset (registrations (rt_callbacks s')))) w) + cget (rt_held s') w + int (count (mset old) w) =
      int (count (wires (rt_routes s) (mset (registrations (rt_callbacks s)))) w) + cget (rt_held s) w + int (count (mset new) w)"
  shows "subs_inv (move_wire old new s')"
proof -
  have w: "positive (rt_wire s')" "dict_ok (rt_wire s')"
    and eq: "\<And>w. cget (rt_wire s') w = int (count (wires (rt_routes s) (mset (registrations (rt_callbacks s)))) w) + cget (rt_held s) w"
    using inv wire by (auto simp: subs_inv_def)
  have "int (count (mset old) w) \<le> cget (rt_wire s') w + int (count (mset new) w)" for w
    using moved [rule_format, of w] eq [of w] positive_cget [OF ok(3), of w] by linarith
  note mv = move_wire_wire [OF w(1) allI [OF this]]
  have "cget (rt_wire (move_wire old new s')) w =
      int (count (wires (rt_routes s') (mset (registrations (rt_callbacks s')))) w) + cget (rt_held s') w" for w
    using mv [of w] moved [rule_format, of w] eq [of w] by linarith
  then show ?thesis using mv w ok by (simp add: subs_inv_def)
qed


section \<open>Every operation keeps the counts\<close>

lemma registrations_after_dset:
  "mset (registrations (dset key rs (rt_callbacks s))) + keyed key (cbs_at key s) = mset (registrations (rt_callbacks s)) + keyed key rs"
  unfolding cbs_at_def by (rule registrations_dset)

lemma mset_cancel_right: "a + k = r + g \<Longrightarrow> f + g = k \<Longrightarrow> a + f = r" for a f g k r :: "'x multiset"
  by (auto simp: add.assoc [symmetric])

lemma mset_exchange:
  fixes a k m r x y :: "'x multiset"
  assumes "a + k = r + m" and "m + x = k + y"
  shows "a + x = r + y"
proof -
  have "(a + x) + k = (a + k) + x" by (simp add: ac_simps)
  also have "\<dots> = r + (m + x)" by (simp add: assms(1) ac_simps)
  also have "\<dots> = (r + y) + k" by (simp add: assms(2) ac_simps)
  finally show ?thesis by simp
qed

lemma in_mset_part: "mset xs + a = b \<Longrightarrow> x \<in> set xs \<Longrightarrow> x \<in># b"
  by (metis set_mset_mset union_iff)

lemma sessions_ok_mset:
  "(\<forall>(key, sess) \<in> set (registrations d). sess \<noteq> Some []) \<longleftrightarrow> (\<forall>(key, sess) \<in># mset (registrations d). sess \<noteq> Some [])"
  by simp

lemma norm_session_ok [simp]: "norm_session s \<noteq> Some []"
  by (simp add: norm_session_def)

lemma register_callback_inv:
  assumes inv: "subs_inv s" shows "subs_inv (register_callback key cb meta session s)"
proof -
  let ?rs = "cbs_at key s @ [(cb, meta, norm_session session)]"
  have regs: "mset (registrations (dset key ?rs (rt_callbacks s))) = add_mset (key, norm_session session) (mset (registrations (rt_callbacks s)))"
    using registrations_after_dset [of key ?rs s] by simp
  then have "\<forall>(k, sess) \<in> set (registrations (dset key ?rs (rt_callbacks s))). sess \<noteq> Some []"
    unfolding sessions_ok_mset regs using inv by (auto simp: subs_inv_def)
  then show ?thesis unfolding register_callback_def Let_def
    by (intro move_wire_inv [OF inv]) (use inv regs in \<open>auto simp: subs_inv_def\<close>)
qed

lemma wires_keyed: "wires routes (keyed key rs) = mset (map (\<lambda>(c, m, sess). wire_key routes key sess) rs)"
  by (induction rs) (auto simp: keyed_def)

lemma unregister_callback_inv:
  assumes inv: "subs_inv s" shows "subs_inv (unregister_callback key cb only s)"
proof -
  let ?P = "unregisters cb only" and ?keep = "filter (\<lambda>r. \<not> unregisters cb only r) (cbs_at key s)"
  let ?d = "if ?keep \<noteq> [] then dset key ?keep (rt_callbacks s) else dpop key (rt_callbacks s)"
  have ok: "dict_ok (rt_callbacks s)" using inv by (simp add: subs_inv_def)
  have "mset (registrations ?d) + keyed key (cbs_at key s) = mset (registrations (rt_callbacks s)) + keyed key ?keep"
    using registrations_after_dset [of key ?keep s] registrations_dpop [OF ok, of key] by (auto simp: cbs_at_def)
  then have regs: "mset (registrations ?d) + keyed key (filter ?P (cbs_at key s)) = mset (registrations (rt_callbacks s))"
    by (intro mset_cancel_right [OF _ keyed_filter])
  have sess: "\<forall>(k, sess) \<in> set (registrations ?d). sess \<noteq> Some []"
    using inv in_mset_part [OF regs] by (auto simp: subs_inv_def simp del: if_split)
  have "wires r (mset (registrations ?d)) + mset (map (wire_key r key) (map (\<lambda>(c, m, sess). sess) (filter ?P (cbs_at key s)))) =
      wires r (mset (registrations (rt_callbacks s)))" for r
    using arg_cong [OF regs, of "wires r"] by (simp add: wires_keyed case_prod_unfold o_def)
  then have moved: "count (wires r (mset (registrations ?d))) w +
      count (mset (map (wire_key r key) (map (\<lambda>(c, m, sess). sess) (filter ?P (cbs_at key s))))) w =
      count (wires r (mset (registrations (rt_callbacks s)))) w" for r w
    by (metis count_union)
  show ?thesis unfolding unregister_callback_def Let_def
  proof (rule move_wire_inv [OF inv], goal_cases)
    case 5
    show ?case using sess by simp
  next
    case 7
    show ?case using moved by (simp flip: of_nat_add)
  qed (use inv in \<open>auto simp: subs_inv_def\<close>)
qed

lemma keyed_rescoped:
  "keyed key (map (\<lambda>r. if rescopes cb session r then (case r of (c, m, sess) \<Rightarrow> (c, m, new)) else r) rs) +
     replicate_mset (length (filter (rescopes cb session) rs)) (key, session) =
   keyed key rs + replicate_mset (length (filter (rescopes cb session) rs)) (key, new)"
  by (induction rs) (auto simp: keyed_def rescopes_def)

lemma wires_replicate: "wires routes (replicate_mset n (key, sess)) = replicate_mset n (wire_key routes key sess)"
  by (simp add: wires_def)

lemma rescope_callback_inv:
  assumes inv: "subs_inv s" shows "subs_inv (fst (rescope_callback key cb session0 new0 s))"
proof -
  define session where "session = norm_session session0"
  define new where "new = norm_session new0"
  let ?P = "rescopes cb session"
  let ?cbs = "map (\<lambda>r. if ?P r then (case r of (c, m, sess) \<Rightarrow> (c, m, new)) else r) (cbs_at key s)"
  let ?n = "length (filter ?P (cbs_at key s))"
  let ?s = "if dhas (rt_callbacks s) key then s\<lparr>rt_callbacks := dset key ?cbs (rt_callbacks s)\<rparr> else s"
  have "mset (registrations (rt_callbacks ?s)) + keyed key (cbs_at key s) = mset (registrations (rt_callbacks s)) + keyed key ?cbs"
    using registrations_after_dset [of key ?cbs s] by (auto simp: cbs_at_def dhas_def split: option.splits)
  then have regs: "mset (registrations (rt_callbacks ?s)) + replicate_mset ?n (key, session) =
      mset (registrations (rt_callbacks s)) + replicate_mset ?n (key, new)"
    by (intro mset_exchange [OF _ keyed_rescoped])
  have sess: "\<forall>(k, sess) \<in> set (registrations (rt_callbacks ?s)). sess \<noteq> Some []"
  proof clarify
    fix k assume "(k, Some []) \<in> set (registrations (rt_callbacks ?s))"
    from in_mset_part [OF regs this] have "(k, Some []) \<in> set (registrations (rt_callbacks s)) \<or> (k, Some []) = (key, new)"
      by (simp only: union_iff in_replicate_mset set_mset_mset) blast
    moreover have "Some [] \<noteq> new" using norm_session_ok [of new0] by (auto simp: new_def dest: sym)
    ultimately show False using inv by (auto simp: subs_inv_def)
  qed
  have "wires r (mset (registrations (rt_callbacks ?s))) + replicate_mset ?n (wire_key r key session) =
      wires r (mset (registrations (rt_callbacks s))) + replicate_mset ?n (wire_key r key new)" for r
    using arg_cong [OF regs, of "wires r"] by (simp only: wires_simps wires_replicate)
  then have moved: "count (wires r (mset (registrations (rt_callbacks ?s)))) w + count (replicate_mset ?n (wire_key r key session)) w =
      count (wires r (mset (registrations (rt_callbacks s)))) w + count (replicate_mset ?n (wire_key r key new)) w" for r w
    by (metis count_union)
  have frame: "rt_wire ?s = rt_wire s" "rt_held ?s = rt_held s" "rt_routes ?s = rt_routes s" "dict_ok (rt_callbacks ?s)"
    using inv by (auto simp: subs_inv_def)
  have "subs_inv (move_wire (replicate ?n (wire_key (rt_routes s) key session)) (replicate ?n (wire_key (rt_routes s) key new)) ?s)"
    by (rule move_wire_inv [OF inv]) (use inv frame sess moved in \<open>auto simp: subs_inv_def simp flip: of_nat_add\<close>)
  then show ?thesis by (simp only: rescope_callback_def Let_def session_def new_def fst_conv)
qed


lemma plain_session [simp]: "pat_session (plain key) = None"
  by (cases key) (simp add: plain_def wire_key_def)

lemma hold_subscription_inv: "subs_inv s \<Longrightarrow> subs_inv (hold_subscription key s)"
  unfolding hold_subscription_def
  by (rule move_wire_inv) (auto simp: subs_inv_def positive_cget add_pos_nonneg)

lemma release_subscription_inv: "subs_inv s \<Longrightarrow> subs_inv (release_subscription key s)"
proof -
  assume inv: "subs_inv s"
  have pos: "positive (rt_held s)" using inv by (simp add: subs_inv_def)
  show ?thesis
  proof (cases "cget (rt_held s) (plain key) \<le> 0")
    case True
    then have "dget (rt_held s) (plain key) = None" using cget_present [OF pos, of "plain key"] by force
    then have "dpop (plain key) (rt_held s) = rt_held s" by (simp add: delete_notin_dom map_of_eq_None_iff)
    then show ?thesis using inv True by (simp add: release_subscription_def Let_def)
  next
    case False
    let ?n = "cget (rt_held s) (plain key)"
    let ?h = "if ?n - 1 = 0 then dpop (plain key) (rt_held s) else dset (plain key) (?n - 1) (rt_held s)"
    have h: "dict_ok ?h" "positive ?h" "\<forall>w. dget ?h w \<noteq> None \<longrightarrow> pat_session w = None"
        "cget ?h w = cget (rt_held s) w - (if w = plain key then 1 else 0)" for w
      using inv False by (auto simp: subs_inv_def)
    have "subs_inv (move_wire [plain key] [] (s\<lparr>rt_held := ?h\<rparr>))"
      by (rule move_wire_inv [OF inv]) (use inv h in \<open>auto simp: subs_inv_def simp del: if_split\<close>)
    then show ?thesis using False by (simp add: release_subscription_def Let_def)
  qed
qed

lemma rescope_sessions_inv: "subs_inv s \<Longrightarrow> subs_inv (rescope_sessions routes gen s)"
proof -
  assume inv: "subs_inv s"
  let ?all = "registrations (rt_callbacks s)"
  let ?scoped = "filter (\<lambda>(key, sess). sess \<noteq> None) ?all" and ?rest = "filter (\<lambda>x. \<not> (case x of (key, sess) \<Rightarrow> sess \<noteq> None)) ?all"
  have split: "mset ?all = mset ?scoped + mset ?rest"
    unfolding mset_filter by (rule multiset_partition)
  have rest: "wires routes (mset ?rest) = wires (rt_routes s) (mset ?rest)"
    by (auto simp: wires_def wire_key_def intro!: image_mset_cong)
  have part: "wires r (mset ?all) = wires r (mset ?scoped) + wires r (mset ?rest)" for r
    using arg_cong [OF split, of "wires r"] by (simp only: wires_simps)
  have "wires routes (mset ?all) + wires (rt_routes s) (mset ?scoped) =
      wires (rt_routes s) (mset ?all) + wires routes (mset ?scoped)"
    by (simp only: part rest ac_simps)
  moreover have "wires r (mset ?scoped) = mset (map (\<lambda>(key, sess). wire_key r key sess) ?scoped)" for r
    by (simp add: wires_def)
  ultimately have "wires routes (mset ?all) + mset (map (\<lambda>(key, sess). wire_key (rt_routes s) key sess) ?scoped) =
      wires (rt_routes s) (mset ?all) + mset (map (\<lambda>(key, sess). wire_key routes key sess) ?scoped)" by simp
  then have moved: "count (wires routes (mset ?all)) w + count (mset (map (\<lambda>(key, sess). wire_key (rt_routes s) key sess) ?scoped)) w =
      count (wires (rt_routes s) (mset ?all)) w + count (mset (map (\<lambda>(key, sess). wire_key routes key sess) ?scoped)) w" for w
    by (metis count_union)
  have "subs_inv (move_wire (map (\<lambda>(key, sess). wire_key (rt_routes s) key sess) ?scoped)
      (map (\<lambda>(key, sess). wire_key routes key sess) ?scoped) (s\<lparr>rt_routes := routes\<rparr>))"
  proof (rule move_wire_inv [OF inv], goal_cases)
    case 7
    show ?case using moved by (simp flip: of_nat_add)
  qed (use inv in \<open>auto simp: subs_inv_def\<close>)
  then show ?thesis unfolding rescope_sessions_def Let_def using inv by (auto simp only: split: if_split)
qed

lemma counter_update_spec:
  "dict_ok held \<Longrightarrow> positive held \<Longrightarrow> positive d \<Longrightarrow>
   cget (counter_update held d) w = cget d w + cget held w \<and> positive (counter_update held d) \<and> (dict_ok d \<longrightarrow> dict_ok (counter_update held d))"
proof (induction held arbitrary: d)
  case (Cons x held)
  obtain v n where x: "x = (v, n)" by (cases x)
  have n: "0 < n" using Cons.prems(2) x by (auto simp: positive_def dest!: spec [of _ v])
  have ok: "dict_ok held" and new: "dget held v = None"
    using Cons.prems(1) x by (auto simp: dict_ok_def map_of_eq_None_iff)
  then have pos: "positive held" using Cons.prems(2) x unfolding positive_def by (metis fun_upd_apply map_of.simps(2) option.distinct(1) fst_conv snd_conv)
  let ?d = "dset v (cget d v + n) d"
  have "positive ?d" using Cons.prems(3) n positive_cget [OF Cons.prems(3), of v] by (intro positive_dset) auto
  from Cons.IH [OF ok pos this] show ?case
    using x new by (auto simp: counter_update_def cget_def)
qed (simp add: counter_update_def)

lemma wires_unrouted: "wires False (mset rs) = mset (map (\<lambda>(key, sess). plain key) rs)"
  by (auto simp: wires_def plain_def wire_key_def intro!: image_mset_cong)

lemma resync_wire:
  assumes inv: "subs_inv s"
  shows "cget (rt_wire (resync_subscriptions s)) w =
      int (count (wires False (mset (registrations (rt_callbacks s)))) w) + cget (rt_held s) w \<and>
    positive (rt_wire (resync_subscriptions s)) \<and> dict_ok (rt_wire (resync_subscriptions s))"
proof -
  let ?ws = "map (\<lambda>(key, sess). plain key) (registrations (rt_callbacks s))"
  obtain d sub where on: "count_on ?ws [] = (d, sub)" by (cases "count_on ?ws []")
  note c = count_on_spec [OF on positive_Nil]
  have "positive d" using c by blast
  moreover have "dict_ok (rt_held s)" "positive (rt_held s)" using inv by (auto simp: subs_inv_def)
  ultimately have "cget (counter_update (rt_held s) d) w = cget d w + cget (rt_held s) w \<and>
      positive (counter_update (rt_held s) d) \<and> (dict_ok d \<longrightarrow> dict_ok (counter_update (rt_held s) d))"
    by (intro counter_update_spec)
  moreover have "rt_wire (resync_subscriptions s) = counter_update (rt_held s) d"
    using on by (simp add: resync_subscriptions_def Let_def counter_of_def emit_def)
  ultimately show ?thesis using c by (simp add: wires_unrouted)
qed

lemma resync_fields [simp]:
  "rt_callbacks (resync_subscriptions s) = rt_callbacks s" "rt_held (resync_subscriptions s) = rt_held s"
  "rt_routes (resync_subscriptions s) = False" "rt_live (resync_subscriptions s) = True"
  by (simp_all add: resync_subscriptions_def Let_def emit_def)

lemma resync_inv: "subs_inv s \<Longrightarrow> subs_inv (resync_subscriptions s)"
  using resync_wire [of s] by (simp add: subs_inv_def)

lemma rt_subs_do_inv: "subs_inv s \<Longrightarrow> subs_inv (rt_subs_do a s)"
  by (cases a) (simp_all add: register_callback_inv unregister_callback_inv rescope_callback_inv hold_subscription_inv
      release_subscription_inv rescope_sessions_inv resync_inv, simp_all add: subs_inv_def subs_down_def)

lemma new_subs_inv: "subs_inv new_subs"
  by (simp add: subs_inv_def new_subs_def wires_def)


section \<open>What the broker has after the frames under way\<close>

fun apply_frame :: "sub_frame \<Rightarrow> pattern list \<Rightarrow> pattern list" where
  "apply_frame (Subscribe ps) cur = cur @ ps"
| "apply_frame (Unsubscribe ps) cur = fold remove1 ps cur"

fun frame_patterns :: "sub_frame \<Rightarrow> pattern list" where
  "frame_patterns (Subscribe ps) = ps"
| "frame_patterns (Unsubscribe ps) = ps"

definition sendable :: "pattern \<Rightarrow> bool" where
  "sendable w \<longleftrightarrow> pat_session w \<noteq> Some []"

lemma request_patterns_doc:
  assumes "\<forall>w \<in> set (frame_patterns f). sendable w"
  shows "request_patterns (frame_doc f) = frame_patterns f"
proof -
  have "List.map_filter parse_pattern (map (PDict \<circ> dump_pattern) ps) = ps" for ps
    by (induction ps) (simp_all add: List.map_filter_def pattern_roundtrip)
  moreover have "map normal_session (frame_patterns f) = frame_patterns f"
    using assms by (auto simp: normal_session_def sendable_def intro: map_idI)
  ultimately show ?thesis by (cases f) (simp_all add: request_patterns_def frame_doc_def pget_def)
qed

lemma subscribed_after_frame:
  assumes "\<forall>w \<in> set (frame_patterns f). sendable w"
  shows "subscribed (broker_takes name f r) name = apply_frame f (subscribed r name)"
  using request_patterns_doc [OF assms]
  by (cases f) (auto simp: broker_takes_def update_subscription_def reindex_def setdefault_subs_def subscribed_def dhas_def Let_def
      split: option.splits)

lemma subscribed_lifecycle [simp]:
  "subscribed (restart_sender name r) name' = subscribed r name'"
  by (auto simp: subscribed_def restart_sender_def pause_sender_def Let_def split: option.splits)

lemma in_fold_remove1: "w \<notin> set ws \<Longrightarrow> w \<in> set L \<Longrightarrow> w \<in> set (fold remove1 ws L)"
  by (induction ws arbitrary: L) (auto simp: in_set_remove1)

lemma count_on_sub: "count_on ws d = (d', sub) \<Longrightarrow> set sub \<subseteq> set ws"
  by (induction ws arbitrary: d d' sub) (fastforce split: prod.splits if_splits)+

lemma count_off_mono:
  "count_off ws d = (d', unsub) \<Longrightarrow> positive d \<Longrightarrow>
     positive d' \<and> cget d' w \<le> cget d w \<and> (w \<in> set unsub \<longrightarrow> cget d' w = 0) \<and> set unsub \<subseteq> set ws"
proof (induction ws arbitrary: d d' unsub)
  case (Cons v ws)
  show ?case
  proof (cases "cget d v - 1 \<le> 0")
    case True
    obtain d1 u1 where r: "count_off ws (dpop v d) = (d1, u1)" by (cases "count_off ws (dpop v d)")
    from Cons.IH [OF r positive_dpop [OF Cons.prems(2)]] show ?thesis
      using Cons.prems True r positive_cget [OF Cons.prems(2), of v] positive_cget [of d1 v] by (auto split: if_splits)
  next
    case False
    then have "positive (dset v (cget d v - 1) d)" using Cons.prems(2) by (intro positive_dset) auto
    from Cons.IH [OF _ this, of d' unsub] show ?thesis using Cons.prems False by (auto split: if_splits)
  qed
qed simp

definition covers :: "pattern list \<Rightarrow> subs \<Rightarrow> bool" where
  "covers cur s \<longleftrightarrow> (\<forall>w. 0 < cget (rt_wire s) w \<longrightarrow> w \<in> set (fold apply_frame (rt_outbox s) cur))"

definition sendable_out :: "subs \<Rightarrow> bool" where
  "sendable_out s \<longleftrightarrow> (\<forall>f \<in> set (rt_outbox s). \<forall>w \<in> set (frame_patterns f). sendable w)"

text \<open>All calls on the registry change the counters and the outbox through \<open>_move_wire\<close> alone.\<close>

definition wire_step :: "subs \<Rightarrow> subs \<Rightarrow> bool" where
  "wire_step s s2 \<longleftrightarrow> (\<exists>s1 old new. s2 = move_wire old new s1 \<and> rt_wire s1 = rt_wire s \<and> rt_outbox s1 = rt_outbox s \<and>
     rt_live s1 = rt_live s \<and> (\<forall>w \<in> set old \<union> set new. sendable w))"

lemma wire_stepI:
  "rt_wire s1 = rt_wire s \<Longrightarrow> rt_outbox s1 = rt_outbox s \<Longrightarrow> rt_live s1 = rt_live s \<Longrightarrow> \<forall>w \<in> set old \<union> set new. sendable w \<Longrightarrow>
   wire_step s (move_wire old new s1)"
  unfolding wire_step_def by blast

lemma move_wire_nothing: "move_wire [] [] s = s"
  by (simp add: move_wire_def emit_def)

lemma wire_step_same:
  "rt_wire s1 = rt_wire s \<Longrightarrow> rt_outbox s1 = rt_outbox s \<Longrightarrow> rt_live s1 = rt_live s \<Longrightarrow> wire_step s s1"
  using wire_stepI [of s1 s "[]" "[]"] by (simp add: move_wire_nothing)

lemma wire_step_keeps:
  assumes "wire_step s s2" and pos: "positive (rt_wire s)" and "sendable_out s"
  shows "sendable_out s2 \<and> rt_live s2 = rt_live s \<and> (rt_live s \<longrightarrow> covers cur s \<longrightarrow> covers cur s2)"
proof -
  obtain s1 old new where s2: "s2 = move_wire old new s1" and same: "rt_wire s1 = rt_wire s" "rt_outbox s1 = rt_outbox s"
      "rt_live s1 = rt_live s" and ok: "\<forall>w \<in> set old \<union> set new. sendable w"
    using assms(1) by (auto simp: wire_step_def)
  obtain d1 sub where on: "count_on new (rt_wire s) = (d1, sub)" by (cases "count_on new (rt_wire s)")
  obtain d2 unsub where off: "count_off old d1 = (d2, unsub)" by (cases "count_off old d1")
  note on_spec = count_on_spec [OF on pos]
  then have pos1: "positive d1" by blast
  note off_spec = count_off_mono [OF off pos1]
  have new: "rt_wire s2 = d2" "rt_live s2 = rt_live s"
      "rt_outbox s2 = rt_outbox s @ (if rt_live s then (if sub \<noteq> [] then [Subscribe sub] else []) @ (if unsub \<noteq> [] then [Unsubscribe unsub] else []) else [])"
    using on off same by (simp_all add: s2 move_wire_def emit_def Let_def)
  have "set unsub \<subseteq> set old" using off_spec by blast
  then have "sendable_out s2"
    using assms(3) ok count_on_sub [OF on] by (auto simp: sendable_out_def new(3) subset_iff)
  moreover have "covers cur s2" if live: "rt_live s" and cov: "covers cur s"
    unfolding covers_def
  proof (intro allI impI)
    fix w assume w: "0 < cget (rt_wire s2) w"
    let ?L = "fold apply_frame (rt_outbox s) cur"
    have "w \<notin> set unsub" "0 < cget d1 w" using w off_spec [of w] by (auto simp: new(1))
    moreover from this have "w \<in> set (?L @ sub)" using on_spec [of w] cov by (auto simp: covers_def)
    ultimately have "w \<in> set (fold remove1 unsub (?L @ sub))" by (intro in_fold_remove1)
    then show "w \<in> set (fold apply_frame (rt_outbox s2) cur)" using live by (auto simp: new(3))
  qed
  ultimately show ?thesis using new(2) by blast
qed


section \<open>No event is filtered out at the broker\<close>

lemma sendable_wire_key: "sess \<noteq> Some [] \<Longrightarrow> sendable (wire_key routes key sess)"
  by (cases key) (simp add: sendable_def wire_key_def)

lemma sendable_plain [simp]: "sendable (plain key)"
  by (simp add: sendable_def)

lemma cbs_registered: "(c, m, sess) \<in> set (cbs_at key s) \<Longrightarrow> (key, sess) \<in> set (registrations (rt_callbacks s))"
proof -
  assume m: "(c, m, sess) \<in> set (cbs_at key s)"
  then obtain rs where rs: "dget (rt_callbacks s) key = Some rs" "(c, m, sess) \<in> set rs"
    by (cases "dget (rt_callbacks s) key") (simp_all add: cbs_at_def)
  have "(key, sess) \<in> (\<lambda>(c, m, sess). (key, sess)) ` set rs" by (rule image_eqI [OF _ rs(2)]) simp
  then show ?thesis unfolding registrations_def set_concat set_map
    by (intro UN_I [OF imageI [OF map_of_SomeD [OF rs(1)]]]) simp
qed

lemma registry_wire_step:
  assumes inv: "subs_inv s" and a: "case a of Notices \<Rightarrow> False | Reconnects r \<Rightarrow> False | Delivers \<Rightarrow> False | Loses \<Rightarrow> False | _ \<Rightarrow> True"
  shows "wire_step s (rt_subs_do a s)"
proof (cases a)
  case (Registers key cb meta session)
  then show ?thesis by (auto simp: register_callback_def Let_def intro!: wire_stepI sendable_wire_key)
next
  case (Unregisters key cb only)
  have "(c, m, Some []) \<notin> set (cbs_at key s)" for c m
    using inv cbs_registered [of c m "Some []" key s] by (auto simp: subs_inv_def)
  then show ?thesis using Unregisters
    by (auto simp: unregister_callback_def Let_def intro!: wire_stepI sendable_wire_key)
next
  case (Rescopes key cb session new)
  then show ?thesis by (auto simp: rescope_callback_def Let_def intro!: wire_stepI sendable_wire_key)
next
  case (Holds key)
  then show ?thesis by (auto simp: hold_subscription_def intro!: wire_stepI)
next
  case (Releases key)
  then show ?thesis by (auto simp: release_subscription_def Let_def intro!: wire_stepI intro: wire_step_same)
next
  case (Topology_Says routes gen)
  have "(key, Some []) \<notin> set (registrations (rt_callbacks s))" for key
    using inv by (auto simp: subs_inv_def)
  then show ?thesis using Topology_Says
    by (auto simp: rescope_sessions_def Let_def intro!: wire_stepI sendable_wire_key intro: wire_step_same)
qed (use a in \<open>auto intro!: wire_step_same\<close>)

lemma resync_covers:
  assumes inv: "subs_inv s" and out: "sendable_out s"
  shows "covers cur (resync_subscriptions s) \<and> sendable_out (resync_subscriptions s)"
proof -
  let ?r = "resync_subscriptions s"
  have pos: "positive (rt_wire ?r)" using resync_wire [OF inv] by blast
  have inv2: "subs_inv ?r" by (rule resync_inv [OF inv])
  have keys: "w \<in> fst ` set (rt_wire ?r) \<longleftrightarrow> 0 < cget (rt_wire ?r) w" for w
    using cget_present [OF pos, of w] by (auto simp: map_of_eq_None_iff)
  have "sendable w" if "0 < cget (rt_wire ?r) w" for w
  proof -
    have "0 < count (wires False (mset (registrations (rt_callbacks s)))) w \<or> 0 < cget (rt_held s) w"
      using that resync_wire [OF inv, of w] by linarith
    then have "pat_session w = None"
      using inv cget_present [of "rt_held s" w] by (auto simp: wires_unrouted subs_inv_def)
    then show ?thesis by (simp add: sendable_def)
  qed
  moreover have "rt_outbox ?r = rt_outbox s @ (if rt_wire ?r \<noteq> [] then [Subscribe (map fst (rt_wire ?r))] else [])"
    by (simp add: resync_subscriptions_def Let_def emit_def)
  ultimately show ?thesis
    using out keys by (auto simp: covers_def sendable_out_def)
qed

definition sys_inv :: "string \<Rightarrow> 'b rt_system \<Rightarrow> bool" where
  "sys_inv name y \<longleftrightarrow> subs_inv (sy_subs y) \<and> sendable_out (sy_subs y) \<and>
     (sy_conn y \<longrightarrow> rt_live (sy_subs y) \<and> covers (subscribed (sy_router y) name) (sy_subs y))"

lemma rt_do_inv:
  assumes inv: "sys_inv name y" and d: "rt_do name a y = Some y'"
  shows "sys_inv name y'"
proof -
  let ?s = "sy_subs y"
  have sinv: "subs_inv ?s" "sendable_out ?s" "positive (rt_wire ?s)" using inv by (auto simp: sys_inv_def subs_inv_def)
  have sinv': "subs_inv (rt_subs_do a ?s)" by (rule rt_subs_do_inv [OF sinv(1)])
  note keeps = wire_step_keeps [OF registry_wire_step [OF sinv(1)] sinv(3,2)]
  show ?thesis
  proof (cases a)
    case Delivers
    then obtain f fs where out: "rt_outbox ?s = f # fs" and conn: "sy_conn y"
        and y': "y' = y\<lparr>sy_subs := ?s\<lparr>rt_outbox := fs\<rparr>, sy_router := broker_takes name f (sy_router y)\<rparr>"
      using d by (auto simp: rt_do_def Let_def split: list.splits if_splits)
    have ok: "\<forall>w \<in> set (frame_patterns f). sendable w" using sinv(2) out by (simp add: sendable_out_def)
    then show ?thesis
      using inv conn out sinv' Delivers subscribed_after_frame [OF ok, of name "sy_router y"]
      by (auto simp: y' sys_inv_def sendable_out_def covers_def)
  next
    case Loses
    then show ?thesis using d sinv' sinv(2) inv
      by (auto simp: rt_do_def sys_inv_def sendable_out_def dest!: list.set_sel(2) [rotated] split: if_splits)
  next
    case (Reconnects resumed)
    then show ?thesis using d sinv' resync_covers [OF sinv(1,2)]
      by (auto simp: rt_do_def Let_def sys_inv_def split: if_splits)
  qed (use d inv sinv' keeps [of a] in \<open>auto simp: rt_do_def Let_def sys_inv_def subs_down_def sendable_out_def split: if_splits\<close>)
qed

lemma rt_reachable_inv: "rt_reachable name y \<Longrightarrow> sys_inv name y"
proof (induction rule: rt_reachable.induct)
  case (start n)
  show ?case using new_subs_inv by (simp add: sys_inv_def sendable_out_def new_subs_def)
next
  case (act y a y')
  then show ?case by (blast intro: rt_do_inv)
next
  case (other y r)
  then show ?case by (simp add: sys_inv_def)
qed


lemma on_event_registered:
  assumes "(c, m) \<in> set (on_event endpoint plugin topic session s)"
  shows "\<exists>key sess. (key, sess) \<in> set (registrations (rt_callbacks s)) \<and> key_admits key endpoint plugin topic \<and>
    session_admits sess (norm_session session)"
proof -
  obtain kr where kr: "kr \<in> set (rt_callbacks s)"
      "(c, m) \<in> set (case kr of (key, rs) \<Rightarrow> if key_admits key endpoint plugin topic
          then map (\<lambda>(c, m, sess). (c, m)) (filter (\<lambda>(c, m, sess). session_admits sess (norm_session session)) rs) else [])"
    using assms unfolding on_event_def Let_def set_concat set_map by blast
  obtain key rs where k2: "kr = (key, rs)" by (rule prod.exhaust)
  with kr(1) have k: "(key, rs) \<in> set (rt_callbacks s)" "kr = (key, rs)" by simp_all
  with kr(2) have admits: "key_admits key endpoint plugin topic" by (auto split: if_splits)
  with kr(2) k(2) obtain sess where r: "(c, m, sess) \<in> set rs" "session_admits sess (norm_session session)" by auto
  have "(key, sess) \<in> (\<lambda>(c, m, sess). (key, sess)) ` set rs" by (rule image_eqI [OF _ r(1)]) simp
  then have "(key, sess) \<in> set (registrations (rt_callbacks s))" unfolding registrations_def set_concat set_map
    by (intro UN_I [OF imageI [OF k(1)]]) simp
  with admits r(2) show ?thesis by blast
qed

lemma wire_key_admits:
  "key_admits key endpoint plugin topic \<Longrightarrow> session_admits sess session \<Longrightarrow>
   pattern_admits (wire_key routes key sess) endpoint (PStr plugin) (PStr topic) (map_option PStr session)"
  by (cases key) (auto simp: key_admits_def session_admits_def wire_key_def pattern_admits_def field_admits_def split: option.splits)

lemma registered_on_wire:
  assumes "subs_inv s" and "(key, sess) \<in> set (registrations (rt_callbacks s))"
  shows "0 < cget (rt_wire s) (wire_key (rt_routes s) key sess)"
proof -
  have "wire_key (rt_routes s) key sess \<in># wires (rt_routes s) (mset (registrations (rt_callbacks s)))"
    using assms(2) by (force simp: wires_def)
  then have "0 < count (wires (rt_routes s) (mset (registrations (rt_callbacks s)))) (wire_key (rt_routes s) key sess)" by simp
  moreover have "positive (rt_held s)" using assms(1) by (simp add: subs_inv_def)
  moreover have "cget (rt_wire s) (wire_key (rt_routes s) key sess) =
      int (count (wires (rt_routes s) (mset (registrations (rt_callbacks s)))) (wire_key (rt_routes s) key sess)) +
      cget (rt_held s) (wire_key (rt_routes s) key sess)"
    using assms(1) unfolding subs_inv_def by blast
  ultimately show ?thesis using positive_cget [of "rt_held s" "wire_key (rt_routes s) key sess"] by linarith
qed

text \<open>C35. While connected and with no frame under way, the broker holds, for every event that a registered callback
  would be given, a pattern of this participant that matches it, whatever registrations, moves between sessions, lost
  frames, resumed or fresh connections came before.\<close>

theorem callbacks_never_filtered_out:
  assumes "rt_reachable name y" and "sy_conn y" and "rt_outbox (sy_subs y) = []"
    and "(c, m) \<in> set (on_event endpoint plugin topic session (sy_subs y))"
  shows "matches (subscribed (sy_router y) name) endpoint (PStr plugin) (PStr topic) (map_option PStr (norm_session session))"
proof -
  have inv: "subs_inv (sy_subs y)" "covers (subscribed (sy_router y) name) (sy_subs y)"
    using rt_reachable_inv [OF assms(1)] assms(2) by (auto simp: sys_inv_def)
  obtain key sess where reg: "(key, sess) \<in> set (registrations (rt_callbacks (sy_subs y)))" and
      admits: "key_admits key endpoint plugin topic" "session_admits sess (norm_session session)"
    using on_event_registered [OF assms(4)] by blast
  let ?w = "wire_key (rt_routes (sy_subs y)) key sess"
  have "?w \<in> set (subscribed (sy_router y) name)"
    using inv(2) registered_on_wire [OF inv(1) reg] assms(3) by (simp add: covers_def)
  then show ?thesis using wire_key_admits [OF admits] unfolding matches_iff by blast
qed

text \<open>At any time the count of a pattern on the wire is the number of registrations that need it plus the number of
  holds on it, so a pattern is withdrawn only with its last user.\<close>

theorem wire_counts_exact:
  assumes "rt_reachable name y"
  shows "cget (rt_wire (sy_subs y)) w =
    int (length (filter (\<lambda>(key, sess). wire_key (rt_routes (sy_subs y)) key sess = w) (registrations (rt_callbacks (sy_subs y))))) +
    cget (rt_held (sy_subs y)) w"
proof -
  have "count (wires routes (mset rs)) w = length (filter (\<lambda>(key, sess). wire_key routes key sess = w) rs)" for routes rs
    by (induction rs) auto
  then show ?thesis using rt_reachable_inv [OF assms] by (simp add: sys_inv_def subs_inv_def)
qed

section \<open>Concrete runs\<close>

fun rt_run :: "string \<Rightarrow> rt_action list \<Rightarrow> nat rt_system \<Rightarrow> nat rt_system option" where
  "rt_run name [] y = Some y"
| "rt_run name (a # as) y = (case rt_do name a y of None \<Rightarrow> None | Some y1 \<Rightarrow> rt_run name as y1)"

lemma rt_run_reachable: "rt_reachable name y \<Longrightarrow> rt_run name as y = Some y' \<Longrightarrow> rt_reachable name y'"
proof (induction as arbitrary: y)
  case (Cons a as)
  from Cons.prems(2) obtain y1 where a: "rt_do name a y = Some y1" and run: "rt_run name as y1 = Some y'"
    by (auto split: option.splits)
  show ?case by (rule Cons.IH [OF rt_reachable.act [OF Cons.prems(1) a] run])
qed simp

definition rt_start :: "nat rt_system" where
  "rt_start = \<lparr>sy_subs = new_subs, sy_router = new_router 4, sy_conn = False\<rparr>"

definition rt_after :: "rt_action list \<Rightarrow> nat rt_system" where
  "rt_after as = the (rt_run ''cl'' as rt_start)"

lemma rt_after_reachable: "rt_run ''cl'' as rt_start \<noteq> None \<Longrightarrow> rt_reachable ''cl'' (rt_after as)"
  by (auto simp: rt_after_def rt_start_def intro: rt_run_reachable [OF rt_reachable.start])

definition demo_key :: cb_key where
  "demo_key = (Some ''ep'', Some ''psij'', Some ''job'')"

text \<open>A callback of one session is registered offline; on the connection its pattern moves to the session form.\<close>

definition demo_connected :: "rt_action list" where
  "demo_connected = [Registers demo_key 1 False (Some ''s1''), Reconnects False, Delivers,
     Topology_Says True (Some 1), Delivers, Delivers]"

lemma demo_connected_reachable: "rt_reachable ''cl'' (rt_after demo_connected)"
  by (rule rt_after_reachable) code_simp

theorem callbacks_never_filtered_out_witness:
  "matches (subscribed (sy_router (rt_after demo_connected)) ''cl'') ''ep'' (PStr ''psij'') (PStr ''job'') (Some (PStr ''s1'')) \<and>
   map pat_session (subscribed (sy_router (rt_after demo_connected)) ''cl'') = [Some ''s1'']"
proof -
  have "sy_conn (rt_after demo_connected)" "rt_outbox (sy_subs (rt_after demo_connected)) = []"
    "(1, False) \<in> set (on_event ''ep'' ''psij'' ''job'' (Some ''s1'') (sy_subs (rt_after demo_connected)))"
    "map pat_session (subscribed (sy_router (rt_after demo_connected)) ''cl'') = [Some ''s1'']"
    by code_simp+
  then show ?thesis
    using callbacks_never_filtered_out [OF demo_connected_reachable, of 1 False "''ep''" "''psij''" "''job''" "Some ''s1''"]
    by (simp add: norm_session_def)
qed

theorem wire_counts_exact_witness:
  "cget (rt_wire (sy_subs (rt_after demo_connected))) (wire_key True demo_key (Some ''s1'')) = 1"
proof -
  have "length (filter (\<lambda>(key, sess). wire_key (rt_routes (sy_subs (rt_after demo_connected))) key sess = wire_key True demo_key (Some ''s1''))
      (registrations (rt_callbacks (sy_subs (rt_after demo_connected))))) = 1"
    "cget (rt_held (sy_subs (rt_after demo_connected))) (wire_key True demo_key (Some ''s1'')) = 0"
    by code_simp+
  then show ?thesis using wire_counts_exact [OF demo_connected_reachable, of "wire_key True demo_key (Some ''s1'')"] by simp
qed

definition demo_resumed :: "rt_action list" where
  "demo_resumed = [Registers demo_key 1 False None, Reconnects False, Delivers, Breaks, Notices, Reconnects True, Delivers,
     Unregisters demo_key 1 None, Delivers]"

text \<open>After a connection that the broker lets resume, its list holds every pattern twice, because the runtime sends
  its whole set again and the broker appends it; the withdrawal of the last user takes one of them away, and the broker
  goes on sending events for which no callback is registered.\<close>

theorem resume_leaves_subscription:
  "rt_run ''cl'' demo_resumed rt_start \<noteq> None \<and> rt_callbacks (sy_subs (rt_after demo_resumed)) = [] \<and>
   rt_wire (sy_subs (rt_after demo_resumed)) = [] \<and> rt_outbox (sy_subs (rt_after demo_resumed)) = [] \<and>
   subscribed (sy_router (rt_after demo_resumed)) ''cl'' = [plain demo_key] \<and>
   matches (subscribed (sy_router (rt_after demo_resumed)) ''cl'') ''ep'' (PStr ''psij'') (PStr ''job'') None"
  by code_simp

end
