(* ===== verification/Py_Strings.thy ===== *)
theory Py_Strings
  imports Py_Numbers
begin

text \<open>
  String methods of the language on code points below 256: \<open>split\<close> with and without a limit, \<open>splitlines\<close>, \<open>join\<close>,
  \<open>upper\<close>, and what \<open>strip\<close> leaves.
\<close>

section \<open>Splitting\<close>

text \<open>\<open>s.split(c, 1)\<close>: what comes before the first \<open>c\<close>, and the rest if there is one; \<open>s.split(c)\<close>.\<close>

definition split_once :: "char \<Rightarrow> string \<Rightarrow> string \<times> string option" where
  "split_once c s = (takeWhile ((\<noteq>) c) s, case dropWhile ((\<noteq>) c) s of [] \<Rightarrow> None | x # r \<Rightarrow> Some r)"

fun split_all :: "char \<Rightarrow> string \<Rightarrow> string list" where
  "split_all c [] = [[]]"
| "split_all c (x # s) = (if x = c then [] # split_all c s
     else case split_all c s of [] \<Rightarrow> [[x]] | p # ps \<Rightarrow> (x # p) # ps)"

definition text_before :: "char \<Rightarrow> string \<Rightarrow> string" where
  "text_before c s = fst (split_once c s)"

definition is_eol :: "char \<Rightarrow> bool" where
  "is_eol c \<longleftrightarrow> char_nat c \<in> {10, 11, 12, 13, 28, 29, 30, 133}"

text \<open>\<open>splitlines\<close>; the flag says that a line feed would still belong to the last line end.\<close>

fun lines_from :: "bool \<Rightarrow> string \<Rightarrow> string \<Rightarrow> string list" where
  "lines_from after_cr line [] = (if line = [] then [] else [rev line])"
| "lines_from after_cr line (c # s) =
     (if after_cr \<and> char_nat c = 10 then lines_from False [] s
      else if is_eol c then rev line # lines_from (char_nat c = 13) [] s
      else lines_from False (c # line) s)"

definition split_lines :: "string \<Rightarrow> string list" where
  "split_lines s = lines_from False [] s"

fun join :: "string \<Rightarrow> string list \<Rightarrow> string" where
  "join sep [] = []"
| "join sep [x] = x"
| "join sep (x # xs) = x @ sep @ join sep xs"

definition newline :: char where
  "newline = char_of (10 :: nat)"

definition upper_char :: "char \<Rightarrow> char" where
  "upper_char c = (if 97 \<le> char_nat c \<and> char_nat c \<le> 122 then char_of (char_nat c - 32) else c)"

definition lstrip :: "string \<Rightarrow> string" where
  "lstrip s = dropWhile is_space s"

definition begins_with :: "string \<Rightarrow> string \<Rightarrow> bool" where
  "begins_with p s \<longleftrightarrow> take (length p) s = p"

section \<open>Laws\<close>

lemma split_once_found: "c \<notin> set a \<Longrightarrow> split_once c (a @ c # b) = (a, Some b)"
  by (induction a) (auto simp: split_once_def)

lemma split_once_absent: "c \<notin> set a \<Longrightarrow> split_once c a = (a, None)"
  by (induction a) (auto simp: split_once_def)

lemma split_all_absent: "c \<notin> set a \<Longrightarrow> split_all c a = [a]"
  by (induction a) auto

lemma split_all_found: "c \<notin> set a \<Longrightarrow> split_all c (a @ c # b) = a # split_all c b"
  by (induction a) auto

text \<open>A text without white space at its ends.\<close>

definition stripped :: "string \<Rightarrow> bool" where
  "stripped s \<longleftrightarrow> s = [] \<or> \<not> is_space (hd s) \<and> \<not> is_space (last s)"

lemma dropWhile_hd: "s \<noteq> [] \<Longrightarrow> \<not> P (hd s) \<Longrightarrow> dropWhile P s = s"
  by (cases s) auto

lemma strip_stripped: "stripped s \<Longrightarrow> strip s = s"
proof (cases "s = []")
  case False
  assume "stripped s"
  then have "dropWhile is_space s = s" "dropWhile is_space (rev s) = rev s"
    using False by (auto simp: stripped_def hd_rev intro: dropWhile_hd)
  then show ?thesis by (simp add: strip_def)
qed (simp add: strip_def)

lemma dropWhile_all: "list_all P a \<Longrightarrow> dropWhile P (a @ b) = dropWhile P b"
  by (induction a) auto

lemma dropWhile_none: "list_all P a \<Longrightarrow> dropWhile P a = []"
  by (induction a) auto

lemma strip_padded: "stripped s \<Longrightarrow> list_all is_space a \<Longrightarrow> list_all is_space b \<Longrightarrow> strip (a @ s @ b) = s"
proof (cases "s = []")
  case True
  assume "list_all is_space a" "list_all is_space b"
  then have "dropWhile is_space (a @ b) = []" by (simp add: dropWhile_all dropWhile_none)
  then show ?thesis unfolding strip_def True append_Nil by (simp only: rev.simps dropWhile.simps)
next
  case False
  assume s: "stripped s" and a: "list_all is_space a" and b: "list_all is_space b"
  have "dropWhile is_space (a @ s @ b) = s @ b" using s False a by (simp add: dropWhile_all dropWhile_hd stripped_def)
  moreover have "dropWhile is_space (rev (s @ b)) = rev s"
    using s False b by (simp add: dropWhile_all dropWhile_hd stripped_def hd_rev list_all_iff)
  ultimately show ?thesis by (simp add: strip_def)
qed

lemma lines_from_one:
  "list_all (\<lambda>c. \<not> is_eol c) a \<Longrightarrow> (after_cr \<longrightarrow> a \<noteq> []) \<Longrightarrow>
    lines_from after_cr line (a @ newline # s) = (rev line @ a) # lines_from False [] s"
proof (induction a arbitrary: line after_cr)
  case Nil
  then show ?case by (simp add: newline_def is_eol_def char_nat_def)
next
  case (Cons c a)
  then have "char_nat c \<noteq> 10" by (simp add: is_eol_def)
  then show ?case using Cons by simp
qed

lemma split_lines_join:
  "\<forall>l \<in> set ls. list_all (\<lambda>c. \<not> is_eol c) l \<Longrightarrow> split_lines (concat (map (\<lambda>l. l @ [newline]) ls)) = ls"
proof (induction ls)
  case Nil
  then show ?case by (simp add: split_lines_def)
next
  case (Cons l ls)
  then show ?case using lines_from_one [of l False "[]"] by (simp add: split_lines_def)
qed

text \<open>A dictionary that lacks a key gets it at its end.\<close>

lemma dset_absent: "k \<notin> fst ` set d \<Longrightarrow> dset k v d = d @ [(k, v)]"
  by (induction d) auto

end
