(* ===== verification/Runtime_Calls.thy ===== *)
theory Runtime_Calls
  imports Broker Py_Strings
begin

text \<open>
  Requests and calls of an endpoint runtime (\<^verbatim>\<open>runtime.py\<close>, \<open>_emit\<close> to \<open>call\<close> and \<open>_on_topology\<close>; \<open>match_route\<close> of
  \<^verbatim>\<open>dispatch.py\<close>, \<open>make_response\<close> and \<open>pack_or_error\<close> of \<^verbatim>\<open>protocol.py\<close>): the admission of requests under a cap, the
  dispatch of one to a handler with the trusted owner header, its one answer; the table of the runtime's own calls that
  wait for a response; and the topology with the synthesized losses.  What a handler does is an input, as are the regular
  expression of a route, \<open>unquote\<close> and the packed size of an envelope.  A JSON body is the document it encodes.
\<close>

section \<open>Envelopes\<close>

datatype rn_body = Raw string | Json pyval

type_synonym headers = "(string \<times> string) list"

record rn_request =
  q_src :: string
  q_dst :: string
  q_corr :: "string option"
  q_method :: string
  q_path :: string
  q_headers :: headers
  q_body :: rn_body

record rn_response =
  a_src :: string
  a_dst :: string
  a_corr :: "string option"
  a_status :: nat
  a_headers :: headers
  a_body :: rn_body

datatype envelope = Request_Env rn_request | Response_Env rn_response

definition make_response :: "rn_request \<Rightarrow> nat \<Rightarrow> headers \<Rightarrow> rn_body \<Rightarrow> rn_response" where
  "make_response q status hs body = \<lparr>a_src = q_dst q, a_dst = q_src q, a_corr = q_corr q, a_status = status,
     a_headers = hs, a_body = body\<rparr>"

definition error_body :: "nat \<Rightarrow> pyval \<Rightarrow> rn_body" where
  "error_body status detail = Json (PDict [(''error'', PBool True), (''status_code'', PInt (int status)), (''detail'', detail)])"

definition json_type :: headers where
  "json_type = [(''content-type'', ''application/json'')]"

section \<open>Routes\<close>

text \<open>A route of \<open>app.state.direct_routes\<close>: the method, what the compiled pattern makes of a path (its groups), the
  parameter names, and the handler.\<close>

type_synonym route = "string \<times> (string \<Rightarrow> string list option) \<times> string list \<times> nat"

definition dict_of :: "('k \<times> 'v) list \<Rightarrow> ('k \<times> 'v) list" where
  "dict_of kvs = fold (\<lambda>(k, v) d. dset k v d) kvs []"

fun match_route :: "route list \<Rightarrow> string \<Rightarrow> string \<Rightarrow> (nat \<times> headers) option" where
  "match_route [] method path = None"
| "match_route ((rm, pattern, names, handler) # rs) method path =
     (if rm = method
      then (case pattern path of
              Some groups \<Rightarrow> Some (handler, dict_of (zip names groups))
            | None \<Rightarrow> match_route rs method path)
      else match_route rs method path)"

text \<open>\<open>parse_qsl\<close> and the query dictionary.\<close>

definition parse_qsl :: "(string \<Rightarrow> string) \<Rightarrow> string \<Rightarrow> headers" where
  "parse_qsl unquote qs = concat (map (\<lambda>item. case split_once CHR ''='' item of
       (k, Some (v # vs)) \<Rightarrow> [(unquote (map (\<lambda>c. if c = CHR ''+'' then CHR '' '' else c) k),
                              unquote (map (\<lambda>c. if c = CHR ''+'' then CHR '' '' else c) (v # vs)))]
     | _ \<Rightarrow> []) (split_all CHR ''&'' qs))"

definition split_query :: "(string \<Rightarrow> string) \<Rightarrow> string \<Rightarrow> string \<times> headers" where
  "split_query unquote path = (case split_once CHR ''?'' path of
     (p, None) \<Rightarrow> (p, []) | (p, Some qs) \<Rightarrow> (p, dict_of (parse_qsl unquote qs)))"

section \<open>Dispatch\<close>

definition lower_key :: "string \<Rightarrow> string" where
  "lower_key k = map lower_char k"

text \<open>The request as the handler sees it (\<open>RequestShim\<close>).\<close>

record shim =
  sh_path_params :: headers
  sh_query :: headers
  sh_body :: rn_body
  sh_content_type :: string
  sh_headers :: headers

definition owner_headers :: "rn_request \<Rightarrow> headers" where
  "owner_headers q = dset ''x-orbit-src'' (q_src q) (filter (\<lambda>(k, v). lower_key k \<noteq> ''x-orbit-src'') (q_headers q))"

definition content_type_of :: "headers \<Rightarrow> string" where
  "content_type_of hs = (case dget (dict_of (map (\<lambda>(k, v). (lower_key k, v)) hs)) ''content-type'' of
     None \<Rightarrow> ''application/json'' | Some t \<Rightarrow> t)"

text \<open>How the handler's coroutine ends: an object with a status code, any other result (encoded as JSON, or not
  encodable), an \<open>HTTPException\<close>, another exception, or not before the timeout.\<close>

datatype handler_end =
    Gives_Response nat headers string
  | Gives_Value pyval
  | Gives_Unencodable string
  | Raises_Http nat "headers option" pyval
  | Raises_Other string
  | Hangs

datatype served_end = Answered_With nat headers rn_body | Escaped string | Timed_Out

definition handler_answer :: "handler_end \<Rightarrow> served_end" where
  "handler_answer e = (case e of
     Gives_Response status hs body \<Rightarrow> Answered_With status hs (Raw body)
   | Gives_Value v \<Rightarrow> Answered_With 200 json_type (Json v)
   | Gives_Unencodable msg \<Rightarrow> Escaped msg
   | Raises_Http status hs detail \<Rightarrow> Answered_With status
       (dset ''content-type'' ''application/json''
          (filter (\<lambda>(k, v). lower_key k \<noteq> ''content-type'') (case hs of None \<Rightarrow> [] | Some h \<Rightarrow> h)))
       (error_body status detail)
   | Raises_Other msg \<Rightarrow> Answered_With 500 json_type (error_body 500 (PStr msg))
   | Hangs \<Rightarrow> Timed_Out)"

record rn_env =
  v_name :: string
  v_req_cap :: nat
  v_retry_after :: string
  v_frame_cap :: nat
  v_routes :: "route list"
  v_unquote :: "string \<Rightarrow> string"
  v_size :: "envelope \<Rightarrow> nat option"
  v_no_route :: "string \<Rightarrow> string \<Rightarrow> string"
  v_not_sent :: "envelope \<Rightarrow> string"

definition handler_of :: "rn_env \<Rightarrow> rn_request \<Rightarrow> (nat \<times> shim) option" where
  "handler_of env q = (case split_query (v_unquote env) (q_path q) of (path, query) \<Rightarrow>
     map_option (\<lambda>(h, params). (h, \<lparr>sh_path_params = params, sh_query = query, sh_body = q_body q,
        sh_content_type = content_type_of (q_headers q), sh_headers = owner_headers q\<rparr>))
       (match_route (v_routes env) (q_method q) path))"

definition dispatch_served :: "rn_env \<Rightarrow> rn_request \<Rightarrow> handler_end \<Rightarrow> served_end" where
  "dispatch_served env q e = (case handler_of env q of
     None \<Rightarrow> Answered_With 404 json_type
       (error_body 404 (PStr (v_no_route env (q_method q) (fst (split_query (v_unquote env) (q_path q))))))
   | Some hs \<Rightarrow> handler_answer e)"

section \<open>State\<close>

text \<open>\<open>u_serving\<close> holds the tasks that serve a request, \<open>u_calls\<close> the coroutines of \<open>_call\<close> that wait, each with its
  correlation id and its future's result, \<open>u_pending\<close> the table of futures.  \<open>u_up\<close> says that the transport thread
  runs.\<close>

record rn_call =
  k_corr :: string
  k_result :: "rn_response option"

record runtime =
  u_inflight :: int
  u_serving :: "(nat \<times> rn_request) list"
  u_calls :: "(nat \<times> rn_call) list"
  u_pending :: "(string \<times> nat) list"
  u_outbox :: "envelope list"
  u_up :: bool
  u_topology :: topology
  u_next :: nat

definition new_runtime :: runtime where
  "new_runtime = \<lparr>u_inflight = 0, u_serving = [], u_calls = [], u_pending = [], u_outbox = [], u_up = False,
     u_topology = [], u_next = 0\<rparr>"

datatype call_end = Got rn_response | Too_Large | Not_Sent | Call_Timeout

text \<open>What the outside sees: a request has been answered (or its answer dropped, \<open>None\<close>), a call has come back, and
  the topology callbacks and the served plugins are told.\<close>

datatype rn_effect =
    Answers nat "rn_response option"
  | Call_Ends nat call_end
  | Told topology

section \<open>Sending\<close>

definition packs :: "rn_env \<Rightarrow> envelope \<Rightarrow> bool" where
  "packs env m \<longleftrightarrow> (case v_size env m of None \<Rightarrow> False | Some n \<Rightarrow> n \<le> v_frame_cap env)"

definition enqueue :: "envelope \<Rightarrow> runtime \<Rightarrow> runtime \<times> bool" where
  "enqueue m u = (if u_up u then (u\<lparr>u_outbox := u_outbox u @ [m]\<rparr>, True) else (u, False))"

text \<open>Sending an answer, by \<open>_emit\<close> or after \<open>pack_or_error\<close>: the response that went out, if one did.\<close>

definition emit_answer :: "rn_env \<Rightarrow> rn_response \<Rightarrow> runtime \<Rightarrow> runtime \<times> rn_response option" where
  "emit_answer env a u = (if \<not> packs env (Response_Env a) then (u, None)
     else case enqueue (Response_Env a) u of (u', sent) \<Rightarrow> (u', if sent then Some a else None))"

definition unsent_answer :: "rn_env \<Rightarrow> rn_response \<Rightarrow> rn_response" where
  "unsent_answer env a = a\<lparr>a_status := 500, a_headers := json_type,
     a_body := error_body 500 (PStr (''response not sent: '' @ v_not_sent env (Response_Env a)))\<rparr>"

definition pack_or_error :: "rn_env \<Rightarrow> rn_response \<Rightarrow> rn_response option" where
  "pack_or_error env a = (if packs env (Response_Env a) then Some a
     else if packs env (Response_Env (unsent_answer env a)) then Some (unsent_answer env a) else None)"

section \<open>Serving\<close>

definition admit_request :: "rn_env \<Rightarrow> rn_request \<Rightarrow> runtime \<Rightarrow> runtime \<times> rn_effect list" where
  "admit_request env q u0 = (let rid = u_next u0; u = u0\<lparr>u_next := rid + 1\<rparr> in
     if u_inflight u \<ge> int (v_req_cap env) then
       (case emit_answer env (make_response q 503 (json_type @ [(''retry-after'', v_retry_after env)])
            (error_body 503 (PStr ''endpoint at concurrency cap''))) u of
          (u', sent) \<Rightarrow> (u', [Answers rid sent]))
     else (u\<lparr>u_inflight := u_inflight u + 1, u_serving := u_serving u @ [(rid, q)]\<rparr>, []))"

text \<open>The end of \<open>_serve_request\<close>.  An answer that cannot be packed, not even as an error, is an exception like any
  other.\<close>

definition serve_end :: "rn_env \<Rightarrow> nat \<Rightarrow> rn_request \<Rightarrow> handler_end \<Rightarrow> runtime \<Rightarrow> runtime \<times> rn_effect list" where
  "serve_end env rid q e u =
    (let fail = (\<lambda>status detail. emit_answer env (make_response q status json_type (error_body status (PStr detail))) u);
         r = (case dispatch_served env q e of
            Answered_With status hs body \<Rightarrow>
              (case pack_or_error env (make_response q status hs body) of
                 Some a \<Rightarrow> (case enqueue (Response_Env a) u of (u', sent) \<Rightarrow> (u', if sent then Some a else None))
               | None \<Rightarrow> fail 500 (v_not_sent env (Response_Env (unsent_answer env (make_response q status hs body)))))
          | Timed_Out \<Rightarrow> fail 504 ''handler timed out''
          | Escaped msg \<Rightarrow> fail 500 msg)
     in case r of (u', sent) \<Rightarrow>
          (u'\<lparr>u_inflight := u_inflight u' - 1, u_serving := dpop rid (u_serving u')\<rparr>, [Answers rid sent]))"

section \<open>Calling\<close>

text \<open>\<open>_call\<close> up to its wait; the correlation id is the one that was minted.\<close>

definition call_begin :: "rn_env \<Rightarrow> rn_request \<Rightarrow> string \<Rightarrow> runtime \<Rightarrow> runtime \<times> rn_effect list" where
  "call_begin env q corr u0 = (let cid = u_next u0; u = u0\<lparr>u_next := cid + 1\<rparr>;
       m = Request_Env (q\<lparr>q_src := v_name env, q_corr := Some corr\<rparr>) in
     if \<not> packs env m then (u, [Call_Ends cid Too_Large])
     else case enqueue m (u\<lparr>u_pending := dset corr cid (u_pending u)\<rparr>) of
        (u', sent) \<Rightarrow>
          if sent then (u'\<lparr>u_calls := u_calls u' @ [(cid, \<lparr>k_corr = corr, k_result = None\<rparr>)]\<rparr>, [])
          else (u'\<lparr>u_pending := dpop corr (u_pending u')\<rparr>, [Call_Ends cid Not_Sent]))"

definition resolve_response :: "rn_response \<Rightarrow> runtime \<Rightarrow> runtime" where
  "resolve_response a u = (case a_corr a of
     None \<Rightarrow> u
   | Some corr \<Rightarrow> (case dget (u_pending u) corr of
       None \<Rightarrow> u
     | Some cid \<Rightarrow>
         let u1 = u\<lparr>u_pending := dpop corr (u_pending u)\<rparr>
         in case dget (u_calls u1) cid of
              Some c \<Rightarrow> if k_result c = None then u1\<lparr>u_calls := dset cid (c\<lparr>k_result := Some a\<rparr>) (u_calls u1)\<rparr> else u1
            | None \<Rightarrow> u1))"

text \<open>The waiting coroutine goes on: with the response when its future has one, with a timeout otherwise.\<close>

definition call_resume :: "nat \<Rightarrow> rn_call \<Rightarrow> runtime \<Rightarrow> runtime \<times> rn_effect list" where
  "call_resume cid c u =
    (u\<lparr>u_calls := dpop cid (u_calls u), u_pending := dpop (k_corr c) (u_pending u)\<rparr>,
     [Call_Ends cid (case k_result c of Some a \<Rightarrow> Got a | None \<Rightarrow> Call_Timeout)])"

section \<open>Topology\<close>

definition synthesize_lost :: "topology \<Rightarrow> topology \<Rightarrow> topology" where
  "synthesize_lost prev present = fold (\<lambda>(name, info) ps.
     if dhas present name then ps
     else if pi_liveness info \<in> {''present'', ''suspect''} then dset name (info\<lparr>pi_liveness := ''lost''\<rparr>) ps else ps) prev present"

definition on_topology :: "topology \<Rightarrow> runtime \<Rightarrow> runtime \<times> rn_effect list" where
  "on_topology raw u = (let t = public_topology raw
     in (u\<lparr>u_topology := t\<rparr>, [Told (synthesize_lost (u_topology u) t)]))"

section \<open>Steps\<close>

datatype rn_action =
    Arrives rn_request
  | Handler_Ends nat handler_end
  | Calls rn_request string
  | Response_Arrives rn_response
  | Call_Resumes nat
  | Topology_Arrives topology
  | Transport_Up bool

definition rn_do :: "rn_env \<Rightarrow> rn_action \<Rightarrow> runtime \<Rightarrow> runtime \<times> rn_effect list" where
  "rn_do env a u = (case a of
     Arrives q \<Rightarrow> admit_request env q u
   | Handler_Ends rid e \<Rightarrow> (case dget (u_serving u) rid of None \<Rightarrow> (u, []) | Some q \<Rightarrow> serve_end env rid q e u)
   | Calls q corr \<Rightarrow> call_begin env q corr u
   | Response_Arrives r \<Rightarrow> (resolve_response r u, [])
   | Call_Resumes cid \<Rightarrow> (case dget (u_calls u) cid of None \<Rightarrow> (u, []) | Some c \<Rightarrow> call_resume cid c u)
   | Topology_Arrives raw \<Rightarrow> on_topology raw u
   | Transport_Up b \<Rightarrow> (u\<lparr>u_up := b\<rparr>, []))"

fun rn_run :: "rn_env \<Rightarrow> rn_action list \<Rightarrow> runtime \<Rightarrow> runtime \<times> rn_effect list" where
  "rn_run env [] u = (u, [])"
| "rn_run env (a # as) u = (case rn_do env a u of (u1, fs) \<Rightarrow> case rn_run env as u1 of (u2, gs) \<Rightarrow> (u2, fs @ gs))"

end
