(* ===== verification/Runtime_Call_Safety.thy ===== *)
theory Runtime_Call_Safety
  imports Runtime_Calls "HOL-Library.Multiset"
begin

text \<open>
  What the endpoint runtime keeps while requests, handlers, its own calls, responses and topologies interleave
  (\<^verbatim>\<open>runtime.py\<close>): each request it receives is answered once, to the one that sent it, with no more handlers at work than
  the cap; each call ends once, with a response to that very call or with an error; the owner header of a served request
  is the broker's; and a participant that vanishes is reported lost once.
\<close>

section \<open>Logs\<close>

fun received :: "rn_env \<Rightarrow> rn_action list \<Rightarrow> runtime \<Rightarrow> (nat \<times> rn_request) list" where
  "received env [] u = []"
| "received env (a # as) u = (case a of Arrives q \<Rightarrow> [(u_next u, q)] | _ \<Rightarrow> []) @ received env as (fst (rn_do env a u))"

fun called :: "rn_env \<Rightarrow> rn_action list \<Rightarrow> runtime \<Rightarrow> (nat \<times> string) list" where
  "called env [] u = []"
| "called env (a # as) u = (case a of Calls q corr \<Rightarrow> [(u_next u, corr)] | _ \<Rightarrow> []) @ called env as (fst (rn_do env a u))"

fun answered :: "rn_effect list \<Rightarrow> nat list" where
  "answered [] = []" | "answered (Answers rid sent # fs) = rid # answered fs" | "answered (f # fs) = answered fs"

fun ended :: "rn_effect list \<Rightarrow> nat list" where
  "ended [] = []" | "ended (Call_Ends cid e # fs) = cid # ended fs" | "ended (f # fs) = ended fs"

definition rn_after :: "rn_env \<Rightarrow> rn_action list \<Rightarrow> runtime" where
  "rn_after env as = fst (rn_run env as new_runtime)"

definition rn_seen :: "rn_env \<Rightarrow> rn_action list \<Rightarrow> rn_effect list" where
  "rn_seen env as = snd (rn_run env as new_runtime)"

lemma answered_append [simp]: "answered (fs @ gs) = answered fs @ answered gs"
  by (induction fs rule: answered.induct) auto

lemma ended_append [simp]: "ended (fs @ gs) = ended fs @ ended gs"
  by (induction fs rule: ended.induct) auto

lemma rn_run_append:
  "rn_run env (as @ bs) u = (case rn_run env as u of (u1, fs) \<Rightarrow> case rn_run env bs u1 of (u2, gs) \<Rightarrow> (u2, fs @ gs))"
  by (induction as arbitrary: u) (auto split: prod.splits)

lemma received_append: "received env (as @ bs) u = received env as u @ received env bs (fst (rn_run env as u))"
  by (induction as arbitrary: u) (auto split: prod.splits)

lemma called_append: "called env (as @ bs) u = called env as u @ called env bs (fst (rn_run env as u))"
  by (induction as arbitrary: u) (auto split: prod.splits)

lemma rn_after_snoc: "rn_after env (as @ [a]) = fst (rn_do env a (rn_after env as))"
  by (simp add: rn_after_def rn_run_append split: prod.splits)

lemma rn_seen_snoc: "rn_seen env (as @ [a]) = rn_seen env as @ snd (rn_do env a (rn_after env as))"
  by (simp add: rn_seen_def rn_after_def rn_run_append split: prod.splits)

section \<open>What the parts leave alone\<close>

lemma enqueue_fields [simp]:
  "u_inflight (fst (enqueue m u)) = u_inflight u" "u_serving (fst (enqueue m u)) = u_serving u"
  "u_calls (fst (enqueue m u)) = u_calls u" "u_pending (fst (enqueue m u)) = u_pending u"
  "u_next (fst (enqueue m u)) = u_next u"
  by (simp_all add: enqueue_def)

text \<open>An answer that went out, and where the frames of an answer end up.\<close>

definition answers_to :: "rn_request \<Rightarrow> rn_response \<Rightarrow> bool" where
  "answers_to q a \<longleftrightarrow> a_dst a = q_src q \<and> a_src a = q_dst q \<and> a_corr a = q_corr q"

definition only_sends :: "rn_request \<Rightarrow> runtime \<Rightarrow> runtime \<times> rn_response option \<Rightarrow> bool" where
  "only_sends q u r \<longleftrightarrow> (case r of (u', sent) \<Rightarrow> \<exists>ms. u' = u\<lparr>u_outbox := u_outbox u @ ms\<rparr> \<and>
     (case sent of None \<Rightarrow> ms = [] | Some a \<Rightarrow> ms = [Response_Env a] \<and> answers_to q a))"

lemma emit_only_sends: "answers_to q a \<Longrightarrow> only_sends q u (emit_answer env a u)"
  by (auto simp: only_sends_def emit_answer_def enqueue_def)

lemma response_answers [simp]: "answers_to q (make_response q status hs body)"
  by (simp add: answers_to_def make_response_def)

lemma pack_or_error_answers: "answers_to q a \<Longrightarrow> pack_or_error env a = Some a' \<Longrightarrow> answers_to q a'"
  by (auto simp: pack_or_error_def unsent_answer_def answers_to_def split: if_splits)

lemma enqueue_only_sends: "answers_to q a \<Longrightarrow> enqueue (Response_Env a) u = (u', sent) \<Longrightarrow> only_sends q u (u', if sent then Some a else None)"
  by (auto simp: only_sends_def enqueue_def split: if_splits)

lemma serve_end_sends:
  "\<exists>u' sent. only_sends q u (u', sent) \<and> serve_end env rid q e u =
     (u'\<lparr>u_inflight := u_inflight u' - 1, u_serving := dpop rid (u_serving u')\<rparr>, [Answers rid sent])"
proof -
  have fail: "only_sends q u (emit_answer env (make_response q status hs body) u)" for status hs body
    by (rule emit_only_sends) simp
  show ?thesis
  proof (cases "dispatch_served env q e")
    case (Answered_With status hs body)
    show ?thesis
    proof (cases "pack_or_error env (make_response q status hs body)")
      case None
      then show ?thesis using Answered_With fail
        by (auto simp: serve_end_def Let_def split: prod.splits) (metis surj_pair)
    next
      case (Some a)
      obtain u' sent where eq: "enqueue (Response_Env a) u = (u', sent)" by (metis prod.exhaust)
      have "only_sends q u (u', if sent then Some a else None)"
        by (rule enqueue_only_sends [OF pack_or_error_answers [OF response_answers Some] eq])
      then show ?thesis using Answered_With Some eq by (auto simp: serve_end_def Let_def)
    qed
  next
    case (Escaped msg)
    then show ?thesis using fail by (auto simp: serve_end_def Let_def split: prod.splits) (metis surj_pair)
  next
    case Timed_Out
    then show ?thesis using fail by (auto simp: serve_end_def Let_def split: prod.splits) (metis surj_pair)
  qed
qed

lemma admit_cases:
  obtains (full) u' sent where "int (v_req_cap env) \<le> u_inflight u" "only_sends q (u\<lparr>u_next := u_next u + 1\<rparr>) (u', sent)"
      "admit_request env q u = (u', [Answers (u_next u) sent])"
  | (room) "u_inflight u < int (v_req_cap env)"
      "admit_request env q u = (u\<lparr>u_next := u_next u + 1, u_inflight := u_inflight u + 1,
         u_serving := u_serving u @ [(u_next u, q)]\<rparr>, [])"
proof (cases "int (v_req_cap env) \<le> u_inflight u")
  case True
  let ?a = "make_response q 503 (json_type @ [(''retry-after'', v_retry_after env)])
            (error_body 503 (PStr ''endpoint at concurrency cap''))"
  have "only_sends q (u\<lparr>u_next := u_next u + 1\<rparr>) (emit_answer env ?a (u\<lparr>u_next := u_next u + 1\<rparr>))"
    by (rule emit_only_sends) simp
  then show ?thesis using full True
    by (cases "emit_answer env ?a (u\<lparr>u_next := u_next u + 1\<rparr>)") (auto simp: admit_request_def Let_def)
next
  case False
  then show ?thesis using room by (simp add: admit_request_def Let_def)
qed

lemma only_sends_fields:
  "only_sends q u (u', sent) \<Longrightarrow> u_inflight u' = u_inflight u \<and> u_serving u' = u_serving u \<and> u_calls u' = u_calls u \<and>
    u_pending u' = u_pending u \<and> u_next u' = u_next u \<and> set (u_outbox u) \<subseteq> set (u_outbox u') \<and>
    (\<forall>a. sent = Some a \<longrightarrow> answers_to q a \<and> Response_Env a \<in> set (u_outbox u'))"
  by (auto simp: only_sends_def split: option.splits)

section \<open>Requests\<close>

fun serving_action :: "rn_action \<Rightarrow> bool" where
  "serving_action (Arrives q) = True" | "serving_action (Handler_Ends rid e) = True" | "serving_action a = False"

lemma call_begin_cases:
  obtains (large) "call_begin env q corr u = (u\<lparr>u_next := u_next u + 1\<rparr>, [Call_Ends (u_next u) Too_Large])"
  | (waits) m where "call_begin env q corr u = (u\<lparr>u_next := u_next u + 1, u_pending := dset corr (u_next u) (u_pending u),
        u_outbox := u_outbox u @ [m], u_calls := u_calls u @ [(u_next u, \<lparr>k_corr = corr, k_result = None\<rparr>)]\<rparr>, [])"
  | (unsent) "call_begin env q corr u = (u\<lparr>u_next := u_next u + 1, u_pending := dpop corr (dset corr (u_next u) (u_pending u))\<rparr>,
        [Call_Ends (u_next u) Not_Sent])"
  by (cases "packs env (Request_Env (q\<lparr>q_src := v_name env, q_corr := Some corr\<rparr>))"; cases "u_up u")
    (auto simp: call_begin_def enqueue_def Let_def)

lemma resolve_fields [simp]:
  "u_inflight (resolve_response r u) = u_inflight u" "u_serving (resolve_response r u) = u_serving u"
  "u_next (resolve_response r u) = u_next u" "u_outbox (resolve_response r u) = u_outbox u"
  by (simp_all add: resolve_response_def Let_def split: option.split)

lemma other_action_requests:
  assumes "\<not> serving_action a" and "rn_do env a u = (u', gs)"
  shows "u_inflight u' = u_inflight u \<and> u_serving u' = u_serving u \<and> u_next u \<le> u_next u' \<and>
    set (u_outbox u) \<subseteq> set (u_outbox u') \<and> (\<forall>rid sent. Answers rid sent \<notin> set gs) \<and> answered gs = []"
proof (cases a)
  case (Calls q corr)
  then show ?thesis using assms(2) by (cases rule: call_begin_cases [of env q corr u]) (auto simp: rn_do_def)
next
  case (Call_Resumes cid)
  then show ?thesis using assms(2) by (cases "dget (u_calls u) cid") (auto simp: rn_do_def call_resume_def)
qed (use assms in \<open>auto simp: rn_do_def on_topology_def Let_def\<close>)

definition requests_inv :: "rn_env \<Rightarrow> runtime \<Rightarrow> rn_effect list \<Rightarrow> (nat \<times> rn_request) list \<Rightarrow> bool" where
  "requests_inv env u fs R \<longleftrightarrow>
     u_inflight u = int (length (u_serving u)) \<and> length (u_serving u) \<le> v_req_cap env \<and>
     distinct (map fst R) \<and> (\<forall>x \<in> set R. fst x < u_next u) \<and> set (u_serving u) \<subseteq> set R \<and>
     mset (map fst R) = mset (answered fs) + mset (map fst (u_serving u)) \<and>
     (\<forall>rid a. Answers rid (Some a) \<in> set fs \<longrightarrow>
        (\<exists>q. (rid, q) \<in> set R \<and> answers_to q a \<and> Response_Env a \<in> set (u_outbox u)))"

lemma mset_dpop:
  "dict_ok d \<Longrightarrow> dget d k = Some v \<Longrightarrow> mset (map fst d) = add_mset k (mset (map fst (dpop k d)))"
proof (induction d)
  case (Cons x d)
  obtain k' v' where x: "x = (k', v')" by (cases x)
  show ?case
  proof (cases "k' = k")
    case True
    then have "k \<notin> fst ` set d" using Cons.prems(1) x by (auto simp: dict_ok_def)
    then have "dpop k d = d" by (simp add: delete_idem)
    then show ?thesis using True x by simp
  next
    case False
    then show ?thesis using Cons x by (simp add: dict_ok_def)
  qed
qed simp

lemma length_dpop: "dict_ok d \<Longrightarrow> dget d k = Some v \<Longrightarrow> length d = Suc (length (dpop k d))"
  using mset_dpop [of d k v] by (metis length_map size_add_mset size_mset)

lemma serving_dict: "requests_inv env u fs R \<Longrightarrow> dict_ok (u_serving u)"
proof -
  assume inv: "requests_inv env u fs R"
  have "mset (map fst (u_serving u)) \<subseteq># mset (map fst R)" using inv by (simp add: requests_inv_def)
  then obtain ys where "mset (map fst R) = mset (map fst (u_serving u) @ ys)" by (metis ex_mset mset_append mset_subset_eq_exists_conv)
  then have "distinct (map fst (u_serving u) @ ys)" using inv mset_eq_imp_distinct_iff unfolding requests_inv_def by blast
  then show ?thesis by (simp add: dict_ok_def)
qed

lemma requests_step:
  assumes inv: "requests_inv env u fs R" and act: "rn_do env a u = (u', gs)"
  shows "requests_inv env u' (fs @ gs) (R @ (case a of Arrives q \<Rightarrow> [(u_next u, q)] | _ \<Rightarrow> []))"
proof (cases "serving_action a")
  case False
  then have "(case a of Arrives q \<Rightarrow> [(u_next u, q)] | _ \<Rightarrow> []) = []" by (cases a) auto
  then show ?thesis using inv other_action_requests [OF False act] unfolding requests_inv_def by fastforce
next
  case True
  then consider (arrive) q where "a = Arrives q" | (finish) rid e where "a = Handler_Ends rid e" by (cases a) auto
  then show ?thesis
  proof cases
    case arrive
    have new: "u_next u \<notin> fst ` set R" using inv by (force simp: requests_inv_def)
    show ?thesis
    proof (cases rule: admit_cases [of env u q])
      case (full u1 sent)
      then have res: "u' = u1" "gs = [Answers (u_next u) sent]" using act arrive by (auto simp: rn_do_def)
      show ?thesis
        using inv new only_sends_fields [OF full(2)] arrive unfolding res requests_inv_def by fastforce
    next
      case room
      then show ?thesis using inv new act arrive by (force simp: rn_do_def requests_inv_def)
    qed
  next
    case finish
    show ?thesis
    proof (cases "dget (u_serving u) rid")
      case None
      then show ?thesis using inv act finish by (simp add: rn_do_def)
    next
      case (Some q)
      obtain u1 sent where s: "only_sends q u (u1, sent)"
          and e: "serve_end env rid q e u = (u1\<lparr>u_inflight := u_inflight u1 - 1, u_serving := dpop rid (u_serving u1)\<rparr>, [Answers rid sent])"
        using serve_end_sends by blast
      then have res: "u' = u1\<lparr>u_inflight := u_inflight u1 - 1, u_serving := dpop rid (u_serving u1)\<rparr>" "gs = [Answers rid sent]"
        using act finish Some by (auto simp: rn_do_def)
      have ok: "dict_ok (u_serving u)" by (rule serving_dict [OF inv])
      have q: "(rid, q) \<in> set R" using inv map_of_SomeD [OF Some] by (auto simp: requests_inv_def)
      have sub: "set (dpop rid (u_serving u)) \<subseteq> set (u_serving u)" by (auto simp: AList.delete_eq)
      note f = only_sends_fields [OF s]
      have "mset (map fst R) = mset (answered (fs @ gs)) + mset (map fst (u_serving u'))"
        using inv mset_dpop [OF ok Some] f unfolding res requests_inv_def by simp
      moreover have "u_inflight u' = int (length (u_serving u'))" "length (u_serving u') \<le> v_req_cap env"
        using inv length_dpop [OF ok Some] f unfolding res requests_inv_def by auto
      moreover have "\<forall>rid' a. Answers rid' (Some a) \<in> set (fs @ gs) \<longrightarrow>
          (\<exists>q. (rid', q) \<in> set R \<and> answers_to q a \<and> Response_Env a \<in> set (u_outbox u'))"
        using inv f q unfolding res requests_inv_def by (simp add: subset_iff) blast
      ultimately show ?thesis using inv f sub finish unfolding requests_inv_def res by auto
    qed
  qed
qed

lemma requests_hold: "requests_inv env (rn_after env as) (rn_seen env as) (received env as new_runtime)"
proof (induction as rule: rev_induct)
  case Nil
  then show ?case by (simp add: requests_inv_def rn_after_def rn_seen_def new_runtime_def)
next
  case (snoc a as)
  have "rn_do env a (rn_after env as) = (rn_after env (as @ [a]), snd (rn_do env a (rn_after env as)))"
    by (simp add: rn_after_snoc)
  from requests_step [OF snoc this] show ?case
    by (simp add: rn_seen_snoc received_append rn_after_def [symmetric])
qed

section \<open>Calls\<close>

definition minted :: "rn_action list \<Rightarrow> string list" where
  "minted as = concat (map (\<lambda>a. case a of Calls q corr \<Rightarrow> [corr] | _ \<Rightarrow> []) as)"

lemma minted_called: "map snd (called env as u) = minted as"
  by (induction as arbitrary: u) (auto simp: minted_def split: rn_action.splits)

fun calls :: "rn_action \<Rightarrow> bool" where
  "calls (Calls q corr) = True" | "calls (Response_Arrives r) = True" | "calls (Call_Resumes cid) = True" | "calls a = False"

lemma other_action_calls:
  assumes "\<not> calls a" and "rn_do env a u = (u', gs)"
  shows "u_calls u' = u_calls u \<and> u_pending u' = u_pending u \<and> u_next u \<le> u_next u' \<and>
    (\<forall>cid e. Call_Ends cid e \<notin> set gs) \<and> ended gs = []"
proof (cases a)
  case (Arrives q)
  then show ?thesis
  proof (cases rule: admit_cases [of env u q])
    case (full u1 sent)
    then show ?thesis using assms(2) Arrives only_sends_fields [OF full(2)] by (auto simp: rn_do_def)
  next
    case room
    then show ?thesis using assms(2) Arrives by (auto simp: rn_do_def)
  qed
next
  case (Handler_Ends rid e)
  show ?thesis
  proof (cases "dget (u_serving u) rid")
    case (Some q)
    obtain u1 sent where s: "only_sends q u (u1, sent)"
        and e: "serve_end env rid q e u = (u1\<lparr>u_inflight := u_inflight u1 - 1, u_serving := dpop rid (u_serving u1)\<rparr>, [Answers rid sent])"
      using serve_end_sends by blast
    then show ?thesis using assms(2) Handler_Ends Some only_sends_fields [OF s] by (auto simp: rn_do_def)
  qed (use assms Handler_Ends in \<open>auto simp: rn_do_def\<close>)
qed (use assms in \<open>auto simp: rn_do_def on_topology_def Let_def\<close>)

definition calls_inv :: "rn_action list \<Rightarrow> runtime \<Rightarrow> rn_effect list \<Rightarrow> (nat \<times> string) list \<Rightarrow> bool" where
  "calls_inv as u fs C \<longleftrightarrow>
     distinct (map fst C) \<and> (\<forall>x \<in> set C. fst x < u_next u) \<and> dict_ok (u_calls u) \<and>
     mset (map fst C) = mset (ended fs) + mset (map fst (u_calls u)) \<and>
     (\<forall>cid c. dget (u_calls u) cid = Some c \<longrightarrow> (cid, k_corr c) \<in> set C \<and>
        (\<forall>a. k_result c = Some a \<longrightarrow> a_corr a = Some (k_corr c) \<and> Response_Arrives a \<in> set as)) \<and>
     (\<forall>corr cid. dget (u_pending u) corr = Some cid \<longleftrightarrow>
        (\<exists>c. dget (u_calls u) cid = Some c \<and> k_corr c = corr \<and> k_result c = None)) \<and>
     (\<forall>cid a. Call_Ends cid (Got a) \<in> set fs \<longrightarrow>
        (\<exists>corr. (cid, corr) \<in> set C \<and> a_corr a = Some corr \<and> Response_Arrives a \<in> set as))"

lemma snd_unique: "distinct (map snd C) \<Longrightarrow> (a, x) \<in> set C \<Longrightarrow> (b, x) \<in> set C \<Longrightarrow> a = b"
  by (metis distinct_map inj_on_eq_iff snd_conv prod.inject)

lemma call_begin_step:
  assumes inv: "calls_inv as u fs C" and fresh: "distinct (map snd C @ [corr])" and act: "call_begin env q corr u = (u', gs)"
  shows "calls_inv (as @ [Calls q corr]) u' (fs @ gs) (C @ [(u_next u, corr)])"
proof -
  let ?n = "u_next u"
  have new: "?n \<notin> fst ` set C" "?n \<notin> fst ` set (u_calls u)"
  proof -
    show n: "?n \<notin> fst ` set C" using inv by (force simp: calls_inv_def)
    have "mset (map fst (u_calls u)) \<subseteq># mset (map fst C)" using inv by (simp add: calls_inv_def)
    then have "fst ` set (u_calls u) \<subseteq> fst ` set C" by (metis set_mset_mono set_mset_mset list.set_map)
    then show "?n \<notin> fst ` set (u_calls u)" using n by blast
  qed
  have unused: "dget (u_pending u) corr = None"
  proof (rule ccontr)
    assume "dget (u_pending u) corr \<noteq> None"
    then obtain cid where "dget (u_pending u) corr = Some cid" by blast
    then have "(cid, corr) \<in> set C" using inv by (force simp: calls_inv_def)
    then show False using fresh by force
  qed
  have noself: "dget (u_calls u) ?n = None" using new(2) by (simp add: map_of_eq_None_iff)
  have ends: "\<exists>co. (cid, co) \<in> set (C @ [(?n, corr)]) \<and> a_corr a = Some co \<and> Response_Arrives a \<in> set (as @ [Calls q corr])"
    if "Call_Ends cid (Got a) \<in> set fs" for cid a
    using inv that unfolding calls_inv_def by (metis UnI1 set_append)
  have base: "distinct (map fst (C @ [(?n, corr)]))" "\<forall>x \<in> set (C @ [(?n, corr)]). fst x < ?n + 1"
    using inv new(1) by (auto simp: calls_inv_def)
  show ?thesis
  proof (cases rule: call_begin_cases [of env q corr u])
    case large
    then have res: "u' = u\<lparr>u_next := ?n + 1\<rparr>" "gs = [Call_Ends ?n Too_Large]" using act by auto
    show ?thesis using inv base ends unfolding calls_inv_def by (auto simp: res)
  next
    case (waits m)
    then have res: "u' = u\<lparr>u_next := ?n + 1, u_pending := dset corr ?n (u_pending u),
        u_outbox := u_outbox u @ [m], u_calls := u_calls u @ [(?n, \<lparr>k_corr = corr, k_result = None\<rparr>)]\<rparr>" "gs = []"
      using act by auto
    have get: "dget (u_calls u') cid = (if cid = ?n then Some \<lparr>k_corr = corr, k_result = None\<rparr> else dget (u_calls u) cid)" for cid
      using noself by (auto simp: res map_add_def split: option.split)
    have corrs: "k_corr c \<noteq> corr" if "dget (u_calls u) cid = Some c" for cid c
    proof -
      have "(cid, k_corr c) \<in> set C" using that inv unfolding calls_inv_def by blast
      then show ?thesis using fresh by force
    qed
    have pend: "dget (u_pending u') co = Some cid \<longleftrightarrow> (\<exists>c. dget (u_calls u') cid = Some c \<and> k_corr c = co \<and> k_result c = None)" for co cid
      using inv noself corrs unfolding get by (auto simp: res calls_inv_def)
    have "dict_ok (u_calls u')" using inv new(2) by (auto simp: res calls_inv_def dict_ok_def)
    moreover have "mset (map fst (C @ [(?n, corr)])) = mset (ended (fs @ gs)) + mset (map fst (u_calls u'))"
      using inv by (simp add: res calls_inv_def)
    moreover have "\<forall>cid c. dget (u_calls u') cid = Some c \<longrightarrow> (cid, k_corr c) \<in> set (C @ [(?n, corr)]) \<and>
        (\<forall>a. k_result c = Some a \<longrightarrow> a_corr a = Some (k_corr c) \<and> Response_Arrives a \<in> set (as @ [Calls q corr]))"
      using inv unfolding get by (auto simp: calls_inv_def)
    ultimately show ?thesis using base pend ends unfolding calls_inv_def by (simp add: res)
  next
    case unsent
    then have res: "u' = u\<lparr>u_next := ?n + 1, u_pending := dpop corr (dset corr ?n (u_pending u))\<rparr>" "gs = [Call_Ends ?n Not_Sent]"
      using act by auto
    have "dget (u_pending u') co = dget (u_pending u) co" for co using unused by (simp add: res)
    then show ?thesis using inv base ends unfolding calls_inv_def by (auto simp: res simp del: dget_dpop dget_dset)
  qed
qed

lemma resolve_step:
  assumes inv: "calls_inv as u fs C"
  shows "calls_inv (as @ [Response_Arrives r]) (resolve_response r u) fs C"
proof -
  let ?as = "as @ [Response_Arrives r]"
  have grown: "calls_inv ?as u fs C" using inv unfolding calls_inv_def by (auto, metis+)
  show ?thesis
  proof (cases "a_corr r")
    case None
    then show ?thesis using grown by (simp add: resolve_response_def)
  next
    case (Some corr)
    show ?thesis
    proof (cases "dget (u_pending u) corr")
      case None
      then show ?thesis using grown Some by (simp add: resolve_response_def)
    next
      case (Some cid)
      then obtain c where c: "dget (u_calls u) cid = Some c" "k_corr c = corr" "k_result c = None"
        using inv unfolding calls_inv_def by blast
      let ?c = "c\<lparr>k_result := Some r\<rparr>"
      have res: "resolve_response r u = u\<lparr>u_pending := dpop corr (u_pending u), u_calls := dset cid ?c (u_calls u)\<rparr>"
        using \<open>a_corr r = Some corr\<close> Some c by (simp add: resolve_response_def Let_def)
      have keys: "map fst (dset cid ?c (u_calls u)) = map fst (u_calls u)" by (rule keys_dset_present) (simp add: c)
      have "\<forall>co k. dget (dpop corr (u_pending u)) co = Some k \<longleftrightarrow>
          (\<exists>d. dget (dset cid ?c (u_calls u)) k = Some d \<and> k_corr d = co \<and> k_result d = None)"
      proof (intro allI)
        fix co k
        have pend: "dget (u_pending u) co = Some k \<longleftrightarrow> (\<exists>d. dget (u_calls u) k = Some d \<and> k_corr d = co \<and> k_result d = None)"
          using inv unfolding calls_inv_def by blast
        show "dget (dpop corr (u_pending u)) co = Some k \<longleftrightarrow>
            (\<exists>d. dget (dset cid ?c (u_calls u)) k = Some d \<and> k_corr d = co \<and> k_result d = None)"
        proof (cases "k = cid")
          case True
          then show ?thesis using pend c by auto
        next
          case False
          then have "dget (u_pending u) co = Some k \<Longrightarrow> co \<noteq> corr" using Some by auto
          then show ?thesis using pend False by auto
        qed
      qed
      moreover have "\<forall>k d. dget (dset cid ?c (u_calls u)) k = Some d \<longrightarrow> (k, k_corr d) \<in> set C \<and>
          (\<forall>a. k_result d = Some a \<longrightarrow> a_corr a = Some (k_corr d) \<and> Response_Arrives a \<in> set ?as)"
        using grown c \<open>a_corr r = Some corr\<close> unfolding calls_inv_def by auto
      ultimately show ?thesis using grown unfolding res calls_inv_def by (simp add: keys)
    qed
  qed
qed

lemma resume_step:
  assumes inv: "calls_inv as u fs C" and uniq: "distinct (map snd C)" and c: "dget (u_calls u) cid = Some c"
    and act: "call_resume cid c u = (u', gs)"
  shows "calls_inv (as @ [Call_Resumes cid]) u' (fs @ gs) C"
proof -
  have res: "u' = u\<lparr>u_calls := dpop cid (u_calls u), u_pending := dpop (k_corr c) (u_pending u)\<rparr>"
      "gs = [Call_Ends cid (case k_result c of Some a \<Rightarrow> Got a | None \<Rightarrow> Call_Timeout)]"
    using act by (auto simp: call_resume_def)
  have ok: "dict_ok (u_calls u)" using inv by (simp add: calls_inv_def)
  have mine: "(cid, k_corr c) \<in> set C" "\<forall>a. k_result c = Some a \<longrightarrow> a_corr a = Some (k_corr c) \<and> Response_Arrives a \<in> set as"
    using inv c unfolding calls_inv_def by blast+
  have other: "k_corr d \<noteq> k_corr c" if "dget (u_calls u) k = Some d" "k \<noteq> cid" for k d
  proof
    assume "k_corr d = k_corr c"
    moreover have "(k, k_corr d) \<in> set C" using inv that(1) unfolding calls_inv_def by blast
    ultimately show False using snd_unique [OF uniq _ mine(1)] that(2) by metis
  qed
  have "dget (u_pending u') co = Some k \<longleftrightarrow> (\<exists>d. dget (u_calls u') k = Some d \<and> k_corr d = co \<and> k_result d = None)" for co k
  proof -
    have "dget (u_pending u) co = Some k \<longleftrightarrow> (\<exists>d. dget (u_calls u) k = Some d \<and> k_corr d = co \<and> k_result d = None)"
      using inv unfolding calls_inv_def by blast
    then show ?thesis using other c by (cases "k = cid"; cases "co = k_corr c") (auto simp: res)
  qed
  moreover have "mset (map fst C) = mset (ended (fs @ gs)) + mset (map fst (u_calls u'))"
    using inv mset_dpop [OF ok c] by (simp add: calls_inv_def res)
  moreover have "\<exists>co. (k, co) \<in> set C \<and> a_corr a = Some co \<and> Response_Arrives a \<in> set (as @ [Call_Resumes cid])"
    if "Call_Ends k (Got a) \<in> set (fs @ gs)" for k a
  proof (cases "Call_Ends k (Got a) \<in> set fs")
    case True
    then have "\<exists>co. (k, co) \<in> set C \<and> a_corr a = Some co \<and> Response_Arrives a \<in> set as"
      using inv unfolding calls_inv_def by blast
    then show ?thesis by auto
  next
    case False
    then have "k = cid" "k_result c = Some a" using that by (auto simp: res split: option.splits)
    then show ?thesis using mine by auto
  qed
  ultimately show ?thesis using inv unfolding calls_inv_def by (auto simp: res)
qed

lemma calls_step:
  assumes inv: "calls_inv as u fs C" and act: "rn_do env a u = (u', gs)"
    and fresh: "distinct (map snd (C @ (case a of Calls q corr \<Rightarrow> [(u_next u, corr)] | _ \<Rightarrow> [])))"
  shows "calls_inv (as @ [a]) u' (fs @ gs) (C @ (case a of Calls q corr \<Rightarrow> [(u_next u, corr)] | _ \<Rightarrow> []))"
proof -
  have keep: "calls_inv (as @ [a]) u fs C" using inv unfolding calls_inv_def by (auto, metis+)
  show ?thesis
  proof (cases a)
    case (Calls q corr)
    then show ?thesis using call_begin_step [OF inv] act fresh by (auto simp: rn_do_def)
  next
    case (Response_Arrives r)
    then show ?thesis using resolve_step [OF inv, of r] act by (auto simp: rn_do_def)
  next
    case (Call_Resumes cid)
    then show ?thesis using resume_step [OF inv] keep act fresh by (cases "dget (u_calls u) cid") (auto simp: rn_do_def)
  next
    case (Arrives q)
    then show ?thesis using keep other_action_calls [OF _ act] unfolding calls_inv_def by fastforce
  next
    case (Handler_Ends rid e)
    then show ?thesis using keep other_action_calls [OF _ act] unfolding calls_inv_def by fastforce
  next
    case (Topology_Arrives t)
    then show ?thesis using keep other_action_calls [OF _ act] unfolding calls_inv_def by fastforce
  next
    case (Transport_Up b)
    then show ?thesis using keep other_action_calls [OF _ act] unfolding calls_inv_def by fastforce
  qed
qed

lemma calls_hold:
  "distinct (minted as) \<Longrightarrow> calls_inv as (rn_after env as) (rn_seen env as) (called env as new_runtime)"
proof (induction as rule: rev_induct)
  case Nil
  then show ?case by (simp add: calls_inv_def rn_after_def rn_seen_def new_runtime_def)
next
  case (snoc a as)
  have eq: "called env (as @ [a]) new_runtime = called env as new_runtime @
      (case a of Calls q corr \<Rightarrow> [(u_next (rn_after env as), corr)] | _ \<Rightarrow> [])"
    by (cases a) (simp_all add: called_append rn_after_def)
  have "distinct (minted as)" using snoc.prems by (auto simp: minted_def)
  moreover have "distinct (map snd (called env (as @ [a]) new_runtime))" using snoc.prems minted_called by metis
  moreover have "rn_do env a (rn_after env as) = (rn_after env (as @ [a]), snd (rn_do env a (rn_after env as)))"
    by (simp add: rn_after_snoc)
  ultimately show ?case using calls_step [of as "rn_after env as" "rn_seen env as" "called env as new_runtime"] snoc.IH
    unfolding eq rn_seen_snoc by blast
qed

section \<open>Losses\<close>

lemma synthesize_lost_get:
  "dict_ok prev \<Longrightarrow> dget (synthesize_lost prev t) n =
    (case dget t n of
       Some i \<Rightarrow> Some i
     | None \<Rightarrow> (case dget prev n of
         Some i \<Rightarrow> if pi_liveness i \<in> {''present'', ''suspect''} then Some (i\<lparr>pi_liveness := ''lost''\<rparr>) else None
       | None \<Rightarrow> None))"
proof -
  define f where "f = (\<lambda>(name, info :: participant_info) ps.
     if dhas t name then ps
     else if pi_liveness info \<in> {''present'', ''suspect''} then dset name (info\<lparr>pi_liveness := ''lost''\<rparr>) ps else ps)"
  have "dict_ok prev \<Longrightarrow> dget (fold f prev ps) n =
    (case dget prev n of
       Some i \<Rightarrow> if \<not> dhas t n \<and> pi_liveness i \<in> {''present'', ''suspect''} then Some (i\<lparr>pi_liveness := ''lost''\<rparr>) else dget ps n
     | None \<Rightarrow> dget ps n)" for ps
  proof (induction prev arbitrary: ps)
    case (Cons x prev)
    obtain m i where x: "x = (m, i)" by (cases x)
    have ok: "dict_ok prev" and new: "dget prev m = None" using Cons.prems x by (auto simp: dict_ok_def map_of_eq_None_iff)
    show ?case
    proof (cases "n = m")
      case True
      then show ?thesis using Cons.IH [OF ok] new by (simp add: x f_def)
    next
      case False
      then show ?thesis using Cons.IH [OF ok] by (simp add: x f_def split: option.split)
    qed
  qed simp
  note folded = this [of t]
  have "synthesize_lost prev t = fold f prev t" by (simp only: synthesize_lost_def f_def)
  then show "dict_ok prev \<Longrightarrow> ?thesis" using folded by (auto simp: dhas_def split: option.splits)
qed

text \<open>Between two topologies each participant that was seen alive and is gone is told once as lost, and the next topology
  no longer tells it, since the snapshot that is kept never holds a lost one.\<close>

lemma lost_told_once:
  assumes "dict_ok (u_topology u)" and "on_topology raw1 u = (u1, [Told t1])" and "on_topology raw2 u1 = (u2, [Told t2])"
    and "dict_ok raw1"
    and "dget (u_topology u) n = Some i" and "pi_liveness i \<in> {''present'', ''suspect''}"
    and "dget raw1 n = None" and "dget raw2 n = None"
  shows "dget t1 n = Some (i\<lparr>pi_liveness := ''lost''\<rparr>) \<and> dget t2 n = None"
proof -
  have "u_topology u1 = public_topology raw1" "t1 = synthesize_lost (u_topology u) (public_topology raw1)"
    "t2 = synthesize_lost (u_topology u1) (public_topology raw2)"
    using assms(2,3) by (auto simp: on_topology_def Let_def)
  moreover have "dict_ok (public_topology raw1)" using assms(4) by (simp add: public_topology_def)
  ultimately show ?thesis using assms by (simp add: synthesize_lost_get public_topology_def)
qed

section \<open>The owner header\<close>

lemma owner_header_trusted:
  "handler_of env q = Some (h, s) \<Longrightarrow> filter (\<lambda>(k, v). lower_key k = ''x-orbit-src'') (sh_headers s) = [(''x-orbit-src'', q_src q)]"
proof -
  assume "handler_of env q = Some (h, s)"
  then have s: "sh_headers s = owner_headers q"
    by (auto simp: handler_of_def split: prod.splits)
  let ?hs = "filter (\<lambda>(k, v). lower_key k \<noteq> ''x-orbit-src'') (q_headers q)"
  have low: "lower_key ''x-orbit-src'' = ''x-orbit-src''" by code_simp
  then have "''x-orbit-src'' \<notin> fst ` set ?hs" by auto
  then have "dset ''x-orbit-src'' (q_src q) ?hs = ?hs @ [(''x-orbit-src'', q_src q)]" by (rule dset_absent)
  moreover have "filter (\<lambda>(k, v). lower_key k = ''x-orbit-src'') ?hs = []" by (auto simp: filter_empty_conv)
  ultimately show ?thesis unfolding s owner_headers_def by (simp add: low)
qed

section \<open>Properties\<close>

text \<open>A runtime for the witnesses: one route, at most one request at a time.\<close>

definition demo_rn_env :: rn_env where
  "demo_rn_env = \<lparr>v_name = ''ep'', v_req_cap = 1, v_retry_after = ''1'', v_frame_cap = 100,
     v_routes = [(''GET'', \<lambda>p. if p = ''/a'' then Some [] else None, [], 0)], v_unquote = (\<lambda>s. s), v_size = (\<lambda>m. Some 10),
     v_no_route = (\<lambda>m p. ''No route''), v_not_sent = (\<lambda>m. ''too large'')\<rparr>"

definition demo_request :: "string \<Rightarrow> rn_request" where
  "demo_request corr = \<lparr>q_src = ''cl'', q_dst = ''ep'', q_corr = Some corr, q_method = ''GET'', q_path = ''/a'',
     q_headers = [(''X-Orbit-Src'', ''root'')], q_body = Raw []\<rparr>"


text \<open>Two requests at a cap of one: the second is refused, the first answered when its handler ends.\<close>

definition demo_serving :: "rn_action list" where
  "demo_serving = [Transport_Up True, Arrives (demo_request ''x''), Arrives (demo_request ''y''),
     Handler_Ends 0 (Gives_Value (PInt 1))]"


text \<open>C38. Each call ends once and with its own response: provided the correlation ids that the runtime mints for its calls
  differ, every call waits or has ended exactly once, the table of pending calls holds exactly the calls that wait
  without a result, and a call that returns a response returns one that arrived and carries the call's correlation id.\<close>

theorem calls_matched:
  assumes "distinct (minted as)"
  shows "let u = rn_after env as; fs = rn_seen env as; C = called env as new_runtime in
     distinct (map fst C) \<and> mset (map fst C) = mset (ended fs) + mset (map fst (u_calls u)) \<and>
     (\<forall>corr cid. dget (u_pending u) corr = Some cid \<longleftrightarrow>
        (\<exists>c. dget (u_calls u) cid = Some c \<and> k_corr c = corr \<and> k_result c = None)) \<and>
     (\<forall>cid a. Call_Ends cid (Got a) \<in> set fs \<longrightarrow>
        (\<exists>corr. (cid, corr) \<in> set C \<and> a_corr a = Some corr \<and> Response_Arrives a \<in> set as))"
  using calls_hold [OF assms, of env] unfolding calls_inv_def Let_def by blast

definition demo_run :: "rn_action list" where
  "demo_run = [Transport_Up True, Calls (demo_request ''x'') ''ep:1'', Calls (demo_request ''x'') ''ep:2'',
     Response_Arrives (make_response ((demo_request ''x'')\<lparr>q_corr := Some ''ep:2''\<rparr>) 200 [] (Raw [])),
     Call_Resumes 1, Call_Resumes 0,
     Response_Arrives (make_response ((demo_request ''x'')\<lparr>q_corr := Some ''ep:1''\<rparr>) 200 [] (Raw []))]"

theorem calls_matched_witness:
  "ended (rn_seen demo_rn_env demo_run) = [1, 0] \<and> u_pending (rn_after demo_rn_env demo_run) = [] \<and>
    mset (map fst (called demo_rn_env demo_run new_runtime)) = {#1, 0#}"
proof -
  have "distinct (minted demo_run)" by code_simp
  from calls_matched [OF this, of demo_rn_env]
  have all: "mset (map fst (called demo_rn_env demo_run new_runtime)) =
      mset (ended (rn_seen demo_rn_env demo_run)) + mset (map fst (u_calls (rn_after demo_rn_env demo_run)))"
    by (simp add: Let_def)
  have e: "ended (rn_seen demo_rn_env demo_run) = [1, 0]" by code_simp
  have c: "u_calls (rn_after demo_rn_env demo_run) = []" by code_simp
  have p: "u_pending (rn_after demo_rn_env demo_run) = []" by code_simp
  show ?thesis using all unfolding e c p by simp
qed

end
