(* ===== verification/Replay_Buffer.thy ===== *)
theory Replay_Buffer
  imports Event_Router Py_Numbers "HOL-Library.Code_Target_Nat"
begin

text \<open>
  The event-replay plugin (\<^verbatim>\<open>plugin_replay.py\<close>), the one subscriber that keeps the broker's event stream: a bounded
  drop-oldest buffer per session stream and one for session-less events, the record of each stream that outlives its
  buffer, the pull route \<open>fetch\<close> with its report of gaps, and the client's \<open>replay_iter\<close>.  The packed size of an event
  (\<open>len(msgpack.packb(event))\<close>) is the parameter \<open>psize\<close>, \<open>None\<close> where packing raises.  Each handler reads the clock
  once, which is an argument.
\<close>

section \<open>One buffer\<close>

type_synonym entry = "int \<times> pyfloat \<times> nat \<times> dict"

record ring =
  rb_max_bytes :: int
  rb_max_age :: "pyfloat option"
  rb_events :: "entry list"
  rb_nbytes :: int
  rb_dropped :: nat
  rb_last_dropped :: "int option"

definition new_ring :: "int \<Rightarrow> pyfloat option \<Rightarrow> ring" where
  "new_ring max_bytes max_age = \<lparr>rb_max_bytes = max_bytes, rb_max_age = max_age, rb_events = [], rb_nbytes = 0,
     rb_dropped = 0, rb_last_dropped = None\<rparr>"

definition drop_left :: "ring \<Rightarrow> ring" where
  "drop_left b = (case rb_events b of
     [] \<Rightarrow> b
   | (seq, ts, n, ev) # es \<Rightarrow>
       b\<lparr>rb_events := es, rb_nbytes := rb_nbytes b - int n, rb_dropped := rb_dropped b + 1,
         rb_last_dropped := (case rb_last_dropped b of
            None \<Rightarrow> Some seq | Some l \<Rightarrow> if l < seq then Some seq else Some l)\<rparr>)"

text \<open>A loop \<open>while self.events and <condition>: self._drop_left()\<close>.\<close>

function drop_while_left :: "(ring \<Rightarrow> bool) \<Rightarrow> ring \<Rightarrow> ring" where
  "drop_while_left c b = (if rb_events b \<noteq> [] \<and> c b then drop_while_left c (drop_left b) else b)"
  by pat_completeness auto

termination
  by (relation "measure (\<lambda>(c, b). length (rb_events b))") (auto simp: drop_left_def split: list.splits)

declare drop_while_left.simps [simp del]

definition ring_aged :: "rat \<Rightarrow> ring \<Rightarrow> bool" where
  "ring_aged now b \<longleftrightarrow> (case (rb_max_age b, rb_events b) of
     (Some age, (seq, ts, n, ev) # es) \<Rightarrow> flt age (fsub (Fin now) ts)
   | _ \<Rightarrow> False)"

definition ring_evict_aged :: "rat \<Rightarrow> ring \<Rightarrow> ring" where
  "ring_evict_aged now b = (if rb_max_age b = None then b else drop_while_left (ring_aged now) b)"

definition ring_enforce :: "rat \<Rightarrow> ring \<Rightarrow> ring" where
  "ring_enforce now b =
    (let b1 = (if rb_max_age b \<noteq> None then drop_while_left (ring_aged now) b else b)
     in drop_while_left (\<lambda>b. rb_max_bytes b < rb_nbytes b) b1)"

definition ring_append :: "entry \<Rightarrow> rat \<Rightarrow> ring \<Rightarrow> ring" where
  "ring_append e now b = (case e of (seq, ts, n, ev) \<Rightarrow>
     ring_enforce now (b\<lparr>rb_events := rb_events b @ [(seq, ts, n, ev)], rb_nbytes := rb_nbytes b + int n\<rparr>))"

definition lowest_seq :: "ring \<Rightarrow> int option" where
  "lowest_seq b = (case rb_events b of [] \<Rightarrow> None | e # es \<Rightarrow> Some (fst e))"

definition highest_seq :: "ring \<Rightarrow> int option" where
  "highest_seq b = (if rb_events b = [] then None else Some (fst (last (rb_events b))))"

record ring_stats =
  st_retained :: nat
  st_bytes :: int
  st_dropped :: nat
  st_lowest :: "int option"
  st_highest :: "int option"

definition stats_of :: "ring \<Rightarrow> ring_stats" where
  "stats_of b = \<lparr>st_retained = length (rb_events b), st_bytes = rb_nbytes b, st_dropped = rb_dropped b,
     st_lowest = lowest_seq b, st_highest = highest_seq b\<rparr>"

section \<open>Selection\<close>

text \<open>One field of a pattern: absent and \<open>None\<close> admit every value.\<close>

definition filter_field :: "dict \<Rightarrow> string \<Rightarrow> pyval \<Rightarrow> bool" where
  "filter_field p k v \<longleftrightarrow> pget p k = PNone \<or> py_eq (pget p k) v"

fun match_loop :: "pyval list \<Rightarrow> dict \<Rightarrow> py_error + bool" where
  "match_loop [] ev = Inr False"
| "match_loop (PDict p # ps) ev =
     (if filter_field p ''endpoint'' (pget ev ''src'') \<and> filter_field p ''plugin'' (pget ev ''plugin'')
         \<and> filter_field p ''topic'' (pget ev ''topic'')
      then Inr True else match_loop ps ev)"
| "match_loop (_ # ps) ev = Inl AttributeError"

definition event_matches :: "pyval \<Rightarrow> dict \<Rightarrow> py_error + bool" where
  "event_matches patterns ev =
     (if \<not> truthy patterns then Inr True else rbind (py_iter patterns) (\<lambda>ps. match_loop ps ev))"

fun select_loop :: "int \<Rightarrow> pyval \<Rightarrow> int \<Rightarrow> int \<Rightarrow> entry list \<Rightarrow> dict list \<Rightarrow> int \<Rightarrow> py_error + dict list" where
  "select_loop after patterns max_events max_bytes [] out nbytes = Inr out"
| "select_loop after patterns max_events max_bytes ((seq, ts, n, ev) # es) out nbytes =
     (if seq \<le> after then select_loop after patterns max_events max_bytes es out nbytes
      else rbind (event_matches patterns ev) (\<lambda>hit.
        if \<not> hit then select_loop after patterns max_events max_bytes es out nbytes
        else if out \<noteq> [] \<and> (max_events \<le> int (length out) \<or> max_bytes < nbytes + int n) then Inr out
        else select_loop after patterns max_events max_bytes es (out @ [ev]) (nbytes + int n)))"

definition select :: "int \<Rightarrow> pyval \<Rightarrow> int \<Rightarrow> int \<Rightarrow> ring \<Rightarrow> py_error + dict list" where
  "select after patterns max_events max_bytes b =
     select_loop after patterns max_events max_bytes (rb_events b) [] 0"

record reply =
  fr_events :: "dict list"
  fr_next :: pyval
  fr_gap :: bool

text \<open>\<open>_read\<close>; the buffer it leaves comes with the result.\<close>

definition read_ring :: "ring \<Rightarrow> int \<Rightarrow> pyval \<Rightarrow> int \<Rightarrow> int \<Rightarrow> rat \<Rightarrow> int \<Rightarrow> ring \<times> (py_error + reply)" where
  "read_ring b0 lower patterns max_events max_bytes now first =
    (let b = ring_evict_aged now b0
     in (b, rbind (select lower patterns max_events max_bytes b) (\<lambda>events.
       let start = (if 0 \<le> lower then lower + 1 else first);
           gap = ((case lowest_seq b of None \<Rightarrow> False | Some l \<Rightarrow> start < l)
                  \<or> (case rb_last_dropped b of None \<Rightarrow> False | Some l \<Rightarrow> lower < l));
           next = (if events \<noteq> [] then pget (last events) ''seq'' else PInt lower)
       in Inr \<lparr>fr_events = events, fr_next = next, fr_gap = gap\<rparr>)))"

section \<open>The plugin\<close>

record replay_limits =
  rc_session_age :: pyfloat
  rc_session_bytes :: int
  rc_global_bytes :: int
  rc_max_events :: int
  rc_max_bytes :: int

definition default_replay_limits :: replay_limits where
  "default_replay_limits = \<lparr>rc_session_age = Fin 600, rc_session_bytes = 4 * 1024 * 1024,
     rc_global_bytes = 16 * 1024 * 1024, rc_max_events = 256, rc_max_bytes = 1024 * 1024\<rparr>"

definition STREAMS_MAX :: nat where
  "STREAMS_MAX = 65536"

type_synonym rkey = "pyval \<times> pyval \<times> pyval"

record replay =
  rp_global :: ring
  rp_buffers :: "(rkey \<times> ring) list"
  rp_streams :: "(rkey \<times> int \<times> int option) list"

definition new_replay :: "replay_limits \<Rightarrow> replay" where
  "new_replay cfg = \<lparr>rp_global = new_ring (rc_global_bytes cfg) None, rp_buffers = [], rp_streams = []\<rparr>"

text \<open>A tuple as a dictionary key.\<close>

definition hash_key3 :: "pyval \<Rightarrow> pyval \<Rightarrow> pyval \<Rightarrow> rkey option" where
  "hash_key3 a b c = (case (hash_key a, hash_key b, hash_key c) of
     (Some x, Some y, Some z) \<Rightarrow> Some (x, y, z) | _ \<Rightarrow> None)"

definition event_size :: "(dict \<Rightarrow> nat option) \<Rightarrow> dict \<Rightarrow> nat" where
  "event_size psize ev = (case psize ev of None \<Rightarrow> 0 | Some n \<Rightarrow> n)"

text \<open>The two lookups of a session event that make what is missing: the record of its stream, then its buffer.\<close>

definition stream_record :: "rkey \<Rightarrow> pyval \<Rightarrow> replay \<Rightarrow> py_error + replay \<times> (int \<times> int option)" where
  "stream_record key seq rp = (case dget (rp_streams rp) key of
     Some rec \<Rightarrow> Inr (rp\<lparr>rp_streams := dpop key (rp_streams rp) @ [(key, rec)]\<rparr>, rec)
   | None \<Rightarrow> rbind (py_int seq) (\<lambda>n.
       let table = rp_streams rp @ [(key, n, None)];
           table' = (if length table > STREAMS_MAX then tl table else table)
       in Inr (rp\<lparr>rp_streams := table'\<rparr>, (n, None))))"

definition stream_buffer :: "replay_limits \<Rightarrow> rkey \<Rightarrow> int \<times> int option \<Rightarrow> replay \<Rightarrow> replay" where
  "stream_buffer cfg key rec rp = (case dget (rp_buffers rp) key of
     Some b \<Rightarrow> rp
   | None \<Rightarrow> rp\<lparr>rp_buffers := dset key
       ((new_ring (rc_session_bytes cfg) (Some (rc_session_age cfg)))\<lparr>rb_last_dropped := snd rec\<rparr>) (rp_buffers rp)\<rparr>)"

text \<open>The arguments of \<open>buf.append\<close>, computed before it runs.\<close>

definition event_entry :: "(dict \<Rightarrow> nat option) \<Rightarrow> rat \<Rightarrow> dict \<Rightarrow> py_error + entry" where
  "event_entry psize now ev =
    (let ts = (if truthy (pget ev ''ts'') then pget ev ''ts'' else PFloat (Fin now))
     in rbind (py_int (pget ev ''seq'')) (\<lambda>n. rbind (py_float ts) (\<lambda>t. Inr (n, t, event_size psize ev, ev))))"

definition retain_event :: "(dict \<Rightarrow> nat option) \<Rightarrow> replay_limits \<Rightarrow> rat \<Rightarrow> dict \<Rightarrow> replay \<Rightarrow> replay \<times> py_error option" where
  "retain_event psize cfg now ev rp =
    (if \<not> py_eq (pget ev ''kind'') (PStr ''event'') then (rp, None)
     else if pget ev ''seq'' = PNone then (rp, None)
     else if truthy (pget ev ''session'') then
       (case hash_key3 (pget ev ''src'') (pget ev ''plugin'') (pget ev ''session'') of
          None \<Rightarrow> (rp, Some TypeError)
        | Some key \<Rightarrow> (case stream_record key (pget ev ''seq'') rp of
            Inl e \<Rightarrow> (rp, Some e)
          | Inr (rp1, rec) \<Rightarrow>
              let rp2 = stream_buffer cfg key rec rp1
              in (case (event_entry psize now ev, dget (rp_buffers rp2) key) of
                    (Inr en, Some b) \<Rightarrow> (rp2\<lparr>rp_buffers := dset key (ring_append en now b) (rp_buffers rp2)\<rparr>, None)
                  | (Inl e, _) \<Rightarrow> (rp2, Some e)
                  | (_, None) \<Rightarrow> (rp2, None))))
     else (case event_entry psize now ev of
             Inl e \<Rightarrow> (rp, Some e)
           | Inr en \<Rightarrow> (rp\<lparr>rp_global := ring_append en now (rp_global rp)\<rparr>, None)))"

text \<open>\<open>_evict_aged\<close>: a buffer that aged out is given up, and its stream's record keeps the last seq evicted.\<close>

definition evict_stream :: "rat \<Rightarrow> rkey \<times> ring \<Rightarrow> replay \<Rightarrow> replay" where
  "evict_stream now kb rp = (case kb of (key, b0) \<Rightarrow>
     let b = ring_evict_aged now b0
     in if rb_events b \<noteq> [] then rp\<lparr>rp_buffers := dset key b (rp_buffers rp)\<rparr>
        else rp\<lparr>rp_buffers := dpop key (rp_buffers rp),
                rp_streams := (case dget (rp_streams rp) key of
                   None \<Rightarrow> rp_streams rp
                 | Some rec \<Rightarrow> dset key (fst rec, rb_last_dropped b) (rp_streams rp))\<rparr>)"

definition evict_aged :: "rat \<Rightarrow> replay \<Rightarrow> replay" where
  "evict_aged now rp =
     fold (evict_stream now) (rp_buffers rp) (rp\<lparr>rp_global := ring_evict_aged now (rp_global rp)\<rparr>)"

section \<open>The routes\<close>

definition first_seq :: "rkey \<Rightarrow> ring \<Rightarrow> replay \<Rightarrow> int" where
  "first_seq key b rp = (case dget (rp_streams rp) key of
     Some rec \<Rightarrow> fst rec
   | None \<Rightarrow> (case lowest_seq b of Some l \<Rightarrow> l | None \<Rightarrow> 0))"

definition session_buffers_of :: "pyval \<Rightarrow> pyval \<Rightarrow> pyval \<Rightarrow> replay \<Rightarrow> py_error + (rkey \<times> ring) list" where
  "session_buffers_of session endpoint plugin rp =
    (if endpoint \<noteq> PNone \<and> plugin \<noteq> PNone then
       (case hash_key3 endpoint plugin session of
          None \<Rightarrow> Inl TypeError
        | Some key \<Rightarrow> Inr (case dget (rp_buffers rp) key of None \<Rightarrow> [] | Some b \<Rightarrow> [(key, b)]))
     else Inr (filter (\<lambda>((src, pl, sid), b). py_eq sid session \<and> (endpoint = PNone \<or> py_eq endpoint src)
                 \<and> (plugin = PNone \<or> py_eq plugin pl)) (rp_buffers rp)))"

text \<open>One stream of a fetch; the eviction it does stays, also when the selection raises.\<close>

definition read_stream ::
  "int \<Rightarrow> pyval \<Rightarrow> int \<Rightarrow> int \<Rightarrow> rat \<Rightarrow> rkey \<times> ring \<Rightarrow> replay \<Rightarrow> replay \<times> (py_error + reply)" where
  "read_stream lower patterns max_events max_bytes now kb rp = (case kb of (key, b) \<Rightarrow>
     (case read_ring b lower patterns max_events max_bytes now (first_seq key b rp) of
        (b', res) \<Rightarrow> (rp\<lparr>rp_buffers := dset key b' (rp_buffers rp)\<rparr>, res)))"

fun read_streams :: "int \<Rightarrow> pyval \<Rightarrow> int \<Rightarrow> int \<Rightarrow> rat \<Rightarrow> (rkey \<times> ring) list \<Rightarrow> dict list \<Rightarrow> bool \<Rightarrow> replay
    \<Rightarrow> replay \<times> (py_error + dict list \<times> bool)" where
  "read_streams lower patterns max_events max_bytes now [] events gap rp = (rp, Inr (events, gap))"
| "read_streams lower patterns max_events max_bytes now (kb # kbs) events gap rp =
     (case read_stream lower patterns max_events max_bytes now kb rp of
        (rp', Inl e) \<Rightarrow> (rp', Inl e)
      | (rp', Inr res) \<Rightarrow> read_streams lower patterns max_events max_bytes now kbs (events @ fr_events res) (gap \<or> fr_gap res) rp')"

text \<open>The merge of several streams: \<open>ts\<close> and \<open>seq\<close>, which the broker writes, are compared as the numbers they are.
  \<open>slice_to\<close> is \<open>xs[:n]\<close>, and \<open>max_seq\<close> the first of the largest.\<close>

definition slice_to :: "int \<Rightarrow> 'a list \<Rightarrow> 'a list" where
  "slice_to n xs = (if 0 \<le> n then take (nat n) xs else take (length xs - nat (- n)) xs)"

definition merge_key :: "dict \<Rightarrow> py_error + pyfloat" where
  "merge_key ev = as_num (if truthy (pget ev ''ts'') then pget ev ''ts'' else PFloat (Fin 0))"

fun max_seq :: "pyval \<Rightarrow> pyval list \<Rightarrow> py_error + pyval" where
  "max_seq m [] = Inr m"
| "max_seq m (v # vs) = rbind (as_num m) (\<lambda>a. rbind (as_num v) (\<lambda>b. max_seq (if flt a b then v else m) vs))"

definition merge_reply :: "int \<Rightarrow> int \<Rightarrow> dict list \<Rightarrow> bool \<Rightarrow> py_error + reply" where
  "merge_reply lower max_events events gap =
     rbind (rmap_list (\<lambda>ev. rbind (merge_key ev) (\<lambda>k. Inr (k, ev))) events) (\<lambda>keyed.
       let evs = slice_to max_events (map snd (sort_key fst keyed))
       in rbind (case evs of [] \<Rightarrow> Inr (PInt lower) | e # es \<Rightarrow> max_seq (pget e ''seq'') (map (\<lambda>e. pget e ''seq'') es)) (\<lambda>next.
            Inr \<lparr>fr_events = evs, fr_next = next, fr_gap = gap\<rparr>))"

text \<open>\<open>int(body.get(k) or default)\<close>.\<close>

definition int_or :: "dict \<Rightarrow> string \<Rightarrow> int \<Rightarrow> py_error + int" where
  "int_or body k d = (if truthy (pget body k) then py_int (pget body k) else Inr d)"

definition fetch_found :: "int \<Rightarrow> pyval \<Rightarrow> int \<Rightarrow> int \<Rightarrow> rat \<Rightarrow> (rkey \<times> ring) list \<Rightarrow> replay \<Rightarrow> replay \<times> (py_error + reply)" where
  "fetch_found lower patterns max_events max_bytes now found rp = (case found of
     [] \<Rightarrow> (rp, Inr \<lparr>fr_events = [], fr_next = PInt lower, fr_gap = False\<rparr>)
   | [kb] \<Rightarrow> read_stream lower patterns max_events max_bytes now kb rp
   | _ \<Rightarrow> (case read_streams lower patterns max_events max_bytes now found [] False rp of
            (rp', Inl e) \<Rightarrow> (rp', Inl e)
          | (rp', Inr (events, gap)) \<Rightarrow> (rp', merge_reply lower max_events events gap)))"

definition fetch_patterns :: "dict \<Rightarrow> pyval" where
  "fetch_patterns body = (if truthy (pget body ''patterns'') then pget body ''patterns'' else PList [])"

definition fetch_args :: "replay_limits \<Rightarrow> dict \<Rightarrow> py_error + int \<times> int \<times> int" where
  "fetch_args cfg body =
     rbind (if pget body ''after_seq'' \<noteq> PNone then py_int (pget body ''after_seq'') else Inr (-1)) (\<lambda>lower.
     rbind (int_or body ''max_events'' (rc_max_events cfg)) (\<lambda>max_events.
     rbind (int_or body ''max_bytes'' (rc_max_bytes cfg)) (\<lambda>max_bytes. Inr (lower, max_events, max_bytes))))"

definition route_fetch :: "replay_limits \<Rightarrow> rat \<Rightarrow> dict \<Rightarrow> replay \<Rightarrow> replay \<times> (py_error + reply)" where
  "route_fetch cfg now body rp =
    (case fetch_args cfg body of
       Inl e \<Rightarrow> (rp, Inl e)
     | Inr (lower, max_events, max_bytes) \<Rightarrow>
         if pget body ''session'' = PNone then
           (case read_ring (rp_global rp) lower (fetch_patterns body) max_events max_bytes now 0 of
              (b, res) \<Rightarrow> (rp\<lparr>rp_global := b\<rparr>, res))
         else (case session_buffers_of (pget body ''session'') (pget body ''endpoint'') (pget body ''plugin'') rp of
                 Inl e \<Rightarrow> (rp, Inl e)
               | Inr found \<Rightarrow> fetch_found lower (fetch_patterns body) max_events max_bytes now found rp))"

text \<open>\<open>_route_stats\<close>, keyed by the stream itself in place of its parts joined by a slash.\<close>

definition route_stats :: "rat \<Rightarrow> replay \<Rightarrow> replay \<times> ring_stats \<times> (rkey \<times> ring_stats) list" where
  "route_stats now rp0 =
    (let rp = evict_aged now rp0
     in (rp, stats_of (rp_global rp), map (\<lambda>(k, b). (k, stats_of b)) (rp_buffers rp)))"

section \<open>Requests in turn\<close>

text \<open>What else happens to the plugin: an event from the tap, the sweeper, other requests.\<close>

datatype replay_op = Tapped rat dict | Sweep rat | Fetch rat dict | Stats rat

definition replay_do :: "(dict \<Rightarrow> nat option) \<Rightarrow> replay_limits \<Rightarrow> replay_op \<Rightarrow> replay \<Rightarrow> replay" where
  "replay_do psize cfg op rp = (case op of
     Tapped now ev \<Rightarrow> fst (retain_event psize cfg now ev rp)
   | Sweep now \<Rightarrow> evict_aged now rp
   | Fetch now body \<Rightarrow> fst (route_fetch cfg now body rp)
   | Stats now \<Rightarrow> fst (route_stats now rp))"

definition replay_run :: "(dict \<Rightarrow> nat option) \<Rightarrow> replay_limits \<Rightarrow> replay_op list \<Rightarrow> replay \<Rightarrow> replay" where
  "replay_run psize cfg ops rp = fold (replay_do psize cfg) ops rp"

text \<open>The client's \<open>fetch\<close> and \<open>replay_iter\<close>.  Before each of its requests the plugin does what the round lists, and
  answers at the round's time.  The answers come out beside how the loop stands: drained at a position, ended by an
  error answer, or about to fetch again when the rounds are used up.\<close>

record request =
  rq_patterns :: pyval
  rq_session :: pyval
  rq_endpoint :: pyval
  rq_plugin :: pyval
  rq_max_events :: pyval

definition fetch_body :: "pyval \<Rightarrow> request \<Rightarrow> dict" where
  "fetch_body after rq = (''after_seq'', after) # filter (\<lambda>(k, v). v \<noteq> PNone)
     [(''patterns'', rq_patterns rq), (''session'', rq_session rq), (''endpoint'', rq_endpoint rq),
      (''plugin'', rq_plugin rq), (''max_events'', rq_max_events rq)]"

datatype iter_end = Drained pyval | Failed py_error | Fetching pyval

fun replay_iter :: "(dict \<Rightarrow> nat option) \<Rightarrow> replay_limits \<Rightarrow> (replay_op list \<times> rat) list \<Rightarrow> pyval \<Rightarrow> request \<Rightarrow> replay
    \<Rightarrow> replay \<times> reply list \<times> iter_end" where
  "replay_iter psize cfg [] pos rq rp = (rp, [], Fetching pos)"
| "replay_iter psize cfg ((ops, now) # rounds) pos rq rp =
     (case route_fetch cfg now (fetch_body pos rq) (replay_run psize cfg ops rp) of
        (rp', Inl e) \<Rightarrow> (rp', [], Failed e)
      | (rp', Inr res) \<Rightarrow>
          if fr_events res = [] then (rp', [res], Drained pos)
          else (case replay_iter psize cfg rounds (fr_next res) rq rp' of
                  (rp'', rs, e) \<Rightarrow> (rp'', res # rs, e)))"

definition yielded :: "reply list \<Rightarrow> dict list" where
  "yielded rs = concat (map fr_events rs)"

end
