(* ===== verification/Replay_Safety.thy ===== *)
theory Replay_Safety
  imports Replay_Buffer
begin

text \<open>
  What the replay plugin promises (\<^verbatim>\<open>plugin_replay.py\<close>), against the history of a stream: the events that the tap
  delivered on it, in order.  A buffer holds the end of its stream's history and knows the largest number it evicted, so
  a fetch that reports no gap returns the next matching events of the history, and a drain by \<open>replay_iter\<close> yields each
  of them once.  The exception is a stream that the sweep has removed: a fetch then reports no gap whatever was lost.
\<close>

section \<open>A buffer against its history\<close>

definition seq_below :: "entry list \<Rightarrow> int option \<Rightarrow> bool" where
  "seq_below es l \<longleftrightarrow> (\<forall>e \<in> set es. \<exists>m. l = Some m \<and> fst e \<le> m)"

definition holds_end :: "entry list \<Rightarrow> ring \<Rightarrow> bool" where
  "holds_end H b \<longleftrightarrow> (\<exists>D. H = D @ rb_events b \<and> seq_below D (rb_last_dropped b))"

definition bytes_ok :: "ring \<Rightarrow> bool" where
  "bytes_ok b \<longleftrightarrow> rb_nbytes b = (\<Sum>(seq, ts, n, ev) \<leftarrow> rb_events b. int n)"

lemma seq_below_simps [simp]:
  "seq_below [] l" "seq_below (e # es) l \<longleftrightarrow> (\<exists>m. l = Some m \<and> fst e \<le> m) \<and> seq_below es l"
  "seq_below (ds @ es) l \<longleftrightarrow> seq_below ds l \<and> seq_below es l"
  by (auto simp: seq_below_def)

lemma seq_below_mono: "seq_below es (Some l) \<Longrightarrow> l \<le> m \<Longrightarrow> seq_below es (Some m)"
  by (force simp: seq_below_def)

lemma seq_below_None: "seq_below es None \<longleftrightarrow> es = []"
  by (cases es) auto

lemma drop_left_Cons:
  "rb_events b = e # es \<Longrightarrow> rb_events (drop_left b) = es \<and>
    rb_nbytes (drop_left b) = rb_nbytes b - (case e of (seq, ts, n, ev) \<Rightarrow> int n) \<and>
    rb_dropped (drop_left b) = Suc (rb_dropped b) \<and>
    rb_last_dropped (drop_left b) = Some (case rb_last_dropped b of None \<Rightarrow> fst e | Some l \<Rightarrow> max l (fst e))"
  by (cases e) (auto simp: drop_left_def split: option.splits)

lemma drop_left_limits [simp]:
  "rb_max_bytes (drop_left b) = rb_max_bytes b" "rb_max_age (drop_left b) = rb_max_age b"
  by (auto simp: drop_left_def split: list.splits)

text \<open>What a drop keeps, each of the loops keeps.\<close>

lemma drop_while_left_keeps:
  "P b \<Longrightarrow> (\<And>b. rb_events b \<noteq> [] \<Longrightarrow> P b \<Longrightarrow> P (drop_left b)) \<Longrightarrow> P (drop_while_left c b)"
proof (induction c b rule: drop_while_left.induct)
  case (1 c b)
  then show ?case by (simp add: drop_while_left.simps [of c b])
qed

lemma drop_while_left_stops: "rb_events (drop_while_left c b) \<noteq> [] \<Longrightarrow> \<not> c (drop_while_left c b)"
proof (induction c b rule: drop_while_left.induct)
  case (1 c b)
  then show ?case by (auto simp: drop_while_left.simps [of c b] split: if_splits)
qed

lemma ring_evict_keeps:
  "P b \<Longrightarrow> (\<And>b. rb_events b \<noteq> [] \<Longrightarrow> P b \<Longrightarrow> P (drop_left b)) \<Longrightarrow> P (ring_evict_aged now b)"
  by (simp add: ring_evict_aged_def drop_while_left_keeps)

lemma ring_enforce_keeps:
  "P b \<Longrightarrow> (\<And>b. rb_events b \<noteq> [] \<Longrightarrow> P b \<Longrightarrow> P (drop_left b)) \<Longrightarrow> P (ring_enforce now b)"
  by (simp add: ring_enforce_def Let_def drop_while_left_keeps)

lemma drop_left_history: "rb_events b \<noteq> [] \<Longrightarrow> holds_end H b \<Longrightarrow> holds_end H (drop_left b)"
proof -
  assume "rb_events b \<noteq> []" and k: "holds_end H b"
  then obtain e es where es: "rb_events b = e # es" by (cases "rb_events b") auto
  from k es obtain D where D: "H = (D @ [e]) @ es" "seq_below D (rb_last_dropped b)"
    by (auto simp: holds_end_def)
  have "seq_below (D @ [e]) (rb_last_dropped (drop_left b))"
  proof (cases "rb_last_dropped b")
    case None
    then show ?thesis using D(2) drop_left_Cons [OF es] by (simp add: seq_below_None)
  next
    case (Some l)
    then show ?thesis using D(2) drop_left_Cons [OF es] seq_below_mono [of D l "max l (fst e)"] by simp
  qed
  then show ?thesis using D(1) drop_left_Cons [OF es] unfolding holds_end_def by metis
qed

lemma drop_left_bytes: "rb_events b \<noteq> [] \<Longrightarrow> bytes_ok b \<Longrightarrow> bytes_ok (drop_left b)"
proof -
  assume "rb_events b \<noteq> []" and "bytes_ok b"
  moreover then obtain e es where "rb_events b = e # es" by (cases "rb_events b") auto
  ultimately show ?thesis using drop_left_Cons by (fastforce simp: bytes_ok_def split: prod.splits)
qed

lemma evict_history: "holds_end H b \<Longrightarrow> holds_end H (ring_evict_aged now b)"
  by (rule ring_evict_keeps [where P = "holds_end H"]) (auto intro: drop_left_history)

lemma ring_append_keeps:
  "P (b\<lparr>rb_events := rb_events b @ [e], rb_nbytes := rb_nbytes b + (case e of (seq, ts, n, ev) \<Rightarrow> int n)\<rparr>) \<Longrightarrow>
    (\<And>b. rb_events b \<noteq> [] \<Longrightarrow> P b \<Longrightarrow> P (drop_left b)) \<Longrightarrow> P (ring_append e now b)"
  by (cases e) (simp add: ring_append_def ring_enforce_keeps)

lemma append_history: "holds_end H b \<Longrightarrow> holds_end (H @ [e]) (ring_append e now b)"
  by (rule ring_append_keeps [where P = "holds_end (H @ [e])"], force simp: holds_end_def) (rule drop_left_history)

lemma drop_left_count:
  "rb_events b \<noteq> [] \<Longrightarrow> rb_dropped (drop_left b) + length (rb_events (drop_left b)) = rb_dropped b + length (rb_events b)"
  by (cases "rb_events b") (simp_all add: drop_left_Cons)

lemma append_count:
  "rb_dropped (ring_append e now b) + length (rb_events (ring_append e now b)) = Suc (rb_dropped b + length (rb_events b))"
  by (rule ring_append_keeps [where P = "\<lambda>b'. rb_dropped b' + length (rb_events b') = Suc (rb_dropped b + length (rb_events b))"])
    (auto simp: drop_left_count)

lemma evict_count:
  "rb_dropped (ring_evict_aged now b) + length (rb_events (ring_evict_aged now b)) = rb_dropped b + length (rb_events b)"
  by (rule ring_evict_keeps [where P = "\<lambda>b'. rb_dropped b' + length (rb_events b') = rb_dropped b + length (rb_events b)"])
    (auto simp: drop_left_count)

text \<open>The size bound, after every append.\<close>

definition ring_ok :: "ring \<Rightarrow> bool" where
  "ring_ok b \<longleftrightarrow> bytes_ok b \<and> (rb_nbytes b \<le> rb_max_bytes b \<or> rb_events b = [])"

lemma bytes_nonneg: "bytes_ok b \<Longrightarrow> 0 \<le> rb_nbytes b"
  by (auto simp: bytes_ok_def intro!: sum_list_nonneg)

lemma drop_left_ok: "rb_events b \<noteq> [] \<Longrightarrow> ring_ok b \<Longrightarrow> ring_ok (drop_left b)"
proof -
  assume ne: "rb_events b \<noteq> []" and ok: "ring_ok b"
  then obtain e es where "rb_events b = e # es" by (cases "rb_events b") auto
  then have "rb_nbytes (drop_left b) \<le> rb_nbytes b" using drop_left_Cons [of b e es] by (simp split: prod.splits)
  then show ?thesis using ne ok drop_left_bytes by (auto simp: ring_ok_def)
qed

lemma evict_ok: "ring_ok b \<Longrightarrow> ring_ok (ring_evict_aged now b)"
  by (rule ring_evict_keeps [where P = ring_ok]) (auto intro: drop_left_ok)

lemma append_ok: "bytes_ok b \<Longrightarrow> ring_ok (ring_append e now b)"
proof -
  assume b: "bytes_ok b"
  obtain seq ts n ev where e: "e = (seq, ts, n, ev)" by (cases e)
  define b1 where "b1 = b\<lparr>rb_events := rb_events b @ [e], rb_nbytes := rb_nbytes b + int n\<rparr>"
  define b2 where "b2 = (if rb_max_age b1 \<noteq> None then drop_while_left (ring_aged now) b1 else b1)"
  define b3 where "b3 = drop_while_left (\<lambda>b. rb_max_bytes b < rb_nbytes b) b2"
  have "bytes_ok b1" using b by (simp add: b1_def bytes_ok_def e)
  then have "bytes_ok b2" by (auto simp: b2_def intro: drop_while_left_keeps [where P = bytes_ok] drop_left_bytes)
  then have "bytes_ok b3" by (auto simp: b3_def intro: drop_while_left_keeps [where P = bytes_ok] drop_left_bytes)
  moreover have "rb_events b3 \<noteq> [] \<Longrightarrow> \<not> rb_max_bytes b3 < rb_nbytes b3"
    unfolding b3_def by (drule drop_while_left_stops) simp
  moreover have "ring_append e now b = b3" by (simp add: ring_append_def ring_enforce_def Let_def b1_def b2_def b3_def e)
  ultimately show ?thesis by (auto simp: ring_ok_def)
qed

section \<open>Selection\<close>

definition wanted :: "int \<Rightarrow> pyval \<Rightarrow> entry list \<Rightarrow> dict list" where
  "wanted after patterns es =
     map (\<lambda>(seq, ts, n, ev). ev) (filter (\<lambda>(seq, ts, n, ev). after < seq \<and> event_matches patterns ev = Inr True) es)"

lemma wanted_append [simp]: "wanted a p (xs @ ys) = wanted a p xs @ wanted a p ys"
  by (simp add: wanted_def)

lemma wanted_Nil [simp]: "wanted a p [] = []"
  by (simp add: wanted_def)

lemma select_loop_prefix:
  "select_loop a p me mb es out nb = Inr res \<Longrightarrow>
    \<exists>k. res = out @ take k (wanted a p es) \<and> (out = [] \<and> wanted a p es \<noteq> [] \<longrightarrow> 0 < k)"
proof (induction a p me mb es out nb rule: select_loop.induct)
  case (2 a p me mb seq ts n ev es out nb)
  show ?case
  proof (cases "seq \<le> a")
    case True
    then show ?thesis using 2 by (simp add: wanted_def)
  next
    case False
    then obtain hit where hit: "event_matches p ev = Inr hit"
      using 2(4) by (cases "event_matches p ev") auto
    consider (miss) "\<not> hit" | (stop) "hit" "out \<noteq> [] \<and> (me \<le> int (length out) \<or> mb < nb + int n)"
      | (more) "hit" "\<not> (out \<noteq> [] \<and> (me \<le> int (length out) \<or> mb < nb + int n))" by blast
    then show ?thesis
    proof cases
      case miss
      then show ?thesis using 2(2) [OF False _ ] 2(4) False hit miss by (simp add: wanted_def)
    next
      case stop
      then show ?thesis using 2(4) False hit by (intro exI [of _ 0]) (simp split: if_splits)
    next
      case more
      have "select_loop a p me mb es (out @ [ev]) (nb + int n) = Inr res"
        using 2(4) False hit more by (simp split: if_splits)
      then obtain k where "res = (out @ [ev]) @ take k (wanted a p es)"
        using 2(3) [OF False] more by fastforce
      moreover have "wanted a p ((seq, ts, n, ev) # es) = ev # wanted a p es"
        using False hit more by (simp add: wanted_def)
      ultimately show ?thesis by (intro exI [of _ "Suc k"]) simp
    qed
  qed
qed simp

lemma select_prefix:
  "select a p me mb b = Inr res \<Longrightarrow>
    \<exists>k. res = take k (wanted a p (rb_events b)) \<and> (wanted a p (rb_events b) \<noteq> [] \<longrightarrow> 0 < k)"
  unfolding select_def by (drule select_loop_prefix) auto

section \<open>Histories\<close>

text \<open>Where the plugin puts an event: on a session stream, on the session-less one, or nowhere.\<close>

definition taps_as :: "dict \<Rightarrow> rkey option option" where
  "taps_as ev =
    (if \<not> py_eq (pget ev ''kind'') (PStr ''event'') \<or> pget ev ''seq'' = PNone then None
     else if truthy (pget ev ''session'')
     then map_option Some (hash_key3 (pget ev ''src'') (pget ev ''plugin'') (pget ev ''session''))
     else Some None)"

fun stored :: "(dict \<Rightarrow> nat option) \<Rightarrow> rkey option \<Rightarrow> replay_op \<Rightarrow> entry list" where
  "stored psize k (Tapped now ev) =
     (if taps_as ev = Some k then (case event_entry psize now ev of Inl e \<Rightarrow> [] | Inr en \<Rightarrow> [en]) else [])"
| "stored psize k op = []"

definition stream_history :: "(dict \<Rightarrow> nat option) \<Rightarrow> rkey option \<Rightarrow> replay_op list \<Rightarrow> entry list" where
  "stream_history psize k ops = concat (map (stored psize k) ops)"

fun op_keys :: "replay_op \<Rightarrow> rkey list" where
  "op_keys (Tapped now ev) = (case taps_as ev of Some (Some key) \<Rightarrow> [key] | _ \<Rightarrow> [])"
| "op_keys op = []"

definition stream_keys :: "replay_op list \<Rightarrow> rkey list" where
  "stream_keys ops = remdups (concat (map op_keys ops))"

lemma stream_history_simps [simp]:
  "stream_history psize k [] = []" "stream_history psize k (xs @ ys) = stream_history psize k xs @ stream_history psize k ys"
  "stream_history psize k (op # ops) = stored psize k op @ stream_history psize k ops"
  by (simp_all add: stream_history_def)

lemma set_stream_keys [simp]: "set (stream_keys (ops @ [op])) = set (stream_keys ops) \<union> set (op_keys op)"
  by (simp add: stream_keys_def)

lemma stream_keys_le: "length (stream_keys ops) \<le> length (stream_keys (ops @ later))"
  unfolding stream_keys_def by (simp add: length_remdups_card_conv card_mono)

section \<open>The invariant of the plugin\<close>

definition stream_inv :: "entry list \<Rightarrow> rkey \<Rightarrow> replay \<Rightarrow> bool" where
  "stream_inv H key rp = (case dget (rp_buffers rp) key of
     Some b \<Rightarrow> holds_end H b \<and> dhas (rp_streams rp) key
   | None \<Rightarrow> (case dget (rp_streams rp) key of None \<Rightarrow> H = [] | Some rec \<Rightarrow> seq_below H (snd rec)))"

definition replay_tables_ok :: "replay \<Rightarrow> bool" where
  "replay_tables_ok rp \<longleftrightarrow> dict_ok (rp_buffers rp) \<and> dict_ok (rp_streams rp)"

definition replay_ok :: "(dict \<Rightarrow> nat option) \<Rightarrow> replay_op list \<Rightarrow> replay \<Rightarrow> bool" where
  "replay_ok psize ops rp \<longleftrightarrow> replay_tables_ok rp \<and> fst ` set (rp_streams rp) \<subseteq> set (stream_keys ops) \<and>
     holds_end (stream_history psize None ops) (rp_global rp) \<and> (\<forall>key. stream_inv (stream_history psize (Some key) ops) key rp)"

lemma new_replay_inv: "replay_ok psize [] (new_replay cfg)"
  by (simp add: replay_ok_def replay_tables_ok_def new_replay_def new_ring_def holds_end_def stream_inv_def)

lemma replay_inv_stream: "replay_ok psize ops rp \<Longrightarrow> stream_inv (stream_history psize (Some key) ops) key rp"
  unfolding replay_ok_def by blast

lemma dhas_key: "dhas d k \<longleftrightarrow> k \<in> fst ` set d"
  by (simp add: dhas_def map_of_eq_None_iff)

lemma stream_inv_same:
  "dget (rp_buffers rp') key = dget (rp_buffers rp) key \<Longrightarrow> dget (rp_streams rp') key = dget (rp_streams rp) key \<Longrightarrow>
    stream_inv H key rp' = stream_inv H key rp"
  by (simp add: stream_inv_def dhas_def cong: option.case_cong)

text \<open>A sweep of one stream, and a read of one, leave every history kept.\<close>

definition same_streams :: "replay \<Rightarrow> replay \<Rightarrow> bool" where
  "same_streams rp rp' \<longleftrightarrow> (replay_tables_ok rp \<longrightarrow> replay_tables_ok rp') \<and>
     fst ` set (rp_streams rp') = fst ` set (rp_streams rp) \<and>
     (\<forall>H. holds_end H (rp_global rp) \<longrightarrow> holds_end H (rp_global rp')) \<and>
     (\<forall>H key. stream_inv H key rp \<longrightarrow> stream_inv H key rp')"

lemma same_streams_refl [simp]: "same_streams rp rp"
  by (simp add: same_streams_def)

lemma same_streams_trans: "same_streams a b \<Longrightarrow> same_streams b c \<Longrightarrow> same_streams a c"
  by (simp add: same_streams_def)

lemma same_streams_inv: "same_streams rp rp' \<Longrightarrow> replay_ok psize ops rp \<Longrightarrow> replay_ok psize ops rp'"
  by (simp add: same_streams_def replay_ok_def)

lemma global_evict_same: "same_streams rp (rp\<lparr>rp_global := ring_evict_aged now (rp_global rp)\<rparr>)"
  by (simp add: same_streams_def replay_tables_ok_def evict_history stream_inv_def cong: option.case_cong)

lemma dset_fst_keys: "dhas d k \<Longrightarrow> fst ` set (dset k v d) = fst ` set d"
  by (metis dhas_def keys_dset_present list.set_map)

lemma evict_stream_same:
  assumes "dget (rp_buffers rp) key = Some b"
  shows "same_streams rp (evict_stream now (key, b) rp)"
proof -
  have keys: "fst ` set (rp_streams (evict_stream now (key, b) rp)) = fst ` set (rp_streams rp)"
    by (auto simp: evict_stream_def Let_def dset_fst_keys dhas_def split: option.splits)
  have ok: "replay_tables_ok rp \<Longrightarrow> replay_tables_ok (evict_stream now (key, b) rp)"
    by (auto simp: evict_stream_def Let_def replay_tables_ok_def split: option.splits)
  have "stream_inv H k (evict_stream now (key, b) rp)" if inv: "stream_inv H k rp" for H k
  proof (cases "k = key")
    case True
    let ?b = "ring_evict_aged now b"
    have kept: "holds_end H ?b" and rec: "dhas (rp_streams rp) key"
      using inv True assms evict_history by (auto simp: stream_inv_def)
    then obtain r where r: "dget (rp_streams rp) key = Some r" by (auto simp: dhas_def)
    show ?thesis
    proof (cases "rb_events ?b = []")
      case True
      then show ?thesis using kept r \<open>k = key\<close> by (auto simp: evict_stream_def Let_def stream_inv_def holds_end_def)
    next
      case False
      then show ?thesis using kept rec \<open>k = key\<close> by (auto simp: evict_stream_def Let_def stream_inv_def)
    qed
  next
    case False
    then have "dget (rp_buffers (evict_stream now (key, b) rp)) k = dget (rp_buffers rp) k"
      "dget (rp_streams (evict_stream now (key, b) rp)) k = dget (rp_streams rp) k"
      by (auto simp: evict_stream_def Let_def split: option.splits)
    then show ?thesis using stream_inv_same inv by blast
  qed
  moreover have "rp_global (evict_stream now (key, b) rp) = rp_global rp" by (simp add: evict_stream_def Let_def)
  ultimately show ?thesis using keys ok by (simp add: same_streams_def)
qed

lemma fold_evict_same:
  "dict_ok kbs \<Longrightarrow> \<forall>(k, b) \<in> set kbs. dget (rp_buffers rp) k = Some b \<Longrightarrow> same_streams rp (fold (evict_stream now) kbs rp)"
proof (induction kbs arbitrary: rp)
  case (Cons kb kbs)
  obtain k b where kb: "kb = (k, b)" by (cases kb)
  let ?rp = "evict_stream now (k, b) rp"
  have "\<forall>(k', b') \<in> set kbs. dget (rp_buffers ?rp) k' = Some b'"
  proof
    fix x assume x: "x \<in> set kbs"
    then have "fst x \<noteq> k" using Cons.prems(1) kb by (auto simp: dict_ok_def)
    then show "case x of (k', b') \<Rightarrow> dget (rp_buffers ?rp) k' = Some b'"
      using Cons.prems(2) x by (auto simp: evict_stream_def Let_def)
  qed
  then have "same_streams ?rp (fold (evict_stream now) kbs ?rp)"
    using Cons.IH [of ?rp] Cons.prems(1) by (simp add: dict_ok_def)
  moreover have "same_streams rp ?rp" using evict_stream_same Cons.prems(2) kb by simp
  ultimately show ?case using kb same_streams_trans by auto
qed simp

lemma evict_aged_same: "replay_tables_ok rp \<Longrightarrow> same_streams rp (evict_aged now rp)"
  unfolding evict_aged_def
  by (rule same_streams_trans [OF global_evict_same [of rp now]], rule fold_evict_same)
    (auto simp: replay_tables_ok_def dict_ok_dget)

lemma read_stream_rp:
  "fst (read_stream lower p me mb now (key, b) rp) = rp\<lparr>rp_buffers := dset key (ring_evict_aged now b) (rp_buffers rp)\<rparr>"
  by (simp add: read_stream_def read_ring_def Let_def)

lemma read_stream_same:
  assumes "dget (rp_buffers rp) key = Some b"
  shows "same_streams rp (fst (read_stream lower p me mb now (key, b) rp))"
proof -
  have "stream_inv H k rp \<Longrightarrow> stream_inv H k (rp\<lparr>rp_buffers := dset key (ring_evict_aged now b) (rp_buffers rp)\<rparr>)" for H k
    using assms evict_history by (cases "k = key") (auto simp: stream_inv_def cong: option.case_cong)
  then show ?thesis unfolding read_stream_rp by (auto simp: same_streams_def replay_tables_ok_def)
qed

lemma read_streams_same:
  "dict_ok kbs \<Longrightarrow> \<forall>(k, b) \<in> set kbs. dget (rp_buffers rp) k = Some b \<Longrightarrow>
    same_streams rp (fst (read_streams lower p me mb now kbs evs gap rp))"
proof (induction kbs arbitrary: rp evs gap)
  case (Cons kb kbs)
  obtain k b where kb: "kb = (k, b)" by (cases kb)
  obtain rp1 r where eq: "read_stream lower p me mb now (k, b) rp = (rp1, r)" by (metis prod.exhaust)
  have one: "same_streams rp rp1" using read_stream_same [of rp k b lower p me mb now] Cons.prems(2) kb eq by simp
  show ?case
  proof (cases r)
    case (Inl e)
    then show ?thesis using one kb eq by simp
  next
    case (Inr res)
    have "\<forall>(k', b') \<in> set kbs. dget (rp_buffers rp1) k' = Some b'"
    proof
      fix x assume x: "x \<in> set kbs"
      then have "fst x \<noteq> k" using Cons.prems(1) kb by (auto simp: dict_ok_def)
      then show "case x of (k', b') \<Rightarrow> dget (rp_buffers rp1) k' = Some b'"
        using Cons.prems(2) x read_stream_rp [of lower p me mb now k b rp] eq by auto
    qed
    then have "same_streams rp1 (fst (read_streams lower p me mb now kbs (evs @ fr_events res) (gap \<or> fr_gap res) rp1))"
      using Cons.IH [of rp1] Cons.prems(1) by (simp add: dict_ok_def)
    then show ?thesis using kb one eq Inr by (auto intro: same_streams_trans)
  qed
qed simp

lemma found_buffers:
  assumes "session_buffers_of s e pl rp = Inr found" and "replay_tables_ok rp"
  shows "dict_ok found \<and> (\<forall>(k, b) \<in> set found. dget (rp_buffers rp) k = Some b)"
proof (cases "e \<noteq> PNone \<and> pl \<noteq> PNone")
  case True
  then show ?thesis using assms by (auto simp: session_buffers_of_def dict_ok_def split: option.splits)
next
  case False
  then have "found = filter (\<lambda>((src, p, sid), b). py_eq sid s \<and> (e = PNone \<or> py_eq e src)
                 \<and> (pl = PNone \<or> py_eq pl p)) (rp_buffers rp)"
    using assms(1) by (simp only: session_buffers_of_def if_False) simp
  then have "set found \<subseteq> set (rp_buffers rp)" "dict_ok found"
    using assms(2) by (auto simp: replay_tables_ok_def dict_ok_def distinct_map_filter)
  then show ?thesis using assms(2) by (auto simp: replay_tables_ok_def dict_ok_dget)
qed

lemma fetch_found_same:
  assumes "dict_ok found" and "\<forall>(k, b) \<in> set found. dget (rp_buffers rp) k = Some b"
  shows "same_streams rp (fst (fetch_found lower p me mb now found rp))"
proof -
  consider "found = []" | kb where "found = [kb]" | kb kb' kbs where "found = kb # kb' # kbs"
    by (metis list.exhaust)
  then show ?thesis
  proof cases
    case 2
    then show ?thesis using assms read_stream_same by (cases kb) (simp add: fetch_found_def)
  next
    case 3
    have "same_streams rp (fst (read_streams lower p me mb now found [] False rp))"
      by (rule read_streams_same) (use assms in auto)
    then show ?thesis
      unfolding 3 fetch_found_def
      by (auto simp del: read_streams.simps split: prod.splits sum.splits)
  qed (simp add: fetch_found_def)
qed

lemma route_fetch_same: "replay_tables_ok rp \<Longrightarrow> same_streams rp (fst (route_fetch cfg now body rp))"
  unfolding route_fetch_def Let_def
  by (auto simp: read_ring_def Let_def global_evict_same split: sum.splits
      intro!: fetch_found_same dest: found_buffers)

lemma route_stats_same: "replay_tables_ok rp \<Longrightarrow> same_streams rp (fst (route_stats now rp))"
  by (simp add: route_stats_def Let_def evict_aged_same)

section \<open>Events\<close>

lemma stream_record_cases:
  assumes "stream_record key seq rp = Inr (rp1, rec)" and "replay_tables_ok rp"
    and "length (rp_streams rp) < STREAMS_MAX \<or> dhas (rp_streams rp) key"
  shows "replay_tables_ok rp1 \<and> rp_buffers rp1 = rp_buffers rp \<and> rp_global rp1 = rp_global rp \<and>
    fst ` set (rp_streams rp1) = insert key (fst ` set (rp_streams rp)) \<and>
    dget (rp_streams rp1) key = Some rec \<and>
    (\<forall>k. k \<noteq> key \<longrightarrow> dget (rp_streams rp1) k = dget (rp_streams rp) k) \<and>
    (dget (rp_streams rp) key = Some rec \<or> dget (rp_streams rp) key = None \<and> snd rec = None)"
proof (cases "dget (rp_streams rp) key")
  case None
  then have new: "key \<notin> fst ` set (rp_streams rp)" by (simp add: map_of_eq_None_iff)
  from None assms have "\<not> dhas (rp_streams rp) key" by (simp add: dhas_def)
  with None assms(1,3) obtain n where
    rp1: "rp1 = rp\<lparr>rp_streams := rp_streams rp @ [(key, n, None)]\<rparr>" and rec: "rec = (n, None)"
    by (auto simp: stream_record_def Let_def result_simps)
  show ?thesis using new None assms(2) rec
    by (auto simp: rp1 replay_tables_ok_def dict_ok_def map_add_def split: option.splits)
next
  case (Some r)
  then have rp1: "rp1 = rp\<lparr>rp_streams := dpop key (rp_streams rp) @ [(key, rec)]\<rparr>" and r: "r = rec"
    using assms(1) by (auto simp: stream_record_def)
  have "key \<in> fst ` set (rp_streams rp)" using Some by (force dest: map_of_SomeD)
  moreover have "fst ` set (dpop key (rp_streams rp)) = fst ` set (rp_streams rp) - {key}"
    by (auto simp: AList.delete_eq image_iff)
  ultimately show ?thesis using Some r assms(2)
    by (auto simp: rp1 replay_tables_ok_def dict_ok_move_to_end map_add_def split: option.splits)
qed

lemma stream_buffer_fields [simp]:
  "rp_global (stream_buffer cfg key rec rp) = rp_global rp" "rp_streams (stream_buffer cfg key rec rp) = rp_streams rp"
  "k \<noteq> key \<Longrightarrow> dget (rp_buffers (stream_buffer cfg key rec rp)) k = dget (rp_buffers rp) k"
  "replay_tables_ok rp \<Longrightarrow> replay_tables_ok (stream_buffer cfg key rec rp)"
  by (auto simp: stream_buffer_def replay_tables_ok_def split: option.splits)

lemma stream_buffer_kept:
  assumes "stream_inv H key rp" and "dget (rp_streams rp1) key = Some rec" and "rp_buffers rp1 = rp_buffers rp"
    and "dget (rp_streams rp) key = Some rec \<or> dget (rp_streams rp) key = None \<and> snd rec = None"
  shows "\<exists>b. dget (rp_buffers (stream_buffer cfg key rec rp1)) key = Some b \<and> holds_end H b"
proof (cases "dget (rp_buffers rp) key")
  case None
  have "seq_below H (snd rec)" using assms(1,4) None by (auto simp: stream_inv_def)
  then show ?thesis using None assms(3) by (simp add: stream_buffer_def holds_end_def new_ring_def)
next
  case (Some b)
  then show ?thesis using assms(1,3) by (simp add: stream_buffer_def stream_inv_def)
qed

lemma room_for_stream:
  assumes "replay_ok psize ops rp" and "length (stream_keys (ops @ [op])) \<le> STREAMS_MAX" and "key \<in> set (op_keys op)"
  shows "length (rp_streams rp) < STREAMS_MAX \<or> dhas (rp_streams rp) key"
proof (rule disjCI)
  assume "\<not> dhas (rp_streams rp) key"
  then have new: "key \<notin> fst ` set (rp_streams rp)" by (simp add: dhas_key)
  have "length (rp_streams rp) = card (fst ` set (rp_streams rp))"
    using assms(1) distinct_card [of "map fst (rp_streams rp)"] by (simp add: replay_ok_def replay_tables_ok_def dict_ok_def)
  also have "\<dots> < card (set (stream_keys (ops @ [op])))"
    using assms(1,3) new by (intro psubset_card_mono) (auto simp: replay_ok_def)
  also have "\<dots> = length (stream_keys (ops @ [op]))" by (rule distinct_card) (simp add: stream_keys_def)
  finally show "length (rp_streams rp) < STREAMS_MAX" using assms(2) by simp
qed

lemma retain_event_inv:
  assumes inv: "replay_ok psize ops rp" and few: "length (stream_keys (ops @ [Tapped now ev])) \<le> STREAMS_MAX"
  shows "replay_ok psize (ops @ [Tapped now ev]) (fst (retain_event psize cfg now ev rp))"
proof (cases "taps_as ev")
  case None
  then show ?thesis using inv by (auto simp: retain_event_def taps_as_def replay_ok_def split: if_splits option.splits)
next
  case (Some k)
  show ?thesis
  proof (cases k)
    case None
    then have g: "py_eq (pget ev ''kind'') (PStr ''event'')" "pget ev ''seq'' \<noteq> PNone" "\<not> truthy (pget ev ''session'')"
      using Some by (auto simp: taps_as_def split: if_splits)
    show ?thesis using inv g Some None
      by (auto simp: retain_event_def replay_ok_def replay_tables_ok_def stream_inv_def append_history
          split: sum.splits cong: option.case_cong)
  next
    case (Some key)
    then have g: "py_eq (pget ev ''kind'') (PStr ''event'')" "pget ev ''seq'' \<noteq> PNone" "truthy (pget ev ''session'')"
        "hash_key3 (pget ev ''src'') (pget ev ''plugin'') (pget ev ''session'') = Some key"
      and t: "taps_as ev = Some (Some key)"
      using \<open>taps_as ev = Some k\<close> by (auto simp: taps_as_def split: if_splits)
    show ?thesis
    proof (cases "stream_record key (pget ev ''seq'') rp")
      case (Inl e)
      then have "\<exists>e. event_entry psize now ev = Inl e"
        by (auto simp: stream_record_def event_entry_def result_simps Let_def split: option.splits)
      then show ?thesis using inv g t Inl by (auto simp: retain_event_def replay_ok_def)
    next
      case (Inr p)
      obtain rp1 rec where p: "p = (rp1, rec)" by (cases p)
      have room: "length (rp_streams rp) < STREAMS_MAX \<or> dhas (rp_streams rp) key"
        by (rule room_for_stream [OF inv few]) (simp add: t)
      note rc = stream_record_cases [OF Inr [unfolded p] _ room]
      have ok: "replay_tables_ok rp" using inv by (simp add: replay_ok_def)
      note rc = rc [OF ok]
      let ?rp2 = "stream_buffer cfg key rec rp1"
      obtain b where b: "dget (rp_buffers ?rp2) key = Some b" "holds_end (stream_history psize (Some key) ops) b"
        using stream_buffer_kept [of "stream_history psize (Some key) ops" key rp rp1 rec cfg] rc replay_inv_stream [OF inv] by blast
      have other: "stream_inv (stream_history psize (Some k') ops) k' rp3"
        if "k' \<noteq> key" "dget (rp_buffers rp3) k' = dget (rp_buffers ?rp2) k'" "rp_streams rp3 = rp_streams rp1" for k' rp3
      proof -
        have "stream_inv (stream_history psize (Some k') ops) k' rp" by (rule replay_inv_stream [OF inv])
        then show ?thesis using stream_inv_same [of rp3 k' rp] that rc by auto
      qed
      have keyed: "dhas (rp_streams rp1) key" using rc by (simp add: dhas_def)
      have known: "fst ` set (rp_streams rp1) \<subseteq> set (stream_keys (ops @ [Tapped now ev]))"
        using inv rc t by (auto simp: replay_ok_def)
      show ?thesis
      proof (cases "event_entry psize now ev")
        case (Inl e)
        then have res: "fst (retain_event psize cfg now ev rp) = ?rp2" using g Inr p b by (simp add: retain_event_def Let_def)
        have "stream_inv (stream_history psize (Some k') ops) k' ?rp2" for k'
          using other [of k' ?rp2] b keyed by (cases "k' = key") (auto simp: stream_inv_def)
        then show ?thesis unfolding res using inv rc t known Inl by (auto simp: replay_ok_def)
      next
        case (Inr en)
        let ?rp3 = "?rp2\<lparr>rp_buffers := dset key (ring_append en now b) (rp_buffers ?rp2)\<rparr>"
        have res: "fst (retain_event psize cfg now ev rp) = ?rp3"
          using g \<open>stream_record key (pget ev ''seq'') rp = Inr p\<close> p b Inr by (simp add: retain_event_def Let_def)
        have "stream_inv (stream_history psize (Some k') (ops @ [Tapped now ev])) k' ?rp3" for k'
          using other [of k' ?rp3] b keyed append_history [OF b(2)] t Inr
          by (cases "k' = key") (auto simp: stream_inv_def)
        moreover have "replay_tables_ok ?rp3" using rc ok by (simp add: replay_tables_ok_def dict_ok_dset stream_buffer_def split: option.splits)
        ultimately show ?thesis unfolding res using inv rc t known by (auto simp: replay_ok_def)
      qed
    qed
  qed
qed

lemma replay_inv_quiet:
  "replay_ok psize ops rp \<Longrightarrow> op_keys op = [] \<Longrightarrow> \<forall>k. stored psize k op = [] \<Longrightarrow> replay_ok psize (ops @ [op]) rp"
  by (simp add: replay_ok_def)

lemma replay_do_same: "\<forall>now ev. op \<noteq> Tapped now ev \<Longrightarrow> replay_tables_ok rp \<Longrightarrow> same_streams rp (replay_do psize cfg op rp)"
  by (cases op) (simp_all add: replay_do_def evict_aged_same route_fetch_same route_stats_same)

lemma replay_do_inv:
  assumes "replay_ok psize ops rp" and "length (stream_keys (ops @ [op])) \<le> STREAMS_MAX"
  shows "replay_ok psize (ops @ [op]) (replay_do psize cfg op rp)"
proof (cases "\<exists>now ev. op = Tapped now ev")
  case True
  then show ?thesis using retain_event_inv assms by (auto simp: replay_do_def)
next
  case False
  then have "same_streams rp (replay_do psize cfg op rp)"
    using replay_do_same assms(1) by (simp add: replay_ok_def)
  then have "replay_ok psize ops (replay_do psize cfg op rp)" using same_streams_inv assms(1) by blast
  then show ?thesis by (rule replay_inv_quiet) (use False in \<open>cases op; simp\<close>)+
qed

lemma replay_run_snoc: "replay_run psize cfg (ops @ [op]) rp = replay_do psize cfg op (replay_run psize cfg ops rp)"
  by (simp add: replay_run_def)

lemma replay_run_inv:
  "length (stream_keys ops) \<le> STREAMS_MAX \<Longrightarrow> replay_ok psize ops (replay_run psize cfg ops (new_replay cfg))"
proof (induction ops rule: rev_induct)
  case Nil
  then show ?case by (simp add: replay_run_def new_replay_inv)
next
  case (snoc op ops)
  then show ?case using replay_do_inv stream_keys_le [of ops "[op]"] by (auto simp: replay_run_snoc)
qed

section \<open>One fetch\<close>

text \<open>A request for one stream: the session-less one, or a session with its endpoint and plugin.\<close>

definition addresses :: "dict \<Rightarrow> rkey option \<Rightarrow> bool" where
  "addresses body k \<longleftrightarrow> (case k of
     None \<Rightarrow> pget body ''session'' = PNone
   | Some key \<Rightarrow> pget body ''session'' \<noteq> PNone \<and> pget body ''endpoint'' \<noteq> PNone \<and> pget body ''plugin'' \<noteq> PNone \<and>
       hash_key3 (pget body ''endpoint'') (pget body ''plugin'') (pget body ''session'') = Some key)"

definition buffer_at :: "rkey option \<Rightarrow> replay \<Rightarrow> ring option" where
  "buffer_at k rp = (case k of None \<Rightarrow> Some (rp_global rp) | Some key \<Rightarrow> dget (rp_buffers rp) key)"

lemma route_fetch_single:
  assumes "addresses body k" and "buffer_at k rp = Some b" and "fetch_args cfg body = Inr (lower, me, mb)"
  shows "\<exists>first. snd (route_fetch cfg now body rp) = snd (read_ring b lower (fetch_patterns body) me mb now first) \<and>
    buffer_at k (fst (route_fetch cfg now body rp)) = Some (ring_evict_aged now b)"
proof (cases k)
  case None
  then show ?thesis using assms
    by (intro exI [of _ 0]) (simp add: addresses_def buffer_at_def route_fetch_def read_ring_def Let_def)
next
  case (Some key)
  then show ?thesis using assms
    by (intro exI [of _ "first_seq key b rp"])
      (simp add: addresses_def buffer_at_def route_fetch_def session_buffers_of_def fetch_found_def read_stream_def
        read_ring_def Let_def)
qed

lemma route_fetch_absent:
  "addresses body k \<Longrightarrow> buffer_at k rp = None \<Longrightarrow> fetch_args cfg body = Inr (lower, me, mb) \<Longrightarrow>
    route_fetch cfg now body rp = (rp, Inr \<lparr>fr_events = [], fr_next = PInt lower, fr_gap = False\<rparr>)"
  by (cases k) (simp_all add: addresses_def buffer_at_def route_fetch_def session_buffers_of_def fetch_found_def)

lemma kept_at: "replay_ok psize ops rp \<Longrightarrow> buffer_at k rp = Some b \<Longrightarrow> holds_end (stream_history psize k ops) b"
proof (cases k)
  case (Some key)
  assume "replay_ok psize ops rp" and "buffer_at k rp = Some b"
  then show ?thesis using replay_inv_stream [of psize ops rp key] Some by (simp add: buffer_at_def stream_inv_def)
qed (simp add: buffer_at_def replay_ok_def)

lemma wanted_below: "seq_below D l \<Longrightarrow> (case l of None \<Rightarrow> True | Some m \<Rightarrow> m \<le> after) \<Longrightarrow> wanted after p D = []"
  by (fastforce simp: wanted_def seq_below_def filter_empty_conv split: option.splits)

lemma fetch_reads_history:
  assumes inv: "replay_ok psize ops rp" and at: "addresses body k" and b: "buffer_at k rp = Some b"
    and args: "fetch_args cfg body = Inr (lower, me, mb)"
    and res: "snd (route_fetch cfg now body rp) = Inr res" and gap: "\<not> fr_gap res"
  shows "\<exists>n. fr_events res = take n (wanted lower (fetch_patterns body) (stream_history psize k ops)) \<and>
      (wanted lower (fetch_patterns body) (stream_history psize k ops) \<noteq> [] \<longrightarrow> 0 < n)"
    and "fr_next res = (if fr_events res = [] then PInt lower else pget (last (fr_events res)) ''seq'')"
proof -
  let ?b = "ring_evict_aged now b" and ?p = "fetch_patterns body"
  obtain first where rd: "snd (read_ring b lower ?p me mb now first) = Inr res"
    using route_fetch_single [OF at b args, of now] res by auto
  then have sel: "select lower ?p me mb ?b = Inr (fr_events res)"
    and next_at: "fr_next res = (if fr_events res = [] then PInt lower else pget (last (fr_events res)) ''seq'')"
    and low: "case rb_last_dropped ?b of None \<Rightarrow> True | Some m \<Rightarrow> m \<le> lower"
    using gap by (auto simp: read_ring_def Let_def result_simps split: option.splits)
  from evict_history [OF kept_at [OF inv b]] obtain D
    where H: "stream_history psize k ops = D @ rb_events ?b" and D: "seq_below D (rb_last_dropped ?b)"
    unfolding holds_end_def by blast
  have "wanted lower ?p (stream_history psize k ops) = wanted lower ?p (rb_events ?b)"
    using H wanted_below [OF D low] by simp
  then show "\<exists>n. fr_events res = take n (wanted lower ?p (stream_history psize k ops)) \<and>
      (wanted lower ?p (stream_history psize k ops) \<noteq> [] \<longrightarrow> 0 < n)"
    using select_prefix [OF sel] by simp
  show "fr_next res = (if fr_events res = [] then PInt lower else pget (last (fr_events res)) ''seq'')" by (rule next_at)
qed

section \<open>Draining\<close>

lemma fetch_body_fields:
  "pget (fetch_body pos rq) ''after_seq'' = pos"
  "pget (fetch_body pos rq) ''session'' = rq_session rq" "pget (fetch_body pos rq) ''endpoint'' = rq_endpoint rq"
  "pget (fetch_body pos rq) ''plugin'' = rq_plugin rq" "pget (fetch_body pos rq) ''patterns'' = rq_patterns rq"
  "pget (fetch_body pos rq) ''max_events'' = rq_max_events rq" "pget (fetch_body pos rq) ''max_bytes'' = PNone"
  by (auto simp: fetch_body_def pget_def)

definition asks :: "request \<Rightarrow> rkey option \<Rightarrow> bool" where
  "asks rq k \<longleftrightarrow> addresses (fetch_body PNone rq) k"

definition rq_filter :: "request \<Rightarrow> pyval" where
  "rq_filter rq = fetch_patterns (fetch_body PNone rq)"

lemma asks_any: "asks rq k \<Longrightarrow> addresses (fetch_body pos rq) k"
  by (simp add: asks_def addresses_def fetch_body_fields cong: option.case_cong)

lemma rq_filter_any: "fetch_patterns (fetch_body pos rq) = rq_filter rq"
  by (simp add: rq_filter_def fetch_patterns_def fetch_body_fields)

lemma args_lower:
  "fetch_args cfg (fetch_body pos rq) = Inr (lower, me, mb) \<Longrightarrow> pos \<noteq> PNone \<Longrightarrow> py_int pos = Inr lower"
  by (auto simp: fetch_args_def fetch_body_fields result_simps)

lemma fetch_ok_args: "route_fetch cfg now body rp = (rp', Inr res) \<Longrightarrow> \<exists>lower me mb. fetch_args cfg body = Inr (lower, me, mb)"
  by (auto simp: route_fetch_def split: sum.splits)

lemma event_entry_number: "event_entry psize now ev = Inr en \<Longrightarrow> \<exists>seq ts n. en = (seq, ts, n, ev) \<and> py_int (pget ev ''seq'') = Inr seq"
  unfolding event_entry_def Let_def rbind_eq_Inr by auto

lemma entry_number:
  assumes "e \<in> set (stream_history psize k ops)"
  shows "case e of (seq, ts, n, ev) \<Rightarrow> py_int (pget ev ''seq'') = Inr seq"
proof -
  obtain op where op: "e \<in> set (stored psize k op)" using assms by (auto simp: stream_history_def)
  show ?thesis
  proof (cases op)
    case (Tapped now ev)
    then have "event_entry psize now ev = Inr e"
      using op by (cases "taps_as ev = Some k"; cases "event_entry psize now ev") simp_all
    then obtain seq ts n where "e = (seq, ts, n, ev)" "py_int (pget ev ''seq'') = Inr seq" using event_entry_number by blast
    then show ?thesis by simp
  qed (use op in simp_all)
qed

definition rising :: "entry list \<Rightarrow> bool" where
  "rising H \<longleftrightarrow> sorted_wrt (\<lambda>a b. fst a < fst b) H"

lemma rising_prefix: "rising (xs @ ys) \<Longrightarrow> rising xs"
  by (simp add: rising_def sorted_wrt_append)

text \<open>Where a batch ends, the next one starts.\<close>

lemma wanted_continues:
  assumes up: "rising H" and num: "\<forall>e \<in> set H. case e of (seq, ts, n, ev) \<Rightarrow> py_int (pget ev ''seq'') = Inr seq"
    and pre: "H = H0 @ X" and batch: "batch = take n (wanted a p H0)" "batch \<noteq> []"
    and m: "py_int (pget (last batch) ''seq'') = Inr m"
  shows "wanted a p H = batch @ wanted m p H \<and> a < m"
proof -
  let ?want = "\<lambda>(seq, ts, n, ev). a < seq \<and> event_matches p ev = Inr True"
  let ?F = "filter ?want H"
  define A where "A = take n (filter ?want H0)"
  define B where "B = drop n (filter ?want H0) @ filter ?want X"
  have F: "?F = A @ B" by (simp add: A_def B_def pre)
  have bA: "batch = map (\<lambda>(seq, ts, n, ev). ev) A" by (simp add: batch(1) wanted_def A_def take_map)
  then have ne: "A \<noteq> []" using batch(2) by auto
  obtain seq ts sz ev where l: "last A = (seq, ts, sz, ev)" by (cases "last A")
  have inA: "set A \<subseteq> set ?F" unfolding F by simp
  then have lH: "last A \<in> set H" "?want (last A)" using ne last_in_set by fastforce+
  have "last batch = ev" using bA ne l by (simp add: last_map)
  moreover have "py_int (pget ev ''seq'') = Inr seq" using num lH(1) l by auto
  ultimately have seq: "seq = m" using m by simp
  have am: "a < m" using lH(2) l seq by simp
  have srt: "sorted_wrt (\<lambda>x y. fst x < fst y) (A @ B)" unfolding F [symmetric] using up by (simp add: rising_def sorted_wrt_filter)
  have hi: "m < fst y" if "y \<in> set B" for y
    using srt ne l seq that last_in_set [of A] by (fastforce simp: sorted_wrt_append)
  have lo: "\<not> m < fst x" if "x \<in> set A" for x
  proof -
    have "sorted_wrt (\<lambda>x y. fst x < fst y) (butlast A @ [last A])" using srt ne by (simp add: sorted_wrt_append)
    moreover have "x \<in> set (butlast A) \<or> x = last A" using that ne by (metis append_butlast_last_id in_set_conv_decomp_first UnE set_append singletonD set_simps)
    ultimately show ?thesis using l seq by (fastforce simp: sorted_wrt_append)
  qed
  have "filter (\<lambda>(seq, ts, n, ev). m < seq \<and> event_matches p ev = Inr True) H = filter (\<lambda>e. m < fst e) ?F"
    using am by (auto simp: filter_filter intro!: filter_cong)
  also have "\<dots> = filter (\<lambda>e. m < fst e) A @ filter (\<lambda>e. m < fst e) B" by (simp only: F filter_append)
  also have "\<dots> = B" using hi lo by (auto simp: filter_empty_conv filter_id_conv)
  finally have "wanted m p H = map (\<lambda>(seq, ts, n, ev). ev) B" by (simp add: wanted_def)
  then show ?thesis using F bA am by (simp add: wanted_def)
qed

text \<open>A stream stays readable while its buffer is not swept away; the session-less one always is.\<close>

fun sweeps :: "replay_op \<Rightarrow> bool" where
  "sweeps (Sweep now) = True" | "sweeps (Stats now) = True" | "sweeps op = False"

definition live :: "rkey option \<Rightarrow> replay \<Rightarrow> bool" where
  "live k rp \<longleftrightarrow> buffer_at k rp \<noteq> None"

lemma stream_record_buffers: "stream_record key seq rp = Inr (rp1, rec) \<Longrightarrow> rp_buffers rp1 = rp_buffers rp"
  by (auto simp: stream_record_def Let_def rbind_eq_Inr split: option.splits)

lemma stream_buffer_grows: "dget (rp_buffers rp) key \<noteq> None \<Longrightarrow> dget (rp_buffers (stream_buffer cfg key' rec rp)) key \<noteq> None"
  by (auto simp: stream_buffer_def split: option.splits)

lemma retain_event_grows: "dget (rp_buffers rp) key \<noteq> None \<Longrightarrow> dget (rp_buffers (fst (retain_event psize cfg now ev rp))) key \<noteq> None"
proof (cases "taps_as ev")
  case None
  assume "dget (rp_buffers rp) key \<noteq> None"
  then show ?thesis using None by (auto simp: retain_event_def taps_as_def split: if_splits option.splits)
next
  case (Some k)
  assume d: "dget (rp_buffers rp) key \<noteq> None"
  show ?thesis
  proof (cases k)
    case None
    then show ?thesis using d Some by (auto simp: retain_event_def taps_as_def split: if_splits sum.splits)
  next
    case (Some key')
    then have g: "py_eq (pget ev ''kind'') (PStr ''event'')" "pget ev ''seq'' \<noteq> PNone" "truthy (pget ev ''session'')"
        "hash_key3 (pget ev ''src'') (pget ev ''plugin'') (pget ev ''session'') = Some key'"
      using \<open>taps_as ev = Some k\<close> by (auto simp: taps_as_def split: if_splits)
    show ?thesis
    proof (cases "stream_record key' (pget ev ''seq'') rp")
      case (Inr p)
      obtain rp1 rec where p: "p = (rp1, rec)" by (cases p)
      have "dget (rp_buffers (stream_buffer cfg key' rec rp1)) key \<noteq> None"
        using d stream_record_buffers Inr p by (intro stream_buffer_grows) simp
      then show ?thesis using g Inr p by (auto simp: retain_event_def Let_def split: sum.splits option.splits)
    qed (use d g in \<open>simp add: retain_event_def\<close>)
  qed
qed

lemma retain_event_live: "live k rp \<Longrightarrow> live k (fst (retain_event psize cfg now ev rp))"
  using retain_event_grows by (cases k) (auto simp: live_def buffer_at_def)

lemma read_streams_live:
  "live k rp \<Longrightarrow> live k (fst (read_streams lower p me mb now kbs evs gap rp))"
proof (induction kbs arbitrary: rp evs gap)
  case (Cons kb kbs)
  obtain key b where kb: "kb = (key, b)" by (cases kb)
  obtain rp1 r where eq: "read_stream lower p me mb now (key, b) rp = (rp1, r)" by (metis prod.exhaust)
  have "live k rp1" using Cons.prems read_stream_rp [of lower p me mb now key b rp] eq
    by (cases k) (auto simp: live_def buffer_at_def)
  then show ?case using Cons.IH kb eq by (cases r) auto
qed simp

lemma fetch_found_live: "live k rp \<Longrightarrow> live k (fst (fetch_found lower p me mb now found rp))"
proof -
  assume l: "live k rp"
  consider "found = []" | key b where "found = [(key, b)]" | kb kb' kbs where "found = kb # kb' # kbs"
    by (metis list.exhaust prod.exhaust)
  then show ?thesis
  proof cases
    case 2
    then show ?thesis using l by (cases k) (auto simp: fetch_found_def read_stream_rp live_def buffer_at_def)
  next
    case 3
    then show ?thesis using read_streams_live [OF l, of lower p me mb now found "[]" False]
      by (auto simp: fetch_found_def simp del: read_streams.simps split: prod.splits sum.splits)
  qed (simp add: fetch_found_def l)
qed

lemma route_fetch_live: "live k rp \<Longrightarrow> live k (fst (route_fetch cfg now body rp))"
  by (cases k) (auto simp: route_fetch_def read_ring_def Let_def fetch_found_live split: sum.splits,
      auto simp: live_def buffer_at_def)

lemma replay_do_live: "live k rp \<Longrightarrow> k = None \<or> \<not> sweeps op \<Longrightarrow> live k (replay_do psize cfg op rp)"
  by (cases op) (auto simp: replay_do_def retain_event_live route_fetch_live, auto simp: live_def buffer_at_def)

lemma replay_run_live: "live k rp \<Longrightarrow> k = None \<or> list_all (\<lambda>op. \<not> sweeps op) ops \<Longrightarrow> live k (replay_run psize cfg ops rp)"
  by (induction ops arbitrary: rp) (auto simp: replay_run_def replay_do_live)

lemma replay_run_extends:
  "replay_ok psize ops rp \<Longrightarrow> length (stream_keys (ops @ new)) \<le> STREAMS_MAX \<Longrightarrow>
    replay_ok psize (ops @ new) (replay_run psize cfg new rp)"
proof (induction new rule: rev_induct)
  case (snoc op new)
  then show ?case using replay_do_inv [of psize "ops @ new" _ op cfg] stream_keys_le [of "ops @ new" "[op]"]
    by (auto simp: replay_run_snoc)
qed (simp add: replay_run_def)

definition round_ops :: "(replay_op list \<times> rat) list \<Rightarrow> replay_op list" where
  "round_ops rounds = concat (map fst rounds)"

lemma round_ops_simps [simp]: "round_ops [] = []" "round_ops ((new, now) # rounds) = new @ round_ops rounds"
  by (simp_all add: round_ops_def)

lemma drain_reads_history:
  assumes "replay_iter psize cfg rounds pos rq rp = (rp', rs, e)"
    and "replay_ok psize ops rp" and "length (stream_keys (ops @ round_ops rounds)) \<le> STREAMS_MAX"
    and "asks rq k" and "live k rp" and "k = None \<or> list_all (\<lambda>op. \<not> sweeps op) (round_ops rounds)"
    and "rising (stream_history psize k (ops @ round_ops rounds))"
    and "pos \<noteq> PNone" and "py_int pos = Inr lower" and "\<forall>r \<in> set rs. \<not> fr_gap r"
  shows "\<exists>rest. wanted lower (rq_filter rq) (stream_history psize k (ops @ round_ops (take (length rs) rounds))) = yielded rs @ rest \<and>
      ((\<exists>p. e = Drained p) \<longrightarrow> rest = [])"
  using assms
proof (induction psize cfg rounds pos rq rp arbitrary: ops lower rp' rs e rule: replay_iter.induct)
  case (1 psize cfg pos rq rp)
  then show ?case by (auto simp: yielded_def)
next
  case (2 psize cfg new now rounds pos rq rp)
  note prems = 2(2-)
  let ?rp1 = "replay_run psize cfg new rp" and ?p = "rq_filter rq"
  obtain rp2 res where fetch: "route_fetch cfg now (fetch_body pos rq) ?rp1 = (rp2, res)" by (metis prod.exhaust)
  have inv1: "replay_ok psize (ops @ new) ?rp1"
    using replay_run_extends [OF prems(2)] prems(3) stream_keys_le [of "ops @ new" "round_ops rounds"] by simp
  have live1: "live k ?rp1" using replay_run_live [OF prems(5)] prems(6) by auto
  show ?case
  proof (cases res)
    case (Inl err)
    then show ?thesis using prems(1) fetch by (auto simp: yielded_def)
  next
    case (Inr r)
    obtain l0 me mb where args: "fetch_args cfg (fetch_body pos rq) = Inr (l0, me, mb)"
      using fetch_ok_args fetch Inr by blast
    then have args: "fetch_args cfg (fetch_body pos rq) = Inr (lower, me, mb)"
      using args_lower prems(8,9) by fastforce
    obtain b where b: "buffer_at k ?rp1 = Some b" using live1 by (auto simp: live_def)
    have r_in: "r \<in> set rs" using prems(1) fetch Inr by (auto split: if_splits prod.splits)
    note read = fetch_reads_history [OF inv1 asks_any [OF prems(4)] b args, of now r, unfolded rq_filter_any]
    obtain n where n: "fr_events r = take n (wanted lower ?p (stream_history psize k (ops @ new)))"
        "wanted lower ?p (stream_history psize k (ops @ new)) \<noteq> [] \<longrightarrow> 0 < n"
      using read(1) fetch Inr prems(10) r_in by auto
    show ?thesis
    proof (cases "fr_events r = []")
      case True
      then have "rs = [r]" "wanted lower ?p (stream_history psize k (ops @ new)) = []"
        using prems(1) fetch Inr n by (auto split: if_splits)
      then show ?thesis using True by (simp add: yielded_def)
    next
      case False
      obtain rp3 rs' e' where it: "replay_iter psize cfg rounds (fr_next r) rq rp2 = (rp3, rs', e')" by (metis prod.exhaust)
      then have eqs: "rs = r # rs'" "e = e'" using prems(1) fetch Inr False by auto
      have nx: "fr_next r = pget (last (fr_events r)) ''seq''" using read(2) fetch Inr prems(10) r_in False by auto
      obtain ent where ent: "ent \<in> set (stream_history psize k (ops @ new))" "last (fr_events r) = (case ent of (s, t, n, ev) \<Rightarrow> ev)"
      proof -
        have "last (fr_events r) \<in> set (wanted lower ?p (stream_history psize k (ops @ new)))"
          using last_in_set [OF False] n(1) in_set_takeD by metis
        then show ?thesis using that by (auto simp: wanted_def)
      qed
      obtain m where m: "py_int (fr_next r) = Inr m"
        using entry_number [OF ent(1)] ent(2) nx by (cases ent) auto
      have nn: "fr_next r \<noteq> PNone" using m by auto
      have up: "rising (stream_history psize k ((ops @ new) @ round_ops rounds))" using prems(7) by simp
      have inv2: "replay_ok psize (ops @ new) rp2"
        using same_streams_inv [OF route_fetch_same inv1] inv1 fetch by (metis fst_conv replay_ok_def)
      have live2: "live k rp2" using route_fetch_live [OF live1] fetch by (metis fst_conv)
      let ?used = "round_ops (take (length rs') rounds)"
      obtain rest where rest: "wanted m ?p (stream_history psize k ((ops @ new) @ ?used)) = yielded rs' @ rest"
          "(\<exists>p. e' = Drained p) \<longrightarrow> rest = []"
        using 2(1) [OF fetch [symmetric] Inr False it inv2 _ prems(4) live2 _ up nn m] prems(3,6,10) eqs by auto
      have risen: "rising (stream_history psize k ((ops @ new) @ ?used))"
      proof -
        have "round_ops rounds = ?used @ round_ops (drop (length rs') rounds)"
          unfolding round_ops_def by (metis append_take_drop_id concat_append map_append)
        then have "rising (stream_history psize k ((ops @ new) @ ?used) @ stream_history psize k (round_ops (drop (length rs') rounds)))"
          using up by simp
        then show ?thesis by (rule rising_prefix)
      qed
      have num: "\<forall>e \<in> set (stream_history psize k ((ops @ new) @ ?used)). case e of (seq, ts, n, ev) \<Rightarrow> py_int (pget ev ''seq'') = Inr seq"
        using entry_number by blast
      have "wanted lower ?p (stream_history psize k ((ops @ new) @ ?used)) =
          fr_events r @ wanted m ?p (stream_history psize k ((ops @ new) @ ?used))"
        by (rule wanted_continues [THEN conjunct1, OF risen num stream_history_simps(2) n(1) False m [unfolded nx]])
      then show ?thesis using rest eqs by (auto simp: yielded_def)
    qed
  qed
qed

section \<open>A drain ends\<close>

definition entries_at :: "rkey option \<Rightarrow> replay \<Rightarrow> entry list" where
  "entries_at k rp = (case buffer_at k rp of None \<Rightarrow> [] | Some b \<Rightarrow> rb_events b)"

definition left_after :: "int \<Rightarrow> entry list \<Rightarrow> nat" where
  "left_after lower es = length (filter (\<lambda>e. lower < fst e) es)"

fun is_tap :: "replay_op \<Rightarrow> bool" where
  "is_tap (Tapped now ev) = True" | "is_tap op = False"

lemma holds_end_own: "holds_end (rb_events b) b"
  by (simp add: holds_end_def)

lemma entries_shrink:
  assumes "replay_ok psize ops rp" and "same_streams rp rp'"
  shows "\<exists>D. entries_at k rp = D @ entries_at k rp'"
proof (cases k)
  case None
  have "holds_end (rb_events (rp_global rp)) (rp_global rp')"
    using assms(2) holds_end_own [of "rp_global rp"] unfolding same_streams_def by blast
  then show ?thesis using None by (auto simp: entries_at_def buffer_at_def holds_end_def)
next
  case (Some key)
  have "stream_inv (entries_at k rp) key rp"
    using replay_inv_stream [OF assms(1), of key] Some holds_end_own
    by (auto simp: entries_at_def buffer_at_def stream_inv_def split: option.splits)
  then have "stream_inv (entries_at k rp) key rp'" using assms(2) unfolding same_streams_def by blast
  then show ?thesis using Some
    by (cases "dget (rp_buffers rp') key") (auto simp: stream_inv_def holds_end_def entries_at_def buffer_at_def)
qed

lemma entries_history: "replay_ok psize ops rp \<Longrightarrow> set (entries_at k rp) \<subseteq> set (stream_history psize k ops)"
  by (cases "buffer_at k rp") (auto simp: entries_at_def holds_end_def dest!: kept_at)

lemma left_after_suffix: "left_after lower es \<le> left_after lower (ds @ es)"
  by (simp add: left_after_def)

lemma left_after_less: "lower < m \<Longrightarrow> e \<in> set es \<Longrightarrow> fst e = m \<Longrightarrow> left_after m es < left_after lower es"
proof -
  assume a: "lower < m" "e \<in> set es" "fst e = m"
  have "filter (\<lambda>e. m < fst e) es = filter (\<lambda>e. m < fst e) (filter (\<lambda>e. lower < fst e) es)"
    using a(1) by (auto simp: filter_filter intro: filter_cong)
  moreover have "e \<in> set (filter (\<lambda>e. lower < fst e) es)" "\<not> m < fst e" using a by auto
  ultimately show ?thesis unfolding left_after_def by (metis length_filter_less)
qed

lemma run_quiet_same:
  "replay_tables_ok rp \<Longrightarrow> list_all (\<lambda>op. \<not> is_tap op) new \<Longrightarrow> same_streams rp (replay_run psize cfg new rp) \<and> replay_tables_ok (replay_run psize cfg new rp)"
proof (induction new rule: rev_induct)
  case (snoc op new)
  let ?rp = "replay_run psize cfg new rp"
  have "same_streams ?rp (replay_do psize cfg op ?rp)" using snoc replay_do_same [of op ?rp] by (cases op) auto
  then show ?case using snoc by (auto simp: replay_run_snoc same_streams_def)
qed (simp add: replay_run_def)

lemma fetch_progress:
  assumes inv: "replay_ok psize ops rp" and at: "addresses body k" and args: "fetch_args cfg body = Inr (lower, me, mb)"
    and res: "route_fetch cfg now body rp = (rp', Inr r)" and ne: "fr_events r \<noteq> []"
  shows "\<exists>m. py_int (fr_next r) = Inr m \<and> left_after m (entries_at k rp') < left_after lower (entries_at k rp)"
proof -
  obtain b where b: "buffer_at k rp = Some b"
    using route_fetch_absent [OF at _ args] res ne by (cases "buffer_at k rp") auto
  let ?b = "ring_evict_aged now b" and ?p = "fetch_patterns body"
  obtain first where rd: "Inr r = snd (read_ring b lower ?p me mb now first)" and at': "entries_at k rp' = rb_events ?b"
    using route_fetch_single [OF at b args, of now] res by (auto simp: entries_at_def)
  then have sel: "select lower ?p me mb ?b = Inr (fr_events r)" and nx: "fr_next r = pget (last (fr_events r)) ''seq''"
    using ne by (auto simp: read_ring_def Let_def rbind_eq_Inr dest!: sym [of "Inr r"])
  have "last (fr_events r) \<in> set (wanted lower ?p (rb_events ?b))"
    using select_prefix [OF sel] ne last_in_set in_set_takeD by metis
  then obtain seq ts n where ent: "(seq, ts, n, last (fr_events r)) \<in> set (rb_events ?b)" "lower < seq"
    by (auto simp: wanted_def)
  have same: "same_streams rp rp'" using route_fetch_same [of rp cfg now body] inv res by (simp add: replay_ok_def)
  then have "replay_ok psize ops rp'" using same_streams_inv inv by blast
  then have "py_int (fr_next r) = Inr seq"
    using entries_history [of psize ops rp' k] ent(1) at' entry_number nx by fastforce
  moreover have "left_after seq (rb_events ?b) < left_after lower (rb_events ?b)"
    by (rule left_after_less [OF ent(2,1)]) simp
  moreover have "left_after lower (rb_events ?b) \<le> left_after lower (entries_at k rp)"
    using entries_shrink [OF inv same, of k] at' left_after_suffix by metis
  ultimately show ?thesis using at' by auto
qed

lemma drain_ends_from:
  assumes "replay_iter psize cfg rounds pos rq rp = (rp', rs, e)" and "replay_ok psize ops rp" and "asks rq k"
    and "pos \<noteq> PNone" and "py_int pos = Inr lower" and "list_all (\<lambda>op. \<not> is_tap op) (round_ops rounds)"
    and "left_after lower (entries_at k rp) < length rounds"
  shows "e \<noteq> Fetching p"
  using assms
proof (induction psize cfg rounds pos rq rp arbitrary: lower rp' rs e rule: replay_iter.induct)
  case (2 psize cfg new now rounds pos rq rp)
  note prems = 2(2-)
  let ?rp1 = "replay_run psize cfg new rp"
  obtain rp2 res where fetch: "route_fetch cfg now (fetch_body pos rq) ?rp1 = (rp2, res)" by (metis prod.exhaust)
  have same1: "same_streams rp ?rp1" using run_quiet_same prems(2,6) by (simp add: replay_ok_def)
  have inv1: "replay_ok psize ops ?rp1" by (rule same_streams_inv [OF same1 prems(2)])
  have inv2: "replay_ok psize ops rp2"
    using same_streams_inv [OF route_fetch_same inv1] inv1 fetch by (metis fst_conv replay_ok_def)
  show ?case
  proof (cases res)
    case (Inl err)
    then show ?thesis using prems(1) fetch by auto
  next
    case (Inr r)
    obtain l0 me mb where "fetch_args cfg (fetch_body pos rq) = Inr (l0, me, mb)"
      using fetch_ok_args fetch Inr by blast
    then have args: "fetch_args cfg (fetch_body pos rq) = Inr (lower, me, mb)"
      using args_lower prems(4,5) by fastforce
    show ?thesis
    proof (cases "fr_events r = []")
      case True
      then show ?thesis using prems(1) fetch Inr by auto
    next
      case False
      obtain rp3 rs' e' where it: "replay_iter psize cfg rounds (fr_next r) rq rp2 = (rp3, rs', e')" by (metis prod.exhaust)
      then have e: "e = e'" using prems(1) fetch Inr False by auto
      obtain m where m: "py_int (fr_next r) = Inr m"
          "left_after m (entries_at k rp2) < left_after lower (entries_at k ?rp1)"
        using fetch_progress [OF inv1 asks_any [OF prems(3)] args fetch [unfolded Inr] False] by auto
      have "left_after lower (entries_at k ?rp1) \<le> left_after lower (entries_at k rp)"
        using entries_shrink [OF prems(2) same1, of k] left_after_suffix by metis
      then have "left_after m (entries_at k rp2) < length rounds" using m(2) prems(7) by simp
      moreover have "fr_next r \<noteq> PNone" using m(1) by auto
      ultimately show ?thesis
        using 2(1) [OF fetch [symmetric] Inr False it inv2 prems(3) _ m(1)] prems(6) e by auto
    qed
  qed
qed simp

section \<open>Size and accounting\<close>

definition session_ring :: "replay_limits \<Rightarrow> ring \<Rightarrow> bool" where
  "session_ring cfg b \<longleftrightarrow> ring_ok b \<and> rb_max_bytes b = rc_session_bytes cfg \<and> rb_max_age b = Some (rc_session_age cfg)"

definition global_ring :: "replay_limits \<Rightarrow> ring \<Rightarrow> bool" where
  "global_ring cfg b \<longleftrightarrow> ring_ok b \<and> rb_max_bytes b = rc_global_bytes cfg \<and> rb_max_age b = None"

definition rings_ok :: "replay_limits \<Rightarrow> replay \<Rightarrow> bool" where
  "rings_ok cfg rp \<longleftrightarrow> global_ring cfg (rp_global rp) \<and> (\<forall>b \<in> snd ` set (rp_buffers rp). session_ring cfg b)"

lemma limits_kept [simp]:
  "rb_max_bytes (ring_evict_aged now b) = rb_max_bytes b" "rb_max_age (ring_evict_aged now b) = rb_max_age b"
  "rb_max_bytes (ring_append e now b) = rb_max_bytes b" "rb_max_age (ring_append e now b) = rb_max_age b"
  by (rule ring_evict_keeps [where P = "\<lambda>b'. rb_max_bytes b' = rb_max_bytes b"]; simp)
    (rule ring_evict_keeps [where P = "\<lambda>b'. rb_max_age b' = rb_max_age b"]
          ring_append_keeps [where P = "\<lambda>b'. rb_max_bytes b' = rb_max_bytes b"]
          ring_append_keeps [where P = "\<lambda>b'. rb_max_age b' = rb_max_age b"]; simp)+

lemma ring_ok_bytes: "ring_ok b \<Longrightarrow> bytes_ok b"
  by (simp add: ring_ok_def)

lemma ring_evolves:
  "session_ring cfg b \<Longrightarrow> session_ring cfg (ring_evict_aged now b)" "global_ring cfg b \<Longrightarrow> global_ring cfg (ring_evict_aged now b)"
  "session_ring cfg b \<Longrightarrow> session_ring cfg (ring_append e now b)" "global_ring cfg b \<Longrightarrow> global_ring cfg (ring_append e now b)"
  by (simp_all add: session_ring_def global_ring_def evict_ok append_ok ring_ok_bytes)

lemma rings_dset: "rings_ok cfg rp \<Longrightarrow> session_ring cfg b \<Longrightarrow> rings_ok cfg (rp\<lparr>rp_buffers := dset key b (rp_buffers rp)\<rparr>)"
  using dvalues_dset_subset [of key b "rp_buffers rp"] by (force simp: rings_ok_def)

lemma rings_dget: "rings_ok cfg rp \<Longrightarrow> dget (rp_buffers rp) key = Some b \<Longrightarrow> session_ring cfg b"
  by (force simp: rings_ok_def dest: map_of_SomeD)

lemma rings_same: "rp_buffers rp' = rp_buffers rp \<Longrightarrow> rp_global rp' = rp_global rp \<Longrightarrow> rings_ok cfg rp' = rings_ok cfg rp"
  by (simp add: rings_ok_def)

lemma evict_stream_rings: "rings_ok cfg rp \<Longrightarrow> session_ring cfg (snd kb) \<Longrightarrow> rings_ok cfg (evict_stream now kb rp)"
proof -
  assume ok: "rings_ok cfg rp" and b: "session_ring cfg (snd kb)"
  have "rings_ok cfg (rp\<lparr>rp_buffers := dpop k (rp_buffers rp), rp_streams := st\<rparr>)" for k st
    using ok by (fastforce simp: rings_ok_def AList.delete_eq)
  then show ?thesis using rings_dset [OF ok ring_evolves(1) [OF b]] by (cases kb) (simp add: evict_stream_def Let_def)
qed

lemma fold_evict_rings:
  "\<forall>kb \<in> set kbs. session_ring cfg (snd kb) \<Longrightarrow> rings_ok cfg rp \<Longrightarrow> rings_ok cfg (fold (evict_stream now) kbs rp)"
  by (induction kbs arbitrary: rp) (simp_all add: evict_stream_rings)

lemma evict_aged_rings: "rings_ok cfg rp \<Longrightarrow> rings_ok cfg (evict_aged now rp)"
  unfolding evict_aged_def by (rule fold_evict_rings) (auto simp: rings_ok_def ring_evolves)

lemma read_streams_rings:
  "\<forall>kb \<in> set kbs. session_ring cfg (snd kb) \<Longrightarrow> rings_ok cfg rp \<Longrightarrow>
    rings_ok cfg (fst (read_streams lower p me mb now kbs evs gap rp))"
proof (induction kbs arbitrary: rp evs gap)
  case (Cons kb kbs)
  obtain k b where kb: "kb = (k, b)" by (cases kb)
  obtain rp1 r where eq: "read_stream lower p me mb now (k, b) rp = (rp1, r)" by (metis prod.exhaust)
  have "rings_ok cfg rp1"
    using rings_dset [OF Cons.prems(2), of "ring_evict_aged now b" k] Cons.prems(1) kb eq ring_evolves(1)
      read_stream_rp [of lower p me mb now k b rp] by simp
  then show ?case using Cons kb eq by (cases r) auto
qed simp

lemma fetch_found_rings:
  assumes "\<forall>kb \<in> set found. session_ring cfg (snd kb)" and "rings_ok cfg rp"
  shows "rings_ok cfg (fst (fetch_found lower p me mb now found rp))"
proof -
  consider "found = []" | key b where "found = [(key, b)]" | kb kb' kbs where "found = kb # kb' # kbs"
    by (metis list.exhaust prod.exhaust)
  then show ?thesis
  proof cases
    case 2
    then show ?thesis using assms rings_dset ring_evolves(1) by (simp add: fetch_found_def read_stream_rp)
  next
    case 3
    then show ?thesis using read_streams_rings [OF assms, of lower p me mb now "[]" False]
      by (auto simp: fetch_found_def simp del: read_streams.simps split: prod.splits sum.splits)
  qed (simp add: fetch_found_def assms)
qed

lemma found_rings: "session_buffers_of s e pl rp = Inr found \<Longrightarrow> rings_ok cfg rp \<Longrightarrow> \<forall>kb \<in> set found. session_ring cfg (snd kb)"
  by (auto simp: session_buffers_of_def rings_ok_def split: if_splits option.splits dest!: map_of_SomeD)

lemma route_fetch_rings: "rings_ok cfg rp \<Longrightarrow> rings_ok cfg (fst (route_fetch cfg now body rp))"
  unfolding route_fetch_def
  by (auto simp: read_ring_def Let_def split: sum.splits intro!: fetch_found_rings dest: found_rings)
    (auto simp: rings_ok_def ring_evolves)

lemma stream_record_fields:
  "stream_record key seq rp = Inr (rp1, rec) \<Longrightarrow> rp_buffers rp1 = rp_buffers rp \<and> rp_global rp1 = rp_global rp"
  by (auto simp: stream_record_def Let_def rbind_eq_Inr split: option.splits)

lemma stream_buffer_rings: "rings_ok cfg rp \<Longrightarrow> rings_ok cfg (stream_buffer cfg key rec rp)"
  by (auto simp: stream_buffer_def session_ring_def ring_ok_def bytes_ok_def new_ring_def split: option.splits intro!: rings_dset)

lemma retain_event_rings: "rings_ok cfg rp \<Longrightarrow> rings_ok cfg (fst (retain_event psize cfg now ev rp))"
proof -
  assume ok: "rings_ok cfg rp"
  have step: "rings_ok cfg rp2 \<Longrightarrow> dget (rp_buffers rp2) key = Some b \<Longrightarrow>
      rings_ok cfg (rp2\<lparr>rp_buffers := dset key (ring_append en now b) (rp_buffers rp2)\<rparr>)" for rp2 key b en
    using rings_dset rings_dget ring_evolves(3) by blast
  have rec: "rings_ok cfg (stream_buffer cfg key r rp1)" if "stream_record key seq rp = Inr (rp1, r)" for key seq rp1 r
    using stream_record_fields [OF that] rings_same ok stream_buffer_rings by blast
  have glob: "rings_ok cfg (rp\<lparr>rp_global := ring_append en now (rp_global rp)\<rparr>)" for en
    using ok ring_evolves(4) by (simp add: rings_ok_def)
  show ?thesis unfolding retain_event_def Let_def
    by (auto simp: ok glob rec step split: option.splits sum.splits)
qed

lemma replay_do_rings: "rings_ok cfg rp \<Longrightarrow> rings_ok cfg (replay_do psize cfg op rp)"
  by (cases op) (simp_all add: replay_do_def retain_event_rings evict_aged_rings route_fetch_rings route_stats_def Let_def)

lemma replay_run_rings: "rings_ok cfg (replay_run psize cfg ops (new_replay cfg))"
proof (induction ops rule: rev_induct)
  case Nil
  then show ?case
    by (simp add: replay_run_def new_replay_def rings_ok_def global_ring_def new_ring_def ring_ok_def bytes_ok_def)
qed (simp add: replay_run_snoc replay_do_rings)

text \<open>The session-less ring counts what it was given.\<close>

definition ring_count :: "ring \<Rightarrow> nat" where
  "ring_count b = rb_dropped b + length (rb_events b)"

lemma ring_count_simps [simp]:
  "ring_count (ring_append e now b) = Suc (ring_count b)" "ring_count (ring_evict_aged now b) = ring_count b"
  unfolding ring_count_def by (rule append_count evict_count)+

lemma evict_stream_global [simp]: "rp_global (evict_stream now kb rp) = rp_global rp"
  by (cases kb) (simp add: evict_stream_def Let_def)

lemma fold_evict_global [simp]: "rp_global (fold (evict_stream now) kbs rp) = rp_global rp"
  by (induction kbs arbitrary: rp) simp_all

lemma read_streams_global [simp]: "rp_global (fst (read_streams lower p me mb now kbs evs gap rp)) = rp_global rp"
proof (induction kbs arbitrary: rp evs gap)
  case (Cons kb kbs)
  obtain k b where kb: "kb = (k, b)" by (cases kb)
  obtain rp1 r where eq: "read_stream lower p me mb now (k, b) rp = (rp1, r)" by (metis prod.exhaust)
  then have "rp_global rp1 = rp_global rp" using read_stream_rp [of lower p me mb now k b rp] by simp
  then show ?case using Cons.IH kb eq by (cases r) auto
qed simp

lemma fetch_found_global [simp]: "rp_global (fst (fetch_found lower p me mb now found rp)) = rp_global rp"
proof -
  consider "found = []" | key b where "found = [(key, b)]" | kb kb' kbs where "found = kb # kb' # kbs"
    by (metis list.exhaust prod.exhaust)
  then show ?thesis
  proof cases
    case 2
    then show ?thesis by (simp add: fetch_found_def read_stream_rp)
  next
    case 3
    then show ?thesis using read_streams_global [of lower p me mb now found "[]" False rp]
      by (auto simp: fetch_found_def simp del: read_streams.simps read_streams_global split: prod.splits sum.splits)
  qed (simp add: fetch_found_def)
qed

lemma route_fetch_count: "ring_count (rp_global (fst (route_fetch cfg now body rp))) = ring_count (rp_global rp)"
  by (auto simp: route_fetch_def read_ring_def Let_def split: sum.splits)

lemma retain_event_count:
  "ring_count (rp_global (fst (retain_event psize cfg now ev rp))) = ring_count (rp_global rp) + length (stored psize None (Tapped now ev))"
proof (cases "taps_as ev = Some None")
  case True
  then have "py_eq (pget ev ''kind'') (PStr ''event'')" "pget ev ''seq'' \<noteq> PNone" "\<not> truthy (pget ev ''session'')"
    by (auto simp: taps_as_def split: if_splits)
  then show ?thesis using True by (auto simp: retain_event_def split: sum.splits)
next
  case False
  then have "rp_global (fst (retain_event psize cfg now ev rp)) = rp_global rp"
    by (auto simp: retain_event_def taps_as_def Let_def dest: stream_record_fields split: if_splits option.splits sum.splits)
  then show ?thesis using False by simp
qed

lemma global_counts:
  "ring_count (rp_global (replay_run psize cfg ops (new_replay cfg))) = length (stream_history psize None ops)"
proof (induction ops rule: rev_induct)
  case Nil
  then show ?case by (simp add: replay_run_def new_replay_def new_ring_def ring_count_def)
next
  case (snoc op ops)
  then show ?case
    by (cases op) (simp_all add: replay_run_snoc replay_do_def retain_event_count route_fetch_count route_stats_def Let_def
        evict_aged_def del: stored.simps(1))
qed

section \<open>A stream that was swept away\<close>

lemma evict_stream_other: "key \<noteq> fst kb \<Longrightarrow> dget (rp_buffers (evict_stream now kb rp)) key = dget (rp_buffers rp) key"
  by (cases kb) (simp add: evict_stream_def Let_def)

lemma fold_evict_other:
  "key \<notin> fst ` set kbs \<Longrightarrow> dget (rp_buffers (fold (evict_stream now) kbs rp)) key = dget (rp_buffers rp) key"
  by (induction kbs arbitrary: rp) (auto simp: evict_stream_other)

lemma fold_evict_removes:
  "dict_ok kbs \<Longrightarrow> (key, b) \<in> set kbs \<Longrightarrow> rb_events (ring_evict_aged now b) = [] \<Longrightarrow>
    dget (rp_buffers (fold (evict_stream now) kbs rp)) key = None"
proof (induction kbs arbitrary: rp)
  case (Cons kb kbs)
  show ?case
  proof (cases "kb = (key, b)")
    case True
    then have "key \<notin> fst ` set kbs" using Cons.prems(1) by (auto simp: dict_ok_def)
    moreover have "dget (rp_buffers (evict_stream now (key, b) rp)) key = None"
      using Cons.prems(3) by (simp add: evict_stream_def Let_def)
    ultimately show ?thesis using True by (simp add: fold_evict_other)
  next
    case False
    then show ?thesis using Cons by (auto simp: dict_ok_def)
  qed
qed simp

lemma sweep_removes:
  "replay_tables_ok rp \<Longrightarrow> buffer_at (Some key) rp = Some b \<Longrightarrow> rb_events (ring_evict_aged now b) = [] \<Longrightarrow>
    buffer_at (Some key) (evict_aged now rp) = None"
  unfolding evict_aged_def buffer_at_def by (auto simp: replay_tables_ok_def dict_ok_dget intro: fold_evict_removes)

end
