(* ===== verification/Replay_System.thy ===== *)
theory Replay_System
  imports Replay_Safety
begin

text \<open>
  The replay plugin behind the broker (\<^verbatim>\<open>broker_events.py\<close> and \<^verbatim>\<open>plugin_replay.py\<close>): the event router numbers each event
  and hands it to the plugin's tap, the plugin host runs the taps' callbacks in the order they were given, and the plugin
  retains, sweeps and answers in between.  What the plugin is given of one stream has rising numbers, which is what a
  drain needs to yield each event once.
\<close>

section \<open>The system\<close>

record 'b rsystem =
  rs_router :: "'b router"
  rs_pending :: "dict list"
  rs_replay :: replay
  rs_ops :: "replay_op list"

text \<open>The plugin registers its tap when it is loaded.  \<open>rs_ops\<close> records what it has been through since.\<close>

definition load_replay :: "nat \<Rightarrow> replay_limits \<Rightarrow> 'b router \<Rightarrow> 'b rsystem" where
  "load_replay cb cfg r = \<lparr>rs_router = tap cb r, rs_pending = [], rs_replay = new_replay cfg, rs_ops = []\<rparr>"

definition host_do :: "(dict \<Rightarrow> nat option) \<Rightarrow> replay_limits \<Rightarrow> replay_op \<Rightarrow> 'b rsystem \<Rightarrow> 'b rsystem" where
  "host_do psize cfg op s = s\<lparr>rs_replay := replay_do psize cfg op (rs_replay s), rs_ops := rs_ops s @ [op]\<rparr>"

definition tapped_for :: "nat \<Rightarrow> ingest_outcome \<Rightarrow> dict list" where
  "tapped_for cb oc = (case oc of Raised \<Rightarrow> [] | Stamped ev tp \<Rightarrow> map snd (filter (\<lambda>x. fst x = cb) tp))"

text \<open>The steps of the broker that number no event.\<close>

inductive broker_step :: "(dict \<Rightarrow> 'b) \<Rightarrow> nat \<Rightarrow> 'b router \<Rightarrow> 'b router \<Rightarrow> bool" for packb cb where
  bs_add: "broker_step packb cb r (add_endpoint n r)"
| bs_remove: "broker_step packb cb r (remove_endpoint n r)"
| bs_pause: "broker_step packb cb r (pause_sender n r)"
| bs_restart: "broker_step packb cb r (restart_sender n r)"
| bs_subscription: "broker_step packb cb r (update_subscription n raw b r)"
| bs_sender: "sender_step ok n reg r = (r', x) \<Longrightarrow> broker_step packb cb r r'"
| bs_tap: "cb' \<noteq> cb \<Longrightarrow> broker_step packb cb r (tap cb' r)"
| bs_untap: "cb' \<noteq> cb \<Longrightarrow> broker_step packb cb r (untap cb' r)"
| bs_host: "broker_step packb cb r (r\<lparr>host_up := b\<rparr>)"

inductive rsystem_step ::
  "(dict \<Rightarrow> nat option) \<Rightarrow> replay_limits \<Rightarrow> (dict \<Rightarrow> 'b) \<Rightarrow> nat \<Rightarrow> 'b rsystem \<Rightarrow> 'b rsystem \<Rightarrow> bool" for psize cfg packb cb where
  rs_ingest: "ingest packb now src raw (rs_router s) = (r', oc) \<Longrightarrow>
    rsystem_step psize cfg packb cb s (s\<lparr>rs_router := r', rs_pending := rs_pending s @ tapped_for cb oc\<rparr>)"
| rs_deliver: "rs_pending s = ev # evs \<Longrightarrow>
    rsystem_step psize cfg packb cb s (host_do psize cfg (Tapped now ev) (s\<lparr>rs_pending := evs\<rparr>))"
| rs_serve: "\<not> is_tap op \<Longrightarrow> rsystem_step psize cfg packb cb s (host_do psize cfg op s)"
| rs_broker: "broker_step packb cb (rs_router s) r' \<Longrightarrow> rsystem_step psize cfg packb cb s (s\<lparr>rs_router := r'\<rparr>)"

inductive rsystem_reachable ::
  "(dict \<Rightarrow> nat option) \<Rightarrow> replay_limits \<Rightarrow> (dict \<Rightarrow> 'b) \<Rightarrow> nat \<Rightarrow> 'b rsystem \<Rightarrow> bool" for psize cfg packb cb where
  rs_start: "router_reachable packb r \<Longrightarrow> cb \<notin> set (taps r) \<Longrightarrow>
    rsystem_reachable psize cfg packb cb (load_replay cb cfg r)"
| rs_step: "rsystem_reachable psize cfg packb cb s \<Longrightarrow> rsystem_step psize cfg packb cb s s' \<Longrightarrow>
    rsystem_reachable psize cfg packb cb s'"

section \<open>Numbers rise\<close>

definition seq_no :: "dict \<Rightarrow> int" where
  "seq_no ev = (case pget ev ''seq'' of PInt n \<Rightarrow> n | _ \<Rightarrow> 0)"

definition next_on :: "rkey option \<Rightarrow> 'b router \<Rightarrow> int" where
  "next_on k r = (case k of
     None \<Rightarrow> int (global_seq r)
   | Some (src, p, s) \<Rightarrow> (case src of PStr e \<Rightarrow> int (next_seq r (e, p, s)) | _ \<Rightarrow> 0))"

definition numbers :: "(dict \<Rightarrow> nat option) \<Rightarrow> rkey option \<Rightarrow> 'b rsystem \<Rightarrow> int list" where
  "numbers psize k s = map fst (stream_history psize k (rs_ops s)) @ map seq_no (filter (\<lambda>ev. taps_as ev = Some k) (rs_pending s))"

definition rsystem_inv :: "(dict \<Rightarrow> nat option) \<Rightarrow> nat \<Rightarrow> 'b rsystem \<Rightarrow> bool" where
  "rsystem_inv psize cb s \<longleftrightarrow> router_inv (rs_router s) \<and> count_list (taps (rs_router s)) cb \<le> 1 \<and>
     (\<forall>ev \<in> set (rs_pending s). is_int (pget ev ''seq'')) \<and>
     (\<forall>k. sorted_wrt (<) (numbers psize k s) \<and> (\<forall>x \<in> set (numbers psize k s). x < next_on k (rs_router s)))"

lemma broker_is_router_step: "broker_step packb cb r r' \<Longrightarrow> router_step packb r r'"
  by (induction rule: broker_step.induct) (auto intro: router_step.intros)

lemma broker_step_frame: "broker_step packb cb r r' \<Longrightarrow> global_seq r' = global_seq r"
  by (induction rule: broker_step.induct)
    (auto simp: add_endpoint_def remove_endpoint_def update_subscription_def Let_def reindex_def setdefault_subs_def tap_def
      untap_def pause_sender_def restart_sender_def sender_step_def split: option.splits prod.splits if_splits)

lemma count_list_remove1: "count_list (remove1 x xs) y = count_list xs y - (if x = y then 1 else 0)"
  by (induction xs) auto

lemma broker_step_taps: "broker_step packb cb r r' \<Longrightarrow> count_list (taps r') cb = count_list (taps r) cb"
  by (induction rule: broker_step.induct)
    (auto simp: add_endpoint_def remove_endpoint_def update_subscription_def Let_def reindex_def setdefault_subs_def tap_def
      untap_def pause_sender_def restart_sender_def sender_step_def count_list_remove1 split: option.splits prod.splits if_splits)

lemma next_on_mono:
  "router_step packb r r' \<Longrightarrow> router_inv r \<Longrightarrow> global_seq r \<le> global_seq r' \<Longrightarrow> next_on k r \<le> next_on k r'"
  using step_next_seq_mono by (auto simp: next_on_def split: option.splits prod.splits pyval.splits)

lemma ingest_router: "ingest packb now src raw r = (r', oc) \<Longrightarrow>
    taps r' = taps r \<and> global_seq r \<le> global_seq r'"
  by (erule ingest_cases) (auto simp: stamp_session_def stamp_global_def Let_def)

lemma hash_key_src: "hash_key3 (PStr src) p s = Some key \<longleftrightarrow> (\<exists>kp ks. hash_key p = Some kp \<and> hash_key s = Some ks \<and> key = (PStr src, kp, ks))"
  by (auto simp: hash_key3_def split: option.splits)

text \<open>An event the plugin is given carries the next number of its stream.\<close>

lemma ingest_numbers:
  assumes "ingest packb now src raw r = (r', Stamped ev tp)" and "router_inv r"
  shows "is_int (pget ev ''seq'')" and "tp = dispatch_taps r' ev"
    and "taps_as ev = Some k \<Longrightarrow> seq_no ev = next_on k r \<and> seq_no ev < next_on k r'"
proof -
  have "is_int (pget ev ''seq'') \<and> tp = dispatch_taps r' ev \<and>
    (taps_as ev = Some k \<longrightarrow> seq_no ev = next_on k r \<and> seq_no ev < next_on k r')"
    using assms(1)
  proof (cases rule: ingest_cases)
    case (session s kp ks n r1 raw3 out err)
    have ev: "ev = raw3" "tp = dispatch_taps r1 raw3" using session(8) by (auto split: if_splits)
    have s: "truthy s" using session(1) by (auto simp: event_session_def Let_def split: if_splits)
    have f: "pget ev ''seq'' = PInt (int n)" "pget ev ''src'' = PStr src" "pget ev ''session'' = s"
      using session(5) ev by (auto simp: pget_def)
    have "n = next_seq r (src, kp, ks) \<and> n < next_seq r1 (src, kp, ks)"
      using stamp_session_seq_ok [OF _ session(4)] assms(2) by (simp add: router_inv_def)
    moreover have "next_seq r' (src, kp, ks) = next_seq r1 (src, kp, ks)" unfolding session(7) by simp
    moreover have "taps_as ev = Some k \<Longrightarrow> k = Some (PStr src, kp, ks)"
      using f s session(2,3) ev by (auto simp: taps_as_def hash_key3_def split: if_splits)
    moreover have "dispatch_taps r1 raw3 = dispatch_taps r' raw3" unfolding session(7) by (simp add: dispatch_taps_def)
    ultimately show ?thesis using f ev by (auto simp: seq_no_def next_on_def)
  next
    case (global n r1 raw3 out err)
    have ev: "ev = raw3" "tp = dispatch_taps r1 raw3" using global(6) by (auto split: if_splits)
    have f: "pget ev ''seq'' = PInt (int n)" "pget ev ''session'' = PNone" using global(3) ev by (auto simp: pget_def)
    have "taps_as ev = Some k \<Longrightarrow> k = None" using f by (auto simp: taps_as_def split: if_splits)
    moreover have "dispatch_taps r1 raw3 = dispatch_taps r' raw3" unfolding global(5) by (simp add: dispatch_taps_def)
    ultimately show ?thesis using f ev global(2,5) by (auto simp: seq_no_def next_on_def stamp_global_def)
  qed simp
  then show "is_int (pget ev ''seq'')" "tp = dispatch_taps r' ev"
    "taps_as ev = Some k \<Longrightarrow> seq_no ev = next_on k r \<and> seq_no ev < next_on k r'" by auto
qed

lemma filter_tap: "map snd (filter (\<lambda>x. fst x = cb) (map (\<lambda>c. (c, ev)) cs)) = replicate (count_list cs cb) ev"
  by (induction cs) auto

lemma tapped_once:
  assumes "count_list (taps r) cb \<le> 1"
  shows "map snd (filter (\<lambda>x. fst x = cb) (dispatch_taps r ev)) \<in> {[], [ev]}"
proof -
  have "count_list (taps r) cb = 0 \<or> count_list (taps r) cb = 1" using assms by auto
  then show ?thesis using filter_tap [of cb ev "taps r"] by (cases "host_up r") (auto simp: dispatch_taps_def simp del: map_map)
qed

lemma numbers_append:
  "numbers psize k (s\<lparr>rs_router := r', rs_pending := rs_pending s @ evs\<rparr>) =
    numbers psize k s @ map seq_no (filter (\<lambda>ev. taps_as ev = Some k) evs)"
  by (simp add: numbers_def)

lemma ingest_step_inv:
  assumes "ingest packb now src raw (rs_router s) = (r', oc)" and inv: "rsystem_inv psize cb s"
  shows "rsystem_inv psize cb (s\<lparr>rs_router := r', rs_pending := rs_pending s @ tapped_for cb oc\<rparr>)"
proof -
  let ?r = "rs_router s"
  note ri = ingest_router [OF assms(1)]
  have r: "router_inv ?r" "router_inv r'" using inv ingest_inv [OF _ assms(1)] by (auto simp: rsystem_inv_def)
  have mono: "next_on k ?r \<le> next_on k r'" for k
    using next_on_mono [OF step_ingest [OF assms(1)] r(1)] ri by simp
  let ?evs = "tapped_for cb oc"
  have one: "?evs = [] \<or> (\<exists>ev tp. oc = Stamped ev tp \<and> ?evs = [ev])"
  proof (cases oc)
    case (Stamped ev tp)
    then show ?thesis
      using tapped_once [of r' cb ev] ingest_numbers(2) [OF assms(1) [unfolded Stamped] r(1)] ri inv
      by (auto simp: tapped_for_def rsystem_inv_def)
  qed (simp add: tapped_for_def)
  have ints: "\<forall>ev \<in> set ?evs. is_int (pget ev ''seq'')"
    using one ingest_numbers(1) [OF _ r(1)] assms(1) by auto
  have up: "sorted_wrt (<) (numbers psize k s @ map seq_no (filter (\<lambda>ev. taps_as ev = Some k) ?evs)) \<and>
      (\<forall>x \<in> set (numbers psize k s @ map seq_no (filter (\<lambda>ev. taps_as ev = Some k) ?evs)). x < next_on k r')" for k
  proof -
    have old: "sorted_wrt (<) (numbers psize k s)" "\<forall>x \<in> set (numbers psize k s). x < next_on k ?r"
      using inv unfolding rsystem_inv_def by blast+
    then have new: "\<forall>x \<in> set (numbers psize k s). x < next_on k r'" using mono [of k] by force
    from one show ?thesis
    proof
      assume "\<exists>ev tp. oc = Stamped ev tp \<and> ?evs = [ev]"
      then obtain ev tp where ev: "oc = Stamped ev tp" "?evs = [ev]" by blast
      then show ?thesis using old new ingest_numbers(3) [OF assms(1) [unfolded ev(1)] r(1), of k]
        by (cases "taps_as ev = Some k") (auto simp: sorted_wrt_append)
    qed (use old new in simp)
  qed
  then show ?thesis using inv r(2) ri ints unfolding rsystem_inv_def numbers_append by auto
qed

lemma stored_number:
  "is_int (pget ev ''seq'') \<Longrightarrow> map fst (stored psize k (Tapped now ev)) \<in> {[], if taps_as ev = Some k then [seq_no ev] else []}"
proof (cases "event_entry psize now ev")
  case (Inr en)
  assume "is_int (pget ev ''seq'')"
  then have "fst en = seq_no ev" using event_entry_number [OF Inr] by (cases "pget ev ''seq''") (auto simp: seq_no_def)
  then show ?thesis using Inr by simp
qed simp

lemma drop_middle:
  "sorted_wrt (<) (A @ M @ B) \<Longrightarrow> \<forall>x \<in> set (A @ M @ B). x < u \<Longrightarrow> M' = [] \<or> M' = M \<Longrightarrow>
    sorted_wrt (<) (A @ M' @ B) \<and> (\<forall>x \<in> set (A @ M' @ B). x < u)" for u :: int
  by (auto simp: sorted_wrt_append)

lemma deliver_step_inv:
  assumes "rs_pending s = ev # evs" and inv: "rsystem_inv psize cb s"
  shows "rsystem_inv psize cb (host_do psize cfg (Tapped now ev) (s\<lparr>rs_pending := evs\<rparr>))"
proof -
  let ?s = "host_do psize cfg (Tapped now ev) (s\<lparr>rs_pending := evs\<rparr>)"
  have int: "is_int (pget ev ''seq'')" using assms by (simp add: rsystem_inv_def)
  have "sorted_wrt (<) (numbers psize k ?s) \<and> (\<forall>x \<in> set (numbers psize k ?s). x < next_on k (rs_router s))" for k
  proof -
    have old: "sorted_wrt (<) (numbers psize k s)" "\<forall>x \<in> set (numbers psize k s). x < next_on k (rs_router s)"
      using inv unfolding rsystem_inv_def by blast+
    have b1: "numbers psize k s = map fst (stream_history psize k (rs_ops s)) @
        (if taps_as ev = Some k then [seq_no ev] else []) @ map seq_no (filter (\<lambda>ev. taps_as ev = Some k) evs)"
      using assms(1) by (simp add: numbers_def)
    have b2: "numbers psize k ?s = map fst (stream_history psize k (rs_ops s)) @
        map fst (stored psize k (Tapped now ev)) @ map seq_no (filter (\<lambda>ev. taps_as ev = Some k) evs)"
      by (simp add: numbers_def host_do_def)
    have c: "map fst (stored psize k (Tapped now ev)) = [] \<or>
        map fst (stored psize k (Tapped now ev)) = (if taps_as ev = Some k then [seq_no ev] else [])"
      using stored_number [OF int, of psize k now] by blast
    show ?thesis unfolding b2 by (rule drop_middle [OF old [unfolded b1] c])
  qed
  then show ?thesis using assms unfolding rsystem_inv_def by (auto simp: host_do_def)
qed

lemma rsystem_step_inv: "rsystem_step psize cfg packb cb s s' \<Longrightarrow> rsystem_inv psize cb s \<Longrightarrow> rsystem_inv psize cb s'"
proof (induction rule: rsystem_step.induct)
  case (rs_serve op s)
  then have "numbers psize k (host_do psize cfg op s) = numbers psize k s" for k
    by (cases op) (simp_all add: numbers_def host_do_def)
  then show ?case using rs_serve unfolding rsystem_inv_def by (simp add: host_do_def)
next
  case (rs_broker s r')
  have r: "router_inv (rs_router s)" using rs_broker by (simp add: rsystem_inv_def)
  have rstep: "router_step packb (rs_router s) r'" by (rule broker_is_router_step [OF rs_broker(1)])
  have "next_on k (rs_router s) \<le> next_on k r'" for k
    by (rule next_on_mono [OF rstep r]) (simp add: broker_step_frame [OF rs_broker(1)])
  moreover have "numbers psize k (s\<lparr>rs_router := r'\<rparr>) = numbers psize k s" for k by (simp add: numbers_def)
  ultimately show ?case
    using rs_broker(2) router_step_inv [OF rstep r] broker_step_taps [OF rs_broker(1)] unfolding rsystem_inv_def
    by (fastforce intro: less_le_trans)
qed (auto intro: ingest_step_inv deliver_step_inv)

lemma count_list_absent: "x \<notin> set xs \<Longrightarrow> count_list xs x = 0"
  by (induction xs) auto

lemma rsystem_reachable_inv: "rsystem_reachable psize cfg packb cb s \<Longrightarrow> rsystem_inv psize cb s"
proof (induction rule: rsystem_reachable.induct)
  case (rs_start r)
  then show ?case
    using router_step_inv [OF step_tap router_reachable_inv]
    by (auto simp: rsystem_inv_def load_replay_def numbers_def tap_def count_list_absent)
qed (rule rsystem_step_inv)

lemma rsystem_reachable_run:
  "rsystem_reachable psize cfg packb cb s \<Longrightarrow> rs_replay s = replay_run psize cfg (rs_ops s) (new_replay cfg)"
proof (induction rule: rsystem_reachable.induct)
  case (rs_start r)
  then show ?case by (simp add: load_replay_def replay_run_def)
next
  case (rs_step s s')
  from rs_step(2,1,3) show ?case
    by (induction rule: rsystem_step.induct) (simp_all add: host_do_def replay_run_snoc)
qed

lemma rsystem_rising: "rsystem_reachable psize cfg packb cb s \<Longrightarrow> rising (stream_history psize k (rs_ops s))"
  using rsystem_reachable_inv [of psize cfg packb cb s]
  by (simp add: rsystem_inv_def numbers_def rising_def sorted_wrt_append sorted_wrt_map)

section \<open>Properties\<close>

text \<open>A stream for the witnesses: four events of one session, read two at a time while the last arrives.\<close>

definition demo_ev :: "int \<Rightarrow> dict" where
  "demo_ev n = [(''kind'', PStr ''event''), (''src'', PStr ''ep''), (''plugin'', PStr ''p''), (''topic'', PStr ''t''),
     (''session'', PStr ''s''), (''seq'', PInt n), (''ts'', PFloat (Fin 100))]"

definition demo_stream :: rkey where
  "demo_stream = (PStr ''ep'', PStr ''p'', PStr ''s'')"

definition demo_rq :: request where
  "demo_rq = \<lparr>rq_patterns = PList [PDict [(''topic'', PStr ''t'')]], rq_session = PStr ''s'', rq_endpoint = PStr ''ep'',
     rq_plugin = PStr ''p'', rq_max_events = PInt 2\<rparr>"

definition demo_size :: "dict \<Rightarrow> nat option" where
  "demo_size ev = Some 60"

definition demo_ops :: "replay_op list" where
  "demo_ops = [Tapped 100 (demo_ev 5), Tapped 100 (demo_ev 6), Tapped 100 (demo_ev 7)]"

definition demo_rounds :: "(replay_op list \<times> rat) list" where
  "demo_rounds = [([], 101), ([Tapped 102 (demo_ev 8)], 103), ([], 104), ([], 105)]"

definition demo_drain :: "replay \<times> reply list \<times> iter_end" where
  "demo_drain = replay_iter demo_size default_replay_limits demo_rounds (PInt (-1)) demo_rq
     (replay_run demo_size default_replay_limits demo_ops (new_replay default_replay_limits))"




definition take_event :: "(dict \<Rightarrow> 'b) \<Rightarrow> nat \<Rightarrow> rat \<Rightarrow> string \<Rightarrow> dict \<Rightarrow> 'b rsystem \<Rightarrow> 'b rsystem" where
  "take_event packb cb now src raw s = (case ingest packb now src raw (rs_router s) of
     (r', oc) \<Rightarrow> s\<lparr>rs_router := r', rs_pending := rs_pending s @ tapped_for cb oc\<rparr>)"

lemma take_event_step: "rsystem_reachable psize cfg packb cb s \<Longrightarrow> rsystem_reachable psize cfg packb cb (take_event packb cb now src raw s)"
  unfolding take_event_def by (auto split: prod.split intro!: rs_step [OF _ rs_ingest])

definition demo_tap_raw :: "string \<Rightarrow> dict" where
  "demo_tap_raw sid = [(''kind'', PStr ''event''), (''plugin'', PStr ''p''), (''topic'', PStr ''t''), (''session'', PStr sid)]"

definition demo_taken :: "unit rsystem" where
  "demo_taken = take_event (\<lambda>_. ()) 0 102 ''ep'' (demo_tap_raw ''s'') (take_event (\<lambda>_. ()) 0 101 ''ep'' (demo_tap_raw ''x'')
     (take_event (\<lambda>_. ()) 0 100 ''ep'' (demo_tap_raw ''s'') (load_replay 0 default_replay_limits ((new_router 4)\<lparr>host_up := True\<rparr>))))"

definition deliver :: "'b rsystem \<Rightarrow> 'b rsystem" where
  "deliver s = host_do demo_size default_replay_limits (Tapped 103 (hd (rs_pending s))) (s\<lparr>rs_pending := tl (rs_pending s)\<rparr>)"

definition demo_system :: "unit rsystem" where
  "demo_system = deliver (deliver (deliver demo_taken))"

lemma deliver_step:
  "rsystem_reachable demo_size default_replay_limits packb cb s \<Longrightarrow> rs_pending s \<noteq> [] \<Longrightarrow>
    rsystem_reachable demo_size default_replay_limits packb cb (deliver s)"
  unfolding deliver_def by (erule rs_step) (rule rs_deliver, simp)

lemma demo_system_reachable: "rsystem_reachable demo_size default_replay_limits (\<lambda>_. ()) 0 demo_system"
proof -
  have "router_reachable (\<lambda>_. ()) ((new_router 4)\<lparr>host_up := True\<rparr>)"
    by (rule router_reachable.step [OF router_reachable.start step_host])
  then have "rsystem_reachable demo_size default_replay_limits (\<lambda>_. ()) 0 demo_taken"
    unfolding demo_taken_def by (intro take_event_step rs_start) (simp_all add: new_router_def)
  moreover have "rs_pending demo_taken \<noteq> []" "rs_pending (deliver demo_taken) \<noteq> []" "rs_pending (deliver (deliver demo_taken)) \<noteq> []"
    by code_simp+
  ultimately show ?thesis unfolding demo_system_def by (intro deliver_step) auto
qed

definition demo_answers :: "replay \<times> reply list \<times> iter_end" where
  "demo_answers = replay_iter demo_size default_replay_limits [([], 104), ([], 105), ([], 106)] (PInt (-1)) demo_rq
     (rs_replay demo_system)"


text \<open>A swept stream hides its loss.  When all of a stream's retained events have aged out and it had an event after the
  reader's position, a fetch answers with no events and reports the gap; but if the sweep (or a call of \<open>stats\<close>) comes
  first, the buffer is gone and the same fetch, now or later, answers with no events and no gap.\<close>

theorem swept_stream_hides_loss:
  assumes "length (stream_keys ops) \<le> STREAMS_MAX" and "buffer_at (Some key) (replay_run psize cfg ops (new_replay cfg)) = Some b"
    and "rb_events (ring_evict_aged now b) = []"
    and "addresses body (Some key)" and "fetch_args cfg body = Inr (lower, me, mb)"
    and "en \<in> set (stream_history psize (Some key) ops)" and "lower < fst en"
  shows "snd (route_fetch cfg now body (replay_run psize cfg ops (new_replay cfg))) =
      Inr \<lparr>fr_events = [], fr_next = PInt lower, fr_gap = True\<rparr> \<and>
    snd (route_fetch cfg later body (replay_run psize cfg (ops @ [Sweep now]) (new_replay cfg))) =
      Inr \<lparr>fr_events = [], fr_next = PInt lower, fr_gap = False\<rparr>"
proof
  let ?rp = "replay_run psize cfg ops (new_replay cfg)" and ?b = "ring_evict_aged now b"
  have inv: "replay_ok psize ops ?rp" by (rule replay_run_inv [OF assms(1)])
  have "holds_end (stream_history psize (Some key) ops) ?b" by (rule evict_history [OF kept_at [OF inv assms(2)]])
  then have "seq_below (stream_history psize (Some key) ops) (rb_last_dropped ?b)" using assms(3) by (auto simp: holds_end_def)
  then obtain l where "rb_last_dropped ?b = Some l" "lower < l" using assms(6,7) by (force simp: seq_below_def)
  then show "snd (route_fetch cfg now body ?rp) = Inr \<lparr>fr_events = [], fr_next = PInt lower, fr_gap = True\<rparr>"
    using route_fetch_single [OF assms(4,2,5), of now] assms(3) by (auto simp: read_ring_def Let_def select_def)
  have "buffer_at (Some key) (replay_run psize cfg (ops @ [Sweep now]) (new_replay cfg)) = None"
    using sweep_removes [OF _ assms(2,3)] inv by (simp add: replay_run_snoc replay_do_def replay_ok_def)
  then show "snd (route_fetch cfg later body (replay_run psize cfg (ops @ [Sweep now]) (new_replay cfg))) =
      Inr \<lparr>fr_events = [], fr_next = PInt lower, fr_gap = False\<rparr>"
    using route_fetch_absent [OF assms(4) _ assms(5)] by simp
qed

theorem swept_stream_hides_loss_witness:
  "snd (route_fetch default_replay_limits 800 (fetch_body (PInt 5) demo_rq)
      (replay_run demo_size default_replay_limits demo_ops (new_replay default_replay_limits))) =
      Inr \<lparr>fr_events = [], fr_next = PInt 5, fr_gap = True\<rparr> \<and>
    snd (route_fetch default_replay_limits 801 (fetch_body (PInt 5) demo_rq)
      (replay_run demo_size default_replay_limits (demo_ops @ [Sweep 800]) (new_replay default_replay_limits))) =
      Inr \<lparr>fr_events = [], fr_next = PInt 5, fr_gap = False\<rparr>"
proof (rule swept_stream_hides_loss [where key = demo_stream and me = 2 and mb = "1024 * 1024" and en = "(7, Fin 100, 60, demo_ev 7)"])
  show "length (stream_keys demo_ops) \<le> STREAMS_MAX" by code_simp
  show "buffer_at (Some demo_stream) (replay_run demo_size default_replay_limits demo_ops (new_replay default_replay_limits)) =
      Some \<lparr>rb_max_bytes = 4 * 1024 * 1024, rb_max_age = Some (Fin 600),
        rb_events = [(5, Fin 100, 60, demo_ev 5), (6, Fin 100, 60, demo_ev 6), (7, Fin 100, 60, demo_ev 7)],
        rb_nbytes = 180, rb_dropped = 0, rb_last_dropped = None\<rparr>" by code_simp
  show "rb_events (ring_evict_aged 800 \<lparr>rb_max_bytes = 4 * 1024 * 1024, rb_max_age = Some (Fin 600),
        rb_events = [(5, Fin 100, 60, demo_ev 5), (6, Fin 100, 60, demo_ev 6), (7, Fin 100, 60, demo_ev 7)],
        rb_nbytes = 180, rb_dropped = 0, rb_last_dropped = None\<rparr>) = []" by code_simp
  show "addresses (fetch_body (PInt 5) demo_rq) (Some demo_stream)" by code_simp
  show "fetch_args default_replay_limits (fetch_body (PInt 5) demo_rq) = Inr (5, 2, 1024 * 1024)" by code_simp
  show "(7, Fin 100, 60, demo_ev 7) \<in> set (stream_history demo_size (Some demo_stream) demo_ops)" by code_simp
qed simp

text \<open>C36. Memory stays bounded: whatever is tapped, fetched and swept, the byte count of each buffer is the sum of the sizes
  it holds and within the bound of its kind, and the session-less ring has either kept or counted as dropped every event
  that it was given.\<close>

definition entry_bytes :: "entry list \<Rightarrow> int" where
  "entry_bytes es = (\<Sum>(seq, ts, n, ev) \<leftarrow> es. int n)"

theorem replay_memory_bounded:
  assumes "0 \<le> rc_global_bytes cfg" and "0 \<le> rc_session_bytes cfg"
    and "rp = replay_run psize cfg ops (new_replay cfg)"
  shows "rb_nbytes (rp_global rp) = entry_bytes (rb_events (rp_global rp)) \<and>
    rb_nbytes (rp_global rp) \<le> rc_global_bytes cfg \<and>
    rb_dropped (rp_global rp) + length (rb_events (rp_global rp)) = length (stream_history psize None ops) \<and>
    (\<forall>(key, b) \<in> set (rp_buffers rp). rb_nbytes b = entry_bytes (rb_events b) \<and> rb_nbytes b \<le> rc_session_bytes cfg)"
proof (intro conjI)
  have ok: "rings_ok cfg rp" unfolding assms(3) by (rule replay_run_rings)
  have small: "rb_nbytes b = entry_bytes (rb_events b) \<and> rb_nbytes b \<le> rb_max_bytes b" if "ring_ok b" "0 \<le> rb_max_bytes b" for b
    using that by (auto simp: ring_ok_def bytes_ok_def entry_bytes_def)
  show "rb_nbytes (rp_global rp) = entry_bytes (rb_events (rp_global rp))" "rb_nbytes (rp_global rp) \<le> rc_global_bytes cfg"
    using small [of "rp_global rp"] ok assms(1) by (auto simp: rings_ok_def global_ring_def)
  show "rb_dropped (rp_global rp) + length (rb_events (rp_global rp)) = length (stream_history psize None ops)"
    using global_counts [of psize cfg ops] by (simp add: assms(3) ring_count_def)
  show "\<forall>(key, b) \<in> set (rp_buffers rp). rb_nbytes b = entry_bytes (rb_events b) \<and> rb_nbytes b \<le> rc_session_bytes cfg"
  proof
    fix x assume x: "x \<in> set (rp_buffers rp)"
    then have "session_ring cfg (snd x)" using ok by (simp add: rings_ok_def)
    then show "case x of (key, b) \<Rightarrow> rb_nbytes b = entry_bytes (rb_events b) \<and> rb_nbytes b \<le> rc_session_bytes cfg"
      using small [of "snd x"] assms(2) by (cases x) (auto simp: session_ring_def)
  qed
qed

text \<open>A ring of 100 bytes keeps one of three events of 60.\<close>

theorem replay_memory_bounded_witness:
  "rb_dropped (rp_global (replay_run demo_size (default_replay_limits\<lparr>rc_global_bytes := 100\<rparr>)
      (map (\<lambda>n. Tapped 100 (dset ''session'' PNone (demo_ev n))) [5, 6, 7])
      (new_replay (default_replay_limits\<lparr>rc_global_bytes := 100\<rparr>)))) = 2"
proof -
  let ?cfg = "default_replay_limits\<lparr>rc_global_bytes := 100\<rparr>"
    and ?ops = "map (\<lambda>n. Tapped 100 (dset ''session'' PNone (demo_ev n))) [5, 6, 7]"
  have "rb_dropped (rp_global (replay_run demo_size ?cfg ?ops (new_replay ?cfg))) +
      length (rb_events (rp_global (replay_run demo_size ?cfg ?ops (new_replay ?cfg)))) = length (stream_history demo_size None ?ops)"
    using replay_memory_bounded [OF _ _ refl, of ?cfg demo_size ?ops] by (simp add: default_replay_limits_def)
  moreover have "length (stream_history demo_size None ?ops) = 3" by code_simp
  moreover have "length (rb_events (rp_global (replay_run demo_size ?cfg ?ops (new_replay ?cfg)))) = 1" by code_simp
  ultimately show ?thesis by simp
qed

end
