(* ===== verification/Scheduler_Text.thy ===== *)
theory Scheduler_Text
  imports Py_Strings "HOL-Library.Code_Target_Nat"
begin

text \<open>
  What the program reads off the text output of PBS and Slurm commands (\<^verbatim>\<open>batch_system_pbs.py\<close>,
  \<^verbatim>\<open>batch_system_slurm.py\<close>, \<^verbatim>\<open>queue_info_pbs.py\<close>, \<open>_parse_gpus\<close> of \<^verbatim>\<open>queue_info_slurm.py\<close>): times, the attribute blocks
  of \<open>qstat -f\<close>, node lists, access lists and job states.  The output of a command is an argument, \<open>None\<close> when the
  command failed.
\<close>

type_synonym attrs = "(string \<times> string) list"

datatype sched_error = Cannot_Parse

definition attr_or_empty :: "attrs \<Rightarrow> string \<Rightarrow> string" where
  "attr_or_empty d k = (case dget d k of None \<Rightarrow> [] | Some v \<Rightarrow> v)"

definition lower_text :: "string \<Rightarrow> string" where
  "lower_text s = map lower_char s"

section \<open>Times\<close>

definition hms :: "int option list \<Rightarrow> sched_error + int" where
  "hms parts = (case parts of
     [Some h, Some m, Some s] \<Rightarrow> Inr (h * 3600 + m * 60 + s)
   | _ \<Rightarrow> Inl Cannot_Parse)"

definition parse_pbs_walltime :: "string \<Rightarrow> sched_error + int option" where
  "parse_pbs_walltime s0 = (let s = strip s0; parts = map int_of_str (split_all CHR '':'' s) in
     if s = [] then Inr None
     else rbind (hms (if length parts = 1 \<or> length parts = 2 then replicate (3 - length parts) (Some 0) @ parts else parts))
       (\<lambda>t. Inr (Some t)))"

definition parse_slurm_time :: "string option \<Rightarrow> sched_error + int option" where
  "parse_slurm_time s0 = (case s0 of
     None \<Rightarrow> Inr None
   | Some s1 \<Rightarrow>
       let s = strip s1 in
       if s = [] \<or> map upper_char s \<in> {''UNLIMITED'', ''INFINITE'', ''NOT_SET'', ''N/A''} then Inr None
       else
         (case (case split_once CHR ''-'' s of
                  (d, Some r) \<Rightarrow> (int_of_str d, r)
                | (r, None) \<Rightarrow> (Some 0, s)) of
            (None, r) \<Rightarrow> Inl Cannot_Parse
          | (Some days, r) \<Rightarrow>
              let parts = map int_of_str (split_all CHR '':'' r)
              in rbind (hms (if length parts = 2 then Some 0 # parts else parts)) (\<lambda>t. Inr (Some (days * 86400 + t)))))"

section \<open>Attribute blocks\<close>

text \<open>The state of the loop of \<open>_parse_qstat_f\<close>.\<close>

record qstat_state =
  qf_result :: attrs
  qf_key :: "string option"
  qf_parts :: string
  qf_indent :: "nat option"

definition qstat_flush :: "qstat_state \<Rightarrow> attrs" where
  "qstat_flush q = (case qf_key q of None \<Rightarrow> qf_result q | Some k \<Rightarrow> dset k (strip (qf_parts q)) (qf_result q))"

definition qstat_line :: "string \<Rightarrow> qstat_state \<Rightarrow> qstat_state" where
  "qstat_line raw q =
    (let stripped = strip raw; indent = length raw - length (lstrip raw) in
     if stripped = [] \<or> begins_with ''Job Id:'' stripped then q
     else if qf_key q \<noteq> None \<and> (case qf_indent q of None \<Rightarrow> False | Some n \<Rightarrow> n < indent)
     then q\<lparr>qf_parts := qf_parts q @ stripped\<rparr>
     else
       let q1 = q\<lparr>qf_indent := (case qf_indent q of None \<Rightarrow> Some indent | Some n \<Rightarrow> Some n)\<rparr>
       in case split_once CHR ''='' stripped of
            (k, Some v) \<Rightarrow> q1\<lparr>qf_result := qstat_flush q, qf_key := Some (strip k), qf_parts := strip v\<rparr>
          | (s, None) \<Rightarrow> if qf_key q \<noteq> None then q1\<lparr>qf_parts := qf_parts q @ stripped\<rparr> else q1)"

definition parse_qstat_f :: "string \<Rightarrow> attrs" where
  "parse_qstat_f out = qstat_flush (fold qstat_line (split_lines out)
     \<lparr>qf_result = [], qf_key = None, qf_parts = [], qf_indent = None\<rparr>)"

text \<open>Several blocks, each with a header line of its own.\<close>

record blocks =
  bl_done :: "(string \<times> attrs) list"
  bl_head :: "string option"
  bl_lines :: "string list"

definition block_close :: "blocks \<Rightarrow> (string \<times> attrs) list" where
  "block_close b = (case bl_head b of
     None \<Rightarrow> bl_done b | Some h \<Rightarrow> bl_done b @ [(h, parse_qstat_f (join [newline] (bl_lines b)))])"

definition block_line :: "string \<Rightarrow> string \<Rightarrow> blocks \<Rightarrow> blocks" where
  "block_line header line b =
    (if begins_with header line
     then b\<lparr>bl_done := block_close b, bl_head := Some (strip (case snd (split_once CHR '':'' line) of Some r \<Rightarrow> r | None \<Rightarrow> [])),
            bl_lines := []\<rparr>
     else b\<lparr>bl_lines := bl_lines b @ [line]\<rparr>)"

definition parse_blocks :: "string \<Rightarrow> string \<Rightarrow> (string \<times> attrs) list" where
  "parse_blocks header out = block_close (fold (block_line header) (split_lines out)
     \<lparr>bl_done = [], bl_head = None, bl_lines = []\<rparr>)"

definition parse_qstat_records :: "string \<Rightarrow> (string \<times> attrs) list" where
  "parse_qstat_records out = parse_blocks ''Job Id:'' out"

definition collect_raw_queues :: "string \<Rightarrow> (string \<times> attrs) list" where
  "collect_raw_queues out = fold (\<lambda>(k, a) d. dset k a d) (parse_blocks ''Queue:'' out) []"

section \<open>Nodes\<close>

definition pbsnodes_line :: "string \<Rightarrow> attrs list \<times> attrs option \<Rightarrow> attrs list \<times> attrs option" where
  "pbsnodes_line raw st = (case st of (nodes, cur) \<Rightarrow>
     if raw = [] then st
     else if \<not> is_space (hd raw)
     then ((case cur of None \<Rightarrow> nodes | Some c \<Rightarrow> nodes @ [c]), Some [(''name'', strip raw)])
     else (case cur of
             None \<Rightarrow> st
           | Some c \<Rightarrow>
               (case (split_once CHR ''='' (strip raw), split_once CHR '':'' (strip raw)) of
                  ((k, Some v), _) \<Rightarrow> (nodes, Some (dset (strip k) (strip v) c))
                | (_, (k, Some v)) \<Rightarrow> (nodes, Some (dset (strip k) (strip v) c))
                | _ \<Rightarrow> st)))"

definition parse_pbsnodes :: "string \<Rightarrow> attrs list" where
  "parse_pbsnodes out = (case fold pbsnodes_line (split_lines out) ([], None) of
     (nodes, cur) \<Rightarrow> (case cur of None \<Rightarrow> nodes | Some c \<Rightarrow> nodes @ [c]))"

definition int_or_zero :: "string \<Rightarrow> int" where
  "int_or_zero s = (case int_of_str s of None \<Rightarrow> 0 | Some n \<Rightarrow> n)"

definition mem_in_mb :: "string \<Rightarrow> int" where
  "mem_in_mb mem =
    (let s = lstrip mem; ds = takeWhile is_digit s; unit = lower_text (strip (dropWhile is_digit s)); n = int (digits_value ds) in
     if ds = [] then 0
     else if unit = ''kb'' \<or> unit = [] then n div 1024
     else if unit = ''mb'' then n
     else if unit = ''gb'' then n * 1024
     else if unit = ''tb'' then n * 1024 * 1024
     else 0)"

definition node_resources :: "attrs \<Rightarrow> int \<times> int \<times> int" where
  "node_resources node =
    (int_or_zero (attr_or_empty node ''resources_available.ncpus''), int_or_zero (attr_or_empty node ''resources_available.ngpus''),
     mem_in_mb (attr_or_empty node ''resources_available.mem''))"

definition parse_exec_host :: "string \<Rightarrow> string list" where
  "parse_exec_host s = (if s = [] then [] else
     fold (\<lambda>token hosts. let host = text_before CHR ''.'' (text_before CHR ''/'' token)
       in if host \<noteq> [] \<and> host \<notin> set hosts then hosts @ [host] else hosts) (split_all CHR ''+'' s) [])"

section \<open>Access\<close>

definition acl_entry :: "string \<Rightarrow> (bool \<times> string) option" where
  "acl_entry raw = (case strip raw of
     [] \<Rightarrow> None
   | c # r \<Rightarrow> if c = CHR ''-'' then Some (False, text_before CHR ''@'' r)
       else if c = CHR ''+'' then Some (True, text_before CHR ''@'' r)
       else Some (True, text_before CHR ''@'' (c # r)))"

fun acl_loop :: "string list \<Rightarrow> string list \<Rightarrow> bool \<Rightarrow> bool \<Rightarrow> bool" where
  "acl_loop candidates [] allowed denied = (allowed \<and> \<not> denied)"
| "acl_loop candidates (raw # rest) allowed denied = (case acl_entry raw of
     None \<Rightarrow> acl_loop candidates rest allowed denied
   | Some (allow, name) \<Rightarrow>
       if name \<in> set candidates then acl_loop candidates rest (allowed \<or> allow) (denied \<or> \<not> allow)
       else acl_loop candidates rest allowed denied)"

definition acl_match :: "string \<Rightarrow> string list \<Rightarrow> bool" where
  "acl_match acl candidates = acl_loop candidates (split_all CHR '','' acl) False False"

definition user_can_submit :: "attrs \<Rightarrow> string \<Rightarrow> string list \<Rightarrow> bool" where
  "user_can_submit a user groups =
    (if lower_text (strip (attr_or_empty a ''acl_user_enable'')) = ''true'' \<and> \<not> acl_match (attr_or_empty a ''acl_users'') [user] then False
     else if lower_text (strip (attr_or_empty a ''acl_group_enable'')) = ''true'' \<and> \<not> acl_match (attr_or_empty a ''acl_groups'') groups then False
     else True)"

definition pbs_var_value :: "string \<Rightarrow> string \<Rightarrow> string" where
  "pbs_var_value varlist key =
    (case filter (\<lambda>item. case split_once CHR ''='' item of (k, Some v) \<Rightarrow> strip k = key | _ \<Rightarrow> False) (split_all CHR '','' varlist) of
       [] \<Rightarrow> [] | item # rest \<Rightarrow> strip (case snd (split_once CHR ''='' item) of Some v \<Rightarrow> v | None \<Rightarrow> []))"

section \<open>States\<close>

definition pbs_state :: "char \<Rightarrow> string" where
  "pbs_state c =
    (if c \<in> {CHR ''Q'', CHR ''W'', CHR ''T''} then ''PENDING''
     else if c \<in> {CHR ''R'', CHR ''B'', CHR ''E''} then ''RUNNING''
     else if c \<in> {CHR ''F'', CHR ''X''} then ''DONE''
     else if c \<in> {CHR ''H'', CHR ''S'', CHR ''M'', CHR ''U''} then ''HELD''
     else ''UNKNOWN'')"

text \<open>The answers of \<open>qstat -f\<close> and, when that fails, of \<open>qstat -x -f\<close>.\<close>

definition pbs_job_state :: "string option \<Rightarrow> string option \<Rightarrow> bool \<Rightarrow> string" where
  "pbs_job_state out out_x cancelled = (case (case out of None \<Rightarrow> out_x | Some s \<Rightarrow> Some s) of
     None \<Rightarrow> ''UNKNOWN''
   | Some s \<Rightarrow> (case strip (attr_or_empty (parse_qstat_f s) ''job_state'') of
       [] \<Rightarrow> ''UNKNOWN''
     | c # cs \<Rightarrow> let state = pbs_state (upper_char c)
         in if cancelled \<and> state \<in> {''DONE'', ''FAILED''} then ''CANCELLED'' else state))"

definition slurm_states :: attrs where
  "slurm_states = [(''PENDING'', ''PENDING''), (''CONFIGURING'', ''PENDING''), (''RUNNING'', ''RUNNING''),
     (''COMPLETING'', ''RUNNING''), (''COMPLETED'', ''DONE''), (''FAILED'', ''FAILED''), (''TIMEOUT'', ''FAILED''),
     (''NODE_FAIL'', ''FAILED''), (''PREEMPTED'', ''FAILED''), (''BOOT_FAIL'', ''FAILED''), (''OUT_OF_MEMORY'', ''FAILED''),
     (''CANCELLED'', ''CANCELLED''), (''DEADLINE'', ''CANCELLED''), (''SUSPENDED'', ''HELD''), (''STOPPED'', ''HELD''),
     (''REVOKED'', ''HELD'')]"

definition slurm_job_state :: "string option \<Rightarrow> string" where
  "slurm_job_state out =
    (case filter (\<lambda>l. l \<noteq> []) (map strip (split_lines (case out of None \<Rightarrow> [] | Some s \<Rightarrow> s))) of
       [] \<Rightarrow> ''UNKNOWN''
     | l # ls \<Rightarrow> (case dget slurm_states l of None \<Rightarrow> ''UNKNOWN'' | Some st \<Rightarrow> st))"

section \<open>Queues and nodes of PBS\<close>

text \<open>\<open>p in s\<close> on texts.\<close>

fun occurs_in :: "string \<Rightarrow> string \<Rightarrow> bool" where
  "occurs_in p [] = (p = [])"
| "occurs_in p (c # s) = (begins_with p (c # s) \<or> occurs_in p s)"

record node_counts =
  nc_total :: nat
  nc_available :: nat
  nc_idle :: nat
  nc_cpus :: int
  nc_gpus :: int
  nc_mem :: int

definition count_node :: "attrs \<Rightarrow> node_counts \<Rightarrow> node_counts" where
  "count_node node t = (case node_resources node of (cpus, gpus, mem) \<Rightarrow>
     let state = lower_text (attr_or_empty node ''state'');
         t1 = t\<lparr>nc_cpus := max (nc_cpus t) cpus, nc_gpus := max (nc_gpus t) gpus, nc_mem := max (nc_mem t) mem\<rparr>
     in if occurs_in ''down'' state \<or> occurs_in ''offline'' state \<or> occurs_in ''unavailable'' state then t1
        else t1\<lparr>nc_available := Suc (nc_available t),
                nc_idle := (if strip (attr_or_empty node ''jobs'') = [] then Suc (nc_idle t) else nc_idle t)\<rparr>)"

definition count_nodes :: "attrs list \<Rightarrow> node_counts" where
  "count_nodes nodes = fold count_node nodes
     \<lparr>nc_total = length nodes, nc_available = 0, nc_idle = 0, nc_cpus = 0, nc_gpus = 0, nc_mem = 0\<rparr>"

text \<open>A row of the answer, without its name and its constant fields; a time limit of \<open>None\<close> is shown as \<open>UNLIMITED\<close>.\<close>

record queue_row =
  qr_state :: string
  qr_time_limit :: "int option"
  qr_wall_min :: "int option"
  qr_wall_max :: "int option"
  qr_nodes_min :: "int option"
  qr_nodes_max :: "int option"
  qr_counts :: node_counts

definition queue_row_of :: "node_counts \<Rightarrow> attrs \<Rightarrow> sched_error + queue_row" where
  "queue_row_of t q =
    rbind (parse_pbs_walltime (attr_or_empty q ''resources_max.walltime'')) (\<lambda>wall_max.
    rbind (parse_pbs_walltime (attr_or_empty q ''resources_min.walltime'')) (\<lambda>wall_min.
    Inr \<lparr>qr_state = (if lower_text (attr_or_empty q ''enabled'') = ''true'' \<and> lower_text (attr_or_empty q ''started'') = ''true'' then ''UP'' else ''DOWN''),
         qr_time_limit = wall_max, qr_wall_min = wall_min, qr_wall_max = wall_max,
         qr_nodes_min = int_of_str (attr_or_empty q ''resources_min.nodect''),
         qr_nodes_max = int_of_str (attr_or_empty q ''resources_max.nodect''), qr_counts = t\<rparr>))"

fun queue_rows :: "node_counts \<Rightarrow> (string \<times> attrs) list \<Rightarrow> sched_error + (string \<times> queue_row) list" where
  "queue_rows t [] = Inr []"
| "queue_rows t ((name, q) # qs) = rbind (queue_row_of t q) (\<lambda>r. rbind (queue_rows t qs) (\<lambda>rs. Inr ((name, r) # rs)))"

text \<open>The outputs of \<open>qstat -Qf\<close> and \<open>pbsnodes -a\<close>.\<close>

definition pbs_collect_info :: "string option \<Rightarrow> string option \<Rightarrow> sched_error + (string \<times> queue_row) list" where
  "pbs_collect_info queues_out nodes_out = (case queues_out of
     None \<Rightarrow> Inr []
   | Some qs \<Rightarrow> queue_rows (count_nodes (case nodes_out of None \<Rightarrow> [] | Some ns \<Rightarrow> parse_pbsnodes ns)) (collect_raw_queues qs))"

definition pbs_user_partitions :: "string option \<Rightarrow> string \<Rightarrow> string list \<Rightarrow> string list option" where
  "pbs_user_partitions queues_out user groups =
    map_option (\<lambda>qs. map fst (filter (\<lambda>(name, a). user_can_submit a user groups) (collect_raw_queues qs))) queues_out"

definition pbs_jobs_in_queue :: "string option \<Rightarrow> string \<Rightarrow> (string \<times> attrs) list" where
  "pbs_jobs_in_queue out queue = (case out of None \<Rightarrow> []
   | Some s \<Rightarrow> filter (\<lambda>(i, a). strip (attr_or_empty a ''queue'') = queue) (parse_qstat_records s))"

section \<open>Generic resources of Slurm\<close>

lemma dropWhile_shorter: "dropWhile P s = x # r \<Longrightarrow> length r < length s"
  using length_dropWhile_le [of P s] by simp

text \<open>\<open>re.sub(r'\\(.*?\\)', '', s)\<close>: each opening parenthesis is removed with what follows up to the next closing one, if
  that is on the same line.\<close>

function drop_parens :: "string \<Rightarrow> string" where
  "drop_parens [] = []"
| "drop_parens (c # s) =
     (if c = CHR ''('' then
        (case dropWhile (\<lambda>x. x \<noteq> CHR '')'' \<and> x \<noteq> newline) s of
           x # r \<Rightarrow> if x = CHR '')'' then drop_parens r else c # drop_parens s
         | [] \<Rightarrow> c # drop_parens s)
      else c # drop_parens s)"
  by pat_completeness auto

termination
  by (relation "measure length") (auto dest: dropWhile_shorter)

definition entry_gpus :: "string \<Rightarrow> int" where
  "entry_gpus entry = (case filter (\<lambda>p. int_of_str p \<noteq> None) (rev (split_all CHR '':'' (drop_parens entry))) of
     [] \<Rightarrow> 0 | p # ps \<Rightarrow> int_or_zero p)"

definition parse_gpus :: "string \<Rightarrow> int" where
  "parse_gpus gres = (if gres = [] \<or> gres = ''(null)'' then 0
     else sum_list (map entry_gpus (filter (begins_with ''gpu'') (map strip (split_all CHR '','' gres)))))"

section \<open>The attribute block of a queue system that indents with spaces\<close>

text \<open>
  How an attribute is written: its key and the first part of its value behind \<open>n\<close> spaces, and what does not fit on that
  line on lines of their own behind \<open>m\<close> spaces.
\<close>

type_synonym written = "string \<times> string \<times> string list"

definition spaces :: "nat \<Rightarrow> string" where
  "spaces n = replicate n CHR '' ''"

definition attr_lines :: "nat \<Rightarrow> nat \<Rightarrow> written \<Rightarrow> string list" where
  "attr_lines n m w = (case w of (k, v, cs) \<Rightarrow> (spaces n @ k @ '' = '' @ v) # map (\<lambda>c. spaces m @ c) cs)"

definition attr_read :: "written \<Rightarrow> string \<times> string" where
  "attr_read w = (case w of (k, v, cs) \<Rightarrow> (k, v @ concat cs))"

definition one_line :: "string \<Rightarrow> bool" where
  "one_line s \<longleftrightarrow> stripped s \<and> list_all (\<lambda>c. \<not> is_eol c) s"

definition written_ok :: "written \<Rightarrow> bool" where
  "written_ok w \<longleftrightarrow> (case w of (k, v, cs) \<Rightarrow>
     k \<noteq> [] \<and> CHR ''='' \<notin> set k \<and> one_line k \<and> one_line v \<and>
     \<not> begins_with ''Job Id:'' (k @ '' = '' @ v) \<and>
     list_all (\<lambda>c. c \<noteq> [] \<and> one_line c \<and> \<not> begins_with ''Job Id:'' c) cs)"

lemma space_is_space [simp]: "is_space CHR '' ''"
  by (simp add: is_space_def char_nat_def)

lemma strip_indented: "stripped s \<Longrightarrow> strip (spaces n @ s) = s"
  using strip_padded [of s "spaces n" "[]"] by (simp add: spaces_def list_all_iff)

lemma lstrip_indented: "stripped s \<Longrightarrow> s \<noteq> [] \<Longrightarrow> lstrip (spaces n @ s) = s"
  by (simp add: lstrip_def spaces_def stripped_def dropWhile_all dropWhile_hd list_all_iff)

lemma continuation_step:
  "n < m \<Longrightarrow> c \<noteq> [] \<Longrightarrow> stripped c \<Longrightarrow> \<not> begins_with ''Job Id:'' c \<Longrightarrow> qf_key q \<noteq> None \<Longrightarrow> qf_indent q = Some n \<Longrightarrow>
    qstat_line (spaces m @ c) q = q\<lparr>qf_parts := qf_parts q @ c\<rparr>"
  by (simp add: qstat_line_def strip_indented lstrip_indented) (simp add: spaces_def)

lemma continuations:
  "n < m \<Longrightarrow> list_all (\<lambda>c. c \<noteq> [] \<and> one_line c \<and> \<not> begins_with ''Job Id:'' c) cs \<Longrightarrow> qf_key q \<noteq> None \<Longrightarrow>
    qf_indent q = Some n \<Longrightarrow> fold qstat_line (map (\<lambda>c. spaces m @ c) cs) q = q\<lparr>qf_parts := qf_parts q @ concat cs\<rparr>"
  by (induction cs arbitrary: q) (auto simp: continuation_step one_line_def)

lemma begins_with_snoc: "\<not> begins_with p (s @ t) \<Longrightarrow> \<not> begins_with p s"
  by (auto simp: begins_with_def)

lemma attribute_step:
  assumes k: "k \<noteq> []" "CHR ''='' \<notin> set k" "stripped k" and v: "stripped v"
    and b: "\<not> begins_with ''Job Id:'' (k @ '' = '' @ v)" and q: "qf_indent q \<in> {None, Some n}"
  shows "qstat_line (spaces n @ k @ '' = '' @ v) q =
    q\<lparr>qf_result := qstat_flush q, qf_key := Some k, qf_parts := v, qf_indent := Some n\<rparr>"
proof -
  have eq [simp]: "\<not> is_space CHR ''=''" by (simp add: is_space_def char_nat_def)
  have sk: "strip (k @ '' '') = k" using strip_padded [of k "[]" "'' ''"] k by simp
  have sv: "strip ('' '' @ v) = v" using strip_indented [OF v, of 1] by (simp add: spaces_def)
  have so: "split_once CHR ''='' (k @ '' = '' @ v) = (k @ '' '', Some ('' '' @ v))"
    using split_once_found [of "CHR ''=''" "k @ '' ''"] k by simp
  have so': "split_once CHR ''='' (k @ '' ='') = (k @ '' '', Some [])"
    using split_once_found [of "CHR ''=''" "k @ '' ''" "[]"] k by simp
  show ?thesis
  proof (cases "v = []")
    case True
    have st: "stripped (k @ '' ='')" using k by (simp add: stripped_def)
    have "strip (spaces n @ k @ '' = '') = k @ '' =''"
      using strip_padded [OF st, of "spaces n" "'' ''"] by (simp add: spaces_def list_all_iff)
    moreover have "lstrip (spaces n @ k @ '' = '') = k @ '' = ''"
      using k by (simp add: lstrip_def spaces_def stripped_def dropWhile_all dropWhile_hd list_all_iff)
    moreover have "\<not> begins_with ''Job Id:'' (k @ '' ='')"
      using b True begins_with_snoc [of "''Job Id:''" "k @ '' =''" "'' ''"] by simp
    ultimately show ?thesis using True k q so' sk by (auto simp: qstat_line_def spaces_def strip_def)
  next
    case False
    then have st: "stripped (k @ '' = '' @ v)" using k v by (simp add: stripped_def)
    then show ?thesis using k q so sk sv b strip_indented [OF st, of n] lstrip_indented [OF st, of n]
      by (auto simp: qstat_line_def spaces_def)
  qed
qed

lemma one_line_stripped: "one_line s \<Longrightarrow> stripped s"
  by (simp add: one_line_def)

lemma written_okD:
  assumes "written_ok (k, v, cs)"
  shows "k \<noteq> []" "CHR ''='' \<notin> set k" "stripped k" "stripped v" "\<not> begins_with ''Job Id:'' (k @ '' = '' @ v)"
    "list_all (\<lambda>c. c \<noteq> [] \<and> one_line c \<and> \<not> begins_with ''Job Id:'' c) cs"
  using assms by (simp_all add: written_ok_def one_line_def)

lemma stripped_append: "stripped a \<Longrightarrow> stripped b \<Longrightarrow> stripped (a @ b)"
  by (auto simp: stripped_def hd_append last_append)

lemma stripped_concat: "stripped v \<Longrightarrow> list_all (\<lambda>c. stripped c) cs \<Longrightarrow> stripped (v @ concat cs)"
  by (induction cs arbitrary: v) (simp_all add: stripped_append flip: append_assoc)

lemma attribute_lines:
  assumes w: "written_ok (k, v, cs)" and "n < m" and q: "qf_indent q \<in> {None, Some n}"
  shows "fold qstat_line (attr_lines n m (k, v, cs)) q =
    q\<lparr>qf_result := qstat_flush q, qf_key := Some k, qf_parts := v @ concat cs, qf_indent := Some n\<rparr>"
proof -
  note d = written_okD [OF w]
  let ?q = "q\<lparr>qf_result := qstat_flush q, qf_key := Some k, qf_parts := v, qf_indent := Some n\<rparr>"
  have "fold qstat_line (map (\<lambda>c. spaces m @ c) cs) ?q = ?q\<lparr>qf_parts := qf_parts ?q @ concat cs\<rparr>"
    by (rule continuations [OF \<open>n < m\<close> d(6)]) simp_all
  then show ?thesis using attribute_step [OF d(1-5) q] by (simp add: attr_lines_def)
qed

lemma attribute_flushed:
  assumes "written_ok (k, v, cs)"
  shows "qstat_flush (q\<lparr>qf_result := r, qf_key := Some k, qf_parts := v @ concat cs, qf_indent := i\<rparr>) = dset k (v @ concat cs) r"
proof -
  have "stripped (v @ concat cs)"
    using written_okD [OF assms] by (intro stripped_concat) (auto simp: list_all_iff one_line_def)
  then show ?thesis by (simp add: qstat_flush_def strip_stripped)
qed

lemma block_read:
  "list_all written_ok ws \<Longrightarrow> n < m \<Longrightarrow> qf_indent q \<in> {None, Some n} \<Longrightarrow>
    qstat_flush (fold qstat_line (concat (map (attr_lines n m) ws)) q) =
      fold (\<lambda>w. case attr_read w of (k, v) \<Rightarrow> dset k v) ws (qstat_flush q)"
proof (induction ws arbitrary: q)
  case (Cons w ws)
  obtain k v cs where w: "w = (k, v, cs)" by (cases w)
  have ok: "written_ok (k, v, cs)" using Cons.prems w by simp
  show ?case using Cons.prems Cons.IH attribute_lines [OF ok Cons.prems(2,3)]
    by (simp add: w attribute_flushed [OF ok] attr_read_def)
qed simp

lemma fold_dset_new:
  "distinct (map fst ps) \<Longrightarrow> fst ` set ps \<inter> fst ` set d = {} \<Longrightarrow> fold (\<lambda>(k, v). dset k v) ps d = d @ ps"
proof (induction ps arbitrary: d)
  case (Cons p ps)
  have "dset (fst p) (snd p) d = d @ [p]" using Cons.prems by (cases p) (simp add: dset_absent image_iff)
  then show ?case using Cons by (cases p) auto
qed simp

section \<open>The output for several jobs\<close>

type_synonym written_job = "string \<times> written list"

definition job_lines :: "nat \<Rightarrow> nat \<Rightarrow> written_job \<Rightarrow> string list" where
  "job_lines n m j = (case j of (i, ws) \<Rightarrow> (''Job Id: '' @ i) # concat (map (attr_lines n m) ws) @ [[]])"

definition lines_text :: "string list \<Rightarrow> string" where
  "lines_text ls = concat (map (\<lambda>l. l @ [newline]) ls)"

definition qstat_text :: "nat \<Rightarrow> nat \<Rightarrow> written_job list \<Rightarrow> string" where
  "qstat_text n m js = lines_text (concat (map (job_lines n m) js))"

definition job_read :: "written_job \<Rightarrow> string \<times> attrs" where
  "job_read j = (case j of (i, ws) \<Rightarrow> (i, map attr_read ws))"

definition written_job_ok :: "written_job \<Rightarrow> bool" where
  "written_job_ok j \<longleftrightarrow> (case j of (i, ws) \<Rightarrow> one_line i \<and> list_all written_ok ws \<and> distinct (map fst ws))"

abbreviation no_eol :: "string \<Rightarrow> bool" where
  "no_eol l \<equiv> list_all (\<lambda>c. \<not> is_eol c) l"

lemma literal_no_eol [simp]: "\<not> is_eol CHR '' ''" "\<not> is_eol CHR ''=''" "no_eol ''Job Id: ''"
  by (simp_all add: is_eol_def char_nat_def)

lemma attr_lines_no_eol: "written_ok w \<Longrightarrow> \<forall>l \<in> set (attr_lines n m w). no_eol l"
  by (cases w) (auto simp: written_ok_def one_line_def attr_lines_def spaces_def list_all_iff)

lemma split_lines_text: "\<forall>l \<in> set ls. no_eol l \<Longrightarrow> split_lines (lines_text ls) = ls"
  by (simp add: lines_text_def split_lines_join)

lemma join_blank: "join [newline] (ls @ [[]]) = lines_text ls"
proof (induction ls)
  case (Cons l ls)
  then show ?case by (cases "ls @ [[]]") (simp_all add: lines_text_def)
qed (simp add: lines_text_def)

lemma attr_lines_indented: "0 < n \<Longrightarrow> 0 < m \<Longrightarrow> l \<in> set (attr_lines n m w) \<Longrightarrow> \<not> begins_with ''Job Id:'' l"
  by (cases w; cases n; cases m) (auto simp: attr_lines_def spaces_def begins_with_def)

lemma block_lines:
  "\<forall>l \<in> set ls. \<not> begins_with h l \<Longrightarrow> fold (block_line h) ls b = b\<lparr>bl_lines := bl_lines b @ ls\<rparr>"
  by (induction ls arbitrary: b) (auto simp: block_line_def)

lemma attr_read_key [simp]: "fst (attr_read w) = fst w"
  by (simp add: attr_read_def split: prod.splits)

lemma parse_attr_block:
  assumes "list_all written_ok ws" "distinct (map fst ws)" "n < m"
  shows "parse_qstat_f (lines_text (concat (map (attr_lines n m) ws))) = map attr_read ws"
proof -
  have "\<forall>l \<in> set (concat (map (attr_lines n m) ws)). no_eol l"
    using assms(1) attr_lines_no_eol by (auto simp: list_all_iff)
  moreover have "fold (\<lambda>w. case attr_read w of (k, v) \<Rightarrow> dset k v) ws [] = map attr_read ws"
    using fold_dset_new [of "map attr_read ws" "[]"] assms(2) by (simp add: fold_map comp_def)
  ultimately show ?thesis using assms block_read [of ws n m]
    by (simp add: parse_qstat_f_def split_lines_text qstat_flush_def)
qed

lemma job_block:
  assumes j: "written_job_ok j" and nm: "0 < n" "n < m"
  shows "block_close (fold (block_line ''Job Id:'') (job_lines n m j) b) = block_close b @ [job_read j]"
proof -
  obtain i ws where ij: "j = (i, ws)" by (cases j)
  let ?ls = "concat (map (attr_lines n m) ws) @ [[]]"
  have ok: "stripped i" "list_all written_ok ws" "distinct (map fst ws)" using j by (simp_all add: written_job_ok_def one_line_def ij)
  have so: "split_once CHR '':'' (''Job Id: '' @ i) = (''Job Id'', Some ('' '' @ i))"
    using split_once_found [of "CHR '':''" "''Job Id''" "'' '' @ i"] by simp
  have si: "strip ('' '' @ i) = i" using strip_indented [OF ok(1), of 1] by (simp add: spaces_def)
  have bw: "begins_with ''Job Id:'' (''Job Id: '' @ i)" by (simp add: begins_with_def)
  have hd: "block_line ''Job Id:'' (''Job Id: '' @ i) b = b\<lparr>bl_done := block_close b, bl_head := Some i, bl_lines := []\<rparr>"
    unfolding block_line_def using so si bw by simp
  have "\<forall>l \<in> set ?ls. \<not> begins_with ''Job Id:'' l"
    using nm attr_lines_indented [of n m] by (auto simp: begins_with_def)
  then have "block_close (fold (block_line ''Job Id:'') ?ls (b\<lparr>bl_done := block_close b, bl_head := Some i, bl_lines := []\<rparr>)) =
      block_close b @ [(i, parse_qstat_f (join [newline] ?ls))]"
    by (simp only: block_lines) (simp add: block_close_def)
  then show ?thesis
    using hd parse_attr_block [OF ok(2,3) nm(2)] by (simp add: ij job_lines_def job_read_def join_blank)
qed

lemma jobs_blocks:
  "list_all written_job_ok js \<Longrightarrow> 0 < n \<Longrightarrow> n < m \<Longrightarrow>
    block_close (fold (block_line ''Job Id:'') (concat (map (job_lines n m) js)) b) = block_close b @ map job_read js"
  by (induction js arbitrary: b) (simp_all add: job_block)

lemma job_lines_no_eol: "written_job_ok j \<Longrightarrow> l \<in> set (job_lines n m j) \<Longrightarrow> no_eol l"
  using attr_lines_no_eol [of _ n m] by (cases j) (auto simp: written_job_ok_def job_lines_def one_line_def list_all_iff is_eol_def char_nat_def)


definition sample_jobs :: "written_job list" where
  "sample_jobs =
    [(''123.pbs'', [(''Job_Name'', ''sim'', []), (''comment'', [], []),
        (''Resource_List.select'', ''2:ncpus=64:'', [''ngpus=4'', '':mem=1gb''])]),
     (''124.pbs'', [(''job_state'', ''R'', [])])]"


text \<open>A continuation that is indented with one tab is not deeper than an attribute behind four spaces: its \<open>=\<close> starts an
  attribute of its own, and the value before it ends early.\<close>

lemma tab_continuation_splits_value:
  "parse_qstat_f (lines_text [''    Resource_List.select = 2:ncpus=64:'', char_of (9 :: nat) # ''ngpus=4'']) =
    [(''Resource_List.select'', ''2:ncpus=64:''), (''ngpus'', ''4'')]"
  by code_simp

text \<open>A comma within the socket binding cuts the entry in two, and no GPU is counted.\<close>

lemma gpus_of_split_sockets:
  "parse_gpus ''gpu:a100:4(S:0-7)'' = 4" "parse_gpus ''gpu:a100:4(S:0,2)'' = 0"
  by code_simp+

section \<open>What the access lists decide\<close>

lemma acl_loop_iff:
  "acl_loop cs es a d \<longleftrightarrow>
     (a \<or> (\<exists>e \<in> set es. \<exists>n \<in> set cs. acl_entry e = Some (True, n))) \<and>
     \<not> (d \<or> (\<exists>e \<in> set es. \<exists>n \<in> set cs. acl_entry e = Some (False, n)))"
  by (induction es arbitrary: a d) (auto split: option.splits prod.splits)

text \<open>The order of the entries does not matter: some entry allows a candidate and none denies one.\<close>

lemma acl_match_iff:
  "acl_match acl cs \<longleftrightarrow>
     (\<exists>e \<in> set (split_all CHR '','' acl). \<exists>n \<in> set cs. acl_entry e = Some (True, n)) \<and>
     \<not> (\<exists>e \<in> set (split_all CHR '','' acl). \<exists>n \<in> set cs. acl_entry e = Some (False, n))"
  by (simp add: acl_match_def acl_loop_iff)

lemma no_groups_no_group_queue:
  "lower_text (strip (attr_or_empty a ''acl_group_enable'')) = ''true'' \<Longrightarrow> \<not> user_can_submit a user []"
  by (simp add: user_can_submit_def acl_match_iff)

section \<open>What the node counts say\<close>

lemma count_node_bounds:
  "nc_idle t \<le> nc_available t \<Longrightarrow>
    nc_idle (count_node n t) \<le> nc_available (count_node n t) \<and> nc_available (count_node n t) \<le> Suc (nc_available t) \<and>
    nc_total (count_node n t) = nc_total t"
  by (auto simp: count_node_def Let_def split: prod.splits)

lemma count_fold_bounds:
  "nc_idle t \<le> nc_available t \<Longrightarrow>
    nc_idle (fold count_node ns t) \<le> nc_available (fold count_node ns t) \<and>
    nc_available (fold count_node ns t) \<le> nc_available t + length ns \<and> nc_total (fold count_node ns t) = nc_total t"
proof (induction ns arbitrary: t)
  case (Cons n ns)
  then show ?case using count_node_bounds [OF Cons.prems, of n] Cons.IH [of "count_node n t"] by fastforce
qed simp

lemma node_counts_ordered:
  "nc_idle (count_nodes ns) \<le> nc_available (count_nodes ns)" "nc_available (count_nodes ns) \<le> nc_total (count_nodes ns)"
  "nc_total (count_nodes ns) = length ns"
  using count_fold_bounds [of "\<lparr>nc_total = length ns, nc_available = 0, nc_idle = 0, nc_cpus = 0, nc_gpus = 0, nc_mem = 0\<rparr>" ns]
  by (simp_all add: count_nodes_def)

text \<open>One queue whose limit cannot be read takes the whole answer with it.\<close>

lemma bad_walltime_loses_all_queues:
  "(name, q) \<in> set qs \<Longrightarrow> parse_pbs_walltime (attr_or_empty q ''resources_max.walltime'') = Inl Cannot_Parse \<Longrightarrow>
    queue_rows t qs = Inl Cannot_Parse"
proof (induction qs)
  case (Cons p qs)
  obtain n a where p: "p = (n, a)" by (cases p)
  show ?case
  proof (cases "queue_row_of t a")
    case (Inl e)
    then show ?thesis by (cases e) (simp add: p)
  next
    case (Inr r)
    then have "(name, q) \<in> set qs" using Cons.prems by (auto simp: p queue_row_of_def)
    then show ?thesis using Cons by (simp add: p Inr)
  qed
qed simp

end
