(* ===== verification/Queue_Cache.thy ===== *)
theory Queue_Cache
  imports Scheduler_Text
begin

text \<open>
  The cache of \<^verbatim>\<open>queue_info.py\<close>: requests and their keys, \<open>_get_cached\<close> as its three parts (the look-up under the lock,
  the collector outside of it, the store under the lock), and the filter that \<open>get_info\<close> applies.  Several requests
  may be under way; what a collector returns and the clock are inputs.
\<close>

section \<open>Requests and their keys\<close>

datatype info_request = Info "string option" | Jobs string "string option" | All_Jobs "string option" | Allocations "string option"

definition resolve_user :: "string \<Rightarrow> string option \<Rightarrow> string option" where
  "resolve_user me u = (case u of None \<Rightarrow> Some me | Some s \<Rightarrow> if s = ''*'' then None else Some s)"

fun resolve :: "string \<Rightarrow> info_request \<Rightarrow> info_request" where
  "resolve me (Info u) = Info (resolve_user me u)"
| "resolve me (Jobs q u) = Jobs q (resolve_user me u)"
| "resolve me (All_Jobs u) = All_Jobs (resolve_user me u)"
| "resolve me (Allocations u) = Allocations (resolve_user me u)"

definition user_text :: "string option \<Rightarrow> string" where
  "user_text u = (case u of None \<Rightarrow> ''None'' | Some s \<Rightarrow> s)"

text \<open>The key of a resolved request.\<close>

fun cache_key :: "info_request \<Rightarrow> string" where
  "cache_key (Info u) = ''info:'' @ user_text u"
| "cache_key (Jobs q u) = ''jobs:'' @ q @ '':'' @ user_text u"
| "cache_key (All_Jobs u) = ''all_jobs:'' @ user_text u"
| "cache_key (Allocations u) = ''alloc:'' @ user_text u"

section \<open>The cache\<close>

text \<open>The answers are those of the collectors.  The ghost \<open>h_stores\<close> is the list of stores so far, the newest first, with
  the resolved request, its result, the time its collector started at and the time of the store; \<open>h_answers\<close> are the
  answers given, with their call, their request and the result, and whether the cache gave them.\<close>

record cached_call =
  cc_id :: nat
  cc_request :: info_request
  cc_started :: rat

record 'a queue_store =
  st_request :: info_request
  st_result :: 'a
  st_started :: rat
  st_at :: rat

record 'a queue_answer =
  an_id :: nat
  an_request :: info_request
  an_result :: "'a option"
  an_at :: rat
  an_hit :: bool

record 'a qcache =
  qc_cache :: "(string \<times> 'a) list"
  qc_time :: "(string \<times> rat) list"
  qc_calls :: "cached_call list"
  h_next :: nat
  h_stores :: "'a queue_store list"
  h_answers :: "'a queue_answer list"

definition cache_ttl :: rat where
  "cache_ttl = 60"

definition look_up :: "rat \<Rightarrow> string \<Rightarrow> 'a qcache \<Rightarrow> 'a option" where
  "look_up now k c = (case dget (qc_cache c) k of
     None \<Rightarrow> None
   | Some r \<Rightarrow> if now - (case dget (qc_time c) k of None \<Rightarrow> 0 | Some t \<Rightarrow> t) < cache_ttl then Some r else None)"

definition store :: "rat \<Rightarrow> string \<Rightarrow> 'a \<Rightarrow> 'a qcache \<Rightarrow> 'a qcache" where
  "store now k r c = c\<lparr>qc_cache := dset k r (qc_cache c), qc_time := dset k now (qc_time c)\<rparr>"

text \<open>A request arrives: the cache answers it, or its collector starts.\<close>

definition info_begin :: "string \<Rightarrow> rat \<Rightarrow> bool \<Rightarrow> info_request \<Rightarrow> 'a qcache \<Rightarrow> 'a qcache" where
  "info_begin me now force req c =
    (let r = resolve me req; i = h_next c; c1 = c\<lparr>h_next := Suc i\<rparr>
     in case (if force then None else look_up now (cache_key r) c) of
          Some v \<Rightarrow> c1\<lparr>h_answers := \<lparr>an_id = i, an_request = r, an_result = Some v, an_at = now, an_hit = True\<rparr> # h_answers c\<rparr>
        | None \<Rightarrow> c1\<lparr>qc_calls := qc_calls c @ [\<lparr>cc_id = i, cc_request = r, cc_started = now\<rparr>]\<rparr>)"

text \<open>The collector of a call comes back with a result, or raises.\<close>

definition info_end :: "rat \<Rightarrow> cached_call \<Rightarrow> 'a option \<Rightarrow> 'a qcache \<Rightarrow> 'a qcache" where
  "info_end now call res c =
    (let c1 = c\<lparr>qc_calls := remove1 call (qc_calls c),
        h_answers := \<lparr>an_id = cc_id call, an_request = cc_request call, an_result = res, an_at = now, an_hit = False\<rparr> # h_answers c\<rparr>
     in case res of
          None \<Rightarrow> c1
        | Some r \<Rightarrow> (store now (cache_key (cc_request call)) r c1)
            \<lparr>h_stores := \<lparr>st_request = cc_request call, st_result = r, st_started = cc_started call, st_at = now\<rparr> # h_stores c\<rparr>)"

definition qcache0 :: "'a qcache" where
  "qcache0 = \<lparr>qc_cache = [], qc_time = [], qc_calls = [], h_next = 0, h_stores = [], h_answers = []\<rparr>"

inductive cache_step :: "string \<Rightarrow> 'a qcache \<Rightarrow> 'a qcache \<Rightarrow> bool" for me :: string where
  Begin: "cache_step me c (info_begin me now force req c)"
| End: "call \<in> set (qc_calls c) \<Longrightarrow> cache_step me c (info_end now call res c)"

inductive cache_reach :: "string \<Rightarrow> 'a qcache \<Rightarrow> bool" for me :: string where
  Start: "cache_reach me qcache0"
| Step: "cache_reach me c \<Longrightarrow> cache_step me c c' \<Longrightarrow> cache_reach me c'"

inductive_cases cache_stepE: "cache_step me c c'"

section \<open>The filter of get info\<close>

text \<open>\<open>_collect_info_filtered\<close>: the rows sorted by name; \<open>None\<close> for the names allows them all.\<close>

definition filter_queues :: "string list option \<Rightarrow> (string \<times> 'b) list \<Rightarrow> (string \<times> 'b) list" where
  "filter_queues allowed queues =
    map (\<lambda>k. (k, the (dget queues k)))
      (filter (\<lambda>k. case allowed of None \<Rightarrow> True | Some names \<Rightarrow> k \<in> set names) (sort (map fst queues)))"

definition collect_info_filtered ::
  "(unit \<Rightarrow> sched_error + (string \<times> 'b) list) \<Rightarrow> (string \<Rightarrow> string list option) \<Rightarrow> string option \<Rightarrow> sched_error + (string \<times> 'b) list" where
  "collect_info_filtered collect partitions user =
    rbind (collect ()) (\<lambda>queues. Inr (filter_queues (case user of None \<Rightarrow> None | Some u \<Rightarrow> partitions u) queues))"

section \<open>The cache as a log\<close>

lemmas cache_defs = info_begin_def info_end_def store_def Let_def

definition last_store :: "string \<Rightarrow> 'a qcache \<Rightarrow> 'a queue_store option" where
  "last_store k c = find (\<lambda>s. cache_key (st_request s) = k) (h_stores c)"

definition cache_log_ok :: "'a qcache \<Rightarrow> bool" where
  "cache_log_ok c \<longleftrightarrow> (\<forall>k. dget (qc_cache c) k = map_option st_result (last_store k c) \<and>
     dget (qc_time c) k = map_option st_at (last_store k c))"

lemma cache_reach_induct [consumes 1, case_names Start Begin End]:
  assumes "cache_reach me c" and "P qcache0"
    and "\<And>c now force req. cache_reach me c \<Longrightarrow> P c \<Longrightarrow> P (info_begin me now force req c)"
    and "\<And>c now call res. cache_reach me c \<Longrightarrow> P c \<Longrightarrow> call \<in> set (qc_calls c) \<Longrightarrow> P (info_end now call res c)"
  shows "P c"
  using assms(1) by (induction rule: cache_reach.induct) (auto elim!: cache_stepE intro: assms(2-4))

lemma info_begin_frame [simp]:
  "qc_cache (info_begin me now force req c) = qc_cache c" "qc_time (info_begin me now force req c) = qc_time c"
  "h_stores (info_begin me now force req c) = h_stores c" "h_next (info_begin me now force req c) = Suc (h_next c)"
  by (simp_all add: info_begin_def Let_def split: option.splits)

lemma reach_log_ok: "cache_reach me c \<Longrightarrow> cache_log_ok c"
proof (induction rule: cache_reach_induct)
  case Start
  then show ?case by (simp add: cache_log_ok_def qcache0_def last_store_def)
next
  case (Begin c now force req)
  then show ?case by (simp add: cache_log_ok_def last_store_def)
next
  case (End c now call res)
  then show ?case by (cases res) (auto simp: cache_log_ok_def last_store_def cache_defs)
qed

lemma look_up_log:
  assumes "cache_reach me c"
  shows "look_up now k c = (case last_store k c of
    None \<Rightarrow> None | Some s \<Rightarrow> if now - st_at s < cache_ttl then Some (st_result s) else None)"
  using reach_log_ok [OF assms] by (simp add: cache_log_ok_def look_up_def split: option.splits)

lemma last_store_in: "last_store k c = Some s \<Longrightarrow> s \<in> set (h_stores c) \<and> cache_key (st_request s) = k"
  by (auto simp: last_store_def find_Some_iff)

text \<open>Each answer: from the cache, under the key of a store not older than the limit; or from its own collector.\<close>

definition answer_ok :: "'a queue_store list \<Rightarrow> 'a queue_answer \<Rightarrow> bool" where
  "answer_ok ss a \<longleftrightarrow> (an_hit a \<longrightarrow> (\<exists>s \<in> set ss. cache_key (st_request s) = cache_key (an_request a) \<and>
     an_result a = Some (st_result s) \<and> an_at a - st_at s < cache_ttl))"

lemma answer_ok_more: "answer_ok ss a \<Longrightarrow> answer_ok (s # ss) a"
  by (auto simp: answer_ok_def)

lemma answer_ok_collector: "\<not> an_hit a \<Longrightarrow> answer_ok ss a"
  by (simp add: answer_ok_def)

lemma reach_answers_ok: "cache_reach me c \<Longrightarrow> \<forall>a \<in> set (h_answers c). answer_ok (h_stores c) a"
proof (induction rule: cache_reach_induct)
  case Start
  then show ?case by (simp add: qcache0_def)
next
  case (Begin c now force req)
  let ?k = "cache_key (resolve me req)"
  show ?case
  proof (cases "if force then None else look_up now ?k c")
    case None
    then show ?thesis using Begin by (simp add: info_begin_def Let_def)
  next
    case (Some v)
    then obtain s where s: "last_store ?k c = Some s" "now - st_at s < cache_ttl" "v = st_result s"
      using look_up_log [OF Begin(1)] by (auto split: if_splits option.splits)
    with Some Begin last_store_in [OF s(1)] show ?thesis
      by (auto simp: info_begin_def Let_def answer_ok_def)
  qed
next
  case (End c now call res)
  then show ?case by (cases res) (auto simp: cache_defs answer_ok_more answer_ok_collector)
qed

text \<open>Each request is under way or has its one answer.\<close>

lemma reach_ids:
  "cache_reach me c \<Longrightarrow> distinct (map cc_id (qc_calls c) @ map an_id (h_answers c)) \<and>
     set (map cc_id (qc_calls c) @ map an_id (h_answers c)) = {..<h_next c}"
proof (induction rule: cache_reach_induct)
  case Start
  then show ?case by (simp add: qcache0_def)
next
  case (Begin c now force req)
  then show ?case
    by (auto simp: info_begin_def Let_def lessThan_Suc split: option.splits)
next
  case (End c now call res)
  obtain xs ys where "qc_calls c = xs @ call # ys" "call \<notin> set xs" using split_list_first [OF End(2)] by auto
  with End show ?case
    by (cases res) (auto simp: cache_defs remove1_append)
qed

section \<open>Keys\<close>

text \<open>The user of a resolved request; \<open>plain_request\<close> holds when it is not called \<open>None\<close> and has no colon.\<close>

fun request_user :: "info_request \<Rightarrow> string option" where
  "request_user (Info u) = u"
| "request_user (Jobs q u) = u"
| "request_user (All_Jobs u) = u"
| "request_user (Allocations u) = u"

definition plain_request :: "info_request \<Rightarrow> bool" where
  "plain_request r \<longleftrightarrow> request_user r \<noteq> Some ''None'' \<and> CHR '':'' \<notin> set (user_text (request_user r))"

lemma user_text_inject: "u \<noteq> Some ''None'' \<Longrightarrow> v \<noteq> Some ''None'' \<Longrightarrow> user_text u = user_text v \<Longrightarrow> u = v"
  by (auto simp: user_text_def split: option.splits)

lemma last_colon_unique: "CHR '':'' \<notin> set u \<Longrightarrow> CHR '':'' \<notin> set v \<Longrightarrow> q @ CHR '':'' # u = p @ CHR '':'' # v \<Longrightarrow> q = p \<and> u = v"
  by (auto simp: append_eq_append_conv2 Cons_eq_append_conv append_eq_Cons_conv)

lemma cache_key_inject: "plain_request r \<Longrightarrow> plain_request s \<Longrightarrow> cache_key r = cache_key s \<Longrightarrow> r = s"
  by (cases r; cases s) (simp_all add: plain_request_def, (metis user_text_inject last_colon_unique)+)

text \<open>C40. Every request to the queue information is waiting for its collector or has been answered once; and when
  the requests are for users without a colon and not called \<open>None\<close>, an answer from the cache is what an earlier
  collector returned to the very same request, stored less than the cache's lifetime before, whatever requests,
  collectors and failures come in between.\<close>

theorem cache_answers_own_request:
  assumes "cache_reach me c" and "\<forall>s \<in> set (h_stores c). plain_request (st_request s)"
  shows "distinct (map cc_id (qc_calls c) @ map an_id (h_answers c)) \<and>
    set (map cc_id (qc_calls c) @ map an_id (h_answers c)) = {..<h_next c} \<and>
    (\<forall>a \<in> set (h_answers c). an_hit a \<and> plain_request (an_request a) \<longrightarrow>
       (\<exists>s \<in> set (h_stores c). st_request s = an_request a \<and> an_result a = Some (st_result s) \<and> an_at a - st_at s < cache_ttl))"
proof -
  have "\<exists>s \<in> set (h_stores c). st_request s = an_request a \<and> an_result a = Some (st_result s) \<and> an_at a - st_at s < cache_ttl"
    if "a \<in> set (h_answers c)" "an_hit a" "plain_request (an_request a)" for a
    using reach_answers_ok [OF assms(1)] assms(2) cache_key_inject that by (fastforce simp: answer_ok_def)
  with reach_ids [OF assms(1)] show ?thesis by blast
qed

definition cache_run :: "nat qcache" where
  "cache_run =
    (let c1 = info_begin ''me'' 0 False (Jobs ''debug'' None) qcache0;
         c2 = info_end 5 \<lparr>cc_id = 0, cc_request = Jobs ''debug'' (Some ''me''), cc_started = 0\<rparr> (Some 7) c1
     in info_begin ''me'' 20 False (Jobs ''debug'' (Some ''me'')) c2)"

lemma cache_run_reach: "cache_reach ''me'' cache_run"
  unfolding cache_run_def Let_def
  by (intro cache_reach.Step [OF _ cache_step.Begin] cache_reach.Step [OF _ cache_step.End] cache_reach.Start) code_simp

theorem cache_answers_own_request_witness:
  "map an_id (h_answers cache_run) = [1, 0] \<and>
   (\<exists>s \<in> set (h_stores cache_run). st_request s = Jobs ''debug'' (Some ''me'') \<and> Some 7 = Some (st_result s) \<and> 20 - st_at s < cache_ttl)"
proof -
  let ?a = "\<lparr>an_id = 1, an_request = Jobs ''debug'' (Some ''me''), an_result = Some (7 :: nat), an_at = 20, an_hit = True\<rparr>"
  have a: "hd (h_answers cache_run) = ?a" "map an_id (h_answers cache_run) = [1, 0]" "h_answers cache_run \<noteq> []"
    by code_simp+
  then have "?a \<in> set (h_answers cache_run)" by (metis list.set_sel(1))
  moreover have "list_all (\<lambda>s. plain_request (st_request s)) (h_stores cache_run)" "plain_request (an_request ?a)" by code_simp+
  ultimately show ?thesis
    using cache_answers_own_request [OF cache_run_reach] a(2) by (fastforce simp: list_all_iff)
qed

section \<open>What the keys and the stores lose\<close>

text \<open>A listing for all users is stored under the key of a user called \<open>None\<close>, who is then given it unfiltered.\<close>

lemma none_user_given_all:
  "look_up 30 (cache_key (resolve ''me'' (Info (Some ''None''))))
     (info_end 5 \<lparr>cc_id = 0, cc_request = Info None, cc_started = 0\<rparr> (Some (7 :: nat))
       (info_begin ''me'' 0 False (Info (Some ''*'')) qcache0)) = Some 7"
  by code_simp

text \<open>A collector that started first and comes back last replaces what a later, forced one has read, and its result
  passes for new: here the answer at 100 was read at 0, and the one that was read at 10 is gone.\<close>

lemma older_listing_replaces_newer:
  "look_up 100 ''all_jobs:me''
     (info_end 50 \<lparr>cc_id = 0, cc_request = All_Jobs (Some ''me''), cc_started = 0\<rparr> (Some (1 :: nat))
       (info_end 20 \<lparr>cc_id = 1, cc_request = All_Jobs (Some ''me''), cc_started = 10\<rparr> (Some 2)
         (info_begin ''me'' 10 True (All_Jobs None)
           (info_begin ''me'' 0 True (All_Jobs None) qcache0)))) = Some 1"
  by code_simp

section \<open>The filtered rows\<close>

lemma filter_queues_names:
  "map fst (filter_queues allowed queues) =
    filter (\<lambda>k. case allowed of None \<Rightarrow> True | Some names \<Rightarrow> k \<in> set names) (sort (map fst queues))"
  by (simp add: filter_queues_def comp_def)

lemma filter_queues_sorted: "sorted (map fst (filter_queues allowed queues))"
  unfolding filter_queues_names by (simp add: sorted_wrt_filter)

lemma filter_queues_rows:
  assumes "dict_ok queues"
  shows "(k, v) \<in> set (filter_queues allowed queues) \<longleftrightarrow>
    (k, v) \<in> set queues \<and> (case allowed of None \<Rightarrow> True | Some names \<Rightarrow> k \<in> set names)"
proof -
  have "k \<in> fst ` set queues \<and> v = the (dget queues k) \<longleftrightarrow> (k, v) \<in> set queues"
    using dict_ok_dget [OF assms] by (metis fst_conv image_eqI map_of_eq_None_iff option.collapse option.sel)
  then show ?thesis by (auto simp: filter_queues_def)
qed

end
