(* ===== verification/Spec2Isabelle.thy ===== *)
theory Spec2Isabelle
  imports Event_Router Dispatcher_Drain Notify_Batch Federation_System Broker_Safety
    Plugin_Session_Safety Runtime_Subscription_Safety
    Runtime_Call_Safety Replay_System Queue_Cache
begin

text \<open>
  A verification development for radical.orbit.  All file names are relative to
  \<^verbatim>\<open>src/src/radical/orbit/\<close>.

  \<^bold>\<open>The program.\<close>  A broker connects clients and compute endpoints.  It routes the events that plugins emit to the
  participants that subscribed to them, and it hosts plugins.  Two hosted plugins carry the resource logic: the task
  dispatcher keeps pools of pilots (batch jobs that run tasks), decides where a task runs and when a pilot is
  submitted, and persists every pool; the federation maps a set of named resources onto class pools of the
  dispatcher, one member per resource shape, and keeps them attached while their endpoint is reachable.

  \<^bold>\<open>Foundations.\<close>
  \<^item> \<open>Orbit_Prelude\<close>: the Python values that the program exchanges (\<open>pyval\<close>), floats as exact rationals with the
    non-finite values, insertion-ordered dictionaries (\<open>dget\<close>, \<open>dset\<close>, \<open>ddel\<close>), results with an error side (\<open>rbind\<close>),
    the stable sort, and the named collections of simplification rules.  \<open>Py_Numbers\<close>: \<open>float(x)\<close> and \<open>int(x)\<close>.
  \<^item> \<open>Durable_Store\<close> (\<^verbatim>\<open>task_dispatcher_state.py\<close>): \<open>write_json_atomic\<close> and \<open>read_json\<close> as the sequence of system
    calls they issue, a crash after any of them; the locale \<open>durable_store\<close> is what a client relies on, interpreted
    on the file itself, on pool state and on federation state.

  \<^bold>\<open>The event path.\<close>
  \<^item> \<open>Drop_Oldest_Queue\<close> (\<^verbatim>\<open>queues.py\<close>): the bounded queue and the resumable \<open>drain\<close> generator; the locale
    \<open>drop_oldest\<close> is its contract and is interpreted on it.
  \<^item> \<open>Event_Router\<close> (\<^verbatim>\<open>broker_events.py\<close>, \<open>SubscribePattern\<close> of \<^verbatim>\<open>protocol.py\<close>): parsing of patterns, the
    per-stream index, sequence numbers, fan-out, the sender of each participant.  Shown: the index delivers to exactly
    the participants with a matching pattern; sequence numbers of a session strictly increase while it stays in the
    table; the table is bounded; a queued event always finds a sender that will run.
  \<^item> \<open>Notify_Batch\<close> (\<^verbatim>\<open>plugin_rhapsody.py\<close>, \<open>_queue_notification\<close> to \<open>_split_frames\<close>; \<^verbatim>\<open>plugin_task_dispatcher.py\<close>,
    \<open>_queue_rh_notification\<close> to \<open>_flush_rh\<close>): the two batching windows over the locales \<open>frame_splitter\<close> and
    \<open>flush_window\<close>.  Shown: no notification is lost, duplicated or reordered by a window; a dirty pool is written; a
    frame of either kind is read back as the items put in.

  \<^bold>\<open>The broker.\<close>
  \<^item> \<open>Broker\<close> (\<^verbatim>\<open>broker.py\<close> with \<open>is_reserved\<close>, \<open>broker_caps_entry\<close>, \<open>public_topology\<close> and \<open>ParticipantInfo\<close> of
    \<^verbatim>\<open>protocol.py\<close>, \<open>tokens_match\<close> of \<^verbatim>\<open>utils.py\<close>): the tables of \<open>Broker.__init__\<close> as the record \<open>broker\<close> with the
    event router inside; registration and resume, frame routing, the calls in flight, liveness, the reaper and the
    topology.  A coroutine that awaits in the middle is a \<open>bk_job\<close>: the broadcast after each socket it sends to, the
    loop over calls after each answer.  \<open>bk_do\<close> performs one input or one section of one job, so \<open>bk_step\<close> interleaves
    them in any order; \<open>bk_inv\<close> is what they keep.
  \<^item> \<open>Broker_Safety\<close>: who may own a name, the bound on the calls in flight, termination of the jobs, what the loss and
    the resume of an endpoint do to calls and queued events, and closed runs of the inputs that break the broker.

  \<^bold>\<open>The endpoint runtime.\<close>
  \<^item> \<open>Runtime_Subscriptions\<close> (\<^verbatim>\<open>runtime.py\<close>, \<open>register_callback\<close> to \<open>_on_event\<close>): the callback registry, the
    counted patterns on the wire, holds, the move to session patterns, the resync; then runtime, outbox and the
    router of \<open>Event_Router\<close> as one system with lost connections.
  \<^item> \<open>Runtime_Subscription_Safety\<close>: the counts are exact; no event that a callback would get is filtered out at the
    broker; after a resume a withdrawn pattern stays there.

  \<^item> \<open>Runtime_Calls\<close> (\<^verbatim>\<open>runtime.py\<close>, \<open>_emit\<close> to \<open>call\<close> and \<open>_on_topology\<close>; \<^verbatim>\<open>dispatch.py\<close>, \<open>match_route\<close>): admission,
    dispatch and answer of a request, the runtime's own calls, and the synthesized losses.  \<open>Runtime_Call_Safety\<close>: a
    request is answered once and within the cap, a call ends once with its own response, the owner header is the
    broker's whatever the client sends, a vanished participant is told lost once.

  \<^bold>\<open>Event replay.\<close>
  \<^item> \<open>Replay_Buffer\<close> (\<^verbatim>\<open>plugin_replay.py\<close>): \<open>_RingBuffer\<close> as the record \<open>ring\<close>, the plugin with its buffer per session
    stream and its stream records, \<open>_on_event\<close> (\<open>retain_event\<close>), \<open>_evict_aged\<close>, \<open>_route_fetch\<close> with the merge of several
    streams, \<open>_route_stats\<close>, and the client's \<open>replay_iter\<close> with what happens to the plugin between its requests.
  \<^item> \<open>Replay_Safety\<close>: each buffer against the history of its stream, one fetch, a drain, its end, the byte bounds and
    what a sweep removes.  \<open>Replay_System\<close>: the plugin behind the event router and the host loop.  Shown: a drain without
    a reported gap yields each event once; buffers stay within their bounds; a swept stream hides its loss.

  \<^bold>\<open>Plugin sessions.\<close>
  \<^item> \<open>Plugin_Sessions\<close> (\<^verbatim>\<open>plugin_base.py\<close>): the registry that every plugin inherits.  \<open>_validate_session_policy\<close>,
    \<open>register_session\<close>, the wrapper \<open>_accessing\<close> around a route with \<open>_forward\<close> inside, \<open>_expire_if_due\<close>, the sweep,
    \<open>unregister_session\<close> and \<open>shutdown\<close>, as sections between awaits that \<open>pl_do\<close> performs one at a time.
  \<^item> \<open>Plugin_Session_Safety\<close>: its invariant; that only an idle session past its deadline expires; that an ended one
    answers 410 while it is remembered; what a sweep ends.

  \<^bold>\<open>The local scheduler.\<close>
  \<^item> \<open>Py_Strings\<close>: string methods.  \<open>Scheduler_Text\<close> (\<^verbatim>\<open>batch_system_pbs.py\<close>, \<^verbatim>\<open>batch_system_slurm.py\<close>,
    \<^verbatim>\<open>queue_info_pbs.py\<close>, \<^verbatim>\<open>queue_info_slurm.py\<close>): what is read off the output of PBS and Slurm commands.  Shown: what
    \<open>qstat -f\<close> says of several jobs is read back, what access lists decide, which node counts come out.
  \<^item> \<open>Queue_Cache\<close> (\<^verbatim>\<open>queue_info.py\<close>): the cache as a log of stores under overlapping requests; a request is
    answered once and from its own listing, except for the users that the keys confuse.

  \<^bold>\<open>The task dispatcher.\<close>
  \<^item> \<open>Dispatcher_Match\<close> (\<^verbatim>\<open>task_dispatcher_match.py\<close>), \<open>Dispatcher_Config\<close> (\<^verbatim>\<open>task_dispatcher_config.py\<close>),
    \<open>Dispatcher_State\<close> (\<^verbatim>\<open>task_dispatcher_state.py\<close>), \<open>Policy_Registry\<close> (\<^verbatim>\<open>task_dispatcher_policy.py\<close>),
    \<open>Dispatcher_Requirements\<close> (\<^verbatim>\<open>plugin_task_dispatcher.py\<close>, \<open>parse_requirements\<close> to \<open>backend_kwargs\<close>): matching,
    declarations, records, the policy registry and the submit gate.
  \<^item> \<open>Pool_State\<close> (\<open>PoolState\<close>, \<open>TaskDispatcherSession.is_busy\<close>), \<open>Dispatcher_Policy\<close> (the base policy and
    \<^verbatim>\<open>task_dispatcher_strategy_conservative.py\<close>; locales \<open>dispatch_policy\<close> and \<open>ext_sound\<close>).
  \<^item> \<open>Dispatcher_Runtime\<close>: every handler of a pool as atomic sections between two awaits, from \<open>_claim\<close> and
    \<open>_drain_pending\<close> to \<open>_finalize_pilot\<close>, \<open>_handle_task_terminal\<close>, \<open>_cancel_task\<close> and the pilot coroutines.  An
    effect list stands for what a section starts or sends.  \<open>Dispatcher_Members\<close>: the member routes.
  \<^item> \<open>Dispatcher_Invariant\<close>, \<open>Dispatcher_System\<close>, \<open>Dispatcher_Drain\<close>: the pool invariant, the step relation that
    interleaves requests, events, ticks and outstanding coroutines in any order, and what holds in every reachable
    pool: consistent placement, bounded re-queues, fixed charges, ended tasks stay ended, a drain leaves nothing
    servable behind.
  \<^item> \<open>Dispatcher_Session\<close> (\<open>register_session\<close>, \<open>_materialise_pool\<close>, the route level of the members),
    \<open>Dispatcher_Routes\<close> (\<open>_route_submit\<close>, \<open>_route_submit_rh\<close>, \<open>_route_get_task\<close>, \<open>_route_cancel_task\<close>,
    \<open>_teardown_session_pools\<close>, the inline inputs, the member summary of a pool): all sessions and their pools.

  \<^bold>\<open>The federation.\<close>
  \<^item> \<open>Federation_State\<close> (\<^verbatim>\<open>federation_state.py\<close>): records, their JSON forms, the store and the declaration checks.
    \<open>Federation_Policy\<close> (\<^verbatim>\<open>federation_policy.py\<close>).  \<open>Federation_Join\<close> (\<^verbatim>\<open>plugin_federation.py\<close>): a join body to
    members, and members to the declarations of the dispatcher.  Shown: what a join builds, the dispatcher accepts.
  \<^item> \<open>Federation_Usage\<close>, \<open>Federation_Plugin\<close>, \<open>Federation_Routes\<close>: the usage rows, the plugin state with replay and
    topology handling, and the routes, all over an abstract \<open>dispatcher_api\<close>.
  \<^item> \<open>Federation_Contract\<close>: the locale \<open>class_pools\<close> says what the federation relies on (which members a class pool
    lists after each call), and the lemmas inside it show that every route keeps \<open>fed_inv\<close>.
    \<open>Federation_System\<close> interprets the locale on the dispatcher's own routes and draws the conclusions for every
    sequence of federation requests and restarts.

  \<^bold>\<open>Conventions.\<close>  A record field carries a short prefix and the name of the Python attribute.  A raise is a value on
  the left of a sum: an error datatype per component, with \<open>py_error\<close> for exceptions that the code does not mean to
  raise.  An HTTP error is its status.  A clock, a file system, an executor, a random choice and \<open>str\<close> of a value
  that is not a string are arguments.  Text of log and error messages is kept only where it is stored or compared.
  Floats are rationals: rounding of the last bit is not modelled, non-finite values are.  A \<open>string\<close> is a Python
  string of code points below 256.

  \<^bold>\<open>Bounds.\<close>  No definition uses fuel.  \<open>drain_loop\<close> takes the bound that the code itself uses, the length of the queue
  when the drain starts; that this is enough is proved in \<open>Dispatcher_Drain\<close>.  All other loops are structural
  recursions or folds over the collection that the code iterates.  \<open>replay_iter\<close>, a generator that may run for ever while
  events keep coming, takes the list of its rounds; that one round more than the buffer holds events is enough for it
  to end is proved in \<open>Replay_Safety\<close>.

  \<^bold>\<open>Interleaving.\<close>  In \<open>Dispatcher_System\<close> an action is one section between awaits, and actions of one pool interleave
  freely.  The federation handlers run without another federation handler in between: its awaits are calls on the
  dispatcher in the same process, and the dispatcher may change in between only by those calls.

  In \<open>Broker\<close> a handler may serve further frames of its socket while its own broadcast is still under way, which
  allows more runs than the code has.  \<open>_on_lost\<close> and the removal of a participant run to their first await at once.

  \<^bold>\<open>Not modelled.\<close>  Of the endpoint runtime: threads, connecting, the callback thread, the tunnel.
  Of the session registry: the route table, notifications, the status poller and the last-access
  shim of older plugins; a route is one that forwards to a session method.  Of the broker: start-up, shutdown, the thread of the plugin host, the HTTP side; the size of an
  outgoing frame counts only where the code tests it (\<open>_broker_call\<close>).  The HTTP and WebSocket transport, the process and thread management of broker and endpoints, and
  the JSON and msgpack encoders (a document is its decoded value).  The replay of the dispatcher's own directory tree at
  start (\<open>_replay_state\<close>; the decoding of each pool is modelled).  Remote staging of outputs.  The plugins that drive
  external services (psij, globus, iri, sfapi, xgfabric, lucid), running the scheduler commands, the JSON of
  the Slurm backend and the client library: they translate between a request and a third-party interface.  Task ids and pool names in a submit are
  strings.  An exception inside a usage refresh leaves that resource's row as it was.  \<open>b64decode\<close> is the strict form.
\<close>

end
